(* ===== verification/Prelude.thy ===== *)
theory Prelude
  imports Main "HOL-Library.Word" "HOL-Library.Monad_Syntax"
begin

unbundle bit_operations_syntax

text \<open>
  What the components share: the C integer conversions the code relies on, C strings and
  their comparison, the flat memory that character and lexem pointers point into, and
  generic lemmas on lists and options.

  A C \<open>int\<close> that cannot reach its limits is an \<^typ>\<open>int\<close>; a conversion that cuts a value
  to a width is written out (\<open>to_char\<close>, \<open>to_uchar\<close>, \<open>to_unsigned\<close>, \<open>to_int\<close>). A call that
  does not return, because an \<open>assert\<close> or \<open>FATAL_ERROR\<close> ends the process or because its
  loop never stops, is the value \<^const>\<open>None\<close>.
\<close>

section \<open>Collections of rules\<close>

named_theorems cconv \<open>conversions between the widths of C integers\<close>
named_theorems mem_simps \<open>reads and writes of the flat memory\<close>

section \<open>C integers\<close>

text \<open>A plain \<open>char\<close> is signed on the platforms the program is built for.\<close>

definition to_char :: "int \<Rightarrow> int" where
  "to_char x = (x + 128) mod 256 - 128"

definition to_uchar :: "int \<Rightarrow> int" where
  "to_uchar x = x mod 256"

definition to_unsigned :: "int \<Rightarrow> int" where
  "to_unsigned x = x mod 4294967296"

definition to_int :: "int \<Rightarrow> int" where
  "to_int x = (x + 2147483648) mod 4294967296 - 2147483648"

lemma to_uchar_id [cconv]: "0 \<le> x \<Longrightarrow> x < 256 \<Longrightarrow> to_uchar x = x"
  by (simp add: to_uchar_def)

lemma to_char_id [cconv]: "-128 \<le> x \<Longrightarrow> x < 128 \<Longrightarrow> to_char x = x"
  by (simp add: to_char_def)

lemma to_uchar_to_char [simp]: "to_uchar (to_char x) = to_uchar x"
  by (simp add: to_uchar_def to_char_def mod_diff_left_eq mod_diff_eq)

lemma to_uchar_range [simp]: "0 \<le> to_uchar x" "to_uchar x < 256" "to_uchar x \<le> 255"
proof -
  have "x mod 256 < (256::int)" by simp
  then show "0 \<le> to_uchar x" "to_uchar x < 256" "to_uchar x \<le> 255"
    by (simp_all add: to_uchar_def del: pos_mod_bound)
qed

lemma to_unsigned_id [cconv]: "0 \<le> x \<Longrightarrow> x < 4294967296 \<Longrightarrow> to_unsigned x = x"
  by (simp add: to_unsigned_def)

lemma to_unsigned_range [simp]: "0 \<le> to_unsigned x" "to_unsigned x < 4294967296"
  by (simp_all add: to_unsigned_def)

lemma to_int_id [cconv]: "-2147483648 \<le> x \<Longrightarrow> x < 2147483648 \<Longrightarrow> to_int x = x"
  by (simp add: to_int_def)

lemma to_int_to_unsigned [simp]: "to_int (to_unsigned x) = to_int x"
  by (simp add: to_int_def to_unsigned_def mod_add_left_eq)

section \<open>C strings\<close>

text \<open>
  Names are \<^typ>\<open>string\<close> values, without the terminating zero. \<open>strcmp\<close> compares the
  characters as unsigned bytes; only the sign of its result is used by the program.
\<close>

fun strcmp :: "string \<Rightarrow> string \<Rightarrow> int" where
  "strcmp [] [] = 0"
| "strcmp [] (d # ds) = -1"
| "strcmp (c # cs) [] = 1"
| "strcmp (c # cs) (d # ds) =
     (if (of_char c :: int) < of_char d then -1
      else if (of_char d :: int) < of_char c then 1
      else strcmp cs ds)"

lemma of_char_int_antisym:
  "\<not> (of_char c :: int) < of_char d \<Longrightarrow> \<not> (of_char d :: int) < of_char c \<Longrightarrow> c = d"
proof -
  assume "\<not> (of_char c :: int) < of_char d" "\<not> (of_char d :: int) < of_char c"
  then have "(of_char c :: int) = of_char d" by linarith
  then show "c = d" by simp
qed

lemma strcmp_eq_0 [simp]: "strcmp s t = 0 \<longleftrightarrow> s = t"
  by (induction s t rule: strcmp.induct) (auto dest: of_char_int_antisym)

lemma strcmp_refl [simp]: "strcmp s s = 0"
  by simp

lemma strcmp_antisym: "strcmp s t = - strcmp t s"
  by (induction s t rule: strcmp.induct) auto

lemma strcmp_swap: "strcmp s t < 0 \<longleftrightarrow> 0 < strcmp t s"
  using strcmp_antisym [of s t] by auto

lemma strcmp_trans: "strcmp s t < 0 \<Longrightarrow> strcmp t u < 0 \<Longrightarrow> strcmp s u < 0"
proof (induction s t arbitrary: u rule: strcmp.induct)
  case (2 d ds)
  then show ?case by (cases u) auto
next
  case (4 c cs d ds)
  from "4.prems"(2) obtain e es where u: "u = e # es" by (cases u) auto
  let ?c = "of_char c :: int" and ?d = "of_char d :: int" and ?e = "of_char e :: int"
  consider "?c < ?d" | "?c = ?d" "strcmp ds es < 0 \<or> ?d < ?e"
    using "4.prems" u by (fastforce split: if_splits)
  then show ?case
  proof cases
    case 1
    moreover have "?d \<le> ?e" using "4.prems"(2) u by (auto split: if_splits)
    ultimately show ?thesis using u by simp
  next
    case 2
    then show ?thesis using "4.prems" "4.IH" u by (auto split: if_splits)
  qed
qed auto

lemma strcmp_linear: "strcmp s t < 0 \<or> s = t \<or> strcmp t s < 0"
  using strcmp_antisym [of s t] strcmp_eq_0 [of s t] by linarith

section \<open>Flat memory\<close>

text \<open>
  Character and lexem buffers are read and written through pointers that the code moves
  freely. A memory maps addresses to signed \<open>char\<close> values; a pointer is an address.
\<close>

type_synonym memory_area = "int \<Rightarrow> int"

definition store_char :: "memory_area \<Rightarrow> int \<Rightarrow> int \<Rightarrow> memory_area" where
  "store_char m p v = m(p := to_char v)"

definition load_uchar :: "memory_area \<Rightarrow> int \<Rightarrow> int" where
  "load_uchar m p = to_uchar (m p)"

lemma load_store_same [mem_simps]: "load_uchar (store_char m p v) p = to_uchar v"
  by (simp add: load_uchar_def store_char_def)

lemma load_store_other [mem_simps]: "p \<noteq> q \<Longrightarrow> load_uchar (store_char m p v) q = load_uchar m q"
  by (simp add: load_uchar_def store_char_def)

lemma store_char_other [mem_simps]: "p \<noteq> q \<Longrightarrow> store_char m p v q = m q"
  by (simp add: store_char_def)

fun store_bytes :: "memory_area \<Rightarrow> int \<Rightarrow> int list \<Rightarrow> memory_area" where
  "store_bytes m p [] = m"
| "store_bytes m p (b # bs) = store_bytes (store_char m p b) (p + 1) bs"

lemma store_bytes_below: "q < p \<Longrightarrow> store_bytes m p bs q = m q"
  by (induction m p bs rule: store_bytes.induct) (simp_all add: store_char_def)

lemma store_bytes_above: "p + int (length bs) \<le> q \<Longrightarrow> store_bytes m p bs q = m q"
  by (induction m p bs rule: store_bytes.induct) (simp_all add: store_char_def)

lemma store_bytes_at: "i < length bs \<Longrightarrow> store_bytes m p bs (p + int i) = to_char (bs ! i)"
proof (induction m p bs arbitrary: i rule: store_bytes.induct)
  case (2 m p b bs)
  show ?case
  proof (cases i)
    case 0
    then show ?thesis by (simp add: store_bytes_below store_char_def)
  next
    case (Suc k)
    then show ?thesis using 2(1) [of k] 2(2) by (simp add: add.assoc)
  qed
qed simp

lemma map_store_bytes: "map (store_bytes m p bs) [p..p + int (length bs) - 1] = map to_char bs"
proof (rule nth_equalityI)
  fix i assume "i < length (map (store_bytes m p bs) [p..p + int (length bs) - 1])"
  then have "i < length bs" by simp
  then show "map (store_bytes m p bs) [p..p + int (length bs) - 1] ! i = map to_char bs ! i"
    by (simp add: store_bytes_at)
qed simp

section \<open>Lists and options\<close>

text \<open>The suffix of a list that a search loop stops at.\<close>

lemma takeWhile_dropWhile_all: "(\<forall>x\<in>set xs. P x) \<Longrightarrow> dropWhile P xs = []"
  by (induction xs) auto

lemma bind_eq_Some_iff:
  "Option.bind x f = Some y \<longleftrightarrow> (\<exists>a. x = Some a \<and> f a = Some y)"
  by (cases x) auto

lemma sorted_wrt_insert_mid:
  assumes "transp P" "sorted_wrt P (xs @ ys)"
    and "\<forall>x\<in>set xs. P x z" "\<forall>y\<in>set ys. P z y"
  shows "sorted_wrt P (xs @ z # ys)"
  using assms by (auto simp: sorted_wrt_append)

end
