(* ===== verification/Position.thy ===== *)
theory Position
  imports Prelude
begin

text \<open>
  Models \<^verbatim>\<open>position.c\<close>, \<^verbatim>\<open>usage.c\<close>, \<^verbatim>\<open>timestamp.c\<close> and \<^verbatim>\<open>hash.c\<close>: positions in files and
  their order, the kinds of references and their importance, file times, and the string
  hash every table of the program uses. A position and a usage are values of ordered
  types: the library's \<open>linorder\<close> is instantiated with the code's comparisons.
\<close>

section \<open>Positions\<close>

datatype position = Position (pos_file: int) (pos_line: int) (pos_col: int)

definition makePosition :: "int \<Rightarrow> int \<Rightarrow> int \<Rightarrow> position" where
  "makePosition f l c = Position f l c"

definition noPosition :: "int \<Rightarrow> position" where
  "noPosition noFileNumber = Position noFileNumber (-1) (-1)"

definition addPositions :: "position \<Rightarrow> position \<Rightarrow> position" where
  "addPositions p1 p2 = makePosition (pos_file p1 + pos_file p2) (pos_line p1 + pos_line p2) (pos_col p1 + pos_col p2)"

definition subtractPositions :: "position \<Rightarrow> position \<Rightarrow> position" where
  "subtractPositions minuend subtrahend =
     makePosition (pos_file minuend - pos_file subtrahend) (pos_line minuend - pos_line subtrahend)
       (pos_col minuend - pos_col subtrahend)"

definition positionsAreEqual :: "position \<Rightarrow> position \<Rightarrow> bool" where
  "positionsAreEqual p1 p2 \<longleftrightarrow> pos_file p1 = pos_file p2 \<and> pos_line p1 = pos_line p2 \<and> pos_col p1 = pos_col p2"

definition positionsAreNotEqual :: "position \<Rightarrow> position \<Rightarrow> bool" where
  "positionsAreNotEqual p1 p2 \<longleftrightarrow> \<not> positionsAreEqual p1 p2"

definition positionIsLessThan :: "position \<Rightarrow> position \<Rightarrow> bool" where
  "positionIsLessThan p1 p2 \<longleftrightarrow>
     pos_file p1 < pos_file p2
     \<or> (pos_file p1 = pos_file p2 \<and> (pos_line p1 < pos_line p2
                             \<or> (pos_line p1 = pos_line p2 \<and> pos_col p1 < pos_col p2)))"

definition positionIsLessOrEqualTo :: "position \<Rightarrow> position \<Rightarrow> bool" where
  "positionIsLessOrEqualTo p1 p2 \<longleftrightarrow> positionIsLessThan p1 p2 \<or> positionsAreEqual p1 p2"

definition positionIsBetween :: "position \<Rightarrow> position \<Rightarrow> position \<Rightarrow> bool" where
  "positionIsBetween thePosition before after \<longleftrightarrow>
     pos_file before = pos_file thePosition \<and> pos_file thePosition = pos_file after \<and>
     positionIsLessOrEqualTo before thePosition \<and>
     positionIsLessOrEqualTo thePosition after"

lemma positionsAreEqual_iff [simp]: "positionsAreEqual p q \<longleftrightarrow> p = q"
  by (cases p; cases q) (simp add: positionsAreEqual_def)

lemma positionsAreNotEqual_iff [simp]: "positionsAreNotEqual p q \<longleftrightarrow> p \<noteq> q"
  by (simp add: positionsAreNotEqual_def)

instantiation position :: linorder
begin

definition less_position_def: "p < q \<longleftrightarrow> positionIsLessThan p q" for p q :: position

definition less_eq_position_def: "p \<le> q \<longleftrightarrow> positionIsLessOrEqualTo p q" for p q :: position

instance
proof
  fix p q r :: position
  show "p < q \<longleftrightarrow> p \<le> q \<and> \<not> q \<le> p"
    by (cases p; cases q)
      (auto simp: less_position_def less_eq_position_def positionIsLessOrEqualTo_def
        positionIsLessThan_def)
  show "p \<le> p"
    by (simp add: less_eq_position_def positionIsLessOrEqualTo_def)
  show "p \<le> q \<Longrightarrow> q \<le> r \<Longrightarrow> p \<le> r"
    by (cases p; cases q; cases r)
      (auto simp: less_eq_position_def positionIsLessOrEqualTo_def positionIsLessThan_def)
  show "p \<le> q \<Longrightarrow> q \<le> p \<Longrightarrow> p = q"
    by (cases p; cases q)
      (auto simp: less_eq_position_def positionIsLessOrEqualTo_def positionIsLessThan_def)
  show "p \<le> q \<or> q \<le> p"
    by (cases p; cases q)
      (auto simp: less_eq_position_def positionIsLessOrEqualTo_def positionIsLessThan_def)
qed

end

lemma positionIsLessThan_iff [simp]: "positionIsLessThan p q \<longleftrightarrow> p < q"
  by (simp add: less_position_def)

lemma positionIsLessOrEqualTo_iff [simp]: "positionIsLessOrEqualTo p q \<longleftrightarrow> p \<le> q"
  by (simp add: less_eq_position_def)

lemma less_position_fields:
  "p < q \<longleftrightarrow> pos_file p < pos_file q \<or> (pos_file p = pos_file q \<and> (pos_line p < pos_line q \<or> (pos_line p = pos_line q \<and> pos_col p < pos_col q)))"
  for p q :: position
  unfolding less_position_def positionIsLessThan_def ..

lemma subtract_addPositions: "subtractPositions (addPositions p d) d = p"
  by (cases p) (simp add: subtractPositions_def addPositions_def makePosition_def)

section \<open>Usages\<close>

datatype usage =
    UsageOLBestFitDefined | UsageDefined | UsageDeclared | UsageLvalUsed | UsageAddrUsed
  | UsageUsed | UsageUndefinedMacro | UsageFork | UsageMaxOnLineVisibleUsages | UsageNone
  | USAGE_ANY | USAGE_FILTER

text \<open>The number the C enumeration gives a usage: stored in the snapshot, compared by the filters.\<close>

fun usage_index :: "usage \<Rightarrow> int" where
  "usage_index UsageOLBestFitDefined = 0"
| "usage_index UsageDefined = 1"
| "usage_index UsageDeclared = 2"
| "usage_index UsageLvalUsed = 3"
| "usage_index UsageAddrUsed = 4"
| "usage_index UsageUsed = 5"
| "usage_index UsageUndefinedMacro = 6"
| "usage_index UsageFork = 7"
| "usage_index UsageMaxOnLineVisibleUsages = 8"
| "usage_index UsageNone = 9"
| "usage_index USAGE_ANY = 10"
| "usage_index USAGE_FILTER = 11"

lemma usage_index_inj [simp]: "usage_index u = usage_index v \<longleftrightarrow> u = v"
  by (cases u; cases v) simp_all

definition usageFilterLevels :: "usage list" where
  "usageFilterLevels = [UsageMaxOnLineVisibleUsages, UsageUsed, UsageAddrUsed, UsageLvalUsed]"

definition isVisibleUsage :: "usage \<Rightarrow> bool" where
  "isVisibleUsage u \<longleftrightarrow> usage_index u < usage_index UsageMaxOnLineVisibleUsages"

definition isDefinitionUsage :: "usage \<Rightarrow> bool" where
  "isDefinitionUsage u \<longleftrightarrow> u = UsageDefined \<or> u = UsageOLBestFitDefined"

definition isDefinitionOrDeclarationUsage :: "usage \<Rightarrow> bool" where
  "isDefinitionOrDeclarationUsage u \<longleftrightarrow> isDefinitionUsage u \<or> u = UsageDeclared"

definition isMoreImportantUsageThan :: "usage \<Rightarrow> usage \<Rightarrow> bool" where
  "isMoreImportantUsageThan u1 u2 \<longleftrightarrow> usage_index u1 < usage_index u2"

definition isLessImportantUsageThan :: "usage \<Rightarrow> usage \<Rightarrow> bool" where
  "isLessImportantUsageThan u1 u2 \<longleftrightarrow> usage_index u1 > usage_index u2"

definition isAtMostAsImportantAs :: "usage \<Rightarrow> usage \<Rightarrow> bool" where
  "isAtMostAsImportantAs u1 u2 \<longleftrightarrow> usage_index u1 \<ge> usage_index u2"

instantiation usage :: linorder
begin

definition less_usage_def: "u < v \<longleftrightarrow> usage_index u < usage_index v" for u v :: usage

definition less_eq_usage_def: "u \<le> v \<longleftrightarrow> usage_index u \<le> usage_index v" for u v :: usage

instance
proof
  fix u v w :: usage
  show "u \<le> v \<Longrightarrow> v \<le> u \<Longrightarrow> u = v"
    by (simp add: less_eq_usage_def flip: usage_index_inj)
qed (auto simp: less_usage_def less_eq_usage_def)

end

lemma isMoreImportantUsageThan_iff [simp]: "isMoreImportantUsageThan u v \<longleftrightarrow> u < v"
  by (simp add: isMoreImportantUsageThan_def less_usage_def)

lemma isLessImportantUsageThan_iff [simp]: "isLessImportantUsageThan u v \<longleftrightarrow> v < u"
  by (simp add: isLessImportantUsageThan_def less_usage_def)

lemma isAtMostAsImportantAs_iff [simp]: "isAtMostAsImportantAs u v \<longleftrightarrow> v \<le> u"
  by (simp add: isAtMostAsImportantAs_def less_eq_usage_def)

lemma definition_usages_visible:
  "isDefinitionOrDeclarationUsage u \<Longrightarrow> isVisibleUsage u"
  by (cases u)
    (simp_all add: isDefinitionOrDeclarationUsage_def isDefinitionUsage_def isVisibleUsage_def)

section \<open>File times\<close>

datatype timestamp = Timestamp (tv_sec: int) (tv_nsec: int)

definition nullTimestamp :: timestamp where
  "nullTimestamp = Timestamp 0 0"

definition makeFileTimestamp :: "int \<Rightarrow> int \<Rightarrow> timestamp" where
  "makeFileTimestamp seconds nanoseconds = Timestamp seconds nanoseconds"

definition fileTimestampsEqual :: "timestamp \<Rightarrow> timestamp \<Rightarrow> bool" where
  "fileTimestampsEqual a b \<longleftrightarrow> tv_sec a = tv_sec b \<and> tv_nsec a = tv_nsec b"

definition fileTimestampIsZero :: "timestamp \<Rightarrow> bool" where
  "fileTimestampIsZero ts \<longleftrightarrow> tv_sec ts = 0 \<and> tv_nsec ts = 0"

definition fileTimestampIsLessThan :: "timestamp \<Rightarrow> timestamp \<Rightarrow> bool" where
  "fileTimestampIsLessThan a b \<longleftrightarrow>
     (if tv_sec a \<noteq> tv_sec b then tv_sec a < tv_sec b else tv_nsec a < tv_nsec b)"

definition fileTimestampMinus :: "timestamp \<Rightarrow> int \<Rightarrow> timestamp" where
  "fileTimestampMinus ts nanoseconds =
     (let nsec = tv_nsec ts - nanoseconds in
      if nsec < 0 then Timestamp (tv_sec ts - 1) (nsec + 1000000000)
      else Timestamp (tv_sec ts) nsec)"

text \<open>The time a well-formed stamp stands for, in nanoseconds.\<close>

definition nanoseconds_of :: "timestamp \<Rightarrow> int" where
  "nanoseconds_of ts = tv_sec ts * 1000000000 + tv_nsec ts"

definition wf_timestamp :: "timestamp \<Rightarrow> bool" where
  "wf_timestamp ts \<longleftrightarrow> 0 \<le> tv_nsec ts \<and> tv_nsec ts < 1000000000"

lemma fileTimestampsEqual_iff [simp]: "fileTimestampsEqual a b \<longleftrightarrow> a = b"
  by (cases a; cases b) (simp add: fileTimestampsEqual_def)

lemma fileTimestampIsZero_iff: "fileTimestampIsZero ts \<longleftrightarrow> ts = nullTimestamp"
  by (cases ts) (simp add: fileTimestampIsZero_def nullTimestamp_def)

lemma fileTimestampMinus_nanoseconds:
  "nanoseconds_of (fileTimestampMinus ts n) = nanoseconds_of ts - n"
  by (simp add: nanoseconds_of_def fileTimestampMinus_def Let_def)

lemma fileTimestampMinus_wf:
  "wf_timestamp ts \<Longrightarrow> 0 \<le> n \<Longrightarrow> n \<le> 1000000000 \<Longrightarrow> wf_timestamp (fileTimestampMinus ts n)"
  by (auto simp: wf_timestamp_def fileTimestampMinus_def Let_def)

lemma fileTimestampIsLessThan_iff:
  "wf_timestamp a \<Longrightarrow> wf_timestamp b \<Longrightarrow>
   fileTimestampIsLessThan a b \<longleftrightarrow> nanoseconds_of a < nanoseconds_of b"
  unfolding wf_timestamp_def nanoseconds_of_def fileTimestampIsLessThan_def by auto

instantiation timestamp :: linorder
begin

definition less_timestamp_def: "a < b \<longleftrightarrow> fileTimestampIsLessThan a b" for a b :: timestamp

definition less_eq_timestamp_def: "a \<le> b \<longleftrightarrow> \<not> fileTimestampIsLessThan b a" for a b :: timestamp

instance
proof
  fix a b c :: timestamp
  show "a < b \<longleftrightarrow> a \<le> b \<and> \<not> b \<le> a"
    by (auto simp: less_timestamp_def less_eq_timestamp_def fileTimestampIsLessThan_def)
  show "a \<le> a" "a \<le> b \<or> b \<le> a"
    by (auto simp: less_eq_timestamp_def fileTimestampIsLessThan_def)
  show "a \<le> b \<Longrightarrow> b \<le> c \<Longrightarrow> a \<le> c"
    by (auto simp: less_eq_timestamp_def fileTimestampIsLessThan_def split: if_splits)
  show "a \<le> b \<Longrightarrow> b \<le> a \<Longrightarrow> a = b"
    by (cases a; cases b)
      (auto simp: less_eq_timestamp_def fileTimestampIsLessThan_def split: if_splits)
qed

end

lemma fileTimestampIsLessThan_less [simp]: "fileTimestampIsLessThan a b \<longleftrightarrow> a < b"
  by (simp add: less_timestamp_def)

section \<open>The string hash\<close>

text \<open>The \<open>char\<close> is sign-extended when it is added to the unsigned sum, which wraps at 32 bits.\<close>

definition char_to_unsigned :: "char \<Rightarrow> 32 word" where
  "char_to_unsigned ch = word_of_int (to_char (of_char ch))"

definition hashFunIncrement :: "32 word \<Rightarrow> char \<Rightarrow> 32 word" where
  "hashFunIncrement oldHash ch =
     (let h1 = oldHash + char_to_unsigned ch;
          h2 = h1 + push_bit 10 h1
      in h2 XOR drop_bit 6 h2)"

definition hashFunFinal :: "32 word \<Rightarrow> 32 word" where
  "hashFunFinal oldHash =
     (let h1 = oldHash + push_bit 3 oldHash;
          h2 = h1 XOR drop_bit 11 h1
      in h2 + push_bit 15 h2)"

definition hashFun :: "string \<Rightarrow> 32 word" where
  "hashFun s = hashFunFinal (fold (\<lambda>ch h. hashFunIncrement h ch) s 0)"

lemma hashFun_empty: "hashFun [] = 0"
  by (simp add: hashFun_def hashFunFinal_def)

end
