(* ===== verification/Types.thy ===== *)
theory Types
  imports Position
begin

text \<open>
  Models \<^verbatim>\<open>type.h\<close>, \<^verbatim>\<open>type.c\<close>, \<^verbatim>\<open>storage.h\<close>, \<^verbatim>\<open>visibility.h\<close>, \<^verbatim>\<open>symbol.h\<close> and \<^verbatim>\<open>symbol.c\<close>:
  the kinds of symbols and C types, how type specifiers combine (\<open>unsigned\<close> with \<open>long\<close>
  gives \<open>unsigned long\<close>), and the symbols of the symbol table with the properties their
  cross-references get.
\<close>

section \<open>Types and their names\<close>

datatype (plugins only: code size) ctype =
    TypeDefault | TypeChar | TypeUnsignedChar | TypeSignedChar | TypeInt | TypeUnsignedInt
     | TypeSignedInt | TypeShortInt | TypeUnsignedShortInt | TypeSignedShortInt
     | TypeLongInt | TypeUnsignedLongInt | TypeSignedLongInt | TypeLongLongInt
     | TypeUnsignedLongLongInt | TypeSignedLongLongInt | TypeFloat | TypeDouble | TypeStruct
     | TypeUnion | TypeEnum | TypeVoid | TypePointer | TypeArray | TypeFunction
     | TypeAnonymousField | TypeError | MODIFIERS_START | TmodLong | TmodShort | TmodSigned
     | TmodUnsigned | TmodShortSigned | TmodShortUnsigned | TmodLongSigned
     | TmodLongUnsigned | TmodLongLong | TmodLongLongUnsigned | TmodLongLongSigned
     | TYPE_MODIFIERS_END | TypeEllipsis | TypeLong | TypeBool | TypeNull | MAX_CTYPE
     | TypeMacro | TypeCppInclude | TypeCppIfElse | TypeCppCollate | TypeCppUndefinedMacro
     | TypeYaccSymbol | TypeLabel | TypeKeyword | TypeToken | TypeMacroArg
     | TypeCppDefinedOp | TypeCppHasIncludeOp | TypeCppHasIncludeNextOp | TypeBlockMarker
     | TypeExpression | TypePackedType | TypeSpecialComplete | TypeInducedError
     | TypeSpecialConstructorCompletion | TypeUnknown | MAX_TYPE

primrec type_index :: "ctype \<Rightarrow> int" where
  "type_index TypeDefault = 0"
| "type_index TypeChar = 1"
| "type_index TypeUnsignedChar = 2"
| "type_index TypeSignedChar = 3"
| "type_index TypeInt = 4"
| "type_index TypeUnsignedInt = 5"
| "type_index TypeSignedInt = 6"
| "type_index TypeShortInt = 7"
| "type_index TypeUnsignedShortInt = 8"
| "type_index TypeSignedShortInt = 9"
| "type_index TypeLongInt = 10"
| "type_index TypeUnsignedLongInt = 11"
| "type_index TypeSignedLongInt = 12"
| "type_index TypeLongLongInt = 13"
| "type_index TypeUnsignedLongLongInt = 14"
| "type_index TypeSignedLongLongInt = 15"
| "type_index TypeFloat = 16"
| "type_index TypeDouble = 17"
| "type_index TypeStruct = 18"
| "type_index TypeUnion = 19"
| "type_index TypeEnum = 20"
| "type_index TypeVoid = 21"
| "type_index TypePointer = 22"
| "type_index TypeArray = 23"
| "type_index TypeFunction = 24"
| "type_index TypeAnonymousField = 25"
| "type_index TypeError = 26"
| "type_index MODIFIERS_START = 27"
| "type_index TmodLong = 28"
| "type_index TmodShort = 29"
| "type_index TmodSigned = 30"
| "type_index TmodUnsigned = 31"
| "type_index TmodShortSigned = 32"
| "type_index TmodShortUnsigned = 33"
| "type_index TmodLongSigned = 34"
| "type_index TmodLongUnsigned = 35"
| "type_index TmodLongLong = 36"
| "type_index TmodLongLongUnsigned = 37"
| "type_index TmodLongLongSigned = 38"
| "type_index TYPE_MODIFIERS_END = 39"
| "type_index TypeEllipsis = 40"
| "type_index TypeLong = 41"
| "type_index TypeBool = 42"
| "type_index TypeNull = 43"
| "type_index MAX_CTYPE = 44"
| "type_index TypeMacro = 45"
| "type_index TypeCppInclude = 46"
| "type_index TypeCppIfElse = 47"
| "type_index TypeCppCollate = 48"
| "type_index TypeCppUndefinedMacro = 49"
| "type_index TypeYaccSymbol = 50"
| "type_index TypeLabel = 51"
| "type_index TypeKeyword = 52"
| "type_index TypeToken = 53"
| "type_index TypeMacroArg = 54"
| "type_index TypeCppDefinedOp = 55"
| "type_index TypeCppHasIncludeOp = 56"
| "type_index TypeCppHasIncludeNextOp = 57"
| "type_index TypeBlockMarker = 58"
| "type_index TypeExpression = 59"
| "type_index TypePackedType = 60"
| "type_index TypeSpecialComplete = 61"
| "type_index TypeInducedError = 62"
| "type_index TypeSpecialConstructorCompletion = 63"
| "type_index TypeUnknown = 64"
| "type_index MAX_TYPE = 65"

definition typeNamesTable :: "ctype \<Rightarrow> string" where
  "typeNamesTable t = (case t of
      TypeDefault \<Rightarrow> ''TypeDefault''
    | TypeChar \<Rightarrow> ''TypeChar''
    | TypeUnsignedChar \<Rightarrow> ''TypeUnsignedChar''
    | TypeSignedChar \<Rightarrow> ''TypeSignedChar''
    | TypeInt \<Rightarrow> ''TypeInt''
    | TypeUnsignedInt \<Rightarrow> ''TypeUnsignedInt''
    | TypeSignedInt \<Rightarrow> ''TypeSignedInt''
    | TypeShortInt \<Rightarrow> ''TypeShortInt''
    | TypeUnsignedShortInt \<Rightarrow> ''TypeUnsignedShortInt''
    | TypeSignedShortInt \<Rightarrow> ''TypeSignedShortInt''
    | TypeLongInt \<Rightarrow> ''TypeLongInt''
    | TypeUnsignedLongInt \<Rightarrow> ''TypeUnsignedLongInt''
    | TypeSignedLongInt \<Rightarrow> ''TypeSignedLongInt''
    | TypeLongLongInt \<Rightarrow> ''TypeLongLongInt''
    | TypeUnsignedLongLongInt \<Rightarrow> ''TypeUnsignedLongLongInt''
    | TypeSignedLongLongInt \<Rightarrow> ''TypeSignedLongLongInt''
    | TypeFloat \<Rightarrow> ''TypeFloat''
    | TypeDouble \<Rightarrow> ''TypeDouble''
    | TypeStruct \<Rightarrow> ''TypeStruct''
    | TypeUnion \<Rightarrow> ''TypeUnion''
    | TypeEnum \<Rightarrow> ''TypeEnum''
    | TypeVoid \<Rightarrow> ''TypeVoid''
    | TypePointer \<Rightarrow> ''TypePointer''
    | TypeArray \<Rightarrow> ''TypeArray''
    | TypeFunction \<Rightarrow> ''TypeFunction''
    | TypeAnonymousField \<Rightarrow> ''TypeAnonymousField''
    | TypeError \<Rightarrow> ''TypeError''
    | MODIFIERS_START \<Rightarrow> ''MODIFIERS_START''
    | TmodLong \<Rightarrow> ''TmodLong''
    | TmodShort \<Rightarrow> ''TmodShort''
    | TmodSigned \<Rightarrow> ''TmodSigned''
    | TmodUnsigned \<Rightarrow> ''TmodUnsigned''
    | TmodShortSigned \<Rightarrow> ''TmodShortSigned''
    | TmodShortUnsigned \<Rightarrow> ''TmodShortUnsigned''
    | TmodLongSigned \<Rightarrow> ''TmodLongSigned''
    | TmodLongUnsigned \<Rightarrow> ''TmodLongUnsigned''
    | TmodLongLong \<Rightarrow> ''TmodLongLong''
    | TmodLongLongUnsigned \<Rightarrow> ''TmodLongLongUnsigned''
    | TmodLongLongSigned \<Rightarrow> ''TmodLongLongSigned''
    | TYPE_MODIFIERS_END \<Rightarrow> ''TYPE_MODIFIERS_END''
    | TypeEllipsis \<Rightarrow> ''TypeEllipsis''
    | TypeLong \<Rightarrow> ''TypeLong''
    | TypeBool \<Rightarrow> ''TypeBool''
    | TypeNull \<Rightarrow> ''TypeNull''
    | MAX_CTYPE \<Rightarrow> ''MAX_CTYPE''
    | TypeMacro \<Rightarrow> ''TypeMacro''
    | TypeCppInclude \<Rightarrow> ''TypeCppInclude''
    | TypeCppIfElse \<Rightarrow> ''TypeCppIfElse''
    | TypeCppCollate \<Rightarrow> ''TypeCppCollate''
    | TypeCppUndefinedMacro \<Rightarrow> ''TypeCppUndefinedMacro''
    | TypeYaccSymbol \<Rightarrow> ''TypeYaccSymbol''
    | TypeLabel \<Rightarrow> ''TypeLabel''
    | TypeKeyword \<Rightarrow> ''TypeKeyword''
    | TypeToken \<Rightarrow> ''TypeToken''
    | TypeMacroArg \<Rightarrow> ''TypeMacroArg''
    | TypeCppDefinedOp \<Rightarrow> ''TypeCppDefinedOp''
    | TypeCppHasIncludeOp \<Rightarrow> ''TypeCppHasIncludeOp''
    | TypeCppHasIncludeNextOp \<Rightarrow> ''TypeCppHasIncludeNextOp''
    | TypeBlockMarker \<Rightarrow> ''TypeBlockMarker''
    | TypeExpression \<Rightarrow> ''TypeExpression''
    | TypePackedType \<Rightarrow> ''TypePackedType''
    | TypeSpecialComplete \<Rightarrow> ''TypeSpecialComplete''
    | TypeInducedError \<Rightarrow> ''TypeInducedError''
    | TypeSpecialConstructorCompletion \<Rightarrow> ''TypeSpecialConstructorCompletion''
    | TypeUnknown \<Rightarrow> ''TypeUnknown''
    | MAX_TYPE \<Rightarrow> ''MAX_TYPE'')"

definition cTypeSpellings :: "ctype \<rightharpoonup> string" where
  "cTypeSpellings = map_of
    [(TypeChar, ''char''),
     (TypeUnsignedChar, ''unsigned char''),
     (TypeSignedChar, ''signed char''),
     (TypeInt, ''int''),
     (TypeUnsignedInt, ''unsigned int''),
     (TypeSignedInt, ''signed int''),
     (TypeShortInt, ''short int''),
     (TypeUnsignedShortInt, ''unsigned short int''),
     (TypeSignedShortInt, ''signed short int''),
     (TypeLongInt, ''long int''),
     (TypeUnsignedLongInt, ''unsigned long int''),
     (TypeSignedLongInt, ''signed long int''),
     (TypeLongLongInt, ''long long int''),
     (TypeUnsignedLongLongInt, ''unsigned long long int''),
     (TypeSignedLongLongInt, ''signed long long int''),
     (TypeFloat, ''float''),
     (TypeDouble, ''double''),
     (TypeVoid, ''void''),
     (TmodLong, ''long''),
     (TmodShort, ''short''),
     (TmodSigned, ''signed''),
     (TmodUnsigned, ''unsigned''),
     (TmodShortSigned, ''signed short''),
     (TmodShortUnsigned, ''unsigned short''),
     (TmodLongSigned, ''signed long''),
     (TmodLongUnsigned, ''unsigned long''),
     (TmodLongLong, ''long long''),
     (TmodLongLongUnsigned, ''unsigned long long''),
     (TmodLongLongSigned, ''signed long long''),
     (TypeLong, ''long''),
     (TypeBool, ''bool'')]"

definition isModifier :: "ctype \<Rightarrow> bool" where
  "isModifier t \<longleftrightarrow> type_index t > type_index MODIFIERS_START
                 \<and> type_index t < type_index TYPE_MODIFIERS_END"

text \<open>How a type is written in C, or its name if it has no C spelling.\<close>

definition cTypeSpelling :: "ctype \<Rightarrow> string" where
  "cTypeSpelling t =
     (case (if type_index t < type_index MAX_CTYPE then cTypeSpellings t else None) of
        Some s \<Rightarrow> s
      | None \<Rightarrow> typeNamesTable t)"

section \<open>Combining type specifiers\<close>

record typeModificationRow =
  row_type :: ctype
  modifiedUsingShort :: "ctype option"
  modifiedUsingLong :: "ctype option"
  modifiedUsingSigned :: "ctype option"
  modifiedUsingUnsigned :: "ctype option"

definition makeRow ::
  "ctype \<Rightarrow> ctype option \<Rightarrow> ctype option \<Rightarrow> ctype option \<Rightarrow> ctype option \<Rightarrow> typeModificationRow" where
  "makeRow t sh lo si un = \<lparr>row_type = t, modifiedUsingShort = sh, modifiedUsingLong = lo,
     modifiedUsingSigned = si, modifiedUsingUnsigned = un\<rparr>"

text \<open>What each modifier makes of a type, \<^const>\<open>None\<close> (-1 in the code) where it leaves it as it is.\<close>

definition typeModifications :: "typeModificationRow list" where
  "typeModifications =
    [makeRow TypeDefault (Some TypeShortInt) (Some TypeLongInt) (Some TypeSignedInt) (Some TypeUnsignedInt),
     makeRow TypeChar None None (Some TypeSignedChar) (Some TypeUnsignedChar),
     makeRow TypeInt (Some TypeShortInt) (Some TypeLongInt) (Some TypeSignedInt) (Some TypeUnsignedInt),
     makeRow TypeUnsignedInt (Some TypeUnsignedShortInt) (Some TypeUnsignedLongInt) None None,
     makeRow TypeSignedInt (Some TypeSignedShortInt) (Some TypeSignedLongInt) None None,
     makeRow TypeShortInt None None (Some TypeSignedShortInt) (Some TypeUnsignedShortInt),
     makeRow TypeLongInt None (Some TypeLongLongInt) (Some TypeSignedLongInt) (Some TypeUnsignedLongInt),
     makeRow TypeUnsignedLongInt None (Some TypeUnsignedLongLongInt) None None,
     makeRow TypeSignedLongInt None (Some TypeSignedLongLongInt) None None,
     makeRow TypeLongLongInt None None (Some TypeSignedLongLongInt) (Some TypeUnsignedLongLongInt),
     makeRow TmodLong None (Some TmodLongLong) (Some TmodLongSigned) (Some TmodLongUnsigned),
     makeRow TmodLongLong None None (Some TmodLongLongSigned) (Some TmodLongLongUnsigned),
     makeRow TmodLongUnsigned None (Some TmodLongLongUnsigned) None None,
     makeRow TmodLongSigned None (Some TmodLongLongSigned) None None,
     makeRow TmodShort None None (Some TmodShortSigned) (Some TmodShortUnsigned),
     makeRow TmodSigned (Some TmodShortSigned) (Some TmodLongSigned) None None,
     makeRow TmodUnsigned (Some TmodShortUnsigned) (Some TmodLongUnsigned) None None]"

record typeModificationTables =
  withShort :: "ctype \<Rightarrow> ctype"
  withLong :: "ctype \<Rightarrow> ctype"
  withSigned :: "ctype \<Rightarrow> ctype"
  withUnsigned :: "ctype \<Rightarrow> ctype"

definition initializeTypeModificationsToIdentity :: typeModificationTables where
  "initializeTypeModificationsToIdentity =
     \<lparr>withShort = (\<lambda>t. t), withLong = (\<lambda>t. t), withSigned = (\<lambda>t. t), withUnsigned = (\<lambda>t. t)\<rparr>"

definition set_entry :: "(ctype \<Rightarrow> ctype) \<Rightarrow> ctype \<Rightarrow> ctype option \<Rightarrow> ctype \<Rightarrow> ctype" where
  "set_entry tab t modified = (case modified of None \<Rightarrow> tab | Some t' \<Rightarrow> tab(t := t'))"

definition applyModificationRow ::
  "typeModificationRow \<Rightarrow> typeModificationTables \<Rightarrow> typeModificationTables" where
  "applyModificationRow row tabs =
     \<lparr>withShort = set_entry (withShort tabs) (row_type row) (modifiedUsingShort row),
      withLong = set_entry (withLong tabs) (row_type row) (modifiedUsingLong row),
      withSigned = set_entry (withSigned tabs) (row_type row) (modifiedUsingSigned row),
      withUnsigned = set_entry (withUnsigned tabs) (row_type row) (modifiedUsingUnsigned row)\<rparr>"

definition initTypeModifications :: typeModificationTables where
  "initTypeModifications =
     fold applyModificationRow typeModifications initializeTypeModificationsToIdentity"

text \<open>The \<open>switch\<close> has no case for a type that is no modifier: the \<open>assert(0)\<close> fails there.\<close>

fun combinedType :: "typeModificationTables \<Rightarrow> ctype \<Rightarrow> ctype \<Rightarrow> ctype option" where
  "combinedType tabs base TmodLong = Some (withLong tabs base)"
| "combinedType tabs base TmodShort = Some (withShort tabs base)"
| "combinedType tabs base TmodSigned = Some (withSigned tabs base)"
| "combinedType tabs base TmodUnsigned = Some (withUnsigned tabs base)"
| "combinedType tabs base TmodShortSigned = Some (withShort tabs (withSigned tabs base))"
| "combinedType tabs base TmodShortUnsigned = Some (withShort tabs (withUnsigned tabs base))"
| "combinedType tabs base TmodLongSigned = Some (withLong tabs (withSigned tabs base))"
| "combinedType tabs base TmodLongUnsigned = Some (withLong tabs (withUnsigned tabs base))"
| "combinedType tabs base TmodLongLong = Some (withLong tabs (withLong tabs base))"
| "combinedType tabs base TmodLongLongUnsigned =
     Some (withLong tabs (withLong tabs (withUnsigned tabs base)))"
| "combinedType tabs base TmodLongLongSigned =
     Some (withLong tabs (withLong tabs (withSigned tabs base)))"
| "combinedType tabs base _ = None"

section \<open>Storage classes and visibility\<close>

datatype storage =
    StorageDefault | StorageError | StorageAuto | StorageExtern | StorageConstant
     | StorageStatic | StorageThreadLocal | StorageTypedef | StorageRegister
     | STORAGE_ENUMS_MAX

fun storage_index :: "storage \<Rightarrow> int" where
  "storage_index StorageDefault = 0"
| "storage_index StorageError = 1"
| "storage_index StorageAuto = 2"
| "storage_index StorageExtern = 3"
| "storage_index StorageConstant = 4"
| "storage_index StorageStatic = 5"
| "storage_index StorageThreadLocal = 6"
| "storage_index StorageTypedef = 7"
| "storage_index StorageRegister = 8"
| "storage_index STORAGE_ENUMS_MAX = 9"

datatype visibility = VisibilityGlobal | VisibilityLocal

fun visibility_index :: "visibility \<Rightarrow> int" where
  "visibility_index VisibilityGlobal = 0"
| "visibility_index VisibilityLocal = 1"

lemma storage_index_inj [simp]: "storage_index s = storage_index t \<longleftrightarrow> s = t"
  by (cases s; cases t) simp_all

lemma visibility_index_inj [simp]: "visibility_index s = visibility_index t \<longleftrightarrow> s = t"
  by (cases s; cases t) simp_all

section \<open>Symbols\<close>

text \<open>
  The union of \<^verbatim>\<open>struct symbol\<close>: which member is meant depends on the symbol's type. Type
  modifiers, struct specifications, enumerators and macro bodies belong to the parser and
  are kept by their identity, \<^const>\<open>None\<close> for \<open>NULL\<close>.
\<close>

datatype symbol_value =
    TypeModifierValue "nat option"
  | StructSpecValue "nat option"
  | EnumsValue "nat option"
  | MacroBodyValue "nat option"
  | LabelIndexValue int
  | KeywordValue int

record symbol =
  sym_name :: string
  sym_linkName :: string
  sym_position :: position
  sym_npointers :: nat
  sym_qualifiers :: nat
  sym_storage :: storage
  sym_type :: ctype
  sym_value :: symbol_value

definition fillSymbol :: "string \<Rightarrow> string \<Rightarrow> position \<Rightarrow> symbol" where
  "fillSymbol name linkName position =
     \<lparr>sym_name = name, sym_linkName = linkName, sym_position = position, sym_npointers = 0,
      sym_qualifiers = 0, sym_storage = StorageDefault, sym_type = TypeDefault,
      sym_value = TypeModifierValue None\<rparr>"

definition makeSymbol :: "string \<Rightarrow> ctype \<Rightarrow> position \<Rightarrow> symbol" where
  "makeSymbol name t position = (fillSymbol name name position)\<lparr>sym_type := t\<rparr>"

text \<open>The fields the designated initialiser leaves out are zero.\<close>

definition makeMacroSymbol :: "string \<Rightarrow> position \<Rightarrow> symbol" where
  "makeMacroSymbol name position =
     \<lparr>sym_name = name, sym_linkName = name, sym_position = position, sym_npointers = 0,
      sym_qualifiers = 0, sym_storage = StorageDefault, sym_type = TypeMacro,
      sym_value = TypeModifierValue None\<rparr>"

definition fillSymbolWithTypeModifier ::
  "string \<Rightarrow> string \<Rightarrow> position \<Rightarrow> nat option \<Rightarrow> symbol" where
  "fillSymbolWithTypeModifier name linkName position typeModifier =
     (fillSymbol name linkName position)\<lparr>sym_value := TypeModifierValue typeModifier\<rparr>"

definition fillSymbolWithLabel :: "string \<Rightarrow> string \<Rightarrow> position \<Rightarrow> int \<Rightarrow> symbol" where
  "fillSymbolWithLabel name linkName position labelIndex =
     (fillSymbol name linkName position)\<lparr>sym_value := LabelIndexValue labelIndex\<rparr>"

definition newSymbol :: "string \<Rightarrow> position \<Rightarrow> symbol" where
  "newSymbol name position = makeSymbol name TypeDefault position"

text \<open>The link name the next four are given is not used: the symbol links by its name.\<close>

definition newSymbolAsKeyword :: "string \<Rightarrow> string \<Rightarrow> position \<Rightarrow> int \<Rightarrow> symbol" where
  "newSymbolAsKeyword name linkName position keyWordVal =
     (newSymbol name position)\<lparr>sym_value := KeywordValue keyWordVal\<rparr>"

definition newSymbolAsType :: "string \<Rightarrow> string \<Rightarrow> position \<Rightarrow> nat option \<Rightarrow> symbol" where
  "newSymbolAsType name linkName position typeModifier =
     (newSymbol name position)\<lparr>sym_value := TypeModifierValue typeModifier\<rparr>"

definition newSymbolAsEnum :: "string \<Rightarrow> string \<Rightarrow> position \<Rightarrow> nat option \<Rightarrow> symbol" where
  "newSymbolAsEnum name linkName position enums =
     (newSymbol name position)\<lparr>sym_value := EnumsValue enums\<rparr>"

definition newSymbolAsLabel :: "string \<Rightarrow> string \<Rightarrow> position \<Rightarrow> int \<Rightarrow> symbol" where
  "newSymbolAsLabel name linkName position labelIndex =
     (newSymbol name position)\<lparr>sym_value := LabelIndexValue labelIndex\<rparr>"

text \<open>A link name that starts with two spaces is local.\<close>

definition hasLocalLinkName :: "string \<Rightarrow> bool" where
  "hasLocalLinkName s \<longleftrightarrow> take 2 s = ''  ''"

text \<open>The code's sequence of \<open>if\<close> statements, each overwriting what the ones before it set.\<close>

definition getSymbolCxrefProperties :: "symbol \<Rightarrow> visibility \<times> storage" where
  "getSymbolCxrefProperties symbol =
     (let t = sym_type symbol; sto = sym_storage symbol;
          vs0 = (VisibilityLocal, StorageAuto);
          vs1 = (if t = TypeDefault then
                   (if sto = StorageExtern \<or> sto = StorageDefault \<or> sto = StorageTypedef
                       \<or> sto = StorageStatic \<or> sto = StorageThreadLocal then
                      (if hasLocalLinkName (sym_linkName symbol) then VisibilityLocal
                       else VisibilityGlobal)
                    else fst vs0, sto)
                 else vs0);
          vs2 = (if t = TypeDefault \<and> sto = StorageConstant
                 then (VisibilityGlobal, StorageExtern) else vs1);
          vs3 = (if t = TypeStruct \<or> t = TypeUnion \<or> t = TypeEnum
                 then (VisibilityGlobal, StorageExtern) else vs2);
          vs4 = (if t = TypeMacro then (VisibilityGlobal, StorageExtern) else vs3);
          vs5 = (if t = TypeLabel then (VisibilityLocal, StorageStatic) else vs4);
          vs6 = (if t = TypeCppIfElse then (VisibilityLocal, StorageStatic) else vs5);
          vs7 = (if t = TypeCppInclude then (VisibilityGlobal, StorageExtern) else vs6);
          vs8 = (if t = TypeCppCollate then (VisibilityGlobal, StorageExtern) else vs7);
          vs9 = (if t = TypeYaccSymbol then (VisibilityLocal, StorageStatic) else vs8)
      in vs9)"

section \<open>Properties\<close>

lemmas type_table_defs =
  initTypeModifications_def typeModifications_def applyModificationRow_def makeRow_def
  set_entry_def initializeTypeModificationsToIdentity_def

text \<open>The tables the modifications are read from, computed once.\<close>

lemma modification_table_values [simp]:
  "withShort initTypeModifications TypeInt = TypeShortInt"
  "withShort initTypeModifications TypeUnsignedInt = TypeUnsignedShortInt"
  "withShort initTypeModifications TypeSignedInt = TypeSignedShortInt"
  "withLong initTypeModifications TypeInt = TypeLongInt"
  "withLong initTypeModifications TypeLongInt = TypeLongLongInt"
  "withLong initTypeModifications TypeUnsignedInt = TypeUnsignedLongInt"
  "withLong initTypeModifications TypeUnsignedLongInt = TypeUnsignedLongLongInt"
  "withLong initTypeModifications TypeSignedInt = TypeSignedLongInt"
  "withLong initTypeModifications TypeSignedLongInt = TypeSignedLongLongInt"
  "withSigned initTypeModifications TypeInt = TypeSignedInt"
  "withUnsigned initTypeModifications TypeInt = TypeUnsignedInt"
  "withSigned initTypeModifications TypeLongInt = TypeSignedLongInt"
  "withUnsigned initTypeModifications TypeLongInt = TypeUnsignedLongInt"
  "withSigned initTypeModifications TypeLongLongInt = TypeSignedLongLongInt"
  "withUnsigned initTypeModifications TypeLongLongInt = TypeUnsignedLongLongInt"
  "withSigned initTypeModifications TypeShortInt = TypeSignedShortInt"
  "withUnsigned initTypeModifications TypeShortInt = TypeUnsignedShortInt"
  "withLong initTypeModifications TmodLong = TmodLongLong"
  "withLong initTypeModifications TmodUnsigned = TmodLongUnsigned"
  "withLong initTypeModifications TmodSigned = TmodLongSigned"
  "withUnsigned initTypeModifications TmodLong = TmodLongUnsigned"
  "withSigned initTypeModifications TmodLong = TmodLongSigned"
  "withShort initTypeModifications TmodUnsigned = TmodShortUnsigned"
  "withShort initTypeModifications TmodSigned = TmodShortSigned"
  "withUnsigned initTypeModifications TmodShort = TmodShortUnsigned"
  "withSigned initTypeModifications TmodShort = TmodShortSigned"
  by (simp_all add: type_table_defs)

lemma modification_table_default [simp]:
  "withShort initTypeModifications TypeDefault = TypeShortInt"
  "withLong initTypeModifications TypeDefault = TypeLongInt"
  "withSigned initTypeModifications TypeDefault = TypeSignedInt"
  "withUnsigned initTypeModifications TypeDefault = TypeUnsignedInt"
  "withLong initTypeModifications TmodLongUnsigned = TmodLongLongUnsigned"
  "withLong initTypeModifications TmodLongSigned = TmodLongLongSigned"
  "withUnsigned initTypeModifications TmodLongLong = TmodLongLongUnsigned"
  "withSigned initTypeModifications TmodLongLong = TmodLongLongSigned"
  by (simp_all add: type_table_defs)

text \<open>The order in which size and sign specifiers are written does not matter: a size and a
  sign specifier combine to the same modifier both ways, and a base type modified by the
  combination is the base modified by the two one after the other, in either order.\<close>

theorem specifier_order_irrelevant:
  assumes "base = TypeDefault \<or> base = TypeInt"
    and "len = TmodLong \<or> len = TmodShort \<or> len = TmodLongLong"
    and "sgnd = TmodSigned \<or> sgnd = TmodUnsigned"
  shows "\<exists>m. combinedType initTypeModifications len sgnd = Some m
    \<and> combinedType initTypeModifications sgnd len = Some m \<and> isModifier m
    \<and> combinedType initTypeModifications base m =
        Option.bind (combinedType initTypeModifications base len)
          (\<lambda>t. combinedType initTypeModifications t sgnd)
    \<and> combinedType initTypeModifications base m =
        Option.bind (combinedType initTypeModifications base sgnd)
          (\<lambda>t. combinedType initTypeModifications t len)"
  using assms by (elim disjE) (simp_all add: isModifier_def)

theorem specifier_order_irrelevant_witness:
  "\<exists>m. combinedType initTypeModifications TmodLongLong TmodUnsigned = Some m
    \<and> combinedType initTypeModifications TmodUnsigned TmodLongLong = Some m"
  using specifier_order_irrelevant [of TypeInt TmodLongLong TmodUnsigned] by auto

text \<open>A symbol whose link name starts with two spaces is visible in its own file only, unless it
  is an enumeration constant; a named declaration of file scope that has no such link name is
  global; and structs, unions, enums, macros and enumeration constants are global.\<close>

theorem cxref_visibility:
  "fst (getSymbolCxrefProperties symbol) = VisibilityGlobal \<longleftrightarrow>
     (sym_type symbol \<in> {TypeStruct, TypeUnion, TypeEnum, TypeMacro, TypeCppInclude,
        TypeCppCollate}
      \<or> (sym_type symbol = TypeDefault
         \<and> (sym_storage symbol = StorageConstant
            \<or> (sym_storage symbol \<in> {StorageExtern, StorageDefault, StorageTypedef,
                StorageStatic, StorageThreadLocal}
               \<and> \<not> hasLocalLinkName (sym_linkName symbol)))))"
  by (cases "sym_type symbol") (simp_all add: getSymbolCxrefProperties_def Let_def)

end
