(* ===== verification/Lists.thy ===== *)
theory Lists
  imports Position "HOL-Library.Multiset"
begin

text \<open>
  Models the list macros of \<^verbatim>\<open>list.h\<close>. A linked list is the list of its elements; the address
  of a link, which the macros use as the place to insert at, is the pair of the elements
  before it and the elements from it on. The order the sorting macros rely on is the locale
  \<open>list_order\<close>, interpreted for positions here and for the other orders where they are
  defined.
\<close>

section \<open>The macros\<close>

fun LIST_APPEND :: "'a list \<Rightarrow> 'a list \<Rightarrow> 'a list" where
  "LIST_APPEND [] list2 = list2"
| "LIST_APPEND [x] list2 = x # list2"
| "LIST_APPEND (x # y # ys) list2 = x # LIST_APPEND (y # ys) list2"

fun list_len_loop :: "nat \<Rightarrow> 'a list \<Rightarrow> nat" where
  "list_len_loop n [] = n"
| "list_len_loop n (x # xs) = list_len_loop (Suc n) xs"

definition LIST_LEN :: "'a list \<Rightarrow> nat" where
  "LIST_LEN xs = list_len_loop 0 xs"

fun list_reverse_loop :: "'a list \<Rightarrow> 'a list \<Rightarrow> 'a list" where
  "list_reverse_loop [] revlist = revlist"
| "list_reverse_loop (x # xs) revlist = list_reverse_loop xs (x # revlist)"

definition LIST_REVERSE :: "'a list \<Rightarrow> 'a list" where
  "LIST_REVERSE xs = list_reverse_loop xs []"

text \<open>The list from the element found on; the found element is its head, \<open>NULL\<close> is the empty list.\<close>

fun SORTED_LIST_FIND3 :: "('a \<Rightarrow> 'k \<Rightarrow> bool) \<Rightarrow> 'k \<Rightarrow> 'a list \<Rightarrow> 'a list" where
  "SORTED_LIST_FIND3 lessfunction key [] = []"
| "SORTED_LIST_FIND3 lessfunction key (x # xs) =
     (if lessfunction x key then SORTED_LIST_FIND3 lessfunction key xs else x # xs)"

fun SORTED_LIST_PLACE3 :: "('a \<Rightarrow> 'k \<Rightarrow> bool) \<Rightarrow> 'k \<Rightarrow> 'a list \<Rightarrow> 'a list \<times> 'a list" where
  "SORTED_LIST_PLACE3 lessfunction key [] = ([], [])"
| "SORTED_LIST_PLACE3 lessfunction key (x # xs) =
     (if lessfunction x key
      then (let (before, place) = SORTED_LIST_PLACE3 lessfunction key xs in (x # before, place))
      else ([], x # xs))"

definition SORTED_LIST_INSERT3 :: "('a \<Rightarrow> 'a \<Rightarrow> bool) \<Rightarrow> 'a \<Rightarrow> 'a list \<Rightarrow> 'a list" where
  "SORTED_LIST_INSERT3 lessfunction element xs =
     (let (before, place) = SORTED_LIST_PLACE3 lessfunction element xs in before @ element # place)"

fun list_sort_loop :: "('a \<Rightarrow> 'a \<Rightarrow> bool) \<Rightarrow> 'a list \<Rightarrow> 'a list \<Rightarrow> 'a list" where
  "list_sort_loop lessfunction [] out = out"
| "list_sort_loop lessfunction (x # xs) out =
     list_sort_loop lessfunction xs (SORTED_LIST_INSERT3 lessfunction x out)"

definition LIST_SORT :: "('a \<Rightarrow> 'a \<Rightarrow> bool) \<Rightarrow> 'a list \<Rightarrow> 'a list" where
  "LIST_SORT lessfunction xs = list_sort_loop lessfunction xs []"

fun LIST_MERGE :: "('a \<Rightarrow> 'a \<Rightarrow> bool) \<Rightarrow> 'a list \<Rightarrow> 'a list \<Rightarrow> 'a list" where
  "LIST_MERGE lessfunction (a # as) (b # bs) =
     (if lessfunction a b then a # LIST_MERGE lessfunction as (b # bs)
      else b # LIST_MERGE lessfunction (a # as) bs)"
| "LIST_MERGE lessfunction as [] = as"
| "LIST_MERGE lessfunction [] bs = bs"

lemma mset_LIST_MERGE [simp]: "mset (LIST_MERGE lessf as bs) = mset as + mset bs"
  by (induction lessf as bs rule: LIST_MERGE.induct) auto

lemma set_LIST_MERGE [simp]: "set (LIST_MERGE lessf as bs) = set as \<union> set bs"
  by (induction lessf as bs rule: LIST_MERGE.induct) auto

lemma length_LIST_MERGE [simp]: "length (LIST_MERGE lessf as bs) = length as + length bs"
  by (induction lessf as bs rule: LIST_MERGE.induct) auto

text \<open>
  One round of \<open>LIST_MERGE_SORT\<close>: neighbouring runs of \<open>n\<close> elements are merged; a last run
  shorter than \<open>n\<close> (the walk over \<open>n - 1\<close> links ends at \<open>NULL\<close>) is left as it is. The second
  component is \<open>continueFlag\<close>. The code doubles \<open>n\<close> from 1, so it is never 0.
\<close>

function merge_round :: "('a \<Rightarrow> 'a \<Rightarrow> bool) \<Rightarrow> nat \<Rightarrow> 'a list \<Rightarrow> 'a list \<times> bool" where
  "merge_round lessfunction n todo =
     (if todo = [] \<or> length todo < n \<or> n = 0 then (todo, False)
      else (let a = take n todo;
                b = take n (drop n todo);
                todo' = (if length (drop n todo) < n then [] else drop n (drop n todo));
                (rest, _) = merge_round lessfunction n todo'
            in (LIST_MERGE lessfunction a b @ rest, True)))"
  by pat_completeness auto
termination
  by (relation "measure (\<lambda>(lessf, n, todo). length todo)") auto

declare merge_round.simps [simp del]

lemma merge_round_short:
  "todo = [] \<or> length todo < n \<or> n = 0 \<Longrightarrow> merge_round lessf n todo = (todo, False)"
  by (subst merge_round.simps) auto

lemma merge_round_step:
  "todo \<noteq> [] \<Longrightarrow> n \<le> length todo \<Longrightarrow> 0 < n \<Longrightarrow>
   merge_round lessf n todo =
     (LIST_MERGE lessf (take n todo) (take n (drop n todo))
        @ fst (merge_round lessf n (drop n (drop n todo))), True)"
  by (subst merge_round.simps) (auto simp: Let_def case_prod_beta merge_round_short)

lemma mset_merge_round: "mset (fst (merge_round lessf n todo)) = mset todo"
proof (induction "length todo" arbitrary: todo rule: less_induct)
  case less
  show ?case
  proof (cases "todo = [] \<or> length todo < n \<or> n = 0")
    case True
    then show ?thesis by (simp add: merge_round_short)
  next
    case False
    let ?r = "drop n (drop n todo)"
    have "mset (fst (merge_round lessf n ?r)) = mset ?r"
      using False by (intro less) (auto simp: neq_Nil_conv)
    moreover have "mset todo = mset (take n todo) + (mset (take n (drop n todo)) + mset ?r)"
      by (metis append_take_drop_id mset_append)
    ultimately show ?thesis using False by (simp add: merge_round_step not_less)
  qed
qed

lemma length_merge_round [simp]: "length (fst (merge_round lessf n todo)) = length todo"
  using mset_merge_round [of lessf n todo] by (rule mset_eq_length)

lemma merge_round_continues: "snd (merge_round lessf n todo) \<Longrightarrow> 0 < n \<and> n \<le> length todo"
  by (cases "todo = [] \<or> length todo < n \<or> n = 0") (auto simp: merge_round_short)

function merge_sort_loop :: "('a \<Rightarrow> 'a \<Rightarrow> bool) \<Rightarrow> nat \<Rightarrow> 'a list \<Rightarrow> 'a list" where
  "merge_sort_loop lessfunction n xs =
     (if snd (merge_round lessfunction n xs)
      then merge_sort_loop lessfunction (n + n) (fst (merge_round lessfunction n xs))
      else fst (merge_round lessfunction n xs))"
  by pat_completeness auto
termination
proof (relation "measure (\<lambda>(lessf, n, xs). Suc (length xs) - n)")
  fix lessf :: "'a \<Rightarrow> 'a \<Rightarrow> bool" and n xs
  assume "snd (merge_round lessf n xs)"
  from merge_round_continues [OF this]
  show "((lessf, n + n, fst (merge_round lessf n xs)), lessf, n, xs)
          \<in> measure (\<lambda>(lessf, n, xs). Suc (length xs) - n)"
    by auto
qed simp

declare merge_sort_loop.simps [simp del]

definition LIST_MERGE_SORT :: "('a \<Rightarrow> 'a \<Rightarrow> bool) \<Rightarrow> 'a list \<Rightarrow> 'a list" where
  "LIST_MERGE_SORT lessfunction xs = merge_sort_loop lessfunction 1 xs"

section \<open>What the macros compute\<close>

lemma LIST_APPEND_append [simp]: "LIST_APPEND xs ys = xs @ ys"
  by (induction xs ys rule: LIST_APPEND.induct) auto

lemma list_len_loop_length: "list_len_loop n xs = n + length xs"
  by (induction n xs rule: list_len_loop.induct) auto

lemma LIST_LEN_length [simp]: "LIST_LEN xs = length xs"
  by (simp add: LIST_LEN_def list_len_loop_length)

lemma list_reverse_loop_rev: "list_reverse_loop xs ys = rev xs @ ys"
  by (induction xs ys rule: list_reverse_loop.induct) auto

lemma LIST_REVERSE_rev [simp]: "LIST_REVERSE xs = rev xs"
  by (simp add: LIST_REVERSE_def list_reverse_loop_rev)

lemma SORTED_LIST_FIND3_dropWhile:
  "SORTED_LIST_FIND3 lessf key xs = dropWhile (\<lambda>x. lessf x key) xs"
  by (induction lessf key xs rule: SORTED_LIST_FIND3.induct) auto

lemma SORTED_LIST_PLACE3_split:
  "SORTED_LIST_PLACE3 lessf key xs =
     (takeWhile (\<lambda>x. lessf x key) xs, dropWhile (\<lambda>x. lessf x key) xs)"
  by (induction lessf key xs rule: SORTED_LIST_PLACE3.induct) auto

lemma SORTED_LIST_INSERT3_split:
  "SORTED_LIST_INSERT3 lessf x xs =
     takeWhile (\<lambda>y. lessf y x) xs @ x # dropWhile (\<lambda>y. lessf y x) xs"
  by (simp add: SORTED_LIST_INSERT3_def SORTED_LIST_PLACE3_split)

lemma mset_SORTED_LIST_INSERT3 [simp]:
  "mset (SORTED_LIST_INSERT3 lessf x xs) = add_mset x (mset xs)"
  by (simp add: SORTED_LIST_INSERT3_split)
    (metis mset_append takeWhile_dropWhile_id)

lemma mset_merge_sort_loop: "mset (merge_sort_loop lessf n xs) = mset xs"
proof (induction lessf n xs rule: merge_sort_loop.induct)
  case (1 lessf n xs)
  then show ?case
    by (subst merge_sort_loop.simps) (simp add: mset_merge_round)
qed

lemma mset_LIST_MERGE_SORT [simp]: "mset (LIST_MERGE_SORT lessf xs) = mset xs"
  by (simp add: LIST_MERGE_SORT_def mset_merge_sort_loop)

lemma set_LIST_MERGE_SORT [simp]: "set (LIST_MERGE_SORT lessf xs) = set xs"
  by (metis mset_LIST_MERGE_SORT set_mset_mset)

lemma length_LIST_MERGE_SORT [simp]: "length (LIST_MERGE_SORT lessf xs) = length xs"
  by (metis mset_LIST_MERGE_SORT size_mset)

section \<open>The order the sorting macros rely on\<close>

text \<open>
  \<open>lessfunction\<close> is called as a strict order. What the macros need of it is that it is
  asymmetric and that "not greater" is transitive: a strict order up to elements that it
  does not distinguish.
\<close>

locale list_order =
  fixes lt :: "'a \<Rightarrow> 'a \<Rightarrow> bool"
  assumes lt_asym: "lt a b \<Longrightarrow> \<not> lt b a"
    and not_lt_trans: "\<not> lt b a \<Longrightarrow> \<not> lt c b \<Longrightarrow> \<not> lt c a"
begin

lemma lt_irrefl: "\<not> lt a a"
  using lt_asym by blast

lemma lt_trans: "lt a b \<Longrightarrow> lt b c \<Longrightarrow> lt a c"
  using lt_asym not_lt_trans by blast

lemma lt_not_lt_trans: "lt a b \<Longrightarrow> \<not> lt c b \<Longrightarrow> lt a c"
  using lt_asym not_lt_trans by blast

lemma not_lt_lt_trans: "\<not> lt b a \<Longrightarrow> lt b c \<Longrightarrow> lt a c"
  using lt_asym not_lt_trans by blast

abbreviation ordered :: "'a list \<Rightarrow> bool" where
  "ordered \<equiv> sorted_wrt (\<lambda>x y. \<not> lt y x)"

lemma LIST_MERGE_ordered_aux:
  "f = lt \<Longrightarrow> ordered as \<Longrightarrow> ordered bs \<Longrightarrow> ordered (LIST_MERGE f as bs)"
proof (induction f as bs rule: LIST_MERGE.induct)
  case (1 f a as b bs)
  show ?case
  proof (cases "lt a b")
    case True
    then have "\<not> lt b a" by (rule lt_asym)
    with 1 True show ?thesis using not_lt_trans [of b a] by auto
  next
    case False
    with 1 show ?thesis using not_lt_trans [of a b] by auto
  qed
qed auto

lemma LIST_MERGE_ordered: "ordered as \<Longrightarrow> ordered bs \<Longrightarrow> ordered (LIST_MERGE lt as bs)"
  by (rule LIST_MERGE_ordered_aux) simp

text \<open>A list made of ordered runs of \<open>n\<close> elements, the last of them possibly shorter.\<close>

inductive runs :: "nat \<Rightarrow> 'a list \<Rightarrow> bool" where
  no_runs: "runs n []"
| one_run: "ordered (take n xs) \<Longrightarrow> runs n (drop n xs) \<Longrightarrow> runs n xs"

lemma runs_take: "runs n xs \<Longrightarrow> ordered (take n xs)"
  by (auto elim: runs.cases)

lemma runs_drop: "runs n xs \<Longrightarrow> runs n (drop n xs)"
  by (erule runs.cases) (simp_all add: no_runs)

lemma runs_1: "runs 1 xs"
proof (induction xs)
  case Nil
  show ?case by (rule no_runs)
next
  case (Cons x xs)
  show ?case by (rule one_run) (use Cons in simp_all)
qed

lemma runs_merge_round:
  "runs n xs \<Longrightarrow> runs (n + n) (fst (merge_round lt n xs))"
proof (induction "length xs" arbitrary: xs rule: less_induct)
  case less
  show ?case
  proof (cases "xs = [] \<or> length xs < n \<or> n = 0")
    case True
    consider "xs = []" | "n = 0" | "length xs < n" using True by blast
    then show ?thesis
    proof cases
      case 3
      with runs_take [OF less.prems] have "ordered xs" by simp
      with 3 True show ?thesis
        by (simp add: merge_round_short) (rule one_run, simp_all add: no_runs)
    qed (use less.prems in \<open>simp_all add: merge_round_short no_runs\<close>)
  next
    case False
    let ?a = "take n xs" and ?b = "take n (drop n xs)" and ?r = "drop n (drop n xs)"
    let ?m = "LIST_MERGE lt ?a ?b" and ?rest = "fst (merge_round lt n ?r)"
    have rest: "runs (n + n) ?rest"
      using False runs_drop [OF runs_drop [OF less.prems]] by (intro less.hyps) auto
    have m: "ordered ?m"
      using less.prems by (intro LIST_MERGE_ordered runs_take runs_drop)
    have res: "fst (merge_round lt n xs) = ?m @ ?rest"
      using False by (simp add: merge_round_step)
    show ?thesis
    proof (cases "length xs < n + n")
      case True
      then have "?rest = []" by (simp add: merge_round_short)
      moreover have "length ?m \<le> n + n" by simp
      ultimately show ?thesis
        unfolding res using m by - (rule one_run, simp_all add: no_runs)
    next
      case enough: False
      then have "length ?m = n + n" by simp
      then show ?thesis
        unfolding res using m rest by - (rule one_run, simp_all)
    qed
  qed
qed

lemma merge_sort_loop_ordered_aux:
  "f = lt \<Longrightarrow> 0 < n \<Longrightarrow> runs n xs \<Longrightarrow> ordered (merge_sort_loop f n xs)"
proof (induction f n xs rule: merge_sort_loop.induct)
  case (1 f n xs)
  show ?case
  proof (cases "snd (merge_round f n xs)")
    case True
    with 1 have "ordered (merge_sort_loop f (n + n) (fst (merge_round f n xs)))"
      by (intro "1.IH") (auto intro: runs_merge_round)
    with True show ?thesis by (subst merge_sort_loop.simps) simp
  next
    case False
    then have "xs = [] \<or> length xs < n"
      using merge_round_step [of xs n f] \<open>0 < n\<close> by (cases "n \<le> length xs"; cases "xs = []") auto
    moreover have "merge_round f n xs = (xs, False)"
      using calculation by (auto intro: merge_round_short)
    moreover have "ordered xs"
      using calculation runs_take [OF \<open>runs n xs\<close>] by auto
    ultimately show ?thesis by (subst merge_sort_loop.simps) simp
  qed
qed

lemma LIST_MERGE_SORT_ordered: "ordered (LIST_MERGE_SORT lt xs)"
  unfolding LIST_MERGE_SORT_def
  by (rule merge_sort_loop_ordered_aux [OF refl _ runs_1]) simp

lemma SORTED_LIST_PLACE3_before:
  "x \<in> set (fst (SORTED_LIST_PLACE3 lt key xs)) \<Longrightarrow> lt x key"
  by (auto simp: SORTED_LIST_PLACE3_split dest: set_takeWhileD)

lemma SORTED_LIST_PLACE3_from:
  assumes "ordered xs" and "x \<in> set (snd (SORTED_LIST_PLACE3 lt key xs))"
  shows "\<not> lt x key"
  using assms
proof (induction xs)
  case (Cons y ys)
  show ?case
  proof (cases "lt y key")
    case True
    with Cons.prems have "x \<in> set (snd (SORTED_LIST_PLACE3 lt key ys))" "ordered ys"
      by (simp_all add: SORTED_LIST_PLACE3_split)
    then show ?thesis by (intro Cons.IH)
  next
    case False
    with Cons.prems have "x = y \<or> \<not> lt x y" by auto
    with False show ?thesis using not_lt_trans by blast
  qed
qed simp

lemma ordered_appendD: "ordered (xs @ ys) \<Longrightarrow> ordered xs \<and> ordered ys"
  by (simp add: sorted_wrt_append)

lemma SORTED_LIST_INSERT3_ordered:
  assumes "ordered xs" shows "ordered (SORTED_LIST_INSERT3 lt x xs)"
proof -
  let ?p = "takeWhile (\<lambda>y. lt y x) xs" and ?s = "dropWhile (\<lambda>y. lt y x) xs"
  have "ordered (?p @ ?s)" using assms by simp
  moreover have "\<forall>y\<in>set ?p. \<not> lt x y" by (auto dest: set_takeWhileD lt_asym)
  moreover have "\<forall>y\<in>set ?s. \<not> lt y x"
    using SORTED_LIST_PLACE3_from [OF assms, of _ x]
    unfolding SORTED_LIST_PLACE3_split snd_conv by blast
  ultimately show ?thesis
    unfolding SORTED_LIST_INSERT3_split sorted_wrt_append sorted_wrt.simps set_simps by blast
qed

lemma list_sort_loop_ordered_aux:
  "f = lt \<Longrightarrow> ordered out \<Longrightarrow> ordered (list_sort_loop f xs out)"
  by (induction f xs out rule: list_sort_loop.induct) (auto intro: SORTED_LIST_INSERT3_ordered)

lemma LIST_SORT_ordered: "ordered (LIST_SORT lt xs)"
  unfolding LIST_SORT_def by (rule list_sort_loop_ordered_aux) simp_all

end

lemma mset_list_sort_loop: "mset (list_sort_loop f xs out) = mset xs + mset out"
  by (induction f xs out rule: list_sort_loop.induct) auto

lemma mset_LIST_SORT [simp]: "mset (LIST_SORT f xs) = mset xs"
  by (simp add: LIST_SORT_def mset_list_sort_loop)

text \<open>Every total order gives such an order on what is compared by a key.\<close>

lemma list_order_key: "list_order (\<lambda>a b. (key a :: 'k :: linorder) < key b)"
  by unfold_locales auto

lemma list_order_strcmp: "list_order (\<lambda>a b. strcmp (key a) (key b) < 0)"
proof
  fix a b c
  show "strcmp (key a) (key b) < 0 \<Longrightarrow> \<not> strcmp (key b) (key a) < 0"
    using strcmp_antisym [of "key a" "key b"] by linarith
  assume "\<not> strcmp (key b) (key a) < 0" "\<not> strcmp (key c) (key b) < 0"
  then show "\<not> strcmp (key c) (key a) < 0"
    using strcmp_linear [of "key a" "key b"] strcmp_linear [of "key b" "key c"]
      strcmp_trans [of "key a" "key b" "key c"] strcmp_swap [of "key c" "key a"]
    by auto
qed

interpretation position_order: list_order positionIsLessThan
  by unfold_locales auto

text \<open>C36: \<open>LIST_MERGE_SORT\<close>, the bottom-up merge sort, always stops (it is a total function) with an
  ordered list of exactly the elements it was given, whatever the order it is called with.\<close>

theorem LIST_MERGE_SORT_sorts:
  assumes "\<And>a b. lessfunction a b \<Longrightarrow> \<not> lessfunction b a"
    and "\<And>a b c. \<not> lessfunction b a \<Longrightarrow> \<not> lessfunction c b \<Longrightarrow> \<not> lessfunction c a"
  shows "sorted_wrt (\<lambda>x y. \<not> lessfunction y x) (LIST_MERGE_SORT lessfunction xs)
    \<and> mset (LIST_MERGE_SORT lessfunction xs) = mset xs"
proof -
  have "list_order lessfunction" using assms by unfold_locales blast+
  then show ?thesis by (simp add: list_order.LIST_MERGE_SORT_ordered)
qed

theorem LIST_MERGE_SORT_sorts_witness:
  "LIST_MERGE_SORT (\<lambda>a b. a < (b::nat)) [3, 1, 2] = [1, 2, 3]
   \<and> sorted_wrt (\<lambda>x y. \<not> y < x) (LIST_MERGE_SORT (\<lambda>a b. a < (b::nat)) [3, 1, 2])"
proof
  show "LIST_MERGE_SORT (\<lambda>a b. a < (b::nat)) [3, 1, 2] = [1, 2, 3]"
    by (simp add: LIST_MERGE_SORT_def merge_sort_loop.simps merge_round.simps)
  show "sorted_wrt (\<lambda>x y. \<not> y < x) (LIST_MERGE_SORT (\<lambda>a b. a < (b::nat)) [3, 1, 2])"
    using LIST_MERGE_SORT_sorts [of "\<lambda>a b. a < (b::nat)" "[3, 1, 2]"] by auto
qed

end
