(* ===== verification/Memory.thy ===== *)
theory Memory
  imports Prelude
begin

text \<open>
  Models \<^verbatim>\<open>memory.c\<close>: arenas in which memory is handed out by moving an index and taken back
  by moving it down to a marker, with the preprocessor memory and the cross-reference
  memory as its two instances. An address is an \<^typ>\<open>int\<close>; \<open>mem_area\<close> is the address of the
  area of the arena.
\<close>

record memory =
  mem_name :: string
  mem_index :: int
  mem_max :: int
  mem_size :: int
  mem_area :: int

text \<open>\<open>newArea\<close> is the address \<open>realloc\<close> returns when the area has to grow.\<close>

definition memoryInit :: "int \<Rightarrow> memory \<Rightarrow> string \<Rightarrow> int \<Rightarrow> memory" where
  "memoryInit newArea m name sz =
     (let m1 = m\<lparr>mem_name := name\<rparr>;
          m2 = (if sz > mem_size m1 then m1\<lparr>mem_area := newArea, mem_size := sz\<rparr> else m1)
      in m2\<lparr>mem_index := 0\<rparr>)"

text \<open>Running out of memory is fatal: the handler does not return.\<close>

definition memoryAllocc :: "memory \<Rightarrow> int \<Rightarrow> int \<Rightarrow> (int \<times> memory) option" where
  "memoryAllocc m count sz =
     (let pointer = mem_area m + mem_index m in
      if \<not> sz > 0 then None
      else if \<not> count \<ge> 0 then None
      else if mem_index m + count * sz > mem_size m then None
      else (let index' = mem_index m + count * sz;
                max' = (if index' > mem_max m then index' else mem_max m)
            in Some (pointer, m\<lparr>mem_index := index', mem_max := max'\<rparr>)))"

definition memoryAlloc :: "memory \<Rightarrow> int \<Rightarrow> (int \<times> memory) option" where
  "memoryAlloc m sz = memoryAllocc m 1 sz"

definition memoryIsBetween :: "memory \<Rightarrow> int \<Rightarrow> int \<Rightarrow> int \<Rightarrow> bool" where
  "memoryIsBetween m pointer low high \<longleftrightarrow>
     pointer \<ge> mem_area m + low \<and> pointer \<le> mem_area m + high"

definition isInMemory :: "memory \<Rightarrow> int \<Rightarrow> bool" where
  "isInMemory m pointer = memoryIsBetween m pointer 0 (mem_index m)"

definition memoryFreeUntil :: "memory \<Rightarrow> int \<Rightarrow> (int \<times> memory) option" where
  "memoryFreeUntil m pointer =
     (if \<not> isInMemory m pointer then None
      else (let markerOffset = pointer - mem_area m in
            if markerOffset > mem_index m then None
            else Some (mem_index m - markerOffset, m\<lparr>mem_index := markerOffset\<rparr>)))"

definition memoryPointerIsFreed :: "memory \<Rightarrow> int \<Rightarrow> bool" where
  "memoryPointerIsFreed m pointer = memoryIsBetween m pointer (mem_index m) (mem_size m)"

text \<open>The new size is not checked against the size of the area, and the maximum is not updated.\<close>

definition memoryRealloc :: "memory \<Rightarrow> int \<Rightarrow> int \<Rightarrow> int \<Rightarrow> (int \<times> memory) option" where
  "memoryRealloc m pointer oldSize newSize =
     (if pointer \<noteq> mem_area m + (mem_index m - oldSize) then None
      else Some (pointer, m\<lparr>mem_index := mem_index m + (newSize - oldSize)\<rparr>))"

definition memoryReallocc :: "memory \<Rightarrow> int \<Rightarrow> int \<Rightarrow> int \<Rightarrow> int \<Rightarrow> (int \<times> memory) option" where
  "memoryReallocc m pointer newCount sz oldCount =
     memoryRealloc m pointer (oldCount * sz) (newCount * sz)"

text \<open>The two arenas of the program.\<close>

record memories =
  ppmMemory :: memory
  cxMemory :: memory

definition with_ppm :: "memories \<Rightarrow> ('a \<times> memory) option \<Rightarrow> ('a \<times> memories) option" where
  "with_ppm s r = (case r of None \<Rightarrow> None | Some (x, m) \<Rightarrow> Some (x, s\<lparr>ppmMemory := m\<rparr>))"

definition with_cx :: "memories \<Rightarrow> ('a \<times> memory) option \<Rightarrow> ('a \<times> memories) option" where
  "with_cx s r = (case r of None \<Rightarrow> None | Some (x, m) \<Rightarrow> Some (x, s\<lparr>cxMemory := m\<rparr>))"

definition ppmAlloc :: "memories \<Rightarrow> int \<Rightarrow> (int \<times> memories) option" where
  "ppmAlloc s sz = with_ppm s (memoryAlloc (ppmMemory s) sz)"

definition ppmAllocc :: "memories \<Rightarrow> int \<Rightarrow> int \<Rightarrow> (int \<times> memories) option" where
  "ppmAllocc s count sz = with_ppm s (memoryAllocc (ppmMemory s) count sz)"

definition ppmReallocc :: "memories \<Rightarrow> int \<Rightarrow> int \<Rightarrow> int \<Rightarrow> int \<Rightarrow> (int \<times> memories) option" where
  "ppmReallocc s pointer newCount sz oldCount =
     with_ppm s (memoryReallocc (ppmMemory s) pointer newCount sz oldCount)"

definition ppmFreeUntil :: "memories \<Rightarrow> int \<Rightarrow> (int \<times> memories) option" where
  "ppmFreeUntil s pointer = with_ppm s (memoryFreeUntil (ppmMemory s) pointer)"

definition ppmIsFreedPointer :: "memories \<Rightarrow> int \<Rightarrow> bool" where
  "ppmIsFreedPointer s pointer = memoryPointerIsFreed (ppmMemory s) pointer"

definition initCxMemory :: "int \<Rightarrow> memories \<Rightarrow> int \<Rightarrow> memories" where
  "initCxMemory newArea s sz = s\<lparr>cxMemory := memoryInit newArea (cxMemory s) ''cxMemory'' sz\<rparr>"

definition cxAlloc :: "memories \<Rightarrow> int \<Rightarrow> (int \<times> memories) option" where
  "cxAlloc s sz = with_cx s (memoryAllocc (cxMemory s) sz 1)"

definition cxMemoryPointerIsBetween :: "memories \<Rightarrow> int \<Rightarrow> int \<Rightarrow> int \<Rightarrow> bool" where
  "cxMemoryPointerIsBetween s pointer low high = memoryIsBetween (cxMemory s) pointer low high"

section \<open>The arena interface\<close>

text \<open>
  What the users of an arena rely on: allocation keeps it well formed and hands out a block
  inside the part in use that no earlier block overlaps, and going back to a marker
  forgets exactly what was allocated after it.
\<close>

definition wf_memory :: "memory \<Rightarrow> bool" where
  "wf_memory m \<longleftrightarrow> 0 \<le> mem_index m \<and> mem_index m \<le> mem_size m"

locale arena =
  fixes alloc :: "'m \<Rightarrow> int \<Rightarrow> (int \<times> 'm) option"
    and free_until :: "'m \<Rightarrow> int \<Rightarrow> (int \<times> 'm) option"
    and base :: "'m \<Rightarrow> int" \<comment> \<open>the first address of the area\<close>
    and top :: "'m \<Rightarrow> int" \<comment> \<open>the first address not handed out\<close>
    and wf :: "'m \<Rightarrow> bool"
  assumes base_top: "wf m \<Longrightarrow> base m \<le> top m"
    and alloc_law: "wf m \<Longrightarrow> alloc m n = Some (p, m') \<Longrightarrow>
           wf m' \<and> p = top m \<and> 0 \<le> n \<and> top m' = p + n \<and> base m' = base m"
    and free_law: "wf m \<Longrightarrow> base m \<le> p \<Longrightarrow> p \<le> top m \<Longrightarrow>
           \<exists>m'. free_until m p = Some (top m - p, m') \<and> top m' = p \<and> base m' = base m \<and> wf m'"
begin

fun alloc_all :: "'m \<Rightarrow> int list \<Rightarrow> (int list \<times> 'm) option" where
  "alloc_all m [] = Some ([], m)"
| "alloc_all m (n # ns) =
     (case alloc m n of
        None \<Rightarrow> None
      | Some (p, m1) \<Rightarrow>
          (case alloc_all m1 ns of None \<Rightarrow> None | Some (ps, m2) \<Rightarrow> Some (p # ps, m2)))"

lemma alloc_all_ConsE:
  assumes "alloc_all m (n # ns) = Some (ps, m')"
  obtains p m1 ps' where "alloc m n = Some (p, m1)" "alloc_all m1 ns = Some (ps', m')" "ps = p # ps'"
  using assms by (auto split: option.splits)

lemma alloc_all_law:
  "wf m \<Longrightarrow> alloc_all m ns = Some (ps, m') \<Longrightarrow>
     wf m' \<and> base m' = base m \<and> top m \<le> top m' \<and> length ps = length ns
     \<and> (\<forall>i<length ns. top m \<le> ps ! i \<and> ps ! i + ns ! i \<le> top m')"
proof (induction ns arbitrary: m ps)
  case (Cons n ns)
  from Cons.prems(2) obtain p m1 ps' where 1: "alloc m n = Some (p, m1)"
    and 2: "alloc_all m1 ns = Some (ps', m')" and ps: "ps = p # ps'"
    by (rule alloc_all_ConsE)
  from alloc_law [OF Cons.prems(1) 1] have L: "wf m1" "p = top m" "0 \<le> n" "top m1 = p + n"
      "base m1 = base m"
    by auto
  from Cons.IH [OF L(1) 2] L ps show ?case
    by (fastforce simp: nth_Cons less_Suc_eq_0_disj split: nat.splits)
qed simp

text \<open>Blocks of one run of allocations never overlap.\<close>

lemma alloc_all_disjoint:
  "wf m \<Longrightarrow> alloc_all m ns = Some (ps, m') \<Longrightarrow> i < j \<Longrightarrow> j < length ns \<Longrightarrow>
     ps ! i + ns ! i \<le> ps ! j"
proof (induction ns arbitrary: m ps i j)
  case (Cons n ns)
  from Cons.prems(2) obtain p m1 ps' where 1: "alloc m n = Some (p, m1)"
    and 2: "alloc_all m1 ns = Some (ps', m')" and ps: "ps = p # ps'"
    by (rule alloc_all_ConsE)
  from alloc_law [OF Cons.prems(1) 1] have L: "wf m1" "p = top m" "top m1 = p + n" by auto
  from Cons.prems obtain j' where j: "j = Suc j'" and j': "j' < length ns" by (cases j) auto
  show ?case
  proof (cases i)
    case 0
    then show ?thesis using alloc_all_law [OF L(1) 2] L j j' ps by auto
  next
    case (Suc i')
    then show ?thesis using Cons.IH [OF L(1) 2, of i' j'] Cons.prems j ps by auto
  qed
qed simp

text \<open>Going back to a block forgets it and everything allocated after it, and nothing else.\<close>

lemma free_after_alloc_all:
  assumes "wf m" "alloc m n = Some (p, m1)" "alloc_all m1 ns = Some (ps, m2)"
  shows "\<exists>m3. free_until m2 p = Some (n + (top m2 - top m1), m3)
    \<and> top m3 = top m \<and> base m3 = base m \<and> wf m3"
proof -
  from alloc_law [OF assms(1,2)] have L: "wf m1" "p = top m" "0 \<le> n" "top m1 = p + n"
    "base m1 = base m" by auto
  from alloc_all_law [OF L(1) assms(3)] L base_top [OF assms(1)]
  have "wf m2" "base m2 \<le> p" "p \<le> top m2" "base m2 = base m" by auto
  from free_law [OF this(1-3)] L this(4) show ?thesis by auto
qed

end

lemma memoryAllocc_SomeD:
  assumes "memoryAllocc m count sz = Some (p, m')"
  shows "0 < sz" "0 \<le> count" "p = mem_area m + mem_index m"
    and "m' = m\<lparr>mem_index := mem_index m + count * sz,
                 mem_max := max (mem_index m + count * sz) (mem_max m)\<rparr>"
    and "mem_index m + count * sz \<le> mem_size m"
  using assms by (auto simp: memoryAllocc_def Let_def max_def split: if_splits)

definition mem_top :: "memory \<Rightarrow> int" where
  "mem_top m = mem_area m + mem_index m"

lemma memoryAllocc_wf:
  "wf_memory m \<Longrightarrow> memoryAllocc m count sz = Some (p, m') \<Longrightarrow> wf_memory m'"
  using memoryAllocc_SomeD [of m count sz p m'] by (simp add: wf_memory_def)

lemma memoryFreeUntil_inside:
  assumes "wf_memory m" "mem_area m \<le> p" "p \<le> mem_top m"
  shows "memoryFreeUntil m p = Some (mem_top m - p, m\<lparr>mem_index := p - mem_area m\<rparr>)"
  using assms
  by (simp add: memoryFreeUntil_def isInMemory_def memoryIsBetween_def mem_top_def Let_def)

interpretation mem: arena memoryAlloc memoryFreeUntil mem_area mem_top wf_memory
proof
  fix m m' :: memory and n p :: int
  show "wf_memory m \<Longrightarrow> mem_area m \<le> mem_top m"
    by (simp add: wf_memory_def mem_top_def)
  show "wf_memory m' \<and> p = mem_top m \<and> 0 \<le> n \<and> mem_top m' = p + n \<and> mem_area m' = mem_area m"
    if "wf_memory m" "memoryAlloc m n = Some (p, m')"
  proof -
    from memoryAllocc_SomeD [OF that(2) [unfolded memoryAlloc_def]] memoryAllocc_wf [OF that(1)]
      that(2)
    show ?thesis by (auto simp: mem_top_def memoryAlloc_def)
  qed
  show "\<exists>m'. memoryFreeUntil m p = Some (mem_top m - p, m') \<and> mem_top m' = p
          \<and> mem_area m' = mem_area m \<and> wf_memory m'"
    if "wf_memory m" "mem_area m \<le> p" "p \<le> mem_top m"
    using that memoryFreeUntil_inside [OF that]
    by (auto simp: mem_top_def wf_memory_def)
qed

section \<open>Properties\<close>



text \<open>\<open>ppmFreeUntil\<close> with the pointer an allocation returned gives back that block and all
  blocks allocated after it, and leaves the preprocessor memory with exactly the addresses in
  use that it had before the allocation.\<close>

theorem ppmFreeUntil_restores:
  assumes "wf_memory (ppmMemory s)"
    and "ppmAlloc s n = Some (p, s1)"
    and "mem.alloc_all (ppmMemory s1) ns = Some (ps, m2)"
  shows "\<exists>s3. ppmFreeUntil (s1\<lparr>ppmMemory := m2\<rparr>) p = Some (mem_top m2 - mem_top (ppmMemory s), s3)
    \<and> mem_index (ppmMemory s3) = mem_index (ppmMemory s)
    \<and> mem_area (ppmMemory s3) = mem_area (ppmMemory s) \<and> cxMemory s3 = cxMemory s"
proof -
  from assms(2) obtain m1 where 1: "memoryAlloc (ppmMemory s) n = Some (p, m1)"
    and s1: "s1 = s\<lparr>ppmMemory := m1\<rparr>"
    by (auto simp: ppmAlloc_def with_ppm_def split: option.splits)
  with assms(3) have 2: "mem.alloc_all m1 ns = Some (ps, m2)" by simp
  from mem.alloc_law [OF assms(1) 1] mem.free_after_alloc_all [OF assms(1) 1 2] s1
  show ?thesis by (auto simp: ppmFreeUntil_def with_ppm_def mem_top_def)
qed

definition ppm_example :: memories where
  "ppm_example =
     \<lparr>ppmMemory = \<lparr>mem_name = ''ppm'', mem_index = 0, mem_max = 0, mem_size = 100, mem_area = 64\<rparr>,
      cxMemory = \<lparr>mem_name = ''cx'', mem_index = 0, mem_max = 0, mem_size = 10, mem_area = 0\<rparr>\<rparr>"

theorem ppmFreeUntil_restores_witness:
  "\<exists>p s1 ps m2 s3. ppmAlloc ppm_example 10 = Some (p, s1)
     \<and> mem.alloc_all (ppmMemory s1) [20] = Some (ps, m2)
     \<and> ppmFreeUntil (s1\<lparr>ppmMemory := m2\<rparr>) p = Some (30, s3)"
proof -
  obtain p s1 where 1: "ppmAlloc ppm_example 10 = Some (p, s1)"
    by (simp add: ppm_example_def ppmAlloc_def with_ppm_def memoryAlloc_def memoryAllocc_def Let_def)
  then obtain ps m2 where 2: "mem.alloc_all (ppmMemory s1) [20] = Some (ps, m2)"
      and m2: "mem_top m2 = 94"
    by (auto simp: ppm_example_def ppmAlloc_def with_ppm_def memoryAlloc_def memoryAllocc_def Let_def
        mem_top_def)
  have "wf_memory (ppmMemory ppm_example)" by (simp add: ppm_example_def wf_memory_def)
  from ppmFreeUntil_restores [OF this 1 2] 1 2 m2
  show ?thesis by (auto simp: ppm_example_def mem_top_def)
qed

text \<open>\<open>memoryRealloc\<close> does not check the size of the arena: growing the topmost block can move
  the index past the end of the area, so that the block reaches beyond it.\<close>

theorem memoryRealloc_unchecked:
  "\<exists>m p m' newSize. wf_memory m \<and> memoryAlloc m 8 = Some (p, m')
     \<and> (\<exists>m''. memoryRealloc m' p 8 newSize = Some (p, m'')
             \<and> p + newSize > mem_area m'' + mem_size m'' \<and> \<not> wf_memory m'')"
proof -
  let ?m = "\<lparr>mem_name = ''ppm'', mem_index = 0, mem_max = 0, mem_size = 16, mem_area = 64\<rparr>"
  let ?m' = "?m\<lparr>mem_index := 8, mem_max := 8\<rparr>"
  have 0: "wf_memory ?m" by (simp add: wf_memory_def)
  have 1: "memoryAlloc ?m 8 = Some (64, ?m')"
    by (simp add: memoryAlloc_def memoryAllocc_def Let_def)
  have 2: "memoryRealloc ?m' 64 8 32 = Some (64, ?m'\<lparr>mem_index := 32\<rparr>)"
    by (simp add: memoryRealloc_def)
  have 3: "64 + 32 > mem_area (?m'\<lparr>mem_index := 32\<rparr>) + mem_size (?m'\<lparr>mem_index := 32\<rparr>)
      \<and> \<not> wf_memory (?m'\<lparr>mem_index := 32\<rparr>)"
    by (simp add: wf_memory_def)
  show ?thesis using 0 1 2 3 by blast
qed

end
