(* ===== verification/StackMemory.thy ===== *)
theory StackMemory
  imports Prelude
begin

text \<open>
  Models \<^verbatim>\<open>stackmemory.c\<close>: the memory that follows the block structure of the parsed program.
  The current block is always the structure at the bottom of the memory; \<open>beginBlock\<close> saves
  a copy of it further up and \<open>endBlock\<close> copies it back. The state is the list of the
  blocks, current one first. A block's frame is the list of the actions to run when
  the block ends, newest first, each with the address of its node; \<open>removeFromFrameUntil\<close>
  compares those addresses. Addresses are offsets into \<^verbatim>\<open>stackMemory\<close>, 0 is \<open>NULL\<close>.
\<close>

record 'a codeBlock =
  firstFreeIndex :: int
  frameAllocations :: "(int \<times> 'a) list"
  isFileScope :: bool

record 'a stackState =
  blocks :: "'a codeBlock list" \<comment> \<open>\<open>*currentBlock\<close>, its \<open>outerBlock\<close>, and so on\<close>
  stackMemory :: memory_area
  stackMemoryMax :: int

definition StackMemorySize :: int where
  "StackMemorySize = 100000000"

text \<open>The sizes of the two structures on a 64-bit platform.\<close>

definition sizeof_CodeBlock :: int where "sizeof_CodeBlock = 32"

definition sizeof_FrameAllocation :: int where "sizeof_FrameAllocation = 24"

definition fillCodeBlock :: "int \<Rightarrow> (int \<times> 'a) list \<Rightarrow> 'a codeBlock" where
  "fillCodeBlock freeIndex allocation =
     \<lparr>firstFreeIndex = freeIndex, frameAllocations = allocation, isFileScope = False\<rparr>"

definition initOuterCodeBlock :: "'a stackState \<Rightarrow> 'a stackState" where
  "initOuterCodeBlock s = s\<lparr>blocks := [fillCodeBlock sizeof_CodeBlock []]\<rparr>"

text \<open>The address of the block; \<^const>\<open>None\<close> when there is no current block or no room.\<close>

definition stackMemoryAlloc :: "'a stackState \<Rightarrow> int \<Rightarrow> (int \<times> 'a stackState) option" where
  "stackMemoryAlloc s sz =
     (case blocks s of
        [] \<Rightarrow> None
      | b # outer \<Rightarrow>
          (let i = firstFreeIndex b in
           if i + sz < StackMemorySize then
             Some (i, s\<lparr>blocks := b\<lparr>firstFreeIndex := i + sz\<rparr> # outer,
                        stackMemoryMax := (if i + sz > stackMemoryMax s then i + sz
                                           else stackMemoryMax s)\<rparr>)
           else None))"

definition addToFrame :: "'a \<Rightarrow> 'a stackState \<Rightarrow> 'a stackState option" where
  "addToFrame action s =
     (case stackMemoryAlloc s sizeof_FrameAllocation of
        None \<Rightarrow> None
      | Some (f, s1) \<Rightarrow>
          (case blocks s1 of
             [] \<Rightarrow> None
           | b # outer \<Rightarrow>
               Some (s1\<lparr>blocks := b\<lparr>frameAllocations := (f, action) # frameAllocations b\<rparr> # outer\<rparr>)))"

text \<open>
  The loop of \<open>removeFromFrameUntil\<close>: the actions it runs, in that order, and the frame it
  stops at. The address of an empty frame is 0, so that the loop stops there.
\<close>

fun frame_address :: "(int \<times> 'a) list \<Rightarrow> int" where
  "frame_address [] = 0"
| "frame_address ((f, action) # rest) = f"

fun remove_frame_loop :: "int \<Rightarrow> (int \<times> 'a) list \<Rightarrow> 'a list \<times> (int \<times> 'a) list" where
  "remove_frame_loop untilP [] = ([], [])"
| "remove_frame_loop untilP ((f, action) # rest) =
     (if untilP < f
      then (let (run, final) = remove_frame_loop untilP rest in (action # run, final))
      else ([], (f, action) # rest))"

definition removeFromFrameUntil :: "int \<Rightarrow> 'a stackState \<Rightarrow> ('a list \<times> 'a stackState) option" where
  "removeFromFrameUntil untilP s =
     (case blocks s of
        [] \<Rightarrow> None
      | b # outer \<Rightarrow>
          (let (run, final) = remove_frame_loop untilP (frameAllocations b) in
           if frame_address final = untilP
           then Some (run, s\<lparr>blocks := b\<lparr>frameAllocations := final\<rparr> # outer\<rparr>)
           else None))"

text \<open>\<open>memcpy\<close> of the bytes pushed.\<close>

definition stackMemoryPush :: "'a stackState \<Rightarrow> int list \<Rightarrow> (int \<times> 'a stackState) option" where
  "stackMemoryPush s bytes =
     (case stackMemoryAlloc s (int (length bytes)) of
        None \<Rightarrow> None
      | Some (new, s1) \<Rightarrow> Some (new, s1\<lparr>stackMemory := store_bytes (stackMemory s1) new bytes\<rparr>))"

definition string_bytes :: "string \<Rightarrow> int list" where
  "string_bytes t = map (\<lambda>c. to_char (of_char c)) t @ [0]"

definition stackMemoryPushString :: "'a stackState \<Rightarrow> string \<Rightarrow> (int \<times> 'a stackState) option" where
  "stackMemoryPushString s t = stackMemoryPush s (string_bytes t)"

text \<open>
  The copy of the current block that \<open>beginBlock\<close> pushes is the block as it was before the
  push; its bytes are the structure in the list of blocks.
\<close>

definition beginBlock :: "'a stackState \<Rightarrow> 'a stackState option" where
  "beginBlock s =
     (case blocks s of
        [] \<Rightarrow> None
      | previous # outer \<Rightarrow>
          (case stackMemoryAlloc s sizeof_CodeBlock of
             None \<Rightarrow> None
           | Some (pushed, s1) \<Rightarrow>
               (case blocks s1 of
                  [] \<Rightarrow> None
                | b # _ \<Rightarrow>
                    Some (s1\<lparr>blocks := fillCodeBlock (firstFreeIndex b) (frameAllocations b)
                                       # previous # outer\<rparr>))))"

definition beginFileScopeBlock :: "'a stackState \<Rightarrow> 'a stackState option" where
  "beginFileScopeBlock s =
     (case beginBlock s of
        None \<Rightarrow> None
      | Some s1 \<Rightarrow>
          (case blocks s1 of
             [] \<Rightarrow> None
           | b # outer \<Rightarrow> Some (s1\<lparr>blocks := b\<lparr>isFileScope := True\<rparr> # outer\<rparr>)))"

definition endBlock :: "'a stackState \<Rightarrow> ('a list \<times> 'a stackState) option" where
  "endBlock s =
     (case blocks s of
        b # outerBlock # _ \<Rightarrow>
          (case removeFromFrameUntil (frame_address (frameAllocations outerBlock)) s of
             None \<Rightarrow> None
           | Some (run, s1) \<Rightarrow> Some (run, s1\<lparr>blocks := tl (blocks s1)\<rparr>))
      | _ \<Rightarrow> None)"

fun nesting_loop :: "'a codeBlock list \<Rightarrow> int" where
  "nesting_loop (b # outer # rest) =
     (if isFileScope b then 0 else 1) + nesting_loop (outer # rest)"
| "nesting_loop _ = 0"

definition nestingLevel :: "'a stackState \<Rightarrow> int" where
  "nestingLevel s = nesting_loop (blocks s)"

definition isMemoryFromPreviousBlock :: "'a stackState \<Rightarrow> int \<Rightarrow> bool" where
  "isMemoryFromPreviousBlock s address \<longleftrightarrow>
     (case blocks s of
        b # outerBlock # _ \<Rightarrow> address > 0 \<and> address < firstFreeIndex outerBlock
      | _ \<Rightarrow> False)"

definition isFreedStackMemory :: "'a stackState \<Rightarrow> int \<Rightarrow> bool" where
  "isFreedStackMemory s ptr \<longleftrightarrow>
     (case blocks s of
        [] \<Rightarrow> False
      | b # _ \<Rightarrow> ptr \<ge> firstFreeIndex b \<and> ptr < StackMemorySize)"

section \<open>Balanced block structure\<close>

text \<open>
  What the parser does between the begin and the end of a block: allocations, actions to
  run at the end of the block, and whole inner blocks. The log holds the actions run by
  the inner blocks.
\<close>

datatype 'a block_op = AllocOp int | FrameOp 'a | BlockOp "'a block_op list" | FileScopeOp "'a block_op list"

fun run_op :: "'a block_op \<Rightarrow> 'a stackState \<Rightarrow> ('a list \<times> 'a stackState) option"
  and run_ops :: "'a block_op list \<Rightarrow> 'a stackState \<Rightarrow> ('a list \<times> 'a stackState) option" where
  "run_op (AllocOp n) s = map_option (\<lambda>(p, s1). ([], s1)) (stackMemoryAlloc s n)"
| "run_op (FrameOp a) s = map_option (\<lambda>s1. ([], s1)) (addToFrame a s)"
| "run_op (BlockOp ops) s =
     do { s1 \<leftarrow> beginBlock s;
          (log, s2) \<leftarrow> run_ops ops s1;
          (run, s3) \<leftarrow> endBlock s2;
          Some (log @ run, s3) }"
| "run_op (FileScopeOp ops) s =
     do { s1 \<leftarrow> beginFileScopeBlock s;
          (log, s2) \<leftarrow> run_ops ops s1;
          (run, s3) \<leftarrow> endBlock s2;
          Some (log @ run, s3) }"
| "run_ops [] s = Some ([], s)"
| "run_ops (x # xs) s =
     do { (log1, s1) \<leftarrow> run_op x s;
          (log2, s2) \<leftarrow> run_ops xs s1;
          Some (log1 @ log2, s2) }"

fun nonneg_op :: "'a block_op \<Rightarrow> bool" where
  "nonneg_op (AllocOp n) = (0 \<le> n)"
| "nonneg_op (FrameOp a) = True"
| "nonneg_op (BlockOp ops) = list_all nonneg_op ops"
| "nonneg_op (FileScopeOp ops) = list_all nonneg_op ops"

text \<open>The actions a list of operations leaves on the frame of its block, in the order added.\<close>

fun frame_actions :: "'a block_op list \<Rightarrow> 'a list" where
  "frame_actions [] = []"
| "frame_actions (FrameOp a # ops) = a # frame_actions ops"
| "frame_actions (_ # ops) = frame_actions ops"

section \<open>The invariant\<close>

text \<open>
  The nodes of a frame lie below the first free index with strictly falling addresses,
  and the frame of an outer block is what is left of the frame of the block inside it.
\<close>

definition wf_frame :: "int \<Rightarrow> (int \<times> 'a) list \<Rightarrow> bool" where
  "wf_frame limit fs \<longleftrightarrow> sorted_wrt (\<lambda>f g. fst g < fst f) fs \<and> (\<forall>f\<in>set fs. 0 < fst f \<and> fst f < limit)"

definition wf_block :: "'a codeBlock \<Rightarrow> bool" where
  "wf_block b \<longleftrightarrow> 0 < firstFreeIndex b \<and> wf_frame (firstFreeIndex b) (frameAllocations b)"

lemma wf_frame_mono: "wf_frame l fs \<Longrightarrow> l \<le> l' \<Longrightarrow> wf_frame l' fs"
  by (fastforce simp: wf_frame_def)

lemma wf_frame_Cons: "wf_frame l fs \<Longrightarrow> 0 < l \<Longrightarrow> l < l' \<Longrightarrow> wf_frame l' ((l, a) # fs)"
  by (fastforce simp: wf_frame_def)

lemma wf_frame_suffix: "wf_frame l (xs @ fs) \<Longrightarrow> wf_frame l fs"
  by (auto simp: wf_frame_def sorted_wrt_append)

lemma remove_frame_loop_suffix:
  "wf_frame l (xs @ fs) \<Longrightarrow>
   remove_frame_loop (frame_address fs) (xs @ fs) = (map snd xs, fs)"
proof (induction xs)
  case Nil
  then show ?case by (cases fs) auto
next
  case (Cons x xs)
  then have "wf_frame l (xs @ fs)" by (auto simp: wf_frame_def)
  moreover have "frame_address fs < fst x"
    using Cons.prems by (cases fs) (auto simp: wf_frame_def sorted_wrt_append)
  ultimately show ?case using Cons.IH by (cases x) auto
qed

text \<open>What a run of operations logs, and a bound on the memory it takes.\<close>

fun op_log :: "'a block_op \<Rightarrow> 'a list" and ops_log :: "'a block_op list \<Rightarrow> 'a list" where
  "op_log (AllocOp n) = []"
| "op_log (FrameOp a) = []"
| "op_log (BlockOp ops) = ops_log ops @ rev (frame_actions ops)"
| "op_log (FileScopeOp ops) = ops_log ops @ rev (frame_actions ops)"
| "ops_log [] = []"
| "ops_log (x # xs) = op_log x @ ops_log xs"

fun op_need :: "'a block_op \<Rightarrow> int" and ops_need :: "'a block_op list \<Rightarrow> int" where
  "op_need (AllocOp n) = n"
| "op_need (FrameOp a) = sizeof_FrameAllocation"
| "op_need (BlockOp ops) = sizeof_CodeBlock + ops_need ops"
| "op_need (FileScopeOp ops) = sizeof_CodeBlock + ops_need ops"
| "ops_need [] = 0"
| "ops_need (x # xs) = op_need x + ops_need xs"

lemma need_nonneg:
  fixes x :: "'a block_op" and xs :: "'a block_op list"
  shows "nonneg_op x \<Longrightarrow> 0 \<le> op_need x"
    "list_all nonneg_op xs \<Longrightarrow> 0 \<le> ops_need xs"
  by (induction x and xs rule: op_need_ops_need.induct)
    (auto simp: sizeof_CodeBlock_def sizeof_FrameAllocation_def)

lemma frame_actions_append: "frame_actions (xs @ ys) = frame_actions xs @ frame_actions ys"
  by (induction xs rule: frame_actions.induct) auto

lemma frame_actions_Cons: "frame_actions (x # xs) = frame_actions [x] @ frame_actions xs"
  using frame_actions_append [of "[x]" xs] by simp

text \<open>
  The state after a run: the outer blocks are untouched, the current block keeps its frame
  below the actions it was given, newest first.
\<close>

definition block_extended ::
  "'a list \<Rightarrow> int \<Rightarrow> 'a codeBlock \<Rightarrow> 'a codeBlock \<Rightarrow> bool" where
  "block_extended actions need b b' \<longleftrightarrow>
     wf_block b' \<and> isFileScope b' = isFileScope b
     \<and> firstFreeIndex b \<le> firstFreeIndex b' \<and> firstFreeIndex b' \<le> firstFreeIndex b + need
     \<and> (\<exists>xs. frameAllocations b' = xs @ frameAllocations b \<and> map snd xs = rev actions)"

lemma block_extended_refl: "wf_block b \<Longrightarrow> 0 \<le> n \<Longrightarrow> block_extended [] n b b"
  by (simp add: block_extended_def)

lemma block_extended_trans:
  "block_extended as m b b1 \<Longrightarrow> block_extended bs n b1 b2 \<Longrightarrow> block_extended (as @ bs) (m + n) b b2"
  by (fastforce simp: block_extended_def)

text \<open>The part the two kinds of inner blocks share.\<close>

lemma endBlock_extended:
  assumes "blocks s = inner # b # outer" "block_extended actions n inner0 inner"
    and "frameAllocations inner0 = frameAllocations b"
  shows "\<exists>s'. endBlock s = Some (rev actions, s') \<and> blocks s' = b # outer"
proof -
  from assms(2,3) obtain xs where xs: "frameAllocations inner = xs @ frameAllocations b"
      "map snd xs = rev actions" and "wf_block inner"
    by (auto simp: block_extended_def)
  then have "remove_frame_loop (frame_address (frameAllocations b)) (frameAllocations inner)
      = (rev actions, frameAllocations b)"
    using remove_frame_loop_suffix [of "firstFreeIndex inner" xs "frameAllocations b"]
    by (auto simp: wf_block_def)
  then show ?thesis using assms(1) by (auto simp: endBlock_def removeFromFrameUntil_def)
qed

lemma beginBlock_blocks:
  assumes "blocks s = b # outer" "wf_block b"
    and "firstFreeIndex b + sizeof_CodeBlock < StackMemorySize"
  shows "\<exists>s1 b1. beginBlock s = Some s1 \<and> blocks s1 = b1 # b # outer \<and> wf_block b1
     \<and> frameAllocations b1 = frameAllocations b
     \<and> firstFreeIndex b1 = firstFreeIndex b + sizeof_CodeBlock"
  using assms
  by (auto simp: beginBlock_def stackMemoryAlloc_def Let_def fillCodeBlock_def wf_block_def
      sizeof_CodeBlock_def intro: wf_frame_mono)

lemma beginFileScopeBlock_blocks:
  assumes "blocks s = b # outer" "wf_block b"
    and "firstFreeIndex b + sizeof_CodeBlock < StackMemorySize"
  shows "\<exists>s1 b1. beginFileScopeBlock s = Some s1 \<and> blocks s1 = b1 # b # outer \<and> wf_block b1
     \<and> frameAllocations b1 = frameAllocations b
     \<and> firstFreeIndex b1 = firstFreeIndex b + sizeof_CodeBlock"
  using beginBlock_blocks [OF assms]
  by (auto simp: beginFileScopeBlock_def wf_block_def)

lemma run_extended:
  "nonneg_op x \<Longrightarrow> blocks s = b # outer \<Longrightarrow> wf_block b \<Longrightarrow>
     firstFreeIndex b + op_need x < StackMemorySize \<Longrightarrow>
     \<exists>s' b'. run_op x s = Some (op_log x, s') \<and> blocks s' = b' # outer
       \<and> block_extended (frame_actions [x]) (op_need x) b b'"
  "list_all nonneg_op xs \<Longrightarrow> blocks s = b # outer \<Longrightarrow> wf_block b \<Longrightarrow>
     firstFreeIndex b + ops_need xs < StackMemorySize \<Longrightarrow>
     \<exists>s' b'. run_ops xs s = Some (ops_log xs, s') \<and> blocks s' = b' # outer
       \<and> block_extended (frame_actions xs) (ops_need xs) b b'"
proof (induction x s and xs s arbitrary: b outer and b outer rule: run_op_run_ops.induct)
  case (1 n s)
  then show ?case
    by (auto simp: stackMemoryAlloc_def Let_def block_extended_def wf_block_def
        intro: wf_frame_mono)
next
  case (2 a s)
  then show ?case
    by (auto simp: addToFrame_def stackMemoryAlloc_def Let_def block_extended_def wf_block_def
        sizeof_FrameAllocation_def intro: wf_frame_Cons)
next
  case (3 ops s)
  have n: "0 \<le> ops_need ops" using 3 need_nonneg by auto
  then obtain s1 b1 where b1: "beginBlock s = Some s1" "blocks s1 = b1 # b # outer" "wf_block b1"
      "frameAllocations b1 = frameAllocations b"
      "firstFreeIndex b1 = firstFreeIndex b + sizeof_CodeBlock"
    using beginBlock_blocks [of s b outer] 3 by auto
  then obtain s2 b2 where s2: "run_ops ops s1 = Some (ops_log ops, s2)" "blocks s2 = b2 # b # outer"
      "block_extended (frame_actions ops) (ops_need ops) b1 b2"
    using "3.IH" [OF b1(1) _ b1(2,3)] "3.prems" by auto
  obtain s3 where "endBlock s2 = Some (rev (frame_actions ops), s3)" "blocks s3 = b # outer"
    using endBlock_extended [OF s2(2,3) b1(4)] by auto
  then show ?case using b1 s2 n "3.prems"
    by (auto intro: block_extended_refl simp: sizeof_CodeBlock_def)
next
  case (4 ops s)
  have n: "0 \<le> ops_need ops" using 4 need_nonneg by auto
  then obtain s1 b1 where b1: "beginFileScopeBlock s = Some s1" "blocks s1 = b1 # b # outer"
      "wf_block b1" "frameAllocations b1 = frameAllocations b"
      "firstFreeIndex b1 = firstFreeIndex b + sizeof_CodeBlock"
    using beginFileScopeBlock_blocks [of s b outer] 4 by auto
  then obtain s2 b2 where s2: "run_ops ops s1 = Some (ops_log ops, s2)" "blocks s2 = b2 # b # outer"
      "block_extended (frame_actions ops) (ops_need ops) b1 b2"
    using "4.IH" [OF b1(1) _ b1(2,3)] "4.prems" by auto
  obtain s3 where "endBlock s2 = Some (rev (frame_actions ops), s3)" "blocks s3 = b # outer"
    using endBlock_extended [OF s2(2,3) b1(4)] by auto
  then show ?case using b1 s2 n "4.prems"
    by (auto intro: block_extended_refl simp: sizeof_CodeBlock_def)
next
  case (5 s)
  then show ?case by (auto intro: block_extended_refl)
next
  case (6 x xs s)
  have n: "0 \<le> ops_need xs" "0 \<le> op_need x" using 6 need_nonneg by auto
  with 6 obtain s1 b1 where s1: "run_op x s = Some (op_log x, s1)" "blocks s1 = b1 # outer"
      "block_extended (frame_actions [x]) (op_need x) b b1"
    by fastforce
  then have "wf_block b1" "firstFreeIndex b1 + ops_need xs < StackMemorySize"
    using "6.prems" by (auto simp: block_extended_def)
  with "6.IH"(2) [OF s1(1) refl _ s1(2)] "6.prems" obtain s2 b2 where
      "run_ops xs s1 = Some (ops_log xs, s2)" "blocks s2 = b2 # outer"
      "block_extended (frame_actions xs) (ops_need xs) b1 b2"
    by auto
  with s1 block_extended_trans [OF s1(3) this(3)] show ?case
    by (auto simp flip: frame_actions_Cons)
qed

section \<open>Properties\<close>

text \<open>C26: A block, with whatever allocations, frame actions and inner blocks between its begin and its
  end, leaves the block structure, its free indices and its frames exactly as they were, when
  there is room for it. Ending it runs the actions added in it, newest first, after those of
  its inner blocks, and no action of an outer block.\<close>

theorem block_is_balanced:
  assumes "blocks s = b # outer" and "wf_block b" and "list_all nonneg_op ops"
    and "firstFreeIndex b + sizeof_CodeBlock + ops_need ops < StackMemorySize"
  shows "\<exists>s'. run_op (BlockOp ops) s = Some (ops_log ops @ rev (frame_actions ops), s')
    \<and> blocks s' = blocks s"
proof -
  from assms(4) have need: "firstFreeIndex b + (sizeof_CodeBlock + ops_need ops) < StackMemorySize"
    by simp
  obtain s1 b1 where b1: "beginBlock s = Some s1" "blocks s1 = b1 # b # outer" "wf_block b1"
      "frameAllocations b1 = frameAllocations b"
      "firstFreeIndex b1 = firstFreeIndex b + sizeof_CodeBlock"
    using beginBlock_blocks [OF assms(1,2)] assms(4) need_nonneg(2) [OF assms(3)] by auto
  then obtain s2 b2 where s2: "run_ops ops s1 = Some (ops_log ops, s2)" "blocks s2 = b2 # b # outer"
      "block_extended (frame_actions ops) (ops_need ops) b1 b2"
    using run_extended(2) [OF assms(3) b1(2,3)] need by auto
  from endBlock_extended [OF s2(2,3) b1(4)] b1 s2 assms(1) show ?thesis by auto
qed

definition outermost :: "string stackState" where
  "outermost = initOuterCodeBlock \<lparr>blocks = [], stackMemory = (\<lambda>_. 0), stackMemoryMax = 0\<rparr>"

theorem block_is_balanced_witness:
  "\<exists>s'. run_op (BlockOp [FrameOp ''x'', BlockOp [FrameOp ''y'', AllocOp 100], FrameOp ''z'']) outermost
     = Some ([''y'', ''z'', ''x''], s') \<and> blocks s' = blocks outermost"
  using block_is_balanced [of outermost "fillCodeBlock sizeof_CodeBlock []" "[]"
      "[FrameOp ''x'', BlockOp [FrameOp ''y'', AllocOp 100], FrameOp ''z'']"]
  by (simp add: outermost_def initOuterCodeBlock_def fillCodeBlock_def wf_block_def wf_frame_def
      sizeof_CodeBlock_def sizeof_FrameAllocation_def StackMemorySize_def)

text \<open>A block of the program makes the nesting one level deeper until it ends; a file scope block,
  which holds the declarations of a file, does not count.\<close>

theorem nestingLevel_of_blocks:
  assumes "beginBlock s = Some s1" and "beginFileScopeBlock s = Some s2"
  shows "nestingLevel s1 = nestingLevel s + 1 \<and> nestingLevel s2 = nestingLevel s"
  using assms
  by (auto simp: nestingLevel_def beginBlock_def beginFileScopeBlock_def stackMemoryAlloc_def Let_def
      fillCodeBlock_def split: list.splits option.splits if_splits)

theorem nestingLevel_of_blocks_witness:
  "\<exists>s1 s2. beginBlock outermost = Some s1 \<and> beginFileScopeBlock outermost = Some s2
     \<and> nestingLevel s1 = nestingLevel outermost + 1 \<and> nestingLevel s2 = nestingLevel outermost"
proof -
  obtain s1 where 1: "beginBlock outermost = Some s1"
    by (simp add: outermost_def initOuterCodeBlock_def fillCodeBlock_def beginBlock_def
        stackMemoryAlloc_def Let_def sizeof_CodeBlock_def StackMemorySize_def)
  obtain s2 where 2: "beginFileScopeBlock outermost = Some s2"
    by (simp add: outermost_def initOuterCodeBlock_def fillCodeBlock_def beginBlock_def
        beginFileScopeBlock_def stackMemoryAlloc_def Let_def sizeof_CodeBlock_def StackMemorySize_def)
  show ?thesis using 1 2 nestingLevel_of_blocks [OF 1 2] by blast
qed

end
