(* ===== verification/HashTab.thy ===== *)
theory HashTab
  imports Prelude
begin

text \<open>
  Models \<^verbatim>\<open>hashtab.tc\<close>, the template of the hash tables with open addressing. The macros
  \<^verbatim>\<open>HASH_FUN\<close> and \<^verbatim>\<open>HASH_ELEM_EQUAL\<close> that an instance defines are the arguments
  \<open>hashf\<close> and \<open>equal\<close>; what the functions rely on is the locale \<open>hash_elements\<close>. The number a
  table gives an element is its slot. Probing steps by 211, which may never reach a free
  slot: the probing loop is a partial function, and that it ends is a theorem.
\<close>

record 'a hashTab =
  tab_numberOfElements :: int
  tab_size :: nat
  tab_tab :: "'a option list"

definition HASH_SHIFT :: nat where
  "HASH_SHIFT = 211"

definition hashTabNoAllocInit :: "nat \<Rightarrow> 'a hashTab" where
  "hashTabNoAllocInit sz =
     \<lparr>tab_numberOfElements = 0, tab_size = sz, tab_tab = replicate sz None\<rparr>"

text \<open>The slot where the probing ends, and whether it holds an equal element.\<close>

partial_function (option) hashTabProbe ::
  "('a \<Rightarrow> 'a \<Rightarrow> bool) \<Rightarrow> 'a hashTab \<Rightarrow> 'a \<Rightarrow> nat \<Rightarrow> (bool \<times> nat) option" where
  "hashTabProbe equal table element posid =
     (case tab_tab table ! posid of
        None \<Rightarrow> Some (False, posid)
      | Some e \<Rightarrow>
          (if equal e element then Some (True, posid)
           else hashTabProbe equal table element ((posid + HASH_SHIFT) mod tab_size table)))"

definition homeSlot :: "('a \<Rightarrow> 32 word) \<Rightarrow> 'a hashTab \<Rightarrow> 'a \<Rightarrow> nat" where
  "homeSlot hashf table element = unat (hashf element) mod tab_size table"

definition hashTabIsMember ::
  "('a \<Rightarrow> 32 word) \<Rightarrow> ('a \<Rightarrow> 'a \<Rightarrow> bool) \<Rightarrow> 'a hashTab \<Rightarrow> 'a \<Rightarrow> (bool \<times> nat) option" where
  "hashTabIsMember hashf equal table element =
     hashTabProbe equal table element (homeSlot hashf table element)"

text \<open>
  An equal element keeps its slot. A new one counts first; the table overflows, which is
  fatal, when more than eight ninths of it would be used. C divides the count as integers.
\<close>

definition hashTabAdd ::
  "('a \<Rightarrow> 32 word) \<Rightarrow> ('a \<Rightarrow> 'a \<Rightarrow> bool) \<Rightarrow> 'a hashTab \<Rightarrow> 'a \<Rightarrow> (nat \<times> 'a hashTab) option" where
  "hashTabAdd hashf equal table element =
     (case hashTabProbe equal table element (homeSlot hashf table element) of
        None \<Rightarrow> None
      | Some (True, posid) \<Rightarrow> Some (posid, table)
      | Some (False, posid) \<Rightarrow>
          (let table1 = table\<lparr>tab_numberOfElements := tab_numberOfElements table + 1\<rparr> in
           if (tab_numberOfElements table1 * 9) div 8 \<ge> int (tab_size table1) then None
           else Some (posid, table1\<lparr>tab_tab := (tab_tab table1)[posid := Some element]\<rparr>)))"

text \<open>The mapping functions call \<open>fn\<close> on the elements from the lowest slot up, threading a state.\<close>

fun map_slots :: "('a \<Rightarrow> nat \<Rightarrow> 's \<Rightarrow> 's) \<Rightarrow> nat \<Rightarrow> 'a option list \<Rightarrow> 's \<Rightarrow> 's" where
  "map_slots fn i [] s = s"
| "map_slots fn i (None # slots) s = map_slots fn (Suc i) slots s"
| "map_slots fn i (Some e # slots) s = map_slots fn (Suc i) slots (fn e i s)"

definition hashTabMap :: "'a hashTab \<Rightarrow> ('a \<Rightarrow> 's \<Rightarrow> 's) \<Rightarrow> 's \<Rightarrow> 's" where
  "hashTabMap table fn s = map_slots (\<lambda>e i. fn e) 0 (tab_tab table) s"

definition hashTabMapWithIndex :: "'a hashTab \<Rightarrow> ('a \<Rightarrow> nat \<Rightarrow> 's \<Rightarrow> 's) \<Rightarrow> 's \<Rightarrow> 's" where
  "hashTabMapWithIndex table fn s = map_slots fn 0 (tab_tab table) s"

definition hashTabMapWithPointer :: "'a hashTab \<Rightarrow> ('a \<Rightarrow> 'p \<Rightarrow> 's \<Rightarrow> 's) \<Rightarrow> 'p \<Rightarrow> 's \<Rightarrow> 's" where
  "hashTabMapWithPointer table fn p s = map_slots (\<lambda>e i. fn e p) 0 (tab_tab table) s"

section \<open>The probe sequence\<close>

definition probeSlot :: "nat \<Rightarrow> nat \<Rightarrow> nat \<Rightarrow> nat" where
  "probeSlot size0 h k = (h + HASH_SHIFT * k) mod size0"

lemma probeSlot_less [simp]: "0 < n \<Longrightarrow> probeSlot n h k < n"
  by (simp add: probeSlot_def)

lemma probeSlot_0: "h < n \<Longrightarrow> probeSlot n h 0 = h"
  by (simp add: probeSlot_def)

lemma probeSlot_Suc: "probeSlot n h (Suc k) = (probeSlot n h k + HASH_SHIFT) mod n"
  by (simp add: probeSlot_def mod_add_left_eq add.assoc add.commute [of HASH_SHIFT])

text \<open>When 211 does not divide the size, the first \<open>size\<close> probes visit every slot.\<close>

lemma probeSlot_inj:
  assumes "coprime HASH_SHIFT n" "i < n" "j < n" "probeSlot n h i = probeSlot n h j"
  shows "i = j"
proof -
  have *: "i' = j'" if "i' \<le> j'" "j' < n" "probeSlot n h i' = probeSlot n h j'" for i' j'
  proof -
    from that have "(h + HASH_SHIFT * j') mod n = (h + HASH_SHIFT * i') mod n"
      by (simp add: probeSlot_def)
    then have "n dvd (h + HASH_SHIFT * j') - (h + HASH_SHIFT * i')"
      using that(1) by (subst (asm) mod_eq_dvd_iff_nat) auto
    then have "n dvd HASH_SHIFT * (j' - i')" by (simp add: diff_mult_distrib2)
    then have "n dvd j' - i'"
      using assms(1) by (simp add: coprime_commute coprime_dvd_mult_right_iff)
    then show "i' = j'" using that by (auto dest: dvd_imp_le)
  qed
  from * [of i j] * [of j i] assms show ?thesis by (cases "i \<le> j") auto
qed

lemma probeSlot_surj:
  assumes "coprime HASH_SHIFT n" "p < n"
  shows "\<exists>k<n. probeSlot n h k = p"
proof -
  have "inj_on (probeSlot n h) {..<n}"
    using probeSlot_inj [OF assms(1)] by (auto intro!: inj_onI)
  moreover have "probeSlot n h ` {..<n} \<subseteq> {..<n}" using assms(2) by auto
  ultimately have "probeSlot n h ` {..<n} = {..<n}" by (simp add: endo_inj_surj)
  with assms(2) show ?thesis by (metis imageE lessThan_iff)
qed

section \<open>The contract of a table\<close>

text \<open>Probing of an element passes a slot that holds an element not equal to it.\<close>

definition passes :: "('a \<Rightarrow> 'a \<Rightarrow> bool) \<Rightarrow> 'a hashTab \<Rightarrow> 'a \<Rightarrow> nat \<Rightarrow> bool" where
  "passes equal table element p \<longleftrightarrow> (\<exists>e. tab_tab table ! p = Some e \<and> \<not> equal e element)"

lemma hashTabProbe_step:
  "passes equal table element p \<Longrightarrow>
   hashTabProbe equal table element p =
   hashTabProbe equal table element ((p + HASH_SHIFT) mod tab_size table)"
  by (subst hashTabProbe.simps) (auto simp: passes_def)

lemma hashTabProbe_stop:
  "\<not> passes equal table element p \<Longrightarrow>
   hashTabProbe equal table element p = Some (tab_tab table ! p \<noteq> None, p)"
  by (subst hashTabProbe.simps) (auto simp: passes_def split: option.splits)

lemma hashTabProbe_skip:
  "\<forall>j<k. passes equal table element (probeSlot (tab_size table) h j) \<Longrightarrow> h < tab_size table \<Longrightarrow>
   hashTabProbe equal table element h =
   hashTabProbe equal table element (probeSlot (tab_size table) h k)"
proof (induction k)
  case (Suc k)
  then show ?case by (simp add: hashTabProbe_step probeSlot_Suc)
qed (simp add: probeSlot_0)

locale hash_elements =
  fixes hashf :: "'a \<Rightarrow> 32 word" and equal :: "'a \<Rightarrow> 'a \<Rightarrow> bool"
  assumes equal_refl: "equal a a"
    and equal_sym: "equal a b \<Longrightarrow> equal b a"
    and equal_trans: "equal a b \<Longrightarrow> equal b c \<Longrightarrow> equal a c"
    and equal_hash: "equal a b \<Longrightarrow> hashf a = hashf b"
begin

text \<open>
  Every element is where probing for it ends: the slots before its own are taken by others,
  and no two slots hold equal elements. There is a free slot.
\<close>

definition wf_tab :: "'a hashTab \<Rightarrow> bool" where
  "wf_tab table \<longleftrightarrow>
     length (tab_tab table) = tab_size table \<and> coprime HASH_SHIFT (tab_size table)
     \<and> tab_numberOfElements table = int (length (filter (\<lambda>x. x \<noteq> None) (tab_tab table)))
     \<and> tab_numberOfElements table < int (tab_size table)
     \<and> (\<forall>p<tab_size table. \<forall>e. tab_tab table ! p = Some e \<longrightarrow>
          (\<exists>k. probeSlot (tab_size table) (homeSlot hashf table e) k = p
             \<and> (\<forall>j<k. passes equal table e (probeSlot (tab_size table) (homeSlot hashf table e) j))))"

lemma wf_tab_size: "wf_tab table \<Longrightarrow> 0 < tab_size table"
  unfolding wf_tab_def by (cases "tab_size table") auto

lemma wf_tab_free_slot:
  assumes "wf_tab table" shows "\<exists>p<tab_size table. tab_tab table ! p = None"
proof (rule ccontr)
  assume "\<not> ?thesis"
  then have "\<forall>x\<in>set (tab_tab table). x \<noteq> None"
    using assms by (auto simp: wf_tab_def in_set_conv_nth)
  then have "filter (\<lambda>x. x \<noteq> None) (tab_tab table) = tab_tab table" by (simp add: filter_id_conv)
  then have "tab_numberOfElements table = int (tab_size table)"
    using assms unfolding wf_tab_def by argo
  then show False using assms by (simp add: wf_tab_def)
qed

lemma homeSlot_less: "wf_tab table \<Longrightarrow> homeSlot hashf table e < tab_size table"
  by (simp add: homeSlot_def wf_tab_size)

text \<open>Probing always ends, at the first slot of the sequence that it does not pass.\<close>

lemma probe_ends:
  assumes "wf_tab table"
  obtains k where "\<forall>j<k. passes equal table e (probeSlot (tab_size table) (homeSlot hashf table e) j)"
    and "\<not> passes equal table e (probeSlot (tab_size table) (homeSlot hashf table e) k)"
    and "hashTabProbe equal table e (homeSlot hashf table e) =
           Some (tab_tab table ! probeSlot (tab_size table) (homeSlot hashf table e) k \<noteq> None,
                 probeSlot (tab_size table) (homeSlot hashf table e) k)"
proof -
  let ?s = "probeSlot (tab_size table) (homeSlot hashf table e)"
  obtain p where p: "p < tab_size table" "tab_tab table ! p = None"
    using wf_tab_free_slot [OF assms] by auto
  have "coprime HASH_SHIFT (tab_size table)" using assms by (simp add: wf_tab_def)
  then obtain k0 where k0: "?s k0 = p"
    using probeSlot_surj p(1) by blast
  let ?k = "LEAST k. \<not> passes equal table e (?s k)"
  have "\<not> passes equal table e (?s k0)" using p k0 by (simp add: passes_def)
  then have stop: "\<not> passes equal table e (?s ?k)" by (rule LeastI)
  have before: "\<forall>j<?k. passes equal table e (?s j)" by (auto dest: not_less_Least)
  have "hashTabProbe equal table e (homeSlot hashf table e) = Some (tab_tab table ! ?s ?k \<noteq> None, ?s ?k)"
    using hashTabProbe_skip [OF before homeSlot_less [OF assms]] hashTabProbe_stop [OF stop] by simp
  with stop before that show ?thesis by blast
qed

lemma isMember_total: "wf_tab table \<Longrightarrow> \<exists>b p. hashTabIsMember hashf equal table e = Some (b, p)"
  unfolding hashTabIsMember_def using probe_ends [of table e] by blast

text \<open>An element of the table is found, in its slot; what is not in the table is not found.\<close>

lemma isMember_present:
  assumes wf: "wf_tab table" and p: "p < tab_size table" "tab_tab table ! p = Some a" and eq: "equal a e"
  shows "hashTabIsMember hashf equal table e = Some (True, p)"
proof -
  have home: "homeSlot hashf table e = homeSlot hashf table a"
    using equal_hash [OF eq] by (simp add: homeSlot_def)
  have same: "passes equal table e q = passes equal table a q" for q
    unfolding passes_def using eq equal_sym equal_trans by blast
  let ?s = "probeSlot (tab_size table) (homeSlot hashf table e)"
  from wf p obtain k where k: "?s k = p" "\<forall>j<k. passes equal table e (?s j)"
    unfolding wf_tab_def home same by blast
  have stop: "\<not> passes equal table e p" using p eq by (simp add: passes_def)
  have "hashTabIsMember hashf equal table e = hashTabProbe equal table e p"
    unfolding hashTabIsMember_def
    using hashTabProbe_skip [OF k(2) homeSlot_less [OF wf]] k(1) by simp
  then show ?thesis using hashTabProbe_stop [OF stop] p by simp
qed

lemma isMember_True:
  assumes wf: "wf_tab table" and "hashTabIsMember hashf equal table e = Some (True, p)"
  shows "p < tab_size table \<and> (\<exists>a. tab_tab table ! p = Some a \<and> equal a e)"
proof -
  obtain k where "\<not> passes equal table e (probeSlot (tab_size table) (homeSlot hashf table e) k)"
    and "hashTabIsMember hashf equal table e =
           Some (tab_tab table ! probeSlot (tab_size table) (homeSlot hashf table e) k \<noteq> None,
                 probeSlot (tab_size table) (homeSlot hashf table e) k)"
    using probe_ends [OF wf] unfolding hashTabIsMember_def by metis
  then show ?thesis using assms(2) wf_tab_size [OF wf] by (auto simp: passes_def)
qed

lemma isMember_iff:
  assumes "wf_tab table"
  shows "(\<exists>p. hashTabIsMember hashf equal table e = Some (True, p)) \<longleftrightarrow>
         (\<exists>a. Some a \<in> set (tab_tab table) \<and> equal a e)"
proof
  assume "\<exists>p. hashTabIsMember hashf equal table e = Some (True, p)"
  then show "\<exists>a. Some a \<in> set (tab_tab table) \<and> equal a e"
    using isMember_True [OF assms] assms by (metis nth_mem wf_tab_def)
next
  assume "\<exists>a. Some a \<in> set (tab_tab table) \<and> equal a e"
  then obtain a p where "p < tab_size table" "tab_tab table ! p = Some a" "equal a e"
    using assms by (auto simp: in_set_conv_nth wf_tab_def)
  then show "\<exists>p. hashTabIsMember hashf equal table e = Some (True, p)"
    using isMember_present [OF assms] by blast
qed

lemma unique_slot:
  assumes "wf_tab table" "p < tab_size table" "q < tab_size table"
    and "tab_tab table ! p = Some a" "tab_tab table ! q = Some b" "equal a b"
  shows "p = q"
  using isMember_present [OF assms(1) assms(2,4) equal_refl] isMember_present [OF assms(1,3,5), of a]
    equal_sym [OF assms(6)] by simp

text \<open>Writing an equal element over one in its slot.\<close>

lemma passes_replace:
  assumes "p < length (tab_tab table)" "tab_tab table ! p = Some a" "equal a b"
  shows "passes equal (table\<lparr>tab_tab := (tab_tab table)[p := Some b]\<rparr>) x q = passes equal table x q"
  using assms equal_sym [of a b] equal_trans [of a b x] equal_trans [of b a x]
  by (cases "q = p") (auto simp: passes_def)

lemma filter_replace:
  "p < length xs \<Longrightarrow> xs ! p = Some a \<Longrightarrow>
   length (filter (\<lambda>x. x \<noteq> None) (xs[p := Some b])) = length (filter (\<lambda>x. x \<noteq> None) xs)"
proof (induction xs arbitrary: p)
  case (Cons x xs)
  then show ?case by (cases p) auto
qed simp

lemma wf_tab_replace:
  assumes wf: "wf_tab table" and p: "p < tab_size table" "tab_tab table ! p = Some a" and eq: "equal a b"
  shows "wf_tab (table\<lparr>tab_tab := (tab_tab table)[p := Some b]\<rparr>)" (is "wf_tab ?t")
proof -
  have len: "length (tab_tab table) = tab_size table" using wf by (simp add: wf_tab_def)
  have home: "homeSlot hashf ?t x = homeSlot hashf table x" for x by (simp add: homeSlot_def)
  note pass = passes_replace [of p table a b, OF _ p(2) eq, unfolded len, OF p(1)]
  have "\<exists>k. probeSlot (tab_size ?t) (homeSlot hashf ?t x) k = q
      \<and> (\<forall>j<k. passes equal ?t x (probeSlot (tab_size ?t) (homeSlot hashf ?t x) j))"
    if q: "q < tab_size ?t" "tab_tab ?t ! q = Some x" for q x
  proof -
    have "\<exists>y. tab_tab table ! q = Some y \<and> homeSlot hashf table y = homeSlot hashf table x
        \<and> (\<forall>r. passes equal table y r = passes equal table x r)"
    proof (cases "q = p")
      case True
      then have "x = b" using q len p by simp
      moreover have "passes equal table a r = passes equal table b r" for r
        unfolding passes_def using eq equal_sym equal_trans by blast
      ultimately show ?thesis using True p equal_hash [OF eq] by (simp add: homeSlot_def)
    next
      case False
      then show ?thesis using q by simp
    qed
    then obtain y where y: "tab_tab table ! q = Some y" "homeSlot hashf table y = homeSlot hashf table x"
      "\<forall>r. passes equal table y r = passes equal table x r" by blast
    moreover have "q < tab_size table" using q by simp
    ultimately obtain k where "probeSlot (tab_size table) (homeSlot hashf table x) k = q"
      "\<forall>j<k. passes equal table x (probeSlot (tab_size table) (homeSlot hashf table x) j)"
      using wf unfolding wf_tab_def by metis
    then show ?thesis by (intro exI [of _ k]) (simp add: home pass)
  qed
  then show ?thesis
    using wf p len by (simp add: wf_tab_def filter_replace del: not_None_eq)
qed

text \<open>A new empty table.\<close>

lemma wf_tab_init: "coprime HASH_SHIFT n \<Longrightarrow> 0 < n \<Longrightarrow> wf_tab (hashTabNoAllocInit n)"
  by (simp add: wf_tab_def hashTabNoAllocInit_def)

text \<open>Adding: an equal element keeps its slot, a new one gets a free slot and no other changes.\<close>

lemma add_present:
  assumes "wf_tab table" "p < tab_size table" "tab_tab table ! p = Some a" "equal a e"
  shows "hashTabAdd hashf equal table e = Some (p, table)"
  using isMember_present [OF assms] by (simp add: hashTabAdd_def hashTabIsMember_def)

lemma length_filter_update:
  "p < length xs \<Longrightarrow> xs ! p = None \<Longrightarrow>
   length (filter (\<lambda>x. x \<noteq> None) (xs[p := Some e])) = Suc (length (filter (\<lambda>x. x \<noteq> None) xs))"
proof (induction xs arbitrary: p)
  case (Cons x xs)
  then show ?case by (cases p) auto
qed simp

lemma wf_tab_insert:
  assumes wf: "wf_tab table" and free: "tab_tab table ! p = None"
    and room: "tab_numberOfElements table + 1 < int (tab_size table)"
    and p: "probeSlot (tab_size table) (homeSlot hashf table e) k = p"
    and before: "\<forall>j<k. passes equal table e (probeSlot (tab_size table) (homeSlot hashf table e) j)"
  shows "wf_tab (table\<lparr>tab_numberOfElements := tab_numberOfElements table + 1,
                       tab_tab := (tab_tab table)[p := Some e]\<rparr>)" (is "wf_tab ?t")
proof -
  have len: "length (tab_tab table) = tab_size table" using wf by (simp add: wf_tab_def)
  have plt: "p < tab_size table" using p wf_tab_size [OF wf] by auto
  have home: "homeSlot hashf ?t x = homeSlot hashf table x" for x by (simp add: homeSlot_def)
  have pass: "passes equal ?t x q" if "passes equal table x q" for x q
    using that free len plt by (auto simp: passes_def nth_list_update)
  have "\<exists>k. probeSlot (tab_size ?t) (homeSlot hashf ?t x) k = q
      \<and> (\<forall>j<k. passes equal ?t x (probeSlot (tab_size ?t) (homeSlot hashf ?t x) j))"
    if "q < tab_size ?t" "tab_tab ?t ! q = Some x" for q x
  proof (cases "q = p")
    case True
    with that len plt have "x = e" by simp
    moreover have "\<forall>j<k. passes equal ?t e (probeSlot (tab_size table) (homeSlot hashf table e) j)"
      using before pass by blast
    ultimately show ?thesis using p True by (intro exI [of _ k]) (simp add: home)
  next
    case False
    with that have "q < tab_size table" "tab_tab table ! q = Some x" by auto
    then obtain k' where "probeSlot (tab_size table) (homeSlot hashf table x) k' = q"
      "\<forall>j<k'. passes equal table x (probeSlot (tab_size table) (homeSlot hashf table x) j)"
      using wf by (auto simp: wf_tab_def)
    then have "probeSlot (tab_size table) (homeSlot hashf table x) k' = q"
      "\<forall>j<k'. passes equal ?t x (probeSlot (tab_size table) (homeSlot hashf table x) j)"
      using pass by blast+
    then show ?thesis by (intro exI [of _ k']) (simp add: home)
  qed
  then show ?thesis
    using wf room free plt len
    by (simp add: wf_tab_def length_filter_update del: not_None_eq)
qed

lemma add_absent:
  assumes wf: "wf_tab table" and new: "\<forall>a. Some a \<in> set (tab_tab table) \<longrightarrow> \<not> equal a e"
    and room: "(tab_numberOfElements table + 1) * 9 div 8 < int (tab_size table)"
  shows "\<exists>p. hashTabAdd hashf equal table e =
      Some (p, table\<lparr>tab_numberOfElements := tab_numberOfElements table + 1,
                      tab_tab := (tab_tab table)[p := Some e]\<rparr>)
    \<and> p < tab_size table \<and> tab_tab table ! p = None
    \<and> wf_tab (table\<lparr>tab_numberOfElements := tab_numberOfElements table + 1,
                    tab_tab := (tab_tab table)[p := Some e]\<rparr>)"
proof -
  let ?s = "probeSlot (tab_size table) (homeSlot hashf table e)"
  obtain k where k: "\<forall>j<k. passes equal table e (?s j)" "\<not> passes equal table e (?s k)"
    and r: "hashTabProbe equal table e (homeSlot hashf table e) = Some (tab_tab table ! ?s k \<noteq> None, ?s k)"
    using probe_ends [OF wf] by blast
  have lt: "?s k < tab_size table" using wf_tab_size [OF wf] by simp
  have free: "tab_tab table ! ?s k = None"
  proof (rule ccontr)
    assume "tab_tab table ! ?s k \<noteq> None"
    then obtain a where a: "tab_tab table ! ?s k = Some a" by auto
    with lt wf have "Some a \<in> set (tab_tab table)" by (metis nth_mem wf_tab_def)
    with new a k(2) show False by (auto simp: passes_def)
  qed
  have "tab_numberOfElements table + 1 < int (tab_size table)"
  proof -
    have "n + 1 < m" if "0 \<le> n" "(n + 1) * 9 div 8 < m" for n m :: int
    proof -
      have "(n + 1) * 8 div 8 \<le> (n + 1) * 9 div 8"
        using that(1) by (intro zdiv_mono1) auto
      then show ?thesis using that(2) by simp
    qed
    moreover have "0 \<le> tab_numberOfElements table" using wf by (simp add: wf_tab_def)
    ultimately show ?thesis using room by blast
  qed
  note ins = wf_tab_insert [OF wf free this refl k(1)]
  have "hashTabAdd hashf equal table e =
      Some (?s k, table\<lparr>tab_numberOfElements := tab_numberOfElements table + 1,
                         tab_tab := (tab_tab table)[?s k := Some e]\<rparr>)"
    using r free room by (simp add: hashTabAdd_def Let_def)
  with lt free ins show ?thesis by (intro exI conjI)
qed

lemma add_overflow:
  assumes wf: "wf_tab table" and new: "\<forall>a. Some a \<in> set (tab_tab table) \<longrightarrow> \<not> equal a e"
    and room: "\<not> (tab_numberOfElements table + 1) * 9 div 8 < int (tab_size table)"
  shows "hashTabAdd hashf equal table e = None"
proof -
  obtain b p where r: "hashTabIsMember hashf equal table e = Some (b, p)"
    using isMember_total [OF wf] by blast
  have "\<not> b"
  proof
    assume b
    with r isMember_True [OF wf] wf new show False by (metis nth_mem wf_tab_def)
  qed
  with r room show ?thesis by (simp add: hashTabAdd_def hashTabIsMember_def Let_def)
qed

text \<open>The three cases as one rule: what is in the table after a successful \<open>Add\<close>.\<close>

lemma add_SomeD:
  assumes wf: "wf_tab table" and r: "hashTabAdd hashf equal table e = Some (p, table')"
  shows "wf_tab table'" "tab_size table' = tab_size table" "p < tab_size table"
    and "\<exists>a. tab_tab table' ! p = Some a \<and> equal a e"
    and "\<forall>q<tab_size table. tab_tab table ! q \<noteq> None \<longrightarrow> tab_tab table' ! q = tab_tab table ! q"
    and "\<forall>q<tab_size table. q \<noteq> p \<longrightarrow> tab_tab table' ! q = tab_tab table ! q"
proof -
  have "wf_tab table' \<and> tab_size table' = tab_size table \<and> p < tab_size table
    \<and> (\<exists>a. tab_tab table' ! p = Some a \<and> equal a e)
    \<and> (\<forall>q<tab_size table. tab_tab table ! q \<noteq> None \<longrightarrow> tab_tab table' ! q = tab_tab table ! q)
    \<and> (\<forall>q<tab_size table. q \<noteq> p \<longrightarrow> tab_tab table' ! q = tab_tab table ! q)"
  proof (cases "\<exists>a. Some a \<in> set (tab_tab table) \<and> equal a e")
    case True
    then obtain a q where "q < tab_size table" "tab_tab table ! q = Some a" "equal a e"
      using wf by (auto simp: in_set_conv_nth wf_tab_def)
    with add_present [OF wf this] r wf show ?thesis by auto
  next
    case False
    then have new: "\<forall>a. Some a \<in> set (tab_tab table) \<longrightarrow> \<not> equal a e" by blast
    have "(tab_numberOfElements table + 1) * 9 div 8 < int (tab_size table)"
      using add_overflow [OF wf new] r by (metis option.distinct(1))
    from add_absent [OF wf new this] r obtain
      "wf_tab table'" "p < tab_size table" "tab_tab table ! p = None"
      "tab_tab table' = (tab_tab table)[p := Some e]" "tab_size table' = tab_size table"
      by auto
    moreover have "length (tab_tab table) = tab_size table" using wf by (simp add: wf_tab_def)
    ultimately show ?thesis using equal_refl by (auto simp: nth_list_update)
  qed
  then show "wf_tab table'" "tab_size table' = tab_size table" "p < tab_size table"
    "\<exists>a. tab_tab table' ! p = Some a \<and> equal a e"
    "\<forall>q<tab_size table. tab_tab table ! q \<noteq> None \<longrightarrow> tab_tab table' ! q = tab_tab table ! q"
    "\<forall>q<tab_size table. q \<noteq> p \<longrightarrow> tab_tab table' ! q = tab_tab table ! q"
    by auto
qed

lemma isMember_after_add:
  assumes "wf_tab table" "hashTabAdd hashf equal table e = Some (p, table')"
  shows "hashTabIsMember hashf equal table' e = Some (True, p)"
  using add_SomeD [OF assms] isMember_present [of table' p _ e] by auto

end

text \<open>Elements compared by a name hash to the same slot when their names are equal.\<close>

lemma hash_elements_name: "hash_elements (\<lambda>e. h (name e)) (\<lambda>a b. strcmp (name a) (name b) = 0)"
  by unfold_locales simp_all

end
