(* ===== verification/FileNames.thy ===== *)
theory FileNames
  imports Prelude
begin

text \<open>
  Models the file name functions of \<^verbatim>\<open>misc.c\<close> and \<^verbatim>\<open>commons.c\<close> for the platforms whose
  separator is \<^verbatim>\<open>/\<close>: normalisation, suffixes and directories, comparison with or without
  case, search path strings, and the shell patterns. The code's static result buffers are the
  results here; \<open>char_at\<close> reads the terminating zero at the end of a string.
\<close>

section \<open>Characters\<close>

definition char_at :: "string \<Rightarrow> nat \<Rightarrow> char" where
  "char_at s i = (if i < length s then s ! i else CHR 0x00)"

definition code_of :: "char \<Rightarrow> int" where
  "code_of c = of_char c"

definition isupper :: "char \<Rightarrow> bool" where
  "isupper c \<longleftrightarrow> 65 \<le> code_of c \<and> code_of c \<le> 90"

definition islower :: "char \<Rightarrow> bool" where
  "islower c \<longleftrightarrow> 97 \<le> code_of c \<and> code_of c \<le> 122"

definition isalpha :: "char \<Rightarrow> bool" where
  "isalpha c \<longleftrightarrow> isupper c \<or> islower c"

definition tolower :: "char \<Rightarrow> char" where
  "tolower c = (if isupper c then char_of (code_of c + 32) else c)"

definition toupper :: "char \<Rightarrow> char" where
  "toupper c = (if islower c then char_of (code_of c - 32) else c)"

lemma char_at_Cons_0 [simp]: "char_at (c # s) 0 = c"
  by (simp add: char_at_def)

lemma char_at_Cons_Suc [simp]: "char_at (c # s) (Suc i) = char_at s i"
  by (simp add: char_at_def)

lemma char_at_Nil [simp]: "char_at [] i = CHR 0x00"
  by (simp add: char_at_def)

lemma char_at_nth: "i < length s \<Longrightarrow> char_at s i = s ! i"
  by (simp add: char_at_def)

lemma char_at_end: "CHR 0x00 \<notin> set s \<Longrightarrow> char_at s i = CHR 0x00 \<longleftrightarrow> length s \<le> i"
  by (auto simp: char_at_def dest: nth_mem)

text \<open>The folding of case that the comparisons use when the option asks for it.\<close>

definition fold_case :: "bool \<Rightarrow> string \<Rightarrow> string" where
  "fold_case caseSensitive s = (if caseSensitive then s else map tolower s)"

section \<open>Normalisation\<close>

definition MAX_FILE_NAME_SIZE :: nat where
  "MAX_FILE_NAME_SIZE = 1000"

text \<open>
  The buffer is read only below the write index, so it is the string written so far. A
  component \<^verbatim>\<open>..\<close> steps back over the separator and then over the characters before it up to
  the separator before; nothing precedes the first character. On an empty buffer the index
  becomes \<open>-1\<close> and the next write is outside the buffer: no result.
\<close>

definition step_back :: "string \<Rightarrow> string option" where
  "step_back buf =
     (if buf = [] then None
      else (let keep = rev (dropWhile (\<lambda>c. c \<noteq> CHR ''/'') (rev (take (length buf - 1) buf))) in
            if keep = [] then Some (take 1 buf) else Some keep))"

definition ends_component :: "char \<Rightarrow> bool" where
  "ends_component c \<longleftrightarrow> c = CHR ''/'' \<or> c = CHR 0x00"

function normalize_loop :: "bool \<Rightarrow> string \<Rightarrow> string \<Rightarrow> string option" where
  "normalize_loop cs buf name =
     (if name = [] then Some buf
      else if char_at name 0 = CHR ''.'' \<and> ends_component (char_at name 1) then
        normalize_loop cs buf (drop 2 name)
      else if char_at name 0 = CHR ''.'' \<and> char_at name 1 = CHR ''.''
              \<and> ends_component (char_at name 2) then
        (case step_back buf of None \<Rightarrow> None | Some buf' \<Rightarrow> normalize_loop cs buf' (drop 3 name))
      else
        (let segment = takeWhile (\<lambda>c. c \<noteq> CHR ''/'') name;
             rest = dropWhile (\<lambda>c. c \<noteq> CHR ''/'') name;
             buf' = buf @ fold_case cs segment in
         if rest = [] then Some buf'
         else normalize_loop cs (buf' @ ''/'')
                (if char_at rest 1 = CHR ''/'' then drop 2 rest else drop 1 rest)))"
  by pat_completeness auto
termination
proof (relation "measure (\<lambda>(cs, buf, name). length name)", goal_cases)
  case (4 cs buf name segment rest buf')
  from 4 have "length rest \<le> length name" "rest \<noteq> []"
    by (simp_all add: length_dropWhile_le)
  then show ?case by (cases rest) (auto simp: less_Suc_eq_le)
qed auto

declare normalize_loop.simps [simp del]

definition normalize_start :: "bool \<Rightarrow> string \<Rightarrow> string \<Rightarrow> string" where
  "normalize_start cs name relative_to =
     (if char_at name 0 = CHR ''/'' then []
      else if length relative_to + length name + 2 \<ge> MAX_FILE_NAME_SIZE then []
      else (let dir = fold_case cs relative_to in
            if dir \<noteq> [] \<and> last dir = CHR ''/'' then dir else dir @ ''/''))"

definition normalizeFileName_static :: "bool \<Rightarrow> string \<Rightarrow> string \<Rightarrow> string option" where
  "normalizeFileName_static fileNamesCaseSensitive name relative_to =
     (case normalize_loop fileNamesCaseSensitive
             (normalize_start fileNamesCaseSensitive name relative_to) name of
        None \<Rightarrow> None
      | Some normalizedFileName \<Rightarrow>
          (let result = (if length normalizedFileName \<ge> 2 \<and> last normalizedFileName = CHR ''/''
                         then butlast normalizedFileName else normalizedFileName)
           in if length result \<ge> MAX_FILE_NAME_SIZE then None else Some result))"

section \<open>Parts of file names\<close>

text \<open>The path up to and with its last separator of either kind, and the length of that.\<close>

fun extract_path_loop :: "string \<Rightarrow> nat \<Rightarrow> nat \<Rightarrow> nat" where
  "extract_path_loop [] i l = l"
| "extract_path_loop (c # cs) i l =
     extract_path_loop cs (i + 1) (if c = CHR ''/'' \<or> c = CHR 0x5C then i + 1 else l)"

definition extractPathInto :: "string \<Rightarrow> string \<times> nat" where
  "extractPathInto source = (let l = extract_path_loop source 0 0 in (take l source, l))"

text \<open>\<open>strmcpy\<close> returns the destination and the offset of the position after the copy.\<close>

definition strmcpy :: "string \<Rightarrow> string \<times> nat" where
  "strmcpy src = (src, length src)"

fun suffix_loop :: "string \<Rightarrow> nat \<Rightarrow> nat" where
  "suffix_loop fn cc =
     (if char_at fn cc \<noteq> CHR ''.'' \<and> char_at fn cc \<noteq> CHR ''/'' \<and> cc > 0
      then suffix_loop fn (cc - 1) else cc)"

declare suffix_loop.simps [simp del]

definition getFileSuffix :: "string option \<Rightarrow> string" where
  "getFileSuffix fn = (case fn of None \<Rightarrow> [] | Some f \<Rightarrow> drop (suffix_loop f (length f)) f)"

fun simple_name_loop :: "string \<Rightarrow> string \<Rightarrow> string" where
  "simple_name_loop fn [] = fn"
| "simple_name_loop fn (c # pp) = simple_name_loop (if c = CHR ''/'' then pp else fn) pp"

definition simpleFileName :: "string \<Rightarrow> string" where
  "simpleFileName fullFileName = simple_name_loop fullFileName fullFileName"

definition simpleFileNameWithoutSuffix_static :: "string \<Rightarrow> string" where
  "simpleFileNameWithoutSuffix_static fullFileName =
     takeWhile (\<lambda>c. c \<noteq> CHR ''.'') (simple_name_loop fullFileName fullFileName)"

definition directoryName_static :: "string \<Rightarrow> string option" where
  "directoryName_static fullFileName =
     (let (path, pathLength) = extractPathInto fullFileName in
      if \<not> pathLength < MAX_FILE_NAME_SIZE - 1 then None
      else Some (if pathLength > 2 \<and> char_at path (pathLength - 1) = CHR ''/''
                 then take (pathLength - 1) path else path))"

definition lastOccurenceInString :: "string \<Rightarrow> char \<Rightarrow> string option" where
  "lastOccurenceInString s ch =
     (if ch \<in> set s then Some (drop (length s - 1 - length (takeWhile (\<lambda>c. c \<noteq> ch) (rev s))) s)
      else None)"

text \<open>Outside Windows a file name is its own real name.\<close>

definition getRealFileName_static :: "string \<Rightarrow> string option" where
  "getRealFileName_static fn = (if length fn < MAX_FILE_NAME_SIZE - 1 then Some fn else None)"

definition concatDirectoryWithFileName :: "string \<Rightarrow> string \<Rightarrow> string" where
  "concatDirectoryWithFileName directoryName fileName =
     (let (output, _) = strmcpy directoryName in
      if fileName \<noteq> [] then output @ ''/'' @ fileName else output)"

section \<open>Comparison\<close>

text \<open>\<open>strncmp\<close>, of which the sign counts, and the loop for names compared without case.\<close>

definition strncmp :: "string \<Rightarrow> string \<Rightarrow> nat \<Rightarrow> int" where
  "strncmp s t n = strcmp (take n s) (take n t)"

function pathncmp_loop :: "string \<Rightarrow> string \<Rightarrow> int \<Rightarrow> int \<Rightarrow> string \<times> string" where
  "pathncmp_loop s1 s2 i len =
     (if s1 \<noteq> [] \<and> s2 \<noteq> [] \<and> i < len \<and> tolower (hd s1) = tolower (hd s2)
      then pathncmp_loop (tl s1) (tl s2) (i + 1) len else (s1, s2))"
  by pat_completeness auto
termination by (relation "measure (\<lambda>(s1, s2, i, len). length s1)") auto

declare pathncmp_loop.simps [simp del]

definition pathncmp :: "string \<Rightarrow> string \<Rightarrow> int \<Rightarrow> bool \<Rightarrow> int" where
  "pathncmp path1 path2 len caseSensitive =
     (if caseSensitive then strncmp path1 path2 (nat len)
      else if len \<le> 0 then 0
      else (let (s1, s2) = pathncmp_loop path1 path2 1 len in
            to_char (code_of (tolower (char_at s1 0))) - to_char (code_of (tolower (char_at s2 0)))))"

definition filenameCompare :: "bool \<Rightarrow> string \<Rightarrow> string \<Rightarrow> int \<Rightarrow> int" where
  "filenameCompare fileNamesCaseSensitive fileName1 fileName2 len =
     pathncmp fileName1 fileName2 len fileNamesCaseSensitive"

definition compareFileNames :: "bool \<Rightarrow> string \<Rightarrow> string \<Rightarrow> int" where
  "compareFileNames fileNamesCaseSensitive name1 name2 =
     (if fileNamesCaseSensitive then strcmp name1 name2
      else filenameCompare fileNamesCaseSensitive name1 name2 (int (length name1) + 1))"

section \<open>Search path strings\<close>

text \<open>The paths that \<^verbatim>\<open>MAP_OVER_PATHS\<close> runs its command on, one trailing separator removed.\<close>

function MAP_OVER_PATHS :: "string \<Rightarrow> string list" where
  "MAP_OVER_PATHS paths =
     (if paths = [] then []
      else (let currentPath = takeWhile (\<lambda>c. c \<noteq> CHR '':'') paths in
            (if currentPath \<noteq> [] \<and> last currentPath = CHR ''/'' then butlast currentPath
             else currentPath)
            # MAP_OVER_PATHS (drop (length currentPath + 1) paths)))"
  by pat_completeness auto
termination by (relation "measure length") auto

declare MAP_OVER_PATHS.simps [simp del]

fun paths_contain :: "bool \<Rightarrow> string list \<Rightarrow> string \<Rightarrow> bool" where
  "paths_contain cs [] path = False"
| "paths_contain cs (currentPath # ps) path =
     (if compareFileNames cs currentPath path = 0 then True else paths_contain cs ps path)"

definition pathsStringContainsPath :: "bool \<Rightarrow> string \<Rightarrow> string \<Rightarrow> bool" where
  "pathsStringContainsPath cs paths path = paths_contain cs (MAP_OVER_PATHS paths) path"

definition fileNameHasOneOfSuffixes :: "bool \<Rightarrow> string \<Rightarrow> string \<Rightarrow> bool" where
  "fileNameHasOneOfSuffixes cs fname suffs =
     (let suff = getFileSuffix (Some fname);
          suff' = (if char_at suff 0 = CHR ''.'' then drop 1 suff else suff)
      in pathsStringContainsPath cs suffs suff')"

definition isCompilationUnit :: "bool \<Rightarrow> string \<Rightarrow> string \<Rightarrow> bool" where
  "isCompilationUnit cs cFilesSuffixes fileName \<longleftrightarrow>
     fileNameHasOneOfSuffixes cs fileName cFilesSuffixes
     \<or> compareFileNames cs (getFileSuffix (Some fileName)) ''.y'' = 0"

datatype language = LANG_C | LANG_YACC

definition getLanguageFor :: "bool \<Rightarrow> string \<Rightarrow> language" where
  "getLanguageFor cs fileName =
     (let suffix = getFileSuffix (Some fileName) in
      if compareFileNames cs suffix ''.y'' = 0 then LANG_YACC else LANG_C)"

section \<open>Shell patterns\<close>

definition containsWildcard :: "string \<Rightarrow> bool" where
  "containsWildcard s \<longleftrightarrow> (\<exists>c\<in>set s. c = CHR ''*'' \<or> c = CHR ''?'' \<or> c = CHR ''['')"

text \<open>
  The table of the characters a bracket pattern accepts. \<open>setInterval\<close> is the loop from
  \<open>pattern[i]\<close> to \<open>m\<close>. Plain \<^verbatim>\<open>char\<close> is signed: the model is of patterns and names whose
  characters are below 128, for which every index is inside the table of 256.
\<close>

definition setChar :: "(char \<Rightarrow> bool) \<Rightarrow> char \<Rightarrow> bool \<Rightarrow> char \<Rightarrow> bool" where
  "setChar asciiMap c setval = asciiMap(c := setval)"

definition setInterval :: "(char \<Rightarrow> bool) \<Rightarrow> char \<Rightarrow> char \<Rightarrow> bool \<Rightarrow> char \<Rightarrow> bool" where
  "setInterval asciiMap lo m setval =
     (\<lambda>c. if code_of lo \<le> code_of c \<and> code_of c \<le> code_of m then setval else asciiMap c)"

text \<open>An interval that the pattern ends in takes the index past the terminating zero.\<close>

function bracket_loop ::
  "string \<Rightarrow> nat \<Rightarrow> bool \<Rightarrow> bool \<Rightarrow> (char \<Rightarrow> bool) \<Rightarrow> (nat \<times> (char \<Rightarrow> bool)) option" where
  "bracket_loop pattern i caseSensitive setval asciiMap =
     (if i > length pattern then None
      else if char_at pattern i \<noteq> CHR 0x00 \<and> char_at pattern i \<noteq> CHR '']'' then
        (if char_at pattern (i + 1) = CHR ''-'' then
           (let p = char_at pattern i; q = char_at pattern (i + 2);
                map1 = setInterval asciiMap p q setval;
                map2 = (if \<not> caseSensitive \<and> isalpha p \<and> isalpha q then
                          setInterval (setInterval map1 (tolower p) (tolower q) setval)
                            (toupper p) (toupper q) setval
                        else map1)
            in bracket_loop pattern (i + 3) caseSensitive setval map2)
         else
           (let p = char_at pattern i;
                map1 = setChar asciiMap p setval;
                map2 = (if \<not> caseSensitive \<and> isalpha p then
                          setChar (setChar map1 (tolower p) setval) (toupper p) setval
                        else map1)
            in bracket_loop pattern (i + 1) caseSensitive setval map2))
      else Some (i, asciiMap))"
  by pat_completeness auto
termination by (relation "measure (\<lambda>(pattern, i, _). length pattern + 1 - i)") auto

declare bracket_loop.simps [simp del]

definition shellMatchParseBracketPattern ::
  "string \<Rightarrow> nat \<Rightarrow> bool \<Rightarrow> (nat \<times> (char \<Rightarrow> bool)) option" where
  "shellMatchParseBracketPattern pattern pi caseSensitive =
     (if char_at pattern pi \<noteq> CHR ''['' then None
      else (let i1 = pi + 1;
                setval = (char_at pattern i1 \<noteq> CHR ''^'');
                i2 = (if setval then i1 else i1 + 1);
                map0 = (\<lambda>c. \<not> setval);
                (i3, map1) = (if char_at pattern i2 = CHR '']''
                              then (i2 + 1, setChar map0 (CHR '']'') setval) else (i2, map0))
            in bracket_loop pattern i3 caseSensitive setval map1))"

text \<open>
  The states that wait before the next character, in the order of the list: a star adds the
  state after it, which the loop reaches next.
\<close>

function shell_match_states :: "string \<Rightarrow> bool \<Rightarrow> char \<Rightarrow> nat list \<Rightarrow> nat list option" where
  "shell_match_states pattern caseSensitive ch [] = Some []"
| "shell_match_states pattern caseSensitive ch (pi # states) =
     (if char_at pattern pi = CHR 0x00 then shell_match_states pattern caseSensitive ch states
      else if char_at pattern pi = CHR ''*'' then
        map_option (Cons pi) (shell_match_states pattern caseSensitive ch ((pi + 1) # states))
      else if char_at pattern pi = CHR ''?'' then
        map_option (Cons (pi + 1)) (shell_match_states pattern caseSensitive ch states)
      else if char_at pattern pi = CHR ''['' then
        (case shellMatchParseBracketPattern pattern pi True of
           None \<Rightarrow> None
         | Some (pi', asciiMap) \<Rightarrow>
             (if \<not> asciiMap ch then shell_match_states pattern caseSensitive ch states
              else map_option (Cons (if char_at pattern pi' = CHR '']'' then pi' + 1 else pi))
                     (shell_match_states pattern caseSensitive ch states)))
      else if isalpha (char_at pattern pi) \<and> \<not> caseSensitive then
        (if tolower (char_at pattern pi) \<noteq> tolower ch
         then shell_match_states pattern caseSensitive ch states
         else map_option (Cons (pi + 1)) (shell_match_states pattern caseSensitive ch states))
      else
        (if char_at pattern pi \<noteq> ch then shell_match_states pattern caseSensitive ch states
         else map_option (Cons (pi + 1)) (shell_match_states pattern caseSensitive ch states)))"
  by pat_completeness auto
termination
  by (relation "measure (\<lambda>(pattern, _, _, states).
        sum_list (map (\<lambda>pi. length pattern + 1 - pi) states) + length states)")
    (auto simp: char_at_def split: if_splits)

declare shell_match_states.simps(2) [simp del]

fun shell_match_loop :: "string \<Rightarrow> bool \<Rightarrow> string \<Rightarrow> nat list \<Rightarrow> nat list option" where
  "shell_match_loop pattern caseSensitive [] states = Some states"
| "shell_match_loop pattern caseSensitive (ch # chars) states =
     (if states = [] then Some []
      else (case shell_match_states pattern caseSensitive ch states of
              None \<Rightarrow> None
            | Some states' \<Rightarrow> shell_match_loop pattern caseSensitive chars states'))"

definition final_state :: "string \<Rightarrow> nat \<Rightarrow> bool" where
  "final_state pattern pi \<longleftrightarrow>
     pi = length pattern
     \<or> (pi < length pattern
        \<and> strncmp (drop pi pattern) ''**************'' (length pattern - pi) = 0)"

definition shellMatch :: "string \<Rightarrow> nat \<Rightarrow> string \<Rightarrow> bool \<Rightarrow> bool option" where
  "shellMatch string stringLength pattern caseSensitive =
     (case shell_match_loop pattern caseSensitive (take stringLength string) [0] of
        None \<Rightarrow> None
      | Some states \<Rightarrow> Some (list_ex (final_state pattern) states))"

section \<open>What normalisation computes\<close>

text \<open>
  A directory is the list of its components, and a name relative to it resolves component by
  component: \<^verbatim>\<open>.\<close> is skipped, \<^verbatim>\<open>..\<close> leaves the last directory, the root included.
\<close>

definition component :: "string \<Rightarrow> bool" where
  "component c \<longleftrightarrow> c \<noteq> [] \<and> CHR ''/'' \<notin> set c \<and> CHR 0x00 \<notin> set c"

definition abs_path :: "string list \<Rightarrow> string" where
  "abs_path cs = (if cs = [] then ''/'' else concat (map (\<lambda>c. CHR ''/'' # c) cs))"

fun join_path :: "string list \<Rightarrow> string" where
  "join_path [] = []"
| "join_path [s] = s"
| "join_path (s # t # ss) = s @ CHR ''/'' # join_path (t # ss)"

fun resolve :: "bool \<Rightarrow> string list \<Rightarrow> string list \<Rightarrow> string list" where
  "resolve cs dir [] = dir"
| "resolve cs dir (s # ss) =
     (if s = ''.'' then resolve cs dir ss
      else if s = ''..'' then resolve cs (butlast dir) ss
      else resolve cs (dir @ [fold_case cs s]) ss)"

definition buf_of :: "string list \<Rightarrow> string" where
  "buf_of cs = CHR ''/'' # concat (map (\<lambda>c. c @ ''/'') cs)"

definition strip :: "string \<Rightarrow> string" where
  "strip r = (if length r \<ge> 2 \<and> last r = CHR ''/'' then butlast r else r)"

lemma buf_of_simps [simp]: "buf_of [] = ''/''" "buf_of (cs @ [c]) = buf_of cs @ c @ ''/''"
  by (simp_all add: buf_of_def)

lemma concat_shift: "concat (map (\<lambda>c. CHR ''/'' # c) cs) @ ''/'' = buf_of cs"
  by (induction cs) (auto simp: buf_of_def)

lemma buf_of_abs: "cs \<noteq> [] \<Longrightarrow> buf_of cs = abs_path cs @ ''/''"
  by (simp add: abs_path_def concat_shift)

lemma abs_path_snoc: "abs_path (cs @ [c]) = buf_of cs @ c"
  by (simp add: abs_path_def flip: concat_shift)

lemma strip_buf: "\<forall>c\<in>set cs. component c \<Longrightarrow> strip (buf_of cs) = abs_path cs"
proof (cases cs rule: rev_cases)
  case (snoc ds d)
  then show ?thesis by (simp add: strip_def abs_path_snoc buf_of_def butlast_append)
qed (simp add: strip_def abs_path_def)

lemma strip_buf_component:
  "component c \<Longrightarrow> strip (buf_of cs @ c) = abs_path (cs @ [c])"
  by (auto simp: strip_def abs_path_snoc component_def dest: last_in_set)

lemma dropWhile_no_slash: "CHR ''/'' \<notin> set b \<Longrightarrow>
   dropWhile (\<lambda>c. c \<noteq> CHR ''/'') (b @ CHR ''/'' # r) = CHR ''/'' # r"
  by (induction b) auto

lemma takeWhile_no_slash: "CHR ''/'' \<notin> set b \<Longrightarrow>
   takeWhile (\<lambda>c. c \<noteq> CHR ''/'') (b @ CHR ''/'' # r) = b"
  by (induction b) auto

lemma last_buf_of: "\<exists>r. rev (buf_of cs) = CHR ''/'' # r"
  by (cases cs rule: rev_cases) auto

lemma step_back_buf:
  assumes "\<forall>c\<in>set cs. component c"
  shows "step_back (buf_of cs) = Some (buf_of (butlast cs))"
proof (cases cs rule: rev_cases)
  case (snoc ds d)
  obtain r where r: "rev (buf_of ds) = CHR ''/'' # r" using last_buf_of by blast
  have nr: "CHR ''/'' \<notin> set (rev d)" using assms snoc by (simp add: component_def)
  have "dropWhile (\<lambda>c. c \<noteq> CHR ''/'') (rev (buf_of ds @ d)) = rev (buf_of ds)"
    by (simp only: rev_append r dropWhile_no_slash [OF nr])
  moreover have "take (length (buf_of cs) - 1) (buf_of cs) = buf_of ds @ d" by (simp add: snoc)
  moreover have "buf_of cs \<noteq> []" "buf_of ds \<noteq> []" by (simp_all add: buf_of_def)
  ultimately show ?thesis
    by (simp only: step_back_def Let_def rev_rev_ident if_False snoc butlast_snoc)
qed (simp add: step_back_def)

lemma join_path_Cons: "ss \<noteq> [] \<Longrightarrow> join_path (s # ss) = s @ CHR ''/'' # join_path ss"
  by (cases ss) auto

lemma join_path_hd: "component s \<Longrightarrow> \<exists>c r. join_path (s # ss) = c # r \<and> c \<noteq> CHR ''/''"
  by (cases ss; cases s) (auto simp: component_def)

lemma component_dot: "component s \<Longrightarrow>
   (char_at (s @ CHR ''/'' # r) 0 = CHR ''.'' \<and> ends_component (char_at (s @ CHR ''/'' # r) 1)) = (s = ''.'')"
  by (cases s; cases "tl s") (auto simp: component_def ends_component_def)

lemma component_dot_end: "component s \<Longrightarrow>
   (char_at s 0 = CHR ''.'' \<and> ends_component (char_at s 1)) = (s = ''.'')"
  by (cases s; cases "tl s") (auto simp: component_def ends_component_def)

lemma component_dotdot: "component s \<Longrightarrow>
   (char_at (s @ CHR ''/'' # r) 0 = CHR ''.'' \<and> char_at (s @ CHR ''/'' # r) 1 = CHR ''.''
     \<and> ends_component (char_at (s @ CHR ''/'' # r) 2)) = (s = ''..'')"
  by (cases s; cases "tl s"; cases "tl (tl s)")
    (auto simp: component_def ends_component_def numeral_2_eq_2)

lemma component_dotdot_end: "component s \<Longrightarrow>
   (char_at s 0 = CHR ''.'' \<and> char_at s 1 = CHR ''.''
     \<and> ends_component (char_at s 2)) = (s = ''..'')"
  by (cases s; cases "tl s"; cases "tl (tl s)")
    (auto simp: component_def ends_component_def numeral_2_eq_2)

lemma normalize_loop_Nil [simp]: "normalize_loop cs buf [] = Some buf"
  by (subst normalize_loop.simps) simp

lemma normalize_loop_last:
  assumes "component s"
  shows "normalize_loop cs buf s =
     (if s = ''.'' then Some buf else if s = ''..'' then step_back buf
      else Some (buf @ fold_case cs s))"
proof -
  have ne: "s \<noteq> []" using assms by (simp add: component_def)
  have w: "takeWhile (\<lambda>c. c \<noteq> CHR ''/'') s = s" "dropWhile (\<lambda>c. c \<noteq> CHR ''/'') s = []"
    using assms by (auto simp: component_def)
  show ?thesis
    apply (subst normalize_loop.simps)
    apply (simp only: component_dot_end [OF assms] component_dotdot_end [OF assms] w ne if_False
        Let_def)
    apply (cases "step_back buf")
    apply simp_all
    done
qed

lemma normalize_loop_Cons:
  assumes "component s" "component t"
  shows "normalize_loop cs buf (join_path (s # t # ss)) =
     (if s = ''.'' then normalize_loop cs buf (join_path (t # ss))
      else if s = ''..'' then
        (case step_back buf of None \<Rightarrow> None | Some b \<Rightarrow> normalize_loop cs b (join_path (t # ss)))
      else normalize_loop cs (buf @ fold_case cs s @ ''/'') (join_path (t # ss)))"
proof -
  let ?r = "join_path (t # ss)" and ?n = "s @ CHR ''/'' # join_path (t # ss)"
  obtain c r where c: "?r = c # r" "c \<noteq> CHR ''/''" using join_path_hd [OF assms(2)] by blast
  have s: "CHR ''/'' \<notin> set s" using assms by (simp add: component_def)
  have "char_at (CHR ''/'' # ?r) 1 \<noteq> CHR ''/''" using c by simp
  moreover have "?n \<noteq> []" by simp
  moreover have "s = ''.'' \<Longrightarrow> drop 2 ?n = ?r" "s = ''..'' \<Longrightarrow> drop 3 ?n = ?r"
    by (simp_all add: numeral_3_eq_3)
  ultimately show ?thesis
    apply (simp only: join_path.simps(3))
    apply (subst normalize_loop.simps)
    apply (simp only: component_dot [OF assms(1), of ?r] component_dotdot [OF assms(1), of ?r]
        takeWhile_no_slash [OF s, of ?r] dropWhile_no_slash [OF s, of ?r] if_False Let_def)
    apply (cases "s = ''..''"; cases "step_back buf")
       apply (simp_all add: numeral_3_eq_3)
    done
qed

lemma tolower_fixes:
  assumes "code_of d < 90" "\<not> isupper d"
  shows "d = tolower c \<longleftrightarrow> c = d"
proof (cases "isupper c")
  case True
  then have "code_of (tolower c) = code_of c + 32"
    by (simp add: tolower_def isupper_def code_of_def)
  then show ?thesis using assms True by (auto simp: isupper_def)
qed (use assms in \<open>auto simp: tolower_def\<close>)

lemma component_fold: "component s \<Longrightarrow> component (fold_case cs s)"
  using tolower_fixes [of "CHR ''/''"] tolower_fixes [of "CHR 0x00"]
  by (auto simp: component_def fold_case_def image_iff code_of_def isupper_def)

lemma normalize_loop_resolve:
  assumes "\<forall>c\<in>set dir. component c" "\<forall>s\<in>set segs. component s" "segs \<noteq> []"
  shows "\<exists>r. normalize_loop cs (buf_of dir) (join_path segs) = Some r
    \<and> strip r = abs_path (resolve cs dir segs)"
  using assms
proof (induction segs arbitrary: dir)
  case (Cons s ss)
  have s: "component s" and fs: "component (fold_case cs s)"
    using Cons.prems component_fold by auto
  have bl: "\<forall>c\<in>set (butlast dir). component c" using Cons.prems by (auto dest: in_set_butlastD)
  show ?case
  proof (cases ss)
    case Nil
    then show ?thesis
      using normalize_loop_last [OF s, of cs "buf_of dir"] Cons.prems step_back_buf [of dir] bl
        strip_buf strip_buf_component [OF fs] by auto
  next
    case (Cons t ts)
    let ?dir = "if s = ''.'' then dir else if s = ''..'' then butlast dir else dir @ [fold_case cs s]"
    have t: "component t" using Cons Cons.prems by simp
    have "\<forall>c\<in>set ?dir. component c" using Cons.prems bl fs by simp
    from Cons.IH [OF this] Cons Cons.prems obtain r
      where "normalize_loop cs (buf_of ?dir) (join_path ss) = Some r"
        "strip r = abs_path (resolve cs ?dir ss)" by auto
    moreover have "normalize_loop cs (buf_of dir) (join_path (s # ss))
        = normalize_loop cs (buf_of ?dir) (join_path ss)"
      using normalize_loop_Cons [OF s t, of cs "buf_of dir" ts] Cons Cons.prems
        step_back_buf [of dir] by simp
    ultimately show ?thesis by auto
  qed
qed simp

lemma length_join: "segs \<noteq> [] \<Longrightarrow> length (join_path segs) + 1 = sum_list (map (\<lambda>s. length s + 1) segs)"
  by (induction segs rule: join_path.induct) auto

lemma length_abs_path: "length (abs_path cs) \<le> sum_list (map (\<lambda>s. length s + 1) cs) + 1"
proof -
  have "length (concat (map (\<lambda>c. CHR ''/'' # c) cs)) = sum_list (map (\<lambda>s. length s + 1) cs)"
    by (induction cs) auto
  then show ?thesis by (simp add: abs_path_def)
qed

lemma length_abs_path_ge:
  "sum_list (map (\<lambda>s. length s + 1) cs) \<le> length (abs_path cs)"
  by (induction cs) (auto simp: abs_path_def split: if_splits)

lemma length_fold_case [simp]: "length (fold_case cs s) = length s"
  by (simp add: fold_case_def)

lemma sum_butlast: "sum_list (map (\<lambda>s. length s + 1) (butlast dir)) \<le> sum_list (map (\<lambda>s. length s + 1) dir)"
  by (cases dir rule: rev_cases) auto

lemma length_resolve:
  "sum_list (map (\<lambda>s. length s + 1) (resolve cs dir segs))
   \<le> sum_list (map (\<lambda>s. length s + 1) dir) + sum_list (map (\<lambda>s. length s + 1) segs)"
proof (induction cs dir segs rule: resolve.induct)
  case (2 cs dir s ss)
  then show ?case using sum_butlast [of dir] by auto
qed simp

lemma abs_path_fold: "fold_case cs (abs_path dir) = abs_path (map (fold_case cs) dir)"
  using tolower_fixes [of "CHR ''/''" "CHR ''/''"]
  by (induction dir) (auto simp: abs_path_def fold_case_def code_of_def isupper_def split: if_splits)

lemma normalize_start_relative:
  assumes "\<forall>c\<in>set dir. component c" "\<forall>s\<in>set segs. component s" "segs \<noteq> []"
    and "length (abs_path dir) + length (join_path segs) + 2 < MAX_FILE_NAME_SIZE"
  shows "normalize_start cs (join_path segs) (abs_path dir) = buf_of (map (fold_case cs) dir)"
proof -
  obtain s ss where segs: "segs = s # ss" using assms(3) by (cases segs) auto
  with join_path_hd [of s ss] assms(2) obtain c r where c: "join_path segs = c # r" "c \<noteq> CHR ''/''"
    by auto
  have f: "\<forall>c\<in>set (map (fold_case cs) dir). component c" using assms(1) component_fold by auto
  have "last (abs_path (map (fold_case cs) dir)) \<noteq> CHR ''/''" if "dir \<noteq> []"
  proof -
    from that obtain ds d where d: "map (fold_case cs) dir = ds @ [d]"
      by (cases "map (fold_case cs) dir" rule: rev_cases) auto
    with f have "component d" by auto
    then show ?thesis by (auto simp: d abs_path_snoc component_def dest: last_in_set)
  qed
  then show ?thesis
    using c assms(4) abs_path_fold [of cs dir]
    by (cases "dir = []") (auto simp: normalize_start_def Let_def buf_of_abs abs_path_def)
qed

lemma normalize_finish:
  assumes "normalize_loop cs (normalize_start cs name rel) name = Some r"
    and "strip r = p" "length p < MAX_FILE_NAME_SIZE"
  shows "normalizeFileName_static cs name rel = Some p"
  using assms by (auto simp: normalizeFileName_static_def strip_def Let_def)

text \<open>A name of ordinary components normalises to the absolute path that its components
  lead to: relative to the given directory, or to the root when it starts with the separator;
  with case folded in all of it when file names are not case sensitive.\<close>

theorem normalize_resolves:
  assumes "\<forall>c\<in>set dir. component c" "\<forall>s\<in>set segs. component s" "segs \<noteq> []"
    and "length (abs_path dir) + length (join_path segs) + 2 < MAX_FILE_NAME_SIZE"
  shows "normalizeFileName_static cs (join_path segs) (abs_path dir)
      = Some (abs_path (resolve cs (map (fold_case cs) dir) segs))
    \<and> normalizeFileName_static cs (CHR ''/'' # join_path segs) (abs_path dir)
      = Some (abs_path (resolve cs [] segs))"
proof
  have f: "\<forall>c\<in>set (map (fold_case cs) dir). component c" using assms(1) component_fold by auto
  have len: "length (abs_path (resolve cs d segs)) < MAX_FILE_NAME_SIZE"
    if "sum_list (map (\<lambda>s. length s + 1) d) \<le> sum_list (map (\<lambda>s. length s + 1) dir)" for d
    using that length_abs_path [of "resolve cs d segs"] length_resolve [of cs d segs]
      length_join [OF assms(3)] length_abs_path_ge [of dir] assms(4) by linarith
  obtain r where "normalize_loop cs (buf_of (map (fold_case cs) dir)) (join_path segs) = Some r"
    "strip r = abs_path (resolve cs (map (fold_case cs) dir) segs)"
    using normalize_loop_resolve [OF f assms(2,3)] by blast
  then show "normalizeFileName_static cs (join_path segs) (abs_path dir)
      = Some (abs_path (resolve cs (map (fold_case cs) dir) segs))"
    using normalize_start_relative [OF assms] by (intro normalize_finish len) (simp_all add: o_def)
  obtain s ss where segs: "segs = s # ss" using assms(3) by (cases segs) auto
  with join_path_hd [of s ss] assms(2) obtain c q where c: "join_path segs = c # q" "c \<noteq> CHR ''/''"
    by auto
  have "normalize_loop cs [] (CHR ''/'' # join_path segs) = normalize_loop cs ''/'' (join_path segs)"
    by (subst normalize_loop.simps) (simp add: c fold_case_def)
  moreover obtain r' where "normalize_loop cs (buf_of []) (join_path segs) = Some r'"
    "strip r' = abs_path (resolve cs [] segs)"
    using normalize_loop_resolve [of "[]" segs cs] assms(2,3) by auto
  ultimately show "normalizeFileName_static cs (CHR ''/'' # join_path segs) (abs_path dir)
      = Some (abs_path (resolve cs [] segs))"
    by (intro normalize_finish len) (simp_all add: normalize_start_def)
qed

theorem normalize_resolves_witness:
  "normalizeFileName_static True ''../include/./a.h'' ''/home/src'' = Some ''/home/include/a.h''"
  using normalize_resolves [of "[''home'', ''src'']" "[''..'', ''include'', ''.'', ''a.h'']" True]
  by (simp add: component_def MAX_FILE_NAME_SIZE_def abs_path_def fold_case_def)

section \<open>Shell patterns match what they denote\<close>

text \<open>
  The meaning of a pattern from an index on: a star stands for any characters, a question
  mark for one, a closed bracket pattern for one character it accepts, every other character
  for itself, and a letter for both cases when the match ignores case. An open bracket
  pattern matches nothing.
\<close>

function glob :: "string \<Rightarrow> bool \<Rightarrow> nat \<Rightarrow> string \<Rightarrow> bool" where
  "glob p cs pi s =
     (if pi \<ge> length p then s = []
      else if p ! pi = CHR ''*'' then glob p cs (pi + 1) s \<or> (if s = [] then False else glob p cs pi (tl s))
      else if s = [] then False
      else if p ! pi = CHR ''?'' then glob p cs (pi + 1) (tl s)
      else if p ! pi = CHR ''['' then
        (case shellMatchParseBracketPattern p pi True of
           None \<Rightarrow> False
         | Some (pi', accepts) \<Rightarrow>
             char_at p pi' = CHR '']'' \<and> accepts (hd s) \<and> glob p cs (pi' + 1) (tl s))
      else (if isalpha (p ! pi) \<and> \<not> cs then tolower (p ! pi) = tolower (hd s) else p ! pi = hd s)
           \<and> glob p cs (pi + 1) (tl s))"
  by pat_completeness auto
termination
  by (relation "measures [\<lambda>(p, cs, pi, s). length s, \<lambda>(p, cs, pi, s). length p - pi]") auto

declare glob.simps [simp del]

lemma bracket_loop_total:
  "i \<le> length p \<Longrightarrow> p \<noteq> [] \<Longrightarrow> last p \<noteq> CHR ''-'' \<Longrightarrow> bracket_loop p i cs sv m \<noteq> None"
proof (induction p i cs sv m rule: bracket_loop.induct)
  case (1 p i cs sv m)
  have i1: "i < length p" if "char_at p i \<noteq> CHR 0x00"
    using that by (auto simp: char_at_def split: if_splits)
  have i3: "i + 3 \<le> length p" if "char_at p (i + 1) = CHR ''-''"
  proof -
    from that have "i + 1 < length p" by (auto simp: char_at_def split: if_splits)
    moreover have "i + 1 \<noteq> length p - 1"
      using that 1(4,5) \<open>i + 1 < length p\<close> by (auto simp: char_at_def last_conv_nth)
    ultimately show ?thesis by linarith
  qed
  show ?case
    apply (subst bracket_loop.simps)
    using 1 i1 i3 by (simp add: Let_def Suc_le_eq del: not_None_eq)
qed

lemma parse_bracket_total:
  assumes "char_at p pi = CHR ''[''" "last p \<noteq> CHR ''-''"
  shows "\<exists>pi' m. shellMatchParseBracketPattern p pi True = Some (pi', m)"
proof -
  have lt: "pi < length p" "p \<noteq> []" using assms by (auto simp: char_at_def split: if_splits)
  have step: "char_at p i = c \<Longrightarrow> c \<noteq> CHR 0x00 \<Longrightarrow> i + 1 \<le> length p" for i c
    by (auto simp: char_at_def split: if_splits)
  define i2 where "i2 = (if char_at p (pi + 1) \<noteq> CHR ''^'' then pi + 1 else pi + 2)"
  have "i2 \<le> length p" using lt step [of "pi + 1" "CHR ''^''"] by (auto simp: i2_def)
  moreover have "i2 + 1 \<le> length p" if "char_at p i2 = CHR '']''" using step [OF that] by simp
  ultimately have "shellMatchParseBracketPattern p pi True \<noteq> None"
    using assms bracket_loop_total [OF _ lt(2) assms(2)]
    by (simp add: shellMatchParseBracketPattern_def Let_def i2_def del: not_None_eq split: if_splits)
  then show ?thesis by auto
qed

lemma shell_match_states_glob:
  assumes "CHR 0x00 \<notin> set p" "p \<noteq> [] \<Longrightarrow> last p \<noteq> CHR ''-''" "\<forall>q\<in>set sts. q \<le> length p"
  shows "\<exists>sts'. shell_match_states p cs ch sts = Some sts' \<and> (\<forall>q\<in>set sts'. q \<le> length p)
    \<and> ((\<exists>q\<in>set sts'. glob p cs q s) \<longleftrightarrow> (\<exists>q\<in>set sts. glob p cs q (ch # s)))"
  using assms
proof (induction p cs ch sts rule: shell_match_states.induct)
  case (2 p cs ch pi states)
  note end_iff = char_at_end [OF "2.prems"(1)]
  note step = shell_match_states.simps(2) [of p cs ch pi states]
  have sub: "\<forall>q\<in>set states. q \<le> length p" and pile: "pi \<le> length p" using "2.prems"(3) by auto
  note prems = "2.prems"(1,2) sub
  note star = 2(2) and quest = 2(3) and brack = 2(4,5) and letter = 2(6,7) and other = 2(8,9)
  have nonempty: "pi < length p \<Longrightarrow> last p \<noteq> CHR ''-''"
    using "2.prems"(2) by (metis less_nat_zero_code list.size(3))
  show ?case
  proof (cases "char_at p pi = CHR 0x00")
    case True
    moreover from this have "\<not> glob p cs pi (ch # s)" by (subst glob.simps) (simp add: end_iff)
    ultimately show ?thesis using 2(1) prems by (subst step) simp
  next
    case F0: False
    then have lt: "pi < length p" "char_at p pi = p ! pi" by (auto simp: end_iff char_at_nth)
    show ?thesis
    proof (cases "char_at p pi = CHR ''*''")
      case True
      moreover have "glob p cs pi (ch # s) \<longleftrightarrow> glob p cs (pi + 1) (ch # s) \<or> glob p cs pi s"
        by (subst glob.simps) (use True lt in simp)
      moreover obtain sts' where "shell_match_states p cs ch ((pi + 1) # states) = Some sts'" "\<forall>q\<in>set sts'. q \<le> length p"
        "(\<exists>q\<in>set sts'. glob p cs q s) = (\<exists>q\<in>set ((pi + 1) # states). glob p cs q (ch # s))"
        using star [OF F0 True prems(1,2)] sub lt by auto
      ultimately show ?thesis using F0 pile by (subst step) auto
    next
      case F1: False
      show ?thesis
      proof (cases "char_at p pi = CHR ''?''")
        case True
        moreover have "glob p cs pi (ch # s) \<longleftrightarrow> glob p cs (pi + 1) s"
          by (subst glob.simps) (use True lt in simp)
        ultimately show ?thesis
          using quest [OF F0 F1 True prems] F0 F1 lt by (subst step) auto
      next
        case F2: False
        show ?thesis
        proof (cases "char_at p pi = CHR ''[''")
          case True
          obtain pi' m where b: "shellMatchParseBracketPattern p pi True = Some (pi', m)"
            using parse_bracket_total [OF True nonempty [OF lt(1)]] by blast
          have g: "glob p cs pi (ch # s) \<longleftrightarrow> char_at p pi' = CHR '']'' \<and> m ch \<and> glob p cs (pi' + 1) s"
            by (subst glob.simps) (use True lt b in simp)
          have "\<not> glob p cs pi s" if "char_at p pi' \<noteq> CHR '']''"
            by (subst glob.simps) (use True lt b that in simp)
          moreover obtain sts' where "shell_match_states p cs ch states = Some sts'" "\<forall>q\<in>set sts'. q \<le> length p"
            "(\<exists>q\<in>set sts'. glob p cs q s) = (\<exists>q\<in>set states. glob p cs q (ch # s))"
            using brack [OF F0 F1 F2 True b refl] prems by blast
          moreover have "char_at p pi' = CHR '']'' \<Longrightarrow> pi' < length p"
            by (auto simp: char_at_def split: if_splits)
          ultimately show ?thesis using F0 F1 F2 True b g pile by (subst step) auto
        next
          case F3: False
          have g: "glob p cs pi (ch # s) \<longleftrightarrow>
              (if isalpha (p ! pi) \<and> \<not> cs then tolower (p ! pi) = tolower ch else p ! pi = ch)
              \<and> glob p cs (pi + 1) s"
            by (subst glob.simps) (use F1 F2 F3 lt in simp)
          obtain sts' where "shell_match_states p cs ch states = Some sts'" "\<forall>q\<in>set sts'. q \<le> length p"
            "(\<exists>q\<in>set sts'. glob p cs q s) = (\<exists>q\<in>set states. glob p cs q (ch # s))"
            using letter(1) [OF F0 F1 F2 F3 _ _ prems] letter(2) [OF F0 F1 F2 F3 _ _ prems]
              other(1) [OF F0 F1 F2 F3 _ _ prems] other(2) [OF F0 F1 F2 F3 _ _ prems]
            by (cases "isalpha (char_at p pi) \<and> \<not> cs";
                cases "tolower (char_at p pi) \<noteq> tolower ch"; cases "char_at p pi \<noteq> ch") metis+
          moreover define ok where "ok \<longleftrightarrow>
            (if isalpha (char_at p pi) \<and> \<not> cs then tolower (char_at p pi) = tolower ch
             else char_at p pi = ch)"
          then have "shell_match_states p cs ch (pi # states) =
              (if ok then map_option (Cons (pi + 1)) (shell_match_states p cs ch states)
               else shell_match_states p cs ch states)"
            by (subst step) (simp only: F0 F1 F2 F3 if_False split: if_split, blast)
          moreover have "glob p cs pi (ch # s) \<longleftrightarrow> ok \<and> glob p cs (pi + 1) s"
            by (simp only: g ok_def lt(2))
          ultimately show ?thesis using lt by (cases ok) auto
        qed
      qed
    qed
  qed
qed simp

lemma shell_match_loop_glob:
  assumes "CHR 0x00 \<notin> set p" "p \<noteq> [] \<Longrightarrow> last p \<noteq> CHR ''-''"
  shows "\<forall>q\<in>set sts. q \<le> length p \<Longrightarrow>
    \<exists>sts'. shell_match_loop p cs s sts = Some sts' \<and> (\<forall>q\<in>set sts'. q \<le> length p)
    \<and> ((\<exists>q\<in>set sts'. glob p cs q []) \<longleftrightarrow> (\<exists>q\<in>set sts. glob p cs q s))"
proof (induction s arbitrary: sts)
  case (Cons c s)
  show ?case
  proof (cases "sts = []")
    case False
    from shell_match_states_glob [OF assms Cons.prems, of cs c s] obtain sts1
      where 1: "shell_match_states p cs c sts = Some sts1" "\<forall>q\<in>set sts1. q \<le> length p"
        "(\<exists>q\<in>set sts1. glob p cs q s) = (\<exists>q\<in>set sts. glob p cs q (c # s))" by blast
    from Cons.IH [OF 1(2)] 1 False show ?thesis by simp
  qed simp
qed simp

lemma glob_Nil: "glob p cs pi [] \<longleftrightarrow> (\<forall>c\<in>set (drop pi p). c = CHR ''*'')"
proof (induction "length p - pi" arbitrary: pi)
  case 0
  then show ?case by (subst glob.simps) simp
next
  case (Suc n)
  then have lt: "pi < length p" and n: "n = length p - (pi + 1)" by linarith+
  have "glob p cs pi [] \<longleftrightarrow> p ! pi = CHR ''*'' \<and> glob p cs (pi + 1) []"
    by (subst glob.simps) (use lt in simp)
  moreover have "set (drop pi p) = insert (p ! pi) (set (drop (pi + 1) p))"
    using Cons_nth_drop_Suc [OF lt] by (metis Suc_eq_plus1 list.simps(15))
  ultimately show ?case using Suc.hyps(1) [OF n] by simp
qed

lemma strncmp_stars:
  "strncmp q (replicate m (CHR ''*'')) (length q) = 0
   \<longleftrightarrow> length q \<le> m \<and> (\<forall>c\<in>set q. c = CHR ''*'')"
proof -
  have "q = replicate (min (length q) m) (CHR ''*'')
      \<longleftrightarrow> length q \<le> m \<and> (\<forall>c\<in>set q. c = CHR ''*'')"
    by (metis in_set_replicate length_replicate min.cobounded2 min.absorb1 replicate_length_same)
  then show ?thesis by (simp add: strncmp_def min.commute)
qed

lemma trailing_stars:
  "\<forall>c\<in>set (drop pi p). c = CHR ''*'' \<Longrightarrow>
   length p - pi \<le> length (takeWhile (\<lambda>c. c = CHR ''*'') (rev p))"
proof -
  assume "\<forall>c\<in>set (drop pi p). c = CHR ''*''"
  then have "takeWhile (\<lambda>c. c = CHR ''*'') (rev (take pi p @ drop pi p))
      = rev (drop pi p) @ takeWhile (\<lambda>c. c = CHR ''*'') (rev (take pi p))"
    by (simp only: rev_append) (rule takeWhile_append2, simp)
  then show ?thesis by simp
qed

lemma final_state_glob:
  assumes "pi \<le> length p" "length (takeWhile (\<lambda>c. c = CHR ''*'') (rev p)) \<le> 14"
  shows "final_state p pi \<longleftrightarrow> glob p cs pi []"
proof -
  have stars: "''**************'' = replicate 14 (CHR ''*'')" by (simp add: eval_nat_numeral)
  have "final_state p pi \<longleftrightarrow>
      pi = length p \<or> (pi < length p \<and> length p - pi \<le> 14 \<and> (\<forall>c\<in>set (drop pi p). c = CHR ''*''))"
    unfolding final_state_def stars
    using strncmp_stars [of "drop pi p" 14] by (simp only: length_drop)
  moreover have "length p - pi \<le> 14" if "\<forall>c\<in>set (drop pi p). c = CHR ''*''"
    using trailing_stars [OF that] assms(2) by linarith
  moreover have "pi = length p \<or> pi < length p" using assms(1) by linarith
  ultimately show ?thesis
    unfolding glob_Nil by fastforce
qed



text \<open>Ignoring case does not reach bracket patterns: the parser of brackets is always called
  case sensitive, so \<^verbatim>\<open>a\<close> matches \<^verbatim>\<open>A\<close> but \<^verbatim>\<open>[a]\<close> does not, when the match ignores case.\<close>

theorem shellMatch_bracket_case:
  "shellMatch ''A'' 1 ''a'' False = Some True \<and> shellMatch ''A'' 1 ''[a]'' False = Some False
   \<and> shellMatch ''a'' 1 ''[a]'' False = Some True"
  by code_simp

end
