(* ===== verification/HashList.thy ===== *)
theory HashList
  imports HashTab
begin

text \<open>
  Models \<^verbatim>\<open>hashlist.tc\<close>, the template of the hash tables whose slots are lists of elements,
  linked through the elements themselves. A pointer to an element is the list from it on,
  \<open>NULL\<close> the empty list. Elements are equal as HOL values when they are the same object.
\<close>

record 'a hashList =
  hl_size :: nat
  hl_tab :: "'a list list"

definition hashListNoAllocInit :: "nat \<Rightarrow> 'a hashList" where
  "hashListNoAllocInit sz = \<lparr>hl_size = sz, hl_tab = replicate sz []\<rparr>"

definition hashListIndex :: "('a \<Rightarrow> 32 word) \<Rightarrow> 'a hashList \<Rightarrow> 'a \<Rightarrow> nat" where
  "hashListIndex hashf table element = unat (hashf element) mod hl_size table"

fun find_member :: "('a \<Rightarrow> 'a \<Rightarrow> bool) \<Rightarrow> 'a \<Rightarrow> 'a list \<Rightarrow> 'a list" where
  "find_member equal element [] = []"
| "find_member equal element (e # es) =
     (if equal e element then e # es else find_member equal element es)"

text \<open>Whether there is a member, the position, and the found member.\<close>

definition hashListIsMember ::
  "('a \<Rightarrow> 32 word) \<Rightarrow> ('a \<Rightarrow> 'a \<Rightarrow> bool) \<Rightarrow> 'a hashList \<Rightarrow> 'a \<Rightarrow> bool \<times> nat \<times> 'a list" where
  "hashListIsMember hashf equal table element =
     (let index = hashListIndex hashf table element;
          found = find_member equal element (hl_tab table ! index)
      in (found \<noteq> [], index, found))"

definition hashListNextMember :: "('a \<Rightarrow> 'a \<Rightarrow> bool) \<Rightarrow> 'a \<Rightarrow> 'a list \<Rightarrow> (bool \<times> 'a list) option" where
  "hashListNextMember equal element foundMember =
     (case foundMember of
        [] \<Rightarrow> None
      | _ # rest \<Rightarrow> (let found = find_member equal element rest in Some (found \<noteq> [], found)))"

fun unlink_first :: "('a \<Rightarrow> bool) \<Rightarrow> 'a list \<Rightarrow> bool \<times> 'a list" where
  "unlink_first P [] = (False, [])"
| "unlink_first P (e # es) =
     (if P e then (True, es) else (let (r, es') = unlink_first P es in (r, e # es')))"

definition hashListDelete ::
  "('a \<Rightarrow> 32 word) \<Rightarrow> ('a \<Rightarrow> 'a \<Rightarrow> bool) \<Rightarrow> 'a hashList \<Rightarrow> 'a \<Rightarrow> bool \<times> 'a hashList" where
  "hashListDelete hashf equal table element =
     (let index = hashListIndex hashf table element;
          (r, es) = unlink_first (\<lambda>e. equal e element) (hl_tab table ! index)
      in (r, table\<lparr>hl_tab := (hl_tab table)[index := es]\<rparr>))"

definition hashListDeleteExact ::
  "('a \<Rightarrow> 32 word) \<Rightarrow> 'a hashList \<Rightarrow> 'a \<Rightarrow> bool \<times> 'a hashList" where
  "hashListDeleteExact hashf table element =
     (let index = hashListIndex hashf table element;
          (r, es) = unlink_first (\<lambda>e. e = element) (hl_tab table ! index)
      in (r, table\<lparr>hl_tab := (hl_tab table)[index := es]\<rparr>))"

definition hashListPush :: "'a hashList \<Rightarrow> 'a \<Rightarrow> nat \<Rightarrow> 'a hashList" where
  "hashListPush table element position =
     table\<lparr>hl_tab := (hl_tab table)[position := element # hl_tab table ! position]\<rparr>"

definition hashListSetLast :: "'a hashList \<Rightarrow> 'a \<Rightarrow> nat \<Rightarrow> 'a hashList" where
  "hashListSetLast table element position =
     table\<lparr>hl_tab := (hl_tab table)[position := hl_tab table ! position @ [element]]\<rparr>"

definition hashListAdd ::
  "('a \<Rightarrow> 32 word) \<Rightarrow> ('a \<Rightarrow> 'a \<Rightarrow> bool) \<Rightarrow> 'a hashList \<Rightarrow> 'a \<Rightarrow> nat \<times> 'a hashList" where
  "hashListAdd hashf equal table element =
     (let (member, position, origin) = hashListIsMember hashf equal table element in
      if \<not> member then (position, hashListPush table element position) else (position, table))"

definition hashListMap :: "'a hashList \<Rightarrow> ('a \<Rightarrow> 's \<Rightarrow> 's) \<Rightarrow> 's \<Rightarrow> 's" where
  "hashListMap table fn s = fold fn (concat (hl_tab table)) s"

definition hashListMapWithPointer :: "'a hashList \<Rightarrow> ('a \<Rightarrow> 'p \<Rightarrow> 's \<Rightarrow> 's) \<Rightarrow> 'p \<Rightarrow> 's \<Rightarrow> 's" where
  "hashListMapWithPointer table fn p s = fold (\<lambda>e. fn e p) (concat (hl_tab table)) s"

fun map_used_slots :: "(nat \<Rightarrow> 's \<Rightarrow> 's) \<Rightarrow> nat \<Rightarrow> 'a list list \<Rightarrow> 's \<Rightarrow> 's" where
  "map_used_slots fn i [] s = s"
| "map_used_slots fn i (es # tab) s =
     map_used_slots fn (i + 1) tab (if es \<noteq> [] then fn i s else s)"

definition hashListMapWithIndex :: "'a hashList \<Rightarrow> (nat \<Rightarrow> 's \<Rightarrow> 's) \<Rightarrow> 's \<Rightarrow> 's" where
  "hashListMapWithIndex table fn s = map_used_slots fn 0 (hl_tab table) s"

text \<open>The search for a used slot that two of the tables have.\<close>

function next_used_slot :: "'a list list \<Rightarrow> nat \<Rightarrow> int" where
  "next_used_slot tab i =
     (if i < length tab then (if tab ! i \<noteq> [] then int i else next_used_slot tab (i + 1)) else -1)"
  by pat_completeness auto
termination by (relation "measure (\<lambda>(tab, i). length tab - i)") auto

declare next_used_slot.simps [simp del]

lemma from_Suc: "i \<le> j \<longleftrightarrow> j = i \<or> Suc i \<le> j" for i j :: nat
  by auto

lemma next_used_slot_none:
  "next_used_slot tab i = -1 \<longleftrightarrow> (\<forall>j. i \<le> j \<longrightarrow> j < length tab \<longrightarrow> tab ! j = [])"
proof (induction tab i rule: next_used_slot.induct)
  case (1 tab i)
  show ?case
    using 1 by (subst next_used_slot.simps, subst from_Suc) auto
qed

lemma next_used_slot_some:
  "next_used_slot tab i = int k \<Longrightarrow>
     i \<le> k \<and> k < length tab \<and> tab ! k \<noteq> [] \<and> (\<forall>j. i \<le> j \<longrightarrow> j < k \<longrightarrow> tab ! j = [])"
proof (induction tab i rule: next_used_slot.induct)
  case (1 tab i)
  show ?case
  proof (cases "i < length tab \<and> tab ! i \<noteq> []")
    case True
    then have "next_used_slot tab i = int i" by (subst next_used_slot.simps) simp
    with 1(2) True show ?thesis by simp
  next
    case False
    then have "i < length tab" "tab ! i = []" "next_used_slot tab (i + 1) = int k"
      using 1(2) by (subst (asm) next_used_slot.simps, simp split: if_splits)+
    then show ?thesis using 1(1) by (subst from_Suc) auto
  qed
qed

section \<open>The contract of a table\<close>

lemma find_member_append:
  "find_member equal x (es @ fs) =
     (if find_member equal x es = [] then find_member equal x fs else find_member equal x es @ fs)"
  by (induction es) auto

lemma find_member_Nil_iff: "find_member equal x es = [] \<longleftrightarrow> (\<forall>e\<in>set es. \<not> equal e x)"
  by (induction es) auto

lemma find_member_hd: "find_member equal x es = e # r \<Longrightarrow> equal e x \<and> e \<in> set es"
  by (induction es) (auto split: if_splits)

lemma unlink_first_none: "\<forall>e\<in>set es. \<not> P e \<Longrightarrow> unlink_first P es = (False, es)"
  by (induction es) auto

lemma unlink_first_first: "\<forall>e\<in>set es. \<not> P e \<Longrightarrow> P x \<Longrightarrow> unlink_first P (es @ x # fs) = (True, es @ fs)"
  by (induction es) auto

lemma unlink_first_subset: "set (snd (unlink_first P es)) \<subseteq> set es"
  by (induction es) (auto simp: case_prod_beta)

context hash_elements
begin

text \<open>Every element is in the list of its own slot.\<close>

definition wf_list :: "'a hashList \<Rightarrow> bool" where
  "wf_list table \<longleftrightarrow>
     0 < hl_size table \<and> length (hl_tab table) = hl_size table
     \<and> (\<forall>i<hl_size table. \<forall>e\<in>set (hl_tab table ! i). hashListIndex hashf table e = i)"

lemma wf_list_init: "0 < n \<Longrightarrow> wf_list (hashListNoAllocInit n)"
  by (simp add: wf_list_def hashListNoAllocInit_def)

lemma index_less: "wf_list table \<Longrightarrow> hashListIndex hashf table e < hl_size table"
  by (simp add: wf_list_def hashListIndex_def)

lemma index_length: "wf_list table \<Longrightarrow> hashListIndex hashf table e < length (hl_tab table)"
  using index_less [of table e] by (simp add: wf_list_def)

lemma index_equal: "equal a b \<Longrightarrow> hashListIndex hashf table a = hashListIndex hashf table b"
  by (simp add: hashListIndex_def equal_hash)

lemma index_tab [simp]: "hashListIndex hashf (table\<lparr>hl_tab := t\<rparr>) e = hashListIndex hashf table e"
  by (simp add: hashListIndex_def)

lemma wf_list_push:
  "wf_list table \<Longrightarrow> wf_list (hashListPush table e (hashListIndex hashf table e))"
  using index_less [of table e]
  by (auto simp: wf_list_def hashListPush_def nth_list_update split: if_splits)

lemma wf_list_setLast:
  "wf_list table \<Longrightarrow> wf_list (hashListSetLast table e (hashListIndex hashf table e))"
  using index_less [of table e]
  by (auto simp: wf_list_def hashListSetLast_def nth_list_update split: if_splits)

lemma wf_list_delete: "wf_list table \<Longrightarrow> wf_list (snd (hashListDelete hashf equal table e))"
  using index_less [of table e]
    unlink_first_subset [of "\<lambda>x. equal x e" "hl_tab table ! hashListIndex hashf table e"]
  by (auto simp: wf_list_def hashListDelete_def nth_list_update Let_def case_prod_beta
      split: if_splits)

text \<open>A member is found exactly when an equal element is anywhere in the table.\<close>

lemma isMember_elements:
  assumes "wf_list table"
  shows "fst (hashListIsMember hashf equal table e)
    \<longleftrightarrow> (\<exists>a\<in>set (concat (hl_tab table)). equal a e)"
proof
  assume "fst (hashListIsMember hashf equal table e)"
  then obtain a r where "find_member equal e (hl_tab table ! hashListIndex hashf table e) = a # r"
    by (auto simp: hashListIsMember_def Let_def neq_Nil_conv)
  with find_member_hd [OF this] index_less [OF assms, of e] assms
  show "\<exists>a\<in>set (concat (hl_tab table)). equal a e"
    by (auto simp: wf_list_def intro!: bexI [of _ "hl_tab table ! hashListIndex hashf table e"])
next
  assume "\<exists>a\<in>set (concat (hl_tab table)). equal a e"
  then obtain a es where "a \<in> set es" "es \<in> set (hl_tab table)" "equal a e" by auto
  then obtain i where "i < hl_size table" "a \<in> set (hl_tab table ! i)" "equal a e"
    using assms by (metis in_set_conv_nth wf_list_def)
  then show "fst (hashListIsMember hashf equal table e)"
    using assms index_equal [of a e table]
    by (auto simp: wf_list_def hashListIsMember_def Let_def find_member_Nil_iff)
qed

text \<open>A pushed element hides equal ones, and deleting it uncovers them again.\<close>

lemma isMember_push:
  assumes "wf_list table" "equal a e"
  shows "hashListIsMember hashf equal (hashListPush table a (hashListIndex hashf table a)) e =
    (True, hashListIndex hashf table e, a # hl_tab table ! hashListIndex hashf table e)"
  using assms index_length [OF assms(1), of e] index_equal [OF assms(2), of table]
  by (simp add: hashListIsMember_def hashListPush_def Let_def)

lemma delete_push:
  assumes "wf_list table" "equal a e"
  shows "hashListDelete hashf equal (hashListPush table a (hashListIndex hashf table a)) e = (True, table)"
  using assms index_length [OF assms(1), of e] index_equal [OF assms(2), of table]
  by (simp add: hashListDelete_def hashListPush_def Let_def)

lemma isMember_push_other:
  assumes "wf_list table" "\<not> equal a e"
  shows "hashListIsMember hashf equal (hashListPush table a (hashListIndex hashf table a)) e =
    hashListIsMember hashf equal table e"
  using assms index_length [OF assms(1), of a] index_length [OF assms(1), of e]
  by (auto simp: hashListIsMember_def hashListPush_def Let_def nth_list_update)

end

end
