(* ===== verification/References.thy ===== *)
theory References
  imports Types Lists HashList
begin

text \<open>
  Models \<^verbatim>\<open>reference.c\<close>, \<^verbatim>\<open>referenceableitem.c\<close> and \<^verbatim>\<open>referenceableitemtable.c\<close>: the
  occurrences of a referenceable item, kept as a list ordered by position, and the table of
  the items. The specification of a list is the map from positions to usages. Running out of
  memory, which ends the process, is left to the arenas.
\<close>

record reference =
  ref_position :: position
  ref_usage :: usage

definition makeReference :: "position \<Rightarrow> usage \<Rightarrow> reference" where
  "makeReference position usage = \<lparr>ref_position = position, ref_usage = usage\<rparr>"

definition newReference :: "position \<Rightarrow> usage \<Rightarrow> reference list \<Rightarrow> reference list" where
  "newReference position usage rest = \<lparr>ref_position = position, ref_usage = usage\<rparr> # rest"

text \<open>The usage of the original is cleared before it is copied, so the copy has none either.\<close>

definition duplicateReferenceInCxMemory :: "reference \<Rightarrow> reference list \<Rightarrow> reference list" where
  "duplicateReferenceInCxMemory original rest =
     (let original' = original\<lparr>ref_usage := UsageNone\<rparr>; copy = original' in original' # copy # rest)"

definition setReferenceUsage :: "reference option \<Rightarrow> usage \<Rightarrow> reference option" where
  "setReferenceUsage reference usage =
     (case reference of
        None \<Rightarrow> None
      | Some r \<Rightarrow> (if isLessImportantUsageThan (ref_usage r) usage then Some (r\<lparr>ref_usage := usage\<rparr>)
                  else Some r))"

definition referenceLess :: "reference \<Rightarrow> reference \<Rightarrow> bool" where
  "referenceLess tmp key = positionIsLessThan (ref_position tmp) (ref_position key)"

definition referenceNeq :: "reference \<Rightarrow> reference \<Rightarrow> bool" where
  "referenceNeq tmp key = positionsAreNotEqual (ref_position tmp) (ref_position key)"

text \<open>
  The result is the list with the place of the reference, the elements before it and from it.
  \<open>duplicates\<close> is whether the operation of the parser allows duplicate references.
\<close>

definition addToReferenceList ::
  "bool \<Rightarrow> reference list \<Rightarrow> position \<Rightarrow> usage \<Rightarrow> reference list \<times> reference list" where
  "addToReferenceList duplicates refs position usage =
     (let reference = makeReference position usage;
          (before, place) = SORTED_LIST_PLACE3 referenceLess reference refs
      in case place of
           [] \<Rightarrow> (before, [makeReference position usage])
         | r # rest \<Rightarrow>
             (if referenceNeq r reference \<or> duplicates
              then (before, makeReference position usage # place)
              else (before, r\<lparr>ref_usage := usage\<rparr> # rest)))"

definition place_list :: "'a list \<times> 'a list \<Rightarrow> 'a list" where
  "place_list p = fst p @ snd p"

definition isReferenceInList :: "reference \<Rightarrow> reference list \<Rightarrow> bool" where
  "isReferenceInList reference refs =
     (case SORTED_LIST_FIND3 referenceLess reference refs of
        [] \<Rightarrow> False
      | place # _ \<Rightarrow> \<not> referenceNeq place reference)"

text \<open>The added reference, and the list.\<close>

definition addReferenceToListWithoutUsageCheck ::
  "reference \<Rightarrow> reference list \<Rightarrow> reference option \<times> reference list" where
  "addReferenceToListWithoutUsageCheck ref refs =
     (let (before, place) = SORTED_LIST_PLACE3 referenceLess ref refs in
      if place = [] \<or> referenceNeq (hd place) ref
      then (Some ref, before @ ref # place) else (None, refs))"

definition addReferenceToList :: "reference \<Rightarrow> reference list \<Rightarrow> reference option \<times> reference list" where
  "addReferenceToList reference refs =
     (if \<not> isVisibleUsage (ref_usage reference) then (None, refs)
      else addReferenceToListWithoutUsageCheck reference refs)"

definition fileNumberOfReference :: "reference \<Rightarrow> int" where
  "fileNumberOfReference reference = pos_file (ref_position reference)"

section \<open>Reference lists implement a map from positions to usages\<close>

definition usages_of :: "reference list \<Rightarrow> position \<rightharpoonup> usage" where
  "usages_of refs = map_of (map (\<lambda>r. (ref_position r, ref_usage r)) refs)"

definition strictly_ordered :: "reference list \<Rightarrow> bool" where
  "strictly_ordered refs \<longleftrightarrow> sorted_wrt (<) (map ref_position refs)"

lemma referenceLess_iff [simp]: "referenceLess a b \<longleftrightarrow> ref_position a < ref_position b"
  by (simp add: referenceLess_def)

lemma referenceNeq_iff [simp]: "referenceNeq a b \<longleftrightarrow> ref_position a \<noteq> ref_position b"
  by (simp add: referenceNeq_def)

interpretation reference_order: list_order referenceLess
  by unfold_locales auto

lemma strictly_ordered_simps [simp]:
  "strictly_ordered []"
  "strictly_ordered (r # rs) \<longleftrightarrow> (\<forall>x\<in>set rs. ref_position r < ref_position x) \<and> strictly_ordered rs"
  by (auto simp: strictly_ordered_def)

lemma strictly_ordered_append:
  "strictly_ordered (rs @ ss) \<longleftrightarrow>
     strictly_ordered rs \<and> strictly_ordered ss
     \<and> (\<forall>r\<in>set rs. \<forall>s\<in>set ss. ref_position r < ref_position s)"
  by (auto simp: strictly_ordered_def sorted_wrt_append)

text \<open>The place of a position in a strictly ordered list splits it around the position.\<close>

lemma place_splits:
  assumes "strictly_ordered refs"
    and "SORTED_LIST_PLACE3 referenceLess key refs = (before, place)"
  shows "refs = before @ place" "\<forall>r\<in>set before. ref_position r < ref_position key"
    and "\<forall>r\<in>set place. ref_position key \<le> ref_position r"
    and "place \<noteq> [] \<Longrightarrow> \<forall>r\<in>set (tl place). ref_position key < ref_position r"
proof -
  from assms(2) have b: "before = takeWhile (\<lambda>r. ref_position r < ref_position key) refs"
    and p: "place = dropWhile (\<lambda>r. ref_position r < ref_position key) refs"
    by (simp_all add: SORTED_LIST_PLACE3_split)
  show r: "refs = before @ place" by (simp add: b p)
  show "\<forall>r\<in>set before. ref_position r < ref_position key" by (auto simp: b dest: set_takeWhileD)
  have h: "place \<noteq> [] \<Longrightarrow> \<not> ref_position (hd place) < ref_position key"
    unfolding p by (rule hd_dropWhile)
  have o: "strictly_ordered place" using assms(1) r by (simp add: strictly_ordered_append)
  show "\<forall>r\<in>set place. ref_position key \<le> ref_position r"
    using h o by (cases place) (auto simp: not_less intro: order_trans less_imp_le)
  show "place \<noteq> [] \<Longrightarrow> \<forall>r\<in>set (tl place). ref_position key < ref_position r"
    using h o by (cases place) (auto simp: not_less intro: le_less_trans)
qed

lemma usages_of_append: "usages_of (rs @ ss) = usages_of ss ++ usages_of rs"
  by (simp add: usages_of_def)

lemma usages_of_Cons: "usages_of (r # rs) = (usages_of rs)(ref_position r \<mapsto> ref_usage r)"
  by (simp add: usages_of_def)

lemma usages_of_None: "\<forall>r\<in>set rs. ref_position r \<noteq> p \<Longrightarrow> usages_of rs p = None"
  by (induction rs) (auto simp: usages_of_def)

lemma map_add_upd_left: "m p = None \<Longrightarrow> n(p \<mapsto> u) ++ m = (n ++ m)(p \<mapsto> u)"
  by (auto simp: map_add_def fun_eq_iff split: option.splits)

lemma usages_at_place:
  assumes "\<forall>r\<in>set before. ref_position r < p"
  shows "usages_of (before @ makeReference p u # rest) = (usages_of (before @ rest))(p \<mapsto> u)"
proof -
  have "usages_of before p = None" using assms by (intro usages_of_None) auto
  then show ?thesis
    by (simp add: usages_of_append usages_of_Cons makeReference_def map_add_upd_left)
qed

lemma addToReferenceList_ordered:
  assumes "strictly_ordered refs"
  shows "strictly_ordered (place_list (addToReferenceList False refs p u))
    \<and> usages_of (place_list (addToReferenceList False refs p u)) = (usages_of refs)(p \<mapsto> u)"
proof -
  obtain before place where s: "SORTED_LIST_PLACE3 referenceLess (makeReference p u) refs = (before, place)"
    by fastforce
  note sp = place_splits [OF assms s, unfolded makeReference_def, simplified]
  have o: "strictly_ordered before" "strictly_ordered place"
    "\<forall>r\<in>set before. \<forall>s\<in>set place. ref_position r < ref_position s"
    using assms sp(1) by (simp_all add: strictly_ordered_append)
  show ?thesis
  proof (cases "place = [] \<or> ref_position (hd place) \<noteq> p")
    case True
    then have r: "place_list (addToReferenceList False refs p u) = before @ makeReference p u # place"
      using s by (cases place) (auto simp: addToReferenceList_def place_list_def makeReference_def)
    have "\<forall>r\<in>set place. p < ref_position r"
      using True sp(3,4) by (cases place) auto
    then show ?thesis
      using r o sp(1,2) usages_at_place [OF sp(2), of u place]
      by (simp add: strictly_ordered_append makeReference_def)
  next
    case False
    then obtain r rest where pl: "place = r # rest" "ref_position r = p" by (cases place) auto
    have m: "r\<lparr>ref_usage := u\<rparr> = makeReference p u" using pl(2) by (simp add: makeReference_def)
    have r: "place_list (addToReferenceList False refs p u) = before @ makeReference p u # rest"
      using s pl m by (simp add: addToReferenceList_def place_list_def makeReference_def)
    have "usages_of refs = (usages_of (before @ rest))(p \<mapsto> ref_usage r)"
      using usages_at_place [OF sp(2), of "ref_usage r" rest] pl sp(1)
      by (cases r) (simp add: makeReference_def)
    then show ?thesis
      using r o sp(2) pl usages_at_place [OF sp(2), of u rest]
      by (auto simp: strictly_ordered_append makeReference_def)
  qed
qed

lemma isReferenceInList_usages:
  assumes "strictly_ordered refs"
  shows "isReferenceInList r refs \<longleftrightarrow> usages_of refs (ref_position r) \<noteq> None"
proof -
  let ?d = "dropWhile (\<lambda>x. ref_position x < ref_position r) refs"
  have "SORTED_LIST_PLACE3 referenceLess r refs = (takeWhile (\<lambda>x. ref_position x < ref_position r) refs, ?d)"
    by (simp add: SORTED_LIST_PLACE3_split)
  note sp = place_splits [OF assms this]
  have b: "usages_of (takeWhile (\<lambda>x. ref_position x < ref_position r) refs) (ref_position r) = None"
    using sp(2) by (intro usages_of_None) auto
  have "usages_of refs (ref_position r) = usages_of ?d (ref_position r)"
    using b arg_cong [OF sp(1), of usages_of] unfolding usages_of_append by (simp add: map_add_def)
  moreover have "usages_of ?d (ref_position r) \<noteq> None \<longleftrightarrow> ?d \<noteq> [] \<and> ref_position (hd ?d) = ref_position r"
  proof (cases ?d)
    case (Cons x xs)
    with sp(4) have "usages_of xs (ref_position r) = None" by (intro usages_of_None) auto
    with Cons show ?thesis by (auto simp: usages_of_Cons)
  next
    case Nil
    show ?thesis unfolding Nil by (simp add: usages_of_def)
  qed
  moreover have head: "(case d of [] \<Rightarrow> False | place # _ \<Rightarrow> \<not> referenceNeq place r)
      \<longleftrightarrow> d \<noteq> [] \<and> ref_position (hd d) = ref_position r" for d
    by (cases d) simp_all
  have "isReferenceInList r refs \<longleftrightarrow> ?d \<noteq> [] \<and> ref_position (hd ?d) = ref_position r"
    unfolding isReferenceInList_def SORTED_LIST_FIND3_dropWhile referenceLess_iff
    by (rule head)
  ultimately show ?thesis by simp
qed

lemma addReferenceToList_ordered:
  assumes "strictly_ordered refs"
  shows "strictly_ordered (snd (addReferenceToList r refs))
    \<and> usages_of (snd (addReferenceToList r refs)) =
       (if isVisibleUsage (ref_usage r) \<and> usages_of refs (ref_position r) = None
        then (usages_of refs)(ref_position r \<mapsto> ref_usage r) else usages_of refs)"
proof -
  obtain before place where s: "SORTED_LIST_PLACE3 referenceLess r refs = (before, place)" by fastforce
  note sp = place_splits [OF assms s]
  have o: "strictly_ordered before" "strictly_ordered place"
    "\<forall>r\<in>set before. \<forall>s\<in>set place. ref_position r < ref_position s"
    using assms sp(1) by (simp_all add: strictly_ordered_append)
  have r: "r = makeReference (ref_position r) (ref_usage r)" by (simp add: makeReference_def)
  have b: "usages_of before (ref_position r) = None" using sp(2) by (intro usages_of_None) auto
  have in_place: "usages_of refs (ref_position r) = usages_of place (ref_position r)"
    using b by (simp add: sp(1) usages_of_append map_add_def)
  show ?thesis
  proof (cases "place = [] \<or> ref_position (hd place) \<noteq> ref_position r")
    case True
    have gt: "\<forall>x\<in>set place. ref_position r < ref_position x" using True sp(3,4) by (cases place) auto
    then have n: "usages_of refs (ref_position r) = None"
      unfolding in_place by (intro usages_of_None) auto
    have "snd (addReferenceToListWithoutUsageCheck r refs) = before @ r # place"
      using s True by (auto simp: addReferenceToListWithoutUsageCheck_def)
    then show ?thesis
      using n o sp(1,2) gt usages_at_place [OF sp(2), of "ref_usage r" place] assms
      by (simp add: addReferenceToList_def strictly_ordered_append flip: r)
  next
    case False
    then have "usages_of refs (ref_position r) \<noteq> None"
      unfolding in_place by (cases place) (auto simp: usages_of_Cons)
    then show ?thesis
      using s False assms by (auto simp: addReferenceToList_def addReferenceToListWithoutUsageCheck_def)
  qed
qed

section \<open>Referenceable items and their table\<close>

record referenceableItem =
  ri_linkName :: string
  ri_type :: ctype
  ri_storage :: storage
  ri_visibility :: visibility
  ri_includeFileNumber :: int
  ri_references :: "reference list"

definition makeReferenceableItem ::
  "int \<Rightarrow> string \<Rightarrow> ctype \<Rightarrow> storage \<Rightarrow> visibility \<Rightarrow> int \<Rightarrow> referenceableItem option" where
  "makeReferenceableItem noFileNumber name t st vis includeFile =
     (if includeFile \<noteq> noFileNumber \<and> t \<noteq> TypeCppInclude then None
      else Some \<lparr>ri_linkName = name, ri_type = t, ri_storage = st, ri_visibility = vis,
                 ri_includeFileNumber = includeFile, ri_references = []\<rparr>)"

definition equalReferenceableItems :: "referenceableItem \<Rightarrow> referenceableItem \<Rightarrow> bool" where
  "equalReferenceableItems e1 e2 \<longleftrightarrow>
     ri_type e1 = ri_type e2 \<and> ri_storage e1 = ri_storage e2
     \<and> ri_visibility e1 = ri_visibility e2 \<and> ri_includeFileNumber e1 = ri_includeFileNumber e2
     \<and> strcmp (ri_linkName e1) (ri_linkName e2) = 0"

definition referenceableItemHash :: "referenceableItem \<Rightarrow> 32 word" where
  "referenceableItemHash e = hashFun (ri_linkName e) + word_of_int (ri_includeFileNumber e)"

interpretation items: hash_elements referenceableItemHash equalReferenceableItems
  by unfold_locales (auto simp: equalReferenceableItems_def referenceableItemHash_def)

type_synonym item_table = "referenceableItem hashList"

definition initReferenceableItemTable :: "nat \<Rightarrow> item_table" where
  "initReferenceableItemTable sz = hashListNoAllocInit sz"

definition getReferenceableItem :: "item_table \<Rightarrow> nat \<Rightarrow> referenceableItem list option" where
  "getReferenceableItem table index =
     (if index < hl_size table \<and> hl_tab table ! index \<noteq> [] then Some (hl_tab table ! index) else None)"

definition getNextExistingReferenceableItem :: "item_table \<Rightarrow> nat \<Rightarrow> int" where
  "getNextExistingReferenceableItem table index = next_used_slot (hl_tab table) index"

definition addToReferenceableItemTable :: "item_table \<Rightarrow> referenceableItem \<Rightarrow> nat \<times> item_table" where
  "addToReferenceableItemTable table item =
     hashListAdd referenceableItemHash equalReferenceableItems table item"

definition pushReferenceableItem :: "item_table \<Rightarrow> referenceableItem \<Rightarrow> nat \<Rightarrow> item_table" where
  "pushReferenceableItem table element offset = hashListPush table element offset"

definition isMemberInReferenceableItemTable ::
  "item_table \<Rightarrow> referenceableItem \<Rightarrow> bool \<times> nat \<times> referenceableItem list" where
  "isMemberInReferenceableItemTable table element =
     hashListIsMember referenceableItemHash equalReferenceableItems table element"

definition mapOverReferenceableItemTable ::
  "item_table \<Rightarrow> (referenceableItem \<Rightarrow> 's \<Rightarrow> 's) \<Rightarrow> 's \<Rightarrow> 's" where
  "mapOverReferenceableItemTable table fn s = hashListMap table fn s"

definition mapOverReferenceableItemTableWithPointer ::
  "item_table \<Rightarrow> (referenceableItem \<Rightarrow> 'p \<Rightarrow> 's \<Rightarrow> 's) \<Rightarrow> 'p \<Rightarrow> 's \<Rightarrow> 's" where
  "mapOverReferenceableItemTableWithPointer table fn p s = hashListMapWithPointer table fn p s"

fun unlink_references :: "int \<Rightarrow> reference list \<Rightarrow> reference list" where
  "unlink_references fileNumber [] = []"
| "unlink_references fileNumber (r # rs) =
     (if pos_file (ref_position r) = fileNumber then unlink_references fileNumber rs
      else r # unlink_references fileNumber rs)"

definition removeReferenceableItemsForFile :: "item_table \<Rightarrow> int \<Rightarrow> item_table" where
  "removeReferenceableItemsForFile table fileNumber =
     table\<lparr>hl_tab := map (map (\<lambda>item.
        item\<lparr>ri_references := unlink_references fileNumber (ri_references item)\<rparr>)) (hl_tab table)\<rparr>"

lemma unlink_references_filter:
  "unlink_references f rs = filter (\<lambda>r. pos_file (ref_position r) \<noteq> f) rs"
  by (induction rs) auto

lemma unlink_ordered: "strictly_ordered rs \<Longrightarrow> strictly_ordered (unlink_references f rs)"
  by (induction rs) (auto simp: unlink_references_filter)

lemma unlink_usages:
  "usages_of (unlink_references f rs) p = (if pos_file p = f then None else usages_of rs p)"
  by (induction rs) (auto simp: usages_of_def)

definition item_table_ok :: "item_table \<Rightarrow> bool" where
  "item_table_ok table \<longleftrightarrow> items.wf_list table
     \<and> (\<forall>item\<in>set (concat (hl_tab table)). strictly_ordered (ri_references item))"

lemma items_index_refs [simp]:
  "hashListIndex referenceableItemHash table (item\<lparr>ri_references := rs\<rparr>)
    = hashListIndex referenceableItemHash table item"
  by (simp add: hashListIndex_def referenceableItemHash_def)

lemma equal_items_refs [simp]:
  "equalReferenceableItems (item\<lparr>ri_references := rs\<rparr>) e = equalReferenceableItems item e"
  by (simp add: equalReferenceableItems_def)

lemma remove_wf: "items.wf_list table \<Longrightarrow> items.wf_list (removeReferenceableItemsForFile table f)"
  by (auto simp: items.wf_list_def removeReferenceableItemsForFile_def)

lemma find_member_map:
  "(\<And>e. equal (g e) x = equal e x) \<Longrightarrow> find_member equal x (map g es) = map g (find_member equal x es)"
  by (induction es) auto

section \<open>Properties\<close>

text \<open>C23: A reference list is a map from positions to usages: outside an extraction, adding a
  reference keeps the list strictly ordered by position and changes the usage of that position
  only; membership is being in the map.\<close>

theorem reference_list_is_map:
  assumes "strictly_ordered refs"
  shows "strictly_ordered (place_list (addToReferenceList False refs p u))
    \<and> usages_of (place_list (addToReferenceList False refs p u)) = (usages_of refs)(p \<mapsto> u)
    \<and> (isReferenceInList r refs \<longleftrightarrow> usages_of refs (ref_position r) \<noteq> None)
    \<and> strictly_ordered (snd (addReferenceToList r refs))
    \<and> usages_of (snd (addReferenceToList r refs)) =
       (if isVisibleUsage (ref_usage r) \<and> usages_of refs (ref_position r) = None
        then (usages_of refs)(ref_position r \<mapsto> ref_usage r) else usages_of refs)"
  using addToReferenceList_ordered [OF assms] isReferenceInList_usages [OF assms]
    addReferenceToList_ordered [OF assms] by blast

theorem reference_list_is_map_witness:
  "usages_of (place_list (addToReferenceList False
      [makeReference (Position 1 2 3) UsageUsed, makeReference (Position 1 4 0) UsageUsed]
      (Position 1 4 0) UsageDefined)) (Position 1 4 0) = Some UsageDefined"
proof -
  have "strictly_ordered [makeReference (Position 1 2 3) UsageUsed, makeReference (Position 1 4 0) UsageUsed]"
    by (simp add: makeReference_def less_position_fields)
  from reference_list_is_map [OF this, of "Position 1 4 0" UsageDefined] show ?thesis by simp
qed

text \<open>Removing a file takes exactly its references out of the table: every item stays where it
  was and is found as before, its references stay ordered, and the usages at positions of
  other files do not change.\<close>

theorem remove_file_references:
  assumes "item_table_ok table"
  shows "item_table_ok (removeReferenceableItemsForFile table f)
    \<and> isMemberInReferenceableItemTable (removeReferenceableItemsForFile table f) item =
       (let (found, index, member) = isMemberInReferenceableItemTable table item in
        (found, index, map (\<lambda>i. i\<lparr>ri_references := unlink_references f (ri_references i)\<rparr>) member))
    \<and> usages_of (unlink_references f refs) =
       usages_of refs |` {p. pos_file p \<noteq> f}"
proof (intro conjI)
  let ?g = "\<lambda>i. i\<lparr>ri_references := unlink_references f (ri_references i)\<rparr>"
  show "item_table_ok (removeReferenceableItemsForFile table f)"
    using assms remove_wf [of table f] unlink_ordered
    by (auto simp: item_table_ok_def removeReferenceableItemsForFile_def)
  have i: "hashListIndex referenceableItemHash table item < length (hl_tab table)"
    using assms items.index_length by (simp add: item_table_ok_def)
  have "find_member equalReferenceableItems item (map ?g es)
      = map ?g (find_member equalReferenceableItems item es)" for es
    by (rule find_member_map) simp
  then show "isMemberInReferenceableItemTable (removeReferenceableItemsForFile table f) item =
       (let (found, index, member) = isMemberInReferenceableItemTable table item in
        (found, index, map ?g member))"
    using i by (simp add: isMemberInReferenceableItemTable_def hashListIsMember_def Let_def
        removeReferenceableItemsForFile_def)
  show "usages_of (unlink_references f refs) = usages_of refs |` {p. pos_file p \<noteq> f}"
    by (auto simp: fun_eq_iff restrict_map_def unlink_usages)
qed

definition example_item :: referenceableItem where
  "example_item = \<lparr>ri_linkName = ''main'', ri_type = TypeDefault, ri_storage = StorageExtern,
     ri_visibility = VisibilityGlobal, ri_includeFileNumber = 0,
     ri_references = [makeReference (Position 1 2 3) UsageDefined, makeReference (Position 2 4 0) UsageUsed]\<rparr>"

theorem remove_file_references_witness:
  "item_table_ok (removeReferenceableItemsForFile \<lparr>hl_size = 1, hl_tab = [[example_item]]\<rparr> 1)
   \<and> usages_of (unlink_references 1 (ri_references example_item)) (Position 2 4 0) = Some UsageUsed
   \<and> usages_of (unlink_references 1 (ri_references example_item)) (Position 1 2 3) = None"
proof -
  have "item_table_ok \<lparr>hl_size = 1, hl_tab = [[example_item]]\<rparr>"
    by (simp add: item_table_ok_def items.wf_list_def hashListIndex_def example_item_def
        makeReference_def less_position_fields)
  from remove_file_references [OF this, of 1 example_item "ri_references example_item"] show ?thesis
    by (simp add: example_item_def makeReference_def usages_of_def restrict_map_def)
qed

end
