(* ===== verification/SymbolTable.thy ===== *)
theory SymbolTable
  imports Types HashList Memory StackMemory
begin

text \<open>
  Models \<^verbatim>\<open>symboltable.c\<close>: the table of the symbols in scope. A symbol is allocated in the
  stack memory or the preprocessor memory; a cell is a symbol with its address, and with the
  address of the members of its structure specification, which \<open>recoverSymbolTableMemory\<close>
  looks at after memory has been given back.
\<close>

record symbolCell =
  cell_address :: int
  cell_symbol :: symbol
  cell_members :: "int option" \<comment> \<open>\<open>structSpec->members\<close>\<close>

definition symbolHash :: "symbolCell \<Rightarrow> 32 word" where
  "symbolHash element = hashFun (sym_name (cell_symbol element))"

definition equalSymbols :: "symbolCell \<Rightarrow> symbolCell \<Rightarrow> bool" where
  "equalSymbols e1 e2 \<longleftrightarrow>
     sym_type (cell_symbol e1) = sym_type (cell_symbol e2)
     \<and> strcmp (sym_name (cell_symbol e1)) (sym_name (cell_symbol e2)) = 0"

interpretation symbols: hash_elements symbolHash equalSymbols
  by unfold_locales (auto simp: symbolHash_def equalSymbols_def)

type_synonym symbol_table = "symbolCell hashList"

definition initSymbolTable :: "nat \<Rightarrow> symbol_table" where
  "initSymbolTable sz = hashListNoAllocInit sz"

definition addToSymbolTable :: "symbol_table \<Rightarrow> symbolCell \<Rightarrow> nat \<times> symbol_table" where
  "addToSymbolTable table symbol = hashListAdd symbolHash equalSymbols table symbol"

definition getSymbol :: "symbol_table \<Rightarrow> nat \<Rightarrow> symbolCell list" where
  "getSymbol table index = hl_tab table ! index"

definition getNextExistingSymbol :: "symbol_table \<Rightarrow> nat \<Rightarrow> int" where
  "getNextExistingSymbol table index = next_used_slot (hl_tab table) index"

definition addSymbolToTable :: "symbol_table \<Rightarrow> symbolCell \<Rightarrow> symbol_table" where
  "addSymbolToTable table symbol =
     (let (_, i, _) = hashListIsMember symbolHash equalSymbols table symbol
      in hashListPush table symbol i)"

text \<open>Deleting a symbol from the table is the action of its frame, \<open>symbolTableDelete\<close>.\<close>

definition symbolTableDelete :: "symbol_table \<Rightarrow> symbolCell \<Rightarrow> symbol_table" where
  "symbolTableDelete table symbol = snd (hashListDelete symbolHash equalSymbols table symbol)"

definition recoverMemoryFromTypeStructOrUnion ::
  "(int \<Rightarrow> bool) \<Rightarrow> (int \<Rightarrow> bool) \<Rightarrow> symbolCell \<Rightarrow> symbolCell" where
  "recoverMemoryFromTypeStructOrUnion stackFreed ppmFreed symbol =
     (case cell_members symbol of
        None \<Rightarrow> symbol
      | Some members \<Rightarrow>
          (if stackFreed members \<or> ppmFreed members then symbol\<lparr>cell_members := None\<rparr> else symbol))"

definition recoverEnums :: "(int \<Rightarrow> bool) \<Rightarrow> symbolCell \<Rightarrow> symbolCell" where
  "recoverEnums stackFreed symbol =
     (case sym_value (cell_symbol symbol) of
        EnumsValue (Some enums) \<Rightarrow>
          (if stackFreed (int enums)
           then symbol\<lparr>cell_symbol := (cell_symbol symbol)\<lparr>sym_value := EnumsValue None\<rparr>\<rparr>
           else symbol)
      | _ \<Rightarrow> symbol)"

fun recover_list ::
  "(int \<Rightarrow> bool) \<Rightarrow> (int \<Rightarrow> bool) \<Rightarrow> symbolCell list \<Rightarrow> symbolCell list" where
  "recover_list stackFreed ppmFreed [] = []"
| "recover_list stackFreed ppmFreed (p # ps) =
     (if sym_type (cell_symbol p) = TypeMacro then
        (if ppmFreed (cell_address p) then recover_list stackFreed ppmFreed ps
         else p # recover_list stackFreed ppmFreed ps)
      else if sym_type (cell_symbol p) = TypeStruct \<or> sym_type (cell_symbol p) = TypeUnion then
        (if stackFreed (cell_address p) \<or> ppmFreed (cell_address p)
         then recover_list stackFreed ppmFreed ps
         else recoverMemoryFromTypeStructOrUnion stackFreed ppmFreed p
              # recover_list stackFreed ppmFreed ps)
      else if sym_type (cell_symbol p) = TypeEnum then
        (if stackFreed (cell_address p) then recover_list stackFreed ppmFreed ps
         else recoverEnums stackFreed p # recover_list stackFreed ppmFreed ps)
      else
        (if stackFreed (cell_address p) then recover_list stackFreed ppmFreed ps
         else p # recover_list stackFreed ppmFreed ps))"

definition recoverSymbolTableMemory ::
  "'a stackState \<Rightarrow> memories \<Rightarrow> symbol_table \<Rightarrow> symbol_table" where
  "recoverSymbolTableMemory stack mems table =
     table\<lparr>hl_tab := map (recover_list (isFreedStackMemory stack) (ppmIsFreedPointer mems)) (hl_tab table)\<rparr>"

section \<open>Recovered tables have no dangling symbols\<close>

definition freed :: "(int \<Rightarrow> bool) \<Rightarrow> (int \<Rightarrow> bool) \<Rightarrow> symbolCell \<Rightarrow> bool" where
  "freed stackFreed ppmFreed p \<longleftrightarrow>
     (if sym_type (cell_symbol p) = TypeMacro then ppmFreed (cell_address p)
      else stackFreed (cell_address p)
        \<or> (sym_type (cell_symbol p) \<in> {TypeStruct, TypeUnion} \<and> ppmFreed (cell_address p)))"

definition dangling_parts :: "(int \<Rightarrow> bool) \<Rightarrow> (int \<Rightarrow> bool) \<Rightarrow> symbolCell \<Rightarrow> bool" where
  "dangling_parts stackFreed ppmFreed p \<longleftrightarrow>
     (sym_type (cell_symbol p) \<in> {TypeStruct, TypeUnion}
        \<and> (\<exists>a. cell_members p = Some a \<and> (stackFreed a \<or> ppmFreed a)))
     \<or> (sym_type (cell_symbol p) = TypeEnum
        \<and> (\<exists>a. sym_value (cell_symbol p) = EnumsValue (Some a) \<and> stackFreed (int a)))"

definition identity_of :: "symbolCell \<Rightarrow> int \<times> string \<times> ctype" where
  "identity_of p = (cell_address p, sym_name (cell_symbol p), sym_type (cell_symbol p))"

lemma recover_parts [simp]:
  "identity_of (recoverMemoryFromTypeStructOrUnion sf pf p) = identity_of p"
  "identity_of (recoverEnums sf p) = identity_of p"
  by (auto simp: identity_of_def recoverMemoryFromTypeStructOrUnion_def recoverEnums_def
      split: option.splits symbol_value.splits)

lemma freed_identity: "identity_of p = identity_of q \<Longrightarrow> freed sf pf p = freed sf pf q"
  by (simp add: freed_def identity_of_def)

lemma recover_not_dangling:
  "sym_type (cell_symbol p) \<in> {TypeStruct, TypeUnion} \<Longrightarrow>
     \<not> dangling_parts sf pf (recoverMemoryFromTypeStructOrUnion sf pf p)"
  "sym_type (cell_symbol p) = TypeEnum \<Longrightarrow> \<not> dangling_parts sf pf (recoverEnums sf p)"
  by (auto simp: dangling_parts_def recoverMemoryFromTypeStructOrUnion_def recoverEnums_def
      split: option.splits symbol_value.splits)

lemma recover_list_identity:
  "map identity_of (recover_list sf pf ps) = map identity_of (filter (\<lambda>p. \<not> freed sf pf p) ps)"
  by (induction ps) (auto simp: freed_def)

lemma recover_list_safe:
  "\<forall>p\<in>set (recover_list sf pf ps). \<not> freed sf pf p \<and> \<not> dangling_parts sf pf p"
proof (induction ps)
  case (Cons p ps)
  have "\<not> freed sf pf p \<Longrightarrow> \<not> freed sf pf (recoverMemoryFromTypeStructOrUnion sf pf p)
      \<and> \<not> freed sf pf (recoverEnums sf p)"
    using freed_identity by (metis recover_parts)
  with Cons recover_not_dangling [of p sf pf] show ?case
    by (auto simp: freed_def dangling_parts_def)
qed simp

lemma symbols_index_identity:
  "identity_of p = identity_of q \<Longrightarrow> hashListIndex symbolHash t p = hashListIndex symbolHash t q"
  by (simp add: hashListIndex_def symbolHash_def identity_of_def)

text \<open>C27: After stack memory or preprocessor memory has been given back, recovering the symbol table
  keeps exactly the symbols that are not in freed memory, in their order and their slots, and
  no symbol kept refers to freed members or enumerators.\<close>

theorem recover_keeps_live_symbols:
  assumes "symbols.wf_list table"
  shows "map (map identity_of) (hl_tab (recoverSymbolTableMemory stack mems table)) =
      map (\<lambda>es. map identity_of (filter (\<lambda>p. \<not> freed (isFreedStackMemory stack) (ppmIsFreedPointer mems) p) es))
        (hl_tab table)
    \<and> (\<forall>p\<in>set (concat (hl_tab (recoverSymbolTableMemory stack mems table))).
        \<not> freed (isFreedStackMemory stack) (ppmIsFreedPointer mems) p
        \<and> \<not> dangling_parts (isFreedStackMemory stack) (ppmIsFreedPointer mems) p)
    \<and> symbols.wf_list (recoverSymbolTableMemory stack mems table)"
proof (intro conjI)
  let ?sf = "isFreedStackMemory stack" and ?pf = "ppmIsFreedPointer mems"
  show "map (map identity_of) (hl_tab (recoverSymbolTableMemory stack mems table)) =
      map (\<lambda>es. map identity_of (filter (\<lambda>p. \<not> freed ?sf ?pf p) es)) (hl_tab table)"
    by (simp add: recoverSymbolTableMemory_def recover_list_identity)
  show "\<forall>p\<in>set (concat (hl_tab (recoverSymbolTableMemory stack mems table))).
      \<not> freed ?sf ?pf p \<and> \<not> dangling_parts ?sf ?pf p"
    using recover_list_safe [of ?sf ?pf] by (auto simp: recoverSymbolTableMemory_def)
  have "hashListIndex symbolHash table p = i"
    if i: "i < hl_size table" and p: "p \<in> set (recover_list ?sf ?pf (hl_tab table ! i))" for i p
  proof -
    from p have "identity_of p \<in> set (map identity_of (recover_list ?sf ?pf (hl_tab table ! i)))"
      by simp
    then obtain q where "q \<in> set (hl_tab table ! i)" "identity_of p = identity_of q"
      unfolding recover_list_identity by auto
    then show ?thesis
      using assms i symbols_index_identity [of p q table] by (simp add: symbols.wf_list_def)
  qed
  then show "symbols.wf_list (recoverSymbolTableMemory stack mems table)"
    using assms by (auto simp: symbols.wf_list_def recoverSymbolTableMemory_def)
qed

text \<open>Declarations in an inner block shadow: a symbol added to the table is the one found for its
  name and kind, other symbols are found as before, and deleting it restores the table.\<close>

theorem symbols_shadow:
  assumes "symbols.wf_list table"
  shows "symbolTableDelete (addSymbolToTable table a) a = table
    \<and> (equalSymbols a e \<longrightarrow>
        snd (snd (hashListIsMember symbolHash equalSymbols (addSymbolToTable table a) e))
          = a # getSymbol table (hashListIndex symbolHash table e))
    \<and> (\<not> equalSymbols a e \<longrightarrow>
        hashListIsMember symbolHash equalSymbols (addSymbolToTable table a) e
          = hashListIsMember symbolHash equalSymbols table e)
    \<and> symbols.wf_list (addSymbolToTable table a)"
proof -
  have add: "addSymbolToTable table a = hashListPush table a (hashListIndex symbolHash table a)"
    by (simp add: addSymbolToTable_def hashListIsMember_def Let_def)
  show ?thesis
    unfolding add
    using symbols.delete_push [OF assms symbols.equal_refl, of a] symbols.isMember_push [OF assms, of a e]
      symbols.isMember_push_other [OF assms, of a e] symbols.wf_list_push [OF assms, of a]
    by (auto simp: symbolTableDelete_def getSymbol_def)
qed

definition cell_of :: "int \<Rightarrow> string \<Rightarrow> symbolCell" where
  "cell_of a n = \<lparr>cell_address = a, cell_symbol = fillSymbol n n (Position 1 1 0), cell_members = None\<rparr>"

theorem symbols_shadow_witness:
  "symbolTableDelete (addSymbolToTable (initSymbolTable 5) (cell_of 8 ''i'')) (cell_of 8 ''i'') = initSymbolTable 5
   \<and> hashListIsMember symbolHash equalSymbols (addSymbolToTable (initSymbolTable 5) (cell_of 8 ''i'')) (cell_of 9 ''j'')
     = hashListIsMember symbolHash equalSymbols (initSymbolTable 5) (cell_of 9 ''j'')"
proof -
  have "symbols.wf_list (initSymbolTable 5)"
    unfolding initSymbolTable_def by (rule symbols.wf_list_init) simp
  from symbols_shadow [OF this, of "cell_of 8 ''i''" "cell_of 9 ''j''"] show ?thesis
    by (simp add: equalSymbols_def cell_of_def fillSymbol_def)
qed

theorem recover_keeps_live_symbols_witness:
  "symbols.wf_list (recoverSymbolTableMemory outermost ppm_example
     (addSymbolToTable (initSymbolTable 5) (cell_of 8 ''i'')))"
proof -
  have "symbols.wf_list (initSymbolTable 5)"
    unfolding initSymbolTable_def by (rule symbols.wf_list_init) simp
  then have "symbols.wf_list (addSymbolToTable (initSymbolTable 5) (cell_of 8 ''i''))"
    unfolding addSymbolToTable_def hashListIsMember_def Let_def
    by (simp add: symbols.wf_list_push)
  from recover_keeps_live_symbols [OF this] show ?thesis by blast
qed

end
