(* ===== verification/FileTable.thy ===== *)
theory FileTable
  imports FileNames References
begin

text \<open>
  Models \<^verbatim>\<open>filetable.c\<close>, an instance of the table with open addressing whose elements are
  found by their normalised names, and \<^verbatim>\<open>macroargumenttable.c\<close>, another one. The number of
  a file is its slot. The files on disk and in editor buffers are the parameter \<open>fs\<close>.
\<close>

record fileItem =
  fi_name :: string
  fi_lastModified :: timestamp
  fi_knowledgeTime :: timestamp
  fi_changeTime :: timestamp
  fi_letGoTime :: timestamp
  fi_needsBrowsingStackRefresh :: bool
  fi_isDeleted :: bool
  fi_scannedIncludes :: "nat list"
  fi_scanTime :: timestamp

record file_system =
  editorFileExists :: "string \<Rightarrow> bool"
  editorFileModificationTime :: "string \<Rightarrow> timestamp"

definition NO_FILE_NAME :: string where
  "NO_FILE_NAME = ''___None___''"

type_synonym file_table = "fileItem hashTab"

definition fillFileItem :: "string \<Rightarrow> fileItem" where
  "fillFileItem name =
     \<lparr>fi_name = name, fi_lastModified = nullTimestamp, fi_knowledgeTime = nullTimestamp,
      fi_changeTime = nullTimestamp, fi_letGoTime = nullTimestamp,
      fi_needsBrowsingStackRefresh = False, fi_isDeleted = False, fi_scannedIncludes = [],
      fi_scanTime = nullTimestamp\<rparr>"

definition newFileItem :: "string \<Rightarrow> fileItem" where
  "newFileItem normalizedFileName = fillFileItem normalizedFileName"

definition fileHash :: "fileItem \<Rightarrow> 32 word" where
  "fileHash element = hashFun (fi_name element)"

definition equalFileItems :: "fileItem \<Rightarrow> fileItem \<Rightarrow> bool" where
  "equalFileItems e1 e2 \<longleftrightarrow> strcmp (fi_name e1) (fi_name e2) = 0"

interpretation files: hash_elements fileHash equalFileItems
  unfolding fileHash_def equalFileItems_def by (rule hash_elements_name)

definition addFileItemToFileTable :: "file_table \<Rightarrow> fileItem \<Rightarrow> (nat \<times> file_table) option" where
  "addFileItemToFileTable table fileItem = hashTabAdd fileHash equalFileItems table fileItem"

definition getFileItemWithFileNumber :: "file_table \<Rightarrow> nat \<Rightarrow> fileItem option" where
  "getFileItemWithFileNumber table fileNumber =
     (if fileNumber < tab_size table then tab_tab table ! fileNumber else None)"

text \<open>Writing through the pointer to an item changes it in its slot.\<close>

definition update_item :: "file_table \<Rightarrow> nat \<Rightarrow> (fileItem \<Rightarrow> fileItem) \<Rightarrow> file_table option" where
  "update_item table fileNumber f =
     (case getFileItemWithFileNumber table fileNumber of
        None \<Rightarrow> None
      | Some item \<Rightarrow> Some (table\<lparr>tab_tab := (tab_tab table)[fileNumber := Some (f item)]\<rparr>))"

definition markFileAsDeleted ::
  "file_table \<Rightarrow> item_table \<Rightarrow> nat \<Rightarrow> (file_table \<times> item_table) option" where
  "markFileAsDeleted table itemTable fileNumber =
     (case update_item table fileNumber (\<lambda>item. item\<lparr>fi_isDeleted := True\<rparr>) of
        None \<Rightarrow> None
      | Some table' \<Rightarrow> Some (table', removeReferenceableItemsForFile itemTable (int fileNumber)))"

definition addScannedInclude :: "file_table \<Rightarrow> nat \<Rightarrow> nat \<Rightarrow> file_table option" where
  "addScannedInclude table includerFileNumber includedFileNumber =
     update_item table includerFileNumber
       (\<lambda>i. i\<lparr>fi_scannedIncludes := fi_scannedIncludes i @ [includedFileNumber]\<rparr>)"

definition startScanOf :: "file_table \<Rightarrow> nat \<Rightarrow> timestamp \<Rightarrow> file_table option" where
  "startScanOf table fileNumber scanTime =
     update_item table fileNumber (\<lambda>i. i\<lparr>fi_scannedIncludes := [], fi_scanTime := scanTime\<rparr>)"

function getNextExistingFileNumber :: "file_table \<Rightarrow> nat \<Rightarrow> int" where
  "getNextExistingFileNumber table i =
     (if i < tab_size table then
        (if tab_tab table ! i \<noteq> None then int i else getNextExistingFileNumber table (i + 1))
      else -1)"
  by pat_completeness auto
termination by (relation "measure (\<lambda>(table, i). tab_size table - i)") auto

declare getNextExistingFileNumber.simps [simp del]

text \<open>The table with the item for no file, and the number of that.\<close>

definition initFileTable :: "nat \<Rightarrow> (nat \<times> file_table) option" where
  "initFileTable sz =
     hashTabAdd fileHash equalFileItems (hashTabNoAllocInit sz) (newFileItem NO_FILE_NAME)"

partial_function (option) file_lookup_loop :: "file_table \<Rightarrow> string \<Rightarrow> nat \<Rightarrow> int option" where
  "file_lookup_loop table fileName posid =
     (case tab_tab table ! posid of
        None \<Rightarrow> Some (-1)
      | Some e \<Rightarrow>
          (if strcmp (fi_name e) fileName = 0 then Some (int posid)
           else file_lookup_loop table fileName ((posid + HASH_SHIFT) mod tab_size table)))"

definition fileTableLookup :: "file_table \<Rightarrow> string \<Rightarrow> int option" where
  "fileTableLookup table fileName =
     file_lookup_loop table fileName (unat (hashFun fileName) mod tab_size table)"

definition existsInFileTable :: "file_table \<Rightarrow> string \<Rightarrow> bool option" where
  "existsInFileTable table fileName = map_option (\<lambda>n. n \<noteq> -1) (fileTableLookup table fileName)"

definition updateFileModificationTracking ::
  "file_system \<Rightarrow> file_table \<Rightarrow> nat \<Rightarrow> file_table option" where
  "updateFileModificationTracking fs table fileNumber =
     update_item table fileNumber
       (\<lambda>i. if editorFileExists fs (fi_name i)
            then i\<lparr>fi_lastModified := editorFileModificationTime fs (fi_name i)\<rparr> else i)"

definition add_normalized :: "file_system \<Rightarrow> file_table \<Rightarrow> string \<Rightarrow> (nat \<times> file_table) option" where
  "add_normalized fs table normalizedFileName =
     (case fileTableLookup table normalizedFileName of
        None \<Rightarrow> None
      | Some n \<Rightarrow>
          (if n \<noteq> -1 then
             (case update_item table (nat n) (\<lambda>i. i\<lparr>fi_isDeleted := False\<rparr>) of
                None \<Rightarrow> None | Some table' \<Rightarrow> Some (nat n, table'))
           else
             (case hashTabAdd fileHash equalFileItems table (newFileItem normalizedFileName) of
                None \<Rightarrow> None
              | Some (fileNumber, table1) \<Rightarrow>
                  (case updateFileModificationTracking fs table1 fileNumber of
                     None \<Rightarrow> None | Some table2 \<Rightarrow> Some (fileNumber, table2)))))"

definition addFileNameToFileTable ::
  "bool \<Rightarrow> string \<Rightarrow> file_system \<Rightarrow> file_table \<Rightarrow> string \<Rightarrow> (nat \<times> file_table) option" where
  "addFileNameToFileTable fileNamesCaseSensitive cwd fs table fileName =
     (case normalizeFileName_static fileNamesCaseSensitive fileName cwd of
        None \<Rightarrow> None
      | Some normalizedFileName \<Rightarrow> add_normalized fs table normalizedFileName)"

definition getFileNumberFromFileName :: "file_table \<Rightarrow> string \<Rightarrow> int option" where
  "getFileNumberFromFileName table fileName = fileTableLookup table fileName"

definition mapOverFileTable :: "file_table \<Rightarrow> (fileItem \<Rightarrow> 's \<Rightarrow> 's) \<Rightarrow> 's \<Rightarrow> 's" where
  "mapOverFileTable table fn s = hashTabMap table fn s"

definition mapOverFileTableWithIndex :: "file_table \<Rightarrow> (fileItem \<Rightarrow> nat \<Rightarrow> 's \<Rightarrow> 's) \<Rightarrow> 's \<Rightarrow> 's" where
  "mapOverFileTableWithIndex table fn s = hashTabMapWithIndex table fn s"

definition mapOverFileTableWithPointer ::
  "file_table \<Rightarrow> (fileItem \<Rightarrow> 'p \<Rightarrow> 's \<Rightarrow> 's) \<Rightarrow> 'p \<Rightarrow> 's \<Rightarrow> 's" where
  "mapOverFileTableWithPointer table fn p s = hashTabMapWithPointer table fn p s"

section \<open>Macro arguments\<close>

record macroArgumentTableElement =
  ma_name :: string
  ma_linkName :: string
  ma_order :: int

definition MAX_MACRO_ARGS :: nat where
  "MAX_MACRO_ARGS = 500"

definition macroArgumentHash :: "macroArgumentTableElement \<Rightarrow> 32 word" where
  "macroArgumentHash element = hashFun (ma_name element)"

definition equalMacroArguments ::
  "macroArgumentTableElement \<Rightarrow> macroArgumentTableElement \<Rightarrow> bool" where
  "equalMacroArguments e1 e2 \<longleftrightarrow> strcmp (ma_name e1) (ma_name e2) = 0"

interpretation macroArguments: hash_elements macroArgumentHash equalMacroArguments
  unfolding macroArgumentHash_def equalMacroArguments_def by (rule hash_elements_name)

text \<open>The count asked for is ignored: the table always has room for \<open>MAX_MACRO_ARGS\<close>.\<close>

definition allocateMacroArgumentTable :: "nat \<Rightarrow> macroArgumentTableElement hashTab" where
  "allocateMacroArgumentTable n = hashTabNoAllocInit MAX_MACRO_ARGS"

definition resetMacroArgumentTable ::
  "macroArgumentTableElement hashTab \<Rightarrow> macroArgumentTableElement hashTab option" where
  "resetMacroArgumentTable table =
     (if tab_size table > 0 then Some (hashTabNoAllocInit (tab_size table)) else None)"

definition makeMacroArgumentTableElement :: "string \<Rightarrow> string \<Rightarrow> int \<Rightarrow> macroArgumentTableElement" where
  "makeMacroArgumentTableElement name linkName order =
     \<lparr>ma_name = name, ma_linkName = linkName, ma_order = order\<rparr>"

definition getMacroArgument ::
  "macroArgumentTableElement hashTab \<Rightarrow> nat \<Rightarrow> macroArgumentTableElement option" where
  "getMacroArgument table index = tab_tab table ! index"

definition addMacroArgument ::
  "macroArgumentTableElement hashTab \<Rightarrow> macroArgumentTableElement
    \<Rightarrow> (nat \<times> macroArgumentTableElement hashTab) option" where
  "addMacroArgument table element = hashTabAdd macroArgumentHash equalMacroArguments table element"

definition isMemberInMacroArguments ::
  "macroArgumentTableElement hashTab \<Rightarrow> macroArgumentTableElement \<Rightarrow> (bool \<times> nat) option" where
  "isMemberInMacroArguments table element =
     hashTabIsMember macroArgumentHash equalMacroArguments table element"

definition mapOverMacroArgumentsWithPointer ::
  "macroArgumentTableElement hashTab \<Rightarrow> (macroArgumentTableElement \<Rightarrow> 'p \<Rightarrow> 's \<Rightarrow> 's) \<Rightarrow> 'p \<Rightarrow> 's \<Rightarrow> 's" where
  "mapOverMacroArgumentsWithPointer table fn p s = hashTabMapWithPointer table fn p s"

section \<open>Looking up a name\<close>

text \<open>The lookup by name is the membership test on an item of that name.\<close>

lemma file_lookup_step:
  "passes equalFileItems table (newFileItem n) p \<Longrightarrow>
   file_lookup_loop table n p = file_lookup_loop table n ((p + HASH_SHIFT) mod tab_size table)"
  by (subst file_lookup_loop.simps)
    (auto simp: passes_def equalFileItems_def newFileItem_def fillFileItem_def)

lemma file_lookup_stop:
  "\<not> passes equalFileItems table (newFileItem n) p \<Longrightarrow>
   file_lookup_loop table n p = Some (if tab_tab table ! p \<noteq> None then int p else -1)"
  by (subst file_lookup_loop.simps)
    (auto simp: passes_def equalFileItems_def newFileItem_def fillFileItem_def split: option.splits)

lemma file_lookup_skip:
  "\<forall>j<k. passes equalFileItems table (newFileItem n) (probeSlot (tab_size table) h j) \<Longrightarrow>
   h < tab_size table \<Longrightarrow>
   file_lookup_loop table n h = file_lookup_loop table n (probeSlot (tab_size table) h k)"
proof (induction k)
  case (Suc k)
  then show ?case by (simp add: file_lookup_step probeSlot_Suc)
qed (simp add: probeSlot_0)

lemma fileTableLookup_isMember:
  assumes "files.wf_tab table"
  shows "\<exists>b p. hashTabIsMember fileHash equalFileItems table (newFileItem n) = Some (b, p)
    \<and> fileTableLookup table n = Some (if b then int p else -1)"
proof -
  let ?e = "newFileItem n" and ?h = "homeSlot fileHash table (newFileItem n)"
  have h: "unat (hashFun n) mod tab_size table = ?h"
    by (simp add: homeSlot_def fileHash_def newFileItem_def fillFileItem_def)
  obtain k where k: "\<forall>j<k. passes equalFileItems table ?e (probeSlot (tab_size table) ?h j)"
    "\<not> passes equalFileItems table ?e (probeSlot (tab_size table) ?h k)"
    "hashTabProbe equalFileItems table ?e ?h = Some (tab_tab table ! probeSlot (tab_size table) ?h k \<noteq> None,
       probeSlot (tab_size table) ?h k)"
    using files.probe_ends [OF assms] by blast
  have "fileTableLookup table n = file_lookup_loop table n (probeSlot (tab_size table) ?h k)"
    unfolding fileTableLookup_def h
    by (rule file_lookup_skip [OF k(1) files.homeSlot_less [OF assms]])
  then show ?thesis
    using k(3) file_lookup_stop [OF k(2)] by (simp add: hashTabIsMember_def)
qed

lemma fileTableLookup_present:
  assumes "files.wf_tab table" "getFileItemWithFileNumber table p = Some item"
  shows "fileTableLookup table (fi_name item) = Some (int p)"
proof -
  have "p < tab_size table" "tab_tab table ! p = Some item"
    using assms(2) by (auto simp: getFileItemWithFileNumber_def split: if_splits)
  moreover have "equalFileItems item (newFileItem (fi_name item))"
    by (simp add: equalFileItems_def newFileItem_def fillFileItem_def)
  ultimately have "hashTabIsMember fileHash equalFileItems table (newFileItem (fi_name item)) = Some (True, p)"
    by (rule files.isMember_present [OF assms(1)])
  then show ?thesis using fileTableLookup_isMember [OF assms(1), of "fi_name item"] by auto
qed

lemma update_item_SomeD:
  assumes "files.wf_tab table" "update_item table n f = Some table'"
    and "\<And>i. fi_name (f i) = fi_name i"
  shows "files.wf_tab table' \<and> tab_size table' = tab_size table
    \<and> (\<exists>item. getFileItemWithFileNumber table n = Some item
        \<and> getFileItemWithFileNumber table' n = Some (f item))
    \<and> (\<forall>m. m \<noteq> n \<longrightarrow> getFileItemWithFileNumber table' m = getFileItemWithFileNumber table m)"
proof -
  from assms(2) obtain item where i: "n < tab_size table" "tab_tab table ! n = Some item"
    and t: "table' = table\<lparr>tab_tab := (tab_tab table)[n := Some (f item)]\<rparr>"
    by (auto simp: update_item_def getFileItemWithFileNumber_def split: option.splits if_splits)
  have len: "length (tab_tab table) = tab_size table" using assms(1) by (simp add: files.wf_tab_def)
  have "equalFileItems item (f item)" using assms(3) by (simp add: equalFileItems_def)
  from files.wf_tab_replace [OF assms(1) i this] show ?thesis
    using i len by (auto simp: t getFileItemWithFileNumber_def)
qed

definition keeps_names :: "file_table \<Rightarrow> file_table \<Rightarrow> bool" where
  "keeps_names table table' \<longleftrightarrow>
     (\<forall>m item. getFileItemWithFileNumber table m = Some item \<longrightarrow>
        (\<exists>item'. getFileItemWithFileNumber table' m = Some item' \<and> fi_name item' = fi_name item))"

lemma update_item_keeps:
  assumes "files.wf_tab table" "update_item table n f = Some table'"
    and "\<And>i. fi_name (f i) = fi_name i"
  shows "keeps_names table table'"
  using update_item_SomeD [OF assms] assms(3) unfolding keeps_names_def by (metis option.inject)

lemma keeps_names_trans: "keeps_names a b \<Longrightarrow> keeps_names b c \<Longrightarrow> keeps_names a c"
  unfolding keeps_names_def by metis

lemma add_keeps:
  assumes "files.wf_tab table" "hashTabAdd fileHash equalFileItems table e = Some (n, table')"
  shows "keeps_names table table'"
  using files.add_SomeD [OF assms]
  by (auto simp: keeps_names_def getFileItemWithFileNumber_def split: if_splits)

lemma add_normalized_law:
  assumes "files.wf_tab table" "add_normalized fs table name = Some (n, table')"
  shows "files.wf_tab table' \<and> keeps_names table table'
    \<and> (\<exists>item. getFileItemWithFileNumber table' n = Some item \<and> fi_name item = name
         \<and> \<not> fi_isDeleted item)"
proof -
  obtain b p where m: "hashTabIsMember fileHash equalFileItems table (newFileItem name) = Some (b, p)"
    and l: "fileTableLookup table name = Some (if b then int p else -1)"
    using fileTableLookup_isMember [OF assms(1)] by blast
  have nm: "fi_name (newFileItem name) = name" by (simp add: newFileItem_def fillFileItem_def)
  show ?thesis
  proof (cases b)
    case True
    with m have f: "hashTabIsMember fileHash equalFileItems table (newFileItem name) = Some (True, p)"
      by simp
    from assms(2) l True have u: "update_item table p (\<lambda>i. i\<lparr>fi_isDeleted := False\<rparr>) = Some table'" "n = p"
      by (auto simp: add_normalized_def split: option.splits)
    from files.isMember_True [OF assms(1) f] nm obtain a
      where "getFileItemWithFileNumber table p = Some a" "fi_name a = name"
      by (auto simp: equalFileItems_def getFileItemWithFileNumber_def)
    then show ?thesis
      using update_item_SomeD [OF assms(1) u(1)] update_item_keeps [OF assms(1) u(1)] u(2) by auto
  next
    case False
    with assms(2) l obtain table1
      where a: "hashTabAdd fileHash equalFileItems table (newFileItem name) = Some (n, table1)"
        and u: "updateFileModificationTracking fs table1 n = Some table'"
      by (auto simp: add_normalized_def split: option.splits)
    from files.add_SomeD [OF assms(1) a] have w1: "files.wf_tab table1" by blast
    have nf: "\<not> b" by (rule False)
    have new: "\<forall>a. Some a \<in> set (tab_tab table) \<longrightarrow> \<not> equalFileItems a (newFileItem name)"
      using files.isMember_iff [OF assms(1), of "newFileItem name"] m nf by auto
    have "tab_tab table1 ! n = Some (newFileItem name)" "n < tab_size table1"
    proof -
      have room: "(tab_numberOfElements table + 1) * 9 div 8 < int (tab_size table)"
        using files.add_overflow [OF assms(1) new] a by (metis option.distinct(1))
      have "length (tab_tab table) = tab_size table" using assms(1) by (simp add: files.wf_tab_def)
      then show "tab_tab table1 ! n = Some (newFileItem name)" "n < tab_size table1"
        using files.add_absent [OF assms(1) new room] a by auto
    qed
    then have "getFileItemWithFileNumber table1 n = Some (newFileItem name)"
      by (simp add: getFileItemWithFileNumber_def)
    moreover have "\<not> fi_isDeleted (newFileItem name)" by (simp add: newFileItem_def fillFileItem_def)
    ultimately show ?thesis
      using update_item_SomeD [OF w1 u [unfolded updateFileModificationTracking_def]]
        update_item_keeps [OF w1 u [unfolded updateFileModificationTracking_def]]
        keeps_names_trans [OF add_keeps [OF assms(1) a]] nm by auto
  qed
qed

lemma add_normalized_again:
  assumes "files.wf_tab table" "getFileItemWithFileNumber table n = Some item" "\<not> fi_isDeleted item"
  shows "add_normalized fs table (fi_name item) = Some (n, table)"
proof -
  have "item\<lparr>fi_isDeleted := False\<rparr> = item" using assms(3) by simp
  moreover have "n < tab_size table" "tab_tab table ! n = Some item"
    using assms(2) by (auto simp: getFileItemWithFileNumber_def split: if_splits)
  ultimately have "update_item table n (\<lambda>i. i\<lparr>fi_isDeleted := False\<rparr>) = Some table"
    using assms(2) list_update_id [of "tab_tab table" n] by (simp add: update_item_def)
  then show ?thesis
    using fileTableLookup_present [OF assms(1,2)] by (simp add: add_normalized_def)
qed

text \<open>C25: File numbers are stable. Adding a file name gives the number of an item with the
  normalised name that is not marked deleted; the lookup of that name finds it, every number in
  use before still stands for the same name, and adding the name again changes nothing.\<close>

theorem file_numbers_stable:
  assumes "files.wf_tab table"
    and "addFileNameToFileTable cs cwd fs table fileName = Some (n, table')"
  shows "files.wf_tab table' \<and> keeps_names table table'
    \<and> (\<exists>item. getFileItemWithFileNumber table' n = Some item \<and> \<not> fi_isDeleted item
         \<and> normalizeFileName_static cs fileName cwd = Some (fi_name item)
         \<and> fileTableLookup table' (fi_name item) = Some (int n))
    \<and> addFileNameToFileTable cs cwd fs table' fileName = Some (n, table')"
proof -
  from assms(2) obtain name where n: "normalizeFileName_static cs fileName cwd = Some name"
    and a: "add_normalized fs table name = Some (n, table')"
    by (auto simp: addFileNameToFileTable_def split: option.splits)
  from add_normalized_law [OF assms(1) a] obtain item where
    l: "files.wf_tab table'" "keeps_names table table'"
      "getFileItemWithFileNumber table' n = Some item" "fi_name item = name" "\<not> fi_isDeleted item"
    by blast
  from add_normalized_again [OF l(1,3,5), of fs] fileTableLookup_present [OF l(1,3)] n l
  show ?thesis by (auto simp: addFileNameToFileTable_def)
qed

definition example_fs :: file_system where
  "example_fs = \<lparr>editorFileExists = (\<lambda>_. True), editorFileModificationTime = (\<lambda>_. Timestamp 7 0)\<rparr>"

definition example_file_table :: file_table where
  "example_file_table = hashTabNoAllocInit 7"

lemma example_file_table_wf: "files.wf_tab example_file_table"
  unfolding example_file_table_def
  by (rule files.wf_tab_init) (simp_all add: HASH_SHIFT_def coprime_iff_gcd_eq_1 gcd_non_0_nat)

theorem file_numbers_stable_witness:
  "\<exists>n table'. addFileNameToFileTable True ''/src'' example_fs example_file_table ''./a.c'' = Some (n, table')
     \<and> fileTableLookup table' ''/src/a.c'' = Some (int n)"
proof -
  have norm: "normalizeFileName_static True ''./a.c'' ''/src'' = Some ''/src/a.c''"
    by code_simp
  have "hashTabIsMember fileHash equalFileItems example_file_table (newFileItem ''/src/a.c'')
      = Some (False, homeSlot fileHash example_file_table (newFileItem ''/src/a.c''))"
    unfolding hashTabIsMember_def
    by (subst hashTabProbe.simps) (simp add: example_file_table_def hashTabNoAllocInit_def homeSlot_def)
  then have l: "fileTableLookup example_file_table ''/src/a.c'' = Some (-1)"
    using fileTableLookup_isMember [OF example_file_table_wf, of "''/src/a.c''"] by auto
  have "\<forall>a. Some a \<in> set (tab_tab example_file_table) \<longrightarrow> \<not> equalFileItems a (newFileItem ''/src/a.c'')"
    "(tab_numberOfElements example_file_table + 1) * 9 div 8 < int (tab_size example_file_table)"
    by (auto simp: example_file_table_def hashTabNoAllocInit_def)
  from files.add_absent [OF example_file_table_wf this] obtain n table1
    where a: "hashTabAdd fileHash equalFileItems example_file_table (newFileItem ''/src/a.c'') = Some (n, table1)"
      "n < tab_size table1" "files.wf_tab table1"
    by (auto simp: example_file_table_def)
  with files.add_SomeD [OF example_file_table_wf a(1)] obtain e where "tab_tab table1 ! n = Some e" by blast
  with a(2) obtain table2 where "updateFileModificationTracking example_fs table1 n = Some table2"
    by (auto simp: updateFileModificationTracking_def update_item_def getFileItemWithFileNumber_def)
  with a(1) l norm have r: "addFileNameToFileTable True ''/src'' example_fs example_file_table ''./a.c'' = Some (n, table2)"
    by (simp add: addFileNameToFileTable_def add_normalized_def)
  from file_numbers_stable [OF example_file_table_wf r] norm
  have "fileTableLookup table2 ''/src/a.c'' = Some (int n)" by auto
  with r show ?thesis by blast
qed

end
