(* ===== verification/CharReader.thy ===== *)
theory CharReader
  imports Prelude
begin

text \<open>
  Models \<^verbatim>\<open>characterreader.c\<close>: characters are read through a window in memory, refilled
  from a file when it is used up. \<open>cb_chars\<close> is the address of the array of the buffer;
  \<open>nextUnread\<close> and \<open>end\<close> may as well point into the text of an editor buffer. A file is the
  list of its bytes not yet read. A character is a signed \<^verbatim>\<open>char\<close>, so byte 255 is read as
  \<open>EOF\<close>. What the readers rely on is the locale \<open>char_source\<close>.
\<close>

record characterBuffer =
  cb_nextUnread :: int
  cb_end :: int
  cb_chars :: int
  cb_mem :: memory_area
  cb_file :: "int list option"
  cb_filePos :: int
  cb_fileNumber :: int
  cb_lineNumber :: int
  cb_lineBegin :: int
  cb_columnOffset :: int
  cb_isAtEOF :: bool

definition EOF :: int where "EOF = -1"

definition CHARACTER_BUFFER_SIZE :: int where "CHARACTER_BUFFER_SIZE = 1024"

definition MAX_UNGET_CHARS :: int where "MAX_UNGET_CHARS = 20"

definition fillCharacterBuffer ::
  "characterBuffer \<Rightarrow> int \<Rightarrow> int \<Rightarrow> int list option \<Rightarrow> int \<Rightarrow> int \<Rightarrow> int \<Rightarrow> characterBuffer" where
  "fillCharacterBuffer cb next end file filePos fileNumber lineBegin =
     cb\<lparr>cb_nextUnread := next, cb_end := end, cb_file := file, cb_filePos := filePos,
        cb_fileNumber := fileNumber, cb_lineNumber := 0, cb_lineBegin := lineBegin,
        cb_columnOffset := 0, cb_isAtEOF := False\<rparr>"

definition initCharacterBufferFromFile :: "characterBuffer \<Rightarrow> int list option \<Rightarrow> characterBuffer" where
  "initCharacterBufferFromFile cb file =
     fillCharacterBuffer cb (cb_chars cb) (cb_chars cb) file 0 (-1) (cb_chars cb)"

definition initCharacterBufferFromString :: "characterBuffer \<Rightarrow> int list \<Rightarrow> characterBuffer" where
  "initCharacterBufferFromString cb string =
     (let cb1 = cb\<lparr>cb_mem := store_bytes (cb_mem cb) (cb_chars cb) (string @ [0])\<rparr>;
          cb2 = fillCharacterBuffer cb1 (cb_chars cb) (cb_chars cb) None 0 0 (cb_chars cb)
      in cb2\<lparr>cb_end := cb_chars cb + int (length string)\<rparr>)"

definition fileNumberFrom :: "characterBuffer \<Rightarrow> int" where
  "fileNumberFrom cb = cb_fileNumber cb"

definition lineNumberFrom :: "characterBuffer \<Rightarrow> int" where
  "lineNumberFrom cb = cb_lineNumber cb"

text \<open>A negative size becomes a huge one in the call of \<open>fread\<close>.\<close>

definition readFromFileToBuffer ::
  "characterBuffer \<Rightarrow> int \<Rightarrow> int \<Rightarrow> int \<times> characterBuffer" where
  "readFromFileToBuffer cb outBuffer max_size =
     (case cb_file cb of
        None \<Rightarrow> (0, cb)
      | Some bytes \<Rightarrow>
          (let n = (if max_size < 0 then length bytes else nat max_size);
               got = take n bytes
           in (int (length got),
               cb\<lparr>cb_mem := store_bytes (cb_mem cb) outBuffer got, cb_file := Some (drop n bytes)\<rparr>)))"

function copy_loop :: "memory_area \<Rightarrow> int \<Rightarrow> int \<Rightarrow> int \<Rightarrow> memory_area \<times> int" where
  "copy_loop m cp next end =
     (if next < end then copy_loop (m(cp := m next)) (cp + 1) (next + 1) end else (m, cp))"
  by pat_completeness auto
termination by (relation "measure (\<lambda>(m, cp, next, end). nat (end - next))") auto

declare copy_loop.simps [simp del]

definition refillBuffer :: "characterBuffer \<Rightarrow> bool \<times> characterBuffer" where
  "refillBuffer buffer =
     (let (m, cp) = copy_loop (cb_mem buffer) (cb_chars buffer + MAX_UNGET_CHARS)
                      (cb_nextUnread buffer) (cb_end buffer);
          max_size = CHARACTER_BUFFER_SIZE - (cp - cb_chars buffer);
          (charactersRead, b1) = readFromFileToBuffer (buffer\<lparr>cb_mem := m\<rparr>) cp max_size;
          b2 = (if charactersRead > 0
                then b1\<lparr>cb_filePos := cb_filePos b1 + charactersRead, cb_end := cp + charactersRead,
                        cb_nextUnread := cb_chars b1 + MAX_UNGET_CHARS\<rparr>
                else b1)
      in (cb_nextUnread b2 \<noteq> cb_end b2, b2))"

text \<open>Seeking needs a file; \<open>None\<close> is the crash without one.\<close>

definition skipCharacters :: "characterBuffer \<Rightarrow> int \<Rightarrow> characterBuffer option" where
  "skipCharacters buffer n =
     (if cb_nextUnread buffer + n < cb_end buffer
      then Some (buffer\<lparr>cb_nextUnread := cb_nextUnread buffer + n\<rparr>)
      else
        (let skip = n - (cb_end buffer - cb_nextUnread buffer) in
         case cb_file buffer of
           None \<Rightarrow> None
         | Some bytes \<Rightarrow>
             (let b1 = buffer\<lparr>cb_file := Some (drop (nat skip) bytes), cb_filePos := cb_filePos buffer + skip\<rparr>;
                  dd = cb_chars b1 + MAX_UNGET_CHARS;
                  max_size = CHARACTER_BUFFER_SIZE - (dd - cb_chars b1);
                  (got, b2) = readFromFileToBuffer b1 dd max_size
              in Some (b2\<lparr>cb_filePos := cb_filePos b2 + got, cb_end := dd + got,
                          cb_nextUnread := cb_chars b2 + MAX_UNGET_CHARS\<rparr>))))"

definition columnPosition :: "characterBuffer \<Rightarrow> int" where
  "columnPosition cb = cb_nextUnread cb - cb_lineBegin cb + cb_columnOffset cb - 1"

definition fileOffsetFor :: "characterBuffer \<Rightarrow> int" where
  "fileOffsetFor cb = cb_filePos cb - (cb_end cb - cb_nextUnread cb) - 1"

definition getChar :: "characterBuffer \<Rightarrow> int \<times> characterBuffer" where
  "getChar cb =
     (let (more, cb1) = (if cb_nextUnread cb < cb_end cb then (True, cb)
                         else if cb_isAtEOF cb then (False, cb)
                         else refillBuffer cb)
      in if \<not> more then (EOF, cb1\<lparr>cb_isAtEOF := True\<rparr>)
         else (cb_mem cb1 (cb_nextUnread cb1), cb1\<lparr>cb_nextUnread := cb_nextUnread cb1 + 1\<rparr>))"

definition ungetChar :: "characterBuffer \<Rightarrow> int \<Rightarrow> characterBuffer" where
  "ungetChar cb ch =
     cb\<lparr>cb_nextUnread := cb_nextUnread cb - 1,
        cb_mem := store_char (cb_mem cb) (cb_nextUnread cb - 1) ch\<rparr>"

partial_function (option) skipBlanks :: "characterBuffer \<Rightarrow> int \<Rightarrow> (int \<times> characterBuffer) option" where
  "skipBlanks cb ch =
     (if ch = 32 \<or> ch = 9 \<or> ch = 4 then skipBlanks (snd (getChar cb)) (fst (getChar cb))
      else Some (ch, cb))"

partial_function (option) skipWhiteSpace :: "characterBuffer \<Rightarrow> int \<Rightarrow> (int \<times> characterBuffer) option" where
  "skipWhiteSpace cb ch =
     (if ch = 32 \<or> ch = 10 \<or> ch = 9 then skipWhiteSpace (snd (getChar cb)) (fst (getChar cb))
      else Some (ch, cb))"

text \<open>The string without its terminating zero; at the end of the file it is filled with \<open>EOF\<close>.\<close>

fun getString :: "characterBuffer \<Rightarrow> nat \<Rightarrow> int list \<times> characterBuffer" where
  "getString cb 0 = ([], cb)"
| "getString cb (Suc n) =
     (let (ch, cb1) = getChar cb; (rest, cb2) = getString cb1 n in (to_char ch # rest, cb2))"

section \<open>A source of characters\<close>

text \<open>
  What the readers rely on: \<open>get\<close> takes the first character of the contents and gives \<open>EOF\<close> from
  then on when there is none; \<open>unget\<close> puts one back.
\<close>

locale char_source =
  fixes get :: "'s \<Rightarrow> int \<times> 's" and unget :: "'s \<Rightarrow> int \<Rightarrow> 's"
    and contents :: "'s \<Rightarrow> int list" and ok :: "'s \<Rightarrow> bool"
  assumes get_Nil: "ok s \<Longrightarrow> contents s = [] \<Longrightarrow> fst (get s) = -1 \<and> contents (snd (get s)) = [] \<and> ok (snd (get s))"
    and get_Cons: "ok s \<Longrightarrow> contents s = c # cs \<Longrightarrow> fst (get s) = c \<and> contents (snd (get s)) = cs \<and> ok (snd (get s))"
    and unget_law: "ok s \<Longrightarrow> ok (unget s c) \<and> contents (unget s c) = to_char c # contents s"
begin

definition take_next :: "int list \<Rightarrow> int" where
  "take_next cs = (case cs of [] \<Rightarrow> -1 | c # _ \<Rightarrow> c)"

lemma get_law: "ok s \<Longrightarrow> fst (get s) = take_next (contents s) \<and> contents (snd (get s)) = tl (contents s) \<and> ok (snd (get s))"
  using get_Nil [of s] get_Cons [of s] by (cases "contents s") (auto simp: take_next_def)

lemma get_unget: "ok s \<Longrightarrow> -128 \<le> c \<Longrightarrow> c < 128 \<Longrightarrow>
    fst (get (unget s c)) = c \<and> contents (snd (get (unget s c))) = contents s"
  using get_Cons [of "unget s c" "to_char c" "contents s"] unget_law [of s c] by (simp add: to_char_id)

fun gets :: "nat \<Rightarrow> 's \<Rightarrow> int list \<times> 's" where
  "gets 0 s = ([], s)"
| "gets (Suc n) s = (let (c, s1) = get s; (cs, s2) = gets n s1 in (c # cs, s2))"

lemma gets_law:
  "ok s \<Longrightarrow> n \<le> length (contents s) \<Longrightarrow>
     fst (gets n s) = take n (contents s) \<and> contents (snd (gets n s)) = drop n (contents s) \<and> ok (snd (gets n s))"
proof (induction n arbitrary: s)
  case (Suc n)
  from Suc.prems obtain c cs where c: "contents s = c # cs" by (cases "contents s") auto
  from get_Cons [OF Suc.prems(1) c] Suc.IH [of "snd (get s)"] Suc.prems c
  show ?case by (simp add: case_prod_beta Let_def)
qed simp

text \<open>
  Reading on while a predicate holds, folding the characters into a value; the character read
  last is part of the state of the loop.
\<close>

lemma fold_while:
  assumes step: "\<And>s c v. loop s c v = (if P c then loop (snd (get s)) (fst (get s)) (f c v) else Some (c, v, s))"
    and eof: "\<not> P (-1)" and ok: "ok s"
  shows "\<exists>s'. loop s c v =
      Some (take_next (dropWhile P (c # contents s)), fold f (takeWhile P (c # contents s)) v, s')
    \<and> contents s' = tl (dropWhile P (c # contents s)) \<and> ok s'"
  using ok
proof (induction "contents s" arbitrary: s c v)
  case Nil
  from get_Nil [OF Nil.prems] Nil(1) have g: "fst (get s) = -1" "contents (snd (get s)) = []" "ok (snd (get s))"
    by auto
  have "loop (snd (get s)) (-1) w = Some (-1, w, snd (get s))" for w
    using step [of "snd (get s)" "-1" w] eof by simp
  then show ?case using step [of s c v] g Nil by (auto simp: take_next_def)
next
  case (Cons x xs)
  from get_Cons [OF Cons.prems, of x xs] Cons(2) have g: "fst (get s) = x" "contents (snd (get s)) = xs" "ok (snd (get s))"
    by auto
  from Cons(1) [OF g(2) [symmetric] g(3), of x "f c v"] g
  show ?case using step [of s c v] Cons by (cases "P c") (auto simp: take_next_def)
qed

lemma skip_while:
  assumes "\<And>s c. loop s c = (if P c then loop (snd (get s)) (fst (get s)) else Some (c, s))"
    and "\<not> P (-1)" and "ok s"
  shows "\<exists>s'. loop s c = Some (take_next (dropWhile P (c # contents s)), s')
    \<and> contents s' = tl (dropWhile P (c # contents s)) \<and> ok s'"
proof -
  let ?loop = "\<lambda>s c (v :: unit). map_option (\<lambda>(c, s). (c, v, s)) (loop s c)"
  have "?loop s c v = (if P c then ?loop (snd (get s)) (fst (get s)) v else Some (c, v, s))" for s c v
    using assms(1) [of s c] by simp
  from fold_while [where loop = ?loop and P = P and f = "\<lambda>_ v. v" and c = c and v = "()",
      OF this assms(2,3)] show ?thesis by auto
qed

end

text \<open>The characters between the pointers, then those of the file.\<close>

definition unread :: "characterBuffer \<Rightarrow> int list" where
  "unread cb = map (cb_mem cb) [cb_nextUnread cb..cb_end cb - 1]"

definition contents :: "characterBuffer \<Rightarrow> int list" where
  "contents cb = unread cb @ (case cb_file cb of None \<Rightarrow> [] | Some bytes \<Rightarrow> map to_char bytes)"

definition reader_ok :: "characterBuffer \<Rightarrow> bool" where
  "reader_ok cb \<longleftrightarrow> cb_nextUnread cb \<le> cb_end cb
     \<and> (cb_isAtEOF cb \<longrightarrow> cb_file cb = None \<or> cb_file cb = Some [])"

lemma unread_none: "cb_end cb \<le> cb_nextUnread cb \<Longrightarrow> unread cb = []"
  by (simp add: unread_def)

lemma unread_some:
  "cb_nextUnread cb < cb_end cb \<Longrightarrow>
   unread cb = cb_mem cb (cb_nextUnread cb) # map (cb_mem cb) [cb_nextUnread cb + 1..cb_end cb - 1]"
  by (simp add: unread_def upto_rec1)

lemma refill_empty:
  assumes "cb_nextUnread cb = cb_end cb"
  shows "refillBuffer cb =
    (case cb_file cb of
       None \<Rightarrow> (False, cb)
     | Some [] \<Rightarrow> (False, cb)
     | Some bytes \<Rightarrow>
         (True, cb\<lparr>cb_mem := store_bytes (cb_mem cb) (cb_chars cb + 20) (take 1004 bytes),
                   cb_file := Some (drop 1004 bytes),
                   cb_filePos := cb_filePos cb + int (length (take 1004 bytes)),
                   cb_end := cb_chars cb + 20 + int (length (take 1004 bytes)),
                   cb_nextUnread := cb_chars cb + 20\<rparr>))"
  using assms
  by (cases cb)
    (auto simp: refillBuffer_def copy_loop.simps readFromFileToBuffer_def MAX_UNGET_CHARS_def
      CHARACTER_BUFFER_SIZE_def Let_def split: option.splits list.splits)

text \<open>One character read: its effect on what is left, on the offset, and on the line.\<close>

definition same_line :: "characterBuffer \<Rightarrow> characterBuffer \<Rightarrow> bool" where
  "same_line cb cb' \<longleftrightarrow>
     cb_fileNumber cb' = cb_fileNumber cb \<and> cb_lineNumber cb' = cb_lineNumber cb
     \<and> cb_lineBegin cb' = cb_lineBegin cb \<and> cb_columnOffset cb' = cb_columnOffset cb"

lemma getChar_law:
  assumes "reader_ok cb"
  shows "case contents cb of
      [] \<Rightarrow> fst (getChar cb) = -1 \<and> contents (snd (getChar cb)) = []
            \<and> fileOffsetFor (snd (getChar cb)) = fileOffsetFor cb
    | c # cs \<Rightarrow> fst (getChar cb) = c \<and> contents (snd (getChar cb)) = cs
            \<and> fileOffsetFor (snd (getChar cb)) = fileOffsetFor cb + 1"
    and "reader_ok (snd (getChar cb))" "same_line cb (snd (getChar cb))"
proof -
  have le: "cb_nextUnread cb \<le> cb_end cb" using assms by (simp add: reader_ok_def)
  have "(case contents cb of
      [] \<Rightarrow> fst (getChar cb) = -1 \<and> contents (snd (getChar cb)) = []
            \<and> fileOffsetFor (snd (getChar cb)) = fileOffsetFor cb
    | c # cs \<Rightarrow> fst (getChar cb) = c \<and> contents (snd (getChar cb)) = cs
            \<and> fileOffsetFor (snd (getChar cb)) = fileOffsetFor cb + 1)
    \<and> reader_ok (snd (getChar cb)) \<and> same_line cb (snd (getChar cb))"
  proof (cases "cb_nextUnread cb < cb_end cb")
    case True
    let ?rest = "map (cb_mem cb) [cb_nextUnread cb + 1..cb_end cb - 1]
      @ (case cb_file cb of None \<Rightarrow> [] | Some bytes \<Rightarrow> map to_char bytes)"
    have c: "contents cb = cb_mem cb (cb_nextUnread cb) # ?rest"
      using True by (simp add: contents_def unread_some)
    have g: "getChar cb = (cb_mem cb (cb_nextUnread cb), cb\<lparr>cb_nextUnread := cb_nextUnread cb + 1\<rparr>)"
      using True by (simp add: getChar_def)
    show ?thesis
      unfolding c g using assms True
      by (simp add: contents_def unread_def reader_ok_def same_line_def fileOffsetFor_def)
  next
    case False
    then have eq: "cb_nextUnread cb = cb_end cb" using le by simp
    show ?thesis
    proof (cases "cb_isAtEOF cb \<or> cb_file cb = None \<or> cb_file cb = Some []")
      case True
      then have "cb_file cb = None \<or> cb_file cb = Some []" using assms by (auto simp: reader_ok_def)
      then show ?thesis
        using eq assms
        by (auto simp: getChar_def refill_empty contents_def unread_none reader_ok_def same_line_def
            fileOffsetFor_def EOF_def unread_def)
    next
      case F: False
      then obtain b bs where f: "cb_file cb = Some (b # bs)" "\<not> cb_isAtEOF cb"
        by (cases "cb_file cb"; cases "the (cb_file cb)") auto
      define M where "M = store_bytes (cb_mem cb) (cb_chars cb + 20) (b # take 1003 bs)"
      have m0: "M (cb_chars cb + 20) = to_char b"
        using store_bytes_at [of 0 "b # take 1003 bs" "cb_mem cb" "cb_chars cb + 20"] by (simp add: M_def)
      have "map M [cb_chars cb + 20..cb_chars cb + 20 + int (length (b # take 1003 bs)) - 1]
          = map to_char (b # take 1003 bs)" unfolding M_def by (rule map_store_bytes)
      then have m: "map M [cb_chars cb + 21..cb_chars cb + 20 + int (length (take 1003 bs))]
          = map to_char (take 1003 bs)"
        by (subst (asm) upto_rec1) (simp_all add: algebra_simps)
      have c: "contents cb = to_char b # map to_char bs"
        using eq f by (simp add: contents_def unread_none)
      define cb' where "cb' = cb\<lparr>cb_mem := M, cb_file := Some (drop 1003 bs),
        cb_filePos := cb_filePos cb + int (length (b # take 1003 bs)),
        cb_end := cb_chars cb + 20 + int (length (b # take 1003 bs)),
        cb_nextUnread := cb_chars cb + 20 + 1\<rparr>"
      have g: "getChar cb = (to_char b, cb')"
        using eq f m0
        by (simp add: getChar_def refill_empty cb'_def M_def del: store_bytes.simps)
      have "contents cb' = map to_char (take 1003 bs) @ map to_char (drop 1003 bs)"
        using m by (simp add: cb'_def contents_def unread_def algebra_simps)
      also have "... = map to_char bs" by (simp flip: map_append)
      finally show ?thesis
        unfolding c g using f eq
        by (simp add: reader_ok_def same_line_def fileOffsetFor_def cb'_def)
    qed
  qed
  then show "case contents cb of
      [] \<Rightarrow> fst (getChar cb) = -1 \<and> contents (snd (getChar cb)) = []
            \<and> fileOffsetFor (snd (getChar cb)) = fileOffsetFor cb
    | c # cs \<Rightarrow> fst (getChar cb) = c \<and> contents (snd (getChar cb)) = cs
            \<and> fileOffsetFor (snd (getChar cb)) = fileOffsetFor cb + 1"
    and "reader_ok (snd (getChar cb))" "same_line cb (snd (getChar cb))"
    by blast+
qed

lemma contents_unget:
  "reader_ok cb \<Longrightarrow> reader_ok (ungetChar cb c) \<and> contents (ungetChar cb c) = to_char c # contents cb
     \<and> same_line cb (ungetChar cb c) \<and> fileOffsetFor (ungetChar cb c) = fileOffsetFor cb - 1"
  by (auto simp: reader_ok_def contents_def ungetChar_def unread_def store_char_def upto_rec1
      same_line_def fileOffsetFor_def)

interpretation reader: char_source getChar ungetChar contents reader_ok
proof
  fix cb c cs
  assume ok: "reader_ok cb"
  show "contents cb = [] \<Longrightarrow>
      fst (getChar cb) = -1 \<and> contents (snd (getChar cb)) = [] \<and> reader_ok (snd (getChar cb))"
    using getChar_law [OF ok] by simp
  show "contents cb = c # cs \<Longrightarrow>
      fst (getChar cb) = c \<and> contents (snd (getChar cb)) = cs \<and> reader_ok (snd (getChar cb))"
    using getChar_law [OF ok] by simp
  show "reader_ok (ungetChar cb c) \<and> contents (ungetChar cb c) = to_char c # contents cb"
    using contents_unget [OF ok] by blast
qed

lemma gets_offset:
  "reader_ok cb \<Longrightarrow> n \<le> length (contents cb) \<Longrightarrow>
   fileOffsetFor (snd (reader.gets n cb)) = fileOffsetFor cb + int n"
proof (induction n arbitrary: cb)
  case (Suc n)
  then obtain c cs where c: "contents cb = c # cs" by (cases "contents cb") auto
  from getChar_law [OF Suc.prems(1)] c Suc.IH [of "snd (getChar cb)"] Suc.prems(2)
  show ?case by (simp add: case_prod_beta Let_def)
qed simp

lemma init_from_file:
  "reader_ok (initCharacterBufferFromFile cb file)"
  "contents (initCharacterBufferFromFile cb file) = (case file of None \<Rightarrow> [] | Some bs \<Rightarrow> map to_char bs)"
  "fileOffsetFor (initCharacterBufferFromFile cb file) = -1"
  by (simp_all add: initCharacterBufferFromFile_def fillCharacterBuffer_def reader_ok_def
      contents_def unread_def fileOffsetFor_def)

lemma init_from_string:
  "reader_ok (initCharacterBufferFromString cb s)"
  "contents (initCharacterBufferFromString cb s) = map to_char s"
  "cb_lineNumber (initCharacterBufferFromString cb s) = 0"
proof -
  let ?m = "store_bytes (cb_mem cb) (cb_chars cb) (s @ [0])"
  show "reader_ok (initCharacterBufferFromString cb s)"
    "cb_lineNumber (initCharacterBufferFromString cb s) = 0"
    by (simp_all add: initCharacterBufferFromString_def fillCharacterBuffer_def Let_def reader_ok_def)
  have "map ?m [cb_chars cb..cb_chars cb + int (length s) - 1] = map to_char s"
  proof (rule nth_equalityI)
    fix i assume "i < length (map ?m [cb_chars cb..cb_chars cb + int (length s) - 1])"
    then have "i < length s" by simp
    then show "map ?m [cb_chars cb..cb_chars cb + int (length s) - 1] ! i = map to_char s ! i"
      using store_bytes_at [of i "s @ [0]" "cb_mem cb" "cb_chars cb"] by (simp add: nth_append)
  qed simp
  then show "contents (initCharacterBufferFromString cb s) = map to_char s"
    by (simp add: initCharacterBufferFromString_def fillCharacterBuffer_def Let_def contents_def unread_def)
qed

section \<open>Properties\<close>

text \<open>C29: Reading a file character by character gives its bytes in order, however often the buffer
  is refilled in between; the file offset is that of the character read last; after the last
  byte every read gives \<open>EOF\<close>.\<close>

theorem reading_a_file:
  assumes "n \<le> length bytes"
  shows "fst (reader.gets n (initCharacterBufferFromFile cb (Some bytes))) = map to_char (take n bytes)
    \<and> fileOffsetFor (snd (reader.gets n (initCharacterBufferFromFile cb (Some bytes)))) = int n - 1
    \<and> fst (getChar (snd (reader.gets (length bytes) (initCharacterBufferFromFile cb (Some bytes))))) = EOF"
proof -
  let ?cb = "initCharacterBufferFromFile cb (Some bytes)"
  have c: "contents ?cb = map to_char bytes" by (simp add: init_from_file)
  have a: "fst (reader.gets n ?cb) = map to_char (take n bytes)"
    using reader.gets_law [of ?cb n] assms c by (simp add: init_from_file take_map)
  have o: "fileOffsetFor (snd (reader.gets n ?cb)) = int n - 1"
    using gets_offset [of ?cb n] assms c by (simp add: init_from_file)
  have "contents (snd (reader.gets (length bytes) ?cb)) = []" "reader_ok (snd (reader.gets (length bytes) ?cb))"
    using reader.gets_law [of ?cb "length bytes"] c by (simp_all add: init_from_file)
  then have "fst (getChar (snd (reader.gets (length bytes) ?cb))) = EOF"
    using getChar_law(1) by (fastforce simp: EOF_def)
  with a o show ?thesis by blast
qed

definition example_buffer :: characterBuffer where
  "example_buffer = \<lparr>cb_nextUnread = 0, cb_end = 0, cb_chars = 0, cb_mem = (\<lambda>_. 0), cb_file = None,
     cb_filePos = 0, cb_fileNumber = 1, cb_lineNumber = 1, cb_lineBegin = 0, cb_columnOffset = 0,
     cb_isAtEOF = False\<rparr>"

theorem reading_a_file_witness:
  "fst (reader.gets 2 (initCharacterBufferFromFile example_buffer (Some [65, 66, 10]))) = [65, 66]"
  using reading_a_file [of 2 "[65, 66, 10]" example_buffer] by (simp add: to_char_def)

text \<open>Skipping characters of a file is reading on from that many characters later, whether they
  are in the buffer or have to be sought over in the file.\<close>

theorem skipCharacters_drops:
  assumes "reader_ok cb" "cb_file cb = Some bytes" "0 \<le> n"
  shows "\<exists>cb'. skipCharacters cb n = Some cb' \<and> reader_ok cb'
    \<and> contents cb' = drop (nat n) (contents cb)"
proof (cases "cb_nextUnread cb + n < cb_end cb")
  case True
  have "[cb_nextUnread cb..cb_end cb - 1] =
      [cb_nextUnread cb..cb_nextUnread cb + n - 1] @ [cb_nextUnread cb + n..cb_end cb - 1]"
    using True assms(3) by (intro upto_split1) auto
  then have "drop (nat n) (unread cb) = map (cb_mem cb) [cb_nextUnread cb + n..cb_end cb - 1]"
    using assms(3) by (simp add: unread_def)
  moreover have "nat n \<le> length (unread cb)" using True assms(3) by (simp add: unread_def)
  ultimately show ?thesis
    using True assms by (auto simp: skipCharacters_def contents_def unread_def reader_ok_def)
next
  case False
  let ?skip = "n - (cb_end cb - cb_nextUnread cb)"
  let ?rest = "drop (nat ?skip) bytes"
  have u: "length (unread cb) = nat (cb_end cb - cb_nextUnread cb)" by (simp add: unread_def)
  have le: "cb_nextUnread cb \<le> cb_end cb" using assms(1) by (simp add: reader_ok_def)
  have d: "drop (nat n) (contents cb) = map to_char ?rest"
    using False u le assms(2,3) by (simp add: contents_def drop_map nat_diff_distrib)
  have "map to_char (take 1004 ?rest) @ map to_char (drop (1004 + nat ?skip) bytes) = map to_char ?rest"
    by (metis append_take_drop_id drop_drop map_append)
  moreover have "map (store_bytes m p (take 1004 ?rest)) [p..p + int (length (take 1004 ?rest)) - 1]
      = map to_char (take 1004 ?rest)" for m p
    by (rule map_store_bytes)
  note this [of "cb_mem cb" "cb_chars cb + 20"]
  ultimately show ?thesis
    using False assms d
    by (auto simp: skipCharacters_def readFromFileToBuffer_def CHARACTER_BUFFER_SIZE_def
        MAX_UNGET_CHARS_def Let_def contents_def unread_def reader_ok_def algebra_simps)
qed

theorem skipCharacters_drops_witness:
  "\<exists>cb'. skipCharacters (initCharacterBufferFromFile example_buffer (Some [65, 66, 67])) 2 = Some cb'
     \<and> contents cb' = [67]"
proof -
  let ?cb = "initCharacterBufferFromFile example_buffer (Some [65, 66, 67])"
  have "reader_ok ?cb" "contents ?cb = [65, 66, 67]"
    by (simp_all add: init_from_file to_char_def)
  moreover have "cb_file ?cb = Some [65, 66, 67]"
    by (simp add: initCharacterBufferFromFile_def fillCharacterBuffer_def)
  ultimately show ?thesis using skipCharacters_drops [of ?cb "[65, 66, 67]" 2] by auto
qed

end
