(* ===== verification/Encoding.thy ===== *)
theory Encoding
  imports Prelude
begin

text \<open>
  Models \<^verbatim>\<open>encoding.c\<close>: the text of an editor buffer is rewritten in place so that every
  character is one byte. The text is the list of its bytes as \<^verbatim>\<open>unsigned char\<close>; the pointers
  \<open>s\<close>, \<open>d\<close> and \<open>max\<close> (\<open>limit\<close> here) are indices into it. That reading and writing the same array does not
  disturb the reading is part of what is proved: the loop refines a function on lists.
\<close>

fun continuation_loop :: "int list \<Rightarrow> nat \<Rightarrow> nat \<Rightarrow> nat \<Rightarrow> nat \<Rightarrow> bool" where
  "continuation_loop bytes src i 0 limit = True"
| "continuation_loop bytes src i (Suc n) limit =
     (if src + i \<ge> limit \<or> and (bytes ! (src + i)) 0xC0 \<noteq> 0x80 then False
      else continuation_loop bytes src (i + 1) n limit)"

definition hasContinuationBytes :: "int list \<Rightarrow> nat \<Rightarrow> nat \<Rightarrow> nat \<Rightarrow> bool" where
  "hasContinuationBytes bytes src n limit = continuation_loop bytes src 1 n limit"

definition convertUtf8 :: "int list \<Rightarrow> nat \<Rightarrow> nat \<Rightarrow> nat \<Rightarrow> bool \<times> nat \<times> int list" where
  "convertUtf8 bytes s d limit =
     (if and (bytes ! s) 0x80 \<noteq> 0 then
        (let z = bytes ! s;
             continuationBytes = (if z \<ge> 0xC2 \<and> z \<le> 0xDF then 1
                                  else if z \<ge> 0xE0 \<and> z \<le> 0xEF then 2
                                  else if z \<ge> 0xF0 \<and> z \<le> 0xF4 then 3 else 0);
             s' = (if hasContinuationBytes bytes s continuationBytes limit then s + continuationBytes else s)
         in (True, s', bytes[d := 32]))
      else (False, s, bytes))"

function adjust_loop :: "int list \<Rightarrow> nat \<Rightarrow> nat \<Rightarrow> nat \<Rightarrow> int list \<times> nat" where
  "adjust_loop bytes s d limit =
     (if s < limit then
        (case convertUtf8 bytes s d limit of
           (True, s', bytes') \<Rightarrow> adjust_loop bytes' (s' + 1) (d + 1) limit
         | (False, _, _) \<Rightarrow>
             (if bytes ! s = 13 then
                (let s' = (if s + 1 < limit \<and> bytes ! (s + 1) = 10 then s + 1 else s)
                 in adjust_loop (bytes[d := 10]) (s' + 1) (d + 1) limit)
              else adjust_loop (bytes[d := bytes ! s]) (s + 1) (d + 1) limit))
      else (bytes, d))"
  by pat_completeness auto
termination
  by (relation "measure (\<lambda>(bytes, s, d, limit). limit - s)")
    (auto simp: convertUtf8_def Let_def split: if_splits)

declare adjust_loop.simps [simp del]

text \<open>The new text of the buffer: its size becomes the number of bytes written.\<close>

definition performEncodingAdjustments :: "int list \<Rightarrow> int list" where
  "performEncodingAdjustments bytes =
     (let (bytes', d) = adjust_loop bytes 0 0 (length bytes) in take d bytes')"

section \<open>The adjustment as a function on lists\<close>

definition is_continuation :: "int \<Rightarrow> bool" where
  "is_continuation b \<longleftrightarrow> and b 0xC0 = 0x80"

definition continuation_count :: "int \<Rightarrow> nat" where
  "continuation_count z =
     (if z \<ge> 0xC2 \<and> z \<le> 0xDF then 1 else if z \<ge> 0xE0 \<and> z \<le> 0xEF then 2
      else if z \<ge> 0xF0 \<and> z \<le> 0xF4 then 3 else 0)"

definition has_continuation :: "nat \<Rightarrow> int list \<Rightarrow> bool" where
  "has_continuation n bs \<longleftrightarrow> n \<le> length bs \<and> (\<forall>b\<in>set (take n bs). is_continuation b)"

function adjusted :: "int list \<Rightarrow> int list" where
  "adjusted [] = []"
| "adjusted (b # bs) =
     (if and b 0x80 \<noteq> 0 then
        32 # adjusted (if has_continuation (continuation_count b) bs then drop (continuation_count b) bs else bs)
      else if b = 13 then 10 # adjusted (if bs \<noteq> [] \<and> hd bs = 10 then tl bs else bs)
      else b # adjusted bs)"
  by pat_completeness auto
termination by (relation "measure length") auto

lemma continuation_loop_iff:
  "limit \<le> length bytes \<Longrightarrow>
   continuation_loop bytes src i n limit \<longleftrightarrow> has_continuation n (drop (src + i) (take limit bytes))"
proof (induction n arbitrary: i)
  case (Suc n)
  show ?case
  proof (cases "src + i < limit")
    case True
    then have "drop (src + i) (take limit bytes) = bytes ! (src + i) # drop (src + (i + 1)) (take limit bytes)"
      using Suc.prems by (simp flip: Cons_nth_drop_Suc)
    then show ?thesis
      using True Suc by (auto simp: has_continuation_def is_continuation_def)
  next
    case False
    then show ?thesis by (simp add: has_continuation_def)
  qed
qed (simp add: has_continuation_def)

lemma adjust_loop_adjusted:
  "d \<le> s \<Longrightarrow> s \<le> length bytes \<Longrightarrow>
   take (snd (adjust_loop bytes s d (length bytes))) (fst (adjust_loop bytes s d (length bytes)))
     = take d bytes @ adjusted (drop s bytes)
   \<and> snd (adjust_loop bytes s d (length bytes)) \<le> length bytes"
proof (induction "length bytes - s" arbitrary: bytes s d rule: less_induct)
  case less
  show ?case
  proof (cases "s < length bytes")
    case False
    then show ?thesis using less.prems by (simp add: adjust_loop.simps)
  next
    case True
    let ?b = "bytes ! s" and ?bs = "drop (s + 1) bytes"
    have d: "drop s bytes = ?b # ?bs" using True by (simp flip: Cons_nth_drop_Suc)
    have dl: "d < length bytes" using True less.prems by simp
    have IH: "take (snd (adjust_loop (bytes[d := x]) s' (d + 1) (length bytes)))
          (fst (adjust_loop (bytes[d := x]) s' (d + 1) (length bytes)))
        = take d bytes @ x # adjusted (drop s' bytes)
      \<and> snd (adjust_loop (bytes[d := x]) s' (d + 1) (length bytes)) \<le> length bytes"
      if "s < s'" "s' \<le> length bytes" for x s'
    proof -
      have "length (bytes[d := x]) - s' < length bytes - s" using that by simp
      moreover have "d + 1 \<le> s'" using that less.prems by simp
      moreover have "take (d + 1) (bytes[d := x]) = take d bytes @ [x]"
        using dl by (simp add: take_Suc_conv_app_nth)
      moreover have "drop s' (bytes[d := x]) = drop s' bytes" using that less.prems by simp
      ultimately show ?thesis
        using less.hyps [of "bytes[d := x]" s' "d + 1"] that by simp
    qed
    show ?thesis
    proof (cases "and ?b 0x80 \<noteq> 0")
      case high: True
      let ?n = "continuation_count ?b"
      let ?s' = "if has_continuation ?n ?bs then s + ?n else s"
      have c: "convertUtf8 bytes s d (length bytes) = (True, ?s', bytes[d := 32])"
        using high continuation_loop_iff [of "length bytes" bytes s 1 ?n]
        by (simp add: convertUtf8_def hasContinuationBytes_def continuation_count_def Let_def)
      have le: "?s' + 1 \<le> length bytes" using True by (auto simp: has_continuation_def)
      have "drop (?s' + 1) bytes = (if has_continuation ?n ?bs then drop ?n ?bs else ?bs)"
        by (simp add: add.commute add.left_commute)
      then show ?thesis
        using IH [OF _ le, of 32] True high d
        by (subst (1 2 3) adjust_loop.simps) (simp add: c)
    next
      case low: False
      then have c: "convertUtf8 bytes s d (length bytes) = (False, s, bytes)"
        by (simp add: convertUtf8_def)
      show ?thesis
      proof (cases "?b = 13")
        case cr: True
        let ?s' = "if s + 1 < length bytes \<and> bytes ! (s + 1) = 10 then s + 1 else s"
        have "drop (?s' + 1) bytes = (if ?bs \<noteq> [] \<and> hd ?bs = 10 then tl ?bs else ?bs)"
        proof (cases "s + 1 < length bytes")
          case True
          then have "?bs = bytes ! (s + 1) # drop (s + 2) bytes"
            using Cons_nth_drop_Suc [of "s + 1" bytes] by simp
          then show ?thesis using True by simp
        qed simp
        then show ?thesis
          using IH [of "?s' + 1" 10] True low cr d
          by (subst (1 2 3) adjust_loop.simps) (simp add: c Let_def)
      next
        case False
        then show ?thesis
          using IH [of "s + 1" ?b] True low d
          by (subst (1 2 3) adjust_loop.simps) (simp add: c)
      qed
    qed
  qed
qed

lemma performEncodingAdjustments_adjusted: "performEncodingAdjustments bytes = adjusted bytes"
  using adjust_loop_adjusted [of 0 0 bytes]
  by (simp add: performEncodingAdjustments_def case_prod_beta)

section \<open>Properties\<close>

lemma and_double: "and x (2 * y) = 2 * and (x div 2) y" for x y :: int
  by (subst and_int_rec) simp

lemma and_high_bit: "0 \<le> b \<Longrightarrow> b < 256 \<Longrightarrow> and b 0x80 \<noteq> 0 \<longleftrightarrow> 128 \<le> b" for b :: int
proof -
  have "and b 0x80 = 128 * and (b div 128) 1"
    using and_double [of b 64] and_double [of "b div 2" 32] and_double [of "b div 4" 16]
      and_double [of "b div 8" 8] and_double [of "b div 16" 4] and_double [of "b div 32" 2]
      and_double [of "b div 64" 1]
    by (simp flip: zdiv_zmult2_eq)
  moreover assume "0 \<le> b" "b < 256"
  then have "b div 128 = (if 128 \<le> b then 1 else 0)" by auto
  ultimately show ?thesis by simp
qed

lemma is_continuation_iff: "0 \<le> b \<Longrightarrow> b < 256 \<Longrightarrow> is_continuation b \<longleftrightarrow> 128 \<le> b \<and> b < 192"
proof -
  have "and b 0xC0 = 64 * and (b div 64) 3"
    using and_double [of b 96] and_double [of "b div 2" 48] and_double [of "b div 4" 24]
      and_double [of "b div 8" 12] and_double [of "b div 16" 6] and_double [of "b div 32" 3]
    by (simp flip: zdiv_zmult2_eq)
  moreover assume b: "0 \<le> b" "b < 256"
  then have "b div 64 = 0 \<or> b div 64 = 1 \<or> b div 64 = 2 \<or> b div 64 = 3"
  proof -
    have "0 \<le> b div 64" "b div 64 < 4" using b by auto
    then show ?thesis by linarith
  qed
  moreover have "b div 64 = 2 \<longleftrightarrow> 128 \<le> b \<and> b < 192" using b by auto
  ultimately show ?thesis by (auto simp: is_continuation_def)
qed

definition byte :: "int \<Rightarrow> bool" where
  "byte b \<longleftrightarrow> 0 \<le> b \<and> b < 256"

lemma set_drop_byte: "\<forall>b\<in>set bs. byte b \<Longrightarrow> \<forall>b\<in>set (drop n bs). byte b"
  by (auto dest: in_set_dropD)

lemma adjusted_range:
  "\<forall>b\<in>set bs. byte b \<Longrightarrow> \<forall>b\<in>set (adjusted bs). 0 \<le> b \<and> b < 128 \<and> b \<noteq> 13"
proof (induction bs rule: adjusted.induct)
  case (2 b bs)
  then have b: "0 \<le> b" "b < 256" and bs: "\<forall>x\<in>set bs. byte x" by (simp_all add: byte_def)
  show ?case
  proof (cases "and b 0x80 \<noteq> 0")
    case True
    let ?r = "if has_continuation (continuation_count b) bs then drop (continuation_count b) bs else bs"
    have "\<forall>x\<in>set ?r. byte x" using bs by (auto dest: in_set_dropD)
    from 2(1) [OF True this] show ?thesis using True by simp
  next
    case low: False
    show ?thesis
    proof (cases "b = 13")
      case True
      let ?r = "if bs \<noteq> [] \<and> hd bs = 10 then tl bs else bs"
      have "\<forall>x\<in>set ?r. byte x" using bs by (auto dest: list.set_sel(2))
      from 2(2) [OF low True this] show ?thesis using low True by simp
    next
      case False
      from 2(3) [OF low False bs] show ?thesis using low False b and_high_bit [OF b] by simp
    qed
  qed
qed simp

lemma length_adjusted: "length (adjusted bs) \<le> length bs"
proof (induction bs rule: adjusted.induct)
  case (2 b bs)
  then show ?case by (auto intro: le_trans)
qed simp

lemma adjusted_plain: "\<forall>b\<in>set bs. 0 \<le> b \<and> b < 128 \<and> b \<noteq> 13 \<Longrightarrow> adjusted bs = bs"
proof (induction bs)
  case (Cons b bs)
  then show ?case using and_high_bit [of b] by auto
qed simp

text \<open>The UTF-8 encoding of a character.\<close>

definition utf8 :: "int \<Rightarrow> int list" where
  "utf8 c =
     (if c < 0x80 then [c]
      else if c < 0x800 then [0xC0 + c div 64, 0x80 + c mod 64]
      else if c < 0x10000 then [0xE0 + c div 4096, 0x80 + c div 64 mod 64, 0x80 + c mod 64]
      else [0xF0 + c div 262144, 0x80 + c div 4096 mod 64, 0x80 + c div 64 mod 64, 0x80 + c mod 64])"

lemma adjusted_utf8:
  assumes "0 \<le> c" "c < 0x110000" "c \<noteq> 13"
  shows "adjusted (utf8 c @ rest) = (if c < 0x80 then c else 32) # adjusted rest"
proof -
  have cont: "is_continuation (0x80 + x mod 64)" for x :: int
  proof -
    have "0 \<le> x mod 64" "x mod 64 < 64" by simp_all
    then show ?thesis using is_continuation_iff [of "0x80 + x mod 64"] by linarith
  qed
  have lead: "and z 0x80 \<noteq> 0" if "128 \<le> z" "z < 256" for z :: int
    using and_high_bit [of z] that by simp
  consider "c < 0x80" | "0x80 \<le> c" "c < 0x800" | "0x800 \<le> c" "c < 0x10000" | "0x10000 \<le> c"
    by linarith
  then show ?thesis
  proof cases
    case 1
    then show ?thesis using assms and_high_bit [of c] by (simp add: utf8_def)
  next
    case 2
    have d: "2 \<le> c div 64" "c div 64 < 32" using 2 by auto
    then have "continuation_count (0xC0 + c div 64) = 1" by (simp add: continuation_count_def)
    then show ?thesis
      using 2 d lead [of "0xC0 + c div 64"] cont [of c] by (simp add: utf8_def has_continuation_def)
  next
    case 3
    have d: "0 \<le> c div 4096" "c div 4096 < 16" using 3 by auto
    then have "continuation_count (0xE0 + c div 4096) = 2" by (simp add: continuation_count_def)
    then show ?thesis
      using 3 d lead [of "0xE0 + c div 4096"] cont [of c] cont [of "c div 64"]
      by (simp add: utf8_def has_continuation_def numeral_2_eq_2)
  next
    case 4
    have d: "0 \<le> c div 262144" "c div 262144 < 5" using 4 assms by auto
    then have "continuation_count (0xF0 + c div 262144) = 3" by (simp add: continuation_count_def)
    then show ?thesis
      using 4 d lead [of "0xF0 + c div 262144"] cont [of c] cont [of "c div 64"] cont [of "c div 4096"]
      by (simp add: utf8_def has_continuation_def numeral_3_eq_3)
  qed
qed

text \<open>After the adjustment a text of UTF-8 characters has one byte for every character: a
  multibyte character is a space and every other character is itself, so that byte offsets are
  the character offsets an editor counts.\<close>

theorem encoding_counts_characters:
  assumes "\<forall>c\<in>set chars. 0 \<le> c \<and> c < 0x110000 \<and> c \<noteq> 13"
  shows "performEncodingAdjustments (concat (map utf8 chars))
      = map (\<lambda>c. if c < 0x80 then c else 32) chars"
  unfolding performEncodingAdjustments_adjusted
  using assms by (induction chars) (simp_all add: adjusted_utf8)

theorem encoding_counts_characters_witness:
  "performEncodingAdjustments (concat (map utf8 [0x61, 0xE5, 0x20AC, 0x1F600, 10]))
   = [0x61, 32, 32, 32, 10]"
  using encoding_counts_characters [of "[0x61, 0xE5, 0x20AC, 0x1F600, 10]"] by simp

text \<open>Whatever bytes a buffer holds, the adjustment leaves plain characters without carriage
  returns, never lengthens the text, and adjusting again changes nothing.\<close>

theorem encoding_plain_and_idempotent:
  assumes "\<forall>b\<in>set bs. byte b"
  shows "(\<forall>b\<in>set (performEncodingAdjustments bs). 0 \<le> b \<and> b < 128 \<and> b \<noteq> 13)
    \<and> length (performEncodingAdjustments bs) \<le> length bs
    \<and> performEncodingAdjustments (performEncodingAdjustments bs) = performEncodingAdjustments bs"
  unfolding performEncodingAdjustments_adjusted
  using adjusted_range [OF assms] length_adjusted adjusted_plain by blast

theorem encoding_plain_and_idempotent_witness:
  "performEncodingAdjustments (performEncodingAdjustments [0xE5, 13, 10, 13, 0xC3])
   = performEncodingAdjustments [0xE5, 13, 10, 13, 0xC3]"
  using encoding_plain_and_idempotent [of "[0xE5, 13, 10, 13, 0xC3]"] by (simp add: byte_def)

end
