(* ===== verification/LexemBuffer.thy ===== *)
theory LexemBuffer
  imports Position FileNames CharReader
begin

text \<open>
  Models \<^verbatim>\<open>lexembuffer.c\<close>: the buffer in which the lexer passes lexems to the parser as a
  stream of bytes. The functions that take the address of a pointer work on a memory and an
  address here and return both; those on a buffer work on the addresses of its stream, which
  starts at address 0. That what is put is got back is the locale \<open>lexem_codec\<close>.
\<close>

section \<open>Lexem codes\<close>

type_synonym lexemCode = int

definition IDENTIFIER :: lexemCode where "IDENTIFIER = 361"
definition CONSTANT :: lexemCode where "CONSTANT = 362"
definition LONG_CONSTANT :: lexemCode where "LONG_CONSTANT = 363"
definition DOUBLE_CONSTANT :: lexemCode where "DOUBLE_CONSTANT = 365"
definition STRING_LITERAL :: lexemCode where "STRING_LITERAL = 366"
definition CHAR_LITERAL :: lexemCode where "CHAR_LITERAL = 367"
definition LINE_TOKEN :: lexemCode where "LINE_TOKEN = 368"
definition IDENT_TO_COMPLETE :: lexemCode where "IDENT_TO_COMPLETE = 369"

section \<open>Sizes\<close>

definition LEXEMCODE_SIZE :: int where "LEXEMCODE_SIZE = 2"
definition MAX_LEXEM_SIZE :: int where "MAX_LEXEM_SIZE = 1000"
definition LEXEM_BUFFER_SIZE :: int where "LEXEM_BUFFER_SIZE = 1024 + MAX_LEXEM_SIZE"
definition MAX_FILES :: int where "MAX_FILES = 50000"

section \<open>Elementary values\<close>

text \<open>The assertions end the process: \<^const>\<open>None\<close>.\<close>

definition putLexShortAndAdvance :: "memory_area \<Rightarrow> int \<Rightarrow> int \<Rightarrow> (memory_area \<times> int) option" where
  "putLexShortAndAdvance m p shortValue =
     (if \<not> shortValue \<le> 65535 then None
      else Some (store_char (store_char m p (to_unsigned shortValue mod 256))
                   (p + 1) (to_unsigned shortValue div 256), p + 2))"

definition getLexShortAndAdvance :: "memory_area \<Rightarrow> int \<Rightarrow> int \<times> int" where
  "getLexShortAndAdvance m p = (load_uchar m p + 256 * load_uchar m (p + 1), p + 2)"

definition peekLexShort :: "memory_area \<Rightarrow> int \<Rightarrow> int" where
  "peekLexShort m p = (let first = load_uchar m p; second = load_uchar m (p + 1) in first + 256 * second)"

definition putLexemIntAndAdvance :: "memory_area \<Rightarrow> int \<Rightarrow> int \<Rightarrow> memory_area \<times> int" where
  "putLexemIntAndAdvance m p value =
     (let t0 = to_unsigned value; m1 = store_char m p (t0 mod 256);
          t1 = t0 div 256; m2 = store_char m1 (p + 1) (t1 mod 256);
          t2 = t1 div 256; m3 = store_char m2 (p + 2) (t2 mod 256);
          t3 = t2 div 256; m4 = store_char m3 (p + 3) (t3 mod 256)
      in (m4, p + 4))"

definition getLexemIntAndAdvance :: "memory_area \<Rightarrow> int \<Rightarrow> int \<times> int" where
  "getLexemIntAndAdvance m p =
     (to_int (to_unsigned (load_uchar m p + 256 * load_uchar m (p + 1)
        + 256 * 256 * load_uchar m (p + 2) + 256 * 256 * 256 * load_uchar m (p + 3))), p + 4)"

definition putLexCompactedAndAdvance :: "memory_area \<Rightarrow> int \<Rightarrow> int \<Rightarrow> (memory_area \<times> int) option" where
  "putLexCompactedAndAdvance m p v =
     (let value = to_unsigned v in
      if \<not> value < 4194304 then None
      else if value < 128 then Some (store_char m p value, p + 1)
      else if value < 16384 then
        Some (store_char (store_char m p (value mod 128 + 128)) (p + 1) (value div 128), p + 2)
      else
        Some (store_char (store_char (store_char m p (value mod 128 + 128))
                (p + 1) (value div 128 mod 128 + 128)) (p + 2) (value div 16384), p + 3))"

definition getLexCompactedAndAdvance :: "memory_area \<Rightarrow> int \<Rightarrow> int \<times> int" where
  "getLexCompactedAndAdvance m p =
     (let value = load_uchar m p in
      if value \<ge> 128 then
        (let secondPart = load_uchar m (p + 1) in
         if secondPart < 128 then (value - 128 + 128 * secondPart, p + 2)
         else (let thirdPart = load_uchar m (p + 2)
               in (value - 128 + 128 * (secondPart - 128) + 16384 * thirdPart, p + 3)))
      else (value, p + 1))"

definition getLexemCodeAndAdvance :: "memory_area \<Rightarrow> int \<Rightarrow> lexemCode \<times> int" where
  "getLexemCodeAndAdvance m p = getLexShortAndAdvance m p"

definition peekLexemCodeAt :: "memory_area \<Rightarrow> int \<Rightarrow> lexemCode" where
  "peekLexemCodeAt m p = peekLexShort m p"

definition putLexemCodeAndAdvance :: "memory_area \<Rightarrow> int \<Rightarrow> lexemCode \<Rightarrow> (memory_area \<times> int) option" where
  "putLexemCodeAndAdvance m p lexem = putLexShortAndAdvance m p lexem"

definition putLexemPositionAndAdvance :: "memory_area \<Rightarrow> int \<Rightarrow> position \<Rightarrow> (memory_area \<times> int) option" where
  "putLexemPositionAndAdvance m p position = do {
     (m1, p1) \<leftarrow> putLexCompactedAndAdvance m p (pos_file position);
     (m2, p2) \<leftarrow> putLexCompactedAndAdvance m1 p1 (pos_line position);
     putLexCompactedAndAdvance m2 p2 (pos_col position)
   }"

definition getLexemPositionAndAdvance :: "memory_area \<Rightarrow> int \<Rightarrow> position \<times> int" where
  "getLexemPositionAndAdvance m p =
     (let (f, p1) = getLexCompactedAndAdvance m p;
          (l, p2) = getLexCompactedAndAdvance m p1;
          (c, p3) = getLexCompactedAndAdvance m p2
      in (Position f l c, p3))"

definition peekLexemPositionAt :: "memory_area \<Rightarrow> int \<Rightarrow> position" where
  "peekLexemPositionAt m p = fst (getLexemPositionAndAdvance m p)"

section \<open>The buffer\<close>

record lexemBuffer =
  lb_begin :: int
  lb_read :: int
  lb_write :: int
  lb_stream :: memory_area
  lb_position :: position
  lb_fileOffset :: int
  lb_backpatchPointer :: int

definition initLexemBuffer :: "lexemBuffer \<Rightarrow> lexemBuffer" where
  "initLexemBuffer buffer = buffer\<lparr>lb_read := 0, lb_begin := 0, lb_write := 0\<rparr>"

definition shiftAnyRemainingLexems :: "lexemBuffer \<Rightarrow> lexemBuffer" where
  "shiftAnyRemainingLexems lb =
     (let remaining = lb_write lb - lb_read lb;
          (m, dest) = copy_loop (lb_stream lb) 0 (lb_read lb) (lb_read lb + remaining)
      in lb\<lparr>lb_stream := m, lb_read := 0, lb_write := remaining\<rparr>)"

definition getLexemStreamWrite :: "lexemBuffer \<Rightarrow> int" where
  "getLexemStreamWrite lb = lb_write lb"

definition putLexemChar :: "lexemBuffer \<Rightarrow> int \<Rightarrow> lexemBuffer" where
  "putLexemChar lb ch = lb\<lparr>lb_stream := store_char (lb_stream lb) (lb_write lb) ch, lb_write := lb_write lb + 1\<rparr>"

definition putLexemInt :: "lexemBuffer \<Rightarrow> int \<Rightarrow> lexemBuffer" where
  "putLexemInt lb value =
     (let (m, p) = putLexemIntAndAdvance (lb_stream lb) (lb_write lb) value
      in lb\<lparr>lb_stream := m, lb_write := p\<rparr>)"

definition getLexemCode :: "lexemBuffer \<Rightarrow> lexemCode \<times> lexemBuffer" where
  "getLexemCode lb =
     (let (c, p) = getLexShortAndAdvance (lb_stream lb) (lb_read lb) in (c, lb\<lparr>lb_read := p\<rparr>))"

definition getLexemPosition :: "lexemBuffer \<Rightarrow> position \<times> lexemBuffer" where
  "getLexemPosition lb =
     (let (pos, p) = getLexemPositionAndAdvance (lb_stream lb) (lb_read lb) in (pos, lb\<lparr>lb_read := p\<rparr>))"

definition backpatchLexemCodeAndAdvance :: "memory_area \<Rightarrow> lexemCode \<Rightarrow> int \<Rightarrow> memory_area option" where
  "backpatchLexemCodeAndAdvance m lexem writePointer =
     map_option fst (putLexShortAndAdvance m writePointer lexem)"

definition saveBackpatchPosition :: "lexemBuffer \<Rightarrow> lexemBuffer" where
  "saveBackpatchPosition lb = lb\<lparr>lb_backpatchPointer := lb_write lb\<rparr>"

definition backpatchLexemCode :: "lexemBuffer \<Rightarrow> lexemCode \<Rightarrow> lexemBuffer option" where
  "backpatchLexemCode lb lexem = do {
     (m, p) \<leftarrow> putLexemCodeAndAdvance (lb_stream lb) (lb_backpatchPointer lb) lexem;
     Some (lb\<lparr>lb_stream := m, lb_backpatchPointer := p\<rparr>)
   }"

definition moveLexemStreamWriteToBackpatchPositonWithOffset :: "lexemBuffer \<Rightarrow> int \<Rightarrow> lexemBuffer" where
  "moveLexemStreamWriteToBackpatchPositonWithOffset lb offset =
     lb\<lparr>lb_write := lb_backpatchPointer lb + offset\<rparr>"

partial_function (option) c_strlen :: "memory_area \<Rightarrow> int \<Rightarrow> int \<Rightarrow> int option" where
  "c_strlen m p n = (if m p = 0 then Some n else c_strlen m (p + 1) (n + 1))"

definition strlenOfBackpatchedIdentifier :: "lexemBuffer \<Rightarrow> int option" where
  "strlenOfBackpatchedIdentifier lb =
     (if peekLexemCodeAt (lb_stream lb) (lb_backpatchPointer lb) \<noteq> IDENTIFIER then None
      else c_strlen (lb_stream lb) (lb_backpatchPointer lb + LEXEMCODE_SIZE) 0)"

section \<open>Complete lexems\<close>

definition putLexemCode :: "lexemBuffer \<Rightarrow> lexemCode \<Rightarrow> lexemBuffer option" where
  "putLexemCode lb lexem = do {
     (m, p) \<leftarrow> putLexShortAndAdvance (lb_stream lb) (lb_write lb) lexem;
     Some (lb\<lparr>lb_stream := m, lb_write := p\<rparr>)
   }"

definition putLexemLines :: "lexemBuffer \<Rightarrow> int \<Rightarrow> lexemBuffer option" where
  "putLexemLines lb lines = do { lb1 \<leftarrow> putLexemCode lb LINE_TOKEN; Some (putLexemInt lb1 lines) }"

definition putLexemPosition :: "lexemBuffer \<Rightarrow> position \<Rightarrow> lexemBuffer option" where
  "putLexemPosition lb position =
     (if \<not> (pos_file position \<ge> 0 \<and> pos_file position < MAX_FILES) then None
      else do {
        (m, p) \<leftarrow> putLexemPositionAndAdvance (lb_stream lb) (lb_write lb) position;
        Some (lb\<lparr>lb_stream := m, lb_write := p\<rparr>)
      })"

definition putLexemPositionFields :: "lexemBuffer \<Rightarrow> int \<Rightarrow> int \<Rightarrow> int \<Rightarrow> lexemBuffer option" where
  "putLexemPositionFields lb f line column =
     (if \<not> (f \<ge> 0 \<and> f < MAX_FILES) then None
      else do {
        (m1, p1) \<leftarrow> putLexCompactedAndAdvance (lb_stream lb) (lb_write lb) f;
        (m2, p2) \<leftarrow> putLexCompactedAndAdvance m1 p1 line;
        (m3, p3) \<leftarrow> putLexCompactedAndAdvance m2 p2 column;
        Some (lb\<lparr>lb_stream := m3, lb_write := p3\<rparr>)
      })"

definition putLexemCodeWithPosition :: "lexemBuffer \<Rightarrow> lexemCode \<Rightarrow> position \<Rightarrow> lexemBuffer option" where
  "putLexemCodeWithPosition lb lexem position = do {
     lb1 \<leftarrow> putLexemCode lb lexem;
     putLexemPosition lb1 position
   }"

definition putLexemWithColumn ::
  "lexemBuffer \<Rightarrow> lexemCode \<Rightarrow> characterBuffer \<Rightarrow> int \<Rightarrow> lexemBuffer option" where
  "putLexemWithColumn lb lexem cb column = do {
     lb1 \<leftarrow> putLexemCode lb lexem;
     putLexemPositionFields lb1 (fileNumberFrom cb) (lineNumberFrom cb) column
   }"

definition terminateLexemString :: "lexemBuffer \<Rightarrow> lexemBuffer" where
  "terminateLexemString lb = putLexemChar lb 0"

definition c_isdigit :: "int \<Rightarrow> bool" where
  "c_isdigit ch \<longleftrightarrow> 48 \<le> ch \<and> ch \<le> 57"

definition c_isalpha :: "int \<Rightarrow> bool" where
  "c_isalpha ch \<longleftrightarrow> (65 \<le> ch \<and> ch \<le> 90) \<or> (97 \<le> ch \<and> ch \<le> 122)"

definition identifier_char :: "language \<Rightarrow> int \<Rightarrow> bool" where
  "identifier_char lang ch \<longleftrightarrow>
     c_isalpha ch \<or> c_isdigit ch \<or> ch = 95 \<or> (ch = 36 \<and> lang = LANG_YACC)"

text \<open>The \<open>do\<close> loop of an identifier; \<open>n\<close> is its length so far.\<close>

partial_function (option) identifier_loop ::
  "language \<Rightarrow> lexemBuffer \<Rightarrow> characterBuffer \<Rightarrow> int \<Rightarrow> int
    \<Rightarrow> (int \<times> int \<times> lexemBuffer \<times> characterBuffer) option" where
  "identifier_loop lang lb cb ch n =
     (let lb1 = putLexemChar lb ch; (ch1, cb1) = getChar cb in
      if identifier_char lang ch1 then identifier_loop lang lb1 cb1 ch1 (n + 1)
      else Some (ch1, n + 1, lb1, cb1))"

text \<open>The name in a typed reference: the loop looks for its end and for a newline, not for the
  end of the file.\<close>

partial_function (option) typed_reference_loop ::
  "lexemBuffer \<Rightarrow> characterBuffer \<Rightarrow> int \<Rightarrow> (int \<times> lexemBuffer \<times> characterBuffer) option" where
  "typed_reference_loop lb cb ch =
     (if ch \<noteq> 62 \<and> ch \<noteq> 0 \<and> ch \<noteq> 10
      then (let lb1 = putLexemChar lb ch; (ch1, cb1) = getChar cb in typed_reference_loop lb1 cb1 ch1)
      else Some (ch, lb, cb))"

partial_function (option) digits_loop ::
  "lexemBuffer \<Rightarrow> characterBuffer \<Rightarrow> int \<Rightarrow> (int \<times> lexemBuffer \<times> characterBuffer) option" where
  "digits_loop lb cb ch =
     (if c_isdigit ch
      then (let lb1 = putLexemChar lb ch; (ch1, cb1) = getChar cb in digits_loop lb1 cb1 ch1)
      else Some (ch, lb, cb))"

definition typed_reference ::
  "lexemBuffer \<Rightarrow> characterBuffer \<Rightarrow> int \<Rightarrow> (int \<times> lexemBuffer \<times> characterBuffer) option" where
  "typed_reference lb cb ch = do {
     let lb1 = putLexemChar lb ch;
     let (ch1, cb1) = getChar cb;
     (ch2, lb2, cb2) \<leftarrow> typed_reference_loop lb1 cb1 ch1;
     if ch2 = 62 then do {
       let lb3 = putLexemChar lb2 ch2;
       let (ch3, cb3) = getChar cb2;
       if ch3 = 36 then do {
         let lb4 = putLexemChar lb3 ch3;
         let (ch4, cb4) = getChar cb3;
         Some (ch4, lb4, cb4)
       } else digits_loop lb3 cb3 ch3
     } else Some (ch2, lb2, cb2)
   }"

definition putIdentifierLexem ::
  "language \<Rightarrow> lexemBuffer \<Rightarrow> characterBuffer \<Rightarrow> int \<Rightarrow> (int \<times> lexemBuffer \<times> characterBuffer) option" where
  "putIdentifierLexem lang lb cb ch = do {
     let startsWithDollar = (ch = 36);
     let column = columnPosition cb;
     lb0 \<leftarrow> putLexemCode lb IDENTIFIER;
     (ch1, n, lb1, cb1) \<leftarrow> identifier_loop lang lb0 cb ch 0;
     (ch2, lb2, cb2) \<leftarrow>
       (if startsWithDollar \<and> n = 1 \<and> ch1 = 60 \<and> lang = LANG_YACC
        then typed_reference lb1 cb1 ch1 else Some (ch1, lb1, cb1));
     let lb3 = putLexemChar lb2 0;
     lb4 \<leftarrow> putLexemPositionFields lb3 (cb_fileNumber cb2) (cb_lineNumber cb2) column;
     Some (ch2, lb4, cb2)
   }"

definition next_line :: "characterBuffer \<Rightarrow> characterBuffer" where
  "next_line cb =
     cb\<lparr>cb_lineNumber := cb_lineNumber cb + 1, cb_lineBegin := cb_nextUnread cb, cb_columnOffset := 0\<rparr>"

text \<open>Characters beyond the limit are read but not stored.\<close>

definition put_limited :: "lexemBuffer \<Rightarrow> int \<Rightarrow> int \<Rightarrow> lexemBuffer" where
  "put_limited lb size0 ch = (if size0 < MAX_LEXEM_SIZE - 10 then putLexemChar lb ch else lb)"

partial_function (option) string_loop ::
  "lexemBuffer \<Rightarrow> characterBuffer \<Rightarrow> int \<Rightarrow> (lexemBuffer \<times> characterBuffer) option" where
  "string_loop lb cb size0 =
     (let (ch1, cb1) = getChar cb;
          lb1 = (if ch1 \<noteq> 34 then put_limited lb (size0 + 1) ch1 else lb);
          (ch2, cb2, lb2, size2) =
            (if ch1 = 92 then
               (let (e, cbe) = getChar cb1;
                    lbe = put_limited lb1 (size0 + 2) e
                in (0, if e = 10 then next_line cbe else cbe, lbe, size0 + 2))
             else (ch1, cb1, lb1, size0 + 1));
          cb3 = (if ch2 = 10 then next_line cb2 else cb2)
      in if ch2 \<noteq> 34 \<and> ch2 \<noteq> -1 then string_loop lb2 cb3 size2 else Some (lb2, cb3))"

definition putStringConstantLexem ::
  "lexemBuffer \<Rightarrow> characterBuffer \<Rightarrow> int \<Rightarrow> (lexemBuffer \<times> characterBuffer) option" where
  "putStringConstantLexem lb cb lexemStartingColumn = do {
     let line = lineNumberFrom cb;
     lb0 \<leftarrow> putLexemCode lb STRING_LITERAL;
     (lb1, cb1) \<leftarrow> string_loop lb0 cb 0;
     let lb2 = terminateLexemString lb1;
     lb3 \<leftarrow> putLexemPositionFields lb2 (fileNumberFrom cb1) (lineNumberFrom cb1) lexemStartingColumn;
     lb4 \<leftarrow> putLexemLines lb3 (lineNumberFrom cb1 - line);
     Some (lb4, cb1)
   }"

definition putCharLiteralLexem ::
  "lexemBuffer \<Rightarrow> characterBuffer \<Rightarrow> int \<Rightarrow> int \<Rightarrow> int \<Rightarrow> lexemBuffer option" where
  "putCharLiteralLexem lb cb lexemStartingColumn len chval = do {
     lb1 \<leftarrow> putLexemCode lb CHAR_LITERAL;
     let lb2 = putLexemInt lb1 chval;
     lb3 \<leftarrow> putLexemPositionFields lb2 (fileNumberFrom cb) (lineNumberFrom cb) lexemStartingColumn;
     Some (putLexemInt lb3 len)
   }"

text \<open>The name of an included file, up to its terminator or a newline.\<close>

partial_function (option) include_loop ::
  "lexemBuffer \<Rightarrow> characterBuffer \<Rightarrow> int \<Rightarrow> int \<Rightarrow> (int \<times> lexemBuffer \<times> characterBuffer) option" where
  "include_loop lb cb terminator ch =
     (let lb1 = putLexemChar lb ch; (ch1, cb1) = getChar cb in
      if ch1 \<noteq> terminator \<and> ch1 \<noteq> 10 then include_loop lb1 cb1 terminator ch1
      else Some (ch1, lb1, cb1))"

definition putIncludeString ::
  "lexemBuffer \<Rightarrow> characterBuffer \<Rightarrow> int \<Rightarrow> (int \<times> lexemBuffer \<times> characterBuffer) option" where
  "putIncludeString lb cb ch = do {
     (ch0, cb0) \<leftarrow> skipBlanks cb ch;
     if ch0 = 34 \<or> ch0 = 60 then do {
       let terminator = (if ch0 = 34 then 34 else 62);
       let col = columnPosition cb0;
       lb0 \<leftarrow> putLexemCode lb STRING_LITERAL;
       (ch1, lb1, cb1) \<leftarrow> include_loop lb0 cb0 terminator ch0;
       let lb2 = putLexemChar lb1 0;
       lb3 \<leftarrow> putLexemPositionFields lb2 (fileNumberFrom cb1) (lineNumberFrom cb1) col;
       let (ch2, cb2) = (if ch1 = terminator then getChar cb1 else (ch1, cb1));
       Some (ch2, lb3, cb2)
     } else Some (ch0, lb, cb0)
   }"

text \<open>The decimal text of a value, as \<^verbatim>\<open>%lu\<close> prints it.\<close>

fun decimal_text :: "nat \<Rightarrow> int list" where
  "decimal_text n = (if n < 10 then [] else decimal_text (n div 10)) @ [48 + int (n mod 10)]"

declare decimal_text.simps [simp del]

definition put_chars :: "lexemBuffer \<Rightarrow> int list \<Rightarrow> lexemBuffer" where
  "put_chars lb chars = fold (\<lambda>ch b. putLexemChar b ch) chars lb"

definition putIntegerLexem ::
  "lexemBuffer \<Rightarrow> lexemCode \<Rightarrow> 64 word \<Rightarrow> characterBuffer \<Rightarrow> int \<Rightarrow> int \<Rightarrow> lexemBuffer option" where
  "putIntegerLexem lb lexem value cb lexemStartingColumn lexStartFilePos = do {
     lb1 \<leftarrow> putLexemCode lb lexem;
     let lb2 = putLexemInt lb1 (uint value);
     lb3 \<leftarrow> putLexemPositionFields lb2 (fileNumberFrom cb) (lineNumberFrom cb) lexemStartingColumn;
     let lb4 = putLexemInt lb3 (fileOffsetFor cb - lexStartFilePos);
     let lb5 = put_chars lb4 (decimal_text (unat value));
     Some (putLexemChar lb5 0)
   }"

definition putCompletionLexem :: "lexemBuffer \<Rightarrow> characterBuffer \<Rightarrow> int \<Rightarrow> lexemBuffer option" where
  "putCompletionLexem lb cb len = do {
     lb1 \<leftarrow> putLexemCode lb IDENT_TO_COMPLETE;
     putLexemPositionFields (putLexemChar lb1 0) (cb_fileNumber cb) (cb_lineNumber cb)
       (columnPosition cb - len)
   }"

definition putFloatingPointLexem ::
  "lexemBuffer \<Rightarrow> lexemCode \<Rightarrow> characterBuffer \<Rightarrow> int \<Rightarrow> int \<Rightarrow> lexemBuffer option" where
  "putFloatingPointLexem lb lexem cb lexemStartingColumn lexStartFilePos = do {
     lb1 \<leftarrow> putLexemCode lb lexem;
     lb2 \<leftarrow> putLexemPositionFields lb1 (fileNumberFrom cb) (lineNumberFrom cb) lexemStartingColumn;
     Some (putLexemInt lb2 (fileOffsetFor cb - lexStartFilePos))
   }"

section \<open>What is put is got back\<close>

text \<open>
  A codec writes a value at an address, touches nothing outside the bytes it returns the end
  of, and reads the value back from any memory that agrees on those bytes.
\<close>

locale lexem_codec =
  fixes put :: "memory_area \<Rightarrow> int \<Rightarrow> 'v \<Rightarrow> (memory_area \<times> int) option"
    and get :: "memory_area \<Rightarrow> int \<Rightarrow> 'v \<times> int"
    and valid :: "'v \<Rightarrow> bool"
  assumes put_get: "valid v \<Longrightarrow> \<exists>m' p'. put m p v = Some (m', p') \<and> p \<le> p'
      \<and> (\<forall>q. q < p \<or> p' \<le> q \<longrightarrow> m' q = m q)
      \<and> (\<forall>m''. (\<forall>q. p \<le> q \<longrightarrow> q < p' \<longrightarrow> m'' q = m' q) \<longrightarrow> get m'' p = (v, p'))"
begin

fun put_all :: "memory_area \<Rightarrow> int \<Rightarrow> 'v list \<Rightarrow> (memory_area \<times> int) option" where
  "put_all m p [] = Some (m, p)"
| "put_all m p (v # vs) = (case put m p v of None \<Rightarrow> None | Some (m', p') \<Rightarrow> put_all m' p' vs)"

fun get_all :: "memory_area \<Rightarrow> int \<Rightarrow> nat \<Rightarrow> 'v list \<times> int" where
  "get_all m p 0 = ([], p)"
| "get_all m p (Suc n) = (let (v, p1) = get m p; (vs, p2) = get_all m p1 n in (v # vs, p2))"

lemma put_all_get_all:
  "\<forall>v\<in>set vs. valid v \<Longrightarrow> \<exists>m' p'. put_all m p vs = Some (m', p') \<and> p \<le> p'
      \<and> (\<forall>q. q < p \<or> p' \<le> q \<longrightarrow> m' q = m q)
      \<and> (\<forall>m''. (\<forall>q. p \<le> q \<longrightarrow> q < p' \<longrightarrow> m'' q = m' q) \<longrightarrow> get_all m'' p (length vs) = (vs, p'))"
proof (induction vs arbitrary: m p)
  case (Cons v vs)
  then have "valid v" by simp
  from put_get [OF this, of m p] obtain m1 p1 where 1: "put m p v = Some (m1, p1)" "p \<le> p1"
    "\<And>q. q < p \<or> p1 \<le> q \<Longrightarrow> m1 q = m q"
    "\<And>m''. (\<forall>q. p \<le> q \<longrightarrow> q < p1 \<longrightarrow> m'' q = m1 q) \<Longrightarrow> get m'' p = (v, p1)" by blast
  from Cons.IH [of m1 p1] Cons.prems obtain m2 p2 where 2: "put_all m1 p1 vs = Some (m2, p2)" "p1 \<le> p2"
    "\<And>q. q < p1 \<or> p2 \<le> q \<Longrightarrow> m2 q = m1 q"
    "\<And>m''. (\<forall>q. p1 \<le> q \<longrightarrow> q < p2 \<longrightarrow> m'' q = m2 q) \<Longrightarrow> get_all m'' p1 (length vs) = (vs, p2)"
    by auto
  have "get_all m'' p (length (v # vs)) = (v # vs, p2)"
    if m: "\<forall>q. p \<le> q \<longrightarrow> q < p2 \<longrightarrow> m'' q = m2 q" for m''
  proof -
    have "get m'' p = (v, p1)" using m 2(2,3) by (intro 1(4)) auto
    moreover have "get_all m'' p1 (length vs) = (vs, p2)" using m 1(2) by (intro 2(4)) auto
    ultimately show ?thesis by simp
  qed
  moreover have "\<forall>q. q < p \<or> p2 \<le> q \<longrightarrow> m2 q = m q" using 1(2,3) 2(2,3) by auto
  ultimately show ?case using 1(1,2) 2(1,2) by auto
qed simp

end

text \<open>Bytes stored one after the other, as a region that is read back.\<close>

lemma load_uchar_cong: "m p = m' p \<Longrightarrow> load_uchar m p = load_uchar m' p"
  by (simp add: load_uchar_def)

interpretation compacted: lexem_codec putLexCompactedAndAdvance getLexCompactedAndAdvance
  "\<lambda>v. 0 \<le> v \<and> v < 4194304"
proof
  fix v :: int and m p
  assume v: "0 \<le> v \<and> v < 4194304"
  then have u: "to_unsigned v = v" by (simp add: to_unsigned_id)
  consider "v < 128" | "128 \<le> v" "v < 16384" | "16384 \<le> v" by linarith
  then show "\<exists>m' p'. putLexCompactedAndAdvance m p v = Some (m', p') \<and> p \<le> p'
      \<and> (\<forall>q. q < p \<or> p' \<le> q \<longrightarrow> m' q = m q)
      \<and> (\<forall>m''. (\<forall>q. p \<le> q \<longrightarrow> q < p' \<longrightarrow> m'' q = m' q) \<longrightarrow> getLexCompactedAndAdvance m'' p = (v, p'))"
  proof cases
    case 1
    have "getLexCompactedAndAdvance m'' p = (v, p + 1)"
      if "\<forall>q. p \<le> q \<longrightarrow> q < p + 1 \<longrightarrow> m'' q = store_char m p v q" for m''
    proof -
      have "m'' p = store_char m p v p" using that by simp
      then have "load_uchar m'' p = v" using v 1
        by (simp add: load_uchar_def store_char_def to_uchar_id)
      then show ?thesis using 1 by (simp add: getLexCompactedAndAdvance_def)
    qed
    then show ?thesis
      using v u 1 by (intro exI [of _ "store_char m p v"] exI [of _ "p + 1"])
        (simp add: putLexCompactedAndAdvance_def mem_simps)
  next
    case 2
    let ?m = "store_char (store_char m p (v mod 128 + 128)) (p + 1) (v div 128)"
    have b: "0 \<le> v mod 128" "v mod 128 < 128" "0 \<le> v div 128" "v div 128 < 128" using 2 by auto
    have "getLexCompactedAndAdvance m'' p = (v, p + 2)"
      if "\<forall>q. p \<le> q \<longrightarrow> q < p + 2 \<longrightarrow> m'' q = ?m q" for m''
    proof -
      have "m'' p = ?m p" "m'' (p + 1) = ?m (p + 1)" using that by auto
      then have "load_uchar m'' p = v mod 128 + 128" "load_uchar m'' (p + 1) = v div 128"
        using b by (simp_all add: load_uchar_def store_char_def to_uchar_id)
      then show ?thesis using b by (simp add: getLexCompactedAndAdvance_def Let_def)
    qed
    then show ?thesis
      using v u 2 by (intro exI [of _ ?m] exI [of _ "p + 2"])
        (auto simp: putLexCompactedAndAdvance_def Let_def mem_simps)
  next
    case 3
    define x y z where "x = v mod 128" and "y = v div 128 mod 128" and "z = v div 16384"
    have b: "0 \<le> x" "x < 128" "0 \<le> y" "y < 128" "0 \<le> z" "z < 256"
      using 3 v by (auto simp: x_def y_def z_def)
    have d: "v = x + 128 * y + 16384 * z"
    proof -
      have "z = v div 128 div 128" by (simp add: z_def flip: zdiv_zmult2_eq)
      then show ?thesis
        using mult_div_mod_eq [of 128 v] mult_div_mod_eq [of 128 "v div 128"]
        unfolding x_def y_def by linarith
    qed
    let ?m = "store_char (store_char (store_char m p (x + 128)) (p + 1) (y + 128)) (p + 2) z"
    have "getLexCompactedAndAdvance m'' p = (v, p + 3)"
      if "\<forall>q. p \<le> q \<longrightarrow> q < p + 3 \<longrightarrow> m'' q = ?m q" for m''
    proof -
      have "m'' p = ?m p" "m'' (p + 1) = ?m (p + 1)" "m'' (p + 2) = ?m (p + 2)" using that by auto
      then have "load_uchar m'' p = x + 128" "load_uchar m'' (p + 1) = y + 128" "load_uchar m'' (p + 2) = z"
        using b by (simp_all add: load_uchar_def store_char_def to_uchar_id)
      then show ?thesis using b d by (simp add: getLexCompactedAndAdvance_def Let_def)
    qed
    moreover have "putLexCompactedAndAdvance m p v = Some (?m, p + 3)"
      using v u 3 by (simp add: putLexCompactedAndAdvance_def Let_def x_def y_def z_def)
    ultimately show ?thesis by (intro exI [of _ ?m] exI [of _ "p + 3"]) (simp add: mem_simps)
  qed
qed

interpretation short: lexem_codec putLexShortAndAdvance getLexShortAndAdvance
  "\<lambda>v. 0 \<le> v \<and> v \<le> 65535"
proof
  fix v :: int and m p
  assume v: "0 \<le> v \<and> v \<le> 65535"
  then have u: "to_unsigned v = v" by (simp add: to_unsigned_id)
  let ?m = "store_char (store_char m p (v mod 256)) (p + 1) (v div 256)"
  have b: "0 \<le> v mod 256" "v mod 256 < 256" "0 \<le> v div 256" "v div 256 < 256" using v by auto
  have "getLexShortAndAdvance m'' p = (v, p + 2)"
    if "\<forall>q. p \<le> q \<longrightarrow> q < p + 2 \<longrightarrow> m'' q = ?m q" for m''
  proof -
    have "m'' p = ?m p" "m'' (p + 1) = ?m (p + 1)" using that by auto
    then have "load_uchar m'' p = v mod 256" "load_uchar m'' (p + 1) = v div 256"
      using b by (simp_all add: load_uchar_def store_char_def to_uchar_id)
    then show ?thesis by (simp add: getLexShortAndAdvance_def)
  qed
  then show "\<exists>m' p'. putLexShortAndAdvance m p v = Some (m', p') \<and> p \<le> p'
      \<and> (\<forall>q. q < p \<or> p' \<le> q \<longrightarrow> m' q = m q)
      \<and> (\<forall>m''. (\<forall>q. p \<le> q \<longrightarrow> q < p' \<longrightarrow> m'' q = m' q) \<longrightarrow> getLexShortAndAdvance m'' p = (v, p'))"
    using v u by (intro exI [of _ ?m] exI [of _ "p + 2"])
      (auto simp: putLexShortAndAdvance_def mem_simps)
qed

definition lexem_position :: "position \<Rightarrow> bool" where
  "lexem_position pos \<longleftrightarrow>
     0 \<le> pos_file pos \<and> pos_file pos < MAX_FILES
     \<and> 0 \<le> pos_line pos \<and> pos_line pos < 4194304 \<and> 0 \<le> pos_col pos \<and> pos_col pos < 4194304"

interpretation positions: lexem_codec putLexemPositionAndAdvance getLexemPositionAndAdvance
  lexem_position
proof
  fix pos m p
  assume "lexem_position pos"
  then have "\<forall>v\<in>set [pos_file pos, pos_line pos, pos_col pos]. 0 \<le> v \<and> v < 4194304"
    by (auto simp: lexem_position_def MAX_FILES_def)
  from compacted.put_all_get_all [OF this, of m p] obtain m' p' where
    1: "compacted.put_all m p [pos_file pos, pos_line pos, pos_col pos] = Some (m', p')" "p \<le> p'"
      "\<forall>q. q < p \<or> p' \<le> q \<longrightarrow> m' q = m q"
      "\<And>m''. (\<forall>q. p \<le> q \<longrightarrow> q < p' \<longrightarrow> m'' q = m' q) \<Longrightarrow>
         compacted.get_all m'' p (length [pos_file pos, pos_line pos, pos_col pos])
           = ([pos_file pos, pos_line pos, pos_col pos], p')" by blast
  have "putLexemPositionAndAdvance m p pos = Some (m', p')"
    using 1(1) by (auto simp: putLexemPositionAndAdvance_def split: option.splits)
  moreover have "getLexemPositionAndAdvance m'' p = (pos, p')"
    if "\<forall>q. p \<le> q \<longrightarrow> q < p' \<longrightarrow> m'' q = m' q" for m''
    using 1(4) [OF that]
    by (cases pos) (auto simp: getLexemPositionAndAdvance_def Let_def split: prod.splits)
  ultimately show "\<exists>m' p'. putLexemPositionAndAdvance m p pos = Some (m', p') \<and> p \<le> p'
      \<and> (\<forall>q. q < p \<or> p' \<le> q \<longrightarrow> m' q = m q)
      \<and> (\<forall>m''. (\<forall>q. p \<le> q \<longrightarrow> q < p' \<longrightarrow> m'' q = m' q) \<longrightarrow> getLexemPositionAndAdvance m'' p = (pos, p'))"
    using 1(2,3) by blast
qed

lemma putLexemPositionFields_position:
  "putLexemPositionFields lb f l c = putLexemPosition lb (Position f l c)"
  by (simp add: putLexemPositionFields_def putLexemPosition_def putLexemPositionAndAdvance_def
      case_prod_unfold)

lemma putLexemPosition_law:
  assumes "lexem_position pos"
  shows "\<exists>m' p'. putLexemPosition lb pos = Some (lb\<lparr>lb_stream := m', lb_write := p'\<rparr>) \<and> lb_write lb \<le> p'
    \<and> (\<forall>q. q < lb_write lb \<or> p' \<le> q \<longrightarrow> m' q = lb_stream lb q)
    \<and> (\<forall>m''. (\<forall>q. lb_write lb \<le> q \<longrightarrow> q < p' \<longrightarrow> m'' q = m' q) \<longrightarrow>
         getLexemPositionAndAdvance m'' (lb_write lb) = (pos, p'))"
proof -
  from positions.put_get [OF assms, of "lb_stream lb" "lb_write lb"] obtain m' p' where
    "putLexemPositionAndAdvance (lb_stream lb) (lb_write lb) pos = Some (m', p')" "lb_write lb \<le> p'"
    "\<forall>q. q < lb_write lb \<or> p' \<le> q \<longrightarrow> m' q = lb_stream lb q"
    "\<forall>m''. (\<forall>q. lb_write lb \<le> q \<longrightarrow> q < p' \<longrightarrow> m'' q = m' q) \<longrightarrow>
         getLexemPositionAndAdvance m'' (lb_write lb) = (pos, p')" by blast
  then show ?thesis
    using assms by (intro exI [of _ m'] exI [of _ p']) (simp add: putLexemPosition_def lexem_position_def)
qed

lemma putLexemCode_law:
  assumes "0 \<le> c" "c \<le> 65535"
  shows "\<exists>m'. putLexemCode lb c = Some (lb\<lparr>lb_stream := m', lb_write := lb_write lb + 2\<rparr>)
    \<and> (\<forall>q. q < lb_write lb \<or> lb_write lb + 2 \<le> q \<longrightarrow> m' q = lb_stream lb q)
    \<and> (\<forall>m''. (\<forall>q. lb_write lb \<le> q \<longrightarrow> q < lb_write lb + 2 \<longrightarrow> m'' q = m' q) \<longrightarrow>
         getLexShortAndAdvance m'' (lb_write lb) = (c, lb_write lb + 2))"
proof -
  from short.put_get [of c "lb_stream lb" "lb_write lb"] assms obtain m' p' where
    1: "putLexShortAndAdvance (lb_stream lb) (lb_write lb) c = Some (m', p')"
    "\<forall>q. q < lb_write lb \<or> p' \<le> q \<longrightarrow> m' q = lb_stream lb q"
    "\<forall>m''. (\<forall>q. lb_write lb \<le> q \<longrightarrow> q < p' \<longrightarrow> m'' q = m' q) \<longrightarrow>
         getLexShortAndAdvance m'' (lb_write lb) = (c, p')" by blast
  then have "p' = lb_write lb + 2" by (auto simp: putLexShortAndAdvance_def split: if_splits)
  with 1 show ?thesis by (intro exI [of _ m']) (simp add: putLexemCode_def)
qed

text \<open>Characters put one by one are the bytes of a region.\<close>

lemma put_chars_store:
  "put_chars lb chars = lb\<lparr>lb_stream := store_bytes (lb_stream lb) (lb_write lb) chars,
                          lb_write := lb_write lb + int (length chars)\<rparr>"
  unfolding put_chars_def
  by (induction chars arbitrary: lb) (simp_all add: putLexemChar_def)

lemma putLexemChar_store: "putLexemChar lb ch = put_chars lb [ch]"
  by (simp add: put_chars_def)

lemma put_chars_append: "put_chars lb (xs @ ys) = put_chars (put_chars lb xs) ys"
  by (simp add: put_chars_def)

text \<open>Shifting moves the bytes not read yet to the start of the stream.\<close>

lemma copy_loop_down:
  "cp \<le> next \<Longrightarrow> next \<le> end \<Longrightarrow>
   snd (copy_loop m cp next end) = cp + (end - next)
   \<and> (\<forall>q. q < cp \<longrightarrow> fst (copy_loop m cp next end) q = m q)
   \<and> (\<forall>i. 0 \<le> i \<longrightarrow> i < end - next \<longrightarrow> fst (copy_loop m cp next end) (cp + i) = m (next + i))"
proof (induction m cp "next" "end" rule: copy_loop.induct)
  case (1 m cp nxt fin)
  show ?case
  proof (cases "nxt < fin")
    case False
    then show ?thesis using 1 by (subst (1 2 3) copy_loop.simps) auto
  next
    case True
    let ?m = "m(cp := m nxt)"
    have IH: "snd (copy_loop ?m (cp + 1) (nxt + 1) fin) = cp + 1 + (fin - (nxt + 1))"
      "\<And>q. q < cp + 1 \<Longrightarrow> fst (copy_loop ?m (cp + 1) (nxt + 1) fin) q = ?m q"
      "\<And>i. 0 \<le> i \<Longrightarrow> i < fin - (nxt + 1) \<Longrightarrow>
         fst (copy_loop ?m (cp + 1) (nxt + 1) fin) (cp + 1 + i) = ?m (nxt + 1 + i)"
    proof -
      have "cp + 1 \<le> nxt + 1" "nxt + 1 \<le> fin" using 1(2) True by simp_all
      from 1(1) [OF True this]
      show "snd (copy_loop ?m (cp + 1) (nxt + 1) fin) = cp + 1 + (fin - (nxt + 1))"
        "\<And>q. q < cp + 1 \<Longrightarrow> fst (copy_loop ?m (cp + 1) (nxt + 1) fin) q = ?m q"
        "\<And>i. 0 \<le> i \<Longrightarrow> i < fin - (nxt + 1) \<Longrightarrow>
           fst (copy_loop ?m (cp + 1) (nxt + 1) fin) (cp + 1 + i) = ?m (nxt + 1 + i)"
        by blast+
    qed
    have "fst (copy_loop ?m (cp + 1) (nxt + 1) fin) (cp + i) = m (nxt + i)"
      if "0 \<le> i" "i < fin - nxt" for i
    proof (cases "i = 0")
      case True
      then show ?thesis using IH(2) [of cp] by simp
    next
      case False
      then have "fst (copy_loop ?m (cp + 1) (nxt + 1) fin) (cp + 1 + (i - 1)) = ?m (nxt + 1 + (i - 1))"
        using that by (intro IH(3)) auto
      moreover have "nxt + 1 + (i - 1) \<noteq> cp" using 1(2) that False by linarith
      ultimately show ?thesis by (simp add: algebra_simps)
    qed
    moreover have eq: "copy_loop m cp nxt fin = copy_loop ?m (cp + 1) (nxt + 1) fin"
      using True by (subst copy_loop.simps) simp
    moreover have "fst (copy_loop ?m (cp + 1) (nxt + 1) fin) q = m q" if "q < cp" for q
      using IH(2) [of q] that by simp
    ultimately show ?thesis using IH(1) by simp
  qed
qed

section \<open>Scanning identifiers\<close>

lemma same_line_trans: "same_line a b \<Longrightarrow> same_line b c \<Longrightarrow> same_line a c"
  by (simp add: same_line_def)

lemma identifier_loop_law:
  assumes "reader_ok cb" "contents cb = cs @ rest" "\<forall>c\<in>set cs. identifier_char lang c"
    and "\<not> identifier_char lang (reader.take_next rest)"
  shows "\<exists>cb'. identifier_loop lang lb cb ch n =
      Some (reader.take_next rest, n + 1 + int (length cs), put_chars lb (ch # cs), cb')
    \<and> contents cb' = tl rest \<and> reader_ok cb' \<and> same_line cb cb'"
  using assms
proof (induction cs arbitrary: cb lb ch n)
  case Nil
  from reader.get_law [OF Nil.prems(1)] Nil.prems getChar_law(3) [OF Nil.prems(1)]
  show ?case
    by (subst identifier_loop.simps) (simp add: case_prod_beta put_chars_def)
next
  case (Cons c cs)
  let ?cb = "snd (getChar cb)"
  have g: "fst (getChar cb) = c" "contents ?cb = cs @ rest" "reader_ok ?cb"
    using reader.get_Cons [OF Cons.prems(1), of c "cs @ rest"] Cons.prems(2) by auto
  from Cons.IH [OF g(3,2), of "putLexemChar lb ch" c "n + 1"] Cons.prems obtain cb' where
    "identifier_loop lang (putLexemChar lb ch) ?cb c (n + 1) =
      Some (reader.take_next rest, n + 2 + int (length cs), put_chars (putLexemChar lb ch) (c # cs), cb')"
    "contents cb' = tl rest" "reader_ok cb'" "same_line ?cb cb'" by auto
  then show ?case
    using g Cons.prems getChar_law(3) [OF Cons.prems(1)]
    by (subst identifier_loop.simps) (auto simp: case_prod_beta put_chars_def intro: same_line_trans)
qed

section \<open>Properties\<close>

text \<open>C33: A lexem put with its position is got back by the reading functions, code and position, from
  the place it was put at, and the reading ends where the writing did. Nothing before it in the
  stream changes.\<close>

theorem lexem_with_position_roundtrip:
  assumes "0 \<le> code" "code \<le> 65535" "lexem_position pos"
  shows "\<exists>lb1. putLexemCodeWithPosition lb code pos = Some lb1
    \<and> (\<forall>q<lb_write lb. lb_stream lb1 q = lb_stream lb q)
    \<and> fst (getLexemCode (lb1\<lparr>lb_read := lb_write lb\<rparr>)) = code
    \<and> fst (getLexemPosition (snd (getLexemCode (lb1\<lparr>lb_read := lb_write lb\<rparr>)))) = pos
    \<and> lb_read (snd (getLexemPosition (snd (getLexemCode (lb1\<lparr>lb_read := lb_write lb\<rparr>))))) = lb_write lb1"
proof -
  from putLexemCode_law [OF assms(1,2), of lb] obtain m1 where
    1: "putLexemCode lb code = Some (lb\<lparr>lb_stream := m1, lb_write := lb_write lb + 2\<rparr>)"
      "\<And>q. q < lb_write lb \<Longrightarrow> m1 q = lb_stream lb q"
      "\<And>m''. (\<forall>q. lb_write lb \<le> q \<longrightarrow> q < lb_write lb + 2 \<longrightarrow> m'' q = m1 q) \<Longrightarrow>
         getLexShortAndAdvance m'' (lb_write lb) = (code, lb_write lb + 2)" by blast
  let ?lb = "lb\<lparr>lb_stream := m1, lb_write := lb_write lb + 2\<rparr>"
  from putLexemPosition_law [OF assms(3), of ?lb] obtain m2 p2 where
    2: "putLexemPosition ?lb pos = Some (?lb\<lparr>lb_stream := m2, lb_write := p2\<rparr>)"
      "\<And>q. q < lb_write lb + 2 \<Longrightarrow> m2 q = m1 q"
      "\<And>m''. (\<forall>q. lb_write lb + 2 \<le> q \<longrightarrow> q < p2 \<longrightarrow> m'' q = m2 q) \<Longrightarrow>
         getLexemPositionAndAdvance m'' (lb_write lb + 2) = (pos, p2)" by auto
  have "getLexShortAndAdvance m2 (lb_write lb) = (code, lb_write lb + 2)"
    by (rule 1(3)) (simp add: 2(2))
  moreover have "getLexemPositionAndAdvance m2 (lb_write lb + 2) = (pos, p2)"
    by (rule 2(3)) simp
  ultimately show ?thesis
    using 1(1,2) 2(1,2) by (simp add: putLexemCodeWithPosition_def getLexemCode_def getLexemPosition_def)
qed

definition empty_lexem_buffer :: lexemBuffer where
  "empty_lexem_buffer = \<lparr>lb_begin = 0, lb_read = 0, lb_write = 0, lb_stream = (\<lambda>_. 0),
     lb_position = Position 0 0 0, lb_fileOffset = 0, lb_backpatchPointer = 0\<rparr>"

theorem lexem_with_position_roundtrip_witness:
  "\<exists>lb1. putLexemCodeWithPosition empty_lexem_buffer IDENTIFIER (Position 3 200 70000) = Some lb1
     \<and> fst (getLexemCode (lb1\<lparr>lb_read := 0\<rparr>)) = IDENTIFIER"
proof -
  have "lb_write empty_lexem_buffer = 0" by (simp add: empty_lexem_buffer_def)
  then show ?thesis
    using lexem_with_position_roundtrip [of IDENTIFIER "Position 3 200 70000" empty_lexem_buffer]
    by (auto simp: IDENTIFIER_def lexem_position_def MAX_FILES_def)
qed

text \<open>Shifting the lexems not read yet to the start of the stream keeps them, byte for byte,
  though source and destination may overlap.\<close>

theorem shift_keeps_unread_lexems:
  assumes "0 \<le> lb_read lb" "lb_read lb \<le> lb_write lb"
  shows "lb_read (shiftAnyRemainingLexems lb) = 0
    \<and> map (lb_stream (shiftAnyRemainingLexems lb)) [0..lb_write (shiftAnyRemainingLexems lb) - 1]
      = map (lb_stream lb) [lb_read lb..lb_write lb - 1]"
proof -
  let ?n = "lb_write lb - lb_read lb"
  let ?c = "copy_loop (lb_stream lb) 0 (lb_read lb) (lb_read lb + ?n)"
  from copy_loop_down [of 0 "lb_read lb" "lb_read lb + ?n" "lb_stream lb"] assms
  have c: "\<And>i. 0 \<le> i \<Longrightarrow> i < ?n \<Longrightarrow> fst ?c i = lb_stream lb (lb_read lb + i)" by simp
  have "map (fst ?c) [0..?n - 1] = map (lb_stream lb) [lb_read lb..lb_write lb - 1]"
    by (rule nth_equalityI) (use c in auto)
  then show ?thesis by (simp add: shiftAnyRemainingLexems_def Let_def case_prod_beta)
qed

theorem shift_keeps_unread_lexems_witness:
  "map (lb_stream (shiftAnyRemainingLexems (empty_lexem_buffer\<lparr>lb_stream := (\<lambda>q. q), lb_read := 2, lb_write := 5\<rparr>))) [0..2]
   = [2, 3, 4]"
  using shift_keeps_unread_lexems [of "empty_lexem_buffer\<lparr>lb_stream := (\<lambda>q. q), lb_read := 2, lb_write := 5\<rparr>"]
  by (simp add: empty_lexem_buffer_def shiftAnyRemainingLexems_def Let_def case_prod_beta upto.simps)

text \<open>An identifier is put into the lexem stream whole: its code, its characters, a terminating
  zero and the position of its first character; the scan stops at, and returns, the first
  character that cannot be part of it.\<close>

theorem identifier_lexem:
  assumes "reader_ok cb" "contents cb = cs @ rest" "\<forall>c\<in>set cs. identifier_char lang c"
    and "\<not> identifier_char lang (reader.take_next rest)" "ch \<noteq> 36"
    and "lexem_position (Position (cb_fileNumber cb) (cb_lineNumber cb) (columnPosition cb))"
  shows "\<exists>lb' cb'. putIdentifierLexem lang lb cb ch = Some (reader.take_next rest, lb', cb')
    \<and> contents cb' = tl rest \<and> same_line cb cb'
    \<and> peekLexemCodeAt (lb_stream lb') (lb_write lb) = IDENTIFIER
    \<and> map (lb_stream lb') [lb_write lb + 2..lb_write lb + 2 + int (length cs) + 1] = map to_char (ch # cs) @ [0]
    \<and> getLexemPositionAndAdvance (lb_stream lb') (lb_write lb + 2 + int (length cs) + 2)
       = (Position (cb_fileNumber cb) (cb_lineNumber cb) (columnPosition cb), lb_write lb')"
proof -
  let ?pos = "Position (cb_fileNumber cb) (cb_lineNumber cb) (columnPosition cb)"
  let ?w = "lb_write lb"
  from putLexemCode_law [of IDENTIFIER lb] obtain m1 where
    1: "putLexemCode lb IDENTIFIER = Some (lb\<lparr>lb_stream := m1, lb_write := ?w + 2\<rparr>)"
      "\<And>m''. (\<forall>q. ?w \<le> q \<longrightarrow> q < ?w + 2 \<longrightarrow> m'' q = m1 q) \<Longrightarrow>
         getLexShortAndAdvance m'' ?w = (IDENTIFIER, ?w + 2)"
    by (auto simp: IDENTIFIER_def)
  let ?lb1 = "lb\<lparr>lb_stream := m1, lb_write := ?w + 2\<rparr>"
  from identifier_loop_law [OF assms(1-4), of ?lb1 ch 0] obtain cb' where
    2: "identifier_loop lang ?lb1 cb ch 0 =
          Some (reader.take_next rest, 1 + int (length cs), put_chars ?lb1 (ch # cs), cb')"
      "contents cb' = tl rest" "same_line cb cb'" by auto
  let ?chars = "ch # cs @ [0]"
  let ?m = "store_bytes m1 (?w + 2) ?chars"
  let ?lb2 = "lb\<lparr>lb_stream := ?m, lb_write := ?w + 2 + int (length cs) + 2\<rparr>"
  have lb2: "putLexemChar (put_chars ?lb1 (ch # cs)) 0 = ?lb2"
    unfolding putLexemChar_store put_chars_append [symmetric] by (simp add: put_chars_store)
  from putLexemPosition_law [OF assms(6), of ?lb2] obtain m3 p3 where
    3: "putLexemPosition ?lb2 ?pos = Some (?lb2\<lparr>lb_stream := m3, lb_write := p3\<rparr>)"
      "\<And>q. q < ?w + 2 + int (length cs) + 2 \<Longrightarrow> m3 q = ?m q"
      "\<And>m''. (\<forall>q. ?w + 2 + int (length cs) + 2 \<le> q \<longrightarrow> q < p3 \<longrightarrow> m'' q = m3 q) \<Longrightarrow>
         getLexemPositionAndAdvance m'' (?w + 2 + int (length cs) + 2) = (?pos, p3)"
    by (auto simp del: store_bytes.simps)
  have code: "getLexShortAndAdvance m3 ?w = (IDENTIFIER, ?w + 2)"
    by (rule 1(2)) (simp add: 3(2) store_bytes_below del: store_bytes.simps)
  have "map m3 [?w + 2..?w + 2 + int (length cs) + 1]
      = map ?m [?w + 2..?w + 2 + int (length ?chars) - 1]"
    by (rule nth_equalityI) (simp_all add: 3(2) del: store_bytes.simps)
  also have "... = map to_char ?chars" by (rule map_store_bytes)
  finally have written: "map m3 [?w + 2..?w + 2 + int (length cs) + 1] = map to_char (ch # cs) @ [0]"
    by (simp add: to_char_def)
  have "putIdentifierLexem lang lb cb ch = Some (reader.take_next rest, ?lb2\<lparr>lb_stream := m3, lb_write := p3\<rparr>, cb')"
    using 1(1) 2(1,3) 3(1) lb2 assms(5)
    by (simp add: putIdentifierLexem_def putLexemPositionFields_position same_line_def del: store_bytes.simps)
  then show ?thesis
    using 2(2,3) code written 3(3) [of m3]
    by (simp add: peekLexemCodeAt_def peekLexShort_def getLexShortAndAdvance_def Let_def)
qed

theorem identifier_lexem_witness:
  "\<exists>lb' cb'. putIdentifierLexem LANG_C empty_lexem_buffer
      (initCharacterBufferFromString (example_buffer\<lparr>cb_nextUnread := 1\<rparr>) [97, 49, 59]\<lparr>cb_nextUnread := 1\<rparr>) 97
     = Some (59, lb', cb')"
proof -
  let ?cb = "initCharacterBufferFromString (example_buffer\<lparr>cb_nextUnread := 1\<rparr>) [97, 49, 59]\<lparr>cb_nextUnread := 1\<rparr>"
  have cb: "reader_ok ?cb" "contents ?cb = [49] @ [59]"
    by (simp_all add: initCharacterBufferFromString_def fillCharacterBuffer_def example_buffer_def
        reader_ok_def contents_def unread_def Let_def upto.simps store_char_def to_char_def)
  have pos: "lexem_position (Position (cb_fileNumber ?cb) (cb_lineNumber ?cb) (columnPosition ?cb))"
    by (simp add: initCharacterBufferFromString_def fillCharacterBuffer_def example_buffer_def
        columnPosition_def lexem_position_def MAX_FILES_def Let_def)
  have "\<forall>c\<in>set [49]. identifier_char LANG_C c" "\<not> identifier_char LANG_C (reader.take_next [59])"
    by (simp_all add: identifier_char_def c_isalpha_def c_isdigit_def reader.take_next_def)
  from identifier_lexem [OF cb this _ pos, of 97 empty_lexem_buffer] show ?thesis
    by (auto simp: reader.take_next_def)
qed

text \<open>The loop over the name of an included file returns only if a terminator or newline is left.\<close>

lemma include_loop_returns:
  "include_loop lb cb t ch = Some r \<Longrightarrow>
   reader_ok cb \<longrightarrow> t \<noteq> -1 \<longrightarrow> t \<in> set (contents cb) \<or> 10 \<in> set (contents cb)"
proof (erule include_loop.raw_induct [rotated, of _ _ _ _ _ "\<lambda>lb cb t ch r.
    reader_ok cb \<longrightarrow> t \<noteq> -1 \<longrightarrow> t \<in> set (contents cb) \<or> 10 \<in> set (contents cb)"])
  fix f lb cb t ch r
  assume IH: "\<And>lb cb t ch r. f lb cb t ch = Some r \<Longrightarrow>
      reader_ok cb \<longrightarrow> t \<noteq> -1 \<longrightarrow> t \<in> set (contents cb) \<or> 10 \<in> set (contents cb)"
    and r: "(let lb1 = putLexemChar lb ch; (ch1, cb1) = getChar cb
      in if ch1 \<noteq> t \<and> ch1 \<noteq> 10 then f lb1 cb1 t ch1 else Some (ch1, lb1, cb1)) = Some r"
  show "reader_ok cb \<longrightarrow> t \<noteq> -1 \<longrightarrow> t \<in> set (contents cb) \<or> 10 \<in> set (contents cb)"
  proof (intro impI)
    assume ok: "reader_ok cb" and t: "t \<noteq> -1"
    let ?ch = "fst (getChar cb)" and ?cb = "snd (getChar cb)"
    have g: "?ch = reader.take_next (contents cb)" "contents ?cb = tl (contents cb)" "reader_ok ?cb"
      using reader.get_law [OF ok] by simp_all
    show "t \<in> set (contents cb) \<or> 10 \<in> set (contents cb)"
    proof (cases "?ch \<noteq> t \<and> ?ch \<noteq> 10")
      case True
      then have "f (putLexemChar lb ch) ?cb t ?ch = Some r" using r by (simp add: case_prod_beta Let_def)
      from IH [OF this] g t show ?thesis by (cases "contents cb") auto
    next
      case False
      then show ?thesis using g(1) t by (cases "contents cb") (auto simp: reader.take_next_def)
    qed
  qed
qed

text \<open>An include whose file name is not terminated before the end of the file never returns: the
  loop stops at the terminator or a newline only, and goes on writing lexem characters for ever.\<close>

theorem unterminated_include_diverges:
  assumes "reader_ok cb" "34 \<notin> set (contents cb)" "10 \<notin> set (contents cb)"
  shows "putIncludeString lb cb 34 = None"
proof (rule ccontr)
  assume "putIncludeString lb cb 34 \<noteq> None"
  moreover have "skipBlanks cb 34 = Some (34, cb)" by (subst skipBlanks.simps) simp
  ultimately obtain lb0 r where "include_loop lb0 cb 34 34 = Some r"
    by (auto simp: putIncludeString_def bind_eq_Some_iff split: prod.splits)
  from include_loop_returns [OF this] assms show False by simp
qed

theorem unterminated_include_diverges_witness:
  "putIncludeString empty_lexem_buffer (initCharacterBufferFromString example_buffer [102, 111, 111]) 34 = None"
  by (rule unterminated_include_diverges) (simp_all add: init_from_string to_char_def)

end
