(* ===== verification/Lexer.thy ===== *)
theory Lexer
  imports LexemBuffer
begin

text \<open>
  Models \<^verbatim>\<open>lexer.c\<close>: characters in, lexems out. The state of a scan is the character buffer,
  the lexem buffer, the flags of the parse that the lexer sets, the position it selects for
  the cursor and the messages it sends. The configuration of the parse is a parameter. A loop
  over the characters that may not end is a partial function.
\<close>

section \<open>Lexem codes of the lexer\<close>

definition INC_OP :: lexemCode where "INC_OP = 258"
definition DEC_OP :: lexemCode where "DEC_OP = 259"
definition LEFT_OP :: lexemCode where "LEFT_OP = 260"
definition RIGHT_OP :: lexemCode where "RIGHT_OP = 261"
definition LE_OP :: lexemCode where "LE_OP = 262"
definition GE_OP :: lexemCode where "GE_OP = 263"
definition EQ_OP :: lexemCode where "EQ_OP = 264"
definition NE_OP :: lexemCode where "NE_OP = 265"
definition AND_OP :: lexemCode where "AND_OP = 266"
definition OR_OP :: lexemCode where "OR_OP = 267"
definition MUL_ASSIGN :: lexemCode where "MUL_ASSIGN = 268"
definition DIV_ASSIGN :: lexemCode where "DIV_ASSIGN = 269"
definition MOD_ASSIGN :: lexemCode where "MOD_ASSIGN = 270"
definition ADD_ASSIGN :: lexemCode where "ADD_ASSIGN = 271"
definition SUB_ASSIGN :: lexemCode where "SUB_ASSIGN = 272"
definition LEFT_ASSIGN :: lexemCode where "LEFT_ASSIGN = 273"
definition RIGHT_ASSIGN :: lexemCode where "RIGHT_ASSIGN = 274"
definition AND_ASSIGN :: lexemCode where "AND_ASSIGN = 275"
definition XOR_ASSIGN :: lexemCode where "XOR_ASSIGN = 276"
definition OR_ASSIGN :: lexemCode where "OR_ASSIGN = 277"
definition PTR_OP :: lexemCode where "PTR_OP = 278"
definition ELLIPSIS :: lexemCode where "ELLIPSIS = 279"
definition CPP_INCLUDE :: lexemCode where "CPP_INCLUDE = 336"
definition CPP_INCLUDE_NEXT :: lexemCode where "CPP_INCLUDE_NEXT = 337"
definition CPP_DEFINE :: lexemCode where "CPP_DEFINE = 338"
definition CPP_IFDEF :: lexemCode where "CPP_IFDEF = 339"
definition CPP_IFNDEF :: lexemCode where "CPP_IFNDEF = 340"
definition CPP_IF :: lexemCode where "CPP_IF = 341"
definition CPP_ELSE :: lexemCode where "CPP_ELSE = 342"
definition CPP_ENDIF :: lexemCode where "CPP_ENDIF = 343"
definition CPP_ELIF :: lexemCode where "CPP_ELIF = 344"
definition CPP_UNDEF :: lexemCode where "CPP_UNDEF = 345"
definition CPP_PRAGMA :: lexemCode where "CPP_PRAGMA = 346"
definition CPP_LINE :: lexemCode where "CPP_LINE = 347"
definition CPP_DEFINE0 :: lexemCode where "CPP_DEFINE0 = 348"
definition CPP_COLLATION :: lexemCode where "CPP_COLLATION = 350"
definition OL_MARKER_TOKEN :: lexemCode where "OL_MARKER_TOKEN = 355"

lemmas lexem_codes = INC_OP_def DEC_OP_def LEFT_OP_def RIGHT_OP_def LE_OP_def GE_OP_def EQ_OP_def
  NE_OP_def AND_OP_def OR_OP_def MUL_ASSIGN_def DIV_ASSIGN_def MOD_ASSIGN_def ADD_ASSIGN_def
  SUB_ASSIGN_def LEFT_ASSIGN_def RIGHT_ASSIGN_def AND_ASSIGN_def XOR_ASSIGN_def OR_ASSIGN_def
  PTR_OP_def ELLIPSIS_def CPP_INCLUDE_def CPP_INCLUDE_NEXT_def CPP_DEFINE_def CPP_IFDEF_def
  CPP_IFNDEF_def CPP_IF_def CPP_ELSE_def CPP_ENDIF_def CPP_ELIF_def CPP_UNDEF_def CPP_PRAGMA_def
  CPP_LINE_def CPP_DEFINE0_def CPP_COLLATION_def OL_MARKER_TOKEN_def

section \<open>Configuration and state\<close>

datatype parserOperation =
    PARSE_TO_CREATE_REFERENCES | PARSE_TO_GET_FUNCTION_BOUNDS | PARSE_TO_VALIDATE_MOVE_TARGET
  | PARSE_TO_EXTRACT | PARSE_TO_TRACK_PARAMETERS | PARSE_TO_COMPLETE

record parsingConfig =
  pc_operation :: parserOperation
  pc_fileNumber :: int
  pc_language :: language
  pc_cursorOffset :: int
  pc_markOffset :: int
  pc_noFileNumber :: int

definition needsReferenceAtCursor :: "parserOperation \<Rightarrow> bool" where
  "needsReferenceAtCursor op \<longleftrightarrow>
     op \<noteq> PARSE_TO_EXTRACT \<and> op \<noteq> PARSE_TO_COMPLETE \<and> op \<noteq> PARSE_TO_VALIDATE_MOVE_TARGET"

definition allowsDuplicateReferences :: "parserOperation \<Rightarrow> bool" where
  "allowsDuplicateReferences op \<longleftrightarrow> op = PARSE_TO_EXTRACT"

record lexing =
  cbuf :: characterBuffer
  lbuf :: lexemBuffer
  regionMarkerAtCursorInserted :: bool
  regionMarkerAtMarkInserted :: bool
  positionOfSelectedReference :: position
  parsingMessages :: "(position \<times> string) list"

section \<open>Scanning\<close>

definition newline_char :: "characterBuffer \<Rightarrow> int \<Rightarrow> characterBuffer" where
  "newline_char cb ch = (if ch = 10 then next_line cb else cb)"

partial_function (option) comment_loop ::
  "characterBuffer \<Rightarrow> int \<Rightarrow> (int \<times> characterBuffer) option" where
  "comment_loop cb oldCh =
     (let (ch, cb1) = getChar cb; cb2 = newline_char cb1 ch in
      if (oldCh \<noteq> 42 \<or> ch \<noteq> 47) \<and> ch \<noteq> -1 then comment_loop cb2 ch else Some (ch, cb2))"

definition scanComment :: "lexing \<Rightarrow> lexing option" where
  "scanComment st = do {
     let cb = cbuf st;
     let start = makePosition (fileNumberFrom cb) (lineNumberFrom cb) (columnPosition cb - 1);
     let (ch, cb1) = getChar cb;
     (ch2, cb2) \<leftarrow> comment_loop (newline_char cb1 ch) ch;
     let st1 = st\<lparr>cbuf := cb2\<rparr>;
     Some (if ch2 = -1
           then st1\<lparr>parsingMessages := parsingMessages st @ [(start, ''unterminated comment'')]\<rparr> else st1)
   }"

partial_function (option) constant_type_loop ::
  "lexemCode \<Rightarrow> characterBuffer \<Rightarrow> int \<Rightarrow> (lexemCode \<times> int \<times> characterBuffer) option" where
  "constant_type_loop lexem cb ch =
     (if ch = 108 \<or> ch = 76 \<or> ch = 117 \<or> ch = 85
      then constant_type_loop (if ch = 108 \<or> ch = 76 then LONG_CONSTANT else lexem)
             (snd (getChar cb)) (fst (getChar cb))
      else Some (lexem, ch, cb))"

definition scanConstantType ::
  "characterBuffer \<Rightarrow> int \<Rightarrow> (lexemCode \<times> int \<times> characterBuffer) option" where
  "scanConstantType cb ch = constant_type_loop CONSTANT cb ch"

partial_function (option) skip_digits :: "characterBuffer \<Rightarrow> int \<Rightarrow> (int \<times> characterBuffer) option" where
  "skip_digits cb ch =
     (if c_isdigit ch then skip_digits (snd (getChar cb)) (fst (getChar cb)) else Some (ch, cb))"

definition scanFloatingPointConstant ::
  "characterBuffer \<Rightarrow> int \<Rightarrow> (lexemCode \<times> int \<times> characterBuffer) option" where
  "scanFloatingPointConstant cb ch = do {
     (ch1, cb1) \<leftarrow> (if ch = 46 then skip_digits (snd (getChar cb)) (fst (getChar cb)) else Some (ch, cb));
     (ch2, cb2) \<leftarrow>
       (if ch1 = 101 \<or> ch1 = 69 then
          (let (e, cbe) = getChar cb1;
               (e', cbe') = (if e = 43 \<or> e = 45 then getChar cbe else (e, cbe))
           in skip_digits cbe' e')
        else Some (ch1, cb1));
     let (ch3, cb3) = (if ch2 = 102 \<or> ch2 = 70 \<or> ch2 = 108 \<or> ch2 = 76 then getChar cb2 else (ch2, cb2));
     Some (DOUBLE_CONSTANT, ch3, cb3)
   }"

definition noteNewLexemPosition :: "lexing \<Rightarrow> lexing" where
  "noteNewLexemPosition st =
     (let cb = cbuf st in
      st\<lparr>lbuf := lbuf st\<lparr>lb_fileOffset := fileOffsetFor cb,
           lb_position := Position (cb_fileNumber cb) (cb_lineNumber cb) (columnPosition cb)\<rparr>\<rparr>)"

definition preprocessorLexemFromString :: "string \<Rightarrow> lexemCode" where
  "preprocessorLexemFromString preprocessorWord =
     (if strcmp preprocessorWord ''ifdef'' = 0 then CPP_IFDEF
      else if strcmp preprocessorWord ''ifndef'' = 0 then CPP_IFNDEF
      else if strcmp preprocessorWord ''if'' = 0 then CPP_IF
      else if strcmp preprocessorWord ''elif'' = 0 then CPP_ELIF
      else if strcmp preprocessorWord ''undef'' = 0 then CPP_UNDEF
      else if strcmp preprocessorWord ''else'' = 0 then CPP_ELSE
      else if strcmp preprocessorWord ''endif'' = 0 then CPP_ENDIF
      else if strcmp preprocessorWord ''pragma'' = 0 then CPP_PRAGMA
      else if strcmp preprocessorWord ''include'' = 0 then CPP_INCLUDE
      else if strcmp preprocessorWord ''include_next'' = 0 then CPP_INCLUDE_NEXT
      else if strcmp preprocessorWord ''define'' = 0 then CPP_DEFINE0
      else CPP_LINE)"

definition word_char :: "int \<Rightarrow> bool" where
  "word_char ch \<longleftrightarrow> c_isalpha ch \<or> c_isdigit ch \<or> ch = 95"

partial_function (option) word_loop ::
  "characterBuffer \<Rightarrow> int \<Rightarrow> int list \<Rightarrow> (int \<times> int list \<times> characterBuffer) option" where
  "word_loop cb ch word =
     (if word_char ch then word_loop (snd (getChar cb)) (fst (getChar cb)) (word @ [ch])
      else Some (ch, word, cb))"

text \<open>
  The array for the word is not initialised: without a word it holds whatever it held, \<open>stale\<close>.
  It has room for 30 characters with the terminating zero; a longer word is written past it,
  which has no result here.
\<close>

definition extractPreprocessorWord ::
  "string \<Rightarrow> characterBuffer \<Rightarrow> (int \<times> string \<times> characterBuffer) option" where
  "extractPreprocessorWord stale cb = do {
     let (ch, cb1) = getChar cb;
     (ch1, cb2) \<leftarrow> skipBlanks cb1 ch;
     (ch2, word, cb3) \<leftarrow> word_loop cb2 ch1 [];
     if length word \<ge> 30 then None
     else Some (ch2, if word = [] then stale else map char_of word, cb3)
   }"

definition processCppToken :: "parsingConfig \<Rightarrow> string \<Rightarrow> lexing \<Rightarrow> (int \<times> lexing) option" where
  "processCppToken cfg stale st0 = do {
     let st = noteNewLexemPosition st0;
     let column = columnPosition (cbuf st);
     (ch, preprocessorWord, cb) \<leftarrow> extractPreprocessorWord stale (cbuf st);
     let lexem = preprocessorLexemFromString preprocessorWord;
     if lexem = CPP_INCLUDE \<or> lexem = CPP_INCLUDE_NEXT then do {
       lb1 \<leftarrow> putLexemWithColumn (lbuf st) lexem cb column;
       (ch1, lb2, cb2) \<leftarrow> putIncludeString lb1 cb ch;
       Some (ch1, st\<lparr>lbuf := lb2, cbuf := cb2\<rparr>)
     } else if lexem = CPP_DEFINE0 then do {
       lb1 \<leftarrow> putLexemWithColumn (saveBackpatchPosition (lbuf st)) lexem cb column;
       (ch1, cb1) \<leftarrow> skipBlanks cb ch;
       let st1 = noteNewLexemPosition (st\<lparr>lbuf := lb1, cbuf := cb1\<rparr>);
       (ch2, lb2, cb2) \<leftarrow> putIdentifierLexem (pc_language cfg) (lbuf st1) (cbuf st1) ch1;
       lb3 \<leftarrow> (if ch2 = 40 then backpatchLexemCode lb2 CPP_DEFINE else Some lb2);
       Some (ch2, st1\<lparr>lbuf := lb3, cbuf := cb2\<rparr>)
     } else do {
       lb1 \<leftarrow> putLexemWithColumn (lbuf st) lexem cb column;
       Some (ch, st\<lparr>lbuf := lb1, cbuf := cb\<rparr>)
     }
   }"

definition lexemStartsBeforeCursor :: "parsingConfig \<Rightarrow> int \<Rightarrow> bool" where
  "lexemStartsBeforeCursor cfg fileOffsetForCurrentLexem \<longleftrightarrow> fileOffsetForCurrentLexem < pc_cursorOffset cfg"

definition lexemEndsAfterCursor :: "parsingConfig \<Rightarrow> int \<Rightarrow> bool" where
  "lexemEndsAfterCursor cfg currentOffset \<longleftrightarrow> currentOffset \<ge> pc_cursorOffset cfg"

definition cursorIsAfterLastLexemInFile :: "parsingConfig \<Rightarrow> int \<Rightarrow> bool" where
  "cursorIsAfterLastLexemInFile cfg currentOffset \<longleftrightarrow> currentOffset + 1 = pc_cursorOffset cfg"

definition processCompletionOrSearch ::
  "parsingConfig \<Rightarrow> characterBuffer \<Rightarrow> lexemBuffer \<Rightarrow> position \<Rightarrow> int \<Rightarrow> int \<Rightarrow> lexemCode
    \<Rightarrow> lexemBuffer option" where
  "processCompletionOrSearch cfg cb lb position fileOffsetForCurrentLexem deltaOffset thisLexemCode =
     (let currentOffset = fileOffsetFor cb in
      if lexemStartsBeforeCursor cfg fileOffsetForCurrentLexem
         \<and> (lexemEndsAfterCursor cfg currentOffset
            \<or> (cb_isAtEOF cb \<and> cursorIsAfterLastLexemInFile cfg currentOffset)) then
        (if thisLexemCode = IDENTIFIER then do {
           len \<leftarrow> strlenOfBackpatchedIdentifier lb;
           if deltaOffset \<le> len then do {
             lb1 \<leftarrow> backpatchLexemCode lb IDENT_TO_COMPLETE;
             if pc_operation cfg = PARSE_TO_COMPLETE then
               putLexemPosition
                 (terminateLexemString (moveLexemStreamWriteToBackpatchPositonWithOffset lb1 deltaOffset))
                 position
             else Some lb1
           } else putCompletionLexem lb cb (currentOffset - pc_cursorOffset cfg)
         }
         else if (thisLexemCode = LINE_TOKEN \<or> thisLexemCode = STRING_LITERAL)
                 \<and> currentOffset \<noteq> pc_cursorOffset cfg then Some lb
         else putCompletionLexem lb cb (currentOffset - pc_cursorOffset cfg))
      else Some lb)"

text \<open>Integer constants are read into an \<^verbatim>\<open>unsigned long\<close>. An octal one may have the digit 8.\<close>

definition hex_char :: "int \<Rightarrow> bool" where
  "hex_char ch \<longleftrightarrow> c_isdigit ch \<or> (97 \<le> ch \<and> ch \<le> 102) \<or> (65 \<le> ch \<and> ch \<le> 70)"

partial_function (option) hex_loop ::
  "characterBuffer \<Rightarrow> int \<Rightarrow> 64 word \<Rightarrow> (int \<times> 64 word \<times> characterBuffer) option" where
  "hex_loop cb ch v =
     (if hex_char ch then
        hex_loop (snd (getChar cb)) (fst (getChar cb))
          (if ch \<ge> 97 then v * 16 + word_of_int ch - 97 + 10
           else if ch \<ge> 65 then v * 16 + word_of_int ch - 65 + 10
           else v * 16 + word_of_int ch - 48)
      else Some (ch, v, cb))"

partial_function (option) octal_loop ::
  "characterBuffer \<Rightarrow> int \<Rightarrow> 64 word \<Rightarrow> (int \<times> 64 word \<times> characterBuffer) option" where
  "octal_loop cb ch v =
     (if c_isdigit ch \<and> ch \<le> 56 then
        octal_loop (snd (getChar cb)) (fst (getChar cb)) (v * 8 + word_of_int ch - 48)
      else Some (ch, v, cb))"

partial_function (option) decimal_loop ::
  "characterBuffer \<Rightarrow> int \<Rightarrow> 64 word \<Rightarrow> (int \<times> 64 word \<times> characterBuffer) option" where
  "decimal_loop cb ch v =
     (if c_isdigit ch then
        decimal_loop (snd (getChar cb)) (fst (getChar cb)) (v * 10 + word_of_int ch - 48)
      else Some (ch, v, cb))"

definition scanIntegerValue ::
  "characterBuffer \<Rightarrow> int \<Rightarrow> (int \<times> 64 word \<times> characterBuffer) option" where
  "scanIntegerValue cb ch =
     (if ch = 48 then
        (let (ch1, cb1) = getChar cb in
         if ch1 = 120 \<or> ch1 = 88 then hex_loop (snd (getChar cb1)) (fst (getChar cb1)) 0
         else octal_loop cb1 ch1 0)
      else decimal_loop cb ch 0)"

partial_function (option) escape_loop :: "characterBuffer \<Rightarrow> int \<Rightarrow> (int \<times> characterBuffer) option" where
  "escape_loop cb ch =
     (if ch = 92 then
        (let (_, cb1) = getChar cb in escape_loop (snd (getChar cb1)) (fst (getChar cb1)))
      else Some (ch, cb))"

partial_function (option) char_constant_loop ::
  "characterBuffer \<Rightarrow> 32 word \<Rightarrow> (int \<times> 32 word \<times> characterBuffer) option" where
  "char_constant_loop cb chval =
     Option.bind (escape_loop (snd (getChar cb)) (fst (getChar cb))) (\<lambda>(ch, cb1).
       let chval1 = (if ch \<noteq> 39 then chval * 256 + word_of_int ch else chval) in
       if ch \<noteq> 39 \<and> ch \<noteq> 10 then char_constant_loop cb1 chval1 else Some (ch, chval1, cb1))"

definition handleCharConstant :: "lexing \<Rightarrow> int \<Rightarrow> (int \<times> lexing) option" where
  "handleCharConstant st lexemStartingColumn = do {
     let fileOffsetForLexemStart = fileOffsetFor (cbuf st);
     (ch, chval, cb) \<leftarrow> char_constant_loop (cbuf st) 0;
     if ch = 39 then do {
       lb \<leftarrow> putCharLiteralLexem (lbuf st) cb lexemStartingColumn
               (fileOffsetFor cb - fileOffsetForLexemStart) (uint chval);
       let (ch1, cb1) = getChar cb;
       Some (ch1, st\<lparr>cbuf := cb1, lbuf := lb\<rparr>)
     } else Some (ch, st\<lparr>cbuf := cb\<rparr>)
   }"

definition comment_lines :: "lexing \<Rightarrow> lexing option" where
  "comment_lines st = do {
     let line = lineNumberFrom (cbuf st);
     st1 \<leftarrow> scanComment st;
     lb \<leftarrow> putLexemLines (lbuf st1) (lineNumberFrom (cbuf st1) - line);
     Some (st1\<lparr>lbuf := lb\<rparr>)
   }"

definition get_char :: "lexing \<Rightarrow> int \<times> lexing" where
  "get_char st = (let (ch, cb) = getChar (cbuf st) in (ch, st\<lparr>cbuf := cb\<rparr>))"

definition unget_char :: "lexing \<Rightarrow> int \<Rightarrow> lexing" where
  "unget_char st ch = st\<lparr>cbuf := ungetChar (cbuf st) ch\<rparr>"

definition handleBlockComment :: "lexing \<Rightarrow> (int \<times> lexing) option" where
  "handleBlockComment st =
     (let (ch, st1) = get_char st in
      if ch = 38 then Some (get_char st1)
      else do { st2 \<leftarrow> comment_lines (unget_char st1 ch); Some (get_char st2) })"

partial_function (option) line_comment_loop ::
  "characterBuffer \<Rightarrow> int \<Rightarrow> (int \<times> characterBuffer) option" where
  "line_comment_loop cb ch =
     (if ch \<noteq> 10 \<and> ch \<noteq> -1 then
        (let (ch1, cb1) = getChar cb;
             (ch2, cb2) = (if ch1 = 92
                           then (let (e, cbe) = getChar cb1 in getChar (newline_char cbe e))
                           else (ch1, cb1))
         in line_comment_loop cb2 ch2)
      else Some (ch, cb))"

definition handleLineComment :: "lexing \<Rightarrow> (int \<times> lexing) option" where
  "handleLineComment st =
     (let (ch, st1) = get_char st in
      if ch = 38 then Some (get_char st1)
      else do {
        let line = lineNumberFrom (cbuf st1);
        (ch1, cb) \<leftarrow> line_comment_loop (cbuf st1) ch;
        lb \<leftarrow> putLexemLines (lbuf st1) (lineNumberFrom cb - line);
        Some (ch1, st1\<lparr>cbuf := cb, lbuf := lb\<rparr>)
      })"

definition MAX_REFERENCABLE :: int where
  "MAX_REFERENCABLE = 4194304"

definition skip_blanks :: "lexing \<Rightarrow> int \<Rightarrow> (int \<times> lexing) option" where
  "skip_blanks st ch = do { (ch1, cb) \<leftarrow> skipBlanks (cbuf st) ch; Some (ch1, st\<lparr>cbuf := cb\<rparr>) }"

definition handleNewline :: "parsingConfig \<Rightarrow> string \<Rightarrow> lexing \<Rightarrow> int \<Rightarrow> (int \<times> lexing) option" where
  "handleNewline cfg stale st lexemStartingColumn =
     (if columnPosition (cbuf st) \<ge> MAX_REFERENCABLE then None
      else if lineNumberFrom (cbuf st) \<ge> MAX_REFERENCABLE then None
      else do {
        let (ch, st1) = get_char (st\<lparr>cbuf := next_line (cbuf st)\<rparr>);
        (ch1, st2) \<leftarrow> skip_blanks st1 ch;
        (ch2, st3) \<leftarrow>
          (if ch1 = 47 then
             (let (c, sta) = get_char st2 in
              if c = 42 then
                (let (d, stb) = get_char sta in
                 if d = 38 then Some (get_char stb)
                 else do {
                   stc \<leftarrow> comment_lines (unget_char stb d);
                   let (e, std) = get_char stc;
                   skip_blanks std e
                 })
              else Some (47, unget_char sta c))
           else Some (ch1, st2));
        lb \<leftarrow> putLexemWithColumn (lbuf st3) 10 (cbuf st3) lexemStartingColumn;
        let st4 = st3\<lparr>lbuf := lb\<rparr>;
        if ch2 = 35 then processCppToken cfg stale st4 else Some (ch2, st4)
      })"

section \<open>Markers of regions and of the cursor\<close>

definition putRegionMarker :: "lexemBuffer \<Rightarrow> int \<Rightarrow> position \<Rightarrow> lexemBuffer option" where
  "putRegionMarker lb parChar position = do {
     lb1 \<leftarrow> putLexemCodeWithPosition lb parChar position;
     lb2 \<leftarrow> putLexemCodeWithPosition lb1 59 position;
     lb3 \<leftarrow> putLexemCodeWithPosition lb2 OL_MARKER_TOKEN position;
     putLexemCodeWithPosition lb3 parChar position
   }"

definition putRegionBeginMarker :: "lexemBuffer \<Rightarrow> position \<Rightarrow> lexemBuffer option" where
  "putRegionBeginMarker lb position = putRegionMarker lb 123 position"

definition putRegionEndMarker :: "lexemBuffer \<Rightarrow> position \<Rightarrow> lexemBuffer option" where
  "putRegionEndMarker lb position = putRegionMarker lb 125 position"

definition skipPossibleStringPrefix :: "characterBuffer \<Rightarrow> int \<Rightarrow> int \<times> characterBuffer" where
  "skipPossibleStringPrefix cb ch =
     (if ch = 76 \<or> ch = 117 \<or> ch = 85 then
        (let (secondCharacter, cb1) = getChar cb in
         if secondCharacter = 34 then (secondCharacter, cb1)
         else if secondCharacter = 56 then
           (let (thirdCharacter, cb2) = getChar cb1 in
            if thirdCharacter = 34 then (thirdCharacter, cb2)
            else (ch, ungetChar (ungetChar cb2 thirdCharacter) secondCharacter))
         else (ch, ungetChar cb1 secondCharacter))
      else (ch, cb))"

definition putRegionBeginOrEndMarker :: "parsingConfig \<Rightarrow> lexing \<Rightarrow> position \<Rightarrow> lexing option" where
  "putRegionBeginOrEndMarker cfg st position =
     (let offset = fileOffsetFor (cbuf st) in
      if offset \<ge> pc_cursorOffset cfg \<and> \<not> regionMarkerAtCursorInserted st then do {
        lb \<leftarrow> (if regionMarkerAtMarkInserted st then putRegionEndMarker (lbuf st) position
               else putRegionBeginMarker (lbuf st) position);
        Some (st\<lparr>lbuf := lb, regionMarkerAtCursorInserted := True\<rparr>)
      } else if offset \<ge> pc_markOffset cfg \<and> \<not> regionMarkerAtMarkInserted st then do {
        lb \<leftarrow> (if regionMarkerAtCursorInserted st then putRegionEndMarker (lbuf st) position
               else putRegionBeginMarker (lbuf st) position);
        Some (st\<lparr>lbuf := lb, regionMarkerAtMarkInserted := True\<rparr>)
      } else Some st)"

definition postProcessLexemForServerOperations ::
  "parsingConfig \<Rightarrow> lexing \<Rightarrow> int \<Rightarrow> int \<Rightarrow> (int \<times> lexing) option" where
  "postProcessLexemForServerOperations cfg st ch startOfCurrentLexem =
     (let currentLexemFileOffset = lb_fileOffset (lbuf st);
          position = lb_position (lbuf st);
          f = fileNumberFrom (cbuf st) in
      if f = -1 then None
      else if f = pc_fileNumber cfg \<and> f \<noteq> pc_noFileNumber cfg then
        (if pc_operation cfg = PARSE_TO_EXTRACT then do {
           (ch1, st1) \<leftarrow> skip_blanks st ch;
           st2 \<leftarrow> putRegionBeginOrEndMarker cfg st1 position;
           Some (ch1, st2)
         } else if pc_operation cfg = PARSE_TO_COMPLETE then do {
           (ch1, st1) \<leftarrow> skip_blanks st ch;
           let lexem = peekLexemCodeAt (lb_stream (lbuf st1)) startOfCurrentLexem;
           lb \<leftarrow> processCompletionOrSearch cfg (cbuf st1) (lbuf st1) position currentLexemFileOffset
                   (pc_cursorOffset cfg - currentLexemFileOffset) lexem;
           Some (ch1, st1\<lparr>lbuf := lb\<rparr>)
         } else do {
           let st1 = (if currentLexemFileOffset \<le> pc_cursorOffset cfg
                         \<and> fileOffsetFor (cbuf st) \<ge> pc_cursorOffset cfg
                         \<and> needsReferenceAtCursor (pc_operation cfg)
                      then st\<lparr>positionOfSelectedReference := position\<rparr> else st);
           if pc_operation cfg = PARSE_TO_VALIDATE_MOVE_TARGET then do {
             (ch1, st2) \<leftarrow> skip_blanks st1 ch;
             let apos = fileOffsetFor (cbuf st2);
             if apos \<ge> pc_cursorOffset cfg \<and> \<not> regionMarkerAtCursorInserted st2 then do {
               lb \<leftarrow> putLexemCodeWithPosition (lbuf st2) OL_MARKER_TOKEN position;
               Some (ch1, st2\<lparr>lbuf := lb, regionMarkerAtCursorInserted := True\<rparr>)
             } else Some (ch1, st2)
           } else Some (ch, st1)
         })
      else Some (ch, st))"

section \<open>The lexems\<close>

text \<open>
  One lexem put with the starting column. \<open>put_then_get\<close> puts it before the next character is
  read, as most branches do; the position takes its line from the buffer at that moment.
\<close>

definition put_lexem :: "lexing \<Rightarrow> lexemCode \<Rightarrow> int \<Rightarrow> lexing option" where
  "put_lexem st lexem column = do {
     lb \<leftarrow> putLexemWithColumn (lbuf st) lexem (cbuf st) column;
     Some (st\<lparr>lbuf := lb\<rparr>)
   }"

definition put_then_get :: "lexing \<Rightarrow> lexemCode \<Rightarrow> int \<Rightarrow> (int \<times> lexing) option" where
  "put_then_get st lexem column = do { st1 \<leftarrow> put_lexem st lexem column; Some (get_char st1) }"

definition put_keep :: "lexing \<Rightarrow> lexemCode \<Rightarrow> int \<Rightarrow> int \<Rightarrow> (int \<times> lexing) option" where
  "put_keep st lexem column ch = do { st1 \<leftarrow> put_lexem st lexem column; Some (ch, st1) }"

definition lex_number :: "lexing \<Rightarrow> int \<Rightarrow> int \<Rightarrow> (int \<times> lexing) option" where
  "lex_number st ch column = do {
     let start = fileOffsetFor (cbuf st);
     (ch1, integerValue, cb1) \<leftarrow> scanIntegerValue (cbuf st) ch;
     if ch1 = 46 \<or> ch1 = 101 \<or> ch1 = 69 then do {
       (lexem, ch2, cb2) \<leftarrow> scanFloatingPointConstant cb1 ch1;
       lb \<leftarrow> putFloatingPointLexem (lbuf st) lexem cb2 column start;
       Some (ch2, st\<lparr>cbuf := cb2, lbuf := lb\<rparr>)
     } else do {
       (lexem, ch2, cb2) \<leftarrow> scanConstantType cb1 ch1;
       lb \<leftarrow> putIntegerLexem (lbuf st) lexem integerValue cb2 column start;
       Some (ch2, st\<lparr>cbuf := cb2, lbuf := lb\<rparr>)
     }
   }"

definition lex_dot :: "lexing \<Rightarrow> int \<Rightarrow> (int \<times> lexing) option" where
  "lex_dot st column =
     (let start = fileOffsetFor (cbuf st); (ch, st1) = get_char st in
      if ch = 46 then
        (let (ch2, st2) = get_char st1 in
         if ch2 = 46 then
           (let (ch3, st3) = get_char st2 in put_keep st3 ELLIPSIS column ch3)
         else put_keep (unget_char st2 ch2) 46 column 46)
      else if c_isdigit ch then do {
        (lexem, ch2, cb2) \<leftarrow> scanFloatingPointConstant (ungetChar (cbuf st1) ch) 46;
        lb \<leftarrow> putFloatingPointLexem (lbuf st1) lexem cb2 column start;
        Some (ch2, st1\<lparr>cbuf := cb2, lbuf := lb\<rparr>)
      }
      else put_keep st1 46 column ch)"

definition lex_minus :: "lexing \<Rightarrow> int \<Rightarrow> (int \<times> lexing) option" where
  "lex_minus st column =
     (let (ch, st1) = get_char st in
      if ch = 61 then put_then_get st1 SUB_ASSIGN column
      else if ch = 45 then put_then_get st1 DEC_OP column
      else if ch = 62 then (let (ch2, st2) = get_char st1 in put_keep st2 PTR_OP column ch2)
      else put_keep st1 45 column ch)"

definition lex_plus :: "lexing \<Rightarrow> int \<Rightarrow> (int \<times> lexing) option" where
  "lex_plus st column =
     (let (ch, st1) = get_char st in
      if ch = 61 then put_then_get st1 ADD_ASSIGN column
      else if ch = 43 then put_then_get st1 INC_OP column
      else put_keep st1 43 column ch)"

definition lex_greater :: "lexing \<Rightarrow> int \<Rightarrow> (int \<times> lexing) option" where
  "lex_greater st column =
     (let (ch, st1) = get_char st in
      if ch = 62 then
        (let (ch2, st2) = get_char st1 in
         if ch2 = 61 then put_then_get st2 RIGHT_ASSIGN column else put_keep st2 RIGHT_OP column ch2)
      else if ch = 61 then put_then_get st1 GE_OP column
      else put_keep st1 62 column ch)"

definition lex_less :: "lexing \<Rightarrow> int \<Rightarrow> (int \<times> lexing) option" where
  "lex_less st column =
     (let (ch, st1) = get_char st in
      if ch = 60 then
        (let (ch2, st2) = get_char st1 in
         if ch2 = 61 then put_then_get st2 LEFT_ASSIGN column else put_keep st2 LEFT_OP column ch2)
      else if ch = 61 then put_then_get st1 LE_OP column
      else put_keep st1 60 column ch)"

text \<open>The operators with one assigning form: \<^verbatim>\<open>*\<close>, \<^verbatim>\<open>%\<close>, \<^verbatim>\<open>^\<close>, \<^verbatim>\<open>=\<close> and \<^verbatim>\<open>!\<close>.\<close>

definition lex_star :: "lexing \<Rightarrow> int \<Rightarrow> (int \<times> lexing) option" where
  "lex_star st column =
     (let (ch, st1) = get_char st in
      if ch = 61 then put_then_get st1 MUL_ASSIGN column else put_keep st1 42 column ch)"

definition lex_percent :: "lexing \<Rightarrow> int \<Rightarrow> (int \<times> lexing) option" where
  "lex_percent st column =
     (let (ch, st1) = get_char st in
      if ch = 61 then put_then_get st1 MOD_ASSIGN column else put_keep st1 37 column ch)"

definition lex_caret :: "lexing \<Rightarrow> int \<Rightarrow> (int \<times> lexing) option" where
  "lex_caret st column =
     (let (ch, st1) = get_char st in
      if ch = 61 then put_then_get st1 XOR_ASSIGN column else put_keep st1 94 column ch)"

definition lex_equal :: "lexing \<Rightarrow> int \<Rightarrow> (int \<times> lexing) option" where
  "lex_equal st column =
     (let (ch, st1) = get_char st in
      if ch = 61 then put_then_get st1 EQ_OP column else put_keep st1 61 column ch)"

definition lex_exclamation :: "lexing \<Rightarrow> int \<Rightarrow> (int \<times> lexing) option" where
  "lex_exclamation st column =
     (let (ch, st1) = get_char st in
      if ch = 61 then put_then_get st1 NE_OP column else put_keep st1 33 column ch)"

definition lex_ampersand :: "lexing \<Rightarrow> int \<Rightarrow> (int \<times> lexing) option" where
  "lex_ampersand st column =
     (let (ch, st1) = get_char st in
      if ch = 61 then put_then_get st1 AND_ASSIGN column
      else if ch = 38 then put_then_get st1 AND_OP column
      else if ch = 42 then
        (let (ch2, st2) = get_char st1 in
         if ch2 = 47 then Some (get_char st2)
         else put_keep (unget_char st2 ch2) 38 column 42)
      else put_keep st1 38 column ch)"

definition lex_bar :: "lexing \<Rightarrow> int \<Rightarrow> (int \<times> lexing) option" where
  "lex_bar st column =
     (let (ch, st1) = get_char st in
      if ch = 61 then put_then_get st1 OR_ASSIGN column
      else if ch = 124 then put_then_get st1 OR_OP column
      else put_keep st1 124 column ch)"

definition lex_slash :: "lexing \<Rightarrow> int \<Rightarrow> (int \<times> lexing) option" where
  "lex_slash st column =
     (let (ch, st1) = get_char st in
      if ch = 61 then put_then_get st1 DIV_ASSIGN column
      else if ch = 42 then handleBlockComment st1
      else if ch = 47 then handleLineComment st1
      else put_keep st1 47 column ch)"

definition lex_backslash :: "lexing \<Rightarrow> int \<Rightarrow> (int \<times> lexing) option" where
  "lex_backslash st column =
     (let (ch, st1) = get_char st in
      if ch = 10 then do {
        let st2 = st1\<lparr>cbuf := next_line (cbuf st1)\<rparr>;
        lb \<leftarrow> putLexemLines (lbuf st2) 1;
        Some (get_char (st2\<lparr>lbuf := lb\<rparr>))
      } else put_keep st1 92 column ch)"

definition lex_hash :: "lexing \<Rightarrow> int \<Rightarrow> (int \<times> lexing) option" where
  "lex_hash st column =
     (let (ch, st1) = get_char st in
      if ch = 35 then (let (ch2, st2) = get_char st1 in put_keep st2 CPP_COLLATION column ch2)
      else put_keep st1 35 column ch)"

definition lex_string :: "lexing \<Rightarrow> int \<Rightarrow> (int \<times> lexing) option" where
  "lex_string st column = do {
     (lb, cb) \<leftarrow> putStringConstantLexem (lbuf st) (cbuf st) column;
     Some (get_char (st\<lparr>lbuf := lb, cbuf := cb\<rparr>))
   }"

definition lex_switch :: "parsingConfig \<Rightarrow> string \<Rightarrow> lexing \<Rightarrow> int \<Rightarrow> int \<Rightarrow> (int \<times> lexing) option" where
  "lex_switch cfg stale st ch column =
     (if ch = 46 then lex_dot st column
      else if ch = 45 then lex_minus st column
      else if ch = 43 then lex_plus st column
      else if ch = 62 then lex_greater st column
      else if ch = 60 then lex_less st column
      else if ch = 42 then lex_star st column
      else if ch = 37 then lex_percent st column
      else if ch = 38 then lex_ampersand st column
      else if ch = 94 then lex_caret st column
      else if ch = 124 then lex_bar st column
      else if ch = 61 then lex_equal st column
      else if ch = 33 then lex_exclamation st column
      else if ch = 58 then (let (ch1, st1) = get_char st in put_keep st1 58 column ch1)
      else if ch = 39 then handleCharConstant st column
      else if ch = 34 then lex_string st column
      else if ch = 47 then lex_slash st column
      else if ch = 92 then lex_backslash st column
      else if ch = 10 then handleNewline cfg stale st column
      else if ch = 35 then lex_hash st column
      else if ch = -1 then Some (ch, st)
      else if ch \<ge> 32 then put_then_get st ch column
      else Some (get_char st))"

definition lex_one :: "parsingConfig \<Rightarrow> string \<Rightarrow> lexing \<Rightarrow> int \<Rightarrow> (int \<times> lexing) option" where
  "lex_one cfg stale st ch = do {
     let column = columnPosition (cbuf st);
     let (ch1, cb1) = skipPossibleStringPrefix (cbuf st) ch;
     let st1 = st\<lparr>cbuf := cb1\<rparr>;
     if ch1 = 95 \<or> c_isalpha ch1 \<or> (ch1 = 36 \<and> pc_language cfg = LANG_YACC) then do {
       (ch2, lb2, cb2) \<leftarrow> putIdentifierLexem (pc_language cfg) (lbuf st1) (cbuf st1) ch1;
       Some (ch2, st1\<lparr>lbuf := lb2, cbuf := cb2\<rparr>)
     }
     else if c_isdigit ch1 then lex_number st1 ch1 column
     else lex_switch cfg stale st1 ch1 column
   }"

text \<open>The loop ends with the last character read: \<open>EOF\<close>, or one put back when the buffer is full.\<close>

partial_function (option) build_loop ::
  "parsingConfig \<Rightarrow> string \<Rightarrow> int \<Rightarrow> lexing \<Rightarrow> int \<Rightarrow> (int \<times> lexing) option" where
  "build_loop cfg stale lexemLimit st ch =
     Option.bind (skip_blanks st ch) (\<lambda>(ch1, st1).
       if getLexemStreamWrite (lbuf st1) \<ge> lexemLimit then Some (ch1, unget_char st1 ch1)
       else
         (let st2 = noteNewLexemPosition st1;
              startOfCurrentLexem = getLexemStreamWrite (lbuf st2);
              st3 = st2\<lparr>lbuf := saveBackpatchPosition (lbuf st2)\<rparr> in
          Option.bind (lex_one cfg stale st3 ch1) (\<lambda>(ch4, st4).
            Option.bind (postProcessLexemForServerOperations cfg st4 ch4 startOfCurrentLexem) (\<lambda>(ch5, st5).
              if ch5 \<noteq> -1 then build_loop cfg stale lexemLimit st5 ch5 else Some (ch5, st5)))))"

definition buildLexemFromCharacters ::
  "parsingConfig \<Rightarrow> string \<Rightarrow> lexing \<Rightarrow> (bool \<times> lexing) option" where
  "buildLexemFromCharacters cfg stale st = do {
     let st1 = st\<lparr>lbuf := shiftAnyRemainingLexems (lbuf st)\<rparr>;
     let lexemLimit = getLexemStreamWrite (lbuf st1) + LEXEM_BUFFER_SIZE - MAX_LEXEM_SIZE;
     let (ch, st2) = get_char st1;
     (ch3, st3) \<leftarrow> build_loop cfg stale lexemLimit st2 ch;
     let f = fileNumberFrom (cbuf st3);
     st4 \<leftarrow>
       (if ch3 = -1 \<and> pc_operation cfg = PARSE_TO_VALIDATE_MOVE_TARGET \<and> f = pc_fileNumber cfg
           \<and> f \<noteq> pc_noFileNumber cfg \<and> \<not> regionMarkerAtCursorInserted st3
        then do {
          lb \<leftarrow> putLexemCodeWithPosition (lbuf st3) OL_MARKER_TOKEN (lb_position (lbuf st3));
          Some (st3\<lparr>lbuf := lb, regionMarkerAtCursorInserted := True\<rparr>)
        } else Some st3);
     Some (getLexemStreamWrite (lbuf st4) \<noteq> 0, st4)
   }"

section \<open>Reading with the laws of the reader\<close>

lemma get_char_simps:
  assumes "reader_ok (cbuf st)"
  shows "fst (get_char st) = reader.take_next (contents (cbuf st))"
    "contents (cbuf (snd (get_char st))) = tl (contents (cbuf st))"
    "reader_ok (cbuf (snd (get_char st)))"
    "same_line (cbuf st) (cbuf (snd (get_char st)))" "lbuf (snd (get_char st)) = lbuf st"
  using reader.get_law [OF assms] getChar_law(3) [OF assms]
  by (simp_all add: get_char_def case_prod_beta)

section \<open>Integer constants\<close>

definition digit_value :: "int \<Rightarrow> nat" where
  "digit_value d = nat (d - 48)"

lemma decimal_loop_law:
  assumes "reader_ok cb"
  shows "\<exists>cb'. decimal_loop cb c v = Some (reader.take_next (dropWhile c_isdigit (c # contents cb)),
      fold (\<lambda>ch v. v * 10 + word_of_int ch - 48) (takeWhile c_isdigit (c # contents cb)) v, cb')
    \<and> contents cb' = tl (dropWhile c_isdigit (c # contents cb)) \<and> reader_ok cb'"
  by (rule reader.fold_while [OF _ _ assms]) (subst decimal_loop.simps, simp_all add: c_isdigit_def)

lemma octal_loop_law:
  assumes "reader_ok cb"
  shows "\<exists>cb'. octal_loop cb c v = Some (reader.take_next (dropWhile (\<lambda>ch. c_isdigit ch \<and> ch \<le> 56) (c # contents cb)),
      fold (\<lambda>ch v. v * 8 + word_of_int ch - 48) (takeWhile (\<lambda>ch. c_isdigit ch \<and> ch \<le> 56) (c # contents cb)) v, cb')
    \<and> contents cb' = tl (dropWhile (\<lambda>ch. c_isdigit ch \<and> ch \<le> 56) (c # contents cb)) \<and> reader_ok cb'"
  by (rule reader.fold_while [OF _ _ assms]) (subst octal_loop.simps, simp_all add: c_isdigit_def)

lemma hex_loop_law:
  assumes "reader_ok cb"
  shows "\<exists>cb'. hex_loop cb c v = Some (reader.take_next (dropWhile hex_char (c # contents cb)),
      fold (\<lambda>ch v. if ch \<ge> 97 then v * 16 + word_of_int ch - 97 + 10
           else if ch \<ge> 65 then v * 16 + word_of_int ch - 65 + 10
           else v * 16 + word_of_int ch - 48) (takeWhile hex_char (c # contents cb)) v, cb')
    \<and> contents cb' = tl (dropWhile hex_char (c # contents cb)) \<and> reader_ok cb'"
  by (rule reader.fold_while [OF _ _ assms]) (subst hex_loop.simps, simp_all add: hex_char_def c_isdigit_def)

lemma word_digit: "c_isdigit d \<Longrightarrow> v * 10 + word_of_int d - 48 = v * 10 + (of_nat (digit_value d) :: 64 word)"
proof -
  assume "c_isdigit d"
  then have "d = 48 + int (digit_value d)" by (simp add: c_isdigit_def digit_value_def)
  then have "(word_of_int d :: 64 word) = 48 + of_nat (digit_value d)"
    by (metis of_int_add of_int_numeral of_int_of_nat_eq)
  then show ?thesis by simp
qed

lemma fold_digits:
  "\<forall>d\<in>set ds. c_isdigit d \<Longrightarrow>
   fold (\<lambda>ch v. v * 10 + word_of_int ch - 48) ds (of_nat n :: 64 word)
     = of_nat (fold (\<lambda>ch v. v * 10 + digit_value ch) ds n)"
proof (induction ds arbitrary: n)
  case (Cons d ds)
  have "of_nat n * 10 + word_of_int d - 48 = (of_nat (n * 10 + digit_value d) :: 64 word)"
    using word_digit [of d "of_nat n"] Cons.prems by simp
  then show ?case using Cons by (simp del: of_nat_add of_nat_mult)
qed simp

lemma decimal_text_digits: "\<forall>d\<in>set (decimal_text n). c_isdigit d"
proof (induction n rule: decimal_text.induct)
  case (1 n)
  have "c_isdigit (48 + int (n mod 10))" by (simp add: c_isdigit_def)
  then show ?case using 1 by (subst decimal_text.simps) auto
qed

lemma decimal_text_value: "fold (\<lambda>ch v. v * 10 + digit_value ch) (decimal_text n) 0 = n"
proof (induction n rule: decimal_text.induct)
  case (1 n)
  show ?case
  proof (cases "n < 10")
    case True
    then show ?thesis by (subst decimal_text.simps) (simp add: digit_value_def)
  next
    case False
    then show ?thesis using 1 by (subst decimal_text.simps) (simp add: digit_value_def)
  qed
qed

lemma decimal_text_Nil [simp]: "decimal_text n \<noteq> []"
  by (subst decimal_text.simps) simp

lemma decimal_text_zero: "hd (decimal_text n) = 48 \<Longrightarrow> n = 0"
proof (induction n rule: decimal_text.induct)
  case (1 n)
  then show ?case
    by (cases "n < 10") (subst (asm) decimal_text.simps, auto)+
qed

text \<open>The text the lexer stores for an integer constant is a constant of the same value: scanned
  again, up to a character that ends it, it gives the value back, for all 64-bit values.\<close>

theorem integer_text_roundtrip:
  assumes "reader_ok cb" "contents cb = tl (decimal_text (unat v)) @ rest"
    and "\<not> c_isdigit (reader.take_next rest)" "reader.take_next rest \<notin> {120, 88}"
  shows "\<exists>cb'. scanIntegerValue cb (hd (decimal_text (unat v))) = Some (reader.take_next rest, v, cb')
    \<and> contents cb' = tl rest"
proof (cases "v = 0")
  case True
  have t: "decimal_text 0 = [48]" by (subst decimal_text.simps) simp
  from assms(2) True t have c: "contents cb = rest" by simp
  let ?cb = "snd (getChar cb)"
  have g: "fst (getChar cb) = reader.take_next rest" "contents ?cb = tl rest" "reader_ok ?cb"
    using reader.get_law [OF assms(1)] c by simp_all
  have "octal_loop ?cb (reader.take_next rest) 0 = Some (reader.take_next rest, 0, ?cb)"
    using assms(3) by (subst octal_loop.simps) simp
  then show ?thesis
    using g t True assms(4) by (simp add: scanIntegerValue_def case_prod_beta)
next
  case False
  let ?t = "decimal_text (unat v)"
  have t: "?t = hd ?t # tl ?t" by simp
  have nz: "hd ?t \<noteq> 48" using decimal_text_zero [of "unat v"] False by (auto simp: unat_eq_0)
  have dig: "\<forall>d\<in>set ?t. c_isdigit d" by (rule decimal_text_digits)
  have stop: "rest = [] \<or> \<not> c_isdigit (hd rest)"
    using assms(3) by (cases rest) (auto simp: reader.take_next_def)
  have all: "hd ?t # contents cb = ?t @ rest" using assms(2) t by (metis append_Cons)
  have d: "dropWhile c_isdigit (?t @ rest) = rest" and tk: "takeWhile c_isdigit (?t @ rest) = ?t"
    using dig stop by (cases rest; simp)+
  obtain cb' where "decimal_loop cb (hd ?t) 0 =
      Some (reader.take_next rest, fold (\<lambda>ch v. v * 10 + word_of_int ch - 48) ?t 0, cb')"
    "contents cb' = tl rest"
    using decimal_loop_law [OF assms(1), of "hd ?t" 0] unfolding all d tk by blast
  moreover have "fold (\<lambda>ch v. v * 10 + word_of_int ch - 48) ?t (0 :: 64 word) = v"
    using fold_digits [OF dig, of 0] decimal_text_value [of "unat v"] by simp
  ultimately show ?thesis using nz by (simp add: scanIntegerValue_def)
qed

theorem integer_text_roundtrip_witness:
  "\<exists>cb'. scanIntegerValue (initCharacterBufferFromString example_buffer [50, 59]) 52 = Some (59, 42, cb')"
proof -
  let ?cb = "initCharacterBufferFromString example_buffer [50, 59]"
  have "decimal_text 4 = [52]" by (subst decimal_text.simps) simp
  then have t: "decimal_text (unat (42 :: 64 word)) = [52, 50]" by (subst decimal_text.simps) simp
  have "contents ?cb = tl (decimal_text (unat (42 :: 64 word))) @ [59]"
    unfolding t by (simp add: init_from_string to_char_def)
  from integer_text_roundtrip [OF _ this] show ?thesis
    unfolding t by (auto simp: init_from_string c_isdigit_def reader.take_next_def)
qed

section \<open>Comments\<close>

definition closes :: "int list \<Rightarrow> bool" where
  "closes cs \<longleftrightarrow> (\<exists>a b. cs = a @ [42, 47] @ b)"

lemma closes_Cons: "closes (c # cs) \<longleftrightarrow> (c = 42 \<and> cs \<noteq> [] \<and> hd cs = 47) \<or> closes cs"
proof
  assume "closes (c # cs)"
  then obtain a b where "c # cs = a @ [42, 47] @ b" by (auto simp: closes_def)
  then show "(c = 42 \<and> cs \<noteq> [] \<and> hd cs = 47) \<or> closes cs"
    by (cases a) (auto simp: closes_def)
next
  assume "(c = 42 \<and> cs \<noteq> [] \<and> hd cs = 47) \<or> closes cs"
  then show "closes (c # cs)"
  proof
    assume "c = 42 \<and> cs \<noteq> [] \<and> hd cs = 47"
    then have "c # cs = [] @ [42, 47] @ tl cs" by (cases cs) auto
    then show ?thesis unfolding closes_def by blast
  next
    assume "closes cs"
    then obtain a b where "c # cs = (c # a) @ [42, 47] @ b" by (auto simp: closes_def)
    then show ?thesis unfolding closes_def by blast
  qed
qed

lemma newline_char_simps [simp]:
  "contents (newline_char cb ch) = contents cb" "reader_ok (newline_char cb ch) = reader_ok cb"
  "cb_lineNumber (newline_char cb ch) = cb_lineNumber cb + (if ch = 10 then 1 else 0)"
  by (simp_all add: newline_char_def next_line_def contents_def unread_def reader_ok_def)

lemma comment_loop_law:
  assumes "reader_ok cb" "contents cb = body @ [42, 47] @ rest" "-1 \<notin> set body"
    and "\<not> closes (oldCh # body @ [42])"
  shows "\<exists>cb'. comment_loop cb oldCh = Some (47, cb') \<and> contents cb' = rest \<and> reader_ok cb'
    \<and> cb_lineNumber cb' = cb_lineNumber cb + int (count_list body 10)"
  using assms
proof (induction body arbitrary: cb oldCh)
  case Nil
  let ?cb1 = "snd (getChar cb)" and ?cb2 = "snd (getChar (snd (getChar cb)))"
  have 1: "fst (getChar cb) = 42" "contents ?cb1 = 47 # rest" "reader_ok ?cb1" "same_line cb ?cb1"
    using reader.get_Cons [OF Nil.prems(1), of 42 "47 # rest"] getChar_law(3) [OF Nil.prems(1)] Nil.prems(2) by auto
  have 2: "fst (getChar ?cb1) = 47" "contents ?cb2 = rest" "reader_ok ?cb2" "same_line ?cb1 ?cb2"
    using reader.get_Cons [OF 1(3,2)] getChar_law(3) [OF 1(3)] by auto
  have n: "newline_char b 42 = b" "newline_char b 47 = b" for b by (simp_all add: newline_char_def)
  have "comment_loop cb oldCh = comment_loop ?cb1 42"
    using 1 n by (subst comment_loop.simps) (simp add: case_prod_beta)
  also have "... = Some (47, ?cb2)"
    using 2 n by (subst comment_loop.simps) (simp add: case_prod_beta)
  finally show ?case using 1 2 by (simp add: same_line_def)
next
  case (Cons c body)
  let ?cb1 = "newline_char (snd (getChar cb)) c"
  have 1: "fst (getChar cb) = c" "contents ?cb1 = body @ [42, 47] @ rest" "reader_ok ?cb1"
      "cb_lineNumber ?cb1 = cb_lineNumber cb + (if c = 10 then 1 else 0)"
    using reader.get_Cons [OF Cons.prems(1), of c "body @ [42, 47] @ rest"] getChar_law(3) [OF Cons.prems(1)]
      Cons.prems(2) by (auto simp: same_line_def)
  have nc: "\<not> closes (c # body @ [42])" "oldCh \<noteq> 42 \<or> c \<noteq> 47" "c \<noteq> -1"
    using Cons.prems(3,4) by (auto simp: closes_Cons)
  have "comment_loop cb oldCh = comment_loop ?cb1 c"
    using 1 nc by (subst comment_loop.simps) (simp add: case_prod_beta)
  moreover obtain cb' where "comment_loop ?cb1 c = Some (47, cb')" "contents cb' = rest" "reader_ok cb'"
    "cb_lineNumber cb' = cb_lineNumber ?cb1 + int (count_list body 10)"
    using Cons.IH [OF 1(3,2) _ nc(1)] Cons.prems(3) by auto
  ultimately show ?case using 1(4) by auto
qed

text \<open>C34: A block comment is skipped exactly to its first end: what follows the comment is what is
  left to read, the line number has grown by the newlines in it, and nothing is reported.\<close>

theorem comment_skipped:
  assumes "reader_ok (cbuf st)" "contents (cbuf st) = body @ [42, 47] @ rest" "-1 \<notin> set body"
    and "\<not> closes (body @ [42])"
  shows "\<exists>cb'. scanComment st = Some (st\<lparr>cbuf := cb'\<rparr>) \<and> contents cb' = rest
    \<and> cb_lineNumber cb' = cb_lineNumber (cbuf st) + int (count_list body 10)"
proof -
  let ?ch = "fst (getChar (cbuf st))" and ?cb = "snd (getChar (cbuf st))"
  let ?cb1 = "newline_char ?cb ?ch"
  have sl: "cb_lineNumber ?cb = cb_lineNumber (cbuf st)"
    using getChar_law(3) [OF assms(1)] by (simp add: same_line_def)
  have "\<exists>cb'. comment_loop ?cb1 ?ch = Some (47, cb') \<and> contents cb' = rest
    \<and> cb_lineNumber cb' = cb_lineNumber (cbuf st) + int (count_list body 10)"
  proof (cases body)
    case Nil
    have 1: "?ch = 42" "contents ?cb = 47 # rest" "reader_ok ?cb"
      using reader.get_Cons [OF assms(1), of 42 "47 # rest"] assms(2) Nil by auto
    have 2: "fst (getChar ?cb) = 47" "contents (snd (getChar ?cb)) = rest" "same_line ?cb (snd (getChar ?cb))"
      using reader.get_Cons [OF 1(3,2)] getChar_law(3) [OF 1(3)] by auto
    then show ?thesis
      using 1 sl Nil by (subst comment_loop.simps) (simp add: case_prod_beta newline_char_def same_line_def)
  next
    case (Cons c body')
    have 1: "?ch = c" "contents ?cb1 = body' @ [42, 47] @ rest" "reader_ok ?cb1"
      using reader.get_Cons [OF assms(1), of c "body' @ [42, 47] @ rest"] assms(2) Cons by auto
    show ?thesis
      using comment_loop_law [OF 1(3,2), of c] assms(3,4) Cons 1(1) sl by auto
  qed
  then obtain cb' where "comment_loop ?cb1 ?ch = Some (47, cb')" "contents cb' = rest"
    "cb_lineNumber cb' = cb_lineNumber (cbuf st) + int (count_list body 10)" by blast
  then show ?thesis by (intro exI [of _ cb']) (simp add: scanComment_def case_prod_beta Let_def)
qed

definition example_lexing :: lexing where
  "example_lexing = \<lparr>cbuf = initCharacterBufferFromString example_buffer [97, 10, 42, 42, 47, 98],
     lbuf = empty_lexem_buffer, regionMarkerAtCursorInserted = False,
     regionMarkerAtMarkInserted = False, positionOfSelectedReference = Position 0 0 0,
     parsingMessages = []\<rparr>"

definition example_cfg :: parsingConfig where
  "example_cfg = \<lparr>pc_operation = PARSE_TO_CREATE_REFERENCES, pc_fileNumber = 0, pc_language = LANG_C,
     pc_cursorOffset = 0, pc_markOffset = 0, pc_noFileNumber = 0\<rparr>"

theorem comment_skipped_witness:
  "\<exists>cb'. scanComment example_lexing = Some (example_lexing\<lparr>cbuf := cb'\<rparr>) \<and> contents cb' = [98]
     \<and> cb_lineNumber cb' = 1"
proof -
  have "reader_ok (cbuf example_lexing)" "contents (cbuf example_lexing) = [97, 10, 42] @ [42, 47] @ [98]"
    "cb_lineNumber (cbuf example_lexing) = 0"
    by (simp_all add: example_lexing_def init_from_string to_char_def)
  moreover have "\<not> closes ([97, 10, 42] @ [42])" by (simp add: closes_Cons) (simp add: closes_def)
  ultimately show ?thesis using comment_skipped [of example_lexing "[97, 10, 42]" "[98]"] by auto
qed

section \<open>Character constants\<close>

lemma escape_loop_returns:
  "escape_loop cb c = Some r \<Longrightarrow> reader_ok cb \<longrightarrow>
     reader_ok (snd r) \<and> set (contents (snd r)) \<subseteq> set (contents cb)
     \<and> (fst r = c \<or> fst r = -1 \<or> fst r \<in> set (contents cb))"
proof (erule escape_loop.raw_induct [rotated, of _ _ _ "\<lambda>cb c r. reader_ok cb \<longrightarrow>
     reader_ok (snd r) \<and> set (contents (snd r)) \<subseteq> set (contents cb)
     \<and> (fst r = c \<or> fst r = -1 \<or> fst r \<in> set (contents cb))"])
  fix f cb c r
  assume IH: "\<And>cb c r. f cb c = Some r \<Longrightarrow> reader_ok cb \<longrightarrow>
       reader_ok (snd r) \<and> set (contents (snd r)) \<subseteq> set (contents cb)
       \<and> (fst r = c \<or> fst r = -1 \<or> fst r \<in> set (contents cb))"
    and r: "(if c = 92 then let (_, cb1) = getChar cb in f (snd (getChar cb1)) (fst (getChar cb1))
         else Some (c, cb)) = Some r"
  show "reader_ok cb \<longrightarrow> reader_ok (snd r) \<and> set (contents (snd r)) \<subseteq> set (contents cb)
      \<and> (fst r = c \<or> fst r = -1 \<or> fst r \<in> set (contents cb))"
  proof
    assume ok: "reader_ok cb"
    let ?c1 = "snd (getChar cb)" and ?c2 = "snd (getChar (snd (getChar cb)))"
    have g1: "contents ?c1 = tl (contents cb)" "reader_ok ?c1" using reader.get_law [OF ok] by auto
    have g2: "contents ?c2 = tl (tl (contents cb))" "reader_ok ?c2"
      "fst (getChar ?c1) = reader.take_next (tl (contents cb))"
      using reader.get_law [OF g1(2)] g1(1) by auto
    have sub: "set (contents ?c2) \<subseteq> set (contents cb)"
      using g2(1) by (auto dest: list.set_sel(2) [rotated] simp: tl_Nil)
        (metis list.sel(2) list.set_sel(2))
    have hd: "fst (getChar ?c1) = -1 \<or> fst (getChar ?c1) \<in> set (contents cb)"
      using g2(3) by (cases "contents cb"; cases "tl (contents cb)") (auto simp: reader.take_next_def)
    show "reader_ok (snd r) \<and> set (contents (snd r)) \<subseteq> set (contents cb)
      \<and> (fst r = c \<or> fst r = -1 \<or> fst r \<in> set (contents cb))"
    proof (cases "c = 92")
      case True
      then have "f ?c2 (fst (getChar ?c1)) = Some r" using r by (simp add: case_prod_beta)
      from IH [OF this] g2(2) sub hd show ?thesis by auto
    next
      case False
      then show ?thesis using r ok by auto
    qed
  qed
qed

lemma char_constant_loop_returns:
  "char_constant_loop cb v = Some r \<Longrightarrow> reader_ok cb \<longrightarrow> 39 \<in> set (contents cb) \<or> 10 \<in> set (contents cb)"
proof (erule char_constant_loop.raw_induct [rotated, of _ _ _ "\<lambda>cb v r. reader_ok cb \<longrightarrow>
     39 \<in> set (contents cb) \<or> 10 \<in> set (contents cb)"])
  fix f cb v r
  assume IH: "\<And>cb v r. f cb v = Some r \<Longrightarrow> reader_ok cb \<longrightarrow> 39 \<in> set (contents cb) \<or> 10 \<in> set (contents cb)"
    and r: "Option.bind (escape_loop (snd (getChar cb)) (fst (getChar cb))) (\<lambda>(ch, cb1).
       let chval1 = (if ch \<noteq> 39 then v * 256 + word_of_int ch else v) in
       if ch \<noteq> 39 \<and> ch \<noteq> 10 then f cb1 chval1 else Some (ch, chval1, cb1)) = Some r"
  show "reader_ok cb \<longrightarrow> 39 \<in> set (contents cb) \<or> 10 \<in> set (contents cb)"
  proof
    assume ok: "reader_ok cb"
    let ?c1 = "snd (getChar cb)"
    have g: "fst (getChar cb) = reader.take_next (contents cb)" "contents ?c1 = tl (contents cb)" "reader_ok ?c1"
      using reader.get_law [OF ok] by auto
    have sub: "set (contents ?c1) \<subseteq> set (contents cb)"
      unfolding g(2) by (cases "contents cb") auto
    have hd: "fst (getChar cb) = -1 \<or> fst (getChar cb) \<in> set (contents cb)"
      unfolding g(1) by (cases "contents cb") (auto simp: reader.take_next_def)
    from r obtain ch cb1 where e: "escape_loop ?c1 (fst (getChar cb)) = Some (ch, cb1)"
      by (auto simp: bind_eq_Some_iff)
    from escape_loop_returns [OF this] g(3) have e': "reader_ok cb1" "set (contents cb1) \<subseteq> set (contents ?c1)"
      "ch = fst (getChar cb) \<or> ch = -1 \<or> ch \<in> set (contents ?c1)" by auto
    show "39 \<in> set (contents cb) \<or> 10 \<in> set (contents cb)"
    proof (cases "ch \<noteq> 39 \<and> ch \<noteq> 10")
      case True
      then obtain w where "f cb1 w = Some r" using r e by (auto simp: Let_def)
      from IH [OF this] e' sub show ?thesis by auto
    next
      case False
      then show ?thesis using e'(3) sub hd by auto
    qed
  qed
qed

text \<open>A character constant that neither a quote nor a newline follows never ends: the loop does
  not look for the end of the file.\<close>

theorem unterminated_char_constant_diverges:
  assumes "reader_ok (cbuf st)" "39 \<notin> set (contents (cbuf st))" "10 \<notin> set (contents (cbuf st))"
  shows "handleCharConstant st column = None"
proof (rule ccontr)
  assume "handleCharConstant st column \<noteq> None"
  then obtain r where "char_constant_loop (cbuf st) 0 = Some r"
    by (cases "char_constant_loop (cbuf st) 0") (auto simp: handleCharConstant_def)
  from char_constant_loop_returns [OF this] assms show False by simp
qed

theorem unterminated_char_constant_diverges_witness:
  "handleCharConstant (example_lexing\<lparr>cbuf := initCharacterBufferFromString example_buffer [97]\<rparr>) 0 = None"
  by (rule unterminated_char_constant_diverges) (simp_all add: init_from_string to_char_def)

section \<open>Operators\<close>

text \<open>Every operator of more than one character, its text and its code.\<close>

definition operators :: "(int list \<times> lexemCode) list" where
  "operators =
     [([43, 61], ADD_ASSIGN), ([43, 43], INC_OP), ([45, 61], SUB_ASSIGN), ([45, 45], DEC_OP),
      ([45, 62], PTR_OP), ([62, 62, 61], RIGHT_ASSIGN), ([62, 62], RIGHT_OP), ([62, 61], GE_OP),
      ([60, 60, 61], LEFT_ASSIGN), ([60, 60], LEFT_OP), ([60, 61], LE_OP), ([42, 61], MUL_ASSIGN),
      ([37, 61], MOD_ASSIGN), ([38, 61], AND_ASSIGN), ([38, 38], AND_OP), ([94, 61], XOR_ASSIGN),
      ([124, 61], OR_ASSIGN), ([124, 124], OR_OP), ([61, 61], EQ_OP), ([33, 61], NE_OP),
      ([47, 61], DIV_ASSIGN), ([46, 46, 46], ELLIPSIS), ([35, 35], CPP_COLLATION)]"

lemmas lex_operator_defs = lex_switch_def lex_plus_def lex_minus_def lex_greater_def lex_less_def
  lex_star_def lex_percent_def lex_caret_def lex_equal_def lex_exclamation_def lex_ampersand_def
  lex_bar_def lex_slash_def lex_dot_def lex_hash_def put_then_get_def put_keep_def

text \<open>The three characters an operator can read, and the lexem put after any of them.\<close>

lemma operator_reads:
  assumes "reader_ok (cbuf st)" "contents (cbuf st) = cs"
    and "putLexemWithColumn (lbuf st) code (cbuf st) column = Some lb"
  obtains c1 c2 c3 where
    "get_char st = (reader.take_next cs, st\<lparr>cbuf := c1\<rparr>)"
    "get_char (st\<lparr>cbuf := c1\<rparr>) = (reader.take_next (tl cs), st\<lparr>cbuf := c2\<rparr>)"
    "get_char (st\<lparr>cbuf := c1, lbuf := lb\<rparr>) = (reader.take_next (tl cs), st\<lparr>cbuf := c2, lbuf := lb\<rparr>)"
    "get_char (st\<lparr>cbuf := c2, lbuf := lb\<rparr>) = (reader.take_next (tl (tl cs)), st\<lparr>cbuf := c3, lbuf := lb\<rparr>)"
    "get_char (st\<lparr>cbuf := c2\<rparr>) = (reader.take_next (tl (tl cs)), st\<lparr>cbuf := c3\<rparr>)"
    "put_lexem (st\<lparr>cbuf := c1\<rparr>) code column = Some (st\<lparr>cbuf := c1, lbuf := lb\<rparr>)"
    "put_lexem (st\<lparr>cbuf := c2\<rparr>) code column = Some (st\<lparr>cbuf := c2, lbuf := lb\<rparr>)"
    "put_lexem (st\<lparr>cbuf := c3\<rparr>) code column = Some (st\<lparr>cbuf := c3, lbuf := lb\<rparr>)"
    "contents c1 = tl cs" "contents c2 = tl (tl cs)" "contents c3 = tl (tl (tl cs))"
    "get_char (st\<lparr>cbuf := c3, lbuf := lb\<rparr>) = (reader.take_next (tl (tl (tl cs))),
       st\<lparr>cbuf := snd (getChar c3), lbuf := lb\<rparr>)" "contents (snd (getChar c3)) = tl (tl (tl (tl cs)))"
proof -
  have put: "putLexemWithColumn (lbuf st) code cb column = Some lb" if "same_line (cbuf st) cb" for cb
    using assms(3) that
    by (simp add: putLexemWithColumn_def fileNumberFrom_def lineNumberFrom_def same_line_def)
  let ?c1 = "snd (getChar (cbuf st))"
  let ?c2 = "snd (getChar ?c1)"
  let ?c3 = "snd (getChar ?c2)"
  have 1: "fst (getChar (cbuf st)) = reader.take_next cs" "contents ?c1 = tl cs"
      "reader_ok ?c1" "same_line (cbuf st) ?c1"
    using reader.get_law [OF assms(1)] getChar_law(3) [OF assms(1)] assms(2) by auto
  have 2: "fst (getChar ?c1) = reader.take_next (tl cs)" "contents ?c2 = tl (tl cs)"
      "reader_ok ?c2" "same_line (cbuf st) ?c2"
    using reader.get_law [OF 1(3)] getChar_law(3) [OF 1(3)] 1 same_line_trans by auto
  have 3: "fst (getChar ?c2) = reader.take_next (tl (tl cs))" "contents ?c3 = tl (tl (tl cs))"
      "reader_ok ?c3" "same_line (cbuf st) ?c3"
    using reader.get_law [OF 2(3)] getChar_law(3) [OF 2(3)] 2 same_line_trans by auto
  have 4: "fst (getChar ?c3) = reader.take_next (tl (tl (tl cs)))"
      "contents (snd (getChar ?c3)) = tl (tl (tl (tl cs)))"
    using reader.get_law [OF 3(3)] 3 by auto
  show ?thesis
    by (rule that [of ?c1 ?c2 ?c3])
      (simp_all add: get_char_def case_prod_beta 1 2 3 4 put_lexem_def put [OF 1(4)] put [OF 2(4)] put [OF 3(4)])
qed

text \<open>The lexer takes the longest operator: of the characters of an operator and a character after
  it that is not \<open>=\<close>, it makes the one lexem of that operator, at the column of its first
  character, and stops at the character after it.\<close>

theorem operators_lexed:
  assumes "(c # cs, code) \<in> set operators" "reader_ok (cbuf st)"
    and "contents (cbuf st) = cs @ rest" "reader.take_next rest \<noteq> 61"
    and "putLexemWithColumn (lbuf st) code (cbuf st) column = Some lb"
  shows "\<exists>cb'. lex_switch cfg stale st c column = Some (reader.take_next rest, st\<lparr>cbuf := cb', lbuf := lb\<rparr>)
    \<and> contents cb' = tl rest"
proof (rule operator_reads [OF assms(2,3,5)], goal_cases)
  case (1 c1 c2 c3)
  have cons: "reader.take_next (d # ds) = d" for d ds by (simp add: reader.take_next_def)
  let ?cb = "if length cs = 1 then c2 else c3"
  have "\<exists>op\<in>set operators. (c # cs, code) = op" using assms(1) by blast
  then show ?case
    using 1(6,7,8)
    by (intro exI [of _ ?cb], unfold operators_def list.set bex_simps prod.inject list.inject, elim disjE conjE FalseE)
      (simp_all add: 1 cons assms(4) lex_operator_defs)
qed

theorem operators_lexed_witness:
  "\<exists>lb cb'. lex_switch example_cfg ''x'' (example_lexing\<lparr>cbuf := initCharacterBufferFromString example_buffer [62, 61, 97]\<rparr>) 62 5
     = Some (97, example_lexing\<lparr>cbuf := cb', lbuf := lb\<rparr>) \<and> contents cb' = []"
proof -
  let ?st = "example_lexing\<lparr>cbuf := initCharacterBufferFromString example_buffer [62, 61, 97]\<rparr>"
  have op: "([62, 62, 61], RIGHT_ASSIGN) \<in> set operators" by (simp add: operators_def)
  have rd: "reader_ok (cbuf ?st)" "contents (cbuf ?st) = [62, 61] @ [97]"
    by (simp_all add: init_from_string to_char_def)
  have nx: "reader.take_next [97] \<noteq> 61" "reader.take_next [97] = 97" by (simp_all add: reader.take_next_def)
  have "cb_fileNumber (cbuf ?st) = 0" "cb_lineNumber (cbuf ?st) = 0"
    by (simp_all add: initCharacterBufferFromString_def fillCharacterBuffer_def Let_def)
  then have put: "putLexemWithColumn (lbuf ?st) RIGHT_ASSIGN (cbuf ?st) 5
      = putLexemCodeWithPosition (lbuf ?st) RIGHT_ASSIGN (Position 0 0 5)"
    by (simp add: putLexemWithColumn_def putLexemCodeWithPosition_def fileNumberFrom_def
        lineNumberFrom_def putLexemPositionFields_position)
  obtain lb1 where "putLexemCode (lbuf ?st) RIGHT_ASSIGN = Some lb1"
    using putLexemCode_law [of RIGHT_ASSIGN "lbuf ?st"] by (auto simp: RIGHT_ASSIGN_def)
  moreover obtain lb where "putLexemPosition lb1 (Position 0 0 5) = Some lb"
    using putLexemPosition_law [of "Position 0 0 5" lb1] by (auto simp: lexem_position_def MAX_FILES_def)
  ultimately have "putLexemWithColumn (lbuf ?st) RIGHT_ASSIGN (cbuf ?st) 5 = Some lb"
    unfolding put by (simp add: putLexemCodeWithPosition_def)
  from operators_lexed [OF op rd nx(1) this, of example_cfg "''x''"] show ?thesis
    unfolding nx(2) by fastforce
qed

end
