(* ===== verification/IncludeGraph.thy ===== *)
theory IncludeGraph
  imports FileTable
begin

text \<open>
  Models \<^verbatim>\<open>includegraph.c\<close>: the graph of which file includes which, taken from the include
  references of the item table and from the includes the scan of the files found, and the two
  closures over it, the files a file includes at any depth and the files that include it.

  An edge array is the list of the edges in use; the copy sorted the other way is a second
  list. The library's \<^verbatim>\<open>qsort\<close> is a parameter of the construction: of it only \<open>sorts\<close> is
  used, since the order of edges that compare equal is not specified. The array a closure is
  collected in is the list of the numbers stored in it.
\<close>

section \<open>The graph\<close>

datatype includeEdge = IncludeEdge (edge_includer: int) (edge_included: int)

record includeGraph =
  ig_edges :: "includeEdge list"
  ig_edgesByIncluded :: "includeEdge list"
  ig_allocated :: nat

definition ig_count :: "includeGraph \<Rightarrow> nat" where
  "ig_count graph = length (ig_edges graph)"

definition addEdge :: "includeGraph \<Rightarrow> int \<Rightarrow> int \<Rightarrow> includeGraph" where
  "addEdge graph includer included =
     (let graph1 = (if ig_count graph = ig_allocated graph
                    then graph\<lparr>ig_allocated := (if ig_allocated graph = 0 then 64 else 2 * ig_allocated graph)\<rparr>
                    else graph)
      in graph1\<lparr>ig_edges := ig_edges graph1 @ [IncludeEdge includer included]\<rparr>)"

definition addEdgesOf :: "referenceableItem \<Rightarrow> includeGraph \<Rightarrow> includeGraph" where
  "addEdgesOf item graph =
     (if ri_type item \<noteq> TypeCppInclude then graph
      else fold (\<lambda>r g. if ref_usage r \<noteq> UsageDefined
                       then addEdge g (pos_file (ref_position r)) (ri_includeFileNumber item) else g)
             (ri_references item) graph)"

definition addScannedEdgesOf :: "fileItem \<Rightarrow> nat \<Rightarrow> includeGraph \<Rightarrow> includeGraph" where
  "addScannedEdgesOf fileItem fileNumber graph =
     fold (\<lambda>included g. addEdge g (int fileNumber) (int included)) (fi_scannedIncludes fileItem) graph"

definition compareByIncluder :: "includeEdge \<Rightarrow> includeEdge \<Rightarrow> int" where
  "compareByIncluder a b =
     (if edge_includer a \<noteq> edge_includer b
      then (if edge_includer a < edge_includer b then -1 else 1) else 0)"

definition compareByIncluded :: "includeEdge \<Rightarrow> includeEdge \<Rightarrow> int" where
  "compareByIncluded a b =
     (if edge_included a \<noteq> edge_included b
      then (if edge_included a < edge_included b then -1 else 1) else 0)"

text \<open>The loop over the numbers of the existing files, from \<open>i\<close> on.\<close>

function fold_files :: "file_table \<Rightarrow> (nat \<Rightarrow> fileItem \<Rightarrow> 's \<Rightarrow> 's) \<Rightarrow> nat \<Rightarrow> 's \<Rightarrow> 's" where
  "fold_files table f i s =
     (if i < tab_size table then
        (case tab_tab table ! i of
           None \<Rightarrow> fold_files table f (i + 1) s
         | Some item \<Rightarrow> fold_files table f (i + 1) (f i item s))
      else s)"
  by pat_completeness auto
termination by (relation "measure (\<lambda>(table, f, i, s). tab_size table - i)") auto

declare fold_files.simps [simp del]

text \<open>It steps from one existing number to the next.\<close>

lemma fold_files_next:
  "fold_files table f i s =
     (let k = getNextExistingFileNumber table i in
      if k = -1 then s
      else (case getFileItemWithFileNumber table (nat k) of
              None \<Rightarrow> s | Some item \<Rightarrow> fold_files table f (nat k + 1) (f (nat k) item s)))"
proof (induction table f i s rule: fold_files.induct)
  case (1 table f i s)
  show ?case
  proof (cases "i < tab_size table \<and> tab_tab table ! i = None")
    case True
    then have "fold_files table f i s = fold_files table f (i + 1) s"
      by (subst fold_files.simps) simp
    moreover have "getNextExistingFileNumber table i = getNextExistingFileNumber table (i + 1)"
      using True by (subst getNextExistingFileNumber.simps) simp
    ultimately show ?thesis using 1(1) True by simp
  next
    case False
    then show ?thesis
      by (subst fold_files.simps, subst getNextExistingFileNumber.simps)
        (auto simp: getFileItemWithFileNumber_def split: option.splits)
  qed
qed

type_synonym qsort_function = "(includeEdge \<Rightarrow> includeEdge \<Rightarrow> int) \<Rightarrow> includeEdge list \<Rightarrow> includeEdge list"

definition buildIncludeGraph :: "qsort_function \<Rightarrow> item_table \<Rightarrow> file_table \<Rightarrow> includeGraph" where
  "buildIncludeGraph qsort itemTable table =
     (let graph0 = \<lparr>ig_edges = [], ig_edgesByIncluded = [], ig_allocated = 0\<rparr>;
          graph1 = mapOverReferenceableItemTableWithPointer itemTable (\<lambda>item _. addEdgesOf item) () graph0;
          graph2 = fold_files table (\<lambda>i item. addScannedEdgesOf item i) 0 graph1
      in if ig_count graph2 > 0
         then (let edges = qsort compareByIncluder (ig_edges graph2) in
               graph2\<lparr>ig_edges := edges, ig_edgesByIncluded := qsort compareByIncluded edges\<rparr>)
         else graph2)"

section \<open>Collecting\<close>

record collectedFiles =
  cf_fileNumbers :: "int list"
  cf_maxFileNumbers :: nat
  cf_count :: nat

definition storedCount :: "collectedFiles \<Rightarrow> nat" where
  "storedCount files =
     (if cf_count files < cf_maxFileNumbers files then cf_count files else cf_maxFileNumbers files)"

definition isCollected :: "collectedFiles \<Rightarrow> int \<Rightarrow> bool" where
  "isCollected files fileNumber =
     list_ex (\<lambda>i. cf_fileNumbers files ! i = fileNumber) [0..<storedCount files]"

text \<open>The body of the two loops over a run of edges. A number beyond the room is only counted.\<close>

definition collect_one :: "int \<Rightarrow> collectedFiles \<Rightarrow> collectedFiles" where
  "collect_one fileNumber files =
     (if \<not> isCollected files fileNumber
      then files\<lparr>cf_fileNumbers := (if cf_count files < cf_maxFileNumbers files
                                    then cf_fileNumbers files @ [fileNumber] else cf_fileNumbers files),
                 cf_count := cf_count files + 1\<rparr>
      else files)"

function firstEdgeOf_loop :: "includeGraph \<Rightarrow> int \<Rightarrow> nat \<Rightarrow> nat \<Rightarrow> nat" where
  "firstEdgeOf_loop graph includer low high =
     (if low < high then
        (let middle = low + (high - low) div 2 in
         if edge_includer (ig_edges graph ! middle) < includer
         then firstEdgeOf_loop graph includer (middle + 1) high
         else firstEdgeOf_loop graph includer low middle)
      else low)"
  by pat_completeness auto
termination by (relation "measure (\<lambda>(graph, includer, low, high). high - low)") auto

definition firstEdgeOf :: "includeGraph \<Rightarrow> int \<Rightarrow> nat" where
  "firstEdgeOf graph includer = firstEdgeOf_loop graph includer 0 (ig_count graph)"

function included_by_loop :: "includeGraph \<Rightarrow> int \<Rightarrow> nat \<Rightarrow> collectedFiles \<Rightarrow> collectedFiles" where
  "included_by_loop graph includer i files =
     (if i < ig_count graph \<and> edge_includer (ig_edges graph ! i) = includer
      then included_by_loop graph includer (i + 1) (collect_one (edge_included (ig_edges graph ! i)) files)
      else files)"
  by pat_completeness auto
termination by (relation "measure (\<lambda>(graph, includer, i, files). ig_count graph - i)") auto

definition collectIncludedBy :: "includeGraph \<Rightarrow> int \<Rightarrow> collectedFiles \<Rightarrow> collectedFiles" where
  "collectIncludedBy graph includer files =
     included_by_loop graph includer (firstEdgeOf graph includer) files"

function firstEdgeIncluding_loop :: "includeGraph \<Rightarrow> int \<Rightarrow> nat \<Rightarrow> nat \<Rightarrow> nat" where
  "firstEdgeIncluding_loop graph included low high =
     (if low < high then
        (let middle = low + (high - low) div 2 in
         if edge_included (ig_edgesByIncluded graph ! middle) < included
         then firstEdgeIncluding_loop graph included (middle + 1) high
         else firstEdgeIncluding_loop graph included low middle)
      else low)"
  by pat_completeness auto
termination by (relation "measure (\<lambda>(graph, included, low, high). high - low)") auto

definition firstEdgeIncluding :: "includeGraph \<Rightarrow> int \<Rightarrow> nat" where
  "firstEdgeIncluding graph included = firstEdgeIncluding_loop graph included 0 (ig_count graph)"

function includers_loop :: "includeGraph \<Rightarrow> int \<Rightarrow> nat \<Rightarrow> collectedFiles \<Rightarrow> collectedFiles" where
  "includers_loop graph included i files =
     (if i < ig_count graph \<and> edge_included (ig_edgesByIncluded graph ! i) = included
      then includers_loop graph included (i + 1)
             (collect_one (edge_includer (ig_edgesByIncluded graph ! i)) files)
      else files)"
  by pat_completeness auto
termination by (relation "measure (\<lambda>(graph, included, i, files). ig_count graph - i)") auto

definition collectIncludersOf :: "includeGraph \<Rightarrow> int \<Rightarrow> collectedFiles \<Rightarrow> collectedFiles" where
  "collectIncludersOf graph included files =
     includers_loop graph included (firstEdgeIncluding graph included) files"

declare firstEdgeOf_loop.simps [simp del] firstEdgeIncluding_loop.simps [simp del]
  included_by_loop.simps [simp del] includers_loop.simps [simp del]

lemma collect_one_max [simp]: "cf_maxFileNumbers (collect_one n files) = cf_maxFileNumbers files"
  by (simp add: collect_one_def)

lemma included_by_max [simp]:
  "cf_maxFileNumbers (included_by_loop graph n i files) = cf_maxFileNumbers files"
  by (induction graph n i files rule: included_by_loop.induct) (subst included_by_loop.simps, simp)

lemma includers_max [simp]:
  "cf_maxFileNumbers (includers_loop graph n i files) = cf_maxFileNumbers files"
  by (induction graph n i files rule: includers_loop.induct) (subst includers_loop.simps, simp)

text \<open>The loops over what has been collected, which grows as they run.\<close>

function include_closure_loop :: "includeGraph \<Rightarrow> nat \<Rightarrow> collectedFiles \<Rightarrow> collectedFiles" where
  "include_closure_loop graph i files =
     (if i < storedCount files
      then include_closure_loop graph (i + 1) (collectIncludedBy graph (cf_fileNumbers files ! i) files)
      else files)"
  by pat_completeness auto
termination
  by (relation "measure (\<lambda>(graph, i, files). cf_maxFileNumbers files - i)")
    (auto simp: collectIncludedBy_def storedCount_def split: if_splits)

function includer_closure_loop :: "includeGraph \<Rightarrow> nat \<Rightarrow> collectedFiles \<Rightarrow> collectedFiles" where
  "includer_closure_loop graph i files =
     (if i < storedCount files
      then includer_closure_loop graph (i + 1) (collectIncludersOf graph (cf_fileNumbers files ! i) files)
      else files)"
  by pat_completeness auto
termination
  by (relation "measure (\<lambda>(graph, i, files). cf_maxFileNumbers files - i)")
    (auto simp: collectIncludersOf_def storedCount_def split: if_splits)

declare include_closure_loop.simps [simp del] includer_closure_loop.simps [simp del]

definition no_files :: "nat \<Rightarrow> collectedFiles" where
  "no_files maxFileNumbers =
     \<lparr>cf_fileNumbers = [], cf_maxFileNumbers = maxFileNumbers, cf_count = 0\<rparr>"

text \<open>The count, and the numbers stored.\<close>

definition collectIncludeClosure :: "includeGraph \<Rightarrow> int \<Rightarrow> nat \<Rightarrow> nat \<times> int list" where
  "collectIncludeClosure graph fileNumber maxFileNumbers =
     (let files = include_closure_loop graph 0
                    (collectIncludedBy graph fileNumber (no_files maxFileNumbers))
      in (cf_count files, cf_fileNumbers files))"

definition collectIncluderClosure :: "includeGraph \<Rightarrow> int \<Rightarrow> nat \<Rightarrow> nat \<times> int list" where
  "collectIncluderClosure graph fileNumber maxFileNumbers =
     (let files = includer_closure_loop graph 0
                    (collectIncludersOf graph fileNumber (no_files maxFileNumbers))
      in (cf_count files, cf_fileNumbers files))"

section \<open>Searching the sorted edges\<close>

text \<open>
  Both binary searches find the first index that is not below the key. The locale is the loop
  they share, over an array and a key.
\<close>

locale lower_bound =
  fixes search :: "'g \<Rightarrow> int \<Rightarrow> nat \<Rightarrow> nat \<Rightarrow> nat"
    and below :: "'g \<Rightarrow> int \<Rightarrow> nat \<Rightarrow> bool"
  assumes search_step: "search g k low high =
      (if low < high then
         (let middle = low + (high - low) div 2 in
          if below g k middle then search g k (middle + 1) high else search g k low middle)
       else low)"
begin

lemma search_finds:
  assumes "\<And>i j. i \<le> j \<Longrightarrow> j < n \<Longrightarrow> below g k j \<Longrightarrow> below g k i"
  shows "low \<le> high \<Longrightarrow> high \<le> n \<Longrightarrow> \<forall>i<low. below g k i \<Longrightarrow> \<forall>i. high \<le> i \<longrightarrow> i < n \<longrightarrow> \<not> below g k i \<Longrightarrow>
    search g k low high \<le> n \<and> (\<forall>i < search g k low high. below g k i)
    \<and> (\<forall>i. search g k low high \<le> i \<longrightarrow> i < n \<longrightarrow> \<not> below g k i)"
proof (induction "high - low" arbitrary: low high rule: less_induct)
  case less
  show ?case
  proof (cases "low < high")
    case False
    then show ?thesis using less.prems by (subst (1 2 3) search_step) auto
  next
    case True
    let ?m = "low + (high - low) div 2"
    have m: "low \<le> ?m" "?m < high" "?m < n" using True less.prems(2) by auto
    show ?thesis
    proof (cases "below g k ?m")
      case B: True
      have "\<forall>i<?m + 1. below g k i" using assms [OF _ m(3) B] by auto
      with less.hyps [of high "?m + 1"] m less.prems True B show ?thesis
        by (subst (1 2 3) search_step) (simp add: Let_def)
    next
      case B: False
      have "\<forall>i. ?m \<le> i \<longrightarrow> i < n \<longrightarrow> \<not> below g k i" using assms B by blast
      with less.hyps [of ?m low] m less.prems True B show ?thesis
        by (subst (1 2 3) search_step) (simp add: Let_def)
    qed
  qed
qed

end

interpretation by_includer: lower_bound firstEdgeOf_loop
    "\<lambda>graph includer m. edge_includer (ig_edges graph ! m) < includer"
  by unfold_locales (subst firstEdgeOf_loop.simps, rule refl)

interpretation by_included: lower_bound firstEdgeIncluding_loop
    "\<lambda>graph included m. edge_included (ig_edgesByIncluded graph ! m) < included"
  by unfold_locales (subst firstEdgeIncluding_loop.simps, rule refl)

lemma takeWhile_sorted_filter:
  assumes "sorted_wrt (\<lambda>a b. key a \<le> key b) ys" "\<forall>y\<in>set ys. (n :: int) \<le> key y"
  shows "takeWhile (\<lambda>y. key y = n) ys = filter (\<lambda>y. key y = n) ys"
  using assms
proof (induction ys)
  case (Cons y ys)
  show ?case
  proof (cases "key y = n")
    case False
    then have "\<forall>z\<in>set ys. key z \<noteq> n" using Cons.prems by fastforce
    then show ?thesis using False by (simp add: filter_empty_conv)
  qed (use Cons in auto)
qed simp

lemma run_of_key:
  assumes "sorted_wrt (\<lambda>a b. key a \<le> key b) xs" "r \<le> length xs"
    and "\<forall>i<r. key (xs ! i) < (n :: int)" "\<forall>i. r \<le> i \<longrightarrow> i < length xs \<longrightarrow> \<not> key (xs ! i) < n"
  shows "takeWhile (\<lambda>x. key x = n) (drop r xs) = filter (\<lambda>x. key x = n) xs"
proof -
  have "filter (\<lambda>x. key x = n) (take r xs) = []"
    using assms(2,3) by (fastforce simp: filter_empty_conv in_set_conv_nth)
  moreover have "takeWhile (\<lambda>x. key x = n) (drop r xs) = filter (\<lambda>x. key x = n) (drop r xs)"
  proof (rule takeWhile_sorted_filter)
    show "sorted_wrt (\<lambda>a b. key a \<le> key b) (drop r xs)" by (rule sorted_wrt_drop [OF assms(1)])
    show "\<forall>y\<in>set (drop r xs). n \<le> key y"
      using assms(2,4) by (auto simp: in_set_conv_nth not_less)
  qed
  ultimately show ?thesis
    by (metis append_take_drop_id filter_append self_append_conv2)
qed

lemma below_sorted:
  assumes "sorted_wrt (\<lambda>a b. key a \<le> (key b :: int)) xs" "i \<le> j" "j < length xs" "key (xs ! j) < k"
  shows "key (xs ! i) < k"
  using sorted_wrt_nth_less [OF assms(1), of i j] assms by (cases "i = j") auto

lemma included_by_loop_run:
  "included_by_loop graph n i files =
     fold collect_one (map edge_included (takeWhile (\<lambda>e. edge_includer e = n) (drop i (ig_edges graph)))) files"
proof (induction graph n i files rule: included_by_loop.induct)
  case (1 graph n i files)
  show ?case
  proof (cases "i < ig_count graph")
    case True
    then have "drop i (ig_edges graph) = ig_edges graph ! i # drop (i + 1) (ig_edges graph)"
      by (simp add: ig_count_def Cons_nth_drop_Suc del: drop_Suc_Cons)
    then show ?thesis using 1 True by (subst included_by_loop.simps) (auto split: if_splits)
  qed (subst included_by_loop.simps, simp add: ig_count_def)
qed

text \<open>A graph as it is built: both arrays hold the same edges, each sorted its way.\<close>

definition graph_ok :: "includeGraph \<Rightarrow> bool" where
  "graph_ok graph \<longleftrightarrow>
     sorted_wrt (\<lambda>a b. edge_includer a \<le> edge_includer b) (ig_edges graph)
     \<and> sorted_wrt (\<lambda>a b. edge_included a \<le> edge_included b) (ig_edgesByIncluded graph)
     \<and> mset (ig_edgesByIncluded graph) = mset (ig_edges graph)"

lemma graph_ok_length: "graph_ok graph \<Longrightarrow> length (ig_edgesByIncluded graph) = ig_count graph"
  by (metis graph_ok_def ig_count_def mset_eq_length)

lemma includers_loop_run:
  assumes "graph_ok graph"
  shows "includers_loop graph n i files =
     fold collect_one (map edge_includer (takeWhile (\<lambda>e. edge_included e = n) (drop i (ig_edgesByIncluded graph)))) files"
  using assms
proof (induction graph n i files rule: includers_loop.induct)
  case (1 graph n i files)
  show ?case
  proof (cases "i < ig_count graph")
    case True
    then have "drop i (ig_edgesByIncluded graph)
        = ig_edgesByIncluded graph ! i # drop (i + 1) (ig_edgesByIncluded graph)"
      using graph_ok_length [OF 1(2)] by (simp add: Cons_nth_drop_Suc del: drop_Suc_Cons)
    then show ?thesis using 1 True by (subst includers_loop.simps) (auto split: if_splits)
  qed (subst includers_loop.simps, simp add: graph_ok_length [OF 1(2)])
qed

lemma collectIncludedBy_fold:
  assumes "graph_ok graph"
  shows "collectIncludedBy graph n files =
    fold collect_one (map edge_included (filter (\<lambda>e. edge_includer e = n) (ig_edges graph))) files"
proof -
  have s: "sorted_wrt (\<lambda>a b. edge_includer a \<le> edge_includer b) (ig_edges graph)"
    using assms by (simp add: graph_ok_def)
  have "firstEdgeOf graph n \<le> ig_count graph
      \<and> (\<forall>i<firstEdgeOf graph n. edge_includer (ig_edges graph ! i) < n)
      \<and> (\<forall>i. firstEdgeOf graph n \<le> i \<longrightarrow> i < ig_count graph \<longrightarrow> \<not> edge_includer (ig_edges graph ! i) < n)"
    unfolding firstEdgeOf_def
    by (rule by_includer.search_finds) (auto simp: ig_count_def intro: below_sorted [OF s])
  then show ?thesis
    unfolding collectIncludedBy_def included_by_loop_run
    by (subst run_of_key [OF s, of "firstEdgeOf graph n"]) (auto simp: ig_count_def)
qed

lemma collectIncludersOf_fold:
  assumes "graph_ok graph"
  shows "collectIncludersOf graph n files =
    fold collect_one (map edge_includer (filter (\<lambda>e. edge_included e = n) (ig_edgesByIncluded graph))) files"
proof -
  have s: "sorted_wrt (\<lambda>a b. edge_included a \<le> edge_included b) (ig_edgesByIncluded graph)"
    using assms by (simp add: graph_ok_def)
  note l = graph_ok_length [OF assms]
  have "firstEdgeIncluding graph n \<le> ig_count graph
      \<and> (\<forall>i<firstEdgeIncluding graph n. edge_included (ig_edgesByIncluded graph ! i) < n)
      \<and> (\<forall>i. firstEdgeIncluding graph n \<le> i \<longrightarrow> i < ig_count graph
           \<longrightarrow> \<not> edge_included (ig_edgesByIncluded graph ! i) < n)"
    unfolding firstEdgeIncluding_def
    by (rule by_included.search_finds) (auto simp: l intro: below_sorted [OF s])
  then show ?thesis
    unfolding collectIncludersOf_def includers_loop_run [OF assms]
    by (subst run_of_key [OF s, of "firstEdgeIncluding graph n"]) (auto simp: l)
qed

section \<open>Collecting a closure\<close>

text \<open>
  What the array of collected files stands for while a closure \<open>C\<close> is collected: some of the
  files of the closure without repetition, as many as there is room for, and one more file that
  found no room when the count exceeds it.
\<close>

definition collecting :: "int set \<Rightarrow> collectedFiles \<Rightarrow> bool" where
  "collecting C files \<longleftrightarrow>
     length (cf_fileNumbers files) = min (cf_count files) (cf_maxFileNumbers files)
     \<and> distinct (cf_fileNumbers files) \<and> set (cf_fileNumbers files) \<subseteq> C
     \<and> (cf_maxFileNumbers files < cf_count files \<longrightarrow> \<not> C \<subseteq> set (cf_fileNumbers files))"

lemma storedCount_min: "storedCount files = min (cf_count files) (cf_maxFileNumbers files)"
  by (simp add: storedCount_def min_def)

lemma isCollected_iff: "collecting C files \<Longrightarrow> isCollected files x \<longleftrightarrow> x \<in> set (cf_fileNumbers files)"
  by (auto simp: isCollected_def collecting_def storedCount_min list_ex_iff in_set_conv_nth)

lemma collect_one_law:
  assumes "collecting C files" "x \<in> C"
  shows "collecting C (collect_one x files) \<and> cf_count files \<le> cf_count (collect_one x files)
    \<and> (\<exists>zs. cf_fileNumbers (collect_one x files) = cf_fileNumbers files @ zs)
    \<and> (cf_count (collect_one x files) \<le> cf_maxFileNumbers files \<longrightarrow>
         x \<in> set (cf_fileNumbers (collect_one x files)))"
  using assms unfolding collect_one_def isCollected_iff [OF assms(1)]
  by (auto simp: collecting_def min_def split: if_splits)

lemma collect_all_law:
  assumes "collecting C files" "set xs \<subseteq> C"
  shows "collecting C (fold collect_one xs files) \<and> cf_count files \<le> cf_count (fold collect_one xs files)
    \<and> cf_maxFileNumbers (fold collect_one xs files) = cf_maxFileNumbers files
    \<and> (\<exists>zs. cf_fileNumbers (fold collect_one xs files) = cf_fileNumbers files @ zs)
    \<and> (cf_count (fold collect_one xs files) \<le> cf_maxFileNumbers files \<longrightarrow>
         set xs \<subseteq> set (cf_fileNumbers (fold collect_one xs files)))"
  using assms
proof (induction xs arbitrary: files)
  case (Cons x xs)
  from collect_one_law [OF Cons.prems(1), of x] Cons.prems(2) obtain zs where
    1: "collecting C (collect_one x files)" "cf_count files \<le> cf_count (collect_one x files)"
      "cf_fileNumbers (collect_one x files) = cf_fileNumbers files @ zs"
      "cf_count (collect_one x files) \<le> cf_maxFileNumbers files \<longrightarrow>
         x \<in> set (cf_fileNumbers (collect_one x files))" by auto
  from Cons.IH [OF 1(1)] Cons.prems(2) show ?case using 1(2,3,4) by auto
qed simp

text \<open>
  The walk the two closures share. \<open>succs\<close> lists the files one step away from a file, \<open>ok\<close> is
  what the graph must satisfy for \<open>collect\<close> to collect them.
\<close>

locale file_walk =
  fixes ok :: "'g \<Rightarrow> bool"
    and collect :: "'g \<Rightarrow> int \<Rightarrow> collectedFiles \<Rightarrow> collectedFiles"
    and walk :: "'g \<Rightarrow> nat \<Rightarrow> collectedFiles \<Rightarrow> collectedFiles"
    and succs :: "'g \<Rightarrow> int \<Rightarrow> int list"
  assumes collect_fold: "ok g \<Longrightarrow> collect g n files = fold collect_one (succs g n) files"
    and walk_step: "walk g i files =
      (if i < storedCount files then walk g (i + 1) (collect g (cf_fileNumbers files ! i) files)
       else files)"
begin

definition closure_of :: "'g \<Rightarrow> int \<Rightarrow> int set" where
  "closure_of g n = {m. (n, m) \<in> {(a, b). b \<in> set (succs g a)}\<^sup>+}"

lemma succs_closure: "set (succs g n) \<subseteq> closure_of g n"
  by (auto simp: closure_of_def)

lemma closure_succs: "m \<in> closure_of g n \<Longrightarrow> set (succs g m) \<subseteq> closure_of g n"
  by (auto simp: closure_of_def intro: trancl_into_trancl)

lemma closure_least:
  assumes "set (succs g n) \<subseteq> A" "\<And>m. m \<in> A \<Longrightarrow> set (succs g m) \<subseteq> A"
  shows "closure_of g n \<subseteq> A"
proof
  fix m assume "m \<in> closure_of g n"
  then have "(n, m) \<in> {(a, b). b \<in> set (succs g a)}\<^sup>+" by (simp add: closure_of_def)
  then show "m \<in> A" using assms by (induction rule: trancl_induct) auto
qed

lemma walk_law:
  assumes "ok g"
  shows "collecting (closure_of g n) files \<Longrightarrow>
    (cf_count files \<le> cf_maxFileNumbers files \<longrightarrow> set (succs g n) \<subseteq> set (cf_fileNumbers files)
       \<and> (\<forall>j<i. j < length (cf_fileNumbers files) \<longrightarrow>
            set (succs g (cf_fileNumbers files ! j)) \<subseteq> set (cf_fileNumbers files))) \<Longrightarrow>
    collecting (closure_of g n) (walk g i files)
    \<and> cf_maxFileNumbers (walk g i files) = cf_maxFileNumbers files
    \<and> (cf_count (walk g i files) \<le> cf_maxFileNumbers files \<longrightarrow>
         closure_of g n \<subseteq> set (cf_fileNumbers (walk g i files)))"
proof (induction "cf_maxFileNumbers files - i" arbitrary: files i rule: less_induct)
  case less
  show ?case
  proof (cases "i < storedCount files")
    case False
    then have "walk g i files = files" by (subst walk_step) simp
    moreover have "closure_of g n \<subseteq> set (cf_fileNumbers files)"
      if "cf_count files \<le> cf_maxFileNumbers files"
    proof (rule closure_least)
      show "set (succs g n) \<subseteq> set (cf_fileNumbers files)" using less.prems(2) that by blast
      fix m assume "m \<in> set (cf_fileNumbers files)"
      then obtain j where "j < length (cf_fileNumbers files)" "m = cf_fileNumbers files ! j"
        by (auto simp: in_set_conv_nth)
      moreover from this have "j < i"
        using False less.prems(1) by (auto simp: collecting_def storedCount_min)
      ultimately show "set (succs g m) \<subseteq> set (cf_fileNumbers files)" using less.prems(2) that by blast
    qed
    ultimately show ?thesis using less.prems(1) by simp
  next
    case True
    let ?m = "cf_fileNumbers files ! i"
    let ?files = "collect g ?m files"
    have i: "i < length (cf_fileNumbers files)" "i < cf_maxFileNumbers files"
      using True less.prems(1) by (simp_all add: collecting_def storedCount_min)
    then have "?m \<in> closure_of g n" using less.prems(1) nth_mem [OF i(1)] unfolding collecting_def by blast
    from collect_all_law [OF less.prems(1) closure_succs [OF this]] obtain zs where
      1: "collecting (closure_of g n) ?files" "cf_count files \<le> cf_count ?files"
        "cf_maxFileNumbers ?files = cf_maxFileNumbers files"
        "cf_fileNumbers ?files = cf_fileNumbers files @ zs"
        "cf_count ?files \<le> cf_maxFileNumbers files \<longrightarrow> set (succs g ?m) \<subseteq> set (cf_fileNumbers ?files)"
      unfolding collect_fold [OF assms] by blast
    have "set (succs g (cf_fileNumbers ?files ! j)) \<subseteq> set (cf_fileNumbers ?files)"
      if "cf_count ?files \<le> cf_maxFileNumbers ?files" "j < i + 1" for j
    proof (cases "j = i")
      case True
      then show ?thesis using 1(3,4,5) that(1) i(1) by (simp add: nth_append)
    next
      case False
      then have j: "j < i" using that(2) by simp
      then have "set (succs g (cf_fileNumbers files ! j)) \<subseteq> set (cf_fileNumbers files)"
        using less.prems(2) that(1) 1(2,3) i(1) by auto
      then show ?thesis using 1(4) j i(1) by (auto simp: nth_append)
    qed
    moreover have "set (succs g n) \<subseteq> set (cf_fileNumbers ?files)"
      if "cf_count ?files \<le> cf_maxFileNumbers ?files"
      using that 1(2,3,4) less.prems(2) by auto
    ultimately have "cf_count ?files \<le> cf_maxFileNumbers ?files \<longrightarrow>
        set (succs g n) \<subseteq> set (cf_fileNumbers ?files)
        \<and> (\<forall>j<i + 1. j < length (cf_fileNumbers ?files) \<longrightarrow>
             set (succs g (cf_fileNumbers ?files ! j)) \<subseteq> set (cf_fileNumbers ?files))"
      by blast
    moreover have "cf_maxFileNumbers ?files - (i + 1) < cf_maxFileNumbers files - i"
      using 1(3) i(2) by simp
    ultimately have "collecting (closure_of g n) (walk g (i + 1) ?files)
      \<and> cf_maxFileNumbers (walk g (i + 1) ?files) = cf_maxFileNumbers files
      \<and> (cf_count (walk g (i + 1) ?files) \<le> cf_maxFileNumbers files \<longrightarrow>
           closure_of g n \<subseteq> set (cf_fileNumbers (walk g (i + 1) ?files)))"
      using less.hyps [of ?files "i + 1"] 1(1) unfolding 1(3) by blast
    moreover have "walk g i files = walk g (i + 1) ?files" using True by (subst walk_step) simp
    ultimately show ?thesis by simp
  qed
qed

text \<open>The count tells whether the closure fits, and then the array holds it.\<close>

lemma closure_collected:
  fixes n :: int and maxf :: nat
  assumes "ok g"
  defines "files \<equiv> walk g 0 (collect g n (no_files maxf))"
  shows "cf_count files \<le> maxf \<longleftrightarrow> finite (closure_of g n) \<and> card (closure_of g n) \<le> maxf"
    and "cf_count files \<le> maxf \<Longrightarrow> set (cf_fileNumbers files) = closure_of g n
      \<and> length (cf_fileNumbers files) = cf_count files"
    and "distinct (cf_fileNumbers files)" "set (cf_fileNumbers files) \<subseteq> closure_of g n"
    and "length (cf_fileNumbers files) = min (cf_count files) maxf"
proof -
  have "collecting (closure_of g n) (no_files maxf)" by (simp add: collecting_def no_files_def)
  from collect_all_law [OF this succs_closure]
  have 1: "collecting (closure_of g n) (collect g n (no_files maxf))"
    "cf_maxFileNumbers (collect g n (no_files maxf)) = maxf"
    "cf_count (collect g n (no_files maxf)) \<le> maxf \<longrightarrow>
       set (succs g n) \<subseteq> set (cf_fileNumbers (collect g n (no_files maxf)))"
    unfolding collect_fold [OF assms(1)] by (simp_all add: no_files_def)
  from walk_law [OF assms(1) 1(1), of 0] 1(2,3)
  have 2: "collecting (closure_of g n) files" "cf_maxFileNumbers files = maxf"
    "cf_count files \<le> maxf \<longrightarrow> closure_of g n \<subseteq> set (cf_fileNumbers files)"
    by (simp_all add: files_def)
  show 3: "cf_count files \<le> maxf \<Longrightarrow> set (cf_fileNumbers files) = closure_of g n
      \<and> length (cf_fileNumbers files) = cf_count files"
    using 2 by (auto simp: collecting_def)
  show d: "distinct (cf_fileNumbers files)" "set (cf_fileNumbers files) \<subseteq> closure_of g n"
    "length (cf_fileNumbers files) = min (cf_count files) maxf"
    using 2 by (simp_all add: collecting_def)
  show "cf_count files \<le> maxf \<longleftrightarrow> finite (closure_of g n) \<and> card (closure_of g n) \<le> maxf"
  proof
    assume "cf_count files \<le> maxf"
    with 3 d show "finite (closure_of g n) \<and> card (closure_of g n) \<le> maxf"
      by (metis List.finite_set distinct_card)
  next
    assume a: "finite (closure_of g n) \<and> card (closure_of g n) \<le> maxf"
    show "cf_count files \<le> maxf"
    proof (rule ccontr)
      assume "\<not> cf_count files \<le> maxf"
      then have "length (cf_fileNumbers files) = maxf" "\<not> closure_of g n \<subseteq> set (cf_fileNumbers files)"
        using 2 by (simp_all add: collecting_def)
      then have "maxf < card (closure_of g n)"
        using d a by (metis distinct_card psubsetI psubset_card_mono subset_refl)
      with a show False by simp
    qed
  qed
qed

end

interpretation downward: file_walk graph_ok collectIncludedBy include_closure_loop
    "\<lambda>graph n. map edge_included (filter (\<lambda>e. edge_includer e = n) (ig_edges graph))"
  by unfold_locales (rule collectIncludedBy_fold, assumption, subst include_closure_loop.simps, rule refl)

interpretation upward: file_walk graph_ok collectIncludersOf includer_closure_loop
    "\<lambda>graph n. map edge_includer (filter (\<lambda>e. edge_included e = n) (ig_edgesByIncluded graph))"
  by unfold_locales (rule collectIncludersOf_fold, assumption, subst includer_closure_loop.simps, rule refl)

section \<open>The graph that is built\<close>

text \<open>What the code relies on of \<^verbatim>\<open>qsort\<close>: it permutes, and it sorts by a comparison that is one.\<close>

definition comparison :: "(includeEdge \<Rightarrow> includeEdge \<Rightarrow> int) \<Rightarrow> bool" where
  "comparison cmp \<longleftrightarrow> (\<forall>a b. cmp a b \<le> 0 \<or> cmp b a \<le> 0)
     \<and> (\<forall>a b c. cmp a b \<le> 0 \<longrightarrow> cmp b c \<le> 0 \<longrightarrow> cmp a c \<le> 0)"

definition sorts :: "qsort_function \<Rightarrow> bool" where
  "sorts qsort \<longleftrightarrow> (\<forall>cmp xs. mset (qsort cmp xs) = mset xs
     \<and> (comparison cmp \<longrightarrow> sorted_wrt (\<lambda>a b. cmp a b \<le> 0) (qsort cmp xs)))"

definition edge_pairs :: "includeEdge list \<Rightarrow> (int \<times> int) set" where
  "edge_pairs es = (\<lambda>e. (edge_includer e, edge_included e)) ` set es"

text \<open>Which file includes which, by the item table and by the scans.\<close>

definition includes_rel :: "item_table \<Rightarrow> file_table \<Rightarrow> (int \<times> int) set" where
  "includes_rel itemTable table =
     {(pos_file (ref_position r), ri_includeFileNumber item) | item r.
        item \<in> set (concat (hl_tab itemTable)) \<and> ri_type item = TypeCppInclude
        \<and> r \<in> set (ri_references item) \<and> ref_usage r \<noteq> UsageDefined}
     \<union> {(int i, int j) | i j item. i < tab_size table \<and> tab_tab table ! i = Some item
        \<and> j \<in> set (fi_scannedIncludes item)}"

lemma compareByIncluder_iff: "compareByIncluder a b \<le> 0 \<longleftrightarrow> edge_includer a \<le> edge_includer b"
  by (simp add: compareByIncluder_def)

lemma compareByIncluded_iff: "compareByIncluded a b \<le> 0 \<longleftrightarrow> edge_included a \<le> edge_included b"
  by (simp add: compareByIncluded_def)

lemma edge_comparisons: "comparison compareByIncluder" "comparison compareByIncluded"
  by (auto simp: comparison_def compareByIncluder_iff compareByIncluded_iff)

lemma addEdge_edges [simp]:
  "edge_pairs (ig_edges (addEdge graph a b)) = insert (a, b) (edge_pairs (ig_edges graph))"
  "ig_edgesByIncluded (addEdge graph a b) = ig_edgesByIncluded graph"
  by (simp_all add: addEdge_def edge_pairs_def Let_def)

lemma addEdgesOf_edges:
  "edge_pairs (ig_edges (addEdgesOf item graph)) = edge_pairs (ig_edges graph)
     \<union> {(pos_file (ref_position r), ri_includeFileNumber item) | r.
          ri_type item = TypeCppInclude \<and> r \<in> set (ri_references item) \<and> ref_usage r \<noteq> UsageDefined}
   \<and> ig_edgesByIncluded (addEdgesOf item graph) = ig_edgesByIncluded graph"
proof -
  have "edge_pairs (ig_edges (fold (\<lambda>r g. if ref_usage r \<noteq> UsageDefined
           then addEdge g (pos_file (ref_position r)) n else g) rs graph)) = edge_pairs (ig_edges graph)
      \<union> {(pos_file (ref_position r), n) | r. r \<in> set rs \<and> ref_usage r \<noteq> UsageDefined}
    \<and> ig_edgesByIncluded (fold (\<lambda>r g. if ref_usage r \<noteq> UsageDefined
           then addEdge g (pos_file (ref_position r)) n else g) rs graph) = ig_edgesByIncluded graph"
    for n rs
    by (induction rs arbitrary: graph) auto
  then show ?thesis by (auto simp: addEdgesOf_def)
qed

lemma addScannedEdgesOf_edges:
  "edge_pairs (ig_edges (addScannedEdgesOf item i graph)) = edge_pairs (ig_edges graph)
     \<union> {(int i, int j) | j. j \<in> set (fi_scannedIncludes item)}
   \<and> ig_edgesByIncluded (addScannedEdgesOf item i graph) = ig_edgesByIncluded graph"
proof -
  have "edge_pairs (ig_edges (fold (\<lambda>j g. addEdge g (int i) (int j)) js graph)) = edge_pairs (ig_edges graph)
      \<union> {(int i, int j) | j. j \<in> set js}
    \<and> ig_edgesByIncluded (fold (\<lambda>j g. addEdge g (int i) (int j)) js graph) = ig_edgesByIncluded graph" for js
    by (induction js arbitrary: graph) auto
  then show ?thesis by (simp add: addScannedEdgesOf_def)
qed

lemma from_this_or_next: "{f k | k. i \<le> k \<and> k < n \<and> P k} =
    (if i < n \<and> P i then {f i} else {}) \<union> {f k | k. Suc i \<le> k \<and> k < n \<and> P k}" for i n :: nat
  using le_eq_less_or_eq [of i] by (auto simp: Suc_le_eq)

lemma scanned_edges:
  "edge_pairs (ig_edges (fold_files table (\<lambda>i item. addScannedEdgesOf item i) k graph))
     = edge_pairs (ig_edges graph) \<union> {(int i, int j) | i j item. k \<le> i \<and> i < tab_size table
         \<and> tab_tab table ! i = Some item \<and> j \<in> set (fi_scannedIncludes item)}
   \<and> ig_edgesByIncluded (fold_files table (\<lambda>i item. addScannedEdgesOf item i) k graph)
     = ig_edgesByIncluded graph"
proof (induction table "\<lambda>i item. addScannedEdgesOf item i" k graph rule: fold_files.induct)
  case (1 table k graph)
  have from_k: "k \<le> i \<longleftrightarrow> i = k \<or> k + 1 \<le> i" for i by auto
  show ?case
  proof (cases "k < tab_size table")
    case False
    then show ?thesis by (subst (1 2) fold_files.simps) auto
  next
    case True
    show ?thesis
    proof (cases "tab_tab table ! k")
      case None
      then show ?thesis
        using 1(1) [OF True None] True by (subst (1 2) fold_files.simps, subst from_k) auto
    next
      case (Some item)
      then show ?thesis
        using 1(2) [OF True Some] True addScannedEdgesOf_edges [of item k graph]
        by (subst (1 2) fold_files.simps, subst from_k) auto
    qed
  qed
qed

lemma item_edges:
  "edge_pairs (ig_edges (fold (\<lambda>item. addEdgesOf item) items graph)) = edge_pairs (ig_edges graph)
     \<union> {(pos_file (ref_position r), ri_includeFileNumber item) | item r.
          item \<in> set items \<and> ri_type item = TypeCppInclude \<and> r \<in> set (ri_references item)
          \<and> ref_usage r \<noteq> UsageDefined}
   \<and> ig_edgesByIncluded (fold (\<lambda>item. addEdgesOf item) items graph) = ig_edgesByIncluded graph"
  by (induction items arbitrary: graph) (auto simp: addEdgesOf_edges)

lemma edge_pairs_mset: "mset es = mset fs \<Longrightarrow> edge_pairs es = edge_pairs fs"
  by (auto simp: edge_pairs_def dest: mset_eq_setD)

lemma graph_built:
  assumes "sorts qsort"
  shows "graph_ok (buildIncludeGraph qsort itemTable table)
    \<and> edge_pairs (ig_edges (buildIncludeGraph qsort itemTable table)) = includes_rel itemTable table"
proof -
  let ?g0 = "\<lparr>ig_edges = [], ig_edgesByIncluded = [], ig_allocated = 0\<rparr>"
  let ?g1 = "mapOverReferenceableItemTableWithPointer itemTable (\<lambda>item _. addEdgesOf item) () ?g0"
  let ?g2 = "fold_files table (\<lambda>i item. addScannedEdgesOf item i) 0 ?g1"
  have 1: "edge_pairs (ig_edges ?g2) = includes_rel itemTable table" "ig_edgesByIncluded ?g2 = []"
    using scanned_edges [of table 0 ?g1] item_edges [of "concat (hl_tab itemTable)" ?g0]
    by (auto simp: mapOverReferenceableItemTableWithPointer_def hashListMapWithPointer_def
        includes_rel_def edge_pairs_def)
  show ?thesis
  proof (cases "ig_count ?g2 > 0")
    case False
    then show ?thesis
      using 1 by (simp add: buildIncludeGraph_def Let_def graph_ok_def ig_count_def)
  next
    case True
    let ?e = "qsort compareByIncluder (ig_edges ?g2)"
    have "mset ?e = mset (ig_edges ?g2)" "mset (qsort compareByIncluded ?e) = mset ?e"
      "sorted_wrt (\<lambda>a b. compareByIncluder a b \<le> 0) ?e"
      "sorted_wrt (\<lambda>a b. compareByIncluded a b \<le> 0) (qsort compareByIncluded ?e)"
      using assms edge_comparisons by (simp_all add: sorts_def)
    then show ?thesis
      using True 1 edge_pairs_mset [of ?e "ig_edges ?g2"]
      by (simp add: buildIncludeGraph_def Let_def graph_ok_def compareByIncluder_iff compareByIncluded_iff)
  qed
qed

lemma downward_closure: "downward.closure_of graph n = {m. (n, m) \<in> (edge_pairs (ig_edges graph))\<^sup>+}"
proof -
  have "{(a, b). b \<in> set (map edge_included (filter (\<lambda>e. edge_includer e = a) (ig_edges graph)))}
      = edge_pairs (ig_edges graph)"
    by (auto simp: edge_pairs_def)
  then show ?thesis by (simp add: downward.closure_of_def)
qed

lemma upward_closure:
  "graph_ok graph \<Longrightarrow> upward.closure_of graph n = {m. (m, n) \<in> (edge_pairs (ig_edges graph))\<^sup>+}"
proof -
  assume "graph_ok graph"
  then have "edge_pairs (ig_edgesByIncluded graph) = edge_pairs (ig_edges graph)"
    by (intro edge_pairs_mset) (simp add: graph_ok_def)
  moreover have "{(a, b). b \<in> set (map edge_includer (filter (\<lambda>e. edge_included e = a) (ig_edgesByIncluded graph)))}
      = (edge_pairs (ig_edgesByIncluded graph))\<inverse>"
    by (auto simp: edge_pairs_def)
  ultimately show ?thesis
    by (simp add: upward.closure_of_def trancl_converse)
qed

section \<open>Properties\<close>

text \<open>
  What the collecting functions return for a closure: a count that is within the room exactly
  when the closure has no more files than there is room for, and then each of them once;
  otherwise as many of them as there is room for.
\<close>

definition closure_result :: "int set \<Rightarrow> nat \<Rightarrow> nat \<times> int list \<Rightarrow> bool" where
  "closure_result C maxf r \<longleftrightarrow>
     (fst r \<le> maxf \<longleftrightarrow> finite C \<and> card C \<le> maxf)
     \<and> distinct (snd r) \<and> length (snd r) = min (fst r) maxf
     \<and> (if fst r \<le> maxf then set (snd r) = C else set (snd r) \<subseteq> C)"

lemma include_closure_ok:
  "graph_ok graph \<Longrightarrow>
   closure_result {m. (n, m) \<in> (edge_pairs (ig_edges graph))\<^sup>+} maxf (collectIncludeClosure graph n maxf)"
  using downward.closure_collected [of graph n maxf]
  by (simp add: closure_result_def collectIncludeClosure_def Let_def downward_closure)

lemma includer_closure_ok:
  "graph_ok graph \<Longrightarrow>
   closure_result {m. (m, n) \<in> (edge_pairs (ig_edges graph))\<^sup>+} maxf (collectIncluderClosure graph n maxf)"
  using upward.closure_collected [of graph n maxf]
  by (simp add: closure_result_def collectIncluderClosure_def Let_def upward_closure)

text \<open>C22: In the graph built from the tables, the two closures are the files that a file includes, and
  the files that include it, directly or through other files: the count is within the room
  exactly when the closure has no more files than there is room for, and then the array holds
  each of them once; otherwise it holds as many of them as it can.\<close>

theorem include_closures:
  assumes "sorts qsort"
  shows "closure_result {m. (n, m) \<in> (includes_rel itemTable table)\<^sup>+} maxf
      (collectIncludeClosure (buildIncludeGraph qsort itemTable table) n maxf)
    \<and> closure_result {m. (m, n) \<in> (includes_rel itemTable table)\<^sup>+} maxf
      (collectIncluderClosure (buildIncludeGraph qsort itemTable table) n maxf)"
  using graph_built [OF assms, of itemTable table]
    include_closure_ok [of "buildIncludeGraph qsort itemTable table" n maxf]
    includer_closure_ok [of "buildIncludeGraph qsort itemTable table" n maxf] by simp

text \<open>A sorting function, and tables in which file 1 includes 2 and the scan found that 2 includes 3.\<close>

fun insert_by :: "('a \<Rightarrow> 'a \<Rightarrow> int) \<Rightarrow> 'a \<Rightarrow> 'a list \<Rightarrow> 'a list" where
  "insert_by cmp x [] = [x]"
| "insert_by cmp x (y # ys) = (if cmp x y \<le> 0 then x # y # ys else y # insert_by cmp x ys)"

definition insertion_sort :: qsort_function where
  "insertion_sort cmp xs = foldr (insert_by cmp) xs []"

lemma mset_insert_by [simp]: "mset (insert_by cmp x ys) = add_mset x (mset ys)"
  by (induction ys) auto

lemma set_insert_by [simp]: "set (insert_by cmp x ys) = insert x (set ys)"
  by (induction ys) auto

lemma insertion_sort_sorts: "sorts insertion_sort"
proof -
  have "mset (insertion_sort cmp xs) = mset xs" for cmp xs
    by (induction xs) (simp_all add: insertion_sort_def)
  moreover have "sorted_wrt (\<lambda>a b. cmp a b \<le> 0) (insertion_sort cmp xs)" if c: "comparison cmp" for cmp xs
  proof -
    have "sorted_wrt (\<lambda>a b. cmp a b \<le> 0) (insert_by cmp x ys)"
      if "sorted_wrt (\<lambda>a b. cmp a b \<le> 0) ys" for x ys
      using that c by (induction ys) (auto simp: comparison_def)
    then show ?thesis by (induction xs) (simp_all add: insertion_sort_def)
  qed
  ultimately show ?thesis by (simp add: sorts_def)
qed

definition example_items :: item_table where
  "example_items = \<lparr>hl_size = 1, hl_tab = [[\<lparr>ri_linkName = ''%%%i'', ri_type = TypeCppInclude,
     ri_storage = StorageDefault, ri_visibility = VisibilityGlobal, ri_includeFileNumber = 2,
     ri_references = [makeReference (Position 1 1 0) UsageUsed]\<rparr>]]\<rparr>"

definition example_files :: file_table where
  "example_files = \<lparr>tab_numberOfElements = 1, tab_size = 3,
     tab_tab = [None, None, Some ((fillFileItem ''a.h'')\<lparr>fi_scannedIncludes := [3]\<rparr>)]\<rparr>"

lemma example_files_items:
  "i < tab_size example_files \<and> tab_tab example_files ! i = Some item \<longleftrightarrow>
     i = 2 \<and> item = (fillFileItem ''a.h'')\<lparr>fi_scannedIncludes := [3]\<rparr>"
proof -
  consider "i = 0" | "i = 1" | "i = 2" | "3 \<le> i" by linarith
  then show ?thesis by cases (auto simp: example_files_def)
qed

lemma example_includes: "includes_rel example_items example_files = {(1, 2), (2, 3)}"
proof -
  have "{(int i, int j) | i j item. i < tab_size example_files \<and> tab_tab example_files ! i = Some item
      \<and> j \<in> set (fi_scannedIncludes item)} = {(2, 3)}"
    unfolding conj_assoc [symmetric] example_files_items by auto
  moreover have "{(pos_file (ref_position r), ri_includeFileNumber item) | item r.
      item \<in> set (concat (hl_tab example_items)) \<and> ri_type item = TypeCppInclude
      \<and> r \<in> set (ri_references item) \<and> ref_usage r \<noteq> UsageDefined} = {(1, 2)}"
    by (simp add: example_items_def makeReference_def)
  ultimately show ?thesis unfolding includes_rel_def by (simp add: insert_commute)
qed

theorem include_closures_witness:
  "set (snd (collectIncludeClosure (buildIncludeGraph insertion_sort example_items example_files) 1 5)) = {2, 3}"
proof -
  let ?r = "collectIncludeClosure (buildIncludeGraph insertion_sort example_items example_files) 1 5"
  have "m = 2 \<or> m = 3" if "(1, m) \<in> {(1, 2), (2, 3 :: int)}\<^sup>+" for m :: int
    using that by (induction rule: trancl_induct) auto
  moreover have "(1, 2) \<in> {(1, 2), (2, 3 :: int)}\<^sup>+" "(1 :: int, 3) \<in> {(1, 2), (2, 3)}\<^sup>+"
    by (auto intro: trancl_into_trancl [of 1 2])
  ultimately have "{m. (1 :: int, m) \<in> {(1, 2), (2, 3)}\<^sup>+} = {2, 3}" by auto
  with include_closures [OF insertion_sort_sorts, of 1 example_items example_files 5]
  have c: "closure_result {2, 3} 5 ?r"
    unfolding example_includes by simp
  then have "fst ?r \<le> 5" by (simp add: closure_result_def)
  with c show ?thesis by (simp add: closure_result_def)
qed

end
