(* ===== verification/Freshness.thy ===== *)
theory Freshness
  imports IncludeGraph
begin

text \<open>
  Models \<^verbatim>\<open>freshness.c\<close>: whether the knowledge of a compilation unit is still current. It depends
  on the file and everything it includes; the include graph and the change times asked for are
  kept for the length of a request (\<open>prerequisites\<close>). The files on disk and in editor buffers are
  the parameter \<open>fs\<close>; a file that does not exist has a zero time. A file number without an item,
  where the code reads through a null pointer, makes a function return \<^const>\<open>None\<close>.
\<close>

record changeTime =
  ct_known :: bool
  ct_time :: timestamp

record prerequisites =
  pr_includeGraph :: includeGraph
  pr_changeTimes :: "int \<Rightarrow> changeTime"

definition collectPrerequisites :: "qsort_function \<Rightarrow> item_table \<Rightarrow> file_table \<Rightarrow> prerequisites" where
  "collectPrerequisites qsort itemTable table =
     \<lparr>pr_includeGraph = buildIncludeGraph qsort itemTable table,
      pr_changeTimes = (\<lambda>_. \<lparr>ct_known = False, ct_time = nullTimestamp\<rparr>)\<rparr>"

text \<open>The item of a number a graph holds.\<close>

definition file_item :: "file_table \<Rightarrow> int \<Rightarrow> fileItem option" where
  "file_item table n = (if n < 0 then None else getFileItemWithFileNumber table (nat n))"

definition changeTimeOf ::
  "file_system \<Rightarrow> file_table \<Rightarrow> prerequisites \<Rightarrow> int \<Rightarrow> (timestamp \<times> prerequisites) option" where
  "changeTimeOf fs table pr fileNumber =
     (if ct_known (pr_changeTimes pr fileNumber) then Some (ct_time (pr_changeTimes pr fileNumber), pr)
      else do {
        fileItem \<leftarrow> file_item table fileNumber;
        let time = editorFileModificationTime fs (fi_name fileItem);
        let time = (if \<not> fileTimestampIsZero time \<and> fileTimestampIsLessThan time (fi_changeTime fileItem)
                    then fi_changeTime fileItem else time);
        Some (time, pr\<lparr>pr_changeTimes := (pr_changeTimes pr)(fileNumber := \<lparr>ct_known = True, ct_time = time\<rparr>)\<rparr>)
      })"

definition COARSE_CLOCK_GAP_IN_NANOSECONDS :: int where
  "COARSE_CLOCK_GAP_IN_NANOSECONDS = 10000000"

definition MAX_INCLUDE_CLOSURE :: nat where
  "MAX_INCLUDE_CLOSURE = 1000"

text \<open>The current time is the argument.\<close>

definition changeTimeNow :: "timestamp \<Rightarrow> timestamp" where
  "changeTimeNow now = fileTimestampMinus now COARSE_CLOCK_GAP_IN_NANOSECONDS"

definition changedAfter :: "timestamp \<Rightarrow> timestamp \<Rightarrow> bool" where
  "changedAfter changeTime readTime \<longleftrightarrow>
     fileTimestampIsLessThan (fileTimestampMinus readTime COARSE_CLOCK_GAP_IN_NANOSECONDS) changeTime"

definition prerequisiteChangedAfter :: "timestamp \<Rightarrow> timestamp \<Rightarrow> bool" where
  "prerequisiteChangedAfter changeTime knowledgeTime \<longleftrightarrow>
     fileTimestampIsZero changeTime \<or> changedAfter changeTime knowledgeTime"

definition collectIncludeClosureOf :: "prerequisites \<Rightarrow> int \<Rightarrow> nat \<Rightarrow> nat \<times> int list" where
  "collectIncludeClosureOf pr fileNumber maxFileNumbers =
     collectIncludeClosure (pr_includeGraph pr) fileNumber maxFileNumbers"

definition collectIncluderClosureOf :: "prerequisites \<Rightarrow> int \<Rightarrow> nat \<Rightarrow> nat \<times> int list" where
  "collectIncluderClosureOf pr fileNumber maxFileNumbers =
     collectIncluderClosure (pr_includeGraph pr) fileNumber maxFileNumbers"

datatype outOfDateReason =
  KNOWLEDGE_CURRENT | KNOWLEDGE_MISSING | CU_CHANGED | PREREQUISITE_CHANGED | CLOSURE_TOO_LARGE

datatype outOfDate = OutOfDate (ood_reason: outOfDateReason) (ood_fileNumber: int)

fun prerequisites_loop ::
  "file_system \<Rightarrow> file_table \<Rightarrow> timestamp \<Rightarrow> int \<Rightarrow> int list \<Rightarrow> prerequisites
    \<Rightarrow> (outOfDate \<times> prerequisites) option" where
  "prerequisites_loop fs table knowledgeTime fileNumber [] pr =
     Some (OutOfDate KNOWLEDGE_CURRENT fileNumber, pr)"
| "prerequisites_loop fs table knowledgeTime fileNumber (m # ms) pr = do {
     (time, pr1) \<leftarrow> changeTimeOf fs table pr m;
     if prerequisiteChangedAfter time knowledgeTime
     then Some (OutOfDate PREREQUISITE_CHANGED m, pr1)
     else prerequisites_loop fs table knowledgeTime fileNumber ms pr1
   }"

definition whyOutOfDate ::
  "file_system \<Rightarrow> file_table \<Rightarrow> prerequisites \<Rightarrow> int \<Rightarrow> fileItem \<Rightarrow> (outOfDate \<times> prerequisites) option" where
  "whyOutOfDate fs table pr fileNumber fileItem =
     (if fileTimestampIsZero (fi_knowledgeTime fileItem)
      then Some (OutOfDate KNOWLEDGE_MISSING fileNumber, pr)
      else if prerequisiteChangedAfter (editorFileModificationTime fs (fi_name fileItem)) (fi_knowledgeTime fileItem)
      then Some (OutOfDate CU_CHANGED fileNumber, pr)
      else
        (let (closureCount, closure) = collectIncludeClosure (pr_includeGraph pr) fileNumber MAX_INCLUDE_CLOSURE in
         if closureCount > MAX_INCLUDE_CLOSURE then Some (OutOfDate CLOSURE_TOO_LARGE fileNumber, pr)
         else prerequisites_loop fs table (fi_knowledgeTime fileItem) fileNumber closure pr))"

definition whyKnowledgeIsOutOfDate ::
  "file_system \<Rightarrow> file_table \<Rightarrow> prerequisites \<Rightarrow> int \<Rightarrow> (outOfDate \<times> prerequisites) option" where
  "whyKnowledgeIsOutOfDate fs table pr fileNumber = do {
     fileItem \<leftarrow> file_item table fileNumber;
     whyOutOfDate fs table pr fileNumber fileItem
   }"

definition knowledgeIsOutOfDate ::
  "file_system \<Rightarrow> file_table \<Rightarrow> prerequisites \<Rightarrow> int \<Rightarrow> (bool \<times> prerequisites) option" where
  "knowledgeIsOutOfDate fs table pr fileNumber = do {
     fileItem \<leftarrow> file_item table fileNumber;
     (outOfDate, pr1) \<leftarrow> whyOutOfDate fs table pr fileNumber fileItem;
     Some (ood_reason outOfDate \<noteq> KNOWLEDGE_CURRENT, pr1)
   }"

section \<open>The specification\<close>

text \<open>
  The change time of a file, without the memory of a request, and when the knowledge of a file is
  current, with respect to the relation \<open>R\<close> of which file includes which: there is some, the file
  has not changed, and no file of the closure, which is small enough, has.
\<close>

definition change_time :: "file_system \<Rightarrow> fileItem \<Rightarrow> timestamp" where
  "change_time fs item =
     (let time = editorFileModificationTime fs (fi_name item) in
      if time \<noteq> nullTimestamp then max time (fi_changeTime item) else time)"

definition current :: "file_system \<Rightarrow> file_table \<Rightarrow> (int \<times> int) set \<Rightarrow> int \<Rightarrow> fileItem \<Rightarrow> bool" where
  "current fs table R n item \<longleftrightarrow>
     fi_knowledgeTime item \<noteq> nullTimestamp
     \<and> \<not> prerequisiteChangedAfter (editorFileModificationTime fs (fi_name item)) (fi_knowledgeTime item)
     \<and> finite {m. (n, m) \<in> R\<^sup>+} \<and> card {m. (n, m) \<in> R\<^sup>+} \<le> MAX_INCLUDE_CLOSURE
     \<and> (\<forall>m prereq. (n, m) \<in> R\<^sup>+ \<longrightarrow> file_item table m = Some prereq \<longrightarrow>
          \<not> prerequisiteChangedAfter (change_time fs prereq) (fi_knowledgeTime item))"

text \<open>The reason and the file it names, given that knowledge is not current.\<close>

definition reason_holds ::
  "file_system \<Rightarrow> file_table \<Rightarrow> (int \<times> int) set \<Rightarrow> int \<Rightarrow> fileItem \<Rightarrow> outOfDate \<Rightarrow> bool" where
  "reason_holds fs table R n item why \<longleftrightarrow>
     (case ood_reason why of
        KNOWLEDGE_CURRENT \<Rightarrow> current fs table R n item
      | KNOWLEDGE_MISSING \<Rightarrow> fi_knowledgeTime item = nullTimestamp
      | CU_CHANGED \<Rightarrow>
          prerequisiteChangedAfter (editorFileModificationTime fs (fi_name item)) (fi_knowledgeTime item)
      | PREREQUISITE_CHANGED \<Rightarrow> (n, ood_fileNumber why) \<in> R\<^sup>+
          \<and> (\<exists>prereq. file_item table (ood_fileNumber why) = Some prereq
             \<and> prerequisiteChangedAfter (change_time fs prereq) (fi_knowledgeTime item))
      | CLOSURE_TOO_LARGE \<Rightarrow>
          \<not> (finite {m. (n, m) \<in> R\<^sup>+} \<and> card {m. (n, m) \<in> R\<^sup>+} \<le> MAX_INCLUDE_CLOSURE))"

lemma reason_current: "ood_reason why \<noteq> KNOWLEDGE_CURRENT \<Longrightarrow> reason_holds fs table R n item why \<Longrightarrow>
    \<not> current fs table R n item"
  by (cases "ood_reason why") (auto simp: reason_holds_def current_def)

text \<open>The memory of a request only holds change times as they are.\<close>

definition prerequisites_ok :: "file_system \<Rightarrow> file_table \<Rightarrow> (int \<times> int) set \<Rightarrow> prerequisites \<Rightarrow> bool" where
  "prerequisites_ok fs table R pr \<longleftrightarrow>
     graph_ok (pr_includeGraph pr) \<and> edge_pairs (ig_edges (pr_includeGraph pr)) = R
     \<and> (\<forall>n. ct_known (pr_changeTimes pr n) \<longrightarrow>
          (\<exists>item. file_item table n = Some item \<and> ct_time (pr_changeTimes pr n) = change_time fs item))"

lemma change_time_code:
  "change_time fs item =
     (let time = editorFileModificationTime fs (fi_name item) in
      if \<not> fileTimestampIsZero time \<and> fileTimestampIsLessThan time (fi_changeTime item)
      then fi_changeTime item else time)"
  by (auto simp: change_time_def Let_def fileTimestampIsZero_iff max_def less_eq_timestamp_def
      simp flip: less_timestamp_def)

lemma changeTimeOf_law:
  assumes "prerequisites_ok fs table R pr" "file_item table n = Some item"
  shows "\<exists>pr'. changeTimeOf fs table pr n = Some (change_time fs item, pr') \<and> prerequisites_ok fs table R pr'
    \<and> pr_includeGraph pr' = pr_includeGraph pr"
  using assms by (auto simp: changeTimeOf_def prerequisites_ok_def change_time_code Let_def)

lemma prerequisites_loop_law:
  assumes "prerequisites_ok fs table R pr" "\<forall>m\<in>set ms. file_item table m \<noteq> None"
  shows "\<exists>why pr'. prerequisites_loop fs table kt n ms pr = Some (why, pr') \<and> prerequisites_ok fs table R pr'
    \<and> (if \<forall>m\<in>set ms. \<forall>item. file_item table m = Some item \<longrightarrow> \<not> prerequisiteChangedAfter (change_time fs item) kt
       then why = OutOfDate KNOWLEDGE_CURRENT n
       else ood_reason why = PREREQUISITE_CHANGED \<and> ood_fileNumber why \<in> set ms
         \<and> (\<exists>item. file_item table (ood_fileNumber why) = Some item
              \<and> prerequisiteChangedAfter (change_time fs item) kt))"
  using assms
proof (induction ms arbitrary: pr)
  case (Cons m ms)
  from Cons.prems(2) obtain item where i: "file_item table m = Some item" by auto
  from changeTimeOf_law [OF Cons.prems(1) i] obtain pr1 where
    1: "changeTimeOf fs table pr m = Some (change_time fs item, pr1)" "prerequisites_ok fs table R pr1" by blast
  show ?case
  proof (cases "prerequisiteChangedAfter (change_time fs item) kt")
    case True
    then show ?thesis using i 1 by auto
  next
    case False
    from Cons.IH [OF 1(2)] Cons.prems(2) obtain why pr' where
      "prerequisites_loop fs table kt n ms pr1 = Some (why, pr')" "prerequisites_ok fs table R pr'"
      "if \<forall>m\<in>set ms. \<forall>item. file_item table m = Some item \<longrightarrow> \<not> prerequisiteChangedAfter (change_time fs item) kt
       then why = OutOfDate KNOWLEDGE_CURRENT n
       else ood_reason why = PREREQUISITE_CHANGED \<and> ood_fileNumber why \<in> set ms
         \<and> (\<exists>item. file_item table (ood_fileNumber why) = Some item
              \<and> prerequisiteChangedAfter (change_time fs item) kt)" by auto
    then show ?thesis using False i 1 by (auto split: if_splits)
  qed
qed simp

lemma whyOutOfDate_law:
  assumes "prerequisites_ok fs table R pr" "\<forall>m. (n, m) \<in> R\<^sup>+ \<longrightarrow> file_item table m \<noteq> None"
  shows "\<exists>why pr'. whyOutOfDate fs table pr n item = Some (why, pr') \<and> prerequisites_ok fs table R pr'
    \<and> reason_holds fs table R n item why"
proof -
  let ?kt = "fi_knowledgeTime item" and ?C = "{m. (n, m) \<in> R\<^sup>+}"
  let ?changed = "prerequisiteChangedAfter (editorFileModificationTime fs (fi_name item)) ?kt"
  show ?thesis
  proof (cases "?kt = nullTimestamp \<or> ?changed")
    case True
    then show ?thesis
      using assms(1) by (auto simp: whyOutOfDate_def reason_holds_def fileTimestampIsZero_iff)
  next
    case False
    obtain cnt ms where c: "collectIncludeClosure (pr_includeGraph pr) n MAX_INCLUDE_CLOSURE = (cnt, ms)"
      by fastforce
    have r: "closure_result ?C MAX_INCLUDE_CLOSURE (cnt, ms)"
      using include_closure_ok [of "pr_includeGraph pr" n MAX_INCLUDE_CLOSURE] assms(1) c
      by (simp add: prerequisites_ok_def)
    show ?thesis
    proof (cases "cnt \<le> MAX_INCLUDE_CLOSURE")
      case large: False
      then show ?thesis
        using False r c assms(1)
        by (simp add: whyOutOfDate_def reason_holds_def fileTimestampIsZero_iff closure_result_def)
    next
      case fits: True
      then have ms: "set ms = ?C" "finite ?C" "card ?C \<le> MAX_INCLUDE_CLOSURE"
        using r by (simp_all add: closure_result_def)
      have w: "whyOutOfDate fs table pr n item = prerequisites_loop fs table ?kt n ms pr"
        using False fits c by (simp add: whyOutOfDate_def fileTimestampIsZero_iff)
      from prerequisites_loop_law [OF assms(1), of ms ?kt n] ms(1) assms(2) obtain why pr' where
        l: "prerequisites_loop fs table ?kt n ms pr = Some (why, pr')" "prerequisites_ok fs table R pr'"
          "if \<forall>m\<in>set ms. \<forall>item. file_item table m = Some item \<longrightarrow> \<not> prerequisiteChangedAfter (change_time fs item) ?kt
           then why = OutOfDate KNOWLEDGE_CURRENT n
           else ood_reason why = PREREQUISITE_CHANGED \<and> ood_fileNumber why \<in> set ms
             \<and> (\<exists>item. file_item table (ood_fileNumber why) = Some item
                  \<and> prerequisiteChangedAfter (change_time fs item) ?kt)" by auto
      have "reason_holds fs table R n item why"
      proof (cases "\<forall>m\<in>set ms. \<forall>item. file_item table m = Some item \<longrightarrow> \<not> prerequisiteChangedAfter (change_time fs item) ?kt")
        case True
        then show ?thesis using l(3) ms False by (auto simp: reason_holds_def current_def)
      next
        case False
        from l(3) have "ood_reason why = PREREQUISITE_CHANGED" "ood_fileNumber why \<in> ?C"
          "\<exists>item'. file_item table (ood_fileNumber why) = Some item' \<and> prerequisiteChangedAfter (change_time fs item') ?kt"
          unfolding if_not_P [OF False] unfolding ms(1) by blast+
        then show ?thesis by (simp add: reason_holds_def)
      qed
      with l w show ?thesis by auto
    qed
  qed
qed

lemma collectPrerequisites_ok:
  "sorts qsort \<Longrightarrow> prerequisites_ok fs table (includes_rel itemTable table) (collectPrerequisites qsort itemTable table)"
  using graph_built [of qsort itemTable table] by (simp add: prerequisites_ok_def collectPrerequisites_def)

section \<open>Properties\<close>


text \<open>Knowledge that is current was built after everything it is built from: the file and every file
  it includes at any depth exist, and the time each was last changed is at least the gap of the
  coarse clock before the time of the knowledge.\<close>

theorem current_knowledge_is_newest:
  assumes "current fs table R n item" "(n, m) \<in> R\<^sup>+" "file_item table m = Some prereq"
    and "wf_timestamp (fi_knowledgeTime item)" "wf_timestamp (change_time fs prereq)"
  shows "editorFileModificationTime fs (fi_name prereq) \<noteq> nullTimestamp
    \<and> nanoseconds_of (change_time fs prereq) + COARSE_CLOCK_GAP_IN_NANOSECONDS
        \<le> nanoseconds_of (fi_knowledgeTime item)"
proof -
  have n: "\<not> prerequisiteChangedAfter (change_time fs prereq) (fi_knowledgeTime item)"
    using assms(1,2,3) by (simp add: current_def)
  have "wf_timestamp (fileTimestampMinus (fi_knowledgeTime item) COARSE_CLOCK_GAP_IN_NANOSECONDS)"
    using assms(4) by (intro fileTimestampMinus_wf) (simp_all add: COARSE_CLOCK_GAP_IN_NANOSECONDS_def)
  from fileTimestampIsLessThan_iff [OF this assms(5)] n
  have "nanoseconds_of (change_time fs prereq) + COARSE_CLOCK_GAP_IN_NANOSECONDS
      \<le> nanoseconds_of (fi_knowledgeTime item)"
    unfolding prerequisiteChangedAfter_def changedAfter_def fileTimestampMinus_nanoseconds by linarith
  moreover from n have "change_time fs prereq \<noteq> nullTimestamp"
    by (simp add: prerequisiteChangedAfter_def fileTimestampIsZero_iff)
  then have "editorFileModificationTime fs (fi_name prereq) \<noteq> nullTimestamp"
    by (auto simp: change_time_def)
  ultimately show ?thesis by simp
qed

text \<open>A unit that includes a header, both on disk, and the tables after it was parsed.\<close>

definition example_disk :: file_system where
  "example_disk = \<lparr>editorFileExists = (\<lambda>_. True), editorFileModificationTime = (\<lambda>_. Timestamp 100 0)\<rparr>"

definition example_unit :: fileItem where
  "example_unit = (fillFileItem ''a.c'')\<lparr>fi_knowledgeTime := Timestamp 100 10000000\<rparr>"

definition example_units :: file_table where
  "example_units = \<lparr>tab_numberOfElements = 2, tab_size = 3,
     tab_tab = [None, Some example_unit, Some (fillFileItem ''a.h'')]\<rparr>"

definition example_includes_header :: item_table where
  "example_includes_header = \<lparr>hl_size = 1, hl_tab = [[\<lparr>ri_linkName = ''%%%i'', ri_type = TypeCppInclude,
     ri_storage = StorageDefault, ri_visibility = VisibilityGlobal, ri_includeFileNumber = 2,
     ri_references = [makeReference (Position 1 1 0) UsageUsed]\<rparr>]]\<rparr>"

lemma example_units_item:
  "file_item example_units 1 = Some example_unit" "file_item example_units 2 = Some (fillFileItem ''a.h'')"
  by (simp_all add: file_item_def getFileItemWithFileNumber_def example_units_def)

lemma example_units_rel: "includes_rel example_includes_header example_units = {(1, 2)}"
proof -
  have "fi_scannedIncludes item = []" if "i < tab_size example_units" "tab_tab example_units ! i = Some item" for i item
  proof -
    from that(1) consider "i = 0" | "i = 1" | "i = 2" by (fastforce simp: example_units_def)
    then show ?thesis
      using that(2) by cases (auto simp: example_units_def example_unit_def fillFileItem_def)
  qed
  then have "{(int i, int j) | i j item. i < tab_size example_units \<and> tab_tab example_units ! i = Some item
      \<and> j \<in> set (fi_scannedIncludes item)} = {}" by fastforce
  moreover have "{(pos_file (ref_position r), ri_includeFileNumber item) | item r.
      item \<in> set (concat (hl_tab example_includes_header)) \<and> ri_type item = TypeCppInclude
      \<and> r \<in> set (ri_references item) \<and> ref_usage r \<noteq> UsageDefined} = {(1, 2)}"
    by (simp add: example_includes_header_def makeReference_def)
  ultimately show ?thesis unfolding includes_rel_def by (simp only: Un_empty_right)
qed

lemma single_trancl: "(a, b) \<in> {(c, d)}\<^sup>+ \<longleftrightarrow> a = c \<and> b = d"
proof
  show "(a, b) \<in> {(c, d)}\<^sup>+ \<Longrightarrow> a = c \<and> b = d" by (induction rule: trancl_induct) auto
qed auto

lemma timestamp_less: "Timestamp a b < Timestamp c d \<longleftrightarrow> (if a \<noteq> c then a < c else b < d)"
  unfolding less_timestamp_def fileTimestampIsLessThan_def by simp

lemma example_header_time: "change_time example_disk (fillFileItem ''a.h'') = Timestamp 100 0"
  by (simp add: change_time_def example_disk_def fillFileItem_def nullTimestamp_def max_def
      timestamp_less Let_def flip: not_less)

lemma example_current: "current example_disk example_units {(1, 2)} 1 example_unit"
proof -
  have k: "fi_knowledgeTime example_unit = Timestamp 100 10000000" by (simp add: example_unit_def)
  have "\<not> prerequisiteChangedAfter (Timestamp 100 0) (Timestamp 100 10000000)"
    by (simp add: prerequisiteChangedAfter_def changedAfter_def fileTimestampIsZero_def fileTimestampMinus_def
        COARSE_CLOCK_GAP_IN_NANOSECONDS_def)
  then show ?thesis
    by (simp add: current_def k single_trancl example_units_item example_header_time nullTimestamp_def
        MAX_INCLUDE_CLOSURE_def) (simp add: example_disk_def)
qed


theorem current_knowledge_is_newest_witness:
  "editorFileModificationTime example_disk (fi_name (fillFileItem ''a.h'')) \<noteq> nullTimestamp"
  using current_knowledge_is_newest [OF example_current, of 2 "fillFileItem ''a.h''"]
  by (auto simp: single_trancl example_units_item wf_timestamp_def example_unit_def change_time_def
      example_disk_def nullTimestamp_def fillFileItem_def max_def)

end
