(* ===== verification/EditorBuffer.thy ===== *)
theory EditorBuffer
  imports FileTable Encoding
begin

text \<open>
  Models \<^verbatim>\<open>editorbuffer.c\<close>, \<^verbatim>\<open>editorbuffertable.c\<close>, \<^verbatim>\<open>undo.c\<close> and the functions of \<^verbatim>\<open>editor.c\<close> they
  call: the buffers the program edits files in, and the table that finds the buffer of a file.

  Buffers and markers are objects: a pointer is a number, the heap maps it to the object, \<^const>\<open>None\<close>
  once it is freed. A function that reads through a pointer to a freed object, or ends the process,
  returns \<^const>\<open>None\<close>. The text of a buffer is the list of its bytes, \<open>bufferSize\<close> its length; of the
  block it is in, the index of its size class and its size are kept, and of the free blocks how many
  there are of each class. Every reading of the clock takes the next of a sequence of times.
\<close>

section \<open>State\<close>

record editorBuffer =
  eb_fileName :: string
  eb_fileNumber :: int
  eb_preLoadedFromFile :: "string option"
  eb_modificationTime :: timestamp
  eb_textLoaded :: bool
  eb_modified :: bool
  eb_modifiedSinceLastQuasiSave :: bool
  eb_heldThisRequest :: bool
  eb_size :: nat
  eb_markers :: "nat list"
  eb_text :: "int list"
  eb_allocatedFreePrefixSize :: nat
  eb_allocatedIndex :: nat
  eb_allocatedSize :: nat

record editorMarker =
  em_buffer :: nat
  em_offset :: int

datatype editorUndo =
    UndoReplaceString nat int int "int list"
  | UndoRenameBuffer nat string
  | UndoMoveBlock nat int int nat int

record editor =
  ed_buffers :: "nat \<Rightarrow> editorBuffer option"
  ed_nextBuffer :: nat
  ed_markers :: "nat \<Rightarrow> editorMarker option"
  ed_nextMarker :: nat
  ed_table :: "nat hashList"
  ed_memory :: "nat \<Rightarrow> nat"
  ed_fileTable :: file_table
  ed_itemTable :: item_table
  ed_clock :: "nat \<Rightarrow> timestamp"
  ed_ticks :: nat

text \<open>The files on disk and the settings the functions read.\<close>

record environment =
  env_fileExists :: "string \<Rightarrow> bool"
  env_isDirectory :: "string \<Rightarrow> bool"
  env_fileModificationTime :: "string \<Rightarrow> timestamp"
  env_fileSize :: "string \<Rightarrow> nat"
  env_fileContents :: "string \<Rightarrow> int list option"
  env_cwd :: string
  env_fileNamesCaseSensitive :: bool
  env_cFilesSuffixes :: string

definition fileTimestampNow :: "editor \<Rightarrow> timestamp \<times> editor" where
  "fileTimestampNow s = (ed_clock s (ed_ticks s), s\<lparr>ed_ticks := ed_ticks s + 1\<rparr>)"

definition update_buffer :: "editor \<Rightarrow> nat \<Rightarrow> (editorBuffer \<Rightarrow> editorBuffer) \<Rightarrow> editor option" where
  "update_buffer s b f =
     (case ed_buffers s b of
        None \<Rightarrow> None
      | Some buffer \<Rightarrow> Some (s\<lparr>ed_buffers := (ed_buffers s)(b \<mapsto> f buffer)\<rparr>))"

section \<open>Undo information\<close>

definition newUndoRename :: "nat \<Rightarrow> string \<Rightarrow> editorUndo list \<Rightarrow> editorUndo list" where
  "newUndoRename buffer name rest = UndoRenameBuffer buffer name # rest"

text \<open>The length of the string is that of the list.\<close>

definition newUndoReplace :: "nat \<Rightarrow> int \<Rightarrow> int \<Rightarrow> int list \<Rightarrow> editorUndo list \<Rightarrow> editorUndo list" where
  "newUndoReplace buffer offset sz str rest = UndoReplaceString buffer offset sz str # rest"

definition newUndoMove :: "nat \<Rightarrow> int \<Rightarrow> int \<Rightarrow> nat \<Rightarrow> int \<Rightarrow> editorUndo list \<Rightarrow> editorUndo list" where
  "newUndoMove buffer offset sz dbuffer doffset rest = UndoMoveBlock buffer offset sz dbuffer doffset # rest"

section \<open>Buffers\<close>

definition fillEmptyEditorBuffer :: "string \<Rightarrow> int \<Rightarrow> string option \<Rightarrow> editorBuffer" where
  "fillEmptyEditorBuffer realFileName fileNumber preLoadedFromFile =
     \<lparr>eb_fileName = realFileName, eb_fileNumber = fileNumber, eb_preLoadedFromFile = preLoadedFromFile,
      eb_modificationTime = nullTimestamp, eb_textLoaded = False, eb_modified = False,
      eb_modifiedSinceLastQuasiSave = False, eb_heldThisRequest = False, eb_size = 0, eb_markers = [],
      eb_text = [], eb_allocatedFreePrefixSize = 0, eb_allocatedIndex = 0, eb_allocatedSize = 0\<rparr>"

definition allocate_buffer :: "editor \<Rightarrow> editorBuffer \<Rightarrow> nat \<times> editor" where
  "allocate_buffer s buffer =
     (ed_nextBuffer s, s\<lparr>ed_buffers := (ed_buffers s)(ed_nextBuffer s \<mapsto> buffer),
                         ed_nextBuffer := ed_nextBuffer s + 1\<rparr>)"

definition newEditorBuffer ::
  "editor \<Rightarrow> string \<Rightarrow> int \<Rightarrow> string option \<Rightarrow> timestamp \<Rightarrow> nat \<Rightarrow> nat \<times> editor" where
  "newEditorBuffer s realFileName fileNumber preLoadedFromFile modificationTime sz =
     allocate_buffer s ((fillEmptyEditorBuffer realFileName fileNumber preLoadedFromFile)
       \<lparr>eb_modificationTime := modificationTime, eb_size := sz\<rparr>)"

definition isPreloaded :: "editorBuffer \<Rightarrow> bool" where
  "isPreloaded buffer \<longleftrightarrow> eb_preLoadedFromFile buffer \<noteq> None"

definition holdsAuthoritativeContent :: "editorBuffer \<Rightarrow> bool" where
  "holdsAuthoritativeContent buffer \<longleftrightarrow> isPreloaded buffer \<or> eb_modified buffer"

definition setEditorBufferModified :: "editor \<Rightarrow> nat \<Rightarrow> editor option" where
  "setEditorBufferModified s b =
     (let (now, s1) = fileTimestampNow s in
      update_buffer s1 b (\<lambda>buffer. buffer\<lparr>eb_modified := True, eb_heldThisRequest := True,
        eb_modifiedSinceLastQuasiSave := True, eb_modificationTime := now\<rparr>))"

definition getTextInEditorBuffer :: "editor \<Rightarrow> nat \<Rightarrow> int list option" where
  "getTextInEditorBuffer s b = map_option eb_text (ed_buffers s b)"

definition getSizeOfEditorBuffer :: "editor \<Rightarrow> nat \<Rightarrow> nat option" where
  "getSizeOfEditorBuffer s b = map_option (\<lambda>buffer. length (eb_text buffer)) (ed_buffers s b)"

section \<open>Text space\<close>

definition EDITOR_ALLOCATION_RESERVE :: nat where "EDITOR_ALLOCATION_RESERVE = 1024"
definition EDITOR_FREE_PREFIX_SIZE :: nat where "EDITOR_FREE_PREFIX_SIZE = 16"

text \<open>
  The size class of a block: \<open>allocatedSize\<close> starts at 2048 and \<open>allocIndex\<close> at 11, and they are
  doubled and increased together.
\<close>

function size_class_loop :: "nat \<Rightarrow> nat \<Rightarrow> nat" where
  "size_class_loop minSize allocIndex =
     (if 2 ^ allocIndex < minSize then size_class_loop minSize (allocIndex + 1) else allocIndex)"
  by pat_completeness auto
termination
proof (relation "measure (\<lambda>(minSize, allocIndex). minSize - allocIndex)")
  fix minSize allocIndex :: nat
  assume "2 ^ allocIndex < minSize"
  moreover have "allocIndex < 2 ^ allocIndex" by simp
  ultimately have "allocIndex < minSize" by linarith
  then show "((minSize, allocIndex + 1), minSize, allocIndex)
      \<in> measure (\<lambda>(minSize, allocIndex). minSize - allocIndex)" by simp
qed simp

declare size_class_loop.simps [simp del]

definition freeTextSpace :: "editor \<Rightarrow> nat \<Rightarrow> editor" where
  "freeTextSpace s index = s\<lparr>ed_memory := (ed_memory s)(index := ed_memory s index + 1)\<rparr>"

text \<open>The bytes of the new text are not read before they are written; they are shown as zeros.\<close>

definition allocateNewEditorBufferTextSpace :: "editor \<Rightarrow> nat \<Rightarrow> nat \<Rightarrow> editor option" where
  "allocateNewEditorBufferTextSpace s b sz =
     (let minSize = sz + EDITOR_ALLOCATION_RESERVE + EDITOR_FREE_PREFIX_SIZE;
          allocIndex = size_class_loop minSize 11;
          s1 = (if ed_memory s allocIndex = 0 then s
                else s\<lparr>ed_memory := (ed_memory s)(allocIndex := ed_memory s allocIndex - 1)\<rparr>)
      in update_buffer s1 b (\<lambda>buffer. buffer\<lparr>eb_text := replicate sz 0,
           eb_allocatedFreePrefixSize := EDITOR_FREE_PREFIX_SIZE, eb_allocatedIndex := allocIndex,
           eb_allocatedSize := 2 ^ allocIndex\<rparr>))"

definition loadTextIntoEditorBuffer :: "editor \<Rightarrow> nat \<Rightarrow> timestamp \<Rightarrow> int list \<Rightarrow> editor option" where
  "loadTextIntoEditorBuffer s b modificationTime str = do {
     s1 \<leftarrow> allocateNewEditorBufferTextSpace s b (length str);
     update_buffer s1 b (\<lambda>buffer. buffer\<lparr>eb_text := str\<rparr>)
   }"

text \<open>The reading loop ends when the room for the size asked for, or the file, is used up.\<close>

definition loadFileIntoEditorBuffer ::
  "environment \<Rightarrow> editor \<Rightarrow> nat \<Rightarrow> timestamp \<Rightarrow> nat \<Rightarrow> editor option" where
  "loadFileIntoEditorBuffer env s b modificationTime fileSize = do {
     s1 \<leftarrow> allocateNewEditorBufferTextSpace s b fileSize;
     buffer \<leftarrow> ed_buffers s1 b;
     let fileName = (case eb_preLoadedFromFile buffer of Some name \<Rightarrow> name | None \<Rightarrow> eb_fileName buffer);
     bytes \<leftarrow> env_fileContents env fileName;
     let str = take fileSize bytes;
     update_buffer s1 b (\<lambda>buffer. buffer\<lparr>eb_text := performEncodingAdjustments str,
       eb_modificationTime := modificationTime, eb_size := fileSize, eb_textLoaded := True\<rparr>)
   }"

section \<open>The table\<close>

definition bufferName :: "editor \<Rightarrow> nat \<Rightarrow> string" where
  "bufferName s b = (case ed_buffers s b of None \<Rightarrow> [] | Some buffer \<Rightarrow> eb_fileName buffer)"

definition bufferHash :: "editor \<Rightarrow> nat \<Rightarrow> 32 word" where
  "bufferHash s b = hashFun (bufferName s b)"

definition equalBuffers :: "editor \<Rightarrow> nat \<Rightarrow> nat \<Rightarrow> bool" where
  "equalBuffers s b1 b2 \<longleftrightarrow> strcmp (bufferName s b1) (bufferName s b2) = 0"

definition EDITOR_BUFFER_TABLE_SIZE :: nat where "EDITOR_BUFFER_TABLE_SIZE = 100"

definition initEditorBufferTable :: "editor \<Rightarrow> editor" where
  "initEditorBufferTable s = s\<lparr>ed_table := hashListNoAllocInit EDITOR_BUFFER_TABLE_SIZE\<rparr>"

definition addEditorBuffer :: "editor \<Rightarrow> nat \<Rightarrow> (nat \<times> editor) option" where
  "addEditorBuffer s b =
     (if bufferName s b = [] then None
      else (let (position, table) = hashListAdd (bufferHash s) (equalBuffers s) (ed_table s) b
            in Some (position, s\<lparr>ed_table := table\<rparr>)))"

definition editorBufferIsMember :: "editor \<Rightarrow> nat \<Rightarrow> bool \<times> nat \<times> nat list" where
  "editorBufferIsMember s b = hashListIsMember (bufferHash s) (equalBuffers s) (ed_table s) b"

definition getEditorBufferListElementAt :: "editor \<Rightarrow> nat \<Rightarrow> nat list" where
  "getEditorBufferListElementAt s index = hl_tab (ed_table s) ! index"

definition getNextExistingEditorBufferIndex :: "editor \<Rightarrow> nat \<Rightarrow> int" where
  "getNextExistingEditorBufferIndex s index = next_used_slot (hl_tab (ed_table s)) index"

definition registerEditorBuffer :: "editor \<Rightarrow> nat \<Rightarrow> (nat \<times> editor) option" where
  "registerEditorBuffer s b = addEditorBuffer s b"

text \<open>The buffer allocated for the search is never freed.\<close>

definition deregisterEditorBuffer :: "editor \<Rightarrow> string \<Rightarrow> nat option \<times> editor" where
  "deregisterEditorBuffer s fileName =
     (let (query, s1) = allocate_buffer s (fillEmptyEditorBuffer fileName 0 None);
          (member, foundIndex, _) = editorBufferIsMember s1 query
      in if \<not> member then (None, s1)
         else
           (let slot = hl_tab (ed_table s1) ! foundIndex;
                isNamed = (\<lambda>b. strcmp (bufferName s1 b) fileName = 0)
            in case find isNamed slot of
                 None \<Rightarrow> (None, s1)
               | Some b \<Rightarrow>
                   (Some b, s1\<lparr>ed_table := (ed_table s1)\<lparr>hl_tab :=
                      (hl_tab (ed_table s1))[foundIndex := snd (unlink_first isNamed slot)]\<rparr>\<rparr>)))"

text \<open>The buffer of the search is on the stack here.\<close>

definition getEditorBufferForFile :: "editor \<Rightarrow> string \<Rightarrow> nat option" where
  "getEditorBufferForFile s fileName =
     (let (query, s1) = allocate_buffer s (fillEmptyEditorBuffer fileName 0 None);
          (member, _, foundElement) = editorBufferIsMember s1 query
      in if member then Some (hd foundElement) else None)"

section \<open>Files seen through the buffers\<close>

definition editorFileModificationTime_of :: "environment \<Rightarrow> editor \<Rightarrow> string \<Rightarrow> timestamp" where
  "editorFileModificationTime_of env s path =
     (case Option.bind (getEditorBufferForFile s path) (ed_buffers s) of
        Some buffer \<Rightarrow> eb_modificationTime buffer
      | None \<Rightarrow> env_fileModificationTime env path)"

definition editorFileExists_of :: "environment \<Rightarrow> editor \<Rightarrow> string \<Rightarrow> bool" where
  "editorFileExists_of env s path =
     (case Option.bind (getEditorBufferForFile s path) (ed_buffers s) of
        Some buffer \<Rightarrow> (if eb_preLoadedFromFile buffer \<noteq> None then True else env_fileExists env path)
      | None \<Rightarrow> env_fileExists env path)"

definition fs_of :: "environment \<Rightarrow> editor \<Rightarrow> file_system" where
  "fs_of env s = \<lparr>editorFileExists = editorFileExists_of env s,
                  editorFileModificationTime = editorFileModificationTime_of env s\<rparr>"

definition add_file_name :: "environment \<Rightarrow> editor \<Rightarrow> string \<Rightarrow> (nat \<times> editor) option" where
  "add_file_name env s fileName = do {
     (n, table) \<leftarrow> addFileNameToFileTable (env_fileNamesCaseSensitive env) (env_cwd env) (fs_of env s)
                     (ed_fileTable s) fileName;
     Some (n, s\<lparr>ed_fileTable := table\<rparr>)
   }"

definition mark_deleted :: "editor \<Rightarrow> int \<Rightarrow> editor option" where
  "mark_deleted s fileNumber = do {
     (table, itemTable) \<leftarrow> markFileAsDeleted (ed_fileTable s) (ed_itemTable s) (nat fileNumber);
     Some (s\<lparr>ed_fileTable := table, ed_itemTable := itemTable\<rparr>)
   }"

section \<open>Creating, finding and freeing buffers\<close>

definition createNewEditorBuffer ::
  "environment \<Rightarrow> editor \<Rightarrow> string \<Rightarrow> string option \<Rightarrow> timestamp \<Rightarrow> nat \<Rightarrow> (nat \<times> editor) option" where
  "createNewEditorBuffer env s realFileName preLoadedFromFile modificationTime sz = do {
     normalizedRealFileName \<leftarrow>
       normalizeFileName_static (env_fileNamesCaseSensitive env) realFileName (env_cwd env);
     normalizedLoadedFromFile \<leftarrow>
       (case preLoadedFromFile of
          None \<Rightarrow> Some None
        | Some name \<Rightarrow>
            if strcmp realFileName name = 0 then None
            else map_option Some (normalizeFileName_static (env_fileNamesCaseSensitive env) name (env_cwd env)));
     let (b, s1) = newEditorBuffer s normalizedRealFileName 0 normalizedLoadedFromFile modificationTime sz;
     (_, s2) \<leftarrow> registerEditorBuffer s1 b;
     (fileNumber, s3) \<leftarrow> add_file_name env s2 normalizedRealFileName;
     s4 \<leftarrow> update_buffer s3 b (\<lambda>buffer. buffer\<lparr>eb_fileNumber := int fileNumber\<rparr>);
     Some (b, s4)
   }"

definition freeMarkersInEditorBuffer :: "editor \<Rightarrow> editorBuffer \<Rightarrow> editor" where
  "freeMarkersInEditorBuffer s buffer = s\<lparr>ed_markers := (ed_markers s) |` (- set (eb_markers buffer))\<rparr>"

definition freeEditorBuffer :: "editor \<Rightarrow> nat option \<Rightarrow> editor option" where
  "freeEditorBuffer s b =
     (case b of
        None \<Rightarrow> Some s
      | Some b' \<Rightarrow>
          (case ed_buffers s b' of
             None \<Rightarrow> None
           | Some buffer \<Rightarrow>
               (let s1 = freeMarkersInEditorBuffer s buffer;
                    s2 = (if eb_textLoaded buffer then freeTextSpace s1 (eb_allocatedIndex buffer) else s1)
                in Some (s2\<lparr>ed_buffers := (ed_buffers s2)(b' := None)\<rparr>))))"

definition getOpenedAndLoadedEditorBuffer :: "editor \<Rightarrow> string \<Rightarrow> nat option option" where
  "getOpenedAndLoadedEditorBuffer s fileName =
     (case getEditorBufferForFile s fileName of
        None \<Rightarrow> Some None
      | Some b \<Rightarrow> map_option (\<lambda>buffer. if eb_textLoaded buffer then Some b else None) (ed_buffers s b))"

text \<open>A buffer without its text is returned as it is: only a new one is loaded.\<close>

definition findOrCreateAndLoadEditorBufferForFile ::
  "environment \<Rightarrow> editor \<Rightarrow> string \<Rightarrow> (nat option \<times> editor) option" where
  "findOrCreateAndLoadEditorBufferForFile env s fileName =
     (case getEditorBufferForFile s fileName of
        Some b \<Rightarrow> Some (Some b, s)
      | None \<Rightarrow>
          (if env_fileExists env fileName \<and> \<not> env_isDirectory env fileName then do {
             (b, s1) \<leftarrow> createNewEditorBuffer env s fileName None (env_fileModificationTime env fileName)
                          (env_fileSize env fileName);
             s2 \<leftarrow> loadFileIntoEditorBuffer env s1 b (env_fileModificationTime env fileName)
                     (env_fileSize env fileName);
             Some (Some b, s2)
           } else Some (None, s)))"

definition createEditorBufferForNewFile :: "environment \<Rightarrow> editor \<Rightarrow> string \<Rightarrow> (nat \<times> editor) option" where
  "createEditorBufferForNewFile env s fileName = do {
     let (now, s1) = fileTimestampNow s;
     (b, s2) \<leftarrow> createNewEditorBuffer env s1 fileName None now 0;
     s3 \<leftarrow> allocateNewEditorBufferTextSpace s2 b 0;
     s4 \<leftarrow> update_buffer s3 b (\<lambda>buffer. buffer\<lparr>eb_textLoaded := True\<rparr>);
     Some (b, s4)
   }"

definition hold :: "editor \<Rightarrow> nat \<Rightarrow> (nat \<times> editor) option" where
  "hold s b = map_option (Pair b) (update_buffer s b (\<lambda>buffer. buffer\<lparr>eb_heldThisRequest := True\<rparr>))"

definition openEditorBufferFromPreload ::
  "environment \<Rightarrow> editor \<Rightarrow> string \<Rightarrow> string \<Rightarrow> (nat \<times> editor) option" where
  "openEditorBufferFromPreload env s fileName preLoadedFromFile =
     (case getEditorBufferForFile s fileName of
        Some b \<Rightarrow> do {
          buffer \<leftarrow> ed_buffers s b;
          let incomingMtime = env_fileModificationTime env preLoadedFromFile;
          if fileTimestampsEqual incomingMtime (eb_modificationTime buffer) then hold s b
          else do {
            name \<leftarrow> normalizeFileName_static (env_fileNamesCaseSensitive env) preLoadedFromFile (env_cwd env);
            s1 \<leftarrow> update_buffer s b (\<lambda>buffer. buffer\<lparr>eb_preLoadedFromFile := Some name\<rparr>);
            s2 \<leftarrow> loadFileIntoEditorBuffer env s1 b incomingMtime (env_fileSize env preLoadedFromFile);
            hold s2 b
          }
        }
      | None \<Rightarrow> do {
          (b, s1) \<leftarrow> createNewEditorBuffer env s fileName (Some preLoadedFromFile)
                       (env_fileModificationTime env preLoadedFromFile) (env_fileSize env preLoadedFromFile);
          hold s1 b
        })"

text \<open>
  The steps of renaming: the buffer is taken out of the table and put back under its new name, over
  a buffer that has it; an empty buffer of the old name is left behind. \<open>undo\<close> is \<^const>\<open>None\<close> when no
  undo information is wanted. Renaming a buffer that is not in the table only reports an error.
\<close>

definition leave_empty_buffer :: "environment \<Rightarrow> editor \<Rightarrow> nat \<Rightarrow> string \<Rightarrow> editor option" where
  "leave_empty_buffer env s b oldName = do {
     buffer \<leftarrow> ed_buffers s b;
     (removed, s1) \<leftarrow> createNewEditorBuffer env s oldName None (eb_modificationTime buffer) (eb_size buffer);
     s2 \<leftarrow> allocateNewEditorBufferTextSpace s1 removed 0;
     s3 \<leftarrow> update_buffer s2 removed (\<lambda>buffer. buffer\<lparr>eb_textLoaded := True\<rparr>);
     setEditorBufferModified s3 removed
   }"

definition register_renamed :: "editor \<Rightarrow> nat \<Rightarrow> string \<Rightarrow> editor option" where
  "register_renamed s b newFileName = do {
     s1 \<leftarrow> (case getEditorBufferForFile s newFileName of
              None \<Rightarrow> Some s
            | Some _ \<Rightarrow> (let (deleted, s') = deregisterEditorBuffer s newFileName
                        in freeEditorBuffer s' deleted));
     (_, s2) \<leftarrow> registerEditorBuffer s1 b;
     Some s2
   }"

definition renameEditorBuffer ::
  "environment \<Rightarrow> editor \<Rightarrow> nat \<Rightarrow> string \<Rightarrow> editorUndo list option
    \<Rightarrow> (editor \<times> editorUndo list option) option" where
  "renameEditorBuffer env s b newName undo = do {
     newFileName \<leftarrow> normalizeFileName_static (env_fileNamesCaseSensitive env) newName (env_cwd env);
     buffer \<leftarrow> ed_buffers s b;
     let oldName = eb_fileName buffer;
     case getEditorBufferForFile s oldName of
       None \<Rightarrow> Some (s, undo)
     | Some existing \<Rightarrow>
         if existing \<noteq> b then None
         else do {
           let (deregistered, s1) = deregisterEditorBuffer s oldName;
           s2 \<leftarrow> (if deregistered = Some b then Some s1 else None);
           s3 \<leftarrow> update_buffer s2 b (\<lambda>buffer. buffer\<lparr>eb_fileName := newFileName\<rparr>);
           (newFileNumber, s4) \<leftarrow> add_file_name env s3 newFileName;
           s5 \<leftarrow> mark_deleted s4 (eb_fileNumber buffer);
           s6 \<leftarrow> update_buffer s5 b (\<lambda>buffer. buffer\<lparr>eb_fileNumber := int newFileNumber\<rparr>);
           s7 \<leftarrow> register_renamed s6 b newFileName;
           let undo' = map_option (newUndoRename b oldName) undo;
           s8 \<leftarrow> setEditorBufferModified s7 b;
           s9 \<leftarrow> leave_empty_buffer env s8 b oldName;
           Some (s9, undo')
         }
   }"

section \<open>The table as a map from names to buffers\<close>

interpretation buffers: hash_elements "bufferHash s" "equalBuffers s" for s
  by unfold_locales (auto simp: equalBuffers_def bufferHash_def)

definition registered :: "editor \<Rightarrow> nat set" where
  "registered s = set (concat (hl_tab (ed_table s)))"

text \<open>The registered buffers exist, have different names and are in the slots of their names.\<close>

definition table_ok :: "editor \<Rightarrow> bool" where
  "table_ok s \<longleftrightarrow>
     buffers.wf_list s (ed_table s) \<and> distinct (concat (hl_tab (ed_table s)))
     \<and> inj_on (bufferName s) (registered s)
     \<and> (\<forall>b\<in>registered s. ed_buffers s b \<noteq> None) \<and> (\<forall>b\<ge>ed_nextBuffer s. ed_buffers s b = None)"

lemma registered_below: "table_ok s \<Longrightarrow> b \<in> registered s \<Longrightarrow> b < ed_nextBuffer s"
  by (metis linorder_not_le table_ok_def)

text \<open>The table only depends on the names of the buffers in it.\<close>

lemma wf_list_names:
  assumes "buffers.wf_list s t" "\<And>b. b \<in> set (concat (hl_tab t)) \<Longrightarrow> bufferName s' b = bufferName s b"
  shows "buffers.wf_list s' t"
  using assms unfolding buffers.wf_list_def hashListIndex_def bufferHash_def
  by (simp add: Bex_def) (metis nth_mem)

lemma table_ok_names:
  assumes "table_ok s" "ed_table s' = ed_table s" "\<And>b. b \<in> registered s \<Longrightarrow> bufferName s' b = bufferName s b"
    and "\<And>b. b \<in> registered s \<Longrightarrow> ed_buffers s' b \<noteq> None" "\<And>b. b \<ge> ed_nextBuffer s' \<Longrightarrow> ed_buffers s' b = None"
  shows "table_ok s'"
proof -
  have r: "registered s' = registered s" by (simp add: registered_def assms(2))
  have "buffers.wf_list s' (ed_table s)"
    using assms(1,3) by (auto simp: table_ok_def registered_def intro: wf_list_names)
  moreover have "inj_on (bufferName s') (registered s)"
    using assms(1,3) by (metis inj_on_cong table_ok_def)
  ultimately show ?thesis using assms(1,2,4,5) r by (simp add: table_ok_def)
qed

lemma query_store:
  fixes n :: string
  assumes "table_ok s"
  defines "s1 \<equiv> snd (allocate_buffer s (fillEmptyEditorBuffer n 0 None))"
  shows "table_ok s1" "registered s1 = registered s" "ed_table s1 = ed_table s"
    and "\<And>b. b \<in> registered s \<Longrightarrow> bufferName s1 b = bufferName s b"
    and "bufferName s1 (ed_nextBuffer s) = n"
proof -
  show n: "bufferName s1 b = bufferName s b" if "b \<in> registered s" for b
    using registered_below [OF assms(1) that] by (simp add: s1_def allocate_buffer_def bufferName_def)
  show t: "ed_table s1 = ed_table s" by (simp add: s1_def allocate_buffer_def)
  then show "registered s1 = registered s" by (simp add: registered_def)
  show "table_ok s1"
    using assms(1) n t registered_below [OF assms(1)]
    by (intro table_ok_names [OF assms(1)]) (auto simp: s1_def allocate_buffer_def table_ok_def)
  show "bufferName s1 (ed_nextBuffer s) = n"
    by (simp add: s1_def allocate_buffer_def bufferName_def fillEmptyEditorBuffer_def)
qed

lemma get_iff:
  assumes "table_ok s"
  shows "getEditorBufferForFile s n = Some b \<longleftrightarrow> b \<in> registered s \<and> bufferName s b = n"
proof -
  let ?s1 = "snd (allocate_buffer s (fillEmptyEditorBuffer n 0 None))"
  note q = query_store [OF assms, where n = n]
  have wf: "buffers.wf_list ?s1 (ed_table s)" using q(1,3) by (simp add: table_ok_def)
  let ?m = "hashListIsMember (bufferHash ?s1) (equalBuffers ?s1) (ed_table s) (ed_nextBuffer s)"
  have g: "getEditorBufferForFile s n = (if fst ?m then Some (hd (snd (snd ?m))) else None)"
    using q(3) by (simp add: getEditorBufferForFile_def editorBufferIsMember_def allocate_buffer_def
        case_prod_beta Let_def)
  have m: "fst ?m \<longleftrightarrow> (\<exists>a\<in>registered s. bufferName s a = n)"
    using buffers.isMember_elements [OF wf, of "ed_nextBuffer s"] q(4,5)
    by (auto simp: registered_def equalBuffers_def)
  have h: "hd (snd (snd ?m)) \<in> registered s \<and> bufferName s (hd (snd (snd ?m))) = n" if "fst ?m"
  proof -
    let ?i = "hashListIndex (bufferHash ?s1) (ed_table s) (ed_nextBuffer s)"
    have "find_member (equalBuffers ?s1) (ed_nextBuffer s) (hl_tab (ed_table s) ! ?i) \<noteq> []"
      using that by (simp add: hashListIsMember_def Let_def)
    then obtain a r where f: "find_member (equalBuffers ?s1) (ed_nextBuffer s) (hl_tab (ed_table s) ! ?i) = a # r"
      by (auto simp only: neq_Nil_conv)
    from find_member_hd [OF f] buffers.index_length [OF wf, of "ed_nextBuffer s"]
    have "a \<in> registered s" "equalBuffers ?s1 a (ed_nextBuffer s)"
      by (auto simp: registered_def intro: bexI [OF _ nth_mem])
    then show ?thesis using f q(4,5) by (simp add: hashListIsMember_def equalBuffers_def Let_def)
  qed
  show ?thesis
    using g m h assms unfolding table_ok_def by (auto dest: inj_onD)
qed

lemma get_None: "table_ok s \<Longrightarrow> getEditorBufferForFile s n = None \<longleftrightarrow> (\<forall>b\<in>registered s. bufferName s b \<noteq> n)"
  using get_iff [of s n] by (metis not_None_eq)

text \<open>So looking up is determined by which buffers are registered under which names.\<close>

lemma get_cong:
  assumes "table_ok s" "table_ok s'" "registered s' = registered s"
    and "\<And>b. b \<in> registered s \<Longrightarrow> bufferName s' b = bufferName s b"
  shows "getEditorBufferForFile s' n = getEditorBufferForFile s n"
proof -
  have "getEditorBufferForFile s' n = Some b \<longleftrightarrow> getEditorBufferForFile s n = Some b" for b
    using assms by (auto simp: get_iff)
  then show ?thesis by (metis not_None_eq)
qed

lemma table_names [simp]:
  "bufferName (s\<lparr>ed_table := t\<rparr>) = bufferName s" "bufferHash (s\<lparr>ed_table := t\<rparr>) = bufferHash s"
  "registered (s\<lparr>ed_table := t\<rparr>) = set (concat (hl_tab t))"
  by (simp_all add: fun_eq_iff bufferName_def bufferHash_def registered_def)

lemma table_ok_replace:
  assumes "table_ok s" "buffers.wf_list s t" "distinct (concat (hl_tab t))"
    and "inj_on (bufferName s) (set (concat (hl_tab t)))"
    and "\<And>b. b \<in> set (concat (hl_tab t)) \<Longrightarrow> ed_buffers s b \<noteq> None"
  shows "table_ok (s\<lparr>ed_table := t\<rparr>)"
  using assms unfolding table_ok_def table_names by (simp add: buffers.wf_list_def)

lemma set_concat_update:
  "i < length xss \<Longrightarrow> set (concat (xss[i := ys])) = set (concat (take i xss)) \<union> set ys \<union> set (concat (drop (Suc i) xss))"
  by (simp add: upd_conv_take_nth_drop Un_assoc)

lemma mset_concat_update:
  assumes "i < length xss"
  shows "mset (concat (xss[i := ys])) + mset (xss ! i) = mset (concat xss) + mset ys"
proof -
  have "xss = take i xss @ xss ! i # drop (Suc i) xss" using assms by (simp add: id_take_nth_drop)
  then have "mset (concat xss) = mset (concat (take i xss)) + mset (xss ! i) + mset (concat (drop (Suc i) xss))"
    by (metis (no_types) add.assoc concat.simps(2) concat_append mset_append)
  moreover have "mset (concat (xss[i := ys]))
      = mset (concat (take i xss)) + mset ys + mset (concat (drop (Suc i) xss))"
    using assms by (simp add: upd_conv_take_nth_drop)
  ultimately show ?thesis by (simp add: ac_simps)
qed

lemma register_law:
  assumes "table_ok s" "ed_buffers s b = Some buffer" "eb_fileName buffer \<noteq> []"
  shows "\<exists>position table. registerEditorBuffer s b = Some (position, s\<lparr>ed_table := table\<rparr>)
    \<and> table_ok (s\<lparr>ed_table := table\<rparr>)
    \<and> registered (s\<lparr>ed_table := table\<rparr>) =
       (if getEditorBufferForFile s (eb_fileName buffer) = None then insert b (registered s) else registered s)"
proof -
  have n: "bufferName s b = eb_fileName buffer" using assms(2) by (simp add: bufferName_def)
  have wf: "buffers.wf_list s (ed_table s)" using assms(1) by (simp add: table_ok_def)
  let ?i = "hashListIndex (bufferHash s) (ed_table s) b"
  have m: "fst (hashListIsMember (bufferHash s) (equalBuffers s) (ed_table s) b) \<longleftrightarrow>
      getEditorBufferForFile s (eb_fileName buffer) \<noteq> None"
    using buffers.isMember_elements [OF wf, of b] get_None [OF assms(1), of "eb_fileName buffer"]
    by (auto simp: registered_def equalBuffers_def n)
  show ?thesis
  proof (cases "getEditorBufferForFile s (eb_fileName buffer) = None")
    case False
    then show ?thesis
      using m assms n
      by (intro exI [of _ "fst (snd (editorBufferIsMember s b))"] exI [of _ "ed_table s"])
       (auto simp: editorBufferIsMember_def registerEditorBuffer_def addEditorBuffer_def hashListAdd_def case_prod_beta Let_def)
  next
    case True
    let ?t = "hashListPush (ed_table s) b ?i"
    have r: "registerEditorBuffer s b = Some (?i, s\<lparr>ed_table := ?t\<rparr>)"
      using m True assms(3) n
      by (simp add: registerEditorBuffer_def addEditorBuffer_def hashListAdd_def hashListIsMember_def
          case_prod_beta Let_def)
    have free: "\<forall>a\<in>registered s. bufferName s a \<noteq> bufferName s b"
      using True get_None [OF assms(1)] n by simp
    note i = buffers.index_length [OF wf, of b]
    have ms: "mset (concat (hl_tab ?t)) = add_mset b (mset (concat (hl_tab (ed_table s))))"
      using mset_concat_update [OF i, of "b # hl_tab (ed_table s) ! ?i"]
      by (simp add: hashListPush_def)
    then have reg: "set (concat (hl_tab ?t)) = insert b (registered s)"
      unfolding registered_def by (metis set_mset_add_mset_insert set_mset_mset)
    have "distinct (concat (hl_tab ?t))"
      using ms assms(1) free by (metis (no_types, lifting) distinct.simps(2) mset.simps(2) mset_eq_imp_distinct_iff
          registered_def table_ok_def)
    moreover have "inj_on (bufferName s) (insert b (registered s))"
      using assms(1) free unfolding table_ok_def by (metis DiffD1 imageE inj_on_insert)
    moreover have "ed_buffers s a \<noteq> None" if "a \<in> insert b (registered s)" for a
      using that assms(1,2) by (auto simp: table_ok_def)
    ultimately have "table_ok (s\<lparr>ed_table := ?t\<rparr>)"
      using table_ok_replace [OF assms(1) buffers.wf_list_push [OF wf, of b], unfolded reg] by blast
    then show ?thesis using r reg True by (intro exI) auto
  qed
qed

lemma unlink_first_named:
  assumes "distinct es" "b \<in> set es" "\<And>x. x \<in> set es \<Longrightarrow> P x \<longleftrightarrow> x = b"
  shows "find P es = Some b \<and> mset (snd (unlink_first P es)) = mset es - {#b#}
    \<and> set (snd (unlink_first P es)) = set es - {b}"
  using assms
proof (induction es)
  case (Cons e es)
  show ?case
  proof (cases "e = b")
    case False
    then have "\<not> P e" "b \<in> set es" using Cons.prems by auto
    moreover have "find P es = Some b \<and> mset (snd (unlink_first P es)) = mset es - {#b#}
        \<and> set (snd (unlink_first P es)) = set es - {b}"
      using Cons.IH Cons.prems \<open>b \<in> set es\<close> by auto
    ultimately show ?thesis using False by (auto simp: case_prod_beta)
  qed (use Cons.prems in auto)
qed simp

lemma mset_remove_one: "X + S = Y + (S - {#b#}) \<Longrightarrow> b \<in># S \<Longrightarrow> add_mset b X = Y"
  by (auto dest: multi_member_split)

lemma deregister_law:
  assumes "table_ok s"
  shows "fst (deregisterEditorBuffer s n) = getEditorBufferForFile s n
    \<and> table_ok (snd (deregisterEditorBuffer s n))
    \<and> registered (snd (deregisterEditorBuffer s n)) = registered s - {b. getEditorBufferForFile s n = Some b}
    \<and> (\<forall>b\<in>registered s. ed_buffers (snd (deregisterEditorBuffer s n)) b = ed_buffers s b)"
proof -
  obtain s1 where alloc: "allocate_buffer s (fillEmptyEditorBuffer n 0 None) = (ed_nextBuffer s, s1)"
    by (simp add: allocate_buffer_def)
  note q = query_store [OF assms, where n = n, unfolded alloc snd_conv]
  have wf: "buffers.wf_list s1 (ed_table s)" using q(1,3) by (simp add: table_ok_def)
  let ?h = "hashListIndex (bufferHash s1) (ed_table s)" let ?i = "?h (ed_nextBuffer s)"
  let ?slot = "hl_tab (ed_table s) ! ?i" and ?P = "\<lambda>b. strcmp (bufferName s1 b) n = 0"
  note i = buffers.index_length [OF wf, of "ed_nextBuffer s"]
  have same: "\<forall>b\<in>registered s. ed_buffers s1 b = ed_buffers s b"
    using registered_below [OF assms] alloc by (fastforce simp: allocate_buffer_def)
  have m: "fst (editorBufferIsMember s1 (ed_nextBuffer s)) \<longleftrightarrow> getEditorBufferForFile s n \<noteq> None"
    unfolding getEditorBufferForFile_def alloc by (simp only: Let_def split_beta fst_conv snd_conv) simp
  have m2: "fst (snd (editorBufferIsMember s1 (ed_nextBuffer s))) = ?i"
    unfolding editorBufferIsMember_def hashListIsMember_def q(3) by (simp only: Let_def fst_conv snd_conv)
  show ?thesis
  proof (cases "getEditorBufferForFile s n")
    case None
    then have "deregisterEditorBuffer s n = (None, s1)"
      unfolding deregisterEditorBuffer_def alloc using m by (simp only: Let_def split_beta fst_conv snd_conv) simp
    then show ?thesis using None q(1,2) same by simp
  next
    case (Some b)
    then have b: "b \<in> registered s" "bufferName s b = n" by (simp_all add: get_iff [OF assms])
    have P: "?P x \<longleftrightarrow> x = b" if "x \<in> registered s" for x
      using that b q(4) assms unfolding table_ok_def by (auto dest: inj_onD)
    have slot_reg: "set ?slot \<subseteq> registered s" using i nth_mem by (fastforce simp: registered_def)
    have "b \<in> set ?slot"
    proof -
      from b(1) obtain slot where "slot \<in> set (hl_tab (ed_table s))" "b \<in> set slot"
        by (auto simp: registered_def)
      then obtain k where k: "k < length (hl_tab (ed_table s))" "b \<in> set (hl_tab (ed_table s) ! k)"
        by (metis in_set_conv_nth)
      then have "?h b = k" using wf by (simp add: buffers.wf_list_def)
      moreover have "?h b = ?i" using b q(4,5) by (simp add: hashListIndex_def bufferHash_def)
      ultimately show ?thesis using k by simp
    qed
    moreover have "distinct ?slot"
      using assms i by (metis distinct_concat_iff nth_mem table_ok_def)
    ultimately have u: "find ?P ?slot = Some b" "mset (snd (unlink_first ?P ?slot)) = mset ?slot - {#b#}"
        "set (snd (unlink_first ?P ?slot)) = set ?slot - {b}"
      using unlink_first_named [of ?slot b ?P] P slot_reg by auto
    let ?t = "(ed_table s)\<lparr>hl_tab := (hl_tab (ed_table s))[?i := snd (unlink_first ?P ?slot)]\<rparr>"
    let ?s2 = "s1\<lparr>ed_table := ?t\<rparr>"
    have d: "deregisterEditorBuffer s n = (Some b, ?s2)"
      unfolding deregisterEditorBuffer_def alloc
      using m Some u(1) by (simp only: Let_def split_beta fst_conv snd_conv m2 q(3)) simp
    have "mset (concat (hl_tab ?t)) + mset ?slot = mset (concat (hl_tab (ed_table s))) + (mset ?slot - {#b#})"
      using mset_concat_update [OF i, of "snd (unlink_first ?P ?slot)"] u(2) by simp
    then have ms: "add_mset b (mset (concat (hl_tab ?t))) = mset (concat (hl_tab (ed_table s)))"
      by (rule mset_remove_one) (simp add: \<open>b \<in> set ?slot\<close>)
    have "distinct (concat (hl_tab (ed_table s)))" using assms by (simp add: table_ok_def)
    then have dist: "distinct (b # concat (hl_tab ?t))"
      using ms by (metis mset.simps(2) mset_eq_imp_distinct_iff)
    have reg: "set (concat (hl_tab ?t)) = registered s - {b}"
      using ms dist unfolding registered_def
      by (metis Diff_insert_absorb distinct.simps(2) set_mset_add_mset_insert set_mset_mset)
    have "buffers.wf_list s1 ?t"
      using wf u(3) i by (auto simp: buffers.wf_list_def nth_list_update hashListIndex_def)
    moreover have "inj_on (bufferName s1) (registered s - {b})"
      using q(1,2) unfolding table_ok_def by (auto simp: inj_on_def)
    moreover have "ed_buffers s1 a \<noteq> None" if "a \<in> registered s - {b}" for a
      using that q(1,2) by (auto simp: table_ok_def)
    ultimately have "table_ok ?s2"
      using table_ok_replace [OF q(1), of ?t, unfolded reg] dist by simp
    then show ?thesis using d Some reg same by simp
  qed
qed

section \<open>Properties\<close>

text \<open>C24: The buffer table is a map from file names to buffers. Registering a buffer under a name that is
  free puts it into the map under that name; deregistering a name returns what the map holds for
  it and takes it out; both change no other name and keep the table well-formed.\<close>

theorem buffer_table_is_map:
  assumes "table_ok s" "ed_buffers s b = Some buffer" "eb_fileName buffer \<noteq> []"
    and "getEditorBufferForFile s (eb_fileName buffer) = None"
  shows "(\<exists>position s'. registerEditorBuffer s b = Some (position, s') \<and> table_ok s'
      \<and> getEditorBufferForFile s' = (getEditorBufferForFile s)(eb_fileName buffer \<mapsto> b))
    \<and> fst (deregisterEditorBuffer s n) = getEditorBufferForFile s n
    \<and> table_ok (snd (deregisterEditorBuffer s n))
    \<and> getEditorBufferForFile (snd (deregisterEditorBuffer s n)) = (getEditorBufferForFile s)(n := None)"
proof -
  from register_law [OF assms(1,2,3)] assms(4) obtain position table where
    r: "registerEditorBuffer s b = Some (position, s\<lparr>ed_table := table\<rparr>)" "table_ok (s\<lparr>ed_table := table\<rparr>)"
      "registered (s\<lparr>ed_table := table\<rparr>) = insert b (registered s)" by auto
  have n: "bufferName s b = eb_fileName buffer" using assms(2) by (simp add: bufferName_def)
  have "getEditorBufferForFile (s\<lparr>ed_table := table\<rparr>) m = Some a
      \<longleftrightarrow> ((getEditorBufferForFile s)(eb_fileName buffer \<mapsto> b)) m = Some a" for m a
    using assms(4) n unfolding get_iff [OF r(2)] r(3) table_names(1)
    by (auto simp: get_iff [OF assms(1)] get_None [OF assms(1)])
  then have "getEditorBufferForFile (s\<lparr>ed_table := table\<rparr>)
      = (getEditorBufferForFile s)(eb_fileName buffer \<mapsto> b)" by (metis (full_types) ext not_None_eq)
  moreover let ?s2 = "snd (deregisterEditorBuffer s n)"
  note d = deregister_law [OF assms(1), of n]
  have names: "bufferName ?s2 a = bufferName s a" if "a \<in> registered s" for a
    using d that by (simp add: bufferName_def)
  have "getEditorBufferForFile ?s2 m = Some a \<longleftrightarrow> ((getEditorBufferForFile s)(n := None)) m = Some a" for m a
    using d names by (auto simp: get_iff [of ?s2] get_iff [OF assms(1)])
  then have "getEditorBufferForFile ?s2 = (getEditorBufferForFile s)(n := None)"
    by (metis (full_types) ext not_None_eq)
  ultimately show ?thesis using r d by blast
qed

definition example_environment :: environment where
  "example_environment = \<lparr>env_fileExists = (\<lambda>_. False), env_isDirectory = (\<lambda>_. False),
     env_fileModificationTime = (\<lambda>_. nullTimestamp), env_fileSize = (\<lambda>_. 0), env_fileContents = (\<lambda>_. None),
     env_cwd = ''/'', env_fileNamesCaseSensitive = True, env_cFilesSuffixes = ''.c''\<rparr>"

definition example_editor :: editor where
  "example_editor = \<lparr>ed_buffers = [0 \<mapsto> fillEmptyEditorBuffer ''a.c'' 1 None, 1 \<mapsto> fillEmptyEditorBuffer ''b.c'' 2 None],
     ed_nextBuffer = 2, ed_markers = (\<lambda>_. None), ed_nextMarker = 0,
     ed_table = \<lparr>hl_size = 1, hl_tab = [[0]]\<rparr>, ed_memory = (\<lambda>_. 0),
     ed_fileTable = hashTabNoAllocInit 3, ed_itemTable = hashListNoAllocInit 1,
     ed_clock = (\<lambda>t. Timestamp (int t) 0), ed_ticks = 0\<rparr>"

lemma example_editor_ok: "table_ok example_editor"
  by (auto simp: table_ok_def example_editor_def registered_def buffers.wf_list_def hashListIndex_def)

lemma example_editor_get: "getEditorBufferForFile example_editor ''b.c'' = None"
  unfolding get_None [OF example_editor_ok]
  by (simp add: registered_def bufferName_def example_editor_def fillEmptyEditorBuffer_def)

theorem buffer_table_is_map_witness:
  "\<exists>position s'. registerEditorBuffer example_editor 1 = Some (position, s')
     \<and> getEditorBufferForFile s' ''b.c'' = Some 1"
proof -
  have b: "ed_buffers example_editor 1 = Some (fillEmptyEditorBuffer ''b.c'' 2 None)"
    by (simp add: example_editor_def)
  have n: "eb_fileName (fillEmptyEditorBuffer ''b.c'' 2 None) = ''b.c''" by (simp add: fillEmptyEditorBuffer_def)
  from buffer_table_is_map [OF example_editor_ok b, unfolded n, OF _ example_editor_get, of "[]"]
  obtain position s' where "registerEditorBuffer example_editor 1 = Some (position, s')"
    "getEditorBufferForFile s' = (getEditorBufferForFile example_editor)(''b.c'' \<mapsto> 1)" by blast
  then show ?thesis by (intro exI [of _ position] exI [of _ s']) simp
qed

end
