(* ===== verification/EditorMarker.thy ===== *)
theory EditorMarker
  imports EditorBuffer
begin

text \<open>
  Models \<^verbatim>\<open>editormarker.c\<close>: markers in the text of a buffer, their movement by lines and columns, and
  lists of markers and regions. The list of a buffer's markers is the list of their numbers; a
  marker list pairs markers with usages, a region list the markers of its ends.
\<close>

type_synonym marker_list = "(nat \<times> usage) list"

text \<open>A region list holds the begin and the end of every region.\<close>

type_synonym region_list = "(nat \<times> nat) list"

section \<open>Markers\<close>

definition newEditorMarkerList :: "nat \<Rightarrow> usage \<Rightarrow> marker_list \<Rightarrow> marker_list" where
  "newEditorMarkerList marker usage rest = (marker, usage) # rest"

definition newEditorRegionList :: "nat \<Rightarrow> nat \<Rightarrow> region_list \<Rightarrow> region_list" where
  "newEditorRegionList begin0 end0 rest = (begin0, end0) # rest"

definition attachMarkerToBuffer :: "editor \<Rightarrow> nat \<Rightarrow> nat \<Rightarrow> editor option" where
  "attachMarkerToBuffer s m b = do {
     marker \<leftarrow> ed_markers s m;
     update_buffer (s\<lparr>ed_markers := (ed_markers s)(m \<mapsto> marker\<lparr>em_buffer := b\<rparr>)\<rparr>) b
       (\<lambda>buffer. buffer\<lparr>eb_markers := m # eb_markers buffer\<rparr>)
   }"

definition newEditorMarker :: "editor \<Rightarrow> nat \<Rightarrow> int \<Rightarrow> (nat \<times> editor) option" where
  "newEditorMarker s b offset = do {
     let m = ed_nextMarker s;
     let s1 = s\<lparr>ed_markers := (ed_markers s)(m \<mapsto> \<lparr>em_buffer = b, em_offset = to_unsigned offset\<rparr>),
                ed_nextMarker := m + 1\<rparr>;
     s2 \<leftarrow> attachMarkerToBuffer s1 m b;
     Some (m, s2)
   }"

text \<open>A marker that is in the list of its buffer is unlinked from it.\<close>

definition removeEditorMarkerFromBufferWithoutFreeing :: "editor \<Rightarrow> nat option \<Rightarrow> editor option" where
  "removeEditorMarkerFromBufferWithoutFreeing s m =
     (case m of
        None \<Rightarrow> Some s
      | Some m' \<Rightarrow> do {
          marker \<leftarrow> ed_markers s m';
          update_buffer s (em_buffer marker) (\<lambda>buffer. buffer\<lparr>eb_markers := remove1 m' (eb_markers buffer)\<rparr>)
        })"

definition freeEditorMarker :: "editor \<Rightarrow> nat option \<Rightarrow> editor option" where
  "freeEditorMarker s m =
     (case m of
        None \<Rightarrow> Some s
      | Some m' \<Rightarrow> do {
          s1 \<leftarrow> removeEditorMarkerFromBufferWithoutFreeing s m;
          Some (s1\<lparr>ed_markers := (ed_markers s1)(m' := None)\<rparr>)
        })"

fun freeEditorMarkerListAndMarkers :: "editor \<Rightarrow> marker_list \<Rightarrow> editor option" where
  "freeEditorMarkerListAndMarkers s [] = Some s"
| "freeEditorMarkerListAndMarkers s ((m, u) # occs) = do {
     s1 \<leftarrow> freeEditorMarker s (Some m);
     freeEditorMarkerListAndMarkers s1 occs
   }"

definition set_offset :: "editor \<Rightarrow> nat \<Rightarrow> int \<Rightarrow> editor option" where
  "set_offset s m offset = do {
     marker \<leftarrow> ed_markers s m;
     Some (s\<lparr>ed_markers := (ed_markers s)(m \<mapsto> marker\<lparr>em_offset := to_unsigned offset\<rparr>)\<rparr>)
   }"

text \<open>The buffer and the text a marker is in, and its offset.\<close>

definition marker_text :: "editor \<Rightarrow> nat \<Rightarrow> (editorBuffer \<times> int) option" where
  "marker_text s m = do {
     marker \<leftarrow> ed_markers s m;
     buffer \<leftarrow> ed_buffers s (em_buffer marker);
     Some (buffer, em_offset marker)
   }"

section \<open>Lines and columns\<close>

text \<open>The scan counts the newlines before the target; \<open>lineStart\<close> is the index after the last one.\<close>

function position_loop :: "int list \<Rightarrow> nat \<Rightarrow> nat \<Rightarrow> int \<Rightarrow> nat \<Rightarrow> int \<times> nat" where
  "position_loop str targetOffset i line lineStart =
     (if i < targetOffset then
        (if str ! i = 10 then position_loop str targetOffset (i + 1) (line + 1) (i + 1)
         else position_loop str targetOffset (i + 1) line lineStart)
      else (line, lineStart))"
  by pat_completeness auto
termination by (relation "measure (\<lambda>(str, targetOffset, i, line, lineStart). targetOffset - i)") auto

definition makePositionFromEditorMarker :: "editor \<Rightarrow> nat \<Rightarrow> position option" where
  "makePositionFromEditorMarker s m = do {
     (buffer, targetOffset) \<leftarrow> marker_text s m;
     if targetOffset > int (length (eb_text buffer)) then None
     else (let (line, lineStart) = position_loop (eb_text buffer) (nat targetOffset) 0 1 0 in
           Some (Position (eb_fileNumber buffer) line (targetOffset - int lineStart)))
   }"

text \<open>The index of the newline that ends the line before the wanted one, or the end of the text.\<close>

function line_loop :: "int list \<Rightarrow> int \<Rightarrow> nat \<Rightarrow> int \<Rightarrow> nat" where
  "line_loop str line i ln =
     (if i < length str then
        (if str ! i = 10 then
           (if ln + 1 = line then i else line_loop str line (i + 1) (ln + 1))
         else line_loop str line (i + 1) ln)
      else i)"
  by pat_completeness auto
termination by (relation "measure (\<lambda>(str, line, i, ln). length str - i)") auto

function column_loop :: "int list \<Rightarrow> int \<Rightarrow> nat \<Rightarrow> int \<Rightarrow> nat" where
  "column_loop str col i c =
     (if i < length str \<and> c < col then
        (if str ! i = 10 then i else column_loop str col (i + 1) (c + 1))
      else i)"
  by pat_completeness auto
termination by (relation "measure (\<lambda>(str, col, i, c). length str - i)") auto

declare position_loop.simps [simp del] line_loop.simps [simp del] column_loop.simps [simp del]

definition line_and_column_offset :: "int list \<Rightarrow> int \<Rightarrow> int \<Rightarrow> nat" where
  "line_and_column_offset str line col =
     (let i = (if line > 1 then line_loop str line 0 1 else 0);
          i = (if line > 1 \<and> i < length str then i + 1 else i)
      in column_loop str col i 0)"

definition moveEditorMarkerToLineAndColumn :: "editor \<Rightarrow> nat \<Rightarrow> int \<Rightarrow> int \<Rightarrow> editor option" where
  "moveEditorMarkerToLineAndColumn s m line col = do {
     (buffer, _) \<leftarrow> marker_text s m;
     set_offset s m (int (line_and_column_offset (eb_text buffer) line col))
   }"

text \<open>A position without a file only reports an error before the file item is read.\<close>

definition newEditorMarkerForPosition :: "environment \<Rightarrow> editor \<Rightarrow> position \<Rightarrow> (nat \<times> editor) option" where
  "newEditorMarkerForPosition env s pos = do {
     fileItem \<leftarrow> (if pos_file pos < 0 then None else getFileItemWithFileNumber (ed_fileTable s) (nat (pos_file pos)));
     (buffer, s1) \<leftarrow> findOrCreateAndLoadEditorBufferForFile env s (fi_name fileItem);
     b \<leftarrow> buffer;
     (m, s2) \<leftarrow> newEditorMarker s1 b 0;
     s3 \<leftarrow> moveEditorMarkerToLineAndColumn s2 m (pos_line pos) (pos_col pos);
     Some (m, s3)
   }"

section \<open>Moving by characters\<close>

text \<open>The movement leaves the text at either end; \<open>step\<close> is 1 or -1.\<close>

function run_loop :: "int list \<Rightarrow> (int \<Rightarrow> bool) \<Rightarrow> int \<Rightarrow> int \<Rightarrow> int" where
  "run_loop str until step offset =
     (if 0 \<le> offset \<and> offset < int (length str) \<and> \<not> until (str ! nat offset) \<and> (step = 1 \<or> step = -1)
      then run_loop str until step (offset + step) else offset)"
  by pat_completeness auto
termination
  by (relation "measure (\<lambda>(str, until, step, offset).
       if step = 1 then nat (int (length str) - offset) else nat (offset + 1))") auto

declare run_loop.simps [simp del]

text \<open>In an empty text the offset becomes the largest unsigned number.\<close>

definition runWithEditorMarkerUntil ::
  "editor \<Rightarrow> nat \<Rightarrow> (int \<Rightarrow> bool) \<Rightarrow> int \<Rightarrow> (bool \<times> editor) option" where
  "runWithEditorMarkerUntil s m until step = do {
     (buffer, start) \<leftarrow> marker_text s m;
     if step \<noteq> 1 \<and> step \<noteq> -1 then None
     else
       (let maxOffset = int (length (eb_text buffer));
            offset = run_loop (eb_text buffer) until step (to_int start)
        in if offset < 0 then map_option (Pair False) (set_offset s m 0)
           else if offset \<ge> maxOffset then map_option (Pair False) (set_offset s m (maxOffset - 1))
           else map_option (Pair True) (set_offset s m offset))
   }"

definition isNewLine :: "int \<Rightarrow> bool" where
  "isNewLine c \<longleftrightarrow> c = 10"

definition c_isspace :: "int \<Rightarrow> bool" where
  "c_isspace c \<longleftrightarrow> c = 32 \<or> (9 \<le> c \<and> c \<le> 13)"

definition isNonBlank :: "int \<Rightarrow> bool" where
  "isNonBlank c \<longleftrightarrow> \<not> c_isspace c"

definition isNonBlankOrNewline :: "int \<Rightarrow> bool" where
  "isNonBlankOrNewline c \<longleftrightarrow> c = 10 \<or> \<not> c_isspace c"

definition moveEditorMarkerToNewline :: "editor \<Rightarrow> nat \<Rightarrow> int \<Rightarrow> (bool \<times> editor) option" where
  "moveEditorMarkerToNewline s m direction = runWithEditorMarkerUntil s m isNewLine direction"

definition moveEditorMarkerToNonBlank :: "editor \<Rightarrow> nat \<Rightarrow> int \<Rightarrow> (bool \<times> editor) option" where
  "moveEditorMarkerToNonBlank s m direction = runWithEditorMarkerUntil s m isNonBlank direction"

definition moveEditorMarkerToNonBlankOrNewline :: "editor \<Rightarrow> nat \<Rightarrow> int \<Rightarrow> (bool \<times> editor) option" where
  "moveEditorMarkerToNonBlankOrNewline s m direction = runWithEditorMarkerUntil s m isNonBlankOrNewline direction"

function newlines_loop :: "int list \<Rightarrow> int \<Rightarrow> int \<Rightarrow> nat \<Rightarrow> nat" where
  "newlines_loop str maxOffset i n =
     (if i < maxOffset then newlines_loop str maxOffset (i + 1) (if str ! nat i = 10 then n + 1 else n) else n)"
  by pat_completeness auto
termination by (relation "measure (\<lambda>(str, maxOffset, i, n). nat (maxOffset - i))") auto

definition countLinesBetweenEditorMarkers :: "editor \<Rightarrow> nat option \<Rightarrow> nat option \<Rightarrow> nat option" where
  "countLinesBetweenEditorMarkers s m1 m2 =
     (case (m1, m2) of
        (Some m1', Some m2') \<Rightarrow> do {
          marker1 \<leftarrow> ed_markers s m1';
          marker2 \<leftarrow> ed_markers s m2';
          buffer \<leftarrow> ed_buffers s (em_buffer marker1);
          if em_buffer marker1 \<noteq> em_buffer marker2 \<or> em_offset marker1 > em_offset marker2 then None
          else Some (newlines_loop (eb_text buffer) (em_offset marker2) (em_offset marker1) 0)
        }
      | _ \<Rightarrow> Some 0)"

section \<open>Lists of markers and regions\<close>

text \<open>The buffers of markers are compared as pointers. A freed marker has no place in an order.\<close>

definition marker_key :: "editor \<Rightarrow> nat \<Rightarrow> nat \<times> int" where
  "marker_key s m =
     (case ed_markers s m of None \<Rightarrow> (0, 0) | Some marker \<Rightarrow> (em_buffer marker, em_offset marker))"

definition editorMarkerBefore :: "editor \<Rightarrow> nat \<Rightarrow> nat \<Rightarrow> bool" where
  "editorMarkerBefore s m1 m2 =
     (if fst (marker_key s m1) < fst (marker_key s m2) then True
      else if fst (marker_key s m1) > fst (marker_key s m2) then False
      else if snd (marker_key s m1) < snd (marker_key s m2) then True
      else if snd (marker_key s m1) > snd (marker_key s m2) then False
      else False)"

definition editorMarkerListBefore :: "editor \<Rightarrow> nat \<times> usage \<Rightarrow> nat \<times> usage \<Rightarrow> bool" where
  "editorMarkerListBefore s l1 l2 = editorMarkerBefore s (fst l1) (fst l2)"

definition editorRegionListBefore :: "editor \<Rightarrow> nat \<times> nat \<Rightarrow> nat \<times> nat \<Rightarrow> bool" where
  "editorRegionListBefore s l1 l2 =
     (if editorMarkerBefore s (fst l1) (fst l2) then True
      else if editorMarkerBefore s (fst l2) (fst l1) then False
      else if editorMarkerBefore s (snd l1) (snd l2) then True
      else if editorMarkerBefore s (snd l2) (snd l1) then False
      else False)"

text \<open>
  One step of the loop over the regions: a region and its successor. After the two have been made
  one, the loop goes on to the region after them.
\<close>

definition merge_regions ::
  "editor \<Rightarrow> nat \<times> nat \<Rightarrow> nat \<times> nat \<Rightarrow> ((nat \<times> nat) option \<times> editor) option" where
  "merge_regions s region next0 =
     (let (b, e) = region; (nb, ne) = next0 in
      if fst (marker_key s b) \<noteq> fst (marker_key s nb) then Some (None, s)
      else if fst (marker_key s b) \<noteq> fst (marker_key s e) \<or> fst (marker_key s nb) \<noteq> fst (marker_key s ne)
        \<or> \<not> snd (marker_key s b) \<le> snd (marker_key s nb) then None
      else if snd (marker_key s ne) \<le> snd (marker_key s e) then do {
        s1 \<leftarrow> freeEditorMarker s (Some nb);
        s2 \<leftarrow> freeEditorMarker s1 (Some ne);
        Some (Some (b, e), s2)
      }
      else if snd (marker_key s nb) \<le> snd (marker_key s e) then do {
        s1 \<leftarrow> freeEditorMarker s (Some nb);
        s2 \<leftarrow> freeEditorMarker s1 (Some e);
        Some (Some (b, ne), s2)
      }
      else Some (None, s))"

fun overlap_loop :: "editor \<Rightarrow> region_list \<Rightarrow> (region_list \<times> editor) option" where
  "overlap_loop s [] = Some ([], s)"
| "overlap_loop s [region] = Some ([region], s)"
| "overlap_loop s (region # next0 # regions) = do {
     (merged, s1) \<leftarrow> merge_regions s region next0;
     (case merged of
        None \<Rightarrow> do { (rest, s2) \<leftarrow> overlap_loop s1 (next0 # regions); Some (region # rest, s2) }
      | Some region' \<Rightarrow> do { (rest, s2) \<leftarrow> overlap_loop s1 regions; Some (region' # rest, s2) })
   }"

definition sortEditorRegionsAndRemoveOverlaps :: "editor \<Rightarrow> region_list \<Rightarrow> (region_list \<times> editor) option" where
  "sortEditorRegionsAndRemoveOverlaps s regions =
     overlap_loop s (LIST_MERGE_SORT (editorRegionListBefore s) regions)"

text \<open>The first of a list is copied, with a marker of its own, onto a difference list.\<close>

definition combineEditorMarkerLists ::
  "editor \<Rightarrow> marker_list \<Rightarrow> nat \<times> usage \<Rightarrow> (marker_list \<times> editor) option" where
  "combineEditorMarkerLists s diff first = do {
     marker \<leftarrow> ed_markers s (fst first);
     (m, s1) \<leftarrow> newEditorMarker s (em_buffer marker) (em_offset marker);
     Some (newEditorMarkerList m (snd first) diff, s1)
   }"

fun differences_loop ::
  "editor \<Rightarrow> marker_list \<Rightarrow> marker_list \<Rightarrow> marker_list \<Rightarrow> marker_list
    \<Rightarrow> (marker_list \<times> marker_list \<times> editor) option" where
  "differences_loop s [] [] diff1 diff2 = Some (diff1, diff2, s)"
| "differences_loop s (x # l1) [] diff1 diff2 = do {
     (diff1', s1) \<leftarrow> combineEditorMarkerLists s diff1 x;
     differences_loop s1 l1 [] diff1' diff2
   }"
| "differences_loop s [] (y # l2) diff1 diff2 = do {
     (diff2', s1) \<leftarrow> combineEditorMarkerLists s diff2 y;
     differences_loop s1 [] l2 diff1 diff2'
   }"
| "differences_loop s (x # l1) (y # l2) diff1 diff2 =
     (if editorMarkerListBefore s x y then do {
        (diff1', s1) \<leftarrow> combineEditorMarkerLists s diff1 x;
        differences_loop s1 l1 (y # l2) diff1' diff2
      }
      else if editorMarkerListBefore s y x then do {
        (diff2', s1) \<leftarrow> combineEditorMarkerLists s diff2 y;
        differences_loop s1 (x # l1) l2 diff1 diff2'
      }
      else differences_loop s l1 l2 diff1 diff2)"

text \<open>The two differences, and the two lists, sorted.\<close>

definition editorMarkersDifferences ::
  "editor \<Rightarrow> marker_list \<Rightarrow> marker_list
    \<Rightarrow> (marker_list \<times> marker_list \<times> marker_list \<times> marker_list \<times> editor) option" where
  "editorMarkersDifferences s list1 list2 = do {
     let list1' = LIST_MERGE_SORT (editorMarkerListBefore s) list1;
     let list2' = LIST_MERGE_SORT (editorMarkerListBefore s) list2;
     (diff1, diff2, s1) \<leftarrow> differences_loop s list1' list2' [] [];
     Some (diff1, diff2, list1', list2', s1)
   }"

section \<open>Lines and columns are inverse to offsets\<close>

text \<open>The newlines of a text from an index up to another.\<close>

definition newlines_between :: "int list \<Rightarrow> nat \<Rightarrow> nat \<Rightarrow> nat" where
  "newlines_between str i j = length (filter (\<lambda>k. str ! k = 10) [i..<j])"

lemma newlines_between_step:
  "i < j \<Longrightarrow> newlines_between str i j = (if str ! i = 10 then 1 else 0) + newlines_between str (i + 1) j"
  by (simp add: newlines_between_def upt_conv_Cons)

lemma newlines_between_split:
  "i \<le> j \<Longrightarrow> j \<le> k \<Longrightarrow> newlines_between str i k = newlines_between str i j + newlines_between str j k"
  by (metis (no_types, lifting) filter_append length_append newlines_between_def nat_le_iff_add upt_add_eq_append)

lemma newlines_between_none: "\<forall>k. i \<le> k \<longrightarrow> k < j \<longrightarrow> str ! k \<noteq> 10 \<Longrightarrow> newlines_between str i j = 0"
  by (simp add: newlines_between_def filter_empty_conv)

text \<open>What the scan for a position finds: the start of the line of the target, and its number.\<close>

definition line_start :: "int list \<Rightarrow> nat \<Rightarrow> nat \<Rightarrow> bool" where
  "line_start str t st \<longleftrightarrow> st \<le> t \<and> (\<forall>k. st \<le> k \<longrightarrow> k < t \<longrightarrow> str ! k \<noteq> 10) \<and> (st = 0 \<or> str ! (st - 1) = 10)"

lemma position_loop_law:
  "i \<le> t \<Longrightarrow> line_start str i st \<Longrightarrow> line = 1 + int (newlines_between str 0 st) \<Longrightarrow>
   line_start str t (snd (position_loop str t i line st))
   \<and> fst (position_loop str t i line st) = 1 + int (newlines_between str 0 (snd (position_loop str t i line st)))"
proof (induction str t i line st rule: position_loop.induct)
  case (1 str t i line st)
  show ?case
  proof (cases "i < t")
    case False
    then show ?thesis using 1(3,4,5) by (subst (1 2 3) position_loop.simps) simp
  next
    case True
    show ?thesis
    proof (cases "str ! i = 10")
      case nl: True
      have "line_start str (i + 1) (i + 1)" using nl by (simp add: line_start_def)
      moreover have "newlines_between str 0 (i + 1) = newlines_between str 0 st + 1"
        using newlines_between_split [of 0 st "i + 1" str] newlines_between_split [of st i "i + 1" str]
          newlines_between_none [of st i str] newlines_between_step [of i "i + 1" str]
          newlines_between_none [of "i + 1" "i + 1" str] 1(4) nl
        by (simp add: line_start_def)
      ultimately show ?thesis
        using 1(1) [OF True nl] 1(5) True nl by (subst (1 2 3) position_loop.simps) simp
    next
      case nl: False
      have "line_start str (i + 1) st" using 1(4) nl by (auto simp: line_start_def less_Suc_eq)
      then show ?thesis
        using 1(2) [OF True nl] 1(5) True nl by (subst (1 2 3) position_loop.simps) simp
    qed
  qed
qed

lemma line_loop_law:
  "i \<le> p \<Longrightarrow> p < length str \<Longrightarrow> str ! p = 10 \<Longrightarrow> ln + int (newlines_between str i p) + 1 = line \<Longrightarrow>
   line_loop str line i ln = p"
proof (induction str line i ln rule: line_loop.induct)
  case (1 str line i ln)
  show ?case
  proof (cases "i = p")
    case True
    then show ?thesis using 1(4,5,6) by (subst line_loop.simps) (simp add: newlines_between_def)
  next
    case False
    then have i: "i < p" "i < length str" using 1(3,4) by auto
    note st = newlines_between_step [OF i(1), of str]
    show ?thesis
    proof (cases "str ! i = 10")
      case True
      then have "ln + 1 \<noteq> line" using 1(6) st by simp
      then show ?thesis using 1(1) [OF i(2) True] 1(4,5,6) i True st by (subst line_loop.simps) simp
    next
      case False
      then show ?thesis using 1(2) [OF i(2) False] 1(4,5,6) i st by (subst line_loop.simps) simp
    qed
  qed
qed

lemma column_loop_law:
  "i \<le> t \<Longrightarrow> t \<le> length str \<Longrightarrow> \<forall>k. i \<le> k \<longrightarrow> k < t \<longrightarrow> str ! k \<noteq> 10 \<Longrightarrow> col = c + int (t - i) \<Longrightarrow>
   column_loop str col i c = t"
proof (induction str col i c rule: column_loop.induct)
  case (1 str col i c)
  then show ?case by (cases "i = t") (subst column_loop.simps, simp)+
qed

lemma line_and_column_offset_law:
  assumes "t \<le> length str" "position_loop str t 0 1 0 = (line, st)"
  shows "line_and_column_offset str line (int t - int st) = t"
proof -
  have 1: "line_start str t st" "line = 1 + int (newlines_between str 0 st)"
    using position_loop_law [of 0 t str 0 1] assms(2) by (simp_all add: line_start_def newlines_between_def)
  show ?thesis
  proof (cases "st = 0")
    case True
    then have "line = 1" using 1(2) by (simp add: newlines_between_def)
    then show ?thesis
      using True 1(1) assms(1) by (simp add: line_and_column_offset_def column_loop_law line_start_def)
  next
    case False
    then have p: "st - 1 < length str" "str ! (st - 1) = 10" "st - 1 + 1 = st"
      using 1(1) assms(1) by (auto simp: line_start_def)
    have "newlines_between str 0 st = newlines_between str 0 (st - 1) + 1"
      using newlines_between_split [of 0 "st - 1" st str] newlines_between_step [of "st - 1" st str]
        newlines_between_none [of st st str] p False by simp
    then have "line_loop str line 0 1 = st - 1" "line > 1"
      using 1(2) p by (auto intro!: line_loop_law)
    then show ?thesis
      using p 1(1) assms(1) by (simp add: line_and_column_offset_def column_loop_law line_start_def Let_def)
  qed
qed

section \<open>Properties\<close>

text \<open>C30: The position of a marker and the offset of a line and column are inverse: whatever marker of
  the buffer is moved to the line and column of the position made from a marker, it gets the
  offset of that marker.\<close>

theorem marker_position_roundtrip:
  assumes "marker_text s m = Some (buffer, offset)" "0 \<le> offset" "offset \<le> int (length (eb_text buffer))"
    and "marker_text s m' = Some (buffer, offset')"
  shows "\<exists>line col. makePositionFromEditorMarker s m = Some (Position (eb_fileNumber buffer) line col)
    \<and> moveEditorMarkerToLineAndColumn s m' line col = set_offset s m' offset"
proof -
  obtain line st where p: "position_loop (eb_text buffer) (nat offset) 0 1 0 = (line, st)" by fastforce
  from line_and_column_offset_law [OF _ p] assms(2,3)
  have "line_and_column_offset (eb_text buffer) line (offset - int st) = nat offset" by simp
  then show ?thesis
    using assms p by (simp add: makePositionFromEditorMarker_def moveEditorMarkerToLineAndColumn_def)
qed

definition example_buffer_text :: "int list \<Rightarrow> editorBuffer" where
  "example_buffer_text str = (fillEmptyEditorBuffer ''a.c'' 1 None)\<lparr>eb_text := str, eb_textLoaded := True,
     eb_allocatedIndex := 11, eb_allocatedSize := 2048, eb_allocatedFreePrefixSize := 16\<rparr>"

text \<open>A buffer with the markers at the given offsets.\<close>

definition example_marked :: "int list \<Rightarrow> int list \<Rightarrow> editor" where
  "example_marked str offsets = example_editor\<lparr>
     ed_buffers := [0 \<mapsto> (example_buffer_text str)\<lparr>eb_markers := [0..<length offsets]\<rparr>],
     ed_markers := map_of (zip [0..<length offsets] (map (\<lambda>i. \<lparr>em_buffer = 0, em_offset = i\<rparr>) offsets)),
     ed_nextMarker := length offsets\<rparr>"

theorem marker_position_roundtrip_witness:
  "\<exists>line col. makePositionFromEditorMarker (example_marked [97, 10, 98] [2, 0]) 0 = Some (Position 1 line col)
     \<and> moveEditorMarkerToLineAndColumn (example_marked [97, 10, 98] [2, 0]) 1 line col
       = set_offset (example_marked [97, 10, 98] [2, 0]) 1 2"
proof -
  let ?b = "(example_buffer_text [97, 10, 98])\<lparr>eb_markers := [0, 1]\<rparr>"
  have "marker_text (example_marked [97, 10, 98] [2, 0]) 0 = Some (?b, 2)"
    "marker_text (example_marked [97, 10, 98] [2, 0]) 1 = Some (?b, 0)"
    by (simp_all add: marker_text_def example_marked_def upt_rec)
  from marker_position_roundtrip [OF this(1) _ _ this(2)] show ?thesis
    by (auto simp: example_buffer_text_def fillEmptyEditorBuffer_def)
qed

end
