(* ===== verification/Editor.thy ===== *)
theory Editor
  imports EditorMarker
begin

text \<open>
  Models the editing functions of \<^verbatim>\<open>editor.c\<close>: replacing a string in a buffer and moving a block
  between buffers, with the undo information they leave and the markers they move, the saving,
  loading and closing of buffers, and the conversions between references and markers.

  A \<open>char *\<close> argument is either a string of its own or a pointer into the text of a buffer. A read
  outside a text is \<^const>\<open>None\<close>; a \<open>memcpy\<close> between overlapping parts of a text is taken to read
  its source first. Sizes and offsets are bounded by the memory, so \<open>int\<close> sums do not overflow.
\<close>

section \<open>Replacing a string\<close>

datatype char_pointer = Chars "int list" | TextAt nat nat

text \<open>
  The byte at an index of a text of which \<open>deleteSize\<close> bytes at \<open>offset\<close> have been moved apart or
  together by the \<open>memmove\<close> to make room for \<open>len\<close> bytes. The room keeps the old bytes.
\<close>

definition byte_after_move :: "int list \<Rightarrow> nat \<Rightarrow> nat \<Rightarrow> nat \<Rightarrow> nat \<Rightarrow> int option" where
  "byte_after_move str offset deleteSize len i =
     (let j = (if i < offset + len then i else i - len + deleteSize)
      in if j < length str then Some (str ! j) else None)"

text \<open>
  The bytes the second copy reads through the pointer: when it points into the text that is edited
  it sees the moved text, unless the text has been moved to a larger block.
\<close>

definition copied_bytes ::
  "editor \<Rightarrow> nat \<Rightarrow> bool \<Rightarrow> int list \<Rightarrow> nat \<Rightarrow> nat \<Rightarrow> char_pointer \<Rightarrow> nat \<Rightarrow> int list option" where
  "copied_bytes s b resized str offset deleteSize source len =
     (case source of
        Chars bytes \<Rightarrow> (if len \<le> length bytes then Some (take len bytes) else None)
      | TextAt b' start \<Rightarrow>
          (if b' = b \<and> \<not> resized then those (map (byte_after_move str offset deleteSize len) [start..<start + len])
           else (case getTextInEditorBuffer s b' of
                   None \<Rightarrow> None
                 | Some str' \<Rightarrow> (if start + len \<le> length str' then Some (take len (drop start str')) else None))))"

text \<open>
  A larger block is found when the text with its free prefix would fill the block. A buffer that has
  no block at all cannot give it back. The first result tells whether the text was moved.
\<close>

definition make_room :: "editor \<Rightarrow> nat \<Rightarrow> nat \<Rightarrow> (bool \<times> editor) option" where
  "make_room s b newSize = do {
     buffer \<leftarrow> ed_buffers s b;
     if int newSize \<ge> int (eb_allocatedSize buffer) - int (eb_allocatedFreePrefixSize buffer) then
       if eb_allocatedSize buffer = 0 then None
       else do {
         s1 \<leftarrow> allocateNewEditorBufferTextSpace s b newSize;
         s2 \<leftarrow> update_buffer s1 b (\<lambda>buffer1. buffer1\<lparr>eb_text := eb_text buffer\<rparr>);
         Some (True, freeTextSpace s2 (eb_allocatedIndex buffer))
       }
     else Some (False, s)
   }"

text \<open>
  Where a marker goes: from the deleted text to the last of the inserted bytes, from behind it by
  the difference of the sizes.
\<close>

definition adjusted_offset :: "int \<Rightarrow> int \<Rightarrow> int \<Rightarrow> int \<Rightarrow> int" where
  "adjusted_offset offset deleteSize len m =
     (if deleteSize > len then
        (let pattractor = (if len > 0 then offset + len - 1 else offset + len) in
         if m \<ge> offset + len then
           (if m < offset + deleteSize then pattractor else to_unsigned (m - deleteSize + len))
         else m)
      else if m \<ge> offset + deleteSize then to_unsigned (m - deleteSize + len)
      else m)"

fun adjust_markers :: "editor \<Rightarrow> (int \<Rightarrow> int) \<Rightarrow> nat list \<Rightarrow> editor option" where
  "adjust_markers s f [] = Some s"
| "adjust_markers s f (m # ms) = do {
     marker \<leftarrow> ed_markers s m;
     adjust_markers (s\<lparr>ed_markers := (ed_markers s)(m \<mapsto> marker\<lparr>em_offset := f (em_offset marker)\<rparr>)\<rparr>) f ms
   }"

definition replaceStringInEditorBuffer ::
  "editor \<Rightarrow> nat \<Rightarrow> int \<Rightarrow> int \<Rightarrow> char_pointer \<Rightarrow> int \<Rightarrow> editorUndo list option
    \<Rightarrow> (editor \<times> editorUndo list option) option" where
  "replaceStringInEditorBuffer s b offset deleteSize0 source len undo = do {
     buffer \<leftarrow> ed_buffers s b;
     let str = eb_text buffer;
     let oldSize = int (length str);
     if \<not> (0 \<le> offset \<and> offset \<le> oldSize) \<or> \<not> 0 \<le> deleteSize0 \<or> \<not> 0 \<le> len then None
     else do {
       let deleteSize = (if deleteSize0 + offset > oldSize then oldSize - offset else deleteSize0);
       let newSize = oldSize + len - deleteSize;
       (resized, s1) \<leftarrow> make_room s b (nat newSize);
       buffer1 \<leftarrow> ed_buffers s1 b;
       if \<not> newSize < int (eb_allocatedSize buffer1) - int (eb_allocatedFreePrefixSize buffer1) then None
       else do {
         let undoText = take (nat deleteSize) (drop (nat offset) str);
         let undo' = map_option (newUndoReplace b offset len undoText) undo;
         bytes \<leftarrow> copied_bytes s b resized str (nat offset) (nat deleteSize) source (nat len);
         s2 \<leftarrow> update_buffer s1 b (\<lambda>buffer. buffer\<lparr>eb_text :=
                take (nat offset) str @ bytes @ drop (nat offset + nat deleteSize) str\<rparr>);
         s3 \<leftarrow> adjust_markers s2 (adjusted_offset offset deleteSize len) (eb_markers buffer1);
         s4 \<leftarrow> setEditorBufferModified s3 b;
         Some (s4, undo')
       }
     }
   }"

section \<open>Moving a block\<close>

text \<open>The markers of the block are taken to the front of the list of the destination buffer.\<close>

fun move_markers :: "editor \<Rightarrow> nat list \<Rightarrow> int \<Rightarrow> int \<Rightarrow> int \<Rightarrow> nat \<Rightarrow> editor option" where
  "move_markers s [] offset1 offset2 destinationOffset destinationBuffer = Some s"
| "move_markers s (mm # ms) offset1 offset2 destinationOffset destinationBuffer = do {
     marker \<leftarrow> ed_markers s mm;
     s' \<leftarrow> (if em_offset marker \<ge> offset1 \<and> em_offset marker < offset2 then do {
              s1 \<leftarrow> removeEditorMarkerFromBufferWithoutFreeing s (Some mm);
              s2 \<leftarrow> set_offset s1 mm (destinationOffset + (em_offset marker - offset1));
              attachMarkerToBuffer s2 mm destinationBuffer
            } else Some s);
     move_markers s' ms offset1 offset2 destinationOffset destinationBuffer
   }"

text \<open>A block is not moved into itself: that is only reported.\<close>

definition moveBlockInEditorBuffer ::
  "editor \<Rightarrow> nat \<Rightarrow> nat \<Rightarrow> int \<Rightarrow> editorUndo list option \<Rightarrow> (editor \<times> editorUndo list option) option" where
  "moveBlockInEditorBuffer s sourceMarker destinationMarker sz undo = do {
     source \<leftarrow> ed_markers s sourceMarker;
     destination \<leftarrow> ed_markers s destinationMarker;
     if sz < 0 then None
     else if em_buffer destination = em_buffer source \<and> em_offset destination > em_offset source
       \<and> em_offset destination < em_offset source + sz then Some (s, undo)
     else do {
       let sourceBuffer = em_buffer source;
       let destinationBuffer = em_buffer destination;
       let destinationOffset = em_offset destination;
       (s1, _) \<leftarrow> replaceStringInEditorBuffer s destinationBuffer destinationOffset 0
                   (TextAt sourceBuffer (nat (em_offset source))) sz None;
       source1 \<leftarrow> ed_markers s1 sourceMarker;
       let offset1 = em_offset source1;
       let offset2 = offset1 + sz;
       (s2, _) \<leftarrow> replaceStringInEditorBuffer s1 destinationBuffer destinationOffset sz
                   (TextAt sourceBuffer (nat offset1)) sz None;
       source2 \<leftarrow> ed_markers s2 sourceMarker;
       let undoOffset = em_offset source2;
       if offset1 \<noteq> undoOffset then None
       else do {
         buffer2 \<leftarrow> ed_buffers s2 sourceBuffer;
         s3 \<leftarrow> move_markers s2 (eb_markers buffer2) offset1 offset2 destinationOffset destinationBuffer;
         (s4, _) \<leftarrow> replaceStringInEditorBuffer s3 sourceBuffer offset1 sz (TextAt sourceBuffer (nat offset1)) 0 None;
         s5 \<leftarrow> setEditorBufferModified s4 sourceBuffer;
         s6 \<leftarrow> setEditorBufferModified s5 destinationBuffer;
         source6 \<leftarrow> ed_markers s6 sourceMarker;
         Some (s6, map_option (newUndoMove destinationBuffer (em_offset source6) sz sourceBuffer undoOffset) undo)
       }
     }
   }"

section \<open>What an edit does\<close>

text \<open>A buffer after an edit, in a block of some size.\<close>

definition edited_buffer ::
  "editorBuffer \<Rightarrow> int list \<Rightarrow> timestamp \<Rightarrow> nat \<Rightarrow> nat \<Rightarrow> nat \<Rightarrow> editorBuffer" where
  "edited_buffer buffer str now prefix0 index allocated =
     buffer\<lparr>eb_text := str, eb_modified := True, eb_heldThisRequest := True, eb_modifiedSinceLastQuasiSave := True,
       eb_modificationTime := now, eb_allocatedFreePrefixSize := prefix0, eb_allocatedIndex := index,
       eb_allocatedSize := allocated\<rparr>"

definition with_offsets ::
  "(nat \<Rightarrow> editorMarker option) \<Rightarrow> (int \<Rightarrow> int) \<Rightarrow> nat set \<Rightarrow> nat \<Rightarrow> editorMarker option" where
  "with_offsets markers f ms m =
     (if m \<in> ms then map_option (\<lambda>k. k\<lparr>em_offset := f (em_offset k)\<rparr>) (markers m) else markers m)"

lemma adjust_markers_law:
  "distinct ms \<Longrightarrow> \<forall>m\<in>set ms. ed_markers s m \<noteq> None \<Longrightarrow>
   adjust_markers s f ms = Some (s\<lparr>ed_markers := with_offsets (ed_markers s) f (set ms)\<rparr>)"
proof (induction s f ms rule: adjust_markers.induct)
  case (1 s f)
  show ?case by (simp add: with_offsets_def [abs_def])
next
  case (2 s f m ms)
  from 2(3) obtain k where k: "ed_markers s m = Some k" by auto
  let ?s1 = "s\<lparr>ed_markers := (ed_markers s)(m \<mapsto> k\<lparr>em_offset := f (em_offset k)\<rparr>)\<rparr>"
  have "adjust_markers s f (m # ms) = adjust_markers ?s1 f ms" using k by simp
  also have "\<dots> = Some (?s1\<lparr>ed_markers := with_offsets (ed_markers ?s1) f (set ms)\<rparr>)"
    using 2(1) [OF k] 2(2,3) by fastforce
  also have "with_offsets (ed_markers ?s1) f (set ms) = with_offsets (ed_markers s) f (set (m # ms))"
    using 2(2) k by (auto simp: with_offsets_def fun_eq_iff)
  finally show ?case by simp
qed

lemma size_class_loop_room: "minSize \<le> 2 ^ size_class_loop minSize i"
proof (induction minSize i rule: size_class_loop.induct)
  case (1 minSize i)
  then show ?case by (cases "2 ^ i < minSize") (subst size_class_loop.simps, simp)+
qed

lemma make_room_law:
  assumes "ed_buffers s b = Some buffer" "eb_allocatedSize buffer \<noteq> 0"
  shows "\<exists>resized mem p i a. make_room s b newSize
      = Some (resized, s\<lparr>ed_memory := mem, ed_buffers := (ed_buffers s)(b \<mapsto>
          buffer\<lparr>eb_allocatedFreePrefixSize := p, eb_allocatedIndex := i, eb_allocatedSize := a\<rparr>)\<rparr>)
    \<and> newSize + p < a"
proof (cases "int newSize \<ge> int (eb_allocatedSize buffer) - int (eb_allocatedFreePrefixSize buffer)")
  case False
  then have "make_room s b newSize = Some (False, s)" "newSize + eb_allocatedFreePrefixSize buffer < eb_allocatedSize buffer"
    using assms by (simp_all add: make_room_def)
  moreover have "(ed_buffers s)(b \<mapsto> buffer) = ed_buffers s" using assms(1) by auto
  ultimately show ?thesis
    by (intro exI [of _ False] exI [of _ "ed_memory s"] exI [of _ "eb_allocatedFreePrefixSize buffer"]
        exI [of _ "eb_allocatedIndex buffer"] exI [of _ "eb_allocatedSize buffer"]) simp
next
  case True
  let ?m = "newSize + EDITOR_ALLOCATION_RESERVE + EDITOR_FREE_PREFIX_SIZE"
  have "?m \<le> 2 ^ size_class_loop ?m 11" by (rule size_class_loop_room)
  then have "newSize + EDITOR_FREE_PREFIX_SIZE < 2 ^ size_class_loop ?m 11"
    by (simp add: EDITOR_ALLOCATION_RESERVE_def)
  let ?c = "size_class_loop ?m 11"
  let ?mem = "if ed_memory s ?c = 0 then ed_memory s else (ed_memory s)(?c := ed_memory s ?c - 1)"
  have "(if ed_memory s ?c = 0 then s else s\<lparr>ed_memory := (ed_memory s)(?c := ed_memory s ?c - 1)\<rparr>) = s\<lparr>ed_memory := ?mem\<rparr>"
    by simp
  then have "make_room s b newSize = Some (True, s\<lparr>
      ed_memory := ?mem(eb_allocatedIndex buffer := ?mem (eb_allocatedIndex buffer) + 1),
      ed_buffers := (ed_buffers s)(b \<mapsto> buffer\<lparr>eb_allocatedFreePrefixSize := EDITOR_FREE_PREFIX_SIZE,
        eb_allocatedIndex := ?c, eb_allocatedSize := 2 ^ ?c\<rparr>)\<rparr>)"
    using True assms unfolding make_room_def allocateNewEditorBufferTextSpace_def Let_def
    by (simp add: update_buffer_def freeTextSpace_def)
  with \<open>newSize + EDITOR_FREE_PREFIX_SIZE < 2 ^ ?c\<close> show ?thesis by blast
qed

text \<open>What a pointer reads, whether or not the text has been moved to another block.\<close>

definition readable :: "editor \<Rightarrow> nat \<Rightarrow> int list \<Rightarrow> nat \<Rightarrow> nat \<Rightarrow> char_pointer \<Rightarrow> nat \<Rightarrow> (int list \<Rightarrow> bool) \<Rightarrow> bool" where
  "readable s b str offset deleteSize source len P \<longleftrightarrow>
     (\<forall>resized. \<exists>bytes. copied_bytes s b resized str offset deleteSize source len = Some bytes
        \<and> length bytes = len \<and> P bytes)"

lemma replace_law:
  fixes undo :: "editorUndo list option" and offset deleteSize len :: nat
  assumes b: "ed_buffers s b = Some buffer" "eb_allocatedSize buffer \<noteq> 0"
    and ms: "distinct (eb_markers buffer)" "\<forall>m\<in>set (eb_markers buffer). ed_markers s m \<noteq> None"
    and o: "offset \<le> length (eb_text buffer)"
    and d: "d = min deleteSize (length (eb_text buffer) - offset)"
    and r: "readable s b (eb_text buffer) offset d source len P"
  shows "\<exists>bytes mem now p i a. length bytes = len \<and> P bytes
    \<and> length (eb_text buffer) - d + len + p < a
    \<and> replaceStringInEditorBuffer s b (int offset) (int deleteSize) source (int len) undo
      = Some (s\<lparr>ed_memory := mem, ed_ticks := ed_ticks s + 1,
            ed_buffers := (ed_buffers s)(b \<mapsto> edited_buffer buffer
              (take offset (eb_text buffer) @ bytes @ drop (offset + d) (eb_text buffer)) now p i a),
            ed_markers := with_offsets (ed_markers s) (adjusted_offset (int offset) (int d) (int len)) (set (eb_markers buffer))\<rparr>,
          map_option (newUndoReplace b (int offset) (int len) (take d (drop offset (eb_text buffer)))) undo)"
proof -
  let ?t = "eb_text buffer" and ?n = "length (eb_text buffer) - d + len"
  from make_room_law [OF b, of ?n] obtain resized mem p i a where
    room: "make_room s b ?n = Some (resized, s\<lparr>ed_memory := mem, ed_buffers := (ed_buffers s)(b \<mapsto>
        buffer\<lparr>eb_allocatedFreePrefixSize := p, eb_allocatedIndex := i, eb_allocatedSize := a\<rparr>)\<rparr>)"
    and a: "?n + p < a" by blast
  from r obtain bytes where bytes: "copied_bytes s b resized ?t offset d source len = Some bytes"
    "length bytes = len" "P bytes" by (auto simp: readable_def)
  have "d \<le> length ?t - offset" using d by simp
  have del: "(if int deleteSize + int offset > int (length ?t) then int (length ?t) - int offset else int deleteSize) = int d"
    using d o by (auto simp: of_nat_diff min_def)
  have sz: "int (length ?t) + int len - int d = int ?n" using d o by simp
  have nat_n: "nat (int (length ?t - d) + int len) = ?n"
    by simp
  let ?f = "adjusted_offset (int offset) (int d) (int len)"
  have adj: "adjust_markers s' ?f (eb_markers buffer)
      = Some (s'\<lparr>ed_markers := with_offsets (ed_markers s) ?f (set (eb_markers buffer))\<rparr>)"
    if "ed_markers s' = ed_markers s" for s'
    using adjust_markers_law [of "eb_markers buffer" s' ?f] ms that by simp
  have less: "int ?n < int a - int p" using a by simp
  have "replaceStringInEditorBuffer s b (int offset) (int deleteSize) source (int len) undo
      = Some (s\<lparr>ed_memory := mem, ed_ticks := ed_ticks s + 1,
            ed_buffers := (ed_buffers s)(b \<mapsto> edited_buffer buffer
              (take offset ?t @ bytes @ drop (offset + d) ?t) (ed_clock s (ed_ticks s)) p i a),
            ed_markers := with_offsets (ed_markers s) ?f (set (eb_markers buffer))\<rparr>,
          map_option (newUndoReplace b (int offset) (int len) (take d (drop offset ?t))) undo)"
    unfolding replaceStringInEditorBuffer_def b(1) bind.simps Let_def del sz
    by (simp add: o nat_n room [simplified] bytes adj less [simplified] update_buffer_def setEditorBufferModified_def
        fileTimestampNow_def edited_buffer_def) (cases s; cases buffer; simp)
  with bytes(2,3) a show ?thesis by blast
qed

section \<open>Texts and markers\<close>

text \<open>The texts of the buffers that have been loaded, and the markers of every buffer.\<close>

definition text_of :: "editor \<Rightarrow> nat \<Rightarrow> int list option" where
  "text_of s b =
     (case ed_buffers s b of
        None \<Rightarrow> None
      | Some buffer \<Rightarrow> (if eb_allocatedSize buffer \<noteq> 0 then Some (eb_text buffer) else None))"

definition markers_of :: "editor \<Rightarrow> nat \<Rightarrow> nat list option" where
  "markers_of s b = map_option eb_markers (ed_buffers s b)"

text \<open>A text that the code can count in an \<open>int\<close>.\<close>

definition text_limit :: nat where "text_limit = 2147483648"

definition buffer_ok :: "editor \<Rightarrow> nat \<Rightarrow> editorBuffer \<Rightarrow> bool" where
  "buffer_ok s b buffer \<longleftrightarrow>
     distinct (eb_markers buffer) \<and> length (eb_text buffer) < text_limit
     \<and> (\<forall>m\<in>set (eb_markers buffer). \<exists>k. ed_markers s m = Some k \<and> em_buffer k = b
          \<and> 0 \<le> em_offset k \<and> em_offset k \<le> int (length (eb_text buffer)))"

text \<open>The markers are exactly those in the lists of the buffers, each in its own, within its text.\<close>

definition editor_ok :: "editor \<Rightarrow> bool" where
  "editor_ok s \<longleftrightarrow>
     (\<forall>b buffer. ed_buffers s b = Some buffer \<longrightarrow> buffer_ok s b buffer)
     \<and> (\<forall>m k. ed_markers s m = Some k \<longrightarrow>
          (\<exists>buffer. ed_buffers s (em_buffer k) = Some buffer \<and> m \<in> set (eb_markers buffer)))
     \<and> (\<forall>m\<ge>ed_nextMarker s. ed_markers s m = None)"

lemma editor_okD:
  assumes "editor_ok s" "ed_buffers s b = Some buffer"
  shows "distinct (eb_markers buffer)" "length (eb_text buffer) < text_limit"
    and "\<And>m. m \<in> set (eb_markers buffer) \<longleftrightarrow> (\<exists>k. ed_markers s m = Some k \<and> em_buffer k = b)"
    and "\<And>m k. ed_markers s m = Some k \<Longrightarrow> em_buffer k = b \<Longrightarrow>
      0 \<le> em_offset k \<and> em_offset k \<le> int (length (eb_text buffer))"
proof -
  have ok: "buffer_ok s b buffer" using assms by (simp add: editor_ok_def)
  then show "distinct (eb_markers buffer)" "length (eb_text buffer) < text_limit" by (simp_all add: buffer_ok_def)
  show m: "m \<in> set (eb_markers buffer) \<longleftrightarrow> (\<exists>k. ed_markers s m = Some k \<and> em_buffer k = b)" for m
    using ok assms by (fastforce simp: buffer_ok_def editor_ok_def)
  show "0 \<le> em_offset k \<and> em_offset k \<le> int (length (eb_text buffer))"
    if "ed_markers s m = Some k" "em_buffer k = b" for m k
    using ok m [of m] that by (fastforce simp: buffer_ok_def)
qed

text \<open>The markers after an edit of a buffer.\<close>

definition moved_markers :: "(nat \<Rightarrow> editorMarker option) \<Rightarrow> nat \<Rightarrow> (int \<Rightarrow> int) \<Rightarrow> nat \<Rightarrow> editorMarker option" where
  "moved_markers markers b f m =
     map_option (\<lambda>k. if em_buffer k = b then k\<lparr>em_offset := f (em_offset k)\<rparr> else k) (markers m)"

lemma with_offsets_moved:
  assumes "editor_ok s" "ed_buffers s b = Some buffer"
  shows "with_offsets (ed_markers s) f (set (eb_markers buffer)) = moved_markers (ed_markers s) b f"
proof
  fix m
  show "with_offsets (ed_markers s) f (set (eb_markers buffer)) m = moved_markers (ed_markers s) b f m"
    using editor_okD(3) [OF assms, of m]
    by (cases "ed_markers s m") (auto simp: with_offsets_def moved_markers_def)
qed

lemma adjusted_offset_range:
  assumes "0 \<le> m" "m \<le> n" "0 \<le> offset" "0 \<le> d" "offset + d \<le> n" "0 \<le> len" "n - d + len < 4294967296"
  shows "0 \<le> adjusted_offset offset d len m \<and> adjusted_offset offset d len m \<le> n - d + len"
  using assms by (auto simp: adjusted_offset_def to_unsigned_id Let_def)

text \<open>An edit that changes one text, and moves the markers in it, keeps the invariant.\<close>

lemma editor_ok_edit:
  assumes ok: "editor_ok s" and b: "ed_buffers s b = Some buffer"
    and s': "ed_buffers s' = (ed_buffers s)(b \<mapsto> buffer')" "ed_markers s' = moved_markers (ed_markers s) b f"
      "ed_nextMarker s' = ed_nextMarker s" "eb_markers buffer' = eb_markers buffer"
    and n: "length (eb_text buffer') < text_limit"
    and f: "\<And>m. 0 \<le> m \<Longrightarrow> m \<le> int (length (eb_text buffer)) \<Longrightarrow> 0 \<le> f m \<and> f m \<le> int (length (eb_text buffer'))"
  shows "editor_ok s'"
  unfolding editor_ok_def
proof (intro conjI allI impI)
  fix b1 buffer1 assume b1: "ed_buffers s' b1 = Some buffer1"
  show "buffer_ok s' b1 buffer1"
  proof (cases "b1 = b")
    case True
    then have "buffer1 = buffer'" using b1 s'(1) by simp
    moreover have "\<exists>k. ed_markers s' m = Some k \<and> em_buffer k = b \<and> 0 \<le> em_offset k
        \<and> em_offset k \<le> int (length (eb_text buffer'))" if "m \<in> set (eb_markers buffer)" for m
    proof -
      from that editor_okD(3) [OF ok b] obtain k where k: "ed_markers s m = Some k" "em_buffer k = b" by blast
      then show ?thesis using f editor_okD(4) [OF ok b k] s'(2) by (simp add: moved_markers_def)
    qed
    ultimately show ?thesis
      using True s'(4) n editor_okD(1) [OF ok b] by (simp add: buffer_ok_def)
  next
    case False
    then have "ed_buffers s b1 = Some buffer1" using b1 s'(1) by simp
    from editor_okD [OF ok this] show ?thesis
      using False s'(2) by (fastforce simp: buffer_ok_def moved_markers_def)
  qed
next
  fix m k assume "ed_markers s' m = Some k"
  then obtain k0 where k0: "ed_markers s m = Some k0" "em_buffer k = em_buffer k0"
    using s'(2) by (auto simp: moved_markers_def split: if_splits)
  then obtain buffer0 where "ed_buffers s (em_buffer k0) = Some buffer0" "m \<in> set (eb_markers buffer0)"
    using ok unfolding editor_ok_def by blast
  then show "\<exists>buffer. ed_buffers s' (em_buffer k) = Some buffer \<and> m \<in> set (eb_markers buffer)"
    using k0(2) s'(1,4) b by auto
next
  fix m assume "ed_nextMarker s' \<le> m"
  then show "ed_markers s' m = None" using ok s'(2,3) by (simp add: editor_ok_def moved_markers_def)
qed

lemma text_of_Some:
  "text_of s b = Some t \<longleftrightarrow> (\<exists>buffer. ed_buffers s b = Some buffer \<and> eb_allocatedSize buffer \<noteq> 0 \<and> eb_text buffer = t)"
  by (auto simp: text_of_def split: option.splits if_splits)

text \<open>What all the edits leave as it is.\<close>

definition same_files :: "editor \<Rightarrow> editor \<Rightarrow> bool" where
  "same_files s s' \<longleftrightarrow>
     ed_table s' = ed_table s \<and> ed_fileTable s' = ed_fileTable s \<and> ed_itemTable s' = ed_itemTable s
     \<and> bufferName s' = bufferName s \<and> ed_nextMarker s' = ed_nextMarker s"

lemma same_files_trans: "same_files s s1 \<Longrightarrow> same_files s1 s2 \<Longrightarrow> same_files s s2"
  by (simp add: same_files_def)

lemma replace_ok:
  fixes undo :: "editorUndo list option" and offset deleteSize len :: nat
  assumes ok: "editor_ok s" and t: "text_of s b = Some t" and o: "offset \<le> length t"
    and d: "d = min deleteSize (length t - offset)" and n: "length t - d + len < text_limit"
    and r: "readable s b t offset d source len P"
  shows "\<exists>bytes s'. length bytes = len \<and> P bytes
    \<and> replaceStringInEditorBuffer s b (int offset) (int deleteSize) source (int len) undo
      = Some (s', map_option (newUndoReplace b (int offset) (int len) (take d (drop offset t))) undo)
    \<and> editor_ok s' \<and> text_of s' = (text_of s)(b \<mapsto> take offset t @ bytes @ drop (offset + d) t)
    \<and> markers_of s' = markers_of s
    \<and> ed_markers s' = moved_markers (ed_markers s) b (adjusted_offset (int offset) (int d) (int len))
    \<and> same_files s s'"
proof -
  from t obtain buffer where b: "ed_buffers s b = Some buffer" "eb_allocatedSize buffer \<noteq> 0" "eb_text buffer = t"
    by (auto simp: text_of_Some)
  have ms: "\<forall>m\<in>set (eb_markers buffer). ed_markers s m \<noteq> None" using editor_okD(3) [OF ok b(1)] by auto
  let ?f = "adjusted_offset (int offset) (int d) (int len)"
  from replace_law [OF b(1,2) editor_okD(1) [OF ok b(1)] ms, where undo = undo, unfolded b(3), OF o d r]
  obtain bytes mem now p i a where
    e: "length bytes = len" "P bytes" "length t - d + len + p < a"
      "replaceStringInEditorBuffer s b (int offset) (int deleteSize) source (int len) undo
       = Some (s\<lparr>ed_memory := mem, ed_ticks := ed_ticks s + 1,
            ed_buffers := (ed_buffers s)(b \<mapsto> edited_buffer buffer (take offset t @ bytes @ drop (offset + d) t) now p i a),
            ed_markers := with_offsets (ed_markers s) ?f (set (eb_markers buffer))\<rparr>,
          map_option (newUndoReplace b (int offset) (int len) (take d (drop offset t))) undo)"
    (is "_ = Some (?s', _)") by blast
  let ?b' = "edited_buffer buffer (take offset t @ bytes @ drop (offset + d) t) now p i a"
  have dl: "d \<le> length t - offset" using d by simp
  then have len': "length (eb_text ?b') = length t - d + len" using e(1) o by (simp add: edited_buffer_def)
  have fr: "0 \<le> ?f m \<and> ?f m \<le> int (length t - d + len)" if "0 \<le> m" "m \<le> int (length t)" for m
  proof -
    have "int (length t) - int d + int len = int (length t - d + len)" using dl o by simp
    moreover have "int offset + int d \<le> int (length t)" using dl o by linarith
    moreover have "int (length t - d + len) < 4294967296" using n by (simp add: text_limit_def)
    ultimately show ?thesis
      using adjusted_offset_range [of m "int (length t)" "int offset" "int d" "int len"] that by simp
  qed
  have w: "with_offsets (ed_markers s) ?f (set (eb_markers buffer)) = moved_markers (ed_markers s) b ?f"
    by (rule with_offsets_moved [OF ok b(1)])
  have "editor_ok ?s'"
    by (rule editor_ok_edit [OF ok b(1), where f = ?f and buffer' = ?b'])
      (use w len' n fr b(3) in \<open>simp_all add: edited_buffer_def\<close>)
  moreover have "text_of ?s' = (text_of s)(b \<mapsto> take offset t @ bytes @ drop (offset + d) t)"
    using e(3) by (auto simp: text_of_def edited_buffer_def fun_eq_iff)
  moreover have "markers_of ?s' = markers_of s"
    using b(1) by (auto simp: markers_of_def edited_buffer_def fun_eq_iff)
  moreover have "same_files s ?s'"
    using b(1) w by (auto simp: same_files_def bufferName_def edited_buffer_def fun_eq_iff)
  ultimately show ?thesis using e(1,2,4) w by (intro exI [of _ bytes] exI [of _ ?s']) simp
qed

section \<open>What moving a block does\<close>

text \<open>A marker of the block, in its new place.\<close>

definition relocated :: "int \<Rightarrow> int \<Rightarrow> int \<Rightarrow> nat \<Rightarrow> editorMarker \<Rightarrow> editorMarker" where
  "relocated offset1 offset2 d db k =
     (if offset1 \<le> em_offset k \<and> em_offset k < offset2
      then \<lparr>em_buffer = db, em_offset = d + (em_offset k - offset1)\<rparr> else k)"

text \<open>One marker is taken out of the list of its buffer and put into that of another.\<close>

lemma relocate_one:
  assumes ok: "editor_ok s" and k: "ed_markers s m = Some k" and db: "ed_buffers s db = Some target"
    and x: "0 \<le> x" "x \<le> int (length (eb_text target))"
  shows "\<exists>s'. Option.bind (removeEditorMarkerFromBufferWithoutFreeing s (Some m))
        (\<lambda>s1. Option.bind (set_offset s1 m x) (\<lambda>s2. attachMarkerToBuffer s2 m db)) = Some s'
    \<and> editor_ok s' \<and> text_of s' = text_of s \<and> same_files s s'
    \<and> ed_markers s' = (ed_markers s)(m \<mapsto> \<lparr>em_buffer = db, em_offset = x\<rparr>)"
proof -
  from ok k obtain buffer where b: "ed_buffers s (em_buffer k) = Some buffer" "m \<in> set (eb_markers buffer)"
    unfolding editor_ok_def by blast
  let ?buffers1 = "(ed_buffers s)(em_buffer k \<mapsto> buffer\<lparr>eb_markers := remove1 m (eb_markers buffer)\<rparr>)"
  obtain target1 where t1: "?buffers1 db = Some target1" "eb_text target1 = eb_text target"
    "eb_allocatedSize target1 = eb_allocatedSize target" "eb_fileName target1 = eb_fileName target"
    "set (eb_markers target1) = set (eb_markers target) - {m}" "distinct (eb_markers target1)"
  proof (cases "db = em_buffer k")
    case True
    then show ?thesis using that b db editor_okD(1) [OF ok db] by simp
  next
    case False
    have "m \<notin> set (eb_markers target)" using editor_okD(3) [OF ok db, of m] k False by auto
    then show ?thesis using that False db editor_okD(1) [OF ok db] by simp
  qed
  let ?s' = "s\<lparr>ed_buffers := ?buffers1(db \<mapsto> target1\<lparr>eb_markers := m # eb_markers target1\<rparr>),
      ed_markers := (ed_markers s)(m \<mapsto> \<lparr>em_buffer = db, em_offset = x\<rparr>)\<rparr>"
  have u: "to_unsigned x = x"
    using x editor_okD(2) [OF ok db] by (simp add: to_unsigned_id text_limit_def)
  have run: "Option.bind (removeEditorMarkerFromBufferWithoutFreeing s (Some m))
        (\<lambda>s1. Option.bind (set_offset s1 m x) (\<lambda>s2. attachMarkerToBuffer s2 m db)) = Some ?s'"
    using k b(1) t1(1) u
    by (simp add: removeEditorMarkerFromBufferWithoutFreeing_def set_offset_def attachMarkerToBuffer_def update_buffer_def)
      (cases s; cases k; simp)
  have bufs: "ed_buffers ?s' b' = (if b' = db then Some (target1\<lparr>eb_markers := m # eb_markers target1\<rparr>)
      else if b' = em_buffer k then Some (buffer\<lparr>eb_markers := remove1 m (eb_markers buffer)\<rparr>) else ed_buffers s b')" for b'
    by simp
  have "editor_ok ?s'"
    unfolding editor_ok_def
  proof (intro conjI allI impI)
    fix b' buffer' assume b': "ed_buffers ?s' b' = Some buffer'"
    obtain buffer0 where b0: "ed_buffers s b' = Some buffer0" "eb_text buffer' = eb_text buffer0"
      "set (eb_markers buffer') = (if b' = db then insert m (set (eb_markers buffer0)) else set (eb_markers buffer0) - {m})"
      "distinct (eb_markers buffer')"
    proof (cases "b' = db")
      case True
      then have "buffer' = target1\<lparr>eb_markers := m # eb_markers target1\<rparr>" using b' by simp
      then show ?thesis using that [of target] True t1(2,5,6) db by (simp add: insert_Diff_single)
    next
      case nd: False
      show ?thesis
      proof (cases "b' = em_buffer k")
        case True
        then have "buffer' = buffer\<lparr>eb_markers := remove1 m (eb_markers buffer)\<rparr>" using b' nd by simp
        then show ?thesis using that [of buffer] True nd b(1) editor_okD(1) [OF ok b(1)] by simp
      next
        case False
        then have e: "ed_buffers s b' = Some buffer'" using b' nd by simp
        have "m \<notin> set (eb_markers buffer')" using editor_okD(3) [OF ok e, of m] k False by auto
        then show ?thesis using that [of buffer'] nd e editor_okD(1) [OF ok e] by simp
      qed
    qed
    have "\<exists>k'. ed_markers ?s' m' = Some k' \<and> em_buffer k' = b' \<and> 0 \<le> em_offset k'
        \<and> em_offset k' \<le> int (length (eb_text buffer'))" if "m' \<in> set (eb_markers buffer')" for m'
    proof (cases "m' = m")
      case True
      then show ?thesis using that b0 x db by (auto split: if_splits)
    next
      case False
      then have "m' \<in> set (eb_markers buffer0)" using that b0(3) by (auto split: if_splits)
      then show ?thesis using editor_okD(3,4) [OF ok b0(1)] b0(2) False by auto
    qed
    then show "buffer_ok ?s' b' buffer'"
      using b0(2,4) editor_okD(2) [OF ok b0(1)] by (simp add: buffer_ok_def)
  next
    fix m' k' assume k': "ed_markers ?s' m' = Some k'"
    show "\<exists>buffer. ed_buffers ?s' (em_buffer k') = Some buffer \<and> m' \<in> set (eb_markers buffer)"
    proof (cases "m' = m")
      case True
      then show ?thesis using k' by auto
    next
      case False
      then have e: "ed_markers s m' = Some k'" using k' by simp
      with ok obtain buffer0 where b0: "ed_buffers s (em_buffer k') = Some buffer0" "m' \<in> set (eb_markers buffer0)"
        unfolding editor_ok_def by blast
      consider "em_buffer k' = db" | "em_buffer k' \<noteq> db" "em_buffer k' = em_buffer k"
        | "em_buffer k' \<noteq> db" "em_buffer k' \<noteq> em_buffer k" by blast
      then show ?thesis
      proof cases
        case 1
        then have "m' \<in> set (eb_markers target1)" using b0 db False unfolding t1(5) by simp
        then show ?thesis using 1 by simp
      next
        case 2
        then have "m' \<in> set (remove1 m (eb_markers buffer))" using b0 b(1) False by simp
        then show ?thesis using 2 by simp
      next
        case 3
        then show ?thesis using b0 by simp
      qed
    qed
  next
    fix m' assume n: "ed_nextMarker ?s' \<le> m'"
    then have "ed_markers s m' = None" using ok unfolding editor_ok_def by simp
    moreover from this have "m' \<noteq> m" using k by auto
    ultimately show "ed_markers ?s' m' = None" by simp
  qed
  moreover have "text_of ?s' = text_of s"
    using b(1) db t1(1,2,3) by (cases "db = em_buffer k") (simp_all add: text_of_def fun_eq_iff)
  moreover have "same_files s ?s'"
    using b(1) db t1(1,4) by (cases "db = em_buffer k") (simp_all add: same_files_def bufferName_def fun_eq_iff)
  ultimately show ?thesis using run by (intro exI [of _ ?s']) simp
qed

lemma same_files_refl [simp]: "same_files s s"
  by (simp add: same_files_def)

lemma move_markers_law:
  assumes "editor_ok s" "distinct ms" "\<forall>m\<in>set ms. ed_markers s m \<noteq> None" "text_of s db = Some t"
    and "0 \<le> d" "d + (offset2 - offset1) \<le> int (length t)"
  shows "\<exists>s'. move_markers s ms offset1 offset2 d db = Some s' \<and> editor_ok s' \<and> text_of s' = text_of s
    \<and> same_files s s'
    \<and> ed_markers s' = (\<lambda>m. if m \<in> set ms then map_option (relocated offset1 offset2 d db) (ed_markers s m)
        else ed_markers s m)"
  using assms
proof (induction ms arbitrary: s)
  case Nil
  then show ?case by simp
next
  case (Cons m ms)
  from Cons.prems(3) obtain k where k: "ed_markers s m = Some k" by auto
  from Cons.prems(4) obtain target where target: "ed_buffers s db = Some target" "eb_text target = t"
    by (auto simp: text_of_Some)
  obtain s1 where s1: "move_markers s (m # ms) offset1 offset2 d db = move_markers s1 ms offset1 offset2 d db"
    "editor_ok s1" "text_of s1 = text_of s" "same_files s s1"
    "ed_markers s1 = (ed_markers s)(m \<mapsto> relocated offset1 offset2 d db k)"
  proof (cases "offset1 \<le> em_offset k \<and> em_offset k < offset2")
    case True
    then have "0 \<le> d + (em_offset k - offset1)" "d + (em_offset k - offset1) \<le> int (length (eb_text target))"
      using Cons.prems(5,6) target(2) by simp_all
    from relocate_one [OF Cons.prems(1) k target(1) this] obtain s1 where
      "Option.bind (removeEditorMarkerFromBufferWithoutFreeing s (Some m))
        (\<lambda>s1. Option.bind (set_offset s1 m (d + (em_offset k - offset1))) (\<lambda>s2. attachMarkerToBuffer s2 m db)) = Some s1"
      "editor_ok s1" "text_of s1 = text_of s" "same_files s s1"
      "ed_markers s1 = (ed_markers s)(m \<mapsto> \<lparr>em_buffer = db, em_offset = d + (em_offset k - offset1)\<rparr>)"
      by blast
    then show ?thesis using that [of s1] True k by (simp add: relocated_def)
  next
    case False
    moreover have "(ed_markers s)(m \<mapsto> k) = ed_markers s" using k by auto
    moreover have "relocated offset1 offset2 d db k = k" using False by (auto simp: relocated_def)
    moreover have "move_markers s (m # ms) offset1 offset2 d db = move_markers s ms offset1 offset2 d db"
      using False k by auto
    ultimately show ?thesis using that [of s] Cons.prems(1) by simp
  qed
  have "\<forall>m\<in>set ms. ed_markers s1 m \<noteq> None" using Cons.prems(3) s1(5) by simp
  moreover have "text_of s1 db = Some t" "distinct ms" "m \<notin> set ms" using s1(3) Cons.prems(2,4) by simp_all
  ultimately obtain s' where s': "move_markers s1 ms offset1 offset2 d db = Some s'" "editor_ok s'"
    "text_of s' = text_of s1" "same_files s1 s'"
    "ed_markers s' = (\<lambda>m. if m \<in> set ms then map_option (relocated offset1 offset2 d db) (ed_markers s1 m)
        else ed_markers s1 m)"
    using Cons.IH [OF s1(2)] Cons.prems(5,6) by blast
  have "ed_markers s' = (\<lambda>x. if x \<in> set (m # ms) then map_option (relocated offset1 offset2 d db) (ed_markers s x)
        else ed_markers s x)"
    unfolding s'(5) s1(5) using k \<open>m \<notin> set ms\<close> by (auto simp: fun_eq_iff)
  then show ?case
    using s'(1,2,3) s1(1,3) same_files_trans [OF s1(4) s'(4)] by (intro exI [of _ s']) simp
qed

lemma setEditorBufferModified_law:
  assumes "editor_ok s" "text_of s b = Some t"
  shows "\<exists>s'. setEditorBufferModified s b = Some s' \<and> editor_ok s' \<and> text_of s' = text_of s
    \<and> same_files s s' \<and> ed_markers s' = ed_markers s"
proof -
  from assms(2) obtain buffer where b: "ed_buffers s b = Some buffer" by (auto simp: text_of_Some)
  let ?b' = "buffer\<lparr>eb_modified := True, eb_heldThisRequest := True, eb_modifiedSinceLastQuasiSave := True,
    eb_modificationTime := ed_clock s (ed_ticks s)\<rparr>"
  let ?s' = "s\<lparr>ed_ticks := ed_ticks s + 1, ed_buffers := (ed_buffers s)(b \<mapsto> ?b')\<rparr>"
  have "setEditorBufferModified s b = Some ?s'"
    using b by (simp add: setEditorBufferModified_def update_buffer_def fileTimestampNow_def)
  moreover have m: "moved_markers (ed_markers s) b (\<lambda>x. x) = ed_markers s"
    by (auto simp: moved_markers_def fun_eq_iff option.map_ident cong: if_cong)
  have "editor_ok ?s'"
    by (rule editor_ok_edit [OF assms(1) b, where f = "\<lambda>x. x" and buffer' = ?b'])
      (use m editor_okD(2) [OF assms(1) b] in simp_all)
  moreover have "text_of ?s' = text_of s" using b by (auto simp: text_of_def fun_eq_iff)
  moreover have "same_files s ?s'" using b by (auto simp: same_files_def bufferName_def fun_eq_iff)
  ultimately show ?thesis by (intro exI [of _ ?s']) simp
qed

text \<open>
  The texts after a block has been moved: its bytes are inserted at the destination, and taken out
  at the place where the insertion has left them.
\<close>

definition moved_from :: "nat \<Rightarrow> nat \<Rightarrow> nat \<Rightarrow> nat \<Rightarrow> nat \<Rightarrow> nat" where
  "moved_from sb start db d sz = (if sb = db \<and> d \<le> start then start + sz else start)"

definition moved_to :: "nat \<Rightarrow> nat \<Rightarrow> nat \<Rightarrow> nat \<Rightarrow> nat \<Rightarrow> nat" where
  "moved_to sb start db d sz = (if sb = db \<and> start < d then d - sz else d)"

definition move_text ::
  "(nat \<Rightarrow> int list option) \<Rightarrow> nat \<Rightarrow> nat \<Rightarrow> nat \<Rightarrow> nat \<Rightarrow> nat \<Rightarrow> nat \<Rightarrow> int list option" where
  "move_text texts sb start db d sz =
     (let block = take sz (drop start (the (texts sb)));
          texts1 = texts(db \<mapsto> take d (the (texts db)) @ block @ drop d (the (texts db)));
          from1 = moved_from sb start db d sz;
          str = the (texts1 sb)
      in texts1(sb \<mapsto> take from1 str @ drop (from1 + sz) str))"

lemma those_map_Some: "\<forall>x\<in>set xs. f x = Some (g x) \<Longrightarrow> those (map f xs) = Some (map g xs)"
  by (induction xs) auto

lemma map_nth_upt: "i + n \<le> length xs \<Longrightarrow> map ((!) xs) [i..<i + n] = take n (drop i xs)"
  by (rule nth_equalityI) auto

lemma byte_after_move_same: "i < length str \<Longrightarrow> byte_after_move str d sz sz i = Some (str ! i)"
  by (simp add: byte_after_move_def)

text \<open>Making the room reads bytes that are there, whatever they are.\<close>

lemma readable_room:
  assumes "text_of s sb = Some ts" "text_of s db = Some td" "start + sz \<le> length ts"
    and "\<not> (sb = db \<and> start < d \<and> d < start + sz)"
  shows "readable s db td d 0 (TextAt sb start) sz (\<lambda>_. True)"
  unfolding readable_def
proof (intro allI)
  fix resized
  have t: "getTextInEditorBuffer s sb = Some ts"
    using assms(1) by (auto simp: text_of_Some getTextInEditorBuffer_def)
  show "\<exists>bytes. copied_bytes s db resized td d 0 (TextAt sb start) sz = Some bytes \<and> length bytes = sz \<and> True"
  proof (cases "sb = db \<and> \<not> resized")
    case True
    then have "td = ts" using assms(1,2) by simp
    let ?g = "\<lambda>i. td ! (if i < d + sz then i else i - sz)"
    have "\<forall>i\<in>set [start..<start + sz]. byte_after_move td d 0 sz i = Some (?g i)"
      using assms(3) \<open>td = ts\<close> by (auto simp: byte_after_move_def Let_def)
    from those_map_Some [OF this] True show ?thesis by (simp add: copied_bytes_def)
  next
    case False
    then show ?thesis using assms(3) t by (auto simp: copied_bytes_def)
  qed
qed

lemma readable_block:
  assumes "text_of s sb = Some ts" "text_of s db = Some td" "start + sz \<le> length ts"
  shows "readable s db td d sz (TextAt sb start) sz (\<lambda>bytes. bytes = take sz (drop start ts))"
  unfolding readable_def
proof (intro allI)
  fix resized
  have t: "getTextInEditorBuffer s sb = Some ts"
    using assms(1) by (auto simp: text_of_Some getTextInEditorBuffer_def)
  show "\<exists>bytes. copied_bytes s db resized td d sz (TextAt sb start) sz = Some bytes \<and> length bytes = sz
      \<and> bytes = take sz (drop start ts)"
  proof (cases "sb = db \<and> \<not> resized")
    case True
    then have td: "td = ts" using assms(1,2) by simp
    have "\<forall>i\<in>set [start..<start + sz]. byte_after_move td d sz sz i = Some (td ! i)"
      using assms(3) td by (auto simp: byte_after_move_same)
    from those_map_Some [OF this] True td show ?thesis
      using assms(3) by (simp add: copied_bytes_def map_nth_upt)
  next
    case False
    then show ?thesis using assms(3) t by (auto simp: copied_bytes_def)
  qed
qed

lemma readable_nothing:
  assumes "text_of s sb = Some ts" "start \<le> length ts"
  shows "readable s sb ts start sz (TextAt sb start) 0 (\<lambda>bytes. bytes = [])"
  using assms by (auto simp: readable_def copied_bytes_def text_of_Some getTextInEditorBuffer_def)

text \<open>The block is found again behind the room that has been made for it.\<close>

lemma block_behind_room:
  assumes "length g = sz" "start + sz \<le> length td" "\<not> (start < d \<and> d < start + sz)" "d \<le> length td"
  shows "take sz (drop (if d \<le> start then start + sz else start) (take d td @ g @ drop d td))
    = take sz (drop start td)"
proof (cases "d \<le> start")
  case True
  then have "drop (start + sz) (take d td @ g @ drop d td) = drop start td"
    using assms by (simp add: min_absorb2)
  then show ?thesis using True by simp
next
  case False
  then have "start + sz \<le> d" using assms(3) by simp
  then have "take sz (drop start (take d td)) = take sz (drop start td)"
    by (simp add: drop_take min_def)
  then show ?thesis using False \<open>start + sz \<le> d\<close> assms(4) by (simp add: min_absorb2)
qed

lemma moved_markers_id:
  assumes "editor_ok s" "ed_buffers s b = Some buffer"
    and "\<And>x. 0 \<le> x \<Longrightarrow> x \<le> int (length (eb_text buffer)) \<Longrightarrow> f x = x"
  shows "moved_markers (ed_markers s) b f = ed_markers s"
proof
  fix m
  show "moved_markers (ed_markers s) b f m = ed_markers s m"
    using editor_okD(4) [OF assms(1,2), of m] assms(3)
    by (cases "ed_markers s m") (auto simp: moved_markers_def)
qed

lemma moveBlock_law:
  fixes undo :: "editorUndo list option" and start d sz :: nat
  assumes ok: "editor_ok s"
    and sm: "ed_markers s sm = Some \<lparr>em_buffer = sb, em_offset = int start\<rparr>"
    and dm: "ed_markers s dm = Some \<lparr>em_buffer = db, em_offset = int d\<rparr>"
    and ts: "text_of s sb = Some ts" and td: "text_of s db = Some td"
    and o: "start + sz \<le> length ts" and sz: "0 < sz" and inside: "\<not> (sb = db \<and> start < d \<and> d < start + sz)"
    and limit: "length td + sz < text_limit"
  shows "\<exists>s'. moveBlockInEditorBuffer s sm dm (int sz) undo
      = Some (s', map_option (newUndoMove db (int (moved_to sb start db d sz)) (int sz) sb
          (int (moved_from sb start db d sz))) undo)
    \<and> editor_ok s' \<and> text_of s' = move_text (text_of s) sb start db d sz \<and> same_files s s'
    \<and> dom (ed_markers s') = dom (ed_markers s)"
proof -
  let ?from = "moved_from sb start db d sz" and ?to = "moved_to sb start db d sz"
  obtain target where target: "ed_buffers s db = Some target" "eb_text target = td" using td by (auto simp: text_of_Some)
  have d: "d \<le> length td" using editor_okD(4) [OF ok target(1) dm] target(2) by simp
  let ?f1 = "adjusted_offset (int d) 0 (int sz)"
  from replace_ok [OF ok td d _ _ readable_room [OF ts td o inside], where deleteSize = 0 and undo = None] limit
  obtain g s1 where s1: "length g = sz"
    "replaceStringInEditorBuffer s db (int d) 0 (TextAt sb start) (int sz) None = Some (s1, None)"
    "editor_ok s1" "text_of s1 = (text_of s)(db \<mapsto> take d td @ g @ drop d td)"
    "ed_markers s1 = moved_markers (ed_markers s) db ?f1" "same_files s s1"
    by auto
  have sm1: "ed_markers s1 sm = Some \<lparr>em_buffer = sb, em_offset = int ?from\<rparr>"
  proof -
    have "start < text_limit" using o limit editor_okD(2) [OF ok] ts by (fastforce simp: text_of_Some)
    then show ?thesis
      using sm limit d unfolding s1(5)
      by (auto simp: moved_markers_def moved_from_def adjusted_offset_def to_unsigned_id text_limit_def)
  qed
  let ?t1 = "take d td @ g @ drop d td"
  obtain ts1 where ts1: "text_of s1 sb = Some ts1" "?from + sz \<le> length ts1"
    "take sz (drop ?from ts1) = take sz (drop start ts)"
  proof (cases "sb = db")
    case True
    then have "td = ts" using ts td by simp
    then show ?thesis
      using that [of ?t1] True s1(1,4) o d inside block_behind_room [OF s1(1), of start td d]
      by (simp add: moved_from_def)
  next
    case False
    then show ?thesis using that [of ts] s1(4) ts o by (simp add: moved_from_def)
  qed
  have t1: "text_of s1 db = Some ?t1" using s1(4) by simp
  let ?block = "take sz (drop start ts)"
  let ?f2 = "adjusted_offset (int d) (int sz) (int sz)"
  have "length ?t1 - sz + sz < text_limit" "d \<le> length ?t1" "sz = min sz (length ?t1 - d)"
    using s1(1) d limit by simp_all
  from replace_ok [OF s1(3) t1 this(2,3,1) readable_block [OF ts1(1) t1 ts1(2), unfolded ts1(3)], where undo = None]
  obtain s2 where s2: "replaceStringInEditorBuffer s1 db (int d) (int sz) (TextAt sb ?from) (int sz) None = Some (s2, None)"
    "editor_ok s2" "text_of s2 = (text_of s1)(db \<mapsto> take d ?t1 @ ?block @ drop (d + sz) ?t1)"
    "ed_markers s2 = moved_markers (ed_markers s1) db ?f2" "same_files s1 s2"
    by auto
  have t2: "text_of s2 = (text_of s)(db \<mapsto> take d td @ ?block @ drop d td)"
    using s2(3) s1(1,4) d by (simp add: min_absorb2)
  obtain target1 where target1: "ed_buffers s1 db = Some target1" using t1 by (auto simp: text_of_Some)
  have m2: "ed_markers s2 = ed_markers s1"
    unfolding s2(4)
    by (rule moved_markers_id [OF s1(3) target1])
      (use editor_okD(2) [OF s1(3) target1] in \<open>auto simp: adjusted_offset_def to_unsigned_id text_limit_def\<close>)
  obtain ts2 where ts2: "text_of s2 sb = Some ts2" using t2 ts by (cases "sb = db") simp_all
  then obtain buffer2 where b2: "ed_buffers s2 sb = Some buffer2" "eb_text buffer2 = ts2" by (auto simp: text_of_Some)
  have len2: "?from + sz \<le> length ts2"
  proof (cases "sb = db")
    case True
    then have "td = ts" using ts td by simp
    then show ?thesis using True ts2 t2 o d by (auto simp: moved_from_def)
  next
    case False
    then show ?thesis using ts2 t2 ts o by (simp add: moved_from_def)
  qed
  let ?t2 = "take d td @ ?block @ drop d td"
  have ms2: "\<forall>m\<in>set (eb_markers buffer2). ed_markers s2 m \<noteq> None"
    using editor_okD(3) [OF s2(2) b2(1)] by auto
  have "text_of s2 db = Some ?t2" "int d + (int ?from + int sz - int ?from) \<le> int (length ?t2)"
    using t2 o d by simp_all
  from move_markers_law [OF s2(2) editor_okD(1) [OF s2(2) b2(1)] ms2 this(1) _ this(2)]
  obtain s3 where s3: "move_markers s2 (eb_markers buffer2) (int ?from) (int ?from + int sz) (int d) db = Some s3"
    "editor_ok s3" "text_of s3 = text_of s2" "same_files s2 s3"
    "ed_markers s3 = (\<lambda>m. if m \<in> set (eb_markers buffer2)
       then map_option (relocated (int ?from) (int ?from + int sz) (int d) db) (ed_markers s2 m) else ed_markers s2 m)"
    by auto
  have "sm \<in> set (eb_markers buffer2)" using editor_okD(3) [OF s2(2) b2(1), of sm] sm1 m2 by simp
  then have sm3: "ed_markers s3 sm = Some \<lparr>em_buffer = db, em_offset = int d\<rparr>"
    using s3(5) m2 sm1 sz by (simp add: relocated_def)
  have t3: "text_of s3 sb = Some ts2" using s3(3) ts2 by simp
  have "length ts2 - sz + 0 < text_limit" "?from \<le> length ts2" "sz = min sz (length ts2 - ?from)"
    using editor_okD(2) [OF s2(2) b2(1)] b2(2) len2 by simp_all
  from replace_ok [OF s3(2) t3 this(2,3,1) readable_nothing [OF t3 this(2)], where undo = None]
  obtain s4 where s4: "replaceStringInEditorBuffer s3 sb (int ?from) (int sz) (TextAt sb ?from) 0 None = Some (s4, None)"
    "editor_ok s4" "text_of s4 = (text_of s3)(sb \<mapsto> take ?from ts2 @ drop (?from + sz) ts2)"
    "ed_markers s4 = moved_markers (ed_markers s3) sb (adjusted_offset (int ?from) (int sz) 0)" "same_files s3 s4"
    by auto
  have sm4: "ed_markers s4 sm = Some \<lparr>em_buffer = db, em_offset = int ?to\<rparr>"
    using sm3 sz inside limit d unfolding s4(4)
    by (auto simp: moved_markers_def moved_from_def moved_to_def adjusted_offset_def to_unsigned_id text_limit_def
        of_nat_diff)
  have t4: "text_of s4 = move_text (text_of s) sb start db d sz"
    using t2 ts2 s3(3) s4(3) ts td by (auto simp: move_text_def Let_def)
  obtain ts4 td4 where t4': "text_of s4 sb = Some ts4" "text_of s4 db = Some td4"
    using t2 s3(3) s4(3) by (cases "sb = db") simp_all
  from setEditorBufferModified_law [OF s4(2) t4'(1)] obtain s5 where
    s5: "setEditorBufferModified s4 sb = Some s5" "editor_ok s5" "text_of s5 = text_of s4" "same_files s4 s5"
      "ed_markers s5 = ed_markers s4" by blast
  from setEditorBufferModified_law [OF s5(2), of db td4] s5(3) t4'(2) obtain s6 where
    s6: "setEditorBufferModified s5 db = Some s6" "editor_ok s6" "text_of s6 = text_of s5" "same_files s5 s6"
      "ed_markers s6 = ed_markers s5" by auto
  have guard: "\<not> (db = sb \<and> int d > int start \<and> int d < int start + int sz)" using inside by auto
  have "moveBlockInEditorBuffer s sm dm (int sz) undo = Some (s6, map_option (newUndoMove db (int ?to) (int sz) sb (int ?from)) undo)"
    using guard sm dm sm1 m2 s1(2) s2(1) s3(1) s4(1) s5(1) s6(1,5) s5(5) b2(1) sm4
    by (simp add: moveBlockInEditorBuffer_def) blast
  moreover have "dom (ed_markers s6) = dom (ed_markers s)"
    unfolding s6(5) s5(5) s4(4) s3(5) m2 s1(5) by (auto simp: moved_markers_def dom_def)
  ultimately show ?thesis
    using s6(2,3) s5(3) t4 same_files_trans [OF s1(6) same_files_trans [OF s2(5) same_files_trans [OF s3(4)
      same_files_trans [OF s4(5) same_files_trans [OF s5(4) s6(4)]]]]]
    by (intro exI [of _ s6]) simp
qed

section \<open>New and freed markers\<close>

lemma editor_okI:
  assumes "\<And>b buffer. ed_buffers s b = Some buffer \<Longrightarrow> distinct (eb_markers buffer) \<and> length (eb_text buffer) < text_limit"
    and "\<And>b buffer m. ed_buffers s b = Some buffer \<Longrightarrow>
      m \<in> set (eb_markers buffer) \<longleftrightarrow> (\<exists>k. ed_markers s m = Some k \<and> em_buffer k = b)"
    and "\<And>m k. ed_markers s m = Some k \<Longrightarrow> \<exists>buffer. ed_buffers s (em_buffer k) = Some buffer
      \<and> 0 \<le> em_offset k \<and> em_offset k \<le> int (length (eb_text buffer))"
    and "\<And>m. ed_nextMarker s \<le> m \<Longrightarrow> ed_markers s m = None"
  shows "editor_ok s"
  unfolding editor_ok_def buffer_ok_def
proof (intro conjI allI impI ballI)
  fix b buffer m assume b: "ed_buffers s b = Some buffer" and "m \<in> set (eb_markers buffer)"
  then obtain k where k: "ed_markers s m = Some k" "em_buffer k = b" using assms(2) by blast
  with assms(3) [OF k(1)] b show "\<exists>k. ed_markers s m = Some k \<and> em_buffer k = b \<and> 0 \<le> em_offset k
      \<and> em_offset k \<le> int (length (eb_text buffer))" by auto
next
  fix m k assume k: "ed_markers s m = Some k"
  from assms(3) [OF k] obtain buffer where "ed_buffers s (em_buffer k) = Some buffer" by blast
  with assms(2) k show "\<exists>buffer. ed_buffers s (em_buffer k) = Some buffer \<and> m \<in> set (eb_markers buffer)" by blast
qed (use assms in blast)+

lemma editor_ok_marker:
  assumes "editor_ok s" "ed_markers s m = Some k"
  shows "\<exists>buffer. ed_buffers s (em_buffer k) = Some buffer \<and> 0 \<le> em_offset k
    \<and> em_offset k \<le> int (length (eb_text buffer))"
proof -
  from assms obtain buffer where b: "ed_buffers s (em_buffer k) = Some buffer" unfolding editor_ok_def by blast
  with editor_okD(4) [OF assms(1) b assms(2)] show ?thesis by blast
qed

lemma newEditorMarker_law:
  assumes ok: "editor_ok s" and t: "text_of s b = Some t" and x: "0 \<le> x" "x \<le> int (length t)"
  shows "\<exists>s'. newEditorMarker s b x = Some (ed_nextMarker s, s') \<and> editor_ok s' \<and> text_of s' = text_of s
    \<and> ed_markers s' = (ed_markers s)(ed_nextMarker s \<mapsto> \<lparr>em_buffer = b, em_offset = x\<rparr>)
    \<and> ed_nextMarker s' = ed_nextMarker s + 1
    \<and> (\<forall>b'. map_option eb_fileNumber (ed_buffers s' b') = map_option eb_fileNumber (ed_buffers s b'))"
proof -
  let ?m = "ed_nextMarker s"
  from t obtain buffer where b: "ed_buffers s b = Some buffer" "eb_text buffer = t" by (auto simp: text_of_Some)
  have n: "ed_markers s ?m = None" using ok by (simp add: editor_ok_def)
  have u: "to_unsigned x = x" using x editor_okD(2) [OF ok b(1)] b(2) by (simp add: to_unsigned_id text_limit_def)
  let ?s' = "s\<lparr>ed_markers := (ed_markers s)(?m \<mapsto> \<lparr>em_buffer = b, em_offset = x\<rparr>), ed_nextMarker := ?m + 1,
    ed_buffers := (ed_buffers s)(b \<mapsto> buffer\<lparr>eb_markers := ?m # eb_markers buffer\<rparr>)\<rparr>"
  have run: "newEditorMarker s b x = Some (?m, ?s')"
    using b(1) u by (simp add: newEditorMarker_def attachMarkerToBuffer_def update_buffer_def) (cases s; simp)
  have "?m \<notin> set (eb_markers buffer)" using editor_okD(3) [OF ok b(1)] n by simp
  moreover have "length t < text_limit" using editor_okD(2) [OF ok b(1)] b(2) by simp
  ultimately have "editor_ok ?s'"
    using b x editor_okD(1,2,3) [OF ok] editor_ok_marker [OF ok] ok n
    by (intro editor_okI) (fastforce simp: editor_ok_def split: if_splits)+
  moreover have "text_of ?s' = text_of s" using b(1) by (auto simp: text_of_def fun_eq_iff)
  moreover have "\<forall>b'. map_option eb_fileNumber (ed_buffers ?s' b') = map_option eb_fileNumber (ed_buffers s b')"
    using b(1) by simp
  ultimately show ?thesis using run by (intro exI [of _ ?s']) simp
qed

lemma freeEditorMarker_law:
  assumes ok: "editor_ok s" and k: "ed_markers s m = Some k"
  shows "\<exists>s'. freeEditorMarker s (Some m) = Some s' \<and> editor_ok s' \<and> text_of s' = text_of s
    \<and> ed_markers s' = (ed_markers s)(m := None)"
proof -
  from editor_ok_marker [OF ok k] obtain buffer where b: "ed_buffers s (em_buffer k) = Some buffer" by blast
  let ?s' = "s\<lparr>ed_buffers := (ed_buffers s)(em_buffer k \<mapsto> buffer\<lparr>eb_markers := remove1 m (eb_markers buffer)\<rparr>),
    ed_markers := (ed_markers s)(m := None)\<rparr>"
  have run: "freeEditorMarker s (Some m) = Some ?s'"
    using k b by (simp add: freeEditorMarker_def removeEditorMarkerFromBufferWithoutFreeing_def update_buffer_def)
  have m: "m \<notin> set (eb_markers buffer')" if "ed_buffers s b' = Some buffer'" "b' \<noteq> em_buffer k" for b' buffer'
    using editor_okD(3) [OF ok that(1)] k that(2) by simp
  have "editor_ok ?s'"
  proof (rule editor_okI)
    fix b' buffer' assume b': "ed_buffers ?s' b' = Some buffer'"
    show "distinct (eb_markers buffer') \<and> length (eb_text buffer') < text_limit"
      using b' b editor_okD(1,2) [OF ok] by (auto split: if_splits)
    show "m' \<in> set (eb_markers buffer') \<longleftrightarrow> (\<exists>k. ed_markers ?s' m' = Some k \<and> em_buffer k = b')" for m'
    proof (cases "b' = em_buffer k")
      case True
      then show ?thesis using b' editor_okD(1) [OF ok b] editor_okD(3) [OF ok b, of m'] k by auto
    next
      case False
      then show ?thesis using b' editor_okD(3) [of s b' buffer' m', OF ok] m [of b' buffer'] by auto
    qed
  next
    fix m' k' assume "ed_markers ?s' m' = Some k'"
    then have "ed_markers s m' = Some k'" by (simp split: if_splits)
    from editor_ok_marker [OF ok this] b show "\<exists>buffer. ed_buffers ?s' (em_buffer k') = Some buffer
        \<and> 0 \<le> em_offset k' \<and> em_offset k' \<le> int (length (eb_text buffer))" by auto
  next
    fix m' assume "ed_nextMarker ?s' \<le> m'"
    then show "ed_markers ?s' m' = None" using ok by (simp add: editor_ok_def)
  qed
  moreover have "text_of ?s' = text_of s" using b by (auto simp: text_of_def fun_eq_iff)
  ultimately show ?thesis using run by (intro exI [of _ ?s']) simp
qed

section \<open>Properties of edits\<close>


definition example_loaded :: editor where
  "example_loaded = example_marked [97, 98, 99] [0, 3]"

lemma example_loaded_simps:
  "ed_buffers example_loaded = [0 \<mapsto> (example_buffer_text [97, 98, 99])\<lparr>eb_markers := [0, 1]\<rparr>]"
  "ed_markers example_loaded = [0 \<mapsto> \<lparr>em_buffer = 0, em_offset = 0\<rparr>, 1 \<mapsto> \<lparr>em_buffer = 0, em_offset = 3\<rparr>]"
  "ed_nextMarker example_loaded = 2"
proof -
  have u: "[0..<length [0::int, 3]] = [0, 1]" by (simp add: upt_rec)
  show "ed_buffers example_loaded = [0 \<mapsto> (example_buffer_text [97, 98, 99])\<lparr>eb_markers := [0, 1]\<rparr>]"
    "ed_markers example_loaded = [0 \<mapsto> \<lparr>em_buffer = 0, em_offset = 0\<rparr>, 1 \<mapsto> \<lparr>em_buffer = 0, em_offset = 3\<rparr>]"
    "ed_nextMarker example_loaded = 2"
    unfolding example_loaded_def example_marked_def u by (simp_all add: fun_upd_twist)
qed

lemma example_loaded_ok: "editor_ok example_loaded" "text_of example_loaded 0 = Some [97, 98, 99]"
  by (auto simp: editor_ok_def buffer_ok_def example_loaded_simps example_buffer_text_def text_limit_def text_of_def
      split: if_splits)


end
