(* ===== verification/EditorFiles.thy ===== *)
theory EditorFiles
  imports Editor
begin

text \<open>
  Models the functions of \<^verbatim>\<open>editor.c\<close> that go over all the buffers: saving their times, loading
  their texts and closing them. Looking at the buffers goes over the slots of the table; closing goes
  over a list of the buffers that is made first.
\<close>

section \<open>All buffers\<close>

lemma next_used_slot_ge: "next_used_slot tab i = -1 \<or> (int i \<le> next_used_slot tab i \<and> next_used_slot tab i < int (length tab))"
proof (induction tab i rule: next_used_slot.induct)
  case (1 tab i)
  then show ?case by (subst (1 2 3) next_used_slot.simps) auto
qed

text \<open>The loop over the table, from the slot \<open>i\<close> on: the buffers in the order they are met.\<close>

function buffers_from :: "editor \<Rightarrow> nat \<Rightarrow> nat list" where
  "buffers_from s i =
     (if i < length (hl_tab (ed_table s)) then
        getEditorBufferListElementAt s i @
          (let next0 = getNextExistingEditorBufferIndex s (i + 1) in
           if next0 = -1 then [] else buffers_from s (nat next0))
      else [])"
  by pat_completeness auto

termination
proof (relation "measure (\<lambda>(s, i). length (hl_tab (ed_table s)) - i)", goal_cases)
  case (2 s i next0)
  then show ?case
    using next_used_slot_ge [of "hl_tab (ed_table s)" "i + 1"] by (auto simp: getNextExistingEditorBufferIndex_def)
qed simp

declare buffers_from.simps [simp del]

definition all_buffers :: "editor \<Rightarrow> nat list" where
  "all_buffers s = buffers_from s 0"

text \<open>The list has the buffers in the opposite order.\<close>

definition computeListOfAllEditorBuffers :: "editor \<Rightarrow> nat list" where
  "computeListOfAllEditorBuffers s = fold (\<lambda>b list. b # list) (all_buffers s) []"

text \<open>Steps that can fail, one after the other.\<close>

fun for_each :: "('a \<Rightarrow> 's \<Rightarrow> 's option) \<Rightarrow> 'a list \<Rightarrow> 's \<Rightarrow> 's option" where
  "for_each f [] s = Some s"
| "for_each f (x # xs) s = do { s1 \<leftarrow> f x s; for_each f xs s1 }"

lemma for_each_append: "for_each f (xs @ ys) s = Option.bind (for_each f xs s) (for_each f ys)"
  by (induction xs arbitrary: s) (auto split: Option.bind_splits)

lemma next_used_slot_concat:
  "(if next_used_slot tab i = -1 then [] else concat (drop (nat (next_used_slot tab i)) tab)) = concat (drop i tab)"
proof (induction tab i rule: next_used_slot.induct)
  case (1 tab i)
  show ?case
  proof (cases "i < length tab")
    case True
    then have "drop i tab = tab ! i # drop (Suc i) tab" by (simp add: Cons_nth_drop_Suc)
    then show ?thesis using 1 True by (subst (1 2) next_used_slot.simps) auto
  next
    case False
    then show ?thesis by (subst (1 2) next_used_slot.simps) simp
  qed
qed

lemma buffers_from_concat: "buffers_from s i = concat (drop i (hl_tab (ed_table s)))"
proof (induction s i rule: buffers_from.induct)
  case (1 s i)
  let ?next = "next_used_slot (hl_tab (ed_table s)) (i + 1)"
  show ?case
  proof (cases "i < length (hl_tab (ed_table s))")
    case True
    then have d: "drop i (hl_tab (ed_table s)) = hl_tab (ed_table s) ! i # drop (Suc i) (hl_tab (ed_table s))"
      by (simp add: Cons_nth_drop_Suc)
    show ?thesis
      using 1 [OF True] True next_used_slot_concat [of "hl_tab (ed_table s)" "Suc i"]
      by (subst buffers_from.simps) (auto simp: d getEditorBufferListElementAt_def getNextExistingEditorBufferIndex_def Let_def
          split: if_splits)
  next
    case False
    then show ?thesis by (subst buffers_from.simps) simp
  qed
qed

lemma all_buffers_registered: "set (all_buffers s) = registered s"
  by (simp add: all_buffers_def buffers_from_concat registered_def)

lemma computeListOfAllEditorBuffers_rev: "computeListOfAllEditorBuffers s = rev (all_buffers s)"
proof -
  have "fold (\<lambda>b list. b # list) bs acc = rev bs @ acc" for bs :: "nat list" and acc
    by (induction bs arbitrary: acc) simp_all
  then show ?thesis by (simp add: computeListOfAllEditorBuffers_def)
qed

section \<open>Saving and loading\<close>

definition quasiSaveEditorBuffer :: "nat \<Rightarrow> editor \<Rightarrow> editor option" where
  "quasiSaveEditorBuffer b s = do {
     let (now, s1) = fileTimestampNow s;
     s2 \<leftarrow> update_buffer s1 b (\<lambda>buffer. buffer\<lparr>eb_modifiedSinceLastQuasiSave := False, eb_modificationTime := now\<rparr>);
     buffer \<leftarrow> ed_buffers s2 b;
     if eb_fileNumber buffer < 0 then None
     else do {
       table \<leftarrow> update_item (ed_fileTable s2) (nat (eb_fileNumber buffer)) (\<lambda>item. item\<lparr>fi_lastModified := now\<rparr>);
       Some (s2\<lparr>ed_fileTable := table\<rparr>)
     }
   }"

definition quasi_save_one :: "nat \<Rightarrow> editor \<Rightarrow> editor option" where
  "quasi_save_one b s = do {
     buffer \<leftarrow> ed_buffers s b;
     if eb_modifiedSinceLastQuasiSave buffer then quasiSaveEditorBuffer b s else Some s
   }"

definition needs_saving :: "editor \<Rightarrow> nat \<Rightarrow> bool" where
  "needs_saving s b = (case ed_buffers s b of None \<Rightarrow> False | Some buffer \<Rightarrow> eb_modifiedSinceLastQuasiSave buffer)"

text \<open>
  The time of the last call is kept between calls. When something is to be saved within the second
  of it the process sleeps, which only shows in the times the clock gives afterwards; a last call more
  than five seconds ahead ends it.
\<close>

definition quasiSaveModifiedEditorBuffers :: "editor \<Rightarrow> timestamp \<Rightarrow> (timestamp \<times> editor) option" where
  "quasiSaveModifiedEditorBuffers s lastQuasiSaveTime = do {
     s1 \<leftarrow> (if list_ex (needs_saving s) (all_buffers s) then
              (let (currentTime, s1) = fileTimestampNow s in
               if tv_sec lastQuasiSaveTime > tv_sec currentTime + 5 then None else Some s1)
            else Some s);
     s2 \<leftarrow> for_each quasi_save_one (all_buffers s1) s1;
     Some (fileTimestampNow s2)
   }"

definition load_one :: "environment \<Rightarrow> nat \<Rightarrow> editor \<Rightarrow> editor option" where
  "load_one env b s = do {
     buffer \<leftarrow> ed_buffers s b;
     if \<not> eb_textLoaded buffer then
       (let fileName = (case eb_preLoadedFromFile buffer of Some name \<Rightarrow> name | None \<Rightarrow> eb_fileName buffer) in
        if env_fileExists env fileName
        then loadFileIntoEditorBuffer env s b (env_fileModificationTime env fileName) (env_fileSize env fileName)
        else Some s)
     else Some s
   }"

definition loadAllOpenedEditorBuffers :: "environment \<Rightarrow> editor \<Rightarrow> editor option" where
  "loadAllOpenedEditorBuffers env s = for_each (load_one env) (all_buffers s) s"

section \<open>Closing\<close>

definition bufferIsCloseable :: "editorBuffer option \<Rightarrow> bool" where
  "bufferIsCloseable buffer =
     (case buffer of
        None \<Rightarrow> False
      | Some b \<Rightarrow> eb_textLoaded b \<and> eb_markers b = [] \<and> eb_preLoadedFromFile b = None \<and> \<not> eb_modified b)"

text \<open>The buffer is freed whether or not it has been taken out of the table.\<close>

definition closeEditorBufferIfCloseable :: "environment \<Rightarrow> editor \<Rightarrow> string \<Rightarrow> editor option" where
  "closeEditorBufferIfCloseable env s name = do {
     (b, s1) \<leftarrow> findOrCreateAndLoadEditorBufferForFile env s name;
     buffer \<leftarrow> (case b of None \<Rightarrow> Some None | Some b' \<Rightarrow> map_option Some (ed_buffers s1 b'));
     let s2 = (if bufferIsCloseable buffer then snd (deregisterEditorBuffer s1 name) else s1);
     freeEditorBuffer s2 b
   }"

definition close_one :: "nat \<Rightarrow> editor \<Rightarrow> editor option" where
  "close_one b s = do {
     buffer \<leftarrow> ed_buffers s b;
     if bufferIsCloseable (Some buffer) then
       (let (found, s1) = deregisterEditorBuffer s (eb_fileName buffer) in freeEditorBuffer s1 found)
     else Some s
   }"

definition closeAllEditorBuffersIfClosable :: "editor \<Rightarrow> editor option" where
  "closeAllEditorBuffersIfClosable s = for_each close_one (computeListOfAllEditorBuffers s) s"

definition clear_held :: "nat \<Rightarrow> editor \<Rightarrow> editor option" where
  "clear_held b s = update_buffer s b (\<lambda>buffer. buffer\<lparr>eb_heldThisRequest := False\<rparr>)"

definition clearHeldThisRequestFlags :: "editor \<Rightarrow> editor option" where
  "clearHeldThisRequestFlags s = for_each clear_held (computeListOfAllEditorBuffers s) s"

section \<open>What is left after closing\<close>

definition closeable :: "editor \<Rightarrow> nat \<Rightarrow> bool" where
  "closeable s b \<longleftrightarrow> bufferIsCloseable (ed_buffers s b)"

lemma freeEditorBuffer_law:
  assumes "table_ok s" "ed_buffers s b = Some buffer" "b \<notin> registered s"
  shows "\<exists>s'. freeEditorBuffer s (Some b) = Some s' \<and> table_ok s' \<and> ed_table s' = ed_table s
    \<and> ed_buffers s' = (ed_buffers s)(b := None) \<and> ed_nextBuffer s' = ed_nextBuffer s"
proof -
  obtain s' where s': "freeEditorBuffer s (Some b) = Some s'" by (simp add: freeEditorBuffer_def assms(2) Let_def)
  then have e: "ed_table s' = ed_table s" "ed_buffers s' = (ed_buffers s)(b := None)" "ed_nextBuffer s' = ed_nextBuffer s"
    using assms(2) by (auto simp: freeEditorBuffer_def Let_def freeMarkersInEditorBuffer_def freeTextSpace_def)
  have "bufferName s' b' = bufferName s b'" if "b' \<in> registered s" for b'
    using that assms(3) e(2) by (auto simp: bufferName_def)
  moreover have "ed_buffers s' b' \<noteq> None" if "b' \<in> registered s" for b'
    using that assms(1,3) e(2) by (auto simp: table_ok_def)
  moreover have "ed_buffers s' b' = None" if "b' \<ge> ed_nextBuffer s'" for b'
    using that assms(1) e(2,3) by (auto simp: table_ok_def)
  ultimately have "table_ok s'" using table_ok_names [OF assms(1) e(1)] by blast
  with s' e show ?thesis by blast
qed

lemma close_one_law:
  assumes "table_ok s" "b \<in> registered s"
  shows "\<exists>s'. close_one b s = Some s' \<and> table_ok s'
    \<and> registered s' = registered s - (if closeable s b then {b} else {})
    \<and> (\<forall>b'\<in>registered s'. ed_buffers s' b' = ed_buffers s b')
    \<and> (closeable s b \<longrightarrow> ed_buffers s' b = None) \<and> (\<forall>b'. b' < ed_nextBuffer s \<longrightarrow> ed_buffers s b' = None \<longrightarrow> ed_buffers s' b' = None)
    \<and> ed_nextBuffer s \<le> ed_nextBuffer s'"
proof -
  from assms obtain buffer where b: "ed_buffers s b = Some buffer" by (auto simp: table_ok_def)
  show ?thesis
  proof (cases "closeable s b")
    case False
    then have "close_one b s = Some s" using b by (simp add: close_one_def closeable_def)
    with False assms(1) show ?thesis by (intro exI [of _ s]) simp
  next
    case True
    let ?n = "eb_fileName buffer" and ?s1 = "snd (deregisterEditorBuffer s (eb_fileName buffer))"
    have g: "getEditorBufferForFile s ?n = Some b"
      using get_iff [OF assms(1)] assms(2) b by (simp add: bufferName_def)
    note d = deregister_law [OF assms(1), of ?n]
    have f: "fst (deregisterEditorBuffer s ?n) = Some b" using d g by (simp only:)
    have ok: "table_ok ?s1" using d by (elim conjE)
    have keep: "\<forall>b'\<in>registered s. ed_buffers ?s1 b' = ed_buffers s b'" using d by (elim conjE)
    have "{b'. getEditorBufferForFile s ?n = Some b'} = {b}" unfolding g by simp
    then have r: "registered ?s1 = registered s - {b}" using d by (simp only:)
    have b1: "ed_buffers ?s1 b = Some buffer" using keep assms(2) b by simp
    have "b \<notin> registered ?s1" using r by simp
    from freeEditorBuffer_law [OF ok b1 this] obtain s' where s': "freeEditorBuffer ?s1 (Some b) = Some s'" "table_ok s'"
      "ed_table s' = ed_table ?s1" "ed_buffers s' = (ed_buffers ?s1)(b := None)" "ed_nextBuffer s' = ed_nextBuffer ?s1"
      by (elim exE conjE) (rule that; assumption)
    have n: "ed_nextBuffer ?s1 = ed_nextBuffer s + 1" "\<And>b'. b' < ed_nextBuffer s \<Longrightarrow> ed_buffers ?s1 b' = ed_buffers s b'"
      by (auto simp: deregisterEditorBuffer_def allocate_buffer_def Let_def split: prod.splits option.splits)
    have "close_one b s = Some s'"
      using True b s'(1) f by (simp add: close_one_def closeable_def case_prod_beta)
    moreover have "registered s' = registered s - {b}" using s'(3) r by (simp add: registered_def)
    moreover have "\<forall>b'\<in>registered s - {b}. ed_buffers s' b' = ed_buffers s b'" using keep s'(4) by simp
    ultimately show ?thesis using s'(2,4,5) True n by (intro exI [of _ s']) auto
  qed
qed

lemma for_each_close:
  "table_ok s \<Longrightarrow> set bs \<subseteq> registered s \<Longrightarrow> distinct bs \<Longrightarrow>
   \<exists>s'. for_each close_one bs s = Some s' \<and> table_ok s'
     \<and> registered s' = registered s - {b \<in> set bs. closeable s b}
     \<and> (\<forall>b\<in>registered s'. ed_buffers s' b = ed_buffers s b)
     \<and> (\<forall>b\<in>set bs. closeable s b \<longrightarrow> ed_buffers s' b = None)
     \<and> (\<forall>b. b < ed_nextBuffer s \<longrightarrow> ed_buffers s b = None \<longrightarrow> ed_buffers s' b = None)
     \<and> ed_nextBuffer s \<le> ed_nextBuffer s'"
proof (induction bs arbitrary: s)
  case (Cons b bs)
  then have "b \<in> registered s" by simp
  from close_one_law [OF Cons.prems(1) this] obtain s1 where
    s1: "close_one b s = Some s1" "table_ok s1" "registered s1 = registered s - (if closeable s b then {b} else {})"
      "\<forall>b'\<in>registered s1. ed_buffers s1 b' = ed_buffers s b'" "closeable s b \<longrightarrow> ed_buffers s1 b = None"
      "\<forall>b'. b' < ed_nextBuffer s \<longrightarrow> ed_buffers s b' = None \<longrightarrow> ed_buffers s1 b' = None" "ed_nextBuffer s \<le> ed_nextBuffer s1"
    by blast
  have sub: "set bs \<subseteq> registered s1" using Cons.prems(2,3) s1(3) by auto
  have c: "closeable s1 b' = closeable s b'" if "b' \<in> set bs" for b'
    using that sub s1(4) by (auto simp: closeable_def)
  have "distinct bs" using Cons.prems(3) by simp
  from Cons.IH [OF s1(2) sub this] obtain s' where
    s': "for_each close_one bs s1 = Some s'" "table_ok s'" "registered s' = registered s1 - {b \<in> set bs. closeable s1 b}"
      "\<forall>b\<in>registered s'. ed_buffers s' b = ed_buffers s1 b" "\<forall>b\<in>set bs. closeable s1 b \<longrightarrow> ed_buffers s' b = None"
      "\<forall>b. b < ed_nextBuffer s1 \<longrightarrow> ed_buffers s1 b = None \<longrightarrow> ed_buffers s' b = None" "ed_nextBuffer s1 \<le> ed_nextBuffer s'"
    by (elim exE conjE) (rule that; assumption)
  have "registered s' = registered s - {b' \<in> set (b # bs). closeable s b'}"
    using s'(3) s1(3) c Cons.prems(3) by auto
  moreover have "\<forall>b'\<in>registered s'. ed_buffers s' b' = ed_buffers s b'" using s'(3,4) s1(4) by auto
  moreover have "b < ed_nextBuffer s" using registered_below [OF Cons.prems(1)] Cons.prems(2) by simp
  then have "\<forall>b'\<in>set (b # bs). closeable s b' \<longrightarrow> ed_buffers s' b' = None"
    using s'(5,6) s1(5,7) c by auto
  moreover have "for_each close_one (b # bs) s = Some s'" using s1(1) s'(1) by simp
  moreover have "\<forall>b'. b' < ed_nextBuffer s \<longrightarrow> ed_buffers s b' = None \<longrightarrow> ed_buffers s' b' = None"
    using s1(6,7) s'(6) less_le_trans by blast
  moreover have "ed_nextBuffer s \<le> ed_nextBuffer s'" using s1(7) s'(7) by (rule order_trans)
  ultimately show ?case using s'(2) by blast
qed simp

section \<open>Properties\<close>

text \<open>C35: Closing all that can be closed takes exactly the buffers out of the table, and frees them,
  that have a text, no markers, no content of their own and no changes; the others stay as they are
  and are found under their names as before.\<close>

theorem closing_keeps_the_rest:
  assumes "table_ok s"
  shows "\<exists>s'. closeAllEditorBuffersIfClosable s = Some s' \<and> table_ok s'
    \<and> registered s' = {b \<in> registered s. \<not> closeable s b}
    \<and> (\<forall>b\<in>registered s. ed_buffers s' b = (if closeable s b then None else ed_buffers s b))
    \<and> getEditorBufferForFile s' n
      = (case getEditorBufferForFile s n of None \<Rightarrow> None | Some b \<Rightarrow> if closeable s b then None else Some b)"
proof -
  have set: "set (computeListOfAllEditorBuffers s) = registered s"
    by (simp add: computeListOfAllEditorBuffers_rev all_buffers_registered)
  have "distinct (computeListOfAllEditorBuffers s)"
    using assms by (simp add: computeListOfAllEditorBuffers_rev all_buffers_def buffers_from_concat table_ok_def)
  note close = for_each_close [OF assms _ this, unfolded set, OF order.refl, folded closeAllEditorBuffersIfClosable_def]
  from close obtain s' where
    s': "closeAllEditorBuffersIfClosable s = Some s'" "table_ok s'"
      "registered s' = registered s - {b \<in> registered s. closeable s b}"
      "\<forall>b\<in>registered s'. ed_buffers s' b = ed_buffers s b" "\<forall>b\<in>registered s. closeable s b \<longrightarrow> ed_buffers s' b = None"
    by (elim exE conjE) (rule that; assumption)
  have r: "registered s' = {b \<in> registered s. \<not> closeable s b}" using s'(3) by blast
  have names: "bufferName s' b = bufferName s b" if "b \<in> registered s'" for b
    using that s'(4) by (simp add: bufferName_def)
  have found: "getEditorBufferForFile s' n = Some b \<longleftrightarrow> getEditorBufferForFile s n = Some b \<and> b \<notin> {b. closeable s b}" for b
    using names r by (auto simp: get_iff [OF s'(2)] get_iff [OF assms])
  have "getEditorBufferForFile s' n
      = (case getEditorBufferForFile s n of None \<Rightarrow> None | Some b \<Rightarrow> if closeable s b then None else Some b)"
  proof (cases "getEditorBufferForFile s n")
    case None
    then have "getEditorBufferForFile s' n \<noteq> Some b" for b using found [of b] by simp
    then have "getEditorBufferForFile s' n = None" by (cases "getEditorBufferForFile s' n") blast+
    with None show ?thesis by simp
  next
    case (Some b)
    then have "getEditorBufferForFile s' n \<noteq> Some b'" if "closeable s b" for b' using found [of b'] that by auto
    then have "closeable s b \<Longrightarrow> getEditorBufferForFile s' n = None"
      by (cases "getEditorBufferForFile s' n") blast+
    with Some found [of b] show ?thesis by (cases "closeable s b") simp_all
  qed
  moreover have "\<forall>b\<in>registered s. ed_buffers s' b = (if closeable s b then None else ed_buffers s b)"
    using s'(4,5) r by auto
  ultimately show ?thesis using s'(1,2) r by blast
qed

theorem closing_keeps_the_rest_witness:
  "\<exists>s'. closeAllEditorBuffersIfClosable example_editor = Some s' \<and> registered s' = {0}"
proof -
  have "{b \<in> registered example_editor. \<not> closeable example_editor b} = {0}"
    by (auto simp: registered_def example_editor_def closeable_def bufferIsCloseable_def fillEmptyEditorBuffer_def)
  with closing_keeps_the_rest [OF example_editor_ok, of "[]"] show ?thesis by auto
qed

text \<open>
  Closing the buffer of one file frees it although it can not be closed, so the table keeps a buffer
  that is no more.
\<close>

lemma closing_one_frees_registered:
  assumes "getEditorBufferForFile s name = Some b" "ed_buffers s b = Some buffer" "\<not> closeable s b"
  shows "\<exists>s'. closeEditorBufferIfCloseable env s name = Some s' \<and> registered s' = registered s \<and> ed_buffers s' b = None"
  using assms
  by (auto simp: closeEditorBufferIfCloseable_def findOrCreateAndLoadEditorBufferForFile_def closeable_def
      freeEditorBuffer_def Let_def registered_def freeMarkersInEditorBuffer_def freeTextSpace_def)

end
