(* ===== verification/MarkerReferences.thy ===== *)
theory MarkerReferences
  imports Editor Lists
begin

text \<open>
  Models the conversions of \<^verbatim>\<open>editor.c\<close> between the references of the analysis, which are positions
  by line and column, and markers, which stay with the text while it is edited.
\<close>

section \<open>From references to markers\<close>

definition skipInvisibleReferences :: "reference list \<Rightarrow> reference list" where
  "skipInvisibleReferences references = dropWhile (\<lambda>r. \<not> isVisibleUsage (ref_usage r)) references"

text \<open>The first reference gets a marker at the offset; the result holds the visible rest.\<close>

fun addMarkerAndAdvance ::
  "editor \<Rightarrow> nat \<Rightarrow> int \<Rightarrow> marker_list \<Rightarrow> reference list \<Rightarrow> (marker_list \<times> reference list \<times> editor) option" where
  "addMarkerAndAdvance s b maxoffset markerList [] = None"
| "addMarkerAndAdvance s b maxoffset markerList (r # references) = do {
     (m, s1) \<leftarrow> newEditorMarker s b maxoffset;
     Some (newEditorMarkerList m (ref_usage r) markerList, skipInvisibleReferences references, s1)
   }"

definition at_file :: "int \<Rightarrow> reference list \<Rightarrow> bool" where
  "at_file file0 references \<longleftrightarrow> references \<noteq> [] \<and> pos_file (ref_position (hd references)) = file0"

text \<open>
  The scan of the text. A reference whose column is not on its line gets the end of the line. The
  loop stops when the references of the file have been used up.
\<close>

definition at_newline ::
  "int \<Rightarrow> nat \<Rightarrow> nat \<Rightarrow> int \<Rightarrow> editor \<Rightarrow> marker_list \<Rightarrow> reference list
    \<Rightarrow> (marker_list \<times> reference list \<times> editor) option" where
  "at_newline file0 b i line s markerList references =
     (if at_file file0 references \<and> line = pos_line (ref_position (hd references))
      then addMarkerAndAdvance s b (int i) markerList references
      else Some (markerList, references, s))"

definition at_position ::
  "nat \<Rightarrow> nat \<Rightarrow> int \<Rightarrow> int \<Rightarrow> editor \<Rightarrow> marker_list \<Rightarrow> reference list
    \<Rightarrow> (marker_list \<times> reference list \<times> editor) option" where
  "at_position b i line col s markerList references =
     (if line = pos_line (ref_position (hd references)) \<and> col = pos_col (ref_position (hd references))
      then addMarkerAndAdvance s b (int i) markerList references
      else Some (markerList, references, s))"

function markers_loop ::
  "int list \<Rightarrow> int \<Rightarrow> nat \<Rightarrow> nat \<Rightarrow> int \<Rightarrow> int \<Rightarrow> editor \<Rightarrow> marker_list \<Rightarrow> reference list
    \<Rightarrow> (marker_list \<times> reference list \<times> editor) option" where
  "markers_loop str file0 b i line col s markerList references =
     (if i < length str then
        if \<not> at_file file0 references then Some (markerList, references, s)
        else do {
          (markerList1, references1, s1) \<leftarrow> at_position b i line col s markerList references;
          if str ! i = 10 then do {
            (markerList2, references2, s2) \<leftarrow> at_newline file0 b i line s1 markerList1 references1;
            markers_loop str file0 b (i + 1) (line + 1) 0 s2 markerList2 references2
          }
          else markers_loop str file0 b (i + 1) line (col + 1) s1 markerList1 references1
        }
      else Some (markerList, references, s))"
  by pat_completeness auto
termination by (relation "measure (\<lambda>(str, file0, b, i, line, col, s, markerList, references). length str - i)") auto

declare markers_loop.simps [simp del]

function beyond_loop ::
  "int \<Rightarrow> nat \<Rightarrow> int \<Rightarrow> editor \<Rightarrow> marker_list \<Rightarrow> reference list \<Rightarrow> (marker_list \<times> reference list \<times> editor) option" where
  "beyond_loop file0 b maxoffset s markerList references =
     (if at_file file0 references then do {
        (markerList1, references1, s1) \<leftarrow> addMarkerAndAdvance s b maxoffset markerList references;
        beyond_loop file0 b maxoffset s1 markerList1 references1
      } else Some (markerList, references, s))"
  by pat_completeness auto

lemma addMarkerAndAdvance_shorter:
  "addMarkerAndAdvance s b x markerList references = Some (l, references', s') \<Longrightarrow> length references' < length references"
  by (cases references)
    (auto simp: bind_eq_Some_iff skipInvisibleReferences_def le_imp_less_Suc length_dropWhile_le)

termination beyond_loop
  by (relation "measure (\<lambda>(file0, b, maxoffset, s, markerList, references). length references)")
    (auto dest: addMarkerAndAdvance_shorter)

declare beyond_loop.simps [simp del]

text \<open>One round: the references of the file of the first reference.\<close>

definition convert_file ::
  "environment \<Rightarrow> editor \<Rightarrow> marker_list \<Rightarrow> reference list \<Rightarrow> (marker_list \<times> reference list \<times> editor) option" where
  "convert_file env s markerList references = do {
     let file0 = pos_file (ref_position (hd references));
     fileItem \<leftarrow> (if file0 < 0 then None else getFileItemWithFileNumber (ed_fileTable s) (nat file0));
     (buffer, s1) \<leftarrow> findOrCreateAndLoadEditorBufferForFile env s (fi_name fileItem);
     case buffer of
       None \<Rightarrow> Some (markerList, dropWhile (\<lambda>r. file0 = pos_file (ref_position r)) references, s1)
     | Some b \<Rightarrow> do {
         str \<leftarrow> getTextInEditorBuffer s1 b;
         let maxoffset = (if int (length str) - 1 < 0 then 0 else int (length str) - 1);
         (markerList1, references1, s2) \<leftarrow> markers_loop str file0 b 0 1 0 s1 markerList references;
         beyond_loop file0 b maxoffset s2 markerList1 references1
       }
   }"

text \<open>Every round uses up a reference.\<close>

lemma markers_loop_shorter:
  "markers_loop str file0 b i line col s markerList references = Some (l, references', s') \<Longrightarrow>
   references' = references \<or> length references' < length references"
proof (induction str file0 b i line col s markerList references rule: markers_loop.induct)
  case (1 str file0 b i line col s markerList references)
  have pos: "references1 = references \<or> length references1 < length references"
    if "at_position b i line col s markerList references = Some (l1, references1, s1)" for l1 references1 s1
    using that by (auto simp: at_position_def split: if_splits dest: addMarkerAndAdvance_shorter)
  have nl: "references2 = references1 \<or> length references2 < length references1"
    if "at_newline file0 b i line s1 l1 references1 = Some (l2, references2, s2)" for l1 references1 s1 l2 references2 s2
    using that by (auto simp: at_newline_def split: if_splits dest: addMarkerAndAdvance_shorter)
  show ?case
  proof (cases "i < length str \<and> at_file file0 references")
    case False
    then show ?thesis using 1(3) by (subst (asm) markers_loop.simps) (auto split: if_splits)
  next
    case True
    then obtain l1 references1 s1 where p: "at_position b i line col s markerList references = Some (l1, references1, s1)"
      and rest: "(if str ! i = 10 then Option.bind (at_newline file0 b i line s1 l1 references1)
          (\<lambda>(l2, references2, s2). markers_loop str file0 b (i + 1) (line + 1) 0 s2 l2 references2)
        else markers_loop str file0 b (i + 1) line (col + 1) s1 l1 references1) = Some (l, references', s')"
      using 1(3) by (subst (asm) markers_loop.simps) (auto simp: bind_eq_Some_iff simp del: One_nat_def add_Suc_right)
    have "references' = references1 \<or> length references' < length references1"
    proof (cases "str ! i = 10")
      case c: True
      with rest obtain l2 references2 s2 where n: "at_newline file0 b i line s1 l1 references1 = Some (l2, references2, s2)"
        and r: "markers_loop str file0 b (i + 1) (line + 1) 0 s2 l2 references2 = Some (l, references', s')"
        by (auto simp: bind_eq_Some_iff)
      from 1(1) [OF _ _ p refl refl c n refl refl r] nl [OF n] True show ?thesis by auto
    next
      case c: False
      with rest have r: "markers_loop str file0 b (i + 1) line (col + 1) s1 l1 references1 = Some (l, references', s')" by simp
      from 1(2) [OF _ _ p refl refl c r] True show ?thesis by auto
    qed
    with pos [OF p] show ?thesis by auto
  qed
qed

lemma beyond_loop_shorter:
  "beyond_loop file0 b maxoffset s markerList references = Some (l, references', s') \<Longrightarrow>
   \<not> at_file file0 references' \<and> (references' = references \<or> length references' < length references)"
proof (induction file0 b maxoffset s markerList references rule: beyond_loop.induct)
  case (1 file0 b maxoffset s markerList references)
  show ?case
  proof (cases "at_file file0 references")
    case False
    then show ?thesis using 1(2) by (subst (asm) beyond_loop.simps) auto
  next
    case True
    with 1(2) obtain l1 references1 s1 where a: "addMarkerAndAdvance s b maxoffset markerList references = Some (l1, references1, s1)"
      and r: "beyond_loop file0 b maxoffset s1 l1 references1 = Some (l, references', s')"
      by (subst (asm) beyond_loop.simps) (auto simp: bind_eq_Some_iff)
    from 1(1) [OF True a refl refl r] addMarkerAndAdvance_shorter [OF a] show ?thesis by auto
  qed
qed

lemma convert_file_shorter:
  assumes "convert_file env s markerList references = Some (l, references', s')" "references \<noteq> []"
  shows "length references' < length references"
proof -
  let ?f = "pos_file (ref_position (hd references))"
  have at: "at_file ?f references" using assms(2) by (simp add: at_file_def)
  have "length (dropWhile (\<lambda>r. ?f = pos_file (ref_position r)) references) < length references"
    using assms(2) by (cases references) (simp_all add: le_imp_less_Suc length_dropWhile_le)
  then show ?thesis
    using assms(1) at
    by (auto simp: convert_file_def bind_eq_Some_iff Let_def split: option.splits if_splits
        dest!: markers_loop_shorter beyond_loop_shorter)
qed

function convert_loop ::
  "environment \<Rightarrow> editor \<Rightarrow> marker_list \<Rightarrow> reference list \<Rightarrow> (marker_list \<times> editor) option" where
  "convert_loop env s markerList references =
     (let visible = skipInvisibleReferences references in
      if visible = [] then Some (markerList, s)
      else do {
        (markerList1, references1, s1) \<leftarrow> convert_file env s markerList visible;
        convert_loop env s1 markerList1 references1
      })"
  by pat_completeness auto
termination
proof (relation "measure (\<lambda>(env, s, markerList, references). length references)", goal_cases)
  case 1
  show ?case by simp
next
  case (2 env s markerList references visible x markerList1 y references1 s1)
  then have "length references1 < length visible"
    using convert_file_shorter by (metis prod.inject)
  also have "length visible \<le> length references"
    using 2 by (simp add: skipInvisibleReferences_def length_dropWhile_le)
  finally show ?case by simp
qed

declare convert_loop.simps [simp del]

definition convertReferencesToEditorMarkers ::
  "environment \<Rightarrow> editor \<Rightarrow> reference list \<Rightarrow> (marker_list \<times> editor) option" where
  "convertReferencesToEditorMarkers env s references =
     map_option (\<lambda>(markerList, s1). (LIST_REVERSE markerList, s1)) (convert_loop env s [] references)"

section \<open>From markers to references\<close>

definition in_buffer :: "editor \<Rightarrow> nat \<Rightarrow> marker_list \<Rightarrow> bool" where
  "in_buffer s b markers \<longleftrightarrow> markers \<noteq> [] \<and> map_option em_buffer (ed_markers s (fst (hd markers))) = Some b"

text \<open>
  The scan of the text of a buffer: the offset of the first marker is looked for, and a marker whose
  offset has been passed is never found. The result holds the line the scan ended at.
\<close>

function references_scan ::
  "editor \<Rightarrow> nat \<Rightarrow> int \<Rightarrow> int list \<Rightarrow> nat \<Rightarrow> int \<Rightarrow> int \<Rightarrow> marker_list \<Rightarrow> reference list
    \<Rightarrow> (int \<times> marker_list \<times> reference list) option" where
  "references_scan s b fileNumber str i line col markers references =
     (if i < length str then do {
        marker \<leftarrow> ed_markers s (fst (hd markers));
        let found = (em_offset marker = int i);
        let references1 = (if found then newReference (Position fileNumber line col) (snd (hd markers)) references
                           else references);
        let markers1 = (if found then tl markers else markers);
        if found \<and> \<not> in_buffer s b markers1 then Some (line, markers1, references1)
        else if str ! i = 10 then references_scan s b fileNumber str (i + 1) (line + 1) 0 markers1 references1
        else references_scan s b fileNumber str (i + 1) line (col + 1) markers1 references1
      }
      else Some (line, markers, references))"
  by pat_completeness auto
termination by (relation "measure (\<lambda>(s, b, fileNumber, str, i, line, col, markers, references). length str - i)") auto

declare references_scan.simps [simp del]

fun references_beyond ::
  "editor \<Rightarrow> nat \<Rightarrow> int \<Rightarrow> int \<Rightarrow> marker_list \<Rightarrow> reference list \<Rightarrow> marker_list \<times> reference list" where
  "references_beyond s b fileNumber line [] references = ([], references)"
| "references_beyond s b fileNumber line (m # ms) references =
     (if in_buffer s b (m # ms)
      then references_beyond s b fileNumber line ms (newReference (Position fileNumber line 0) (snd m) references)
      else (m # ms, references))"

text \<open>One round: the markers of the buffer of the first marker.\<close>

definition references_of_buffer :: "editor \<Rightarrow> marker_list \<Rightarrow> reference list \<Rightarrow> (marker_list \<times> reference list) option" where
  "references_of_buffer s markers references = do {
     marker \<leftarrow> ed_markers s (fst (hd markers));
     let b = em_buffer marker;
     buffer \<leftarrow> ed_buffers s b;
     (line, markers1, references1) \<leftarrow>
       references_scan s b (eb_fileNumber buffer) (eb_text buffer) 0 1 0 markers references;
     Some (references_beyond s b (eb_fileNumber buffer) line markers1 references1)
   }"

lemma references_scan_shorter:
  "references_scan s b fileNumber str i line col markers references = Some (l, markers', references') \<Longrightarrow>
   markers' = markers \<or> length markers' < length markers \<or> markers = []"
proof (induction s b fileNumber str i line col markers references rule: references_scan.induct)
  case (1 s b fileNumber str i line col markers references)
  show ?case
  proof (cases "i < length str")
    case False
    then show ?thesis using 1(3) by (subst (asm) references_scan.simps) simp
  next
    case True
    from 1(3) True obtain marker where marker: "ed_markers s (fst (hd markers)) = Some marker"
      by (subst (asm) references_scan.simps) (auto simp: bind_eq_Some_iff)
    let ?found = "em_offset marker = int i"
    let ?markers1 = "if ?found then tl markers else markers"
    let ?references1 = "if ?found then newReference (Position fileNumber line col) (snd (hd markers)) references
                           else references"
    have "markers' = ?markers1 \<or> length markers' < length ?markers1 \<or> ?markers1 = []"
      using 1(1) [OF True marker refl refl refl] 1(2) [OF True marker refl refl refl] 1(3) True marker
      by (subst (asm) references_scan.simps) (auto simp: Let_def split: if_splits)
    moreover have "length ?markers1 < length markers \<or> ?markers1 = markers" by (cases markers) auto
    moreover have "markers' = []" if "?markers1 = []" "?found"
      using 1(3) True marker that by (subst (asm) references_scan.simps) (auto simp: Let_def in_buffer_def)
    ultimately show ?thesis by (cases markers) (auto split: if_splits)
  qed
qed

lemma references_beyond_shorter:
  "length (fst (references_beyond s b fileNumber line markers references)) \<le> length markers
   \<and> (in_buffer s b markers \<longrightarrow> length (fst (references_beyond s b fileNumber line markers references)) < length markers)"
  by (induction s b fileNumber line markers references rule: references_beyond.induct) (auto simp: in_buffer_def)

lemma references_of_buffer_shorter:
  assumes "references_of_buffer s markers references = Some (markers', references')" "markers \<noteq> []"
  shows "length markers' < length markers"
proof -
  from assms(1) obtain marker where m1: "ed_markers s (fst (hd markers)) = Some marker"
    by (auto simp: references_of_buffer_def bind_eq_Some_iff)
  with assms(1) obtain buffer where b: "ed_buffers s (em_buffer marker) = Some buffer"
    by (auto simp: references_of_buffer_def bind_eq_Some_iff Let_def)
  let ?scan = "references_scan s (em_buffer marker) (eb_fileNumber buffer) (eb_text buffer) 0 1 0 markers references"
  from assms(1) m1 b obtain line markers1 references1 where "?scan = Some (line, markers1, references1)"
    by (cases ?scan) (auto simp: references_of_buffer_def)
  with assms(1) m1 b have m: "ed_markers s (fst (hd markers)) = Some marker" "?scan = Some (line, markers1, references1)"
    "references_beyond s (em_buffer marker) (eb_fileNumber buffer) line markers1 references1 = (markers', references')"
    by (simp_all add: references_of_buffer_def)
  have "in_buffer s (em_buffer marker) markers" using m(1) assms(2) by (simp add: in_buffer_def)
  with references_scan_shorter [OF m(2)] assms(2) m(3)
    references_beyond_shorter [of s "em_buffer marker" "eb_fileNumber buffer" line markers1 references1]
  show ?thesis by auto
qed

function references_loop :: "editor \<Rightarrow> marker_list \<Rightarrow> reference list \<Rightarrow> reference list option" where
  "references_loop s markers references =
     (if markers = [] then Some references
      else do {
        (markers1, references1) \<leftarrow> references_of_buffer s markers references;
        references_loop s markers1 references1
      })"
  by pat_completeness auto
termination
  by (relation "measure (\<lambda>(s, markers, references). length markers)") (auto dest: references_of_buffer_shorter)

declare references_loop.simps [simp del]

definition referencePositionComparer :: "reference \<Rightarrow> reference \<Rightarrow> bool" where
  "referencePositionComparer r1 r2 = positionIsLessThan (ref_position r1) (ref_position r2)"

text \<open>The references, and the list of markers, sorted.\<close>

definition convertEditorMarkersToReferences :: "editor \<Rightarrow> marker_list \<Rightarrow> (reference list \<times> marker_list) option" where
  "convertEditorMarkersToReferences s markers = do {
     let markers1 = LIST_MERGE_SORT (editorMarkerListBefore s) markers;
     references \<leftarrow> references_loop s markers1 [];
     Some (LIST_MERGE_SORT referencePositionComparer references, markers1)
   }"

section \<open>Positions in a text\<close>

text \<open>The line and the column of an offset, as a marker there has them.\<close>

definition text_position :: "int list \<Rightarrow> nat \<Rightarrow> int \<times> int" where
  "text_position str i = (let (line, lineStart) = position_loop str i 0 1 0 in (line, int i - int lineStart))"

lemma position_loop_Suc:
  "i \<le> t \<Longrightarrow> position_loop str (Suc t) i line st
     = (if str ! t = 10 then (fst (position_loop str t i line st) + 1, Suc t) else position_loop str t i line st)"
proof (induction str t i line st rule: position_loop.induct)
  case (1 str t i line st)
  show ?case
  proof (cases "i < t")
    case True
    then show ?thesis using 1(1,2) by (subst (1 2 3) position_loop.simps) simp
  next
    case False
    then have "i = t" using 1(3) by simp
    then show ?thesis by (simp add: position_loop.simps)
  qed
qed

lemma text_position_0 [simp]: "text_position str 0 = (1, 0)"
  by (simp add: text_position_def position_loop.simps)

lemma text_position_Suc [simp]:
  "text_position str (Suc i) =
     (if str ! i = 10 then (fst (text_position str i) + 1, 0)
      else (fst (text_position str i), snd (text_position str i) + 1))"
  by (simp add: text_position_def position_loop_Suc split: prod.splits)

lemma text_position_col: "0 \<le> snd (text_position str i)"
  by (induction i) auto

text \<open>Positions increase with the offset, and the line does so over a newline.\<close>

definition position_before :: "int \<times> int \<Rightarrow> int \<times> int \<Rightarrow> bool" where
  "position_before p q \<longleftrightarrow> fst p < fst q \<or> fst p = fst q \<and> snd p < snd q"

lemma position_before_trans: "position_before p q \<Longrightarrow> position_before q r \<Longrightarrow> position_before p r"
  by (auto simp: position_before_def)

lemma text_position_Suc_before: "position_before (text_position str i) (text_position str (Suc i))"
  by (simp add: position_before_def)

lemma text_position_mono: "i < k \<Longrightarrow> position_before (text_position str i) (text_position str k)"
proof (induction k)
  case (Suc k)
  then show ?case
    using text_position_Suc_before [of str k] position_before_trans by (cases "i = k") (auto simp: less_Suc_eq simp del: text_position_Suc)
qed simp

lemma text_position_inj: "text_position str i = text_position str k \<Longrightarrow> i = k"
  using text_position_mono [of i k str] text_position_mono [of k i str]
  by (cases i k rule: linorder_cases) (auto simp: position_before_def)

lemma text_position_newline:
  assumes "str ! i = 10" "i < k"
  shows "fst (text_position str i) < fst (text_position str k)"
proof -
  have "fst (text_position str (Suc i)) = fst (text_position str i) + 1" using assms(1) by simp
  moreover have "fst (text_position str (Suc i)) \<le> fst (text_position str k)"
    using text_position_mono [of "Suc i" k str] assms(2) by (cases "Suc i = k") (auto simp: position_before_def simp del: text_position_Suc)
  ultimately show ?thesis by simp
qed

section \<open>The way there\<close>

text \<open>References at offsets of a text, and the markers there.\<close>

definition reference_at :: "int \<Rightarrow> int list \<Rightarrow> nat \<times> usage \<Rightarrow> reference" where
  "reference_at file0 str ku =
     \<lparr>ref_position = Position file0 (fst (text_position str (fst ku))) (snd (text_position str (fst ku))),
      ref_usage = snd ku\<rparr>"

definition ascending :: "nat \<Rightarrow> nat \<Rightarrow> (nat \<times> usage) list \<Rightarrow> bool" where
  "ascending i n kus \<longleftrightarrow>
     sorted_wrt (<) (map fst kus) \<and> (\<forall>ku\<in>set kus. i \<le> fst ku \<and> fst ku < n \<and> isVisibleUsage (snd ku))"

definition marked_at :: "editor \<Rightarrow> nat \<Rightarrow> marker_list \<Rightarrow> (nat \<times> usage) list \<Rightarrow> bool" where
  "marked_at s b ms kus \<longleftrightarrow>
     list_all2 (\<lambda>m ku. ed_markers s (fst m) = Some \<lparr>em_buffer = b, em_offset = int (fst ku)\<rparr> \<and> snd m = snd ku) ms kus"

text \<open>What making markers leaves as it is.\<close>

definition only_markers :: "editor \<Rightarrow> editor \<Rightarrow> bool" where
  "only_markers s s' \<longleftrightarrow>
     editor_ok s' \<and> text_of s' = text_of s \<and> ed_nextMarker s \<le> ed_nextMarker s'
     \<and> (\<forall>m<ed_nextMarker s. ed_markers s' m = ed_markers s m)
     \<and> (\<forall>b. map_option eb_fileNumber (ed_buffers s' b) = map_option eb_fileNumber (ed_buffers s b))"

lemma only_markers_refl: "editor_ok s \<Longrightarrow> only_markers s s"
  by (simp add: only_markers_def)

lemma only_markers_trans: "only_markers s s1 \<Longrightarrow> only_markers s1 s2 \<Longrightarrow> only_markers s s2"
  by (auto simp: only_markers_def)

lemma ascending_tl: "ascending i n (ku # kus) \<Longrightarrow> ascending (Suc (fst ku)) n kus"
  by (auto simp: ascending_def Suc_le_eq)

lemma skipInvisible_visible: "ascending i n kus \<Longrightarrow> skipInvisibleReferences (map (reference_at file0 str) kus) = map (reference_at file0 str) kus"
  by (cases kus) (auto simp: skipInvisibleReferences_def ascending_def reference_at_def)

lemma addMarkerAndAdvance_law:
  assumes "editor_ok s" "text_of s b = Some str" "ascending i (length str) (ku # kus)" "fst ku = i"
  shows "\<exists>m s'. addMarkerAndAdvance s b (int i) l (map (reference_at file0 str) (ku # kus))
      = Some (m # l, map (reference_at file0 str) kus, s')
    \<and> only_markers s s' \<and> marked_at s' b [m] [ku] \<and> fst m < ed_nextMarker s'"
proof -
  have "i \<le> length str" using assms(3,4) by (auto simp: ascending_def)
  with newEditorMarker_law [OF assms(1,2), of "int i"] obtain s' where
    s': "newEditorMarker s b (int i) = Some (ed_nextMarker s, s')" "editor_ok s'" "text_of s' = text_of s"
      "ed_markers s' = (ed_markers s)(ed_nextMarker s \<mapsto> \<lparr>em_buffer = b, em_offset = int i\<rparr>)"
      "ed_nextMarker s' = ed_nextMarker s + 1"
      "\<forall>b'. map_option eb_fileNumber (ed_buffers s' b') = map_option eb_fileNumber (ed_buffers s b')" by auto
  have "skipInvisibleReferences (map (reference_at file0 str) kus) = map (reference_at file0 str) kus"
    by (rule skipInvisible_visible [OF ascending_tl [OF assms(3)]])
  then have "addMarkerAndAdvance s b (int i) l (map (reference_at file0 str) (ku # kus))
      = Some ((ed_nextMarker s, snd ku) # l, map (reference_at file0 str) kus, s')"
    using s'(1) by (simp add: newEditorMarkerList_def reference_at_def)
  moreover have "only_markers s s'" using s' by (simp add: only_markers_def)
  ultimately show ?thesis using s'(4,5) assms(4) by (auto simp: marked_at_def)
qed

lemma marked_at_later: "marked_at s b ms kus \<Longrightarrow> \<forall>m\<in>set ms. fst m < ed_nextMarker s \<Longrightarrow> only_markers s s' \<Longrightarrow> marked_at s' b ms kus"
  by (auto simp: marked_at_def only_markers_def list_all2_conv_all_nth)

lemma markers_loop_law:
  assumes "editor_ok s" "text_of s b = Some str" "ascending i (length str) kus" "(line, col) = text_position str i"
  shows "\<exists>ms s'. markers_loop str file0 b i line col s l (map (reference_at file0 str) kus) = Some (rev ms @ l, [], s')
    \<and> only_markers s s' \<and> marked_at s' b ms kus \<and> (\<forall>m\<in>set ms. fst m < ed_nextMarker s')"
  using assms
proof (induction "length str - i" arbitrary: i line col s l kus)
  case 0
  then have "kus = []" by (cases kus) (auto simp: ascending_def)
  then show ?case
    using 0 only_markers_refl [of s] by (intro exI [of _ "[]"] exI [of _ s]) (subst markers_loop.simps, simp add: marked_at_def)
next
  case (Suc n)
  then have i: "i < length str" by simp
  show ?case
  proof (cases kus)
    case Nil
    then show ?thesis
      using Suc.prems(1) only_markers_refl [of s] i
      by (intro exI [of _ "[]"] exI [of _ s]) (subst markers_loop.simps, simp add: marked_at_def at_file_def)
  next
    case (Cons ku kus')
    let ?refs = "map (reference_at file0 str)"
    have at: "at_file file0 (?refs kus)" using Cons by (simp add: at_file_def reference_at_def)
    have hd: "ref_position (hd (?refs kus)) = Position file0 (fst (text_position str (fst ku))) (snd (text_position str (fst ku)))"
      using Cons by (simp add: reference_at_def)
    have lc: "line = fst (text_position str i)" "col = snd (text_position str i)" using Suc.prems(4) by (metis fst_conv snd_conv)+
    obtain ms1 kus1 s1 where pos: "at_position b i line col s l (?refs kus) = Some (rev ms1 @ l, ?refs kus1, s1)"
      "only_markers s s1" "marked_at s1 b ms1 (take (length ms1) kus)" "kus = take (length ms1) kus @ kus1"
      "\<forall>m\<in>set ms1. fst m < ed_nextMarker s1" "ascending (Suc i) (length str) kus1"
    proof (cases "fst ku = i")
      case True
      then have "at_position b i line col s l (?refs kus) = addMarkerAndAdvance s b (int i) l (?refs kus)"
        using hd lc by (simp add: at_position_def)
      with addMarkerAndAdvance_law [OF Suc.prems(1,2), of i ku kus' l file0] True Suc.prems(3) Cons obtain m s1 where
        "at_position b i line col s l (?refs kus) = Some (m # l, ?refs kus', s1)"
        "only_markers s s1" "marked_at s1 b [m] [ku]" "fst m < ed_nextMarker s1" by auto
      moreover have "ascending (Suc i) (length str) kus'" using Suc.prems(3) ascending_tl True unfolding Cons by blast
      ultimately show ?thesis using that [of "[m]" kus' s1] Cons by simp
    next
      case False
      then have "text_position str (fst ku) \<noteq> text_position str i" using text_position_inj by blast
      then have "at_position b i line col s l (?refs kus) = Some (l, ?refs kus, s)"
        using hd lc by (auto simp: at_position_def prod_eq_iff)
      moreover have "ascending (Suc i) (length str) kus"
        using Suc.prems(3) False Cons by (auto simp: ascending_def Suc_le_eq order_le_less)
      ultimately show ?thesis
        using that [of "[]" kus s] only_markers_refl [OF Suc.prems(1)] by (simp add: marked_at_def)
    qed
    have ok1: "editor_ok s1" "text_of s1 b = Some str" using pos(2) Suc.prems(2) by (auto simp: only_markers_def)
    have nl: "at_newline file0 b i line s1 (rev ms1 @ l) (?refs kus1) = Some (rev ms1 @ l, ?refs kus1, s1)" if "str ! i = 10"
    proof (cases kus1)
      case Nil
      then show ?thesis by (simp add: at_newline_def at_file_def)
    next
      case (Cons ku1 kus2)
      then have "i < fst ku1" using pos(6) by (simp add: ascending_def)
      from text_position_newline [OF that this] lc Cons show ?thesis by (simp add: at_newline_def reference_at_def)
    qed
    let ?next = "text_position str (Suc i)"
    obtain ms2 s2 where rest: "markers_loop str file0 b (Suc i) (fst ?next) (snd ?next) s1 (rev ms1 @ l) (?refs kus1)
        = Some (rev ms2 @ rev ms1 @ l, [], s2)"
      "only_markers s1 s2" "marked_at s2 b ms2 kus1" "\<forall>m\<in>set ms2. fst m < ed_nextMarker s2"
    proof -
      have "n = length str - Suc i" "(fst ?next, snd ?next) = text_position str (Suc i)" using Suc.hyps(2) by (auto simp del: text_position_Suc)
      from Suc.hyps(1) [OF this(1) ok1 pos(6) this(2), of "rev ms1 @ l"] that show thesis by blast
    qed
    have "markers_loop str file0 b i line col s l (?refs kus) = Some (rev ms2 @ rev ms1 @ l, [], s2)"
    proof (cases "str ! i = 10")
      case True
      then have "fst ?next = line + 1" "snd ?next = 0" using lc by simp_all
      then show ?thesis
        using rest(1) nl [OF True] by (subst markers_loop.simps) (simp only: i at True pos(1) if_True not_True_eq_False
          simp_thms if_False bind.simps prod.case Suc_eq_plus1 [symmetric])
    next
      case False
      then have "fst ?next = line" "snd ?next = col + 1" using lc by simp_all
      then show ?thesis
        using rest(1) by (subst markers_loop.simps) (simp only: i at False pos(1) if_True not_True_eq_False
          simp_thms if_False bind.simps prod.case Suc_eq_plus1 [symmetric])
    qed
    moreover have "marked_at s2 b (ms1 @ ms2) kus"
      by (subst pos(4), unfold marked_at_def, rule list_all2_appendI)
        (use marked_at_later [OF pos(3,5) rest(2)] rest(3) in \<open>simp_all add: marked_at_def\<close>)
    moreover have "\<forall>m\<in>set (ms1 @ ms2). fst m < ed_nextMarker s2"
      using pos(5) rest(2,4) by (auto simp: only_markers_def)
    ultimately show ?thesis
      using only_markers_trans [OF pos(2) rest(2)] by (intro exI [of _ "ms1 @ ms2"] exI [of _ s2]) simp
  qed
qed

section \<open>The way back\<close>

context list_order
begin

lemma ordered_unique: "sorted_wrt lt xs \<Longrightarrow> ordered ys \<Longrightarrow> mset ys = mset xs \<Longrightarrow> ys = xs"
proof (induction xs arbitrary: ys)
  case (Cons x xs)
  then obtain y ys' where ys: "ys = y # ys'" by (cases ys) auto
  have "y = x"
  proof (rule ccontr)
    assume "y \<noteq> x"
    then have "y \<in> set xs" "x \<in> set ys'"
      using Cons.prems(3) ys by (metis list.set_intros(1) set_ConsD set_mset_mset)+
    then have "lt x y" "\<not> lt x y" using Cons.prems(1,2) ys by auto
    then show False by simp
  qed
  then show ?case using Cons ys by simp
qed simp

lemma LIST_MERGE_SORT_strict: "sorted_wrt lt xs \<Longrightarrow> mset ys = mset xs \<Longrightarrow> LIST_MERGE_SORT lt ys = xs"
  using ordered_unique LIST_MERGE_SORT_ordered by simp

end

lemma referencePositionComparer_eq: "referencePositionComparer = referenceLess"
  by (simp add: fun_eq_iff referencePositionComparer_def referenceLess_def)

interpretation converted_order: list_order referencePositionComparer
  unfolding referencePositionComparer_eq by (rule reference_order.list_order_axioms)

interpretation marker_order: list_order "editorMarkerListBefore s" for s
  by unfold_locales (auto simp: editorMarkerListBefore_def editorMarkerBefore_def split: if_splits)

lemma references_scan_law:
  "marked_at s b ms kus \<Longrightarrow> ascending i (length str) kus \<Longrightarrow> kus \<noteq> [] \<Longrightarrow> (line, col) = text_position str i \<Longrightarrow>
   \<exists>line'. references_scan s b f str i line col ms refs = Some (line', [], rev (map (reference_at f str) kus) @ refs)"
proof (induction "length str - i" arbitrary: i line col ms kus refs)
  case 0
  then show ?case by (cases kus) (auto simp: ascending_def)
next
  case (Suc n)
  obtain ku kus' where kus: "kus = ku # kus'" using Suc.prems(3) by (cases kus) auto
  with Suc.prems(1) obtain m ms' where ms: "ms = m # ms'" "marked_at s b ms' kus'"
    "ed_markers s (fst m) = Some \<lparr>em_buffer = b, em_offset = int (fst ku)\<rparr>" "snd m = snd ku"
    by (auto simp: marked_at_def list_all2_Cons2)
  have i: "i < length str" using Suc.prems(2) kus by (auto simp: ascending_def)
  have lc: "line = fst (text_position str i)" "col = snd (text_position str i)" using Suc.prems(4) by (metis fst_conv snd_conv)+
  let ?next = "text_position str (Suc i)"
  have step: "references_scan s b f str i line col ms refs
      = references_scan s b f str (Suc i) (fst ?next) (snd ?next) ms1 refs1"
    if "references_scan s b f str i line col ms refs
      = (if str ! i = 10 then references_scan s b f str (i + 1) (line + 1) 0 ms1 refs1
         else references_scan s b f str (i + 1) line (col + 1) ms1 refs1)" for ms1 refs1
    using that lc by simp
  have n: "n = length str - Suc i" "(fst ?next, snd ?next) = text_position str (Suc i)"
    using Suc.hyps(2) by (auto simp del: text_position_Suc)
  show ?case
  proof (cases "fst ku = i")
    case False
    then have asc: "ascending (Suc i) (length str) kus"
      using Suc.prems(2) kus by (auto simp: ascending_def Suc_le_eq order_le_less)
    have "references_scan s b f str i line col ms refs
      = (if str ! i = 10 then references_scan s b f str (i + 1) (line + 1) 0 ms refs
         else references_scan s b f str (i + 1) line (col + 1) ms refs)"
      using i ms(1,3) False by (subst references_scan.simps) simp
    from step [OF this] Suc.hyps(1) [OF n(1) Suc.prems(1) asc Suc.prems(3) n(2)] show ?thesis by simp
  next
    case True
    have r: "newReference (Position f line col) (snd m) refs = reference_at f str ku # refs"
      using lc True ms(4) by (simp add: newReference_def reference_at_def)
    show ?thesis
    proof (cases "kus' = []")
      case last: True
      then have "ms' = []" using ms(2) by (simp add: marked_at_def)
      then have "references_scan s b f str i line col ms refs = Some (line, [], reference_at f str ku # refs)"
        using i ms(1,3) True r by (subst references_scan.simps) (simp add: in_buffer_def)
      then show ?thesis using kus last by simp
    next
      case False
      then have "in_buffer s b ms'" using ms(2) by (cases kus') (auto simp: in_buffer_def marked_at_def list_all2_Cons2)
      then have "references_scan s b f str i line col ms refs
        = (if str ! i = 10 then references_scan s b f str (i + 1) (line + 1) 0 ms' (reference_at f str ku # refs)
           else references_scan s b f str (i + 1) line (col + 1) ms' (reference_at f str ku # refs))"
        using i ms(1,3) True r by (subst references_scan.simps) simp
      moreover have "ascending (Suc i) (length str) kus'" using ascending_tl [of i "length str" ku kus'] Suc.prems(2) True kus by simp
      ultimately show ?thesis
        using step Suc.hyps(1) [OF n(1) ms(2) _ False n(2), of "reference_at f str ku # refs"] kus by simp
    qed
  qed
qed

lemma reference_at_before:
  "fst ku < fst ku' \<Longrightarrow> referencePositionComparer (reference_at f str ku) (reference_at f str ku')"
  using text_position_mono [of "fst ku" "fst ku'" str]
  unfolding referencePositionComparer_def positionIsLessThan_def
  by (auto simp: reference_at_def position_before_def)

lemma references_sorted:
  "ascending i n kus \<Longrightarrow> sorted_wrt referencePositionComparer (map (reference_at f str) kus)"
  by (auto simp: ascending_def sorted_wrt_map intro: sorted_wrt_mono_rel [rotated] reference_at_before)

lemma list_all2_set1: "list_all2 P xs ys \<Longrightarrow> \<forall>x\<in>set xs. \<exists>y\<in>set ys. P x y"
  by (induction rule: list_all2_induct) auto

lemma markers_sorted:
  "marked_at s b ms kus \<Longrightarrow> ascending i n kus \<Longrightarrow> sorted_wrt (editorMarkerListBefore s) ms"
proof (induction ms arbitrary: kus i)
  case (Cons m ms)
  then obtain ku kus' where kus: "kus = ku # kus'" by (auto simp: marked_at_def list_all2_Cons1)
  have "editorMarkerListBefore s m m'" if m': "m' \<in> set ms" for m'
  proof -
    have l: "list_all2 (\<lambda>m ku. ed_markers s (fst m) = Some \<lparr>em_buffer = b, em_offset = int (fst ku)\<rparr> \<and> snd m = snd ku) ms kus'"
      using Cons.prems(1) kus by (simp add: marked_at_def)
    from list_all2_set1 [OF l] m' obtain ku' where "ku' \<in> set kus'"
      "ed_markers s (fst m') = Some \<lparr>em_buffer = b, em_offset = int (fst ku')\<rparr>" by auto
    then show ?thesis
      using Cons.prems kus
      by (auto simp: ascending_def marked_at_def editorMarkerListBefore_def editorMarkerBefore_def marker_key_def)
  qed
  moreover have "sorted_wrt (editorMarkerListBefore s) ms"
    using Cons.IH [of kus' "Suc (fst ku)"] Cons.prems kus ascending_tl [of i n ku kus'] by (auto simp: marked_at_def)
  ultimately show ?case by simp
qed simp

lemma convertEditorMarkersToReferences_law:
  assumes "marked_at s b ms kus" "ascending 0 (length str) kus" "ed_buffers s b = Some buffer"
    and "eb_text buffer = str" "mset ms' = mset ms"
  shows "convertEditorMarkersToReferences s ms' = Some (map (reference_at (eb_fileNumber buffer) str) kus, ms)"
proof -
  let ?refs = "map (reference_at (eb_fileNumber buffer) str) kus"
  have sort: "LIST_MERGE_SORT (editorMarkerListBefore s) ms' = ms"
    by (rule marker_order.LIST_MERGE_SORT_strict [OF markers_sorted [OF assms(1,2)] assms(5)])
  have loop: "references_loop s ms [] = Some (rev ?refs)"
  proof (cases kus)
    case Nil
    then show ?thesis using assms(1) by (simp add: marked_at_def references_loop.simps)
  next
    case (Cons ku kus')
    with assms(1) obtain m ms1 where m: "ms = m # ms1" "ed_markers s (fst m) = Some \<lparr>em_buffer = b, em_offset = int (fst ku)\<rparr>"
      by (auto simp: marked_at_def list_all2_Cons2)
    from references_scan_law [OF assms(1,2), of 1 0 "eb_fileNumber buffer" "[]"] Cons obtain line' where
      "references_scan s b (eb_fileNumber buffer) str 0 1 0 ms [] = Some (line', [], rev ?refs)" by auto
    then have "references_of_buffer s ms [] = Some ([], rev ?refs)"
      using m assms(3,4) by (simp add: references_of_buffer_def)
    then show ?thesis using m(1) by (subst references_loop.simps) (simp add: references_loop.simps)
  qed
  have "LIST_MERGE_SORT referencePositionComparer (rev ?refs) = ?refs"
    by (rule converted_order.LIST_MERGE_SORT_strict [OF references_sorted [OF assms(2)]]) simp
  then show ?thesis unfolding convertEditorMarkersToReferences_def sort Let_def loop by simp
qed

text \<open>
  Markers with equal offsets are not all found: the second and all those behind it become references
  to column 0 of the line behind the text.
\<close>

lemma equal_markers_misplaced:
  "map_option fst (convertEditorMarkersToReferences (example_marked [97, 10, 98] [0, 0, 2])
      [(0, UsageUsed), (1, UsageUsed), (2, UsageUsed)])
   = Some [\<lparr>ref_position = Position 1 1 0, ref_usage = UsageUsed\<rparr>, \<lparr>ref_position = Position 1 2 0, ref_usage = UsageUsed\<rparr>,
      \<lparr>ref_position = Position 1 2 0, ref_usage = UsageUsed\<rparr>]"
proof -
  let ?s = "example_marked [97, 10, 98] [0, 0, 2]"
  have u: "[0..<length [0::int, 0, 2]] = [0, 1, 2]" by (simp add: upt_rec)
  have b: "ed_buffers ?s 0 = Some ((example_buffer_text [97, 10, 98])\<lparr>eb_markers := [0, 1, 2]\<rparr>)"
    and m: "ed_markers ?s 0 = Some \<lparr>em_buffer = 0, em_offset = 0\<rparr>" "ed_markers ?s 1 = Some \<lparr>em_buffer = 0, em_offset = 0\<rparr>"
      "ed_markers ?s 2 = Some \<lparr>em_buffer = 0, em_offset = 2\<rparr>"
    unfolding example_marked_def u by simp_all
  have sort: "LIST_MERGE_SORT (editorMarkerListBefore ?s) [(0, UsageUsed), (1, UsageUsed), (2, UsageUsed)]
      = [(1, UsageUsed), (0, UsageUsed), (2, UsageUsed)]"
    by (simp add: LIST_MERGE_SORT_def merge_sort_loop.simps merge_round.simps editorMarkerListBefore_def
        editorMarkerBefore_def marker_key_def m m(2) [unfolded One_nat_def])
  let ?r = "\<lambda>line. \<lparr>ref_position = Position 1 line 0, ref_usage = UsageUsed\<rparr>"
  have loop: "references_loop ?s [(1, UsageUsed), (0, UsageUsed), (2, UsageUsed)] [] = Some [?r 2, ?r 2, ?r 1]"
    by (simp add: references_loop.simps references_of_buffer_def b m m(2) [unfolded One_nat_def]
        references_scan.simps in_buffer_def newReference_def example_buffer_text_def fillEmptyEditorBuffer_def)
  have "\<not> Position 1 2 0 < Position 1 1 0" unfolding less_position_def positionIsLessThan_def by simp
  then have "LIST_MERGE_SORT referencePositionComparer [?r 2, ?r 2, ?r 1] = [?r 1, ?r 2, ?r 2]"
    unfolding LIST_MERGE_SORT_def referencePositionComparer_eq
    by (simp add: merge_sort_loop.simps merge_round.simps referenceLess_def)
  then show ?thesis unfolding convertEditorMarkersToReferences_def sort Let_def loop by simp
qed

section \<open>Properties\<close>

text \<open>C7: References that lie in the text of a buffer become markers at their offsets, with their
  usages and in their order; and markers, in whatever order they are, become those references again.\<close>

theorem references_markers_roundtrip:
  assumes "editor_ok s" "text_of s b = Some str" "ed_buffers s b = Some buffer" "0 \<le> eb_fileNumber buffer"
    and "getFileItemWithFileNumber (ed_fileTable s) (nat (eb_fileNumber buffer)) = Some item"
    and "getEditorBufferForFile s (fi_name item) = Some b" "ascending 0 (length str) kus"
  shows "\<exists>markers s'. convertReferencesToEditorMarkers env s (map (reference_at (eb_fileNumber buffer) str) kus) = Some (markers, s')
    \<and> marked_at s' b markers kus
    \<and> (\<forall>shuffled. mset shuffled = mset markers \<longrightarrow>
        convertEditorMarkersToReferences s' shuffled = Some (map (reference_at (eb_fileNumber buffer) str) kus, markers))"
proof -
  let ?f = "eb_fileNumber buffer"
  let ?refs = "map (reference_at ?f str) kus"
  obtain ms s' where ms: "convert_loop env s [] ?refs = Some (rev ms, s')" "only_markers s s'" "marked_at s' b ms kus"
  proof (cases kus)
    case Nil
    then show ?thesis
      using that [of "[]" s] only_markers_refl [OF assms(1)]
      by (simp add: convert_loop.simps skipInvisibleReferences_def marked_at_def)
  next
    case (Cons ku kus')
    from markers_loop_law [OF assms(1,2,7), of 1 0 ?f "[]"] obtain ms s' where
      l: "markers_loop str ?f b 0 1 0 s [] ?refs = Some (rev ms, [], s')" "only_markers s s'" "marked_at s' b ms kus" by auto
    have hd: "pos_file (ref_position (hd ?refs)) = ?f" using Cons by (simp add: reference_at_def)
    have t: "getTextInEditorBuffer s b = Some str" using assms(2) by (auto simp: text_of_Some getTextInEditorBuffer_def)
    have "convert_file env s [] ?refs = Some (rev ms, [], s')"
      using assms(4,5,6) t l(1) unfolding convert_file_def hd
      by (simp add: findOrCreateAndLoadEditorBufferForFile_def beyond_loop.simps at_file_def)
    moreover have "skipInvisibleReferences ?refs = ?refs" by (rule skipInvisible_visible [OF assms(7)])
    moreover have "convert_loop env s' (rev ms) [] = Some (rev ms, s')"
      by (simp add: convert_loop.simps skipInvisibleReferences_def)
    ultimately have "convert_loop env s [] ?refs = Some (rev ms, s')"
      using Cons by (subst convert_loop.simps) (simp add: Let_def)
    then show ?thesis using that l(2,3) by blast
  qed
  have "text_of s' b = Some str" using ms(2) assms(2) by (simp add: only_markers_def)
  then obtain buffer' where b': "ed_buffers s' b = Some buffer'" "eb_text buffer' = str" by (auto simp: text_of_Some)
  moreover have "map_option eb_fileNumber (ed_buffers s' b) = map_option eb_fileNumber (ed_buffers s b)"
    using ms(2) unfolding only_markers_def by blast
  ultimately have f: "eb_fileNumber buffer' = ?f" using assms(3) by simp
  have "convertReferencesToEditorMarkers env s ?refs = Some (ms, s')"
    using ms(1) by (simp add: convertReferencesToEditorMarkers_def)
  moreover have "convertEditorMarkersToReferences s' shuffled = Some (?refs, ms)" if "mset shuffled = mset ms" for shuffled
    using convertEditorMarkersToReferences_law [OF ms(3) assms(7) b' that] f by simp
  ultimately show ?thesis using ms(3) by blast
qed

definition example_converted :: editor where
  "example_converted = example_loaded\<lparr>ed_fileTable :=
     (hashTabNoAllocInit 3)\<lparr>tab_tab := [None, Some (newFileItem ''a.c''), None]\<rparr>\<rparr>"

lemma example_converted_ok:
  "editor_ok example_converted" "text_of example_converted 0 = Some [97, 98, 99]"
  "getEditorBufferForFile example_converted ''a.c'' = Some 0"
proof -
  have e: "ed_buffers example_converted = ed_buffers example_loaded" "ed_markers example_converted = ed_markers example_loaded"
    "ed_nextMarker example_converted = ed_nextMarker example_loaded" by (simp_all add: example_converted_def)
  then show "editor_ok example_converted" "text_of example_converted 0 = Some [97, 98, 99]"
    using example_loaded_ok by (simp_all add: editor_ok_def buffer_ok_def text_of_def)
  have t: "ed_table example_converted = \<lparr>hl_size = 1, hl_tab = [[0]]\<rparr>" "ed_nextBuffer example_converted = 2"
    by (simp_all add: example_converted_def example_loaded_def example_marked_def example_editor_def)
  have n: "bufferName example_converted 0 = ''a.c''"
    by (simp add: bufferName_def e example_loaded_simps example_buffer_text_def fillEmptyEditorBuffer_def)
  have "table_ok example_converted"
    by (auto simp: table_ok_def registered_def t buffers.wf_list_def hashListIndex_def e example_loaded_simps)
  from get_iff [OF this] n show "getEditorBufferForFile example_converted ''a.c'' = Some 0"
    by (simp add: registered_def t)
qed

theorem references_markers_roundtrip_witness:
  "\<exists>markers s'. convertReferencesToEditorMarkers example_environment example_converted
       [\<lparr>ref_position = Position 1 1 2, ref_usage = UsageUsed\<rparr>] = Some (markers, s')
     \<and> convertEditorMarkersToReferences s' markers = Some ([\<lparr>ref_position = Position 1 1 2, ref_usage = UsageUsed\<rparr>], markers)"
proof -
  have b: "ed_buffers example_converted 0 = Some ((example_buffer_text [97, 98, 99])\<lparr>eb_markers := [0, 1]\<rparr>)"
    by (simp add: example_converted_def example_loaded_simps)
  have f: "eb_fileNumber ((example_buffer_text [97, 98, 99])\<lparr>eb_markers := [0, 1]\<rparr>) = 1"
    by (simp add: example_buffer_text_def fillEmptyEditorBuffer_def)
  have i: "getFileItemWithFileNumber (ed_fileTable example_converted) (nat 1) = Some (newFileItem ''a.c'')"
    by (simp add: example_converted_def getFileItemWithFileNumber_def hashTabNoAllocInit_def)
  have g: "getEditorBufferForFile example_converted (fi_name (newFileItem ''a.c'')) = Some 0"
    using example_converted_ok(3) by (simp add: newFileItem_def fillFileItem_def)
  have a: "ascending 0 (length [97, 98, 99 :: int]) [(2, UsageUsed)]"
    by (simp add: ascending_def isVisibleUsage_def)
  have r: "map (reference_at 1 [97, 98, 99]) [(2, UsageUsed)] = [\<lparr>ref_position = Position 1 1 2, ref_usage = UsageUsed\<rparr>]"
    by (simp add: reference_at_def eval_nat_numeral)
  from references_markers_roundtrip [OF example_converted_ok(1,2) b _ _ g a, unfolded f r, OF _ i, of example_environment]
  show ?thesis by auto
qed

end
