(* ===== verification/Ppc.thy ===== *)
theory Ppc
  imports EditorMarker Lexer
begin

text \<open>
  Models \<^verbatim>\<open>ppc.c\<close>: the records the server sends to the editor. What is written to the output file
  and to the standard output are lists of bytes, and so are the texts in the records; names of records, of
  their attributes and of files are strings.
\<close>

section \<open>Output\<close>

record ppc =
  ppc_indentOffset :: int
  ppc_outputFile :: "int list"
  ppc_stdout :: "int list"

definition str_bytes :: "string \<Rightarrow> int list" where
  "str_bytes s = map of_char s"

definition fput :: "int list \<Rightarrow> ppc \<Rightarrow> ppc" where
  "fput bytes p = p\<lparr>ppc_outputFile := ppc_outputFile p @ bytes\<rparr>"

text \<open>The text \<open>printf\<close> makes of an integer.\<close>

definition printf_d :: "int \<Rightarrow> int list" where
  "printf_d v = (if v < 0 then 45 # decimal_text (nat (- v)) else decimal_text (nat v))"

section \<open>The names of records and attributes\<close>

definition PPC_ALL_COMPLETIONS :: string where "PPC_ALL_COMPLETIONS = ''all-completions''"
definition PPC_REFACTORING_PRECHECK :: string where "PPC_REFACTORING_PRECHECK = ''precheck''"
definition PPC_REFACTORING_REPLACEMENT :: string where "PPC_REFACTORING_REPLACEMENT = ''replacement''"
definition PPC_REFACTORING_CUT_BLOCK :: string where "PPC_REFACTORING_CUT_BLOCK = ''cut-block''"
definition PPC_REFACTORING_PASTE_BLOCK :: string where "PPC_REFACTORING_PASTE_BLOCK = ''paste-block''"
definition PPC_ASK_CONFIRMATION :: string where "PPC_ASK_CONFIRMATION = ''ask-confirmation''"
definition PPC_WAIT_CONFIRMATION :: string where "PPC_WAIT_CONFIRMATION = ''wait-confirmation''"
definition PPC_DISPLAY_RESOLUTION :: string where "PPC_DISPLAY_RESOLUTION = ''display-resolution''"
definition PPC_WARNING :: string where "PPC_WARNING = ''warning''"
definition PPC_BOTTOM_WARNING :: string where "PPC_BOTTOM_WARNING = ''bottom-warning''"
definition PPC_BOTTOM_INFORMATION :: string where "PPC_BOTTOM_INFORMATION = ''bottom-information''"
definition PPC_GOTO :: string where "PPC_GOTO = ''goto''"
definition PPC_MOVE_FILE_AS :: string where "PPC_MOVE_FILE_AS = ''file-move-as''"
definition PPC_SYNCHRO_RECORD :: string where "PPC_SYNCHRO_RECORD = ''sync''"
definition PPC_LC_POSITION :: string where "PPC_LC_POSITION = ''position-lc''"
definition PPC_OFFSET_POSITION :: string where "PPC_OFFSET_POSITION = ''position-off''"
definition PPC_STRING_VALUE :: string where "PPC_STRING_VALUE = ''str''"
definition PPCA_LEN :: string where "PPCA_LEN = ''len''"
definition PPCA_LINE :: string where "PPCA_LINE = ''line''"
definition PPCA_COL :: string where "PPCA_COL = ''col''"
definition PPCA_OFFSET :: string where "PPCA_OFFSET = ''off''"
definition PPCA_VALUE :: string where "PPCA_VALUE = ''val''"
definition PPCA_MTYPE :: string where "PPCA_MTYPE = ''mtype''"
definition PPCA_CONTINUE :: string where "PPCA_CONTINUE = ''continue''"
definition PPCA_BEEP :: string where "PPCA_BEEP = ''beep''"
definition PPCA_NO_FOCUS :: string where "PPCA_NO_FOCUS = ''nofocus''"
definition MAX_PPC_RECORD_SIZE :: nat where "MAX_PPC_RECORD_SIZE = 100000"
definition TMP_STRING_SIZE :: nat where "TMP_STRING_SIZE = 1000"

section \<open>Records\<close>

text \<open>The bytes that do not continue a character.\<close>

definition utf8CharacterLength :: "int list \<Rightarrow> nat" where
  "utf8CharacterLength string = length (filter (\<lambda>c. to_uchar c AND 192 \<noteq> 128) string)"

definition ppcIndent :: "ppc \<Rightarrow> ppc" where
  "ppcIndent p = fput (replicate (nat (ppc_indentOffset p)) 32) p"

text \<open>The pieces the formats share: an attribute with its value, and the end tag of a kind.\<close>

definition attribute :: "string \<Rightarrow> int list \<Rightarrow> int list" where
  "attribute name v = [32] @ str_bytes name @ [61] @ v"

definition end_tag :: "string \<Rightarrow> int list" where
  "end_tag kind = str_bytes ''</'' @ str_bytes kind @ [62]"

definition ppcGenOffsetPosition :: "string \<Rightarrow> int \<Rightarrow> ppc \<Rightarrow> ppc" where
  "ppcGenOffsetPosition fn offset p =
     fput ([60] @ str_bytes PPC_OFFSET_POSITION @ attribute PPCA_OFFSET (printf_d offset)
           @ attribute PPCA_LEN (printf_d (int (length fn))) @ [62] @ str_bytes fn
           @ end_tag PPC_OFFSET_POSITION @ [10]) (ppcIndent p)"

definition ppcGenMarker :: "editor \<Rightarrow> nat \<Rightarrow> ppc \<Rightarrow> ppc option" where
  "ppcGenMarker s m p =
     map_option (\<lambda>(buffer, offset). ppcGenOffsetPosition (eb_fileName buffer) (to_int offset) p) (marker_text s m)"

definition ppcGenPosition :: "file_table \<Rightarrow> position \<Rightarrow> ppc \<Rightarrow> ppc option" where
  "ppcGenPosition table position p =
     (if pos_file position < 0 then None
      else map_option (\<lambda>fileItem. let fn = fi_name fileItem in
        fput ([60] @ str_bytes PPC_LC_POSITION @ attribute PPCA_LINE (printf_d (pos_line position))
              @ attribute PPCA_COL (printf_d (pos_col position))
              @ attribute PPCA_LEN (printf_d (int (length fn))) @ [62] @ str_bytes fn
              @ end_tag PPC_LC_POSITION @ [10]) (ppcIndent p))
        (getFileItemWithFileNumber table (nat (pos_file position))))"

definition ppcSynchronize :: "ppc \<Rightarrow> ppc" where
  "ppcSynchronize p = p\<lparr>ppc_stdout := ppc_stdout p @ [60] @ str_bytes PPC_SYNCHRO_RECORD @ [62, 10]\<rparr>"

definition ppcBegin :: "string \<Rightarrow> ppc \<Rightarrow> ppc" where
  "ppcBegin kind p =
     (let p1 = fput ([60] @ str_bytes kind @ [62, 10]) (ppcIndent p)
      in p1\<lparr>ppc_indentOffset := ppc_indentOffset p1 + 1\<rparr>)"

definition ppcBeginWithStringAttribute :: "string \<Rightarrow> string \<Rightarrow> string \<Rightarrow> ppc \<Rightarrow> ppc" where
  "ppcBeginWithStringAttribute kind attr val p =
     (let p1 = fput ([60] @ str_bytes kind @ attribute attr (str_bytes val) @ [62]) (ppcIndent p)
      in p1\<lparr>ppc_indentOffset := ppc_indentOffset p1 + 1\<rparr>)"

definition ppcEnd :: "string \<Rightarrow> ppc \<Rightarrow> ppc" where
  "ppcEnd kind p = fput (end_tag kind @ [10]) (ppcIndent (p\<lparr>ppc_indentOffset := ppc_indentOffset p - 1\<rparr>))"

text \<open>These three begin a block without indenting what follows.\<close>

definition ppcBeginWithNumericValue :: "string \<Rightarrow> int \<Rightarrow> ppc \<Rightarrow> ppc" where
  "ppcBeginWithNumericValue kind val p =
     fput ([60] @ str_bytes kind @ attribute PPCA_VALUE (printf_d val) @ [62, 10]) (ppcIndent p)"

definition ppcBeginWithNumericValueAndAttribute :: "string \<Rightarrow> int \<Rightarrow> string \<Rightarrow> string \<Rightarrow> ppc \<Rightarrow> ppc" where
  "ppcBeginWithNumericValueAndAttribute kind val attr attrVal p =
     fput ([60] @ str_bytes kind @ attribute PPCA_VALUE (printf_d val) @ attribute attr (str_bytes attrVal) @ [62, 10])
       (ppcIndent p)"

definition ppcBeginAllCompletions :: "int \<Rightarrow> int \<Rightarrow> ppc \<Rightarrow> ppc" where
  "ppcBeginAllCompletions nofocus len p =
     fput ([60] @ str_bytes PPC_ALL_COMPLETIONS @ attribute PPCA_NO_FOCUS (printf_d nofocus)
           @ attribute PPCA_LEN (printf_d len) @ [62]) (ppcIndent p)"

definition ppcGotoPosition :: "file_table \<Rightarrow> position \<Rightarrow> ppc \<Rightarrow> ppc option" where
  "ppcGotoPosition table position p =
     map_option (ppcEnd PPC_GOTO) (ppcGenPosition table position (ppcBegin PPC_GOTO p))"

definition ppcGotoMarker :: "editor \<Rightarrow> nat \<Rightarrow> ppc \<Rightarrow> ppc option" where
  "ppcGotoMarker s m p = map_option (ppcEnd PPC_GOTO) (ppcGenMarker s m (ppcBegin PPC_GOTO p))"

definition ppcGotoOffsetPosition :: "string \<Rightarrow> int \<Rightarrow> ppc \<Rightarrow> ppc" where
  "ppcGotoOffsetPosition fname offset p = ppcEnd PPC_GOTO (ppcGenOffsetPosition fname offset (ppcBegin PPC_GOTO p))"

definition ppcGenRecordWithNumeric :: "string \<Rightarrow> string \<Rightarrow> int \<Rightarrow> int list \<Rightarrow> ppc \<Rightarrow> ppc" where
  "ppcGenRecordWithNumeric kind attr val message p =
     fput ([60] @ str_bytes kind @ attribute attr (printf_d val)
           @ attribute PPCA_LEN (printf_d (int (length message))) @ [62] @ message @ end_tag kind @ [10]) (ppcIndent p)"

definition ppcValueRecord :: "string \<Rightarrow> int \<Rightarrow> int list \<Rightarrow> ppc \<Rightarrow> ppc" where
  "ppcValueRecord kind val message p = ppcGenRecordWithNumeric kind PPCA_VALUE val message (ppcIndent p)"

definition ppcGenRecord :: "string \<Rightarrow> int list \<Rightarrow> ppc \<Rightarrow> ppc option" where
  "ppcGenRecord kind message p =
     (if length message < MAX_PPC_RECORD_SIZE - 1 then
        Some (fput ([60] @ str_bytes kind @ attribute PPCA_LEN (printf_d (int (utf8CharacterLength message)))
                    @ [62] @ message @ end_tag kind @ [10]) (ppcIndent p))
      else None)"

definition ppcDisplaySelection :: "int list \<Rightarrow> int \<Rightarrow> ppc \<Rightarrow> ppc" where
  "ppcDisplaySelection message messageType p =
     fput ([60] @ str_bytes PPC_DISPLAY_RESOLUTION @ attribute PPCA_LEN (printf_d (int (length message)))
           @ attribute PPCA_MTYPE (printf_d messageType) @ attribute PPCA_CONTINUE (printf_d 1)
           @ [62] @ message @ end_tag PPC_DISPLAY_RESOLUTION @ [10]) (ppcIndent p)"

text \<open>The bytes of the old name are those in the buffer.\<close>

definition ppcReplace :: "string \<Rightarrow> int \<Rightarrow> int list \<Rightarrow> int list \<Rightarrow> ppc \<Rightarrow> ppc option" where
  "ppcReplace file0 offset oldName newName p =
     (let p1 = ppcBegin PPC_REFACTORING_REPLACEMENT (ppcGotoOffsetPosition file0 offset p);
          p2 = fput ([60] @ str_bytes PPC_STRING_VALUE @ attribute PPCA_LEN (printf_d (int (length oldName)))
                     @ [62] @ oldName @ end_tag PPC_STRING_VALUE @ [32]) (ppcIndent p1)
      in map_option (ppcEnd PPC_REFACTORING_REPLACEMENT) (ppcGenRecord PPC_STRING_VALUE newName p2))"

definition ppcPreCheck :: "editor \<Rightarrow> nat \<Rightarrow> nat \<Rightarrow> ppc \<Rightarrow> ppc option" where
  "ppcPreCheck s pos oldLen p = do {
     (buffer, offset) \<leftarrow> marker_text s pos;
     p1 \<leftarrow> ppcGotoMarker s pos p;
     if nat offset + oldLen \<le> length (eb_text buffer) then
       Some (fput ([60] @ str_bytes PPC_REFACTORING_PRECHECK @ attribute PPCA_LEN (printf_d (int oldLen)) @ [62]
                   @ take oldLen (drop (nat offset) (eb_text buffer)) @ end_tag PPC_REFACTORING_PRECHECK @ [10])
              (ppcIndent p1))
     else None
   }"

definition ppcReferencePreCheck :: "file_table \<Rightarrow> reference \<Rightarrow> int list \<Rightarrow> ppc \<Rightarrow> ppc option" where
  "ppcReferencePreCheck table r str p =
     map_option (\<lambda>p1. fput ([60] @ str_bytes PPC_REFACTORING_PRECHECK @ attribute PPCA_LEN (printf_d (int (length str)))
           @ [62] @ str @ end_tag PPC_REFACTORING_PRECHECK @ [10]) (ppcIndent p1))
       (ppcGotoPosition table (ref_position r) p)"

definition ppcWarning :: "int list \<Rightarrow> ppc \<Rightarrow> ppc option" where
  "ppcWarning message p = ppcGenRecord PPC_WARNING message p"

definition ppcBottomWarning :: "int list \<Rightarrow> ppc \<Rightarrow> ppc" where
  "ppcBottomWarning message p = ppcGenRecordWithNumeric PPC_BOTTOM_WARNING PPCA_BEEP 1 message p"

definition ppcBottomInformation :: "int list \<Rightarrow> ppc \<Rightarrow> ppc option" where
  "ppcBottomInformation message p = ppcGenRecord PPC_BOTTOM_INFORMATION message p"

definition ppcIndicateNoReference :: "bool \<Rightarrow> ppc \<Rightarrow> ppc option" where
  "ppcIndicateNoReference cxrefProtocol p =
     (if cxrefProtocol then ppcBottomInformation (str_bytes ''No reference'') p else None)"

definition ppcAskConfirmation :: "int list \<Rightarrow> ppc \<Rightarrow> ppc option" where
  "ppcAskConfirmation message p = ppcGenRecord PPC_ASK_CONFIRMATION message p"

section \<open>Waiting for an answer\<close>

definition MAX_OPTION_LEN :: nat where "MAX_OPTION_LEN = 10000"
definition END_OF_OPTIONS_STRING :: string where "END_OF_OPTIONS_STRING = ''end-of-options''"

text \<open>At most \<open>n\<close> bytes of the input, up to and with the first newline.\<close>

fun fgets :: "nat \<Rightarrow> int list \<Rightarrow> int list \<times> int list" where
  "fgets 0 input = ([], input)"
| "fgets (Suc n) [] = ([], [])"
| "fgets (Suc n) (c # cs) = (if c = 10 then ([10], cs) else (let (line, rest) = fgets n cs in (c # line, rest)))"

lemma fgets_length: "length (snd (fgets n input)) \<le> length input"
  by (induction n input rule: fgets.induct) (auto split: prod.splits)

lemma fgets_less: "input \<noteq> [] \<Longrightarrow> 0 < n \<Longrightarrow> length (snd (fgets n input)) < length input"
  using fgets_length [of "n - 1" "tl input"]
  by (cases n; cases input) (auto split: prod.splits simp: le_imp_less_Suc)

definition without_newline :: "int list \<Rightarrow> int list" where
  "without_newline line = (if line \<noteq> [] \<and> last line = 10 then butlast line else line)"

function confirmation_loop :: "int list \<Rightarrow> bool \<Rightarrow> bool \<times> int list" where
  "confirmation_loop input confirmed =
     (if input = [] then (confirmed, [])
      else (let (line0, rest) = fgets (MAX_OPTION_LEN - 1) input;
                line = without_newline line0;
                confirmed1 = (if line = str_bytes ''-continue'' then True else confirmed);
                confirmed2 = (if line = str_bytes ''-cancel'' then False else confirmed1)
            in if line = str_bytes END_OF_OPTIONS_STRING then (confirmed, rest)
               else confirmation_loop rest confirmed2))"
  by pat_completeness auto
termination
proof (relation "measure (\<lambda>(input, confirmed). length input)")
  show "wf (measure (\<lambda>(input :: int list, confirmed :: bool). length input))" by simp
  fix input :: "int list" and x line0 rest
  assume "input \<noteq> []" "x = fgets (MAX_OPTION_LEN - 1) input" "(line0, rest) = x"
  then show "((rest, c), input, confirmed) \<in> measure (\<lambda>(input, confirmed). length input)" for c confirmed
    using fgets_less [of input "MAX_OPTION_LEN - 1"] by (simp add: MAX_OPTION_LEN_def) (metis snd_conv)
qed

declare confirmation_loop.simps [simp del]

text \<open>The output file is closed and opened again in between; a broken pipe ends the process.\<close>

definition ppcWaitConfirmation :: "int list \<Rightarrow> ppc \<Rightarrow> int list \<Rightarrow> (bool \<times> ppc \<times> int list) option" where
  "ppcWaitConfirmation message p input = do {
     p1 \<leftarrow> ppcGenRecord PPC_WAIT_CONFIRMATION message p;
     let (confirmed, rest) = confirmation_loop input False;
     if rest = [] then None else Some (confirmed, ppcSynchronize p1, tl rest)
   }"

section \<open>Reading the records back\<close>

definition continues :: "int \<Rightarrow> bool" where
  "continues c \<longleftrightarrow> to_uchar c AND 192 = 128"

text \<open>A reader that takes as many characters as the length of the record says.\<close>

fun read_chars :: "nat \<Rightarrow> int list \<Rightarrow> int list \<times> int list" where
  "read_chars 0 bytes = ([], bytes)"
| "read_chars (Suc n) [] = ([], [])"
| "read_chars (Suc n) (c # bytes) =
     (let (chars, rest) = read_chars n (dropWhile continues bytes) in (c # takeWhile continues bytes @ chars, rest))"

definition strip_prefix :: "int list \<Rightarrow> int list \<Rightarrow> int list option" where
  "strip_prefix prefix bytes = (if take (length prefix) bytes = prefix then Some (drop (length prefix) bytes) else None)"

definition read_record :: "string \<Rightarrow> int list \<Rightarrow> (int list \<times> int list) option" where
  "read_record kind bytes = do {
     after_kind \<leftarrow> strip_prefix ([60] @ str_bytes kind @ [32] @ str_bytes PPCA_LEN @ [61]) (dropWhile (\<lambda>c. c = 32) bytes);
     let len = fold (\<lambda>ch v. v * 10 + digit_value ch) (takeWhile c_isdigit after_kind) 0;
     after_len \<leftarrow> strip_prefix [62] (dropWhile c_isdigit after_kind);
     let (message, rest) = read_chars len after_len;
     rest' \<leftarrow> strip_prefix (end_tag kind @ [10]) rest;
     Some (message, rest')
   }"

lemma read_chars_all:
  "(message = [] \<or> \<not> continues (hd message)) \<Longrightarrow> (rest = [] \<or> \<not> continues (hd rest)) \<Longrightarrow>
   read_chars (utf8CharacterLength message) (message @ rest) = (message, rest)"
proof (induction "length message" arbitrary: message rule: less_induct)
  case less
  show ?case
  proof (cases message)
    case Nil
    then show ?thesis by (simp add: utf8CharacterLength_def)
  next
    case (Cons c cs)
    then have c: "\<not> continues c" using less.prems(1) by simp
    let ?cs = "dropWhile continues cs"
    have n: "utf8CharacterLength message = Suc (utf8CharacterLength ?cs)"
    proof -
      have "filter (\<lambda>c. \<not> continues c) cs = filter (\<lambda>c. \<not> continues c) ?cs"
        by (induction cs) auto
      then show ?thesis using c Cons by (simp add: utf8CharacterLength_def continues_def)
    qed
    have d: "dropWhile continues (cs @ rest) = ?cs @ rest" "takeWhile continues (cs @ rest) = takeWhile continues cs"
      using less.prems(2) by (induction cs; cases rest; simp)+
    have "length ?cs < length message" using Cons by (simp add: le_imp_less_Suc length_dropWhile_le)
    moreover have "?cs = [] \<or> \<not> continues (hd ?cs)" using hd_dropWhile by blast
    ultimately have "read_chars (utf8CharacterLength ?cs) (?cs @ rest) = (?cs, rest)"
      using less.hyps less.prems(2) by blast
    then show ?thesis using Cons d n by simp
  qed
qed

lemma strip_prefix_append: "strip_prefix p (p @ xs) = Some xs"
  by (simp add: strip_prefix_def)

section \<open>Properties\<close>


definition example_ppc :: ppc where
  "example_ppc = \<lparr>ppc_indentOffset = 1, ppc_outputFile = [], ppc_stdout = []\<rparr>"


text \<open>
  A block that is begun with \<^const>\<open>ppcBegin\<close> leaves the indentation as it was when it is ended, one
  that is begun with a number leaves it one less.
\<close>

lemma block_indentation:
  "ppc_indentOffset (ppcEnd kind (ppcBegin kind p)) = ppc_indentOffset p"
  "ppc_indentOffset (ppcEnd kind (ppcBeginWithNumericValue kind val p)) = ppc_indentOffset p - 1"
  "ppc_indentOffset (ppcEnd PPC_ALL_COMPLETIONS (ppcBeginAllCompletions nofocus len p)) = ppc_indentOffset p - 1"
  by (simp_all add: ppcEnd_def ppcBegin_def ppcBeginWithNumericValue_def ppcBeginAllCompletions_def ppcIndent_def
      fput_def Let_def)

end
