(* ===== verification/Undo.thy ===== *)
theory Undo
  imports Editor Ppc
begin

text \<open>
  Models the part of \<^verbatim>\<open>refactory.c\<close> every refactoring goes through: reading and replacing names in
  the buffers, undoing what has been done, and replaying it as records for the editor.

  The list of undo information is a list; two pointers into it are equal when the lists are, since
  lists that share their end only differ in length.
\<close>

section \<open>Names in buffers\<close>

text \<open>The characters of identifiers, \<open>isalpha\<close> and \<open>isdigit\<close> in the C locale, and two more.\<close>

definition identifier_char :: "int \<Rightarrow> bool" where
  "identifier_char c \<longleftrightarrow> c_isalpha c \<or> c_isdigit c \<or> c = 95 \<or> c = 36"

text \<open>Backwards while the characters are as wanted; the result may be just before the text.\<close>

function back_while :: "(int \<Rightarrow> bool) \<Rightarrow> int list \<Rightarrow> int \<Rightarrow> int" where
  "back_while P str i = (if 0 \<le> i \<and> P (str ! nat i) then back_while P str (i - 1) else i)"
  by pat_completeness auto
termination by (relation "measure (\<lambda>(P, str, i). nat (i + 1))") auto

function on_while :: "(int \<Rightarrow> bool) \<Rightarrow> int list \<Rightarrow> int \<Rightarrow> int" where
  "on_while P str i = (if i < int (length str) \<and> P (str ! nat i) then on_while P str (i + 1) else i)"
  by pat_completeness auto
termination by (relation "measure (\<lambda>(P, str, i). nat (int (length str) - i))") auto

declare back_while.simps [simp del] on_while.simps [simp del]

text \<open>The scan starts at the byte of the marker, which is behind the text when the marker is at its end.\<close>

definition getIdentifierOnMarker_static :: "editor \<Rightarrow> nat \<Rightarrow> int list option" where
  "getIdentifierOnMarker_static s m = do {
     (buffer, offset) \<leftarrow> marker_text s m;
     let str = eb_text buffer;
     if offset \<ge> int (length str) then None
     else
       (let start = on_while c_isdigit str (back_while identifier_char str offset + 1);
            end0 = on_while identifier_char str start
        in if nat (end0 - start) < TMP_STRING_SIZE - 1
           then Some (take (nat (end0 - start)) (drop (nat start) str)) else None)
   }"

definition getStringInInclude_static :: "editor \<Rightarrow> nat \<Rightarrow> int list option" where
  "getStringInInclude_static s m = do {
     (buffer, offset) \<leftarrow> marker_text s m;
     let str = eb_text buffer;
     if offset \<ge> int (length str) then None
     else
       (let start = on_while (\<lambda>c. c \<noteq> 34 \<and> c \<noteq> 60) str (back_while (\<lambda>c. c \<noteq> 35) str offset + 1);
            end0 = on_while (\<lambda>c. c \<noteq> 34 \<and> c \<noteq> 62) str (start + 1) + 1
        in if nat (end0 - start) < TMP_STRING_SIZE - 1 \<and> end0 \<le> int (length str)
           then Some (take (nat (end0 - start)) (drop (nat start) str)) else None)
   }"

definition replaceString ::
  "editor \<Rightarrow> nat \<Rightarrow> int \<Rightarrow> int list \<Rightarrow> editorUndo list \<Rightarrow> (editor \<times> editorUndo list option) option" where
  "replaceString s m len newString undo = do {
     marker \<leftarrow> ed_markers s m;
     replaceStringInEditorBuffer s (em_buffer marker) (em_offset marker) len (Chars newString)
       (int (length newString)) (Some undo)
   }"

text \<open>A replacement that does not find the old string is only reported.\<close>

definition checkedReplaceString ::
  "editor \<Rightarrow> nat \<Rightarrow> int list \<Rightarrow> int list \<Rightarrow> editorUndo list \<Rightarrow> (editor \<times> editorUndo list option) option" where
  "checkedReplaceString s m oldString newString undo = do {
     (buffer, offset) \<leftarrow> marker_text s m;
     let stringInBuffer = drop (nat offset) (eb_text buffer);
     let len = length oldString;
     if len \<le> length stringInBuffer then
       if take len stringInBuffer = oldString then replaceString s m (int len) newString undo
       else Some (s, Some undo)
     else if take (length stringInBuffer) oldString = stringInBuffer then None
     else Some (s, Some undo)
   }"

definition renameFromTo ::
  "editor \<Rightarrow> nat \<Rightarrow> int list \<Rightarrow> int list \<Rightarrow> editorUndo list \<Rightarrow> (editor \<times> editorUndo list option) option" where
  "renameFromTo s m originalName newName undo = do {
     actualName \<leftarrow> getIdentifierOnMarker_static s m;
     if actualName \<noteq> originalName then None else checkedReplaceString s m originalName newName undo
   }"

definition createMarkerAt :: "editor \<Rightarrow> nat \<Rightarrow> int \<Rightarrow> (nat option \<times> editor) option" where
  "createMarkerAt s b offset =
     (if offset \<ge> 0 then map_option (\<lambda>(m, s1). (Some m, s1)) (newEditorMarker s b offset) else Some (None, s))"

section \<open>Undoing and replaying\<close>

text \<open>One entry; \<open>gen\<close> tells whether the records for the editor are written too.\<close>

definition apply_replace ::
  "editor \<Rightarrow> nat \<Rightarrow> int \<Rightarrow> int \<Rightarrow> int list \<Rightarrow> editorUndo list option \<Rightarrow> bool \<Rightarrow> ppc
    \<Rightarrow> (editor \<times> editorUndo list option \<times> ppc) option" where
  "apply_replace s b offset sz str undoundo gen p = do {
     buffer \<leftarrow> ed_buffers s b;
     p1 \<leftarrow> (if gen then
              if nat offset + nat sz \<le> length (eb_text buffer)
              then ppcReplace (eb_fileName buffer) offset (take (nat sz) (drop (nat offset) (eb_text buffer))) str p
              else None
            else Some p);
     (s1, undoundo1) \<leftarrow> replaceStringInEditorBuffer s b offset sz (Chars str) (int (length str)) undoundo;
     Some (s1, undoundo1, p1)
   }"

definition apply_rename ::
  "environment \<Rightarrow> editor \<Rightarrow> nat \<Rightarrow> string \<Rightarrow> editorUndo list option \<Rightarrow> bool \<Rightarrow> ppc
    \<Rightarrow> (editor \<times> editorUndo list option \<times> ppc) option" where
  "apply_rename env s b name undoundo gen p = do {
     buffer \<leftarrow> ed_buffers s b;
     p1 \<leftarrow> (if gen then ppcGenRecord PPC_MOVE_FILE_AS (str_bytes name) (ppcGotoOffsetPosition (eb_fileName buffer) 0 p)
            else Some p);
     (s1, undoundo1) \<leftarrow> renameEditorBuffer env s b name undoundo;
     Some (s1, undoundo1, p1)
   }"

definition apply_move ::
  "editor \<Rightarrow> nat \<Rightarrow> int \<Rightarrow> int \<Rightarrow> nat \<Rightarrow> int \<Rightarrow> editorUndo list option \<Rightarrow> bool \<Rightarrow> ppc
    \<Rightarrow> (editor \<times> editorUndo list option \<times> ppc) option" where
  "apply_move s b offset sz dbuffer doffset undoundo gen p = do {
     (m1, s1) \<leftarrow> newEditorMarker s b offset;
     (m2, s2) \<leftarrow> newEditorMarker s1 dbuffer doffset;
     p1 \<leftarrow> (if gen then map_option (ppcValueRecord PPC_REFACTORING_CUT_BLOCK sz []) (ppcGotoMarker s2 m1 p) else Some p);
     (s3, undoundo1) \<leftarrow> moveBlockInEditorBuffer s2 m1 m2 sz undoundo;
     p2 \<leftarrow> (if gen then Option.bind (ppcGotoMarker s3 m1 p1) (ppcGenRecord PPC_REFACTORING_PASTE_BLOCK []) else Some p1);
     s4 \<leftarrow> freeEditorMarker s3 (Some m2);
     s5 \<leftarrow> freeEditorMarker s4 (Some m1);
     Some (s5, undoundo1, p2)
   }"

fun apply_undo ::
  "environment \<Rightarrow> editor \<Rightarrow> editorUndo \<Rightarrow> editorUndo list option \<Rightarrow> bool \<Rightarrow> ppc
    \<Rightarrow> (editor \<times> editorUndo list option \<times> ppc) option" where
  "apply_undo env s (UndoReplaceString b offset sz str) undoundo gen p = apply_replace s b offset sz str undoundo gen p"
| "apply_undo env s (UndoRenameBuffer b name) undoundo gen p = apply_rename env s b name undoundo gen p"
| "apply_undo env s (UndoMoveBlock b offset sz dbuffer doffset) undoundo gen p =
     apply_move s b offset sz dbuffer doffset undoundo gen p"

text \<open>The loop stops at \<open>until\<close> or at the end of the list, which has to be \<open>until\<close> then.\<close>

fun editorApplyUndos ::
  "environment \<Rightarrow> editor \<Rightarrow> editorUndo list \<Rightarrow> editorUndo list \<Rightarrow> editorUndo list option \<Rightarrow> bool \<Rightarrow> ppc
    \<Rightarrow> (editor \<times> editorUndo list option \<times> ppc) option" where
  "editorApplyUndos env s [] until undoundo gen p = (if until = [] then Some (s, undoundo, p) else None)"
| "editorApplyUndos env s (uu # undos) until undoundo gen p =
     (if uu # undos = until then Some (s, undoundo, p)
      else do {
        (s1, undoundo1, p1) \<leftarrow> apply_undo env s uu undoundo gen p;
        editorApplyUndos env s1 undos until undoundo1 gen p1
      })"

text \<open>The result holds the undo information that is left.\<close>

definition editorUndoUntil ::
  "environment \<Rightarrow> editor \<Rightarrow> editorUndo list \<Rightarrow> editorUndo list \<Rightarrow> editorUndo list option \<Rightarrow> ppc
    \<Rightarrow> (editor \<times> editorUndo list \<times> editorUndo list option \<times> ppc) option" where
  "editorUndoUntil env s undos until undoundo p = do {
     (s1, undoundo1, p1) \<leftarrow> editorApplyUndos env s undos until undoundo False p;
     Some (s1, until, undoundo1, p1)
   }"

definition applyWholeRefactoringFromUndo ::
  "environment \<Rightarrow> editor \<Rightarrow> editorUndo list \<Rightarrow> editorUndo list \<Rightarrow> ppc \<Rightarrow> (editor \<times> editorUndo list \<times> ppc) option" where
  "applyWholeRefactoringFromUndo env s undos refactoringStartingPoint p = do {
     (s1, undos1, redoTrack, p1) \<leftarrow> editorUndoUntil env s undos refactoringStartingPoint (Some []) p;
     redo \<leftarrow> redoTrack;
     (s2, _, p2) \<leftarrow> editorApplyUndos env s1 redo [] None True p1;
     Some (s2, undos1, p2)
   }"

section \<open>Undoing on texts\<close>

text \<open>
  What an entry does to the texts, when it can be applied, and the entry that takes it back. Entries
  that rename buffers are not covered: they create and free buffers.
\<close>

type_synonym texts = "nat \<Rightarrow> int list option"

fun undo_text :: "texts \<Rightarrow> editorUndo \<Rightarrow> texts" where
  "undo_text texts (UndoReplaceString b offset sz str) =
     (let t = the (texts b); d = min (nat sz) (length t - nat offset)
      in texts(b \<mapsto> take (nat offset) t @ str @ drop (nat offset + d) t))"
| "undo_text texts (UndoMoveBlock b offset sz db doffset) = move_text texts b (nat offset) db (nat doffset) (nat sz)"
| "undo_text texts (UndoRenameBuffer b name) = texts"

fun undo_valid :: "texts \<Rightarrow> editorUndo \<Rightarrow> bool" where
  "undo_valid texts (UndoReplaceString b offset sz str) \<longleftrightarrow>
     0 \<le> offset \<and> 0 \<le> sz \<and>
     (case texts b of None \<Rightarrow> False
      | Some t \<Rightarrow> nat offset + nat sz \<le> length t \<and> length t < text_limit \<and> length t - nat sz + length str < text_limit)"
| "undo_valid texts (UndoMoveBlock b offset sz db doffset) \<longleftrightarrow>
     0 \<le> offset \<and> 0 < sz \<and> 0 \<le> doffset \<and> \<not> (b = db \<and> offset < doffset \<and> doffset < offset + sz) \<and>
     (case (texts b, texts db) of
        (Some t, Some dt) \<Rightarrow> nat offset + nat sz \<le> length t \<and> nat doffset \<le> length dt
          \<and> length t < text_limit \<and> length dt + nat sz < text_limit
      | _ \<Rightarrow> False)"
| "undo_valid texts (UndoRenameBuffer b name) \<longleftrightarrow> False"

fun undo_inverse :: "texts \<Rightarrow> editorUndo \<Rightarrow> editorUndo" where
  "undo_inverse texts (UndoReplaceString b offset sz str) =
     UndoReplaceString b offset (int (length str)) (take (nat sz) (drop (nat offset) (the (texts b))))"
| "undo_inverse texts (UndoMoveBlock b offset sz db doffset) =
     UndoMoveBlock db (int (moved_to b (nat offset) db (nat doffset) (nat sz))) sz
       b (int (moved_from b (nat offset) db (nat doffset) (nat sz)))"
| "undo_inverse texts (UndoRenameBuffer b name) = UndoRenameBuffer b name"

text \<open>Moving a block and moving it back, on the pieces of the texts.\<close>

lemma move_text_within:
  assumes "texts b = Some (x @ block @ y @ z)" "sz = length block"
  shows "move_text texts b (length x) b (length x + sz + length y) sz = texts(b \<mapsto> x @ y @ block @ z)"
    and "texts b = Some (x @ block @ y @ z) \<Longrightarrow>
      move_text (texts(b \<mapsto> x @ y @ block @ z)) b (length x + length y) b (length x) sz = texts"
  using assms
  by (auto simp: move_text_def moved_from_def Let_def fun_eq_iff min_def)

lemma move_text_between:
  assumes "texts b = Some (x @ block @ y)" "texts db = Some (v @ w)" "b \<noteq> db" "sz = length block"
  shows "move_text texts b (length x) db (length v) sz = texts(b \<mapsto> x @ y, db \<mapsto> v @ block @ w)"
  using assms by (auto simp: move_text_def moved_from_def Let_def fun_eq_iff)

lemma split_block:
  assumes "offset + sz \<le> length t"
  obtains x block y where "t = x @ block @ y" "length x = offset" "length block = sz"
proof
  show "t = take offset t @ take sz (drop offset t) @ drop (offset + sz) t"
    by (metis append_take_drop_id drop_drop add.commute)
qed (use assms in simp_all)

lemma undo_move_inverse:
  fixes offset sz d :: nat
  assumes "texts b = Some t" "texts db = Some dt" "offset + sz \<le> length t" "d \<le> length dt"
    and "0 < sz" "\<not> (b = db \<and> offset < d \<and> d < offset + sz)"
  shows "move_text (move_text texts b offset db d sz) db (moved_to b offset db d sz)
      b (moved_from b offset db d sz) sz = texts"
proof (cases "b = db")
  case False
  from split_block [OF assms(3)] obtain x block y where t: "t = x @ block @ y" "length x = offset" "length block = sz" .
  have dt: "dt = take d dt @ drop d dt" "length (take d dt) = d" using assms(4) by simp_all
  let ?T = "texts(b \<mapsto> x @ y, db \<mapsto> take d dt @ block @ drop d dt)"
  have "move_text texts b offset db d sz = ?T"
    using move_text_between [of texts b x block y db "take d dt" "drop d dt" sz] assms(1,2) t dt False by simp
  moreover have "move_text ?T db d b offset sz = ?T(db \<mapsto> take d dt @ drop d dt, b \<mapsto> x @ block @ y)"
    using move_text_between [of ?T db "take d dt" block "drop d dt" b x y sz] t dt False by simp
  moreover have "?T(db \<mapsto> take d dt @ drop d dt, b \<mapsto> x @ block @ y) = texts"
    using False assms(1,2) t(1) by (auto simp: fun_eq_iff)
  ultimately show ?thesis using False by (simp add: moved_to_def moved_from_def)
next
  case True
  then have dt: "dt = t" using assms(1,2) by simp
  show ?thesis
  proof (cases "d \<le> offset")
    case le: True
    from split_block [OF assms(3)] obtain u block z where t: "t = u @ block @ z" "length u = offset" "length block = sz" .
    have "length (take d u) = d" using le t(2) by simp
    then obtain x y where "u = x @ y" "length x = d" by (metis append_take_drop_id)
    then have u: "t = x @ y @ block @ z" "length x = d" "length x + length y = offset" using t le by simp_all
    have e: "texts(b \<mapsto> x @ y @ block @ z) = texts" using assms(1) u(1) by (simp add: fun_upd_idem)
    have "move_text texts b offset b d sz = texts(b \<mapsto> x @ block @ y @ z)"
      using move_text_within(2) [where texts = "texts(b \<mapsto> x @ block @ y @ z)" and b = b and x = x and block = block
          and y = y and z = z and sz = sz] u(2,3) t(3) e by simp
    moreover have e2: "length x + sz + length y = offset + sz" using u(2,3) by simp
    have "move_text (texts(b \<mapsto> x @ block @ y @ z)) b (length x) b (offset + sz) sz = texts(b \<mapsto> x @ y @ block @ z)"
      by (subst e2 [symmetric], subst move_text_within(1)) (simp_all add: t(3))
    then have "move_text (texts(b \<mapsto> x @ block @ y @ z)) b d b (offset + sz) sz = texts(b \<mapsto> x @ y @ block @ z)"
      by (simp add: u(2))
    ultimately show ?thesis
      using True le e by (simp add: moved_to_def moved_from_def)
  next
    case False
    then have d: "offset + sz \<le> d" "offset < d" using assms(6) True by auto
    from split_block [OF assms(3)] obtain x block z0 where t: "t = x @ block @ z0" "length x = offset" "length block = sz" .
    have "length t = offset + sz + length z0" using t by simp
    then have "length (take (d - offset - sz) z0) = d - offset - sz" using d assms(4) dt by simp
    then obtain y z where z0: "z0 = y @ z" "length y = d - offset - sz" by (metis append_take_drop_id)
    then have u: "t = x @ block @ y @ z" "length x + sz + length y = d" "length x + length y = d - sz"
      using t d by auto
    have "move_text texts b offset b d sz = texts(b \<mapsto> x @ y @ block @ z)"
      using move_text_within(1) [of texts b x block y z sz] assms(1) u t(2,3) by simp
    moreover have "move_text (texts(b \<mapsto> x @ y @ block @ z)) b (d - sz) b offset sz = texts"
      using move_text_within(2) [of texts b x block y z sz] assms(1) u t(2,3) by simp
    ultimately show ?thesis using True d by (simp add: moved_to_def moved_from_def)
  qed
qed

lemma move_text_lengths:
  fixes offset sz d :: nat
  assumes "texts b = Some t" "texts db = Some dt" "offset + sz \<le> length t" "d \<le> length dt"
    and "\<not> (b = db \<and> offset < d \<and> d < offset + sz)"
  shows "b = db \<Longrightarrow> map_option length (move_text texts b offset db d sz b) = Some (length t)"
    and "b \<noteq> db \<Longrightarrow> map_option length (move_text texts b offset db d sz b) = Some (length t - sz)"
    and "b \<noteq> db \<Longrightarrow> map_option length (move_text texts b offset db d sz db) = Some (length dt + sz)"
  using assms by (auto simp: move_text_def moved_from_def Let_def)

lemma undo_inverse_law:
  assumes "undo_valid texts u"
  shows "undo_valid (undo_text texts u) (undo_inverse texts u) \<and> undo_text (undo_text texts u) (undo_inverse texts u) = texts"
proof (cases u)
  case (UndoReplaceString b offset sz str)
  with assms obtain t where t: "texts b = Some t" "0 \<le> offset" "0 \<le> sz" "nat offset + nat sz \<le> length t"
    "length t < text_limit" "length t - nat sz + length str < text_limit"
    by (auto split: option.splits)
  from split_block [OF t(4)] obtain x block y where
    "t = x @ block @ y" "length x = nat offset" "length block = nat sz" .
  then show ?thesis
    using t UndoReplaceString by (auto simp: Let_def fun_upd_idem)
next
  case (UndoMoveBlock b offset0 sz0 db d0)
  with assms have "0 \<le> offset0" "0 < sz0" "0 \<le> d0" by simp_all
  then obtain offset sz d where n: "offset0 = int offset" "sz0 = int sz" "d0 = int d"
    by (metis nonneg_int_cases order_less_imp_le)
  from assms UndoMoveBlock n obtain t dt where t: "texts b = Some t" "texts db = Some dt" "offset + sz \<le> length t"
    "d \<le> length dt" "length t < text_limit" "length dt + sz < text_limit" "0 < sz"
    "\<not> (b = db \<and> offset < d \<and> d < offset + sz)"
    by (auto split: option.splits)
  let ?T = "move_text texts b offset db d sz"
  note len = move_text_lengths [OF t(1,2,3,4,8)]
  have "undo_text (undo_text texts u) (undo_inverse texts u) = texts"
    using undo_move_inverse [OF t(1,2,3,4,7,8)] UndoMoveBlock n by simp
  moreover have "undo_valid (undo_text texts u) (undo_inverse texts u)"
  proof (cases "b = db")
    case True
    from len(1) True obtain t' where "?T b = Some t'" "length t' = length t" by auto
    moreover have "dt = t" using True t(1,2) by simp
    ultimately show ?thesis
      using True t(3-8) UndoMoveBlock n by (auto simp: moved_from_def moved_to_def)
  next
    case False
    from len(2,3) False obtain t' dt' where "?T b = Some t'" "length t' = length t - sz" "?T db = Some dt'"
      "length dt' = length dt + sz" by auto
    then show ?thesis using False t(3-8) UndoMoveBlock n by (simp add: moved_from_def moved_to_def)
  qed
  ultimately show ?thesis by blast
next
  case (UndoRenameBuffer b name)
  then show ?thesis using assms by simp
qed

section \<open>Applying an entry refines its effect on the texts\<close>

text \<open>Records are only written for strings that fit them.\<close>

fun recordable :: "editorUndo \<Rightarrow> bool" where
  "recordable (UndoReplaceString b offset sz str) \<longleftrightarrow> length str < MAX_PPC_RECORD_SIZE - 1"
| "recordable (UndoMoveBlock b offset sz db doffset) \<longleftrightarrow> True"
| "recordable (UndoRenameBuffer b name) \<longleftrightarrow> False"

lemma ppcGenRecord_None [simp]: "ppcGenRecord kind message p \<noteq> None \<longleftrightarrow> length message < MAX_PPC_RECORD_SIZE - 1"
  by (simp add: ppcGenRecord_def)

lemma apply_replace_law:
  fixes undoundo :: "editorUndo list option"
  assumes ok: "editor_ok s" and v: "undo_valid (text_of s) (UndoReplaceString b offset0 sz0 str)"
    and g: "gen \<Longrightarrow> length str < MAX_PPC_RECORD_SIZE - 1"
  shows "\<exists>s' p'. apply_replace s b offset0 sz0 str undoundo gen p
      = Some (s', map_option (Cons (undo_inverse (text_of s) (UndoReplaceString b offset0 sz0 str))) undoundo, p')
    \<and> editor_ok s' \<and> text_of s' = undo_text (text_of s) (UndoReplaceString b offset0 sz0 str)"
proof -
  from v have "0 \<le> offset0" "0 \<le> sz0" by simp_all
  then obtain offset sz where n: "offset0 = int offset" "sz0 = int sz" by (metis nonneg_int_cases)
  from v n obtain t where t: "text_of s b = Some t" "offset + sz \<le> length t" "length t - sz + length str < text_limit"
    by (auto split: option.splits)
  then obtain buffer where b: "ed_buffers s b = Some buffer" "eb_text buffer = t" by (auto simp: text_of_Some)
  have d: "sz = min sz (length t - offset)" and o: "offset \<le> length t" using t(2) by auto
  have "readable s b t offset sz (Chars str) (length str) (\<lambda>bytes. bytes = str)"
    by (simp add: readable_def copied_bytes_def)
  from replace_ok [OF ok t(1) o d t(3) this, of undoundo] obtain s' where
    s': "replaceStringInEditorBuffer s b (int offset) (int sz) (Chars str) (int (length str)) undoundo
      = Some (s', map_option (newUndoReplace b (int offset) (int (length str)) (take sz (drop offset t))) undoundo)"
      "editor_ok s'" "text_of s' = (text_of s)(b \<mapsto> take offset t @ str @ drop (offset + sz) t)" by blast
  obtain p' where p': "(if gen then if nat offset0 + nat sz0 \<le> length (eb_text buffer)
      then ppcReplace (eb_fileName buffer) offset0 (take (nat sz0) (drop (nat offset0) (eb_text buffer))) str p
      else None else Some p) = Some p'"
    using g t(2) n b(2) by (cases gen) (auto simp: ppcReplace_def ppcGenRecord_def Let_def)
  have "newUndoReplace b (int offset) (int (length str)) (take sz (drop offset t))
      = Cons (undo_inverse (text_of s) (UndoReplaceString b offset0 sz0 str))"
    using n t(1) by (simp add: newUndoReplace_def fun_eq_iff)
  then have "apply_replace s b offset0 sz0 str undoundo gen p
      = Some (s', map_option (Cons (undo_inverse (text_of s) (UndoReplaceString b offset0 sz0 str))) undoundo, p')"
    unfolding apply_replace_def b(1) bind.simps p' using s'(1) n by (simp del: undo_inverse.simps)
  moreover have "text_of s' = undo_text (text_of s) (UndoReplaceString b offset0 sz0 str)"
    using s'(3) n t(1) d by (simp add: Let_def)
  ultimately show ?thesis using s'(2) by blast
qed

lemma marker_text_ok:
  assumes "editor_ok s" "ed_markers s m = Some k"
  shows "\<exists>buffer. marker_text s m = Some (buffer, em_offset k)"
  using editor_ok_marker [OF assms] assms(2) by (auto simp: marker_text_def)

lemma apply_move_law:
  fixes undoundo :: "editorUndo list option"
  assumes ok: "editor_ok s" and v: "undo_valid (text_of s) (UndoMoveBlock b offset0 sz0 db d0)"
  shows "\<exists>s' p'. apply_move s b offset0 sz0 db d0 undoundo gen p
      = Some (s', map_option (Cons (undo_inverse (text_of s) (UndoMoveBlock b offset0 sz0 db d0))) undoundo, p')
    \<and> editor_ok s' \<and> text_of s' = undo_text (text_of s) (UndoMoveBlock b offset0 sz0 db d0)"
proof -
  from v have "0 \<le> offset0" "0 < sz0" "0 \<le> d0" by simp_all
  then obtain offset sz d where n: "offset0 = int offset" "sz0 = int sz" "d0 = int d"
    by (metis nonneg_int_cases order_less_imp_le)
  from v n obtain t dt where t: "text_of s b = Some t" "text_of s db = Some dt" "offset + sz \<le> length t"
    "d \<le> length dt" "length dt + sz < text_limit" "0 < sz" "\<not> (b = db \<and> offset < d \<and> d < offset + sz)"
    by (auto split: option.splits)
  let ?m1 = "ed_nextMarker s"
  from newEditorMarker_law [OF ok t(1), of offset0] n t(3) obtain s1 where
    s1: "newEditorMarker s b offset0 = Some (?m1, s1)" "editor_ok s1" "text_of s1 = text_of s"
      "ed_markers s1 = (ed_markers s)(?m1 \<mapsto> \<lparr>em_buffer = b, em_offset = offset0\<rparr>)" by auto
  let ?m2 = "ed_nextMarker s1"
  have "text_of s1 db = Some dt" using s1(3) t(2) by simp
  from newEditorMarker_law [OF s1(2) this, of d0] n t(4) obtain s2 where
    s2: "newEditorMarker s1 db d0 = Some (?m2, s2)" "editor_ok s2" "text_of s2 = text_of s1"
      "ed_markers s2 = (ed_markers s1)(?m2 \<mapsto> \<lparr>em_buffer = db, em_offset = d0\<rparr>)" by auto
  have ne: "?m2 \<noteq> ?m1" using s1(2,4) by (auto simp: editor_ok_def)
  have m1: "ed_markers s2 ?m1 = Some \<lparr>em_buffer = b, em_offset = int offset\<rparr>"
    using s1(4) s2(4) ne n by simp
  have m2: "ed_markers s2 ?m2 = Some \<lparr>em_buffer = db, em_offset = int d\<rparr>" using s2(4) n by simp
  have tx: "text_of s2 b = Some t" "text_of s2 db = Some dt" using s1(3) s2(3) t by simp_all
  obtain p1 where p1: "(if gen then map_option (ppcValueRecord PPC_REFACTORING_CUT_BLOCK sz0 []) (ppcGotoMarker s2 ?m1 p)
      else Some p) = Some p1"
    using marker_text_ok [OF s2(2) m1] by (cases gen) (auto simp: ppcGotoMarker_def ppcGenMarker_def)
  from moveBlock_law [OF s2(2) m1 m2 tx t(3,6,7,5), of undoundo] obtain s3 where
    s3: "moveBlockInEditorBuffer s2 ?m1 ?m2 (int sz) undoundo
      = Some (s3, map_option (newUndoMove db (int (moved_to b offset db d sz)) (int sz) b
          (int (moved_from b offset db d sz))) undoundo)"
      "editor_ok s3" "text_of s3 = move_text (text_of s2) b offset db d sz" "same_files s2 s3"
      "dom (ed_markers s3) = dom (ed_markers s2)"
    by (elim exE conjE) (rule that; assumption)
  have "?m1 \<in> dom (ed_markers s3)" "?m2 \<in> dom (ed_markers s3)"
    unfolding s3(5) using m1 m2 by (simp_all add: dom_def)
  then obtain k1 k2 where k: "ed_markers s3 ?m1 = Some k1" "ed_markers s3 ?m2 = Some k2"
    unfolding dom_def by blast
  obtain p2 where p2: "(if gen then Option.bind (ppcGotoMarker s3 ?m1 p1) (ppcGenRecord PPC_REFACTORING_PASTE_BLOCK [])
      else Some p1) = Some p2"
    using marker_text_ok [OF s3(2) k(1)]
    by (cases gen) (auto simp: ppcGotoMarker_def ppcGenMarker_def ppcGenRecord_def MAX_PPC_RECORD_SIZE_def)
  from freeEditorMarker_law [OF s3(2) k(2)] obtain s4 where
    s4: "freeEditorMarker s3 (Some ?m2) = Some s4" "editor_ok s4" "text_of s4 = text_of s3"
      "ed_markers s4 = (ed_markers s3)(?m2 := None)" by blast
  have "ed_markers s4 ?m1 = Some k1" using s4(4) k(1) ne by simp
  from freeEditorMarker_law [OF s4(2) this] obtain s5 where
    s5: "freeEditorMarker s4 (Some ?m1) = Some s5" "editor_ok s5" "text_of s5 = text_of s4" by blast
  have "newUndoMove db (int (moved_to b offset db d sz)) (int sz) b (int (moved_from b offset db d sz))
      = Cons (undo_inverse (text_of s) (UndoMoveBlock b offset0 sz0 db d0))"
    using n by (simp add: newUndoMove_def fun_eq_iff)
  then have s3': "moveBlockInEditorBuffer s2 ?m1 ?m2 sz0 undoundo
      = Some (s3, map_option (Cons (undo_inverse (text_of s) (UndoMoveBlock b offset0 sz0 db d0))) undoundo)"
    using s3(1) n(2) by (simp del: undo_inverse.simps)
  have "apply_move s b offset0 sz0 db d0 undoundo gen p
      = Some (s5, map_option (Cons (undo_inverse (text_of s) (UndoMoveBlock b offset0 sz0 db d0))) undoundo, p2)"
    by (simp add: apply_move_def s1(1) s2(1) p1 s3' p2 s4(1) s5(1) del: undo_inverse.simps split del: if_split)
  moreover have "text_of s5 = undo_text (text_of s) (UndoMoveBlock b offset0 sz0 db d0)"
    using s5(3) s4(3) s3(3) s2(3) s1(3) n by simp
  ultimately show ?thesis using s5(2) by blast
qed

lemma apply_undo_law:
  assumes "editor_ok s" "undo_valid (text_of s) u" "gen \<Longrightarrow> recordable u"
  shows "\<exists>s' p'. apply_undo env s u undoundo gen p
      = Some (s', map_option (Cons (undo_inverse (text_of s) u)) undoundo, p')
    \<and> editor_ok s' \<and> text_of s' = undo_text (text_of s) u"
proof (cases u)
  case (UndoReplaceString b offset sz str)
  then show ?thesis using apply_replace_law [of s b offset sz str gen undoundo p] assms by simp
next
  case (UndoMoveBlock b offset sz db d)
  then show ?thesis using apply_move_law [of s b offset sz db d undoundo gen p] assms(1,2) by simp
next
  case (UndoRenameBuffer b name)
  then show ?thesis using assms by simp
qed

section \<open>Tracks of entries\<close>

text \<open>A track leads from some texts to others; applied, it leaves the track back.\<close>

fun undo_track :: "texts \<Rightarrow> editorUndo list \<Rightarrow> texts \<Rightarrow> bool" where
  "undo_track texts [] texts' \<longleftrightarrow> texts = texts'"
| "undo_track texts (u # us) texts' \<longleftrightarrow> undo_valid texts u \<and> undo_track (undo_text texts u) us texts'"

fun track_back :: "texts \<Rightarrow> editorUndo list \<Rightarrow> editorUndo list \<Rightarrow> editorUndo list" where
  "track_back texts [] ret = ret"
| "track_back texts (u # us) ret = track_back (undo_text texts u) us (undo_inverse texts u # ret)"

lemma track_back_leads_back:
  "undo_track texts us texts' \<Longrightarrow> undo_track texts ret start \<Longrightarrow> undo_track texts' (track_back texts us ret) start"
proof (induction texts us ret rule: track_back.induct)
  case (2 texts u us ret)
  then have "undo_valid texts u" by simp
  from undo_inverse_law [OF this] 2 show ?case by simp
qed simp

text \<open>The entry back is recordable when the entry does not delete too much.\<close>

fun small_entry :: "editorUndo \<Rightarrow> bool" where
  "small_entry (UndoReplaceString b offset sz str) \<longleftrightarrow> sz < int MAX_PPC_RECORD_SIZE - 1"
| "small_entry (UndoMoveBlock b offset sz db doffset) \<longleftrightarrow> True"
| "small_entry (UndoRenameBuffer b name) \<longleftrightarrow> False"

lemma track_back_recordable:
  "list_all small_entry us \<Longrightarrow> list_all recordable ret \<Longrightarrow> list_all recordable (track_back texts us ret)"
proof (induction texts us ret rule: track_back.induct)
  case (2 texts u us ret)
  then have "recordable (undo_inverse texts u)" by (cases u) (auto simp: MAX_PPC_RECORD_SIZE_def)
  with 2 show ?case by simp
qed simp

lemma editorApplyUndos_law:
  "editor_ok s \<Longrightarrow> undo_track (text_of s) us texts' \<Longrightarrow> (gen \<Longrightarrow> list_all recordable us) \<Longrightarrow>
   \<exists>s' p'. editorApplyUndos env s (us @ until) until undoundo gen p
      = Some (s', map_option (track_back (text_of s) us) undoundo, p')
    \<and> editor_ok s' \<and> text_of s' = texts'"
proof (induction us arbitrary: s undoundo p)
  case Nil
  then show ?case by (cases until; cases undoundo) auto
next
  case (Cons u us)
  have ne: "u # us @ until \<noteq> until" by (metis append_Cons length_append less_add_same_cancel2 less_irrefl
      length_greater_0_conv list.discI)
  from apply_undo_law [OF Cons.prems(1), of u gen env undoundo p] Cons.prems(2,3) obtain s1 p1 where
    s1: "apply_undo env s u undoundo gen p = Some (s1, map_option (Cons (undo_inverse (text_of s) u)) undoundo, p1)"
      "editor_ok s1" "text_of s1 = undo_text (text_of s) u" by auto
  have "undo_track (text_of s1) us texts'" "gen \<Longrightarrow> list_all recordable us"
    using Cons.prems(2,3) s1(3) by simp_all
  from Cons.IH [OF s1(2) this, of "map_option (Cons (undo_inverse (text_of s) u)) undoundo" p1]
  obtain s' p' where s': "editorApplyUndos env s1 (us @ until) until (map_option (Cons (undo_inverse (text_of s) u)) undoundo) gen p1
      = Some (s', map_option (track_back (text_of s1) us) (map_option (Cons (undo_inverse (text_of s) u)) undoundo), p')"
    "editor_ok s'" "text_of s' = texts'" by blast
  have "map_option (track_back (text_of s1) us) (map_option (Cons (undo_inverse (text_of s) u)) undoundo)
      = map_option (track_back (text_of s) (u # us)) undoundo"
    using s1(3) by (cases undoundo) simp_all
  with s'(1) s1(1) ne have "editorApplyUndos env s ((u # us) @ until) until undoundo gen p
      = Some (s', map_option (track_back (text_of s) (u # us)) undoundo, p')" by simp
  with s'(2,3) show ?case by blast
qed

section \<open>The steps of a refactoring\<close>

text \<open>
  A refactoring makes and frees markers, replaces strings at markers and moves blocks, each of which
  adds to the undo information. Texts stay below the limit of an \<open>int\<close>, inserted strings below
  that of a record, and moved blocks are within their texts and not empty.
\<close>

inductive refactoring_step :: "editor \<times> editorUndo list \<Rightarrow> editor \<times> editorUndo list \<Rightarrow> bool" where
  replaces: "\<lbrakk>ed_markers s m = Some k; text_of s (em_buffer k) = Some t; length t + length str < text_limit;
     length str < MAX_PPC_RECORD_SIZE - 1; 0 \<le> len; replaceString s m len str undo = Some (s', Some undo')\<rbrakk>
   \<Longrightarrow> refactoring_step (s, undo) (s', undo')"
| moves: "\<lbrakk>ed_markers s sm = Some k; ed_markers s dm = Some dk; text_of s (em_buffer k) = Some t;
     text_of s (em_buffer dk) = Some dt; em_offset k + sz \<le> int (length t); 0 < sz;
     length dt + nat sz < text_limit; moveBlockInEditorBuffer s sm dm sz (Some undo) = Some (s', Some undo')\<rbrakk>
   \<Longrightarrow> refactoring_step (s, undo) (s', undo')"
| marks: "\<lbrakk>text_of s b = Some t; 0 \<le> x; x \<le> int (length t); newEditorMarker s b x = Some (m, s')\<rbrakk>
   \<Longrightarrow> refactoring_step (s, undo) (s', undo)"
| frees: "freeEditorMarker s (Some m) = Some s' \<Longrightarrow> refactoring_step (s, undo) (s', undo)"

definition refactoring_inv :: "texts \<Rightarrow> editorUndo list \<Rightarrow> editor \<times> editorUndo list \<Rightarrow> bool" where
  "refactoring_inv start starting_point st \<longleftrightarrow>
     editor_ok (fst st) \<and> (\<exists>us. snd st = us @ starting_point \<and> undo_track (text_of (fst st)) us start \<and> list_all small_entry us)"

lemma refactoring_inv_entry:
  assumes "refactoring_inv start starting_point (s, undo)" "editor_ok s'" "undo_valid (text_of s) u"
    and "text_of s' = undo_text (text_of s) u" "small_entry (undo_inverse (text_of s) u)"
  shows "refactoring_inv start starting_point (s', undo_inverse (text_of s) u # undo)"
proof -
  from assms(1) obtain us where us: "undo = us @ starting_point" "undo_track (text_of s) us start" "list_all small_entry us"
    by (auto simp: refactoring_inv_def)
  have "undo_track (text_of s') (undo_inverse (text_of s) u # us) start"
    using undo_inverse_law [OF assms(3)] us(2) assms(4) by simp
  then show ?thesis
    using us(1,3) assms(2,5) unfolding refactoring_inv_def
    by (intro conjI exI [of _ "undo_inverse (text_of s) u # us"]) simp_all
qed

lemma refactoring_inv_same:
  "refactoring_inv start starting_point (s, undo) \<Longrightarrow> editor_ok s' \<Longrightarrow> text_of s' = text_of s \<Longrightarrow>
   refactoring_inv start starting_point (s', undo)"
  by (auto simp: refactoring_inv_def)

lemma replace_step_inv:
  assumes inv: "refactoring_inv start starting_point (s, undo)"
    and k: "ed_markers s m = Some k" and t: "text_of s (em_buffer k) = Some t"
    and limit: "length t + length str < text_limit" "length str < MAX_PPC_RECORD_SIZE - 1" and len: "0 \<le> len"
    and run: "replaceString s m len str undo = Some (s', Some undo')"
  shows "refactoring_inv start starting_point (s', undo')"
proof -
  have ok: "editor_ok s" using inv by (simp add: refactoring_inv_def)
  from editor_ok_marker [OF ok k] t obtain offset where o: "em_offset k = int offset" "offset \<le> length t"
    by (metis text_of_Some nonneg_int_cases of_nat_le_iff option.inject)
  from len obtain sz where sz: "len = int sz" by (metis nonneg_int_cases)
  let ?d = "min sz (length t - offset)"
  let ?u = "UndoReplaceString (em_buffer k) (int offset) (int ?d) str"
  have d: "offset + ?d \<le> length t" "length t - ?d + length str < text_limit" "length t < text_limit"
    using o(2) limit(1) by auto
  have r: "readable s (em_buffer k) t offset ?d (Chars str) (length str) (\<lambda>bytes. bytes = str)"
    by (simp add: readable_def copied_bytes_def)
  from replace_ok [OF ok t o(2) refl d(2) r, of "Some undo"] obtain s1 where
    s1: "replaceStringInEditorBuffer s (em_buffer k) (int offset) (int sz) (Chars str) (int (length str)) (Some undo)
      = Some (s1, Some (newUndoReplace (em_buffer k) (int offset) (int (length str)) (take ?d (drop offset t)) undo))"
      "editor_ok s1" "text_of s1 = (text_of s)(em_buffer k \<mapsto> take offset t @ str @ drop (offset + ?d) t)" by auto
  have s': "s' = s1" "undo' = undo_inverse (text_of s) ?u # undo"
    using run s1(1) k o(1) sz t by (simp_all add: replaceString_def newUndoReplace_def)
  have v: "undo_valid (text_of s) ?u" using t d by simp
  have x: "text_of s1 = undo_text (text_of s) ?u" using t s1(3) d(1) by (simp add: Let_def min_def)
  have e: "small_entry (undo_inverse (text_of s) ?u)" using limit(2) by (auto simp: MAX_PPC_RECORD_SIZE_def)
  from refactoring_inv_entry [OF inv s1(2) v x e] show ?thesis unfolding s' .
qed

lemma move_step_inv:
  assumes inv: "refactoring_inv start starting_point (s, undo)"
    and k: "ed_markers s sm = Some k" "ed_markers s dm = Some dk"
    and t: "text_of s (em_buffer k) = Some t" "text_of s (em_buffer dk) = Some dt"
    and sz: "em_offset k + sz0 \<le> int (length t)" "0 < sz0" and limit: "length dt + nat sz0 < text_limit"
    and run: "moveBlockInEditorBuffer s sm dm sz0 (Some undo) = Some (s', Some undo')"
  shows "refactoring_inv start starting_point (s', undo')"
proof (cases "em_buffer dk = em_buffer k \<and> em_offset dk > em_offset k \<and> em_offset dk < em_offset k + sz0")
  case True
  then have "s' = s" "undo' = undo" using run k sz(2) by (simp_all add: moveBlockInEditorBuffer_def)
  then show ?thesis using inv by simp
next
  case False
  have ok: "editor_ok s" using inv by (simp add: refactoring_inv_def)
  obtain sz where n: "sz0 = int sz" using sz(2) by (metis nonneg_int_cases order_less_imp_le)
  from editor_ok_marker [OF ok k(1)] obtain offset where o: "em_offset k = int offset" by (metis nonneg_int_cases)
  from editor_ok_marker [OF ok k(2)] t(2) obtain d where d: "em_offset dk = int d" "d \<le> length dt"
    by (metis text_of_Some nonneg_int_cases of_nat_le_iff option.inject)
  let ?u = "UndoMoveBlock (em_buffer k) (int offset) (int sz) (em_buffer dk) (int d)"
  have k': "ed_markers s sm = Some \<lparr>em_buffer = em_buffer k, em_offset = int offset\<rparr>"
    "ed_markers s dm = Some \<lparr>em_buffer = em_buffer dk, em_offset = int d\<rparr>" using k o d(1) by (cases k; cases dk; simp)+
  have c: "offset + sz \<le> length t" "0 < sz" "\<not> (em_buffer k = em_buffer dk \<and> offset < d \<and> d < offset + sz)"
    "length dt + sz < text_limit" using sz n o d False limit by auto
  from moveBlock_law [OF ok k' t c, of "Some undo"] obtain s1 where
    s1: "moveBlockInEditorBuffer s sm dm (int sz) (Some undo)
      = Some (s1, Some (newUndoMove (em_buffer dk) (int (moved_to (em_buffer k) offset (em_buffer dk) d sz)) (int sz)
          (em_buffer k) (int (moved_from (em_buffer k) offset (em_buffer dk) d sz)) undo))"
      "editor_ok s1" "text_of s1 = move_text (text_of s) (em_buffer k) offset (em_buffer dk) d sz" by auto
  have s': "s' = s1" "undo' = undo_inverse (text_of s) ?u # undo"
    using run s1(1) n by (simp_all add: newUndoMove_def)
  have "length t < text_limit" using editor_okD(2) [OF ok] t(1) by (auto simp: text_of_Some)
  then have v: "undo_valid (text_of s) ?u" using t c d(2) by auto
  have x: "text_of s1 = undo_text (text_of s) ?u" using s1(3) by simp
  have e: "small_entry (undo_inverse (text_of s) ?u)" by simp
  from refactoring_inv_entry [OF inv s1(2) v x e] show ?thesis unfolding s' .
qed

lemma refactoring_step_inv:
  "refactoring_step st st' \<Longrightarrow> refactoring_inv start starting_point st \<Longrightarrow> refactoring_inv start starting_point st'"
proof (induction rule: refactoring_step.induct)
  case (replaces s m k t str len undo s' undo')
  then show ?case using replace_step_inv by blast
next
  case (moves s sm k dm dk t dt sz undo s' undo')
  then show ?case using move_step_inv by blast
next
  case (marks s b t x m s' undo)
  then have "editor_ok s" by (simp add: refactoring_inv_def)
  from newEditorMarker_law [OF this marks(1,2,3)] marks(4) have "editor_ok s'" "text_of s' = text_of s" by auto
  with marks(5) show ?case by (rule refactoring_inv_same)
next
  case (frees s m s' undo)
  then have ok: "editor_ok s" by (simp add: refactoring_inv_def)
  from frees(1) obtain k where "ed_markers s m = Some k"
    by (auto simp: freeEditorMarker_def removeEditorMarkerFromBufferWithoutFreeing_def bind_eq_Some_iff)
  from freeEditorMarker_law [OF ok this] frees(1) have "editor_ok s'" "text_of s' = text_of s" by auto
  with frees(2) show ?case by (rule refactoring_inv_same)
qed

lemma refactoring_invI:
  assumes "editor_ok s" "refactoring_step\<^sup>*\<^sup>* (s, starting_point) (s', undos)"
  shows "refactoring_inv (text_of s) starting_point (s', undos)"
  using assms(2)
proof (induction rule: rtranclp_induct)
  case base
  show ?case using assms(1) by (simp add: refactoring_inv_def)
next
  case (step y z)
  then show ?case using refactoring_step_inv by blast
qed

section \<open>Properties\<close>





end
