(* ===== verification/Rebuild.thy ===== *)
theory Rebuild
  imports Freshness EditorFiles LexemBuffer
begin

text \<open>
  Models \<^verbatim>\<open>rebuild.c\<close>, and the closing of buffers the client no longer holds of \<^verbatim>\<open>editor.c\<close>: which
  compilation units a request builds again, and which references are removed first. The files and
  their items are those of the \<^typ>\<open>editor\<close>; parsing a unit and saving the references are
  parameters (\<open>parse\<close>, \<open>save\<close>). The array \<open>built\<close> is a function of the file number.
\<close>

section \<open>The build list\<close>

record buildList =
  bl_fileNumbers :: "int list"
  bl_capacity :: nat
  bl_skippedCapped :: nat
  bl_built :: "int \<Rightarrow> bool"
  bl_stripRequest :: bool

definition newBuildList :: "nat \<Rightarrow> buildList" where
  "newBuildList capacity =
     \<lparr>bl_fileNumbers = [], bl_capacity = capacity, bl_skippedCapped = 0, bl_built = (\<lambda>_. False),
      bl_stripRequest = False\<rparr>"

definition buildListCount :: "buildList \<Rightarrow> nat" where
  "buildListCount list = length (bl_fileNumbers list)"

definition addToBuildList :: "buildList \<Rightarrow> int \<Rightarrow> bool \<times> buildList" where
  "addToBuildList list fileNumber =
     (if bl_built list fileNumber then (True, list)
      else if length (bl_fileNumbers list) < bl_capacity list
      then (True, list\<lparr>bl_fileNumbers := bl_fileNumbers list @ [fileNumber],
                       bl_built := (bl_built list)(fileNumber := True)\<rparr>)
      else (False, list\<lparr>bl_skippedCapped := bl_skippedCapped list + 1\<rparr>))"

definition is_cu :: "environment \<Rightarrow> fileItem \<Rightarrow> bool" where
  "is_cu env item = isCompilationUnit (env_fileNamesCaseSensitive env) (env_cFilesSuffixes env) (fi_name item)"

definition out_of_date :: "environment \<Rightarrow> editor \<Rightarrow> prerequisites \<Rightarrow> int \<Rightarrow> (bool \<times> prerequisites) option" where
  "out_of_date env s pr fileNumber = knowledgeIsOutOfDate (fs_of env s) (ed_fileTable s) pr fileNumber"

section \<open>Collecting units\<close>

definition collectRequestCUForStripping ::
  "environment \<Rightarrow> editor \<Rightarrow> buildList \<Rightarrow> prerequisites \<Rightarrow> int \<Rightarrow> (buildList \<times> prerequisites) option" where
  "collectRequestCUForStripping env s list pr requestFileNumber = do {
     item \<leftarrow> file_item (ed_fileTable s) requestFileNumber;
     if is_cu env item then do {
       (old, pr1) \<leftarrow> out_of_date env s pr requestFileNumber;
       Some (if old then list\<lparr>bl_built := (bl_built list)(requestFileNumber := True), bl_stripRequest := True\<rparr>
             else list, pr1)
     } else Some (list, pr)
   }"

definition collectRequestCUToBuild ::
  "environment \<Rightarrow> editor \<Rightarrow> buildList \<Rightarrow> prerequisites \<Rightarrow> int \<Rightarrow> (buildList \<times> prerequisites) option" where
  "collectRequestCUToBuild env s list pr requestFileNumber = do {
     item \<leftarrow> file_item (ed_fileTable s) requestFileNumber;
     if is_cu env item then do {
       (old, pr1) \<leftarrow> out_of_date env s pr requestFileNumber;
       Some (if old then snd (addToBuildList list requestFileNumber) else list, pr1)
     } else Some (list, pr)
   }"

definition remove_references :: "int \<Rightarrow> editor \<Rightarrow> editor" where
  "remove_references fileNumber s = s\<lparr>ed_itemTable := removeReferenceableItemsForFile (ed_itemTable s) fileNumber\<rparr>"

definition stripRequestCU :: "editor \<Rightarrow> buildList \<Rightarrow> int \<Rightarrow> editor" where
  "stripRequestCU s list requestFileNumber =
     (if bl_stripRequest list then remove_references requestFileNumber s else s)"

definition MAX_INCLUDE_WALK_FILES :: nat where
  "MAX_INCLUDE_WALK_FILES = 256"

text \<open>The loop over the includers.\<close>

fun includers_cu_loop :: "environment \<Rightarrow> editor \<Rightarrow> nat \<Rightarrow> int list \<Rightarrow> int list \<Rightarrow> int list option" where
  "includers_cu_loop env s maxCUs [] cus = Some cus"
| "includers_cu_loop env s maxCUs (includer # includers) cus = do {
     item \<leftarrow> file_item (ed_fileTable s) includer;
     includers_cu_loop env s maxCUs includers
       (if is_cu env item \<and> includer \<notin> set cus \<and> length cus < maxCUs then cus @ [includer] else cus)
   }"

definition collectCUsIncluding ::
  "environment \<Rightarrow> editor \<Rightarrow> prerequisites \<Rightarrow> int \<Rightarrow> int list \<Rightarrow> nat \<Rightarrow> int list option" where
  "collectCUsIncluding env s pr fileNumber cus maxCUs = do {
     _ \<leftarrow> file_item (ed_fileTable s) fileNumber;
     includers_cu_loop env s maxCUs (snd (collectIncluderClosureOf pr fileNumber MAX_INCLUDE_WALK_FILES)) cus
   }"

text \<open>The loops over the units that reach one header, and over the headers.\<close>

fun siblings_loop ::
  "environment \<Rightarrow> editor \<Rightarrow> int \<Rightarrow> int list \<Rightarrow> buildList \<times> prerequisites \<times> (int \<Rightarrow> bool)
    \<Rightarrow> (buildList \<times> prerequisites \<times> (int \<Rightarrow> bool)) option" where
  "siblings_loop env s request [] st = Some st"
| "siblings_loop env s request (m # ms) (list, pr, asked) =
     (if m = request then siblings_loop env s request ms (list, pr, asked)
      else do {
        _ \<leftarrow> file_item (ed_fileTable s) m;
        if asked m then siblings_loop env s request ms (list, pr, asked)
        else if bl_built list m then siblings_loop env s request ms (list, pr, asked(m := True))
        else do {
          (old, pr1) \<leftarrow> out_of_date env s pr m;
          siblings_loop env s request ms
            (if old then snd (addToBuildList list m) else list, pr1, asked(m := True))
        }
      })"

fun headers_loop ::
  "environment \<Rightarrow> editor \<Rightarrow> int \<Rightarrow> int list \<Rightarrow> buildList \<times> prerequisites \<times> (int \<Rightarrow> bool)
    \<Rightarrow> (buildList \<times> prerequisites \<times> (int \<Rightarrow> bool)) option" where
  "headers_loop env s request [] st = Some st"
| "headers_loop env s request (h # hs) (list, pr, asked) = do {
     item \<leftarrow> file_item (ed_fileTable s) h;
     if is_cu env item then headers_loop env s request hs (list, pr, asked)
     else do {
       siblingCUs \<leftarrow> collectCUsIncluding env s pr h [] (nat MAX_FILES);
       st1 \<leftarrow> siblings_loop env s request siblingCUs (list, pr, asked);
       headers_loop env s request hs st1
     }
   }"

definition collectSiblingCUs ::
  "environment \<Rightarrow> editor \<Rightarrow> buildList \<Rightarrow> prerequisites \<Rightarrow> int \<Rightarrow> (buildList \<times> prerequisites) option" where
  "collectSiblingCUs env s list pr requestFileNumber = do {
     _ \<leftarrow> file_item (ed_fileTable s) requestFileNumber;
     let (headerCount, headers) = collectIncludeClosureOf pr requestFileNumber (nat MAX_FILES);
     if headerCount > nat MAX_FILES then None
     else do {
       (list1, pr1, _) \<leftarrow> headers_loop env s requestFileNumber (requestFileNumber # headers) (list, pr, \<lambda>_. False);
       Some (list1, pr1)
     }
   }"

definition collect_out_of_date ::
  "environment \<Rightarrow> editor \<Rightarrow> nat \<Rightarrow> fileItem \<Rightarrow> (buildList \<times> prerequisites) option
    \<Rightarrow> (buildList \<times> prerequisites) option" where
  "collect_out_of_date env s i item st = do {
     (list, pr) \<leftarrow> st;
     if is_cu env item \<and> \<not> fi_isDeleted item then do {
       (old, pr1) \<leftarrow> out_of_date env s pr (int i);
       Some (if old then snd (addToBuildList list (int i)) else list, pr1)
     } else Some (list, pr)
   }"

definition collectOutOfDateCUs ::
  "environment \<Rightarrow> editor \<Rightarrow> buildList \<Rightarrow> prerequisites \<Rightarrow> (buildList \<times> prerequisites) option" where
  "collectOutOfDateCUs env s list pr =
     fold_files (ed_fileTable s) (collect_out_of_date env s) 0 (Some (list, pr))"

definition heldCUIsOutOfDate ::
  "environment \<Rightarrow> editor \<Rightarrow> prerequisites \<Rightarrow> editorBuffer \<Rightarrow> (bool \<times> prerequisites) option" where
  "heldCUIsOutOfDate env s pr buffer =
     (if \<not> holdsAuthoritativeContent buffer then Some (False, pr)
      else do {
        item \<leftarrow> file_item (ed_fileTable s) (eb_fileNumber buffer);
        if \<not> fi_isDeleted item \<and> is_cu env item then out_of_date env s pr (eb_fileNumber buffer)
        else Some (False, pr)
      })"

definition collect_held ::
  "environment \<Rightarrow> nat \<Rightarrow> editor \<times> buildList \<times> prerequisites \<Rightarrow> (editor \<times> buildList \<times> prerequisites) option" where
  "collect_held env b st =
     (let (s, list, pr) = st in do {
       buffer \<leftarrow> ed_buffers s b;
       item \<leftarrow> file_item (ed_fileTable s) (eb_fileNumber buffer);
       (old, pr1) \<leftarrow> heldCUIsOutOfDate env s pr buffer;
       if \<not> old then Some (s, list, pr1)
       else if \<not> editorFileExists_of env s (fi_name item) then do {
         s1 \<leftarrow> mark_deleted s (eb_fileNumber buffer);
         Some (s1, list, pr1)
       } else Some (s, snd (addToBuildList list (eb_fileNumber buffer)), pr1)
     })"

definition collectOutOfDateHeldCUs ::
  "environment \<Rightarrow> editor \<Rightarrow> buildList \<Rightarrow> prerequisites \<Rightarrow> (editor \<times> buildList \<times> prerequisites) option" where
  "collectOutOfDateHeldCUs env s list pr = for_each (collect_held env) (all_buffers s) (s, list, pr)"

section \<open>Removing references\<close>

definition update_file :: "editor \<Rightarrow> int \<Rightarrow> (fileItem \<Rightarrow> fileItem) \<Rightarrow> editor option" where
  "update_file s fileNumber f =
     (if fileNumber < 0 then None
      else do {
        table \<leftarrow> update_item (ed_fileTable s) (nat fileNumber) f;
        Some (s\<lparr>ed_fileTable := table\<rparr>)
      })"

definition markAllCompilationUnitsStale :: "environment \<Rightarrow> editor \<Rightarrow> editor option" where
  "markAllCompilationUnitsStale env s =
     fold_files (ed_fileTable s)
       (\<lambda>i item st. do {
          s1 \<leftarrow> st;
          if is_cu env item then update_file s1 (int i) (\<lambda>item. item\<lparr>fi_knowledgeTime := nullTimestamp\<rparr>)
          else Some s1
        }) 0 (Some s)"

text \<open>The first header of a closure that has changed.\<close>

definition changed_in :: "(int \<Rightarrow> timestamp) \<Rightarrow> int list \<Rightarrow> int option" where
  "changed_in changedAt closure = find (\<lambda>c. \<not> fileTimestampIsZero (changedAt c)) closure"

definition includer_of_changed ::
  "prerequisites \<Rightarrow> (int \<Rightarrow> timestamp) \<Rightarrow> int \<Rightarrow> editor \<Rightarrow> editor option" where
  "includer_of_changed pr changedAt h s =
     (if \<not> fileTimestampIsZero (changedAt h) then Some s
      else
        (case changed_in changedAt (snd (collectIncludeClosureOf pr h (nat MAX_FILES))) of
           None \<Rightarrow> Some s
         | Some c \<Rightarrow>
             update_file (remove_references h s) h
               (\<lambda>item. if fileTimestampIsLessThan (fi_changeTime item) (changedAt c)
                       then item\<lparr>fi_changeTime := changedAt c\<rparr> else item)))"

definition removeReferencesOfIncludersOfChanged ::
  "prerequisites \<Rightarrow> int list \<Rightarrow> (int \<Rightarrow> timestamp) \<Rightarrow> editor \<Rightarrow> editor option" where
  "removeReferencesOfIncludersOfChanged pr headers changedAt s =
     for_each (includer_of_changed pr changedAt) headers s"

definition contentTimeOf :: "file_system \<Rightarrow> fileItem \<Rightarrow> timestamp" where
  "contentTimeOf fs fileItem =
     (let contentTime = editorFileModificationTime fs (fi_name fileItem) in
      if fileTimestampIsLessThan contentTime (fi_letGoTime fileItem) then fi_letGoTime fileItem else contentTime)"

record removal =
  rm_headers :: "int list"
  rm_changedAt :: "int \<Rightarrow> timestamp"
  rm_anyChanged :: bool

definition remove_changed ::
  "environment \<Rightarrow> file_system \<Rightarrow> nat \<Rightarrow> fileItem \<Rightarrow> (editor \<times> removal) option \<Rightarrow> (editor \<times> removal) option" where
  "remove_changed env fs i item st = do {
     (s, r) \<leftarrow> st;
     if is_cu env item then Some (s, r)
     else
       (let r1 = r\<lparr>rm_headers := rm_headers r @ [int i]\<rparr>;
            contentTime = contentTimeOf fs item in
        if fileTimestampIsZero (fi_changeTime item) then do {
          s1 \<leftarrow> update_file s (int i) (\<lambda>item. item\<lparr>fi_changeTime := contentTime\<rparr>);
          Some (s1, r1)
        }
        else if fileTimestampIsLessThan (fi_changeTime item) contentTime then do {
          s1 \<leftarrow> update_file (remove_references (int i) s) (int i)
                  (\<lambda>item. item\<lparr>fi_needsBrowsingStackRefresh := True, fi_changeTime := contentTime\<rparr>);
          Some (s1, r1\<lparr>rm_changedAt := (rm_changedAt r1)(int i := contentTime), rm_anyChanged := True\<rparr>)
        }
        else Some (s, r1))
   }"

definition removeReferencesOfChangedFiles :: "environment \<Rightarrow> editor \<Rightarrow> prerequisites \<Rightarrow> editor option" where
  "removeReferencesOfChangedFiles env s pr = do {
     (s1, r) \<leftarrow> fold_files (ed_fileTable s) (remove_changed env (fs_of env s)) 0
                 (Some (s, \<lparr>rm_headers = [], rm_changedAt = (\<lambda>_. nullTimestamp), rm_anyChanged = False\<rparr>));
     if rm_anyChanged r then removeReferencesOfIncludersOfChanged pr (rm_headers r) (rm_changedAt r) s1
     else Some s1
   }"

definition letGoOfHeldHeader :: "editor \<Rightarrow> int \<Rightarrow> editor option" where
  "letGoOfHeldHeader s fileNumber =
     (let (now, s1) = fileTimestampNow s in
      update_file s1 fileNumber (\<lambda>item. item\<lparr>fi_letGoTime := changeTimeNow now\<rparr>))"

definition close_held ::
  "environment \<Rightarrow> nat \<Rightarrow> editor \<times> buildList \<Rightarrow> (editor \<times> buildList) option" where
  "close_held env b st =
     (let (s, list) = st in do {
       buffer \<leftarrow> ed_buffers s b;
       if holdsAuthoritativeContent buffer \<and> \<not> eb_heldThisRequest buffer then do {
         let fileNumber = eb_fileNumber buffer;
         let (found, s1) = deregisterEditorBuffer s (eb_fileName buffer);
         s2 \<leftarrow> freeEditorBuffer s1 found;
         item \<leftarrow> file_item (ed_fileTable s2) fileNumber;
         if env_fileExists env (fi_name item) then
           (if is_cu env item then Some (s2, snd (addToBuildList list fileNumber))
            else do { s3 \<leftarrow> letGoOfHeldHeader s2 fileNumber; Some (s3, list) })
         else do { s3 \<leftarrow> mark_deleted s2 fileNumber; Some (s3, list) }
       } else Some (s, list)
     })"

definition closeEditorBuffersNoLongerHeld ::
  "environment \<Rightarrow> editor \<Rightarrow> buildList \<Rightarrow> (editor \<times> buildList) option" where
  "closeEditorBuffersNoLongerHeld env s list =
     for_each (close_held env) (computeListOfAllEditorBuffers s) (s, list)"

section \<open>Building\<close>

definition buildKnowledgeOfCU ::
  "environment \<Rightarrow> (string \<Rightarrow> editor \<Rightarrow> bool \<times> editor) \<Rightarrow> int \<Rightarrow> editor \<Rightarrow> editor option" where
  "buildKnowledgeOfCU env parse fileNumber s = do {
     item \<leftarrow> file_item (ed_fileTable s) fileNumber;
     if \<not> editorFileExists_of env s (fi_name item) then mark_deleted s fileNumber
     else do {
       let (knowledgeTime, s1) = fileTimestampNow (remove_references fileNumber s);
       let (parsed, s2) = parse (fi_name item) s1;
       if parsed then update_file s2 fileNumber (\<lambda>item. item\<lparr>fi_knowledgeTime := knowledgeTime\<rparr>)
       else Some s2
     }
   }"

text \<open>The references are saved after every hundred units.\<close>

fun build_all_loop ::
  "environment \<Rightarrow> (string \<Rightarrow> editor \<Rightarrow> bool \<times> editor) \<Rightarrow> (editor \<Rightarrow> editor) \<Rightarrow> nat \<Rightarrow> int list
    \<Rightarrow> editor \<Rightarrow> editor option" where
  "build_all_loop env parse save i [] s = Some s"
| "build_all_loop env parse save i (n # ns) s = do {
     s1 \<leftarrow> buildKnowledgeOfCU env parse n s;
     s2 \<leftarrow> update_file s1 n (\<lambda>item. item\<lparr>fi_needsBrowsingStackRefresh := True\<rparr>);
     build_all_loop env parse save (i + 1) ns (if (i + 1) mod 100 = 0 then save s2 else s2)
   }"

definition buildKnowledgeOfAll ::
  "environment \<Rightarrow> (string \<Rightarrow> editor \<Rightarrow> bool \<times> editor) \<Rightarrow> (editor \<Rightarrow> editor) \<Rightarrow> buildList \<Rightarrow> editor \<Rightarrow> editor option" where
  "buildKnowledgeOfAll env parse save list s = build_all_loop env parse save 0 (bl_fileNumbers list) s"

section \<open>The files of the table\<close>

definition existing_files :: "file_table \<Rightarrow> nat \<Rightarrow> (nat \<times> fileItem) list" where
  "existing_files table k =
     List.map_filter (\<lambda>i. map_option (Pair i) (tab_tab table ! i)) [k..<tab_size table]"

lemma fold_files_list: "fold_files table f k st = fold (\<lambda>(i, item). f i item) (existing_files table k) st"
proof (induction table f k st rule: fold_files.induct)
  case (1 table f k st)
  show ?case
  proof (cases "k < tab_size table")
    case True
    then have "[k..<tab_size table] = k # [k + 1..<tab_size table]" by (simp add: upt_conv_Cons)
    then have e: "existing_files table k
        = (case tab_tab table ! k of None \<Rightarrow> [] | Some item \<Rightarrow> [(k, item)]) @ existing_files table (k + 1)"
      by (simp add: existing_files_def List.map_filter_def split: option.splits)
    show ?thesis using 1 True e by (subst fold_files.simps) (auto split: option.splits)
  next
    case False
    then show ?thesis by (subst fold_files.simps) (simp add: existing_files_def List.map_filter_def)
  qed
qed

lemma existing_files_iff:
  "(i, item) \<in> set (existing_files table 0) \<longleftrightarrow> file_item table (int i) = Some item"
  by (force simp: existing_files_def List.map_filter_def file_item_def getFileItemWithFileNumber_def)

lemma existing_files_distinct: "distinct (map fst (existing_files table k))"
proof -
  have "map fst (List.map_filter (\<lambda>i. map_option (Pair i) (g i)) xs) = filter (\<lambda>i. g i \<noteq> None) xs"
    for g :: "nat \<Rightarrow> fileItem option" and xs
    by (induction xs) (auto simp: List.map_filter_def)
  then show ?thesis by (simp add: existing_files_def)
qed

lemma fold_option: "fold (\<lambda>x st. Option.bind st (f x)) xs (Some s) = for_each f xs s"
proof (induction xs arbitrary: s)
  case (Cons x xs)
  have "fold (\<lambda>x st. Option.bind st (f x)) xs None = None" by (induction xs) simp_all
  then show ?case using Cons by (cases "f x s") simp_all
qed simp

section \<open>What goes on the list\<close>

text \<open>The numbers of the units of the project whose knowledge is out of date.\<close>

definition stale_cus :: "environment \<Rightarrow> editor \<Rightarrow> (int \<times> int) set \<Rightarrow> int list" where
  "stale_cus env s R = map (int \<circ> fst) (filter (\<lambda>(i, item). is_cu env item \<and> \<not> fi_isDeleted item
     \<and> \<not> current (fs_of env s) (ed_fileTable s) R (int i) item) (existing_files (ed_fileTable s) 0))"

text \<open>Adding numbers that are not on the list fills it up to its capacity and counts the rest.\<close>

definition added :: "buildList \<Rightarrow> int list \<Rightarrow> buildList" where
  "added list ns =
     (let room = bl_capacity list - length (bl_fileNumbers list) in
      list\<lparr>bl_fileNumbers := bl_fileNumbers list @ take room ns,
           bl_built := (\<lambda>n. bl_built list n \<or> n \<in> set (take room ns)),
           bl_skippedCapped := bl_skippedCapped list + (length ns - room)\<rparr>)"

lemma added_Cons:
  assumes "\<not> bl_built list n" "n \<notin> set ns"
  shows "added (snd (addToBuildList list n)) ns = added list (n # ns)"
proof (cases "length (bl_fileNumbers list) < bl_capacity list")
  case True
  then have "bl_capacity list - length (bl_fileNumbers list)
      = Suc (bl_capacity list - Suc (length (bl_fileNumbers list)))" by simp
  with True assms show ?thesis
    by (cases list) (auto simp: added_def addToBuildList_def Let_def fun_eq_iff)
next
  case False
  with assms show ?thesis by (cases list) (auto simp: added_def addToBuildList_def Let_def fun_eq_iff)
qed

lemma addToBuildList_other: "m \<noteq> n \<Longrightarrow> bl_built (snd (addToBuildList list n)) m = bl_built list m"
  by (simp add: addToBuildList_def)

lemma knowledge_checked:
  assumes "prerequisites_ok (fs_of env s) (ed_fileTable s) R pr" "file_item (ed_fileTable s) n = Some item"
    and "\<forall>m. (n, m) \<in> R\<^sup>+ \<longrightarrow> file_item (ed_fileTable s) m \<noteq> None"
  shows "\<exists>pr'. out_of_date env s pr n = Some (\<not> current (fs_of env s) (ed_fileTable s) R n item, pr')
    \<and> prerequisites_ok (fs_of env s) (ed_fileTable s) R pr'"
proof -
  from whyOutOfDate_law [OF assms(1,3), of item] obtain why pr' where w:
    "whyOutOfDate (fs_of env s) (ed_fileTable s) pr n item = Some (why, pr')"
    "prerequisites_ok (fs_of env s) (ed_fileTable s) R pr'"
    "reason_holds (fs_of env s) (ed_fileTable s) R n item why" by blast
  have "ood_reason why = KNOWLEDGE_CURRENT \<longleftrightarrow> current (fs_of env s) (ed_fileTable s) R n item"
    using w(3) reason_current [of why "fs_of env s" "ed_fileTable s" R n item]
    by (cases "ood_reason why") (auto simp: reason_holds_def)
  then show ?thesis using w(1,2) assms(2) by (simp add: out_of_date_def knowledgeIsOutOfDate_def)
qed

lemma collect_loop:
  assumes "prerequisites_ok (fs_of env s) (ed_fileTable s) R pr"
    and "\<forall>(i, item)\<in>set files. file_item (ed_fileTable s) (int i) = Some item
      \<and> (\<forall>m. (int i, m) \<in> R\<^sup>+ \<longrightarrow> file_item (ed_fileTable s) m \<noteq> None)"
    and "distinct (map fst files)"
  shows "\<exists>pr'. fold (\<lambda>(i, item). collect_out_of_date env s i item) files (Some (list, pr))
      = Some (added list (filter (\<lambda>n. \<not> bl_built list n) (map (int \<circ> fst) (filter (\<lambda>(i, item). is_cu env item \<and> \<not> fi_isDeleted item
          \<and> \<not> current (fs_of env s) (ed_fileTable s) R (int i) item) files))), pr')
    \<and> prerequisites_ok (fs_of env s) (ed_fileTable s) R pr'"
  using assms
proof (induction files arbitrary: list pr)
  case Nil
  then show ?case by (cases list) (simp add: added_def)
next
  case (Cons f files)
  obtain i item where f: "f = (i, item)" by fastforce
  let ?stale = "\<lambda>(i, item). is_cu env item \<and> \<not> fi_isDeleted item \<and> \<not> current (fs_of env s) (ed_fileTable s) R (int i) item"
  let ?ns = "map (int \<circ> fst) (filter ?stale files)"
  have i: "i \<notin> fst ` set files" using Cons.prems(3) f by simp
  then have ns: "int i \<notin> set ?ns" by force
  have "file_item (ed_fileTable s) (int i) = Some item" "\<forall>m. (int i, m) \<in> R\<^sup>+ \<longrightarrow> file_item (ed_fileTable s) m \<noteq> None"
    using Cons.prems(2) f by simp_all
  from knowledge_checked [OF Cons.prems(1) this] obtain pr1 where
    pr1: "out_of_date env s pr (int i) = Some (\<not> current (fs_of env s) (ed_fileTable s) R (int i) item, pr1)"
      "prerequisites_ok (fs_of env s) (ed_fileTable s) R pr1" by blast
  define pr2 where "pr2 = (if is_cu env item \<and> \<not> fi_isDeleted item then pr1 else pr)"
  define list2 where "list2 = (if ?stale f then snd (addToBuildList list (int i)) else list)"
  have step: "collect_out_of_date env s i item (Some (list, pr)) = Some (list2, pr2)"
    using pr1(1) f by (simp add: collect_out_of_date_def list2_def pr2_def)
  have "prerequisites_ok (fs_of env s) (ed_fileTable s) R pr2" using pr1(2) Cons.prems(1) by (simp add: pr2_def)
  moreover have "\<forall>(i, item)\<in>set files. file_item (ed_fileTable s) (int i) = Some item
      \<and> (\<forall>m. (int i, m) \<in> R\<^sup>+ \<longrightarrow> file_item (ed_fileTable s) m \<noteq> None)"
    using Cons.prems(2) by (meson list.set_intros(2))
  moreover have "distinct (map fst files)" using Cons.prems(3) by simp
  ultimately obtain pr' where
    pr': "fold (\<lambda>(i, item). collect_out_of_date env s i item) files (Some (list2, pr2))
        = Some (added list2 (filter (\<lambda>n. \<not> bl_built list2 n) ?ns), pr')"
      "prerequisites_ok (fs_of env s) (ed_fileTable s) R pr'" using Cons.IH by blast
  have "added list2 (filter (\<lambda>n. \<not> bl_built list2 n) ?ns)
      = added list (filter (\<lambda>n. \<not> bl_built list n) (map (int \<circ> fst) (filter ?stale (f # files))))"
  proof (cases "?stale f \<and> \<not> bl_built list (int i)")
    case True
    then have l2: "list2 = snd (addToBuildList list (int i))" by (simp add: list2_def)
    have "filter (\<lambda>n. \<not> bl_built list2 n) ?ns = filter (\<lambda>n. \<not> bl_built list n) ?ns"
    proof (intro filter_cong refl)
      fix n assume "n \<in> set ?ns"
      with ns have "n \<noteq> int i" by blast
      then show "(\<not> bl_built list2 n) = (\<not> bl_built list n)" unfolding l2 by (simp add: addToBuildList_other)
    qed
    moreover have "int i \<notin> set (filter (\<lambda>n. \<not> bl_built list n) ?ns)" using ns by simp
    ultimately show ?thesis using added_Cons [of list "int i"] True f unfolding l2 by simp
  next
    case False
    then have "list2 = list" by (auto simp: list2_def addToBuildList_def)
    with False f show ?thesis by auto
  qed
  moreover have "fold (\<lambda>(i, item). collect_out_of_date env s i item) (f # files) (Some (list, pr))
      = fold (\<lambda>(i, item). collect_out_of_date env s i item) files (Some (list2, pr2))"
    using step f by simp
  ultimately show ?case using pr' by (intro exI [of _ pr']) (simp only: simp_thms)
qed

section \<open>What is removed\<close>

definition without_files :: "int set \<Rightarrow> item_table \<Rightarrow> item_table" where
  "without_files F table = table\<lparr>hl_tab := map (map (\<lambda>item.
     item\<lparr>ri_references := filter (\<lambda>r. pos_file (ref_position r) \<notin> F) (ri_references item)\<rparr>)) (hl_tab table)\<rparr>"

lemma without_no_files: "without_files {} table = table"
  by (simp add: without_files_def map_idI)

lemma remove_is_without: "removeReferenceableItemsForFile (without_files F table) n = without_files (insert n F) table"
  by (simp add: without_files_def removeReferenceableItemsForFile_def unlink_references_filter comp_def conj_commute)

definition changed_header :: "environment \<Rightarrow> file_system \<Rightarrow> fileItem \<Rightarrow> bool" where
  "changed_header env fs item \<longleftrightarrow> \<not> is_cu env item \<and> fi_changeTime item \<noteq> nullTimestamp
     \<and> fi_changeTime item < contentTimeOf fs item"

definition seen_header :: "environment \<Rightarrow> file_system \<Rightarrow> fileItem \<Rightarrow> fileItem" where
  "seen_header env fs item =
     (if is_cu env item then item
      else if fi_changeTime item = nullTimestamp then item\<lparr>fi_changeTime := contentTimeOf fs item\<rparr>
      else if fi_changeTime item < contentTimeOf fs item
      then item\<lparr>fi_needsBrowsingStackRefresh := True, fi_changeTime := contentTimeOf fs item\<rparr>
      else item)"

definition table_sized :: "editor \<Rightarrow> bool" where
  "table_sized s \<longleftrightarrow> length (tab_tab (ed_fileTable s)) = tab_size (ed_fileTable s)"

lemma update_file_law:
  assumes "table_sized s" "file_item (ed_fileTable s) n = Some item"
  shows "\<exists>table. update_file s n f = Some (s\<lparr>ed_fileTable := table\<rparr>)
    \<and> length (tab_tab table) = tab_size table \<and> tab_size table = tab_size (ed_fileTable s)
    \<and> (\<forall>m. file_item table m = (if m = n then Some (f item) else file_item (ed_fileTable s) m))"
proof -
  have n: "0 \<le> n" "nat n < tab_size (ed_fileTable s)" "getFileItemWithFileNumber (ed_fileTable s) (nat n) = Some item"
    using assms(2) by (auto simp: file_item_def getFileItemWithFileNumber_def split: if_splits)
  then show ?thesis
    using assms(1)
    by (auto simp: update_file_def update_item_def table_sized_def file_item_def getFileItemWithFileNumber_def
        nth_list_update nat_eq_iff split: if_splits)
qed

text \<open>One file of the pass over the headers.\<close>

definition noted :: "environment \<Rightarrow> file_system \<Rightarrow> nat \<Rightarrow> fileItem \<Rightarrow> removal \<Rightarrow> removal" where
  "noted env fs i item r =
     (if is_cu env item then r
      else if changed_header env fs item
      then \<lparr>rm_headers = rm_headers r @ [int i], rm_changedAt = (rm_changedAt r)(int i := contentTimeOf fs item),
            rm_anyChanged = True\<rparr>
      else r\<lparr>rm_headers := rm_headers r @ [int i]\<rparr>)"

lemma remove_changed_step:
  assumes "table_sized s" "file_item (ed_fileTable s) (int i) = Some item"
  shows "\<exists>table. remove_changed env fs i item (Some (s, r)) = Some (s\<lparr>ed_fileTable := table,
        ed_itemTable := (if changed_header env fs item then removeReferenceableItemsForFile (ed_itemTable s) (int i)
                         else ed_itemTable s)\<rparr>, noted env fs i item r)
    \<and> length (tab_tab table) = tab_size table \<and> tab_size table = tab_size (ed_fileTable s)
    \<and> (\<forall>m. file_item table m = (if m = int i then Some (seen_header env fs item) else file_item (ed_fileTable s) m))"
proof (cases "is_cu env item \<or> \<not> changed_header env fs item \<and> fi_changeTime item \<noteq> nullTimestamp")
  case True
  then have "remove_changed env fs i item (Some (s, r)) = Some (s, noted env fs i item r)"
    "seen_header env fs item = item" "\<not> changed_header env fs item"
    by (auto simp: remove_changed_def noted_def seen_header_def changed_header_def Let_def fileTimestampIsZero_iff
        simp flip: less_timestamp_def)
  then show ?thesis using assms by (intro exI [of _ "ed_fileTable s"]) (cases s, auto simp: table_sized_def)
next
  case False
  show ?thesis
  proof (cases "changed_header env fs item")
    case True
    have "table_sized (remove_references (int i) s)" "file_item (ed_fileTable (remove_references (int i) s)) (int i) = Some item"
      using assms by (simp_all add: table_sized_def remove_references_def)
    from update_file_law [OF this, of "\<lambda>item'. item'\<lparr>fi_needsBrowsingStackRefresh := True, fi_changeTime := contentTimeOf fs item\<rparr>"]
    obtain table where t: "update_file (remove_references (int i) s) (int i)
        (\<lambda>item'. item'\<lparr>fi_needsBrowsingStackRefresh := True, fi_changeTime := contentTimeOf fs item\<rparr>)
        = Some ((remove_references (int i) s)\<lparr>ed_fileTable := table\<rparr>)"
      "length (tab_tab table) = tab_size table" "tab_size table = tab_size (ed_fileTable s)"
      "\<forall>m. file_item table m = (if m = int i then Some (item\<lparr>fi_needsBrowsingStackRefresh := True, fi_changeTime := contentTimeOf fs item\<rparr>)
          else file_item (ed_fileTable s) m)"
      by (auto simp: remove_references_def)
    have c: "\<not> is_cu env item" "fi_changeTime item \<noteq> nullTimestamp" "fileTimestampIsLessThan (fi_changeTime item) (contentTimeOf fs item)"
      "fi_changeTime item < contentTimeOf fs item"
      using True by (auto simp: changed_header_def simp flip: less_timestamp_def)
    show ?thesis
      using t True c
      by (intro exI [of _ table]) (cases s; simp add: remove_changed_def noted_def seen_header_def Let_def
          fileTimestampIsZero_iff remove_references_def)
  next
    case new: False
    with False have c: "\<not> is_cu env item" "fi_changeTime item = nullTimestamp" by (auto simp: changed_header_def)
    from update_file_law [OF assms, of "\<lambda>item'. item'\<lparr>fi_changeTime := contentTimeOf fs item\<rparr>"]
    obtain table where t: "update_file s (int i) (\<lambda>item'. item'\<lparr>fi_changeTime := contentTimeOf fs item\<rparr>)
        = Some (s\<lparr>ed_fileTable := table\<rparr>)"
      "length (tab_tab table) = tab_size table" "tab_size table = tab_size (ed_fileTable s)"
      "\<forall>m. file_item table m = (if m = int i then Some (item\<lparr>fi_changeTime := contentTimeOf fs item\<rparr>)
          else file_item (ed_fileTable s) m)" by auto
    show ?thesis
      using t c new
      by (intro exI [of _ table]) (cases s; simp add: remove_changed_def noted_def seen_header_def Let_def
          fileTimestampIsZero_iff)
  qed
qed

definition pass_noted :: "environment \<Rightarrow> file_system \<Rightarrow> (nat \<times> fileItem) list \<Rightarrow> removal \<Rightarrow> removal" where
  "pass_noted env fs files r = fold (\<lambda>(i, item). noted env fs i item) files r"

definition changed_files :: "environment \<Rightarrow> file_system \<Rightarrow> (nat \<times> fileItem) list \<Rightarrow> int set" where
  "changed_files env fs files = {int i | i item. (i, item) \<in> set files \<and> changed_header env fs item}"

lemma changed_files_Cons:
  "changed_files env fs (f # files)
     = (if changed_header env fs (snd f) then {int (fst f)} else {}) \<union> changed_files env fs files"
  by (cases f) (auto simp: changed_files_def)

lemma remove_changed_loop:
  assumes "table_sized s" "\<forall>(i, item)\<in>set files. file_item (ed_fileTable s) (int i) = Some item"
    and "distinct (map fst files)" "ed_itemTable s = without_files F items"
  shows "\<exists>table. fold (\<lambda>(i, item). remove_changed env fs i item) files (Some (s, r))
      = Some (s\<lparr>ed_fileTable := table, ed_itemTable := without_files (F \<union> changed_files env fs files) items\<rparr>,
              pass_noted env fs files r)
    \<and> length (tab_tab table) = tab_size table \<and> tab_size table = tab_size (ed_fileTable s)
    \<and> (\<forall>m. file_item table m = (if m \<in> int ` fst ` set files
          then map_option (seen_header env fs) (file_item (ed_fileTable s) m) else file_item (ed_fileTable s) m))"
  using assms
proof (induction files arbitrary: s r F)
  case Nil
  then show ?case
    by (intro exI [of _ "ed_fileTable s"]) (cases s, auto simp: pass_noted_def changed_files_def table_sized_def)
next
  case (Cons f files)
  obtain i item where f: "f = (i, item)" by fastforce
  have i: "file_item (ed_fileTable s) (int i) = Some item" and new: "i \<notin> fst ` set files"
    and d: "distinct (map fst files)" using Cons.prems(2,3) f by simp_all
  from remove_changed_step [OF Cons.prems(1) i, of env fs r] obtain table where
    t: "remove_changed env fs i item (Some (s, r)) = Some (s\<lparr>ed_fileTable := table,
        ed_itemTable := (if changed_header env fs item then removeReferenceableItemsForFile (ed_itemTable s) (int i)
                         else ed_itemTable s)\<rparr>, noted env fs i item r)"
      "length (tab_tab table) = tab_size table" "tab_size table = tab_size (ed_fileTable s)"
      "\<forall>m. file_item table m = (if m = int i then Some (seen_header env fs item) else file_item (ed_fileTable s) m)"
    by blast
  let ?F = "if changed_header env fs item then insert (int i) F else F"
  let ?s = "s\<lparr>ed_fileTable := table, ed_itemTable := without_files ?F items\<rparr>"
  have s: "remove_changed env fs i item (Some (s, r)) = Some (?s, noted env fs i item r)"
    using t(1) Cons.prems(4) by (simp add: remove_is_without)
  have "table_sized ?s" using t(2) by (simp add: table_sized_def)
  moreover have "\<forall>(j, item)\<in>set files. file_item (ed_fileTable ?s) (int j) = Some item"
  proof (intro ballI, clarify)
    fix j item' assume j: "(j, item') \<in> set files"
    then have "j \<noteq> i" using new by force
    moreover have "file_item (ed_fileTable s) (int j) = Some item'" using Cons.prems(2) j by auto
    ultimately show "file_item (ed_fileTable ?s) (int j) = Some item'" using t(4) by simp
  qed
  ultimately obtain table' where
    t': "fold (\<lambda>(i, item). remove_changed env fs i item) files (Some (?s, noted env fs i item r))
        = Some (?s\<lparr>ed_fileTable := table', ed_itemTable := without_files (?F \<union> changed_files env fs files) items\<rparr>,
              pass_noted env fs files (noted env fs i item r))"
      "length (tab_tab table') = tab_size table'" "tab_size table' = tab_size table"
      "\<forall>m. file_item table' m = (if m \<in> int ` fst ` set files
          then map_option (seen_header env fs) (file_item table m) else file_item table m)"
    using Cons.IH [OF _ _ d, of ?s ?F "noted env fs i item r"] by auto
  have F: "?F \<union> changed_files env fs files = F \<union> changed_files env fs (f # files)"
    using f by (auto simp: changed_files_Cons)
  have "file_item table' m = (if m \<in> int ` fst ` set (f # files)
      then map_option (seen_header env fs) (file_item (ed_fileTable s) m) else file_item (ed_fileTable s) m)" for m
  proof (cases "m = int i")
    case True
    then have "m \<notin> int ` fst ` set files" using new by force
    with True t'(4) t(4) i f show ?thesis by simp
  next
    case False
    with t'(4) t(4) f show ?thesis by simp
  qed
  moreover have "fold (\<lambda>(i, item). remove_changed env fs i item) (f # files) (Some (s, r))
      = Some (s\<lparr>ed_fileTable := table', ed_itemTable := without_files (F \<union> changed_files env fs (f # files)) items\<rparr>,
              pass_noted env fs (f # files) r)"
    using t'(1) F by (simp add: s f pass_noted_def)
  ultimately show ?case using t'(2,3) t(3) by (intro exI [of _ table']) simp
qed

lemma changed_after_null: "changed_header env fs item \<Longrightarrow> nullTimestamp \<le> fi_changeTime item \<Longrightarrow> contentTimeOf fs item \<noteq> nullTimestamp"
  by (auto simp: changed_header_def)

lemma pass_noted_fields:
  assumes "\<forall>(i, item)\<in>set files. nullTimestamp \<le> fi_changeTime item"
  shows "rm_headers (pass_noted env fs files r) = rm_headers r @ map (int \<circ> fst) (filter (\<lambda>(i, item). \<not> is_cu env item) files)
    \<and> (\<forall>n. rm_changedAt (pass_noted env fs files r) n \<noteq> nullTimestamp
         \<longleftrightarrow> n \<in> changed_files env fs files \<or> rm_changedAt r n \<noteq> nullTimestamp)
    \<and> (rm_anyChanged (pass_noted env fs files r) \<longleftrightarrow> rm_anyChanged r \<or> changed_files env fs files \<noteq> {})"
  using assms
proof (induction files arbitrary: r)
  case Nil
  then show ?case by (simp add: pass_noted_def changed_files_def)
next
  case (Cons f files)
  obtain i item where f: "f = (i, item)" by fastforce
  have "\<forall>(i, item)\<in>set files. nullTimestamp \<le> fi_changeTime item" using Cons.prems by simp
  note IH = Cons.IH [OF this, of "noted env fs i item r"]
  have p: "pass_noted env fs (f # files) r = pass_noted env fs files (noted env fs i item r)"
    by (simp add: pass_noted_def f)
  have c: "changed_header env fs item \<Longrightarrow> contentTimeOf fs item \<noteq> nullTimestamp \<and> \<not> is_cu env item"
    using changed_after_null Cons.prems f by (auto simp: changed_header_def)
  show ?case unfolding p changed_files_Cons using IH f c by (auto simp: noted_def)
qed

text \<open>What the second pass may do to an item.\<close>

definition raised :: "fileItem \<Rightarrow> fileItem \<Rightarrow> bool" where
  "raised item item' \<longleftrightarrow> fi_name item' = fi_name item \<and> fi_letGoTime item' = fi_letGoTime item
     \<and> fi_changeTime item \<le> fi_changeTime item'"

lemma raised_refl [simp]: "raised item item"
  by (simp add: raised_def)

lemma raised_trans: "raised a b \<Longrightarrow> raised b c \<Longrightarrow> raised a c"
  by (auto simp: raised_def)

definition reaches_changed :: "(int \<times> int) set \<Rightarrow> (int \<Rightarrow> timestamp) \<Rightarrow> int \<Rightarrow> bool" where
  "reaches_changed R changedAt h \<longleftrightarrow> changedAt h = nullTimestamp \<and> (\<exists>c. (h, c) \<in> R\<^sup>+ \<and> changedAt c \<noteq> nullTimestamp)"

lemma includer_of_changed_law:
  assumes "graph_ok (pr_includeGraph pr)" "edge_pairs (ig_edges (pr_includeGraph pr)) = R"
    and "finite {m. (h, m) \<in> R\<^sup>+}" "card {m. (h, m) \<in> R\<^sup>+} \<le> nat MAX_FILES"
    and "table_sized s" "file_item (ed_fileTable s) h = Some item" "ed_itemTable s = without_files F items"
  shows "\<exists>table. includer_of_changed pr changedAt h s = Some (s\<lparr>ed_fileTable := table,
        ed_itemTable := without_files (F \<union> (if reaches_changed R changedAt h then {h} else {})) items\<rparr>)
    \<and> length (tab_tab table) = tab_size table
    \<and> (\<forall>m. rel_option raised (file_item (ed_fileTable s) m) (file_item table m))"
proof -
  obtain cnt closure where c: "collectIncludeClosureOf pr h (nat MAX_FILES) = (cnt, closure)" by fastforce
  have "closure_result {m. (h, m) \<in> R\<^sup>+} (nat MAX_FILES) (cnt, closure)"
    using include_closure_ok [OF assms(1), of h "nat MAX_FILES"] assms(2) c by (simp add: collectIncludeClosureOf_def)
  then have set: "set closure = {m. (h, m) \<in> R\<^sup>+}" using assms(3,4) by (simp add: closure_result_def split: if_splits)
  have refl: "rel_option raised x x" for x by (simp add: option.rel_refl)
  show ?thesis
  proof (cases "reaches_changed R changedAt h")
    case False
    have "changed_in changedAt closure = None" if "changedAt h = nullTimestamp"
      using False that set by (auto simp: changed_in_def find_None_iff reaches_changed_def fileTimestampIsZero_iff)
    then have "includer_of_changed pr changedAt h s = Some s"
      by (simp add: includer_of_changed_def fileTimestampIsZero_iff c)
    with False assms(5,7) refl show ?thesis
      by (intro exI [of _ "ed_fileTable s"]) (cases s, simp add: table_sized_def)
  next
    case True
    then obtain c0 where c0: "changed_in changedAt closure = Some c0"
      using set by (cases "changed_in changedAt closure")
        (auto simp: changed_in_def find_None_iff reaches_changed_def fileTimestampIsZero_iff)
    let ?f = "\<lambda>item. if fileTimestampIsLessThan (fi_changeTime item) (changedAt c0)
                       then item\<lparr>fi_changeTime := changedAt c0\<rparr> else item"
    have "table_sized (remove_references h s)" "file_item (ed_fileTable (remove_references h s)) h = Some item"
      using assms(5,6) by (simp_all add: table_sized_def remove_references_def)
    from update_file_law [OF this, of ?f] obtain table where
      t: "update_file (remove_references h s) h ?f = Some ((remove_references h s)\<lparr>ed_fileTable := table\<rparr>)"
        "length (tab_tab table) = tab_size table"
        "\<forall>m. file_item table m = (if m = h then Some (?f item) else file_item (ed_fileTable s) m)"
      by (auto simp: remove_references_def)
    have f: "raised item (?f item)"
      by (auto simp: raised_def simp flip: less_timestamp_def)
    have "includer_of_changed pr changedAt h s = Some ((remove_references h s)\<lparr>ed_fileTable := table\<rparr>)"
      using True c0 c t(1) by (simp add: includer_of_changed_def reaches_changed_def fileTimestampIsZero_iff)
    moreover have "rel_option raised (file_item (ed_fileTable s) m) (file_item table m)" for m
      using t(3) f assms(6) refl by simp
    ultimately show ?thesis
      using t(2) True assms(7)
      by (intro exI [of _ table]) (cases s, simp add: remove_references_def remove_is_without)
  qed
qed

lemma rel_option_trans: "rel_option raised a b \<Longrightarrow> rel_option raised b c \<Longrightarrow> rel_option raised a c"
  by (cases a; cases b; cases c) (auto intro: raised_trans)

lemma includers_law:
  assumes "graph_ok (pr_includeGraph pr)" "edge_pairs (ig_edges (pr_includeGraph pr)) = R"
    and "\<forall>h. finite {m. (h, m) \<in> R\<^sup>+} \<and> card {m. (h, m) \<in> R\<^sup>+} \<le> nat MAX_FILES"
    and "table_sized s" "\<forall>h\<in>set hs. file_item (ed_fileTable s) h \<noteq> None" "ed_itemTable s = without_files F items"
  shows "\<exists>table. removeReferencesOfIncludersOfChanged pr hs changedAt s = Some (s\<lparr>ed_fileTable := table,
        ed_itemTable := without_files (F \<union> {h \<in> set hs. reaches_changed R changedAt h}) items\<rparr>)
    \<and> length (tab_tab table) = tab_size table
    \<and> (\<forall>m. rel_option raised (file_item (ed_fileTable s) m) (file_item table m))"
  using assms(4-)
proof (induction hs arbitrary: s F)
  case Nil
  then show ?case
    by (intro exI [of _ "ed_fileTable s"])
      (cases s, simp add: removeReferencesOfIncludersOfChanged_def table_sized_def option.rel_refl)
next
  case (Cons h hs)
  from Cons.prems(2) obtain item where i: "file_item (ed_fileTable s) h = Some item" by auto
  from includer_of_changed_law [OF assms(1,2) _ _ Cons.prems(1) i Cons.prems(3), of changedAt] assms(3)
  obtain table where
    t: "includer_of_changed pr changedAt h s = Some (s\<lparr>ed_fileTable := table,
        ed_itemTable := without_files (F \<union> (if reaches_changed R changedAt h then {h} else {})) items\<rparr>)"
      "length (tab_tab table) = tab_size table"
      "\<forall>m. rel_option raised (file_item (ed_fileTable s) m) (file_item table m)" by blast
  let ?F = "F \<union> (if reaches_changed R changedAt h then {h} else {})"
  let ?s = "s\<lparr>ed_fileTable := table, ed_itemTable := without_files ?F items\<rparr>"
  have "table_sized ?s" using t(2) by (simp add: table_sized_def)
  moreover have "\<forall>h\<in>set hs. file_item (ed_fileTable ?s) h \<noteq> None"
  proof
    fix h' assume "h' \<in> set hs"
    then have "file_item (ed_fileTable s) h' \<noteq> None" using Cons.prems(2) by simp
    moreover have "rel_option raised (file_item (ed_fileTable s) h') (file_item table h')" using t(3) by blast
    ultimately show "file_item (ed_fileTable ?s) h' \<noteq> None" by (auto elim: option.rel_cases)
  qed
  ultimately obtain table' where
    t': "removeReferencesOfIncludersOfChanged pr hs changedAt ?s = Some (?s\<lparr>ed_fileTable := table',
        ed_itemTable := without_files (?F \<union> {h \<in> set hs. reaches_changed R changedAt h}) items\<rparr>)"
      "length (tab_tab table') = tab_size table'"
      "\<forall>m. rel_option raised (file_item table m) (file_item table' m)"
    using Cons.IH [of ?s ?F] by auto
  have "?F \<union> {h \<in> set hs. reaches_changed R changedAt h} = F \<union> {h' \<in> set (h # hs). reaches_changed R changedAt h'}"
    by auto
  then have "removeReferencesOfIncludersOfChanged pr (h # hs) changedAt s = Some (s\<lparr>ed_fileTable := table',
        ed_itemTable := without_files (F \<union> {h' \<in> set (h # hs). reaches_changed R changedAt h'}) items\<rparr>)"
    using t(1) t'(1) by (simp add: removeReferencesOfIncludersOfChanged_def)
  moreover have "\<forall>m. rel_option raised (file_item (ed_fileTable s) m) (file_item table' m)"
    using t(3) t'(3) rel_option_trans by blast
  ultimately show ?case using t'(2) by blast
qed

text \<open>The conditions the pass is called under.\<close>

definition files_ok :: "environment \<Rightarrow> editor \<Rightarrow> (int \<times> int) set \<Rightarrow> prerequisites \<Rightarrow> bool" where
  "files_ok env s R pr \<longleftrightarrow>
     graph_ok (pr_includeGraph pr) \<and> edge_pairs (ig_edges (pr_includeGraph pr)) = R
     \<and> (\<forall>n m. (n, m) \<in> R\<^sup>+ \<longrightarrow> file_item (ed_fileTable s) m \<noteq> None)
     \<and> table_sized s
     \<and> (\<forall>n item. file_item (ed_fileTable s) n = Some item \<longrightarrow> n < MAX_FILES \<and> nullTimestamp \<le> fi_changeTime item)
     \<and> (\<forall>name. nullTimestamp \<le> editorFileModificationTime (fs_of env s) name)"

definition changed :: "environment \<Rightarrow> editor \<Rightarrow> int \<Rightarrow> bool" where
  "changed env s n \<longleftrightarrow> (\<exists>item. file_item (ed_fileTable s) n = Some item \<and> changed_header env (fs_of env s) item)"

definition includes_changed :: "environment \<Rightarrow> editor \<Rightarrow> (int \<times> int) set \<Rightarrow> int \<Rightarrow> bool" where
  "includes_changed env s R n \<longleftrightarrow>
     (\<exists>item. file_item (ed_fileTable s) n = Some item \<and> \<not> is_cu env item)
     \<and> (\<exists>c. (n, c) \<in> R\<^sup>+ \<and> changed env s c)"

lemma closure_in_table:
  assumes "files_ok env s R pr"
  shows "finite {m. (h, m) \<in> R\<^sup>+} \<and> card {m. (h, m) \<in> R\<^sup>+} \<le> nat MAX_FILES"
proof -
  have "{m. (h, m) \<in> R\<^sup>+} \<subseteq> {0..<MAX_FILES}"
  proof
    fix m assume "m \<in> {m. (h, m) \<in> R\<^sup>+}"
    then have "file_item (ed_fileTable s) m \<noteq> None" using assms unfolding files_ok_def by blast
    then obtain item where "file_item (ed_fileTable s) m = Some item" by blast
    then have "0 \<le> m" "m < MAX_FILES" using assms by (auto simp: files_ok_def file_item_def split: if_splits)
    then show "m \<in> {0..<MAX_FILES}" by simp
  qed
  moreover have "card {0..<MAX_FILES} = nat MAX_FILES" by simp
  ultimately show ?thesis by (metis card_mono finite_atLeastLessThan_int finite_subset)
qed

lemma changed_files_all: "changed_files env (fs_of env s) (existing_files (ed_fileTable s) 0) = {n. changed env s n}"
proof -
  have "n \<in> changed_files env (fs_of env s) (existing_files (ed_fileTable s) 0) \<longleftrightarrow> changed env s n" for n
  proof -
    have "\<exists>i. n = int i" if "file_item (ed_fileTable s) n = Some item" for item
      using that by (auto simp: file_item_def intro: exI [of _ "nat n"] split: if_splits)
    then show ?thesis unfolding changed_files_def existing_files_iff changed_def by blast
  qed
  then show ?thesis by blast
qed

lemma removal_law:
  assumes "files_ok env s R pr"
  shows "\<exists>s'. removeReferencesOfChangedFiles env s pr = Some s'
    \<and> (\<exists>table. s' = s\<lparr>ed_fileTable := table,
          ed_itemTable := without_files {n. changed env s n \<or> includes_changed env s R n} (ed_itemTable s)\<rparr>)
    \<and> table_sized s'
    \<and> (\<forall>m. rel_option raised (map_option (seen_header env (fs_of env s)) (file_item (ed_fileTable s) m))
         (file_item (ed_fileTable s') m))"
proof -
  let ?fs = "fs_of env s" and ?files = "existing_files (ed_fileTable s) 0"
  let ?r = "\<lparr>rm_headers = [], rm_changedAt = (\<lambda>_. nullTimestamp), rm_anyChanged = False\<rparr>"
  let ?r1 = "pass_noted env ?fs ?files ?r"
  have files: "\<forall>(i, item)\<in>set ?files. file_item (ed_fileTable s) (int i) = Some item"
    using existing_files_iff by fast
  have times: "\<forall>(i, item)\<in>set ?files. nullTimestamp \<le> fi_changeTime item"
    using files assms by (auto simp: files_ok_def)
  have "table_sized s" using assms by (simp add: files_ok_def)
  from remove_changed_loop [OF this files existing_files_distinct without_no_files [symmetric], of env ?fs ?r]
  obtain table where 1: "fold (\<lambda>(i, item). remove_changed env ?fs i item) ?files (Some (s, ?r))
      = Some (s\<lparr>ed_fileTable := table, ed_itemTable := without_files {n. changed env s n} (ed_itemTable s)\<rparr>, ?r1)"
    "length (tab_tab table) = tab_size table"
    "\<forall>m. file_item table m = (if m \<in> int ` fst ` set ?files
          then map_option (seen_header env ?fs) (file_item (ed_fileTable s) m) else file_item (ed_fileTable s) m)"
    unfolding changed_files_all by auto
  let ?s = "s\<lparr>ed_fileTable := table, ed_itemTable := without_files {n. changed env s n} (ed_itemTable s)\<rparr>"
  have t: "file_item table m = map_option (seen_header env ?fs) (file_item (ed_fileTable s) m)" for m
  proof (cases "file_item (ed_fileTable s) m")
    case (Some item)
    then have "m = int (nat m)" by (simp add: file_item_def split: if_splits)
    with Some have "(nat m, item) \<in> set ?files" by (metis existing_files_iff)
    then have "m \<in> int ` fst ` set ?files" using \<open>m = int (nat m)\<close> by force
    then show ?thesis using 1(3) by simp
  qed (use 1(3) in auto)
  note noted = pass_noted_fields [OF times, of env ?fs ?r, unfolded changed_files_all]
  have hdrs: "set (rm_headers ?r1) = {n. \<exists>item. file_item (ed_fileTable s) n = Some item \<and> \<not> is_cu env item}"
  proof -
    have "n \<in> int ` fst ` {x \<in> set ?files. case x of (i, item) \<Rightarrow> \<not> is_cu env item}
        \<longleftrightarrow> (\<exists>item. file_item (ed_fileTable s) n = Some item \<and> \<not> is_cu env item)" for n
    proof -
      have "\<exists>i. n = int i" if "file_item (ed_fileTable s) n = Some item" for item
        using that by (auto simp: file_item_def intro: exI [of _ "nat n"] split: if_splits)
      then show ?thesis by (force simp: existing_files_iff)
    qed
    then show ?thesis using noted by (simp add: image_image) blast
  qed
  have ch: "rm_changedAt ?r1 n \<noteq> nullTimestamp \<longleftrightarrow> changed env s n" for n using noted by simp
  have reach: "{n. changed env s n} \<union> {h \<in> set (rm_headers ?r1). reaches_changed R (rm_changedAt ?r1) h}
      = {n. changed env s n \<or> includes_changed env s R n}"
    unfolding hdrs reaches_changed_def includes_changed_def using ch by auto
  have seen: "rel_option raised (file_item table m) x \<Longrightarrow>
      rel_option raised (map_option (seen_header env ?fs) (file_item (ed_fileTable s) m)) x" for m x
    by (simp add: t)
  have g: "graph_ok (pr_includeGraph pr)" "edge_pairs (ig_edges (pr_includeGraph pr)) = R"
    using assms by (simp_all add: files_ok_def)
  have "\<forall>h. finite {m. (h, m) \<in> R\<^sup>+} \<and> card {m. (h, m) \<in> R\<^sup>+} \<le> nat MAX_FILES"
    using closure_in_table [OF assms] by blast
  moreover have "table_sized ?s" using 1(2) by (simp add: table_sized_def)
  moreover have "\<forall>h\<in>set (rm_headers ?r1). file_item (ed_fileTable ?s) h \<noteq> None" using hdrs t by auto
  ultimately obtain table' where
    2: "removeReferencesOfIncludersOfChanged pr (rm_headers ?r1) (rm_changedAt ?r1) ?s
        = Some (?s\<lparr>ed_fileTable := table',
           ed_itemTable := without_files {n. changed env s n \<or> includes_changed env s R n} (ed_itemTable s)\<rparr>)"
      "length (tab_tab table') = tab_size table'"
      "\<forall>m. rel_option raised (file_item table m) (file_item table' m)"
    using includers_law [OF g, of ?s "rm_headers ?r1" "{n. changed env s n}" "ed_itemTable s" "rm_changedAt ?r1"]
    unfolding reach by auto
  have code: "removeReferencesOfChangedFiles env s pr
      = (if {n. changed env s n} \<noteq> {} then removeReferencesOfIncludersOfChanged pr (rm_headers ?r1) (rm_changedAt ?r1) ?s
         else Some ?s)"
    using 1(1) noted by (simp add: removeReferencesOfChangedFiles_def fold_files_list)
  show ?thesis
  proof (cases "{n. changed env s n} = {}")
    case True
    then have "{n. changed env s n} = {n. changed env s n \<or> includes_changed env s R n}"
      by (auto simp: includes_changed_def)
    with code True 1(2) t show ?thesis
      by (intro exI [of _ ?s] conjI exI [of _ table]) (simp_all add: table_sized_def option.rel_refl)
  next
    case False
    let ?s' = "?s\<lparr>ed_fileTable := table',
           ed_itemTable := without_files {n. changed env s n \<or> includes_changed env s R n} (ed_itemTable s)\<rparr>"
    have "removeReferencesOfChangedFiles env s pr = Some ?s'" using code 2(1) False by simp
    then show ?thesis using 2(2,3) seen
      by (intro exI [of _ ?s'] conjI exI [of _ table']) (simp_all add: table_sized_def)
  qed
qed

lemma fs_of_tables: "fs_of env (s\<lparr>ed_fileTable := table, ed_itemTable := items\<rparr>) = fs_of env s"
proof -
  have "equalBuffers (s\<lparr>ed_fileTable := table, ed_itemTable := items, ed_buffers := b, ed_nextBuffer := n\<rparr>)
      = equalBuffers (s\<lparr>ed_buffers := b, ed_nextBuffer := n\<rparr>)" for b n
    by (intro ext) (simp add: equalBuffers_def bufferName_def)
  then have "getEditorBufferForFile (s\<lparr>ed_fileTable := table, ed_itemTable := items\<rparr>) n = getEditorBufferForFile s n" for n
    by (simp add: getEditorBufferForFile_def allocate_buffer_def editorBufferIsMember_def bufferHash_def
        bufferName_def hashListIsMember_def hashListIndex_def Let_def cong: if_cong)
  then show ?thesis
    by (simp add: fs_of_def editorFileModificationTime_of_def editorFileExists_of_def fun_eq_iff)
qed

lemma is_cu_name: "fi_name a = fi_name b \<Longrightarrow> is_cu env a = is_cu env b"
  by (simp add: is_cu_def)

lemma contentTimeOf_fields: "fi_name a = fi_name b \<Longrightarrow> fi_letGoTime a = fi_letGoTime b \<Longrightarrow> contentTimeOf fs a = contentTimeOf fs b"
  by (simp add: contentTimeOf_def Let_def)

lemma seen_header_fields: "fi_name (seen_header env fs item) = fi_name item \<and> fi_letGoTime (seen_header env fs item) = fi_letGoTime item
    \<and> fi_changeTime item \<le> max (fi_changeTime (seen_header env fs item)) nullTimestamp
    \<and> (\<not> is_cu env item \<longrightarrow> contentTimeOf fs item \<le> fi_changeTime (seen_header env fs item))"
  by (auto simp: seen_header_def max_def)

lemma seen_not_changed: "raised (seen_header env fs item) item' \<Longrightarrow> \<not> changed_header env fs item'"
  using seen_header_fields [of env fs item] is_cu_name [of item' item env] contentTimeOf_fields [of item' item fs]
  by (auto simp: changed_header_def raised_def not_less)
lemma contentTime_nonneg:
  "\<forall>name. nullTimestamp \<le> editorFileModificationTime fs name \<Longrightarrow> nullTimestamp \<le> contentTimeOf fs item"
  by (auto simp: contentTimeOf_def Let_def simp flip: less_timestamp_def intro: order_trans [OF _ less_imp_le])

lemma removal_keeps_ok:
  assumes "files_ok env s R pr" "removeReferencesOfChangedFiles env s pr = Some s'"
  shows "files_ok env s' R pr \<and> (\<forall>n. \<not> changed env s' n)"
proof -
  from removal_law [OF assms(1)] assms(2) obtain table where
    s': "s' = s\<lparr>ed_fileTable := table,
          ed_itemTable := without_files {n. changed env s n \<or> includes_changed env s R n} (ed_itemTable s)\<rparr>"
      "table_sized s'"
      "\<forall>m. rel_option raised (map_option (seen_header env (fs_of env s)) (file_item (ed_fileTable s) m))
         (file_item (ed_fileTable s') m)" by auto
  have fs: "fs_of env s' = fs_of env s" unfolding s'(1) by (rule fs_of_tables)
  have rel: "\<exists>item. file_item (ed_fileTable s) m = Some item \<and> raised (seen_header env (fs_of env s) item) item'"
    if "file_item (ed_fileTable s') m = Some item'" for m item'
  proof -
    have "rel_option raised (map_option (seen_header env (fs_of env s)) (file_item (ed_fileTable s) m)) (Some item')"
      using s'(3) that by metis
    then show ?thesis by (auto elim!: option.rel_cases)
  qed
  have "\<not> changed env s' n" for n
    unfolding changed_def fs using rel seen_not_changed by blast
  moreover have "m < MAX_FILES \<and> nullTimestamp \<le> fi_changeTime item'" if f: "file_item (ed_fileTable s') m = Some item'" for m item'
  proof -
    from rel [OF f] obtain item where i: "file_item (ed_fileTable s) m = Some item" "raised (seen_header env (fs_of env s) item) item'" by blast
    from i(1) assms(1) have "m < MAX_FILES" "nullTimestamp \<le> fi_changeTime item" "nullTimestamp \<le> contentTimeOf (fs_of env s) item"
      using contentTime_nonneg by (auto simp: files_ok_def)
    moreover from this have "nullTimestamp \<le> fi_changeTime (seen_header env (fs_of env s) item)" by (auto simp: seen_header_def)
    ultimately show ?thesis using i(2) by (auto simp: raised_def)
  qed
  moreover have "file_item (ed_fileTable s') m \<noteq> None" if "file_item (ed_fileTable s) m \<noteq> None" for m
    using s'(3) that by (metis option.rel_distinct(1) option.rel_distinct(2) map_option_is_None option.exhaust)
  ultimately show ?thesis using assms(1) s'(2) fs by (auto simp: files_ok_def)
qed

section \<open>Properties\<close>

text \<open>C13: The collecting of all units that are out of date, whatever has been asked before, puts exactly
  those units of the project on the list whose knowledge is not current and that are not built
  already, in the order of their numbers, until the list is full; the others are counted.\<close>

theorem out_of_date_units_collected:
  assumes "prerequisites_ok (fs_of env s) (ed_fileTable s) R pr"
    and "\<forall>n m. (n, m) \<in> R\<^sup>+ \<longrightarrow> file_item (ed_fileTable s) m \<noteq> None"
  shows "\<exists>pr'. collectOutOfDateCUs env s list pr
      = Some (added list (filter (\<lambda>n. \<not> bl_built list n) (stale_cus env s R)), pr')
    \<and> prerequisites_ok (fs_of env s) (ed_fileTable s) R pr'"
proof -
  have "\<forall>(i, item)\<in>set (existing_files (ed_fileTable s) 0). file_item (ed_fileTable s) (int i) = Some item
      \<and> (\<forall>m. (int i, m) \<in> R\<^sup>+ \<longrightarrow> file_item (ed_fileTable s) m \<noteq> None)"
    using assms(2) existing_files_iff by fast
  from collect_loop [OF assms(1) this existing_files_distinct, of list] show ?thesis
    by (simp add: collectOutOfDateCUs_def fold_files_list stale_cus_def)
qed

text \<open>C8: The references removed before a request are exactly those in the headers that have changed and in
  the headers that include, at any depth, one that has; the buffers and their texts are not touched.
  A change is acted on once: when nothing changes in between, the next removal removes nothing.\<close>

theorem changed_headers_removed_once:
  assumes "files_ok env s R pr"
  shows "\<exists>s' s''. removeReferencesOfChangedFiles env s pr = Some s'
    \<and> ed_itemTable s' = without_files {n. changed env s n \<or> includes_changed env s R n} (ed_itemTable s)
    \<and> ed_buffers s' = ed_buffers s
    \<and> removeReferencesOfChangedFiles env s' pr = Some s'' \<and> ed_itemTable s'' = ed_itemTable s'"
proof -
  from removal_law [OF assms] obtain s' where
    s': "removeReferencesOfChangedFiles env s pr = Some s'"
      "\<exists>table. s' = s\<lparr>ed_fileTable := table,
          ed_itemTable := without_files {n. changed env s n \<or> includes_changed env s R n} (ed_itemTable s)\<rparr>" by blast
  from removal_keeps_ok [OF assms s'(1)] have ok: "files_ok env s' R pr" and none: "\<forall>n. \<not> changed env s' n" by simp_all
  then have "{n. changed env s' n \<or> includes_changed env s' R n} = {}" by (simp add: includes_changed_def)
  with removal_law [OF ok] obtain s'' where
    "removeReferencesOfChangedFiles env s' pr = Some s''" "ed_itemTable s'' = ed_itemTable s'"
    by (auto simp: without_no_files)
  with s' show ?thesis by auto
qed

text \<open>A project of a unit, parsed before it changed, that includes a header.\<close>

definition example_disk_environment :: environment where
  "example_disk_environment = example_environment\<lparr>env_fileExists := (\<lambda>_. True),
     env_fileModificationTime := (\<lambda>_. Timestamp 100 0), env_cFilesSuffixes := ''c''\<rparr>"

definition example_project :: editor where
  "example_project = example_editor\<lparr>ed_buffers := (\<lambda>_. None), ed_nextBuffer := 0, ed_table := \<lparr>hl_size = 1, hl_tab = [[]]\<rparr>,
     ed_fileTable := \<lparr>tab_numberOfElements = 2, tab_size = 3, tab_tab = [None,
        Some ((fillFileItem ''a.c'')\<lparr>fi_knowledgeTime := Timestamp 50 0\<rparr>),
        Some ((fillFileItem ''a.h'')\<lparr>fi_changeTime := Timestamp 50 0\<rparr>)]\<rparr>,
     ed_itemTable := example_includes_header\<rparr>"

lemma example_project_items:
  "file_item (ed_fileTable example_project) n = Some item \<longleftrightarrow>
     (n = 1 \<and> item = (fillFileItem ''a.c'')\<lparr>fi_knowledgeTime := Timestamp 50 0\<rparr>)
     \<or> (n = 2 \<and> item = (fillFileItem ''a.h'')\<lparr>fi_changeTime := Timestamp 50 0\<rparr>)"
proof -
  consider "n < 0" | "n = 0" | "n = 1" | "n = 2" | "n \<ge> 3" by linarith
  then show ?thesis
    by cases (auto simp: file_item_def getFileItemWithFileNumber_def example_project_def)
qed

lemma example_project_time: "editorFileModificationTime (fs_of example_disk_environment example_project) name = Timestamp 100 0"
proof -
  have ok: "table_ok example_project"
    by (auto simp: table_ok_def example_project_def example_editor_def registered_def buffers.wf_list_def hashListIndex_def)
  have "getEditorBufferForFile example_project name = None"
    unfolding get_None [OF ok] by (simp add: registered_def example_project_def)
  then show ?thesis
    by (simp add: fs_of_def editorFileModificationTime_of_def example_disk_environment_def)
qed

lemma example_suffixes: "isCompilationUnit True ''c'' ''a.c''" "isCompilationUnit True ''c'' ''a.h'' = False"
  by code_simp+

lemma example_project_cu:
  "fi_name item = ''a.c'' \<Longrightarrow> is_cu example_disk_environment item"
  "fi_name item = ''a.h'' \<Longrightarrow> \<not> is_cu example_disk_environment item"
  by (simp_all add: is_cu_def example_disk_environment_def example_environment_def example_suffixes)

lemma example_project_ok:
  "prerequisites_ok (fs_of example_disk_environment example_project) (ed_fileTable example_project) {(1, 2)}
     (collectPrerequisites insertion_sort example_includes_header example_units)"
  using collectPrerequisites_ok [OF insertion_sort_sorts, of _ example_units example_includes_header]
  by (simp add: example_units_rel prerequisites_ok_def collectPrerequisites_def)

theorem out_of_date_units_collected_witness:
  "\<exists>list pr'. collectOutOfDateCUs example_disk_environment example_project (newBuildList 5)
      (collectPrerequisites insertion_sort example_includes_header example_units) = Some (list, pr')
    \<and> bl_fileNumbers list = [1]"
proof -
  have files: "existing_files (ed_fileTable example_project) 0
      = [(1, (fillFileItem ''a.c'')\<lparr>fi_knowledgeTime := Timestamp 50 0\<rparr>),
         (2, (fillFileItem ''a.h'')\<lparr>fi_changeTime := Timestamp 50 0\<rparr>)]"
    by (simp add: existing_files_def example_project_def List.map_filter_def upt_rec)
  have "prerequisiteChangedAfter (Timestamp 100 0) (Timestamp 50 0)"
    by (simp add: prerequisiteChangedAfter_def changedAfter_def fileTimestampMinus_def timestamp_less
        COARSE_CLOCK_GAP_IN_NANOSECONDS_def)
  then have "stale_cus example_disk_environment example_project {(1, 2)} = [1]"
    by (simp add: stale_cus_def files current_def example_project_time example_project_cu fillFileItem_def)
  moreover have "\<forall>n m. (n, m) \<in> {(1, 2)}\<^sup>+ \<longrightarrow> file_item (ed_fileTable example_project) m \<noteq> None"
    using example_project_items [of 2] by (auto simp: single_trancl)
  ultimately show ?thesis
    using out_of_date_units_collected [OF example_project_ok, of "newBuildList 5"]
    by (auto simp: added_def newBuildList_def Let_def)
qed

theorem changed_headers_removed_once_witness:
  "\<exists>s'. removeReferencesOfChangedFiles example_disk_environment example_project
      (collectPrerequisites insertion_sort example_includes_header example_units) = Some s'
    \<and> ed_itemTable s' = without_files {2} example_includes_header"
proof -
  let ?pr = "collectPrerequisites insertion_sort example_includes_header example_units"
  have ok: "files_ok example_disk_environment example_project {(1, 2)} ?pr"
    unfolding files_ok_def
  proof (intro conjI)
    show "graph_ok (pr_includeGraph ?pr)" "edge_pairs (ig_edges (pr_includeGraph ?pr)) = {(1, 2)}"
      using example_project_ok by (simp_all add: prerequisites_ok_def)
    show "\<forall>n m. (n, m) \<in> {(1, 2)}\<^sup>+ \<longrightarrow> file_item (ed_fileTable example_project) m \<noteq> None"
      using example_project_items [of 2] by (auto simp: single_trancl)
    show "table_sized example_project" by (simp add: table_sized_def example_project_def)
    show "\<forall>n item. file_item (ed_fileTable example_project) n = Some item \<longrightarrow> n < MAX_FILES \<and> nullTimestamp \<le> fi_changeTime item"
      by (auto simp: example_project_items fillFileItem_def nullTimestamp_def MAX_FILES_def timestamp_less simp flip: not_less)
    show "\<forall>name. nullTimestamp \<le> editorFileModificationTime (fs_of example_disk_environment example_project) name"
      by (simp add: example_project_time nullTimestamp_def timestamp_less flip: not_less)
  qed
  have hdr: "changed_header example_disk_environment (fs_of example_disk_environment example_project)
      ((fillFileItem ''a.h'')\<lparr>fi_changeTime := Timestamp 50 0\<rparr>)"
    "\<not> changed_header example_disk_environment (fs_of example_disk_environment example_project)
      ((fillFileItem ''a.c'')\<lparr>fi_knowledgeTime := Timestamp 50 0\<rparr>)"
    by (simp_all add: changed_header_def contentTimeOf_def example_project_cu example_project_time fillFileItem_def
        nullTimestamp_def timestamp_less)
  have ch: "changed example_disk_environment example_project n \<longleftrightarrow> n = 2" for n
    unfolding changed_def example_project_items using hdr by blast
  have "n = 2" if "includes_changed example_disk_environment example_project {(1, 2)} n" for n
    using that example_project_cu(1) unfolding includes_changed_def example_project_items ch single_trancl
    by (auto simp: fillFileItem_def)
  with ch have "{n. changed example_disk_environment example_project n
      \<or> includes_changed example_disk_environment example_project {(1, 2)} n} = {2}" by blast
  with changed_headers_removed_once [OF ok] obtain s' where
    s': "removeReferencesOfChangedFiles example_disk_environment example_project ?pr = Some s'"
      "ed_itemTable s' = without_files {2} (ed_itemTable example_project)" by (elim exE conjE) (rule that; simp)
  have "ed_itemTable example_project = example_includes_header" by (simp add: example_project_def)
  with s' show ?thesis by (intro exI [of _ s']) simp
qed

end
