(* ===== verification/Menu.thy ===== *)
theory Menu
  imports Ppc
begin

text \<open>
  Models \<^verbatim>\<open>browsingmenu.c\<close> and the part of \<^verbatim>\<open>cxref.c\<close> on menus: the entries of the symbol browser, their
  order, which of them are visible and selected, and how they are shown.

  A pointer to an entry of a list is its index. A file number without an item, through which the code
  reads without a check, has the empty name when names are only compared, and is \<^const>\<open>None\<close> otherwise.
\<close>

section \<open>Entries\<close>

record browsingMenu =
  bm_referenceable :: referenceableItem
  bm_selected :: bool
  bm_visible :: bool
  bm_filterLevel :: int
  bm_sameFile :: bool
  bm_olUsage :: usage
  bm_refn :: int
  bm_defaultRefn :: int
  bm_defaultUsage :: usage
  bm_defaultPosition :: position
  bm_outOnLine :: int

text \<open>The counters are \<open>short\<close>.\<close>

definition to_short :: "int \<Rightarrow> int" where
  "to_short x = (x + 32768) mod 65536 - 32768"

definition makeBrowsingMenu ::
  "referenceableItem \<Rightarrow> bool \<Rightarrow> bool \<Rightarrow> int \<Rightarrow> usage \<Rightarrow> usage \<Rightarrow> position \<Rightarrow> browsingMenu" where
  "makeBrowsingMenu referenceable selected visible filterLevel olUsage defaultUsage defaultPosition =
     \<lparr>bm_referenceable = referenceable, bm_selected = selected, bm_visible = visible, bm_filterLevel = filterLevel,
      bm_sameFile = False, bm_olUsage = olUsage, bm_refn = 0, bm_defaultRefn = 0, bm_defaultUsage = defaultUsage,
      bm_defaultPosition = defaultPosition, bm_outOnLine = 0\<rparr>"

definition isBestFitMatch :: "browsingMenu \<Rightarrow> bool" where
  "isBestFitMatch menu = bm_sameFile menu"

text \<open>
  The added reference is the one at the position when it has been added: its usage is changed in the list.
\<close>

definition set_usage_at :: "position \<Rightarrow> usage \<Rightarrow> reference list \<Rightarrow> reference list" where
  "set_usage_at p u refs = map (\<lambda>r. if ref_position r = p then r\<lparr>ref_usage := u\<rparr> else r) refs"

definition addReferenceToBrowsingMenu :: "browsingMenu \<Rightarrow> reference \<Rightarrow> browsingMenu" where
  "addReferenceToBrowsingMenu menu reference =
     (let item = bm_referenceable menu;
          (added, references) = addReferenceToList reference (ri_references item) in
      case added of
        None \<Rightarrow> menu
      | Some _ \<Rightarrow>
          if isDefinitionOrDeclarationUsage (ref_usage reference) then
            (let references1 =
                   (if ref_usage reference = UsageDefined
                       \<and> positionsAreEqual (ref_position reference) (bm_defaultPosition menu)
                    then set_usage_at (ref_position reference) UsageOLBestFitDefined references else references);
                 menu1 = menu\<lparr>bm_referenceable := item\<lparr>ri_references := references1\<rparr>\<rparr>;
                 menu2 = (if isMoreImportantUsageThan (ref_usage reference) (bm_defaultUsage menu1)
                          then menu1\<lparr>bm_defaultUsage := ref_usage reference,
                                     bm_defaultPosition := ref_position reference\<rparr> else menu1)
             in menu2\<lparr>bm_defaultRefn := to_short (bm_defaultRefn menu2 + 1)\<rparr>)
          else menu\<lparr>bm_referenceable := item\<lparr>ri_references := references\<rparr>, bm_refn := to_short (bm_refn menu + 1)\<rparr>)"

definition extendBrowsingMenuWithReferences :: "browsingMenu \<Rightarrow> reference list \<Rightarrow> browsingMenu" where
  "extendBrowsingMenuWithReferences menuItem references =
     fold (\<lambda>r menu. addReferenceToBrowsingMenu menu r) references menuItem"

definition createNewMenuItem ::
  "int \<Rightarrow> referenceableItem \<Rightarrow> int \<Rightarrow> position \<Rightarrow> usage \<Rightarrow> bool \<Rightarrow> bool \<Rightarrow> int \<Rightarrow> bool \<Rightarrow> usage \<Rightarrow> browsingMenu option" where
  "createNewMenuItem noFile referenceable includedFileNumber defpos defusage selected visible filterLevel relation olusage = do {
     item \<leftarrow> makeReferenceableItem noFile (ri_linkName referenceable) (ri_type referenceable)
               (ri_storage referenceable) (ri_visibility referenceable) includedFileNumber;
     Some ((makeBrowsingMenu item selected visible filterLevel olusage defusage defpos)\<lparr>bm_sameFile := relation\<rparr>)
   }"

section \<open>The order of the entries\<close>

definition fileNameOf :: "file_table \<Rightarrow> int \<Rightarrow> string" where
  "fileNameOf table n =
     (if n < 0 then [] else case getFileItemWithFileNumber table (nat n) of None \<Rightarrow> [] | Some item \<Rightarrow> fi_name item)"

definition compareIncludedFiles :: "file_table \<Rightarrow> int \<Rightarrow> int \<Rightarrow> int \<Rightarrow> int" where
  "compareIncludedFiles table noFile fileNumber1 fileNumber2 =
     (if fileNumber1 = fileNumber2 then 0
      else if fileNumber1 = noFile \<or> fileNumber2 = noFile then (if fileNumber1 < fileNumber2 then -1 else 1)
      else strcmp (fileNameOf table fileNumber1) (fileNameOf table fileNumber2))"

definition referenceableItemIsLess :: "file_table \<Rightarrow> int \<Rightarrow> referenceableItem \<Rightarrow> referenceableItem \<Rightarrow> bool" where
  "referenceableItemIsLess table noFile item1 item2 =
     (let cmp = strcmp (ri_linkName item1) (ri_linkName item2) in
      if cmp < 0 then True else if cmp > 0 then False
      else let cmp = compareIncludedFiles table noFile (ri_includeFileNumber item1) (ri_includeFileNumber item2) in
      if cmp < 0 then True else if cmp > 0 then False
      else if type_index (ri_type item1) < type_index (ri_type item2) then True
      else if type_index (ri_type item1) > type_index (ri_type item2) then False
      else if storage_index (ri_storage item1) < storage_index (ri_storage item2) then True
      else if storage_index (ri_storage item1) > storage_index (ri_storage item2) then False
      else if visibility_index (ri_visibility item1) < visibility_index (ri_visibility item2) then True
      else False)"

definition browsingMenuIsLess :: "file_table \<Rightarrow> int \<Rightarrow> browsingMenu \<Rightarrow> browsingMenu \<Rightarrow> bool" where
  "browsingMenuIsLess table noFile s1 s2 = referenceableItemIsLess table noFile (bm_referenceable s1) (bm_referenceable s2)"

text \<open>The result is the index of the entry that is there, old or new, and the list.\<close>

definition addReferenceableToBrowsingMenu ::
  "file_table \<Rightarrow> int \<Rightarrow> browsingMenu list \<Rightarrow> referenceableItem \<Rightarrow> bool \<Rightarrow> bool \<Rightarrow> int \<Rightarrow> bool \<Rightarrow> usage \<Rightarrow> position
    \<Rightarrow> usage \<Rightarrow> (nat \<times> browsingMenu list) option" where
  "addReferenceableToBrowsingMenu table noFile menus referenceable selected visible filterLevel relation olusage defpos defusage =
     (let dummyMenu = makeBrowsingMenu referenceable False False 0 olusage UsageNone (noPosition noFile);
          (before, place) = SORTED_LIST_PLACE3 (browsingMenuIsLess table noFile) dummyMenu menus in
      if place = [] \<or> browsingMenuIsLess table noFile dummyMenu (hd place) then do {
        new \<leftarrow> createNewMenuItem noFile referenceable (ri_includeFileNumber referenceable) defpos defusage
                 selected visible filterLevel relation olusage;
        Some (length before, before @ new # place)
      } else Some (length before, menus))"

section \<open>Matching entries with items\<close>

text \<open>Two pointers to the same item have equal items behind them, so the comparison of the pointers adds nothing.\<close>

definition isSameReferenceableItem :: "referenceableItem \<Rightarrow> referenceableItem \<Rightarrow> bool" where
  "isSameReferenceableItem r1 r2 =
     (if ri_visibility r1 \<noteq> ri_visibility r2 then False
      else if ri_type r1 \<noteq> TypeCppCollate \<and> ri_type r2 \<noteq> TypeCppCollate \<and> ri_type r1 \<noteq> ri_type r2 then False
      else if ri_storage r1 \<noteq> ri_storage r2 then False
      else if ri_includeFileNumber r1 \<noteq> ri_includeFileNumber r2 then False
      else if strcmp (ri_linkName r1) (ri_linkName r2) \<noteq> 0 then False
      else True)"

definition LINK_NAME_MAYBE_START :: "char \<Rightarrow> bool" where
  "LINK_NAME_MAYBE_START ch \<longleftrightarrow>
     ch = CHR ''.'' \<or> ch = CHR ''/'' \<or> ch = CHR ''!'' \<or> ch = CHR ''#'' \<or> ch = CHR ''$''"

text \<open>The bare name starts after the last such character and ends before a parenthesis.\<close>

fun getBareName_loop :: "string \<Rightarrow> string \<Rightarrow> string" where
  "getBareName_loop start [] = start"
| "getBareName_loop start (c # cs) =
     (if c = CHR ''('' then start
      else if LINK_NAME_MAYBE_START c then getBareName_loop [] cs
      else getBareName_loop (start @ [c]) cs)"

definition getBareName :: "string \<Rightarrow> string" where
  "getBareName name = getBareName_loop [] name"

definition haveSameBareName :: "referenceableItem \<Rightarrow> referenceableItem \<Rightarrow> bool" where
  "haveSameBareName p1 p2 =
     (let n1 = getBareName (ri_linkName p1); n2 = getBareName (ri_linkName p2) in
      if length n1 \<noteq> length n2 then False
      else if strncmp n1 n2 (length n1) \<noteq> 0 then False else True)"

definition FILE_MATCH_MASK :: int where "FILE_MATCH_MASK = 448"
definition FILE_MATCH_ANY :: int where "FILE_MATCH_ANY = 0"
definition FILE_MATCH_RELATED :: int where "FILE_MATCH_RELATED = 64"
definition FILE_MATCH_CLOSE :: int where "FILE_MATCH_CLOSE = 192"
definition FILE_MATCH_SAME :: int where "FILE_MATCH_SAME = 320"
definition NAME_MATCH_MASK :: int where "NAME_MATCH_MASK = 3584"
definition NAME_MATCH_ANY :: int where "NAME_MATCH_ANY = 0"
definition NAME_MATCH_APPLICABLE :: int where "NAME_MATCH_APPLICABLE = 1024"
definition NAME_MATCH_EXACT :: int where "NAME_MATCH_EXACT = 1536"

definition DEFAULT_SELECTION_FILTER :: int where
  "DEFAULT_SELECTION_FILTER = (FILE_MATCH_CLOSE OR NAME_MATCH_APPLICABLE)"

definition RENAME_SELECTION_FILTER :: int where
  "RENAME_SELECTION_FILTER = (FILE_MATCH_RELATED OR NAME_MATCH_APPLICABLE)"

definition RENAME_FILTER_LEVEL :: int where
  "RENAME_FILTER_LEVEL = (FILE_MATCH_RELATED OR NAME_MATCH_APPLICABLE)"

definition menuFilterLevels :: "int list" where
  "menuFilterLevels = [FILE_MATCH_ANY OR NAME_MATCH_ANY, FILE_MATCH_ANY OR NAME_MATCH_APPLICABLE,
                       FILE_MATCH_RELATED OR NAME_MATCH_APPLICABLE]"

definition filterLevelAtLeast :: "int \<Rightarrow> int \<Rightarrow> bool" where
  "filterLevelAtLeast level required =
     (if (level AND NAME_MATCH_MASK) < (required AND NAME_MATCH_MASK) then False
      else if (level AND FILE_MATCH_MASK) < (required AND FILE_MATCH_MASK) then False else True)"

definition matchQualityMeetsRequirement :: "browsingMenu \<Rightarrow> int \<Rightarrow> bool" where
  "matchQualityMeetsRequirement menu requiredFilterLevel = filterLevelAtLeast (bm_filterLevel menu) requiredFilterLevel"

text \<open>Both end the process when the bare names differ.\<close>

definition filterLevelFromMenu :: "browsingMenu \<Rightarrow> referenceableItem \<Rightarrow> int option" where
  "filterLevelFromMenu menu item =
     (let own = bm_referenceable menu in
      if \<not> haveSameBareName own item then None
      else if ri_type own \<noteq> TypeCppCollate
        \<and> (ri_type own \<noteq> ri_type item \<or> ri_storage own \<noteq> ri_storage item \<or> ri_visibility own \<noteq> ri_visibility item)
      then Some 0
      else Some ((if strcmp (ri_linkName own) (ri_linkName item) = 0 then NAME_MATCH_EXACT else 0)
        OR (if ri_includeFileNumber item = ri_includeFileNumber own then FILE_MATCH_SAME else 0)))"

definition computeSymbolRelation :: "browsingMenu \<Rightarrow> referenceableItem \<Rightarrow> bool option" where
  "computeSymbolRelation menu item =
     (let own = bm_referenceable menu in
      if \<not> haveSameBareName own item then None
      else if ri_type own \<noteq> TypeCppCollate
        \<and> (ri_type own \<noteq> ri_type item \<or> ri_storage own \<noteq> ri_storage item \<or> ri_visibility own \<noteq> ri_visibility item)
      then Some False
      else Some (ri_includeFileNumber item = ri_includeFileNumber own))"

definition filterLevelMax :: "int \<Rightarrow> int \<Rightarrow> int" where
  "filterLevelMax oo1 oo2 =
     ((if (oo1 AND NAME_MATCH_MASK) > (oo2 AND NAME_MATCH_MASK) then oo1 AND NAME_MATCH_MASK else oo2 AND NAME_MATCH_MASK)
      OR (if (oo1 AND FILE_MATCH_MASK) > (oo2 AND FILE_MATCH_MASK) then oo1 AND FILE_MATCH_MASK else oo2 AND FILE_MATCH_MASK))"

definition accumulateSymbolRelation :: "bool \<Rightarrow> bool \<Rightarrow> bool" where
  "accumulateSymbolRelation a b = (a \<or> b)"

section \<open>Visible and selected entries\<close>

definition setDefaultSelectedVisibleItems :: "browsingMenu list \<Rightarrow> int \<Rightarrow> int \<Rightarrow> browsingMenu list" where
  "setDefaultSelectedVisibleItems menu visibleLevel selectedLevel =
     map (\<lambda>m. let visible = matchQualityMeetsRequirement m visibleLevel;
                  selected = (if visible then
                                (if ri_type (bm_referenceable m) = TypeCppCollate then False
                                 else matchQualityMeetsRequirement m selectedLevel)
                              else False)
              in m\<lparr>bm_selected := selected, bm_visible := visible\<rparr>) menu"

definition selectUnusedSymbols :: "int \<Rightarrow> browsingMenu list \<Rightarrow> browsingMenu list" where
  "selectUnusedSymbols filter0 menu =
     (let menu1 = map (\<lambda>m. m\<lparr>bm_visible := True, bm_selected := False\<rparr>) menu;
          menu2 = map (\<lambda>m. if bm_defaultRefn m \<noteq> 0 \<and> bm_refn m = 0 then m\<lparr>bm_selected := True\<rparr> else m) menu1;
          menu3 = (if list_ex bm_selected menu2 then menu2 else map (\<lambda>m. m\<lparr>bm_visible := False\<rparr>) menu2)
      in if filter0 > 0 then map (\<lambda>m. if \<not> bm_selected m then m\<lparr>bm_visible := False\<rparr> else m) menu3 else menu3)"

text \<open>
  The groups of entries for the same item, one after the other. The entries carry their number in the
  list, by which the first one is found again. A group is collected in reverse, and put before the
  groups that have been mapped.
\<close>

function split_loop ::
  "(browsingMenu list \<Rightarrow> 's \<Rightarrow> browsingMenu list \<times> 's) \<Rightarrow> (nat \<times> browsingMenu) list \<Rightarrow> (nat \<times> browsingMenu) list
    \<Rightarrow> 's \<Rightarrow> (nat \<times> browsingMenu) list \<times> 's" where
  "split_loop f [] reconstructedList s = (reconstructedList, s)"
| "split_loop f (c # current) reconstructedList s =
     (let same = (\<lambda>m. isSameReferenceableItem (bm_referenceable (snd m)) (bm_referenceable (snd c)));
          group = rev (filter same (c # current));
          (mapped, s1) = f (map snd group) s
      in split_loop f (filter (\<lambda>m. \<not> same m) current) (LIST_APPEND (zip (map fst group) mapped) reconstructedList) s1)"
  by pat_completeness auto
termination
  by (relation "measure (\<lambda>(f, current, r, s). length current)") (auto intro: le_imp_less_Suc)

definition splitBrowsingMenuAndMap ::
  "browsingMenu list \<Rightarrow> (browsingMenu list \<Rightarrow> 's \<Rightarrow> browsingMenu list \<times> 's) \<Rightarrow> 's \<Rightarrow> browsingMenu list \<times> 's" where
  "splitBrowsingMenuAndMap menu f s =
     (let (reconstructedList, s1) = split_loop f (enumerate 0 menu) [] s;
          before = takeWhile (\<lambda>m. fst m \<noteq> 0) reconstructedList;
          from_head = dropWhile (\<lambda>m. fst m \<noteq> 0) reconstructedList
      in (map snd (if before = [] then reconstructedList else hd from_head # before @ tl from_head), s1))"

section \<open>Names in menus\<close>

definition MAX_CX_SYMBOL_SIZE :: nat where
  "MAX_CX_SYMBOL_SIZE = 3000"

fun copy_link_name :: "string \<Rightarrow> int \<Rightarrow> string" where
  "copy_link_name [] maxlen = []"
| "copy_link_name (c # cs) maxlen =
     (if c = CHR ''('' then []
      else if maxlen - 1 \<le> 0 then [c] else c # copy_link_name cs (maxlen - 1))"

definition prettyPrintLinkName :: "string \<Rightarrow> int \<Rightarrow> string" where
  "prettyPrintLinkName linkName maxlen =
     (let rest = dropWhile (\<lambda>c. c \<noteq> CHR ''!'') linkName in
      copy_link_name (if rest = [] then linkName else tl rest) maxlen)"

definition simpleFileNameFromFileNum :: "file_table \<Rightarrow> int \<Rightarrow> string option" where
  "simpleFileNameFromFileNum table fnum = do {
     item \<leftarrow> (if fnum < 0 then None else getFileItemWithFileNumber table (nat fnum));
     name \<leftarrow> getRealFileName_static (fi_name item);
     Some (simpleFileName name)
   }"

definition prettyPrintLinkNameForSymbolInMenu :: "file_table \<Rightarrow> browsingMenu \<Rightarrow> string option" where
  "prettyPrintLinkNameForSymbolInMenu table menu =
     (if ri_type (bm_referenceable menu) = TypeCppInclude
      then simpleFileNameFromFileNum table (ri_includeFileNumber (bm_referenceable menu))
      else Some (prettyPrintLinkName (ri_linkName (bm_referenceable menu)) (int MAX_CX_SYMBOL_SIZE)))"

section \<open>Showing a menu\<close>

definition PPC_SYMBOL_RESOLUTION :: string where "PPC_SYMBOL_RESOLUTION = ''resolution''"
definition PPC_SYMBOL :: string where "PPC_SYMBOL = ''symbol''"
definition PPCA_SELECTED :: string where "PPCA_SELECTED = ''selected''"
definition PPCA_DEF_REFN :: string where "PPCA_DEF_REFN = ''drefn''"
definition PPCA_REFN :: string where "PPCA_REFN = ''refn''"
definition PPCA_TYPE :: string where "PPCA_TYPE = ''type''"
definition SYMBOL_MENU_FIRST_LINE :: int where "SYMBOL_MENU_FIRST_LINE = 0"

definition printMenuItemPrefix :: "browsingMenu option \<Rightarrow> bool \<Rightarrow> int list" where
  "printMenuItemPrefix menu selectable =
     attribute PPCA_SELECTED (printf_d (if \<not> selectable then 2
        else if (case menu of None \<Rightarrow> False | Some m \<Rightarrow> bm_selected m) then 1 else 0))
     @ str_bytes '' base=0''
     @ (case menu of
          None \<Rightarrow> attribute PPCA_DEF_REFN (printf_d 0) @ attribute PPCA_REFN (printf_d 0)
        | Some m \<Rightarrow>
            if (bm_defaultRefn m = 0 \<and> bm_refn m = 0) \<or> \<not> selectable
            then attribute PPCA_DEF_REFN (printf_d 0) @ attribute PPCA_REFN (printf_d 0)
            else attribute PPCA_DEF_REFN (printf_d (bm_defaultRefn m)) @ attribute PPCA_REFN (printf_d (bm_refn m)))"

text \<open>What is kept while the entries are printed: the number of the line, and the output.\<close>

definition printMenuEntry ::
  "file_table \<Rightarrow> browsingMenu \<Rightarrow> int \<times> ppc option \<Rightarrow> browsingMenu \<times> (int \<times> ppc option)" where
  "printMenuEntry table menu st =
     (let (lineNumber, p) = st;
          line = (if lineNumber = 1 then lineNumber + 1 else lineNumber);
          menu1 = menu\<lparr>bm_outOnLine := line\<rparr>;
          t = ri_type (bm_referenceable menu1)
      in (menu1, line + 1, do {
            p1 \<leftarrow> p;
            name \<leftarrow> prettyPrintLinkNameForSymbolInMenu table menu1;
            Some (fput ([60] @ str_bytes PPC_SYMBOL @ attribute PPCA_LINE (printf_d (line + SYMBOL_MENU_FIRST_LINE))
                        @ (if t \<noteq> TypeDefault then attribute PPCA_TYPE (str_bytes (typeNamesTable t)) else [])
                        @ printMenuItemPrefix (Some menu1) True
                        @ attribute PPCA_LEN (printf_d (int (length name))) @ [62] @ str_bytes name
                        @ end_tag PPC_SYMBOL @ [10])
                   (ppcIndent p1))
          }))"

fun print_entries ::
  "file_table \<Rightarrow> browsingMenu list \<Rightarrow> int \<times> ppc option \<Rightarrow> browsingMenu list \<times> (int \<times> ppc option)" where
  "print_entries table [] st = ([], st)"
| "print_entries table (m # ms) st =
     (let (m1, st1) = printMenuEntry table m st; (ms1, st2) = print_entries table ms st1 in (m1 # ms1, st2))"

definition printReferenceListsForMenuEntries ::
  "file_table \<Rightarrow> browsingMenu list \<Rightarrow> int \<times> ppc option \<Rightarrow> browsingMenu list \<times> (int \<times> ppc option)" where
  "printReferenceListsForMenuEntries table menu st =
     (if dropWhile (\<lambda>m. \<not> bm_visible m) menu = [] then (menu, st) else print_entries table menu st)"

definition printGlobalReferenceLists ::
  "file_table \<Rightarrow> browsingMenu list \<Rightarrow> ppc \<Rightarrow> (browsingMenu list \<times> ppc) option" where
  "printGlobalReferenceLists table menu p =
     (let (menu1, _, p1) = splitBrowsingMenuAndMap (map (\<lambda>m. m\<lparr>bm_outOnLine := 0\<rparr>) menu)
                             (printReferenceListsForMenuEntries table) (1, Some p)
      in map_option (Pair menu1) p1)"

definition printSelectionMenu ::
  "file_table \<Rightarrow> browsingMenu list \<Rightarrow> ppc \<Rightarrow> (browsingMenu list \<times> ppc) option" where
  "printSelectionMenu table menu p = do {
     (menu1, p1) \<leftarrow> (if menu \<noteq> [] then printGlobalReferenceLists table menu (ppcBegin PPC_SYMBOL_RESOLUTION p)
                     else Some (menu, ppcBegin PPC_SYMBOL_RESOLUTION p));
     Some (menu1, ppcEnd PPC_SYMBOL_RESOLUTION p1)
   }"

section \<open>Splitting keeps the entries\<close>

definition entry_of :: "nat \<times> browsingMenu \<Rightarrow> nat \<times> referenceableItem" where
  "entry_of m = (fst m, bm_referenceable (snd m))"

definition keeps_items :: "(browsingMenu list \<Rightarrow> 's \<Rightarrow> browsingMenu list \<times> 's) \<Rightarrow> bool" where
  "keeps_items f \<longleftrightarrow> (\<forall>group s. map bm_referenceable (fst (f group s)) = map bm_referenceable group)"

lemma isSameReferenceableItem_refl [simp]: "isSameReferenceableItem r r"
  by (simp add: isSameReferenceableItem_def)

lemma zip_entries:
  "map bm_referenceable mapped = map (bm_referenceable \<circ> snd) grp \<Longrightarrow>
   map entry_of (zip (map fst grp) mapped) = map entry_of grp"
proof (induction grp arbitrary: mapped)
  case (Cons g grp)
  then show ?case by (cases mapped) (auto simp: entry_of_def)
qed simp

lemma split_loop_entries:
  "keeps_items f \<Longrightarrow>
   mset (map entry_of (fst (split_loop f current reconstructed s)))
     = mset (map entry_of current) + mset (map entry_of reconstructed)"
proof (induction f current reconstructed s rule: split_loop.induct)
  case (2 f c current reconstructed s)
  let ?same = "\<lambda>m. isSameReferenceableItem (bm_referenceable (snd m)) (bm_referenceable (snd c))"
  let ?grp = "rev (filter ?same (c # current))"
  obtain mapped s1 where f: "f (map snd ?grp) s = (mapped, s1)" by fastforce
  have "map bm_referenceable mapped = map (bm_referenceable \<circ> snd) ?grp"
  proof -
    have "map bm_referenceable (fst (f (map snd ?grp) s)) = map bm_referenceable (map snd ?grp)"
      using 2(2) unfolding keeps_items_def by blast
    then show ?thesis unfolding f fst_conv map_map .
  qed
  from zip_entries [OF this] have z: "map entry_of (zip (map fst ?grp) mapped) = map entry_of ?grp" .
  have "fst (split_loop f (c # current) reconstructed s)
      = fst (split_loop f (filter (\<lambda>m. \<not> ?same m) current) (zip (map fst ?grp) mapped @ reconstructed) s1)"
    by (subst split_loop.simps(2)) (simp only: Let_def f prod.case LIST_APPEND_append)
  then have "mset (map entry_of (fst (split_loop f (c # current) reconstructed s)))
      = mset (map entry_of (filter (\<lambda>m. \<not> ?same m) current)) + mset (map entry_of (zip (map fst ?grp) mapped @ reconstructed))"
    using 2(1) [OF refl refl refl f [symmetric] 2(2)] f by (simp only: LIST_APPEND_append)
  also have "mset (map entry_of (filter (\<lambda>m. \<not> ?same m) current)) + mset (map entry_of (zip (map fst ?grp) mapped @ reconstructed))
      = image_mset entry_of (mset (filter ?same (c # current)) + mset (filter (\<lambda>m. \<not> ?same m) (c # current)))
        + mset (map entry_of reconstructed)"
  proof -
    have "filter (\<lambda>m. \<not> ?same m) (c # current) = filter (\<lambda>m. \<not> ?same m) current" by simp
    then show ?thesis unfolding map_append z
      by (simp only: mset_map mset_append mset_rev image_mset_union add.commute add.left_commute add.assoc)
  qed
  also have "mset (filter ?same (c # current)) + mset (filter (\<lambda>m. \<not> ?same m) (c # current)) = mset (c # current)"
    unfolding mset_filter by (rule multiset_partition [symmetric])
  finally show ?case by simp
qed simp

lemma head_first:
  assumes "distinct (map fst xs)" "0 \<in> fst ` set xs"
  shows "\<exists>x ys. (if takeWhile (\<lambda>m. fst m \<noteq> (0::nat)) xs = [] then xs
      else hd (dropWhile (\<lambda>m. fst m \<noteq> 0) xs) # takeWhile (\<lambda>m. fst m \<noteq> 0) xs @ tl (dropWhile (\<lambda>m. fst m \<noteq> 0) xs)) = x # ys
    \<and> fst x = 0 \<and> mset (x # ys) = mset xs"
proof -
  have ne: "dropWhile (\<lambda>m. fst m \<noteq> 0) xs \<noteq> []" using assms(2) by (force simp: dropWhile_eq_Nil_conv)
  then obtain x rest where d: "dropWhile (\<lambda>m. fst m \<noteq> 0) xs = x # rest" by (cases "dropWhile (\<lambda>m. fst m \<noteq> 0) xs") auto
  then have x: "fst x = 0" using hd_dropWhile [OF ne] by simp
  have "takeWhile (\<lambda>m. fst m \<noteq> 0) xs @ x # rest = xs" using takeWhile_dropWhile_id [of "\<lambda>m. fst m \<noteq> 0" xs] unfolding d .
  then have m: "mset xs = mset (x # takeWhile (\<lambda>m. fst m \<noteq> 0) xs @ rest)" by (metis mset_append mset.simps(2) union_mset_add_mset_right)
  show ?thesis
  proof (cases "takeWhile (\<lambda>m. fst m \<noteq> 0) xs = []")
    case True
    then have "xs = x # rest" using \<open>takeWhile (\<lambda>m. fst m \<noteq> 0) xs @ x # rest = xs\<close> by simp
    then show ?thesis using True x by simp
  next
    case False
    then show ?thesis unfolding d list.sel m using x by (intro exI [of _ x] exI [of _ "takeWhile (\<lambda>m. fst m \<noteq> 0) xs @ rest"] conjI) simp_all
  qed
qed

lemma split_mset:
  assumes "menu \<noteq> []" "keeps_items f" "split_loop f (enumerate 0 menu) [] s = (reconstructed, s1)"
  shows "\<exists>x ys. splitBrowsingMenuAndMap menu f s = (map snd (x # ys), s1) \<and> mset (x # ys) = mset reconstructed
    \<and> bm_referenceable (snd x) = bm_referenceable (hd menu)"
proof -
  have m: "mset (map entry_of reconstructed) = mset (map entry_of (enumerate 0 menu))"
    using split_loop_entries [OF assms(2), of "enumerate 0 menu" "[]" s] assms(3) by simp
  then have "mset (map fst (map entry_of reconstructed)) = mset (map fst (map entry_of (enumerate 0 menu)))"
    by (metis mset_map)
  then have "mset (map fst reconstructed) = mset [0..<length menu]" by (simp add: entry_of_def comp_def)
  then have d: "distinct (map fst reconstructed)" and z: "set (map fst reconstructed) = set [0..<length menu]"
    by (metis distinct_upt mset_eq_imp_distinct_iff) (metis \<open>mset (map fst reconstructed) = mset [0..<length menu]\<close> set_mset_mset)
  have "0 \<in> fst ` set reconstructed" using z assms(1) by auto
  from head_first [OF d this] obtain x ys where x:
    "(if takeWhile (\<lambda>m. fst m \<noteq> 0) reconstructed = [] then reconstructed
      else hd (dropWhile (\<lambda>m. fst m \<noteq> 0) reconstructed) # takeWhile (\<lambda>m. fst m \<noteq> 0) reconstructed
        @ tl (dropWhile (\<lambda>m. fst m \<noteq> 0) reconstructed)) = x # ys" "fst x = 0" "mset (x # ys) = mset reconstructed" by blast
  have "entry_of x \<in> set (map entry_of reconstructed)"
    using x(3) by (metis image_eqI list.set_intros(1) list.set_map set_mset_mset)
  then have "entry_of x \<in> set (map entry_of (enumerate 0 menu))" using m by (metis set_mset_mset)
  then obtain j b where "entry_of x = entry_of (j, b)" "(j, b) \<in> set (enumerate 0 menu)" by auto
  then have "bm_referenceable (snd x) = bm_referenceable (hd menu)"
    using x(2) assms(1) by (auto simp: entry_of_def in_set_enumerate_eq hd_conv_nth)
  moreover have "splitBrowsingMenuAndMap menu f s = (map snd (x # ys), s1)"
    unfolding splitBrowsingMenuAndMap_def assms(3) Let_def prod.case x(1) ..
  ultimately show ?thesis using x(3) by blast
qed

section \<open>The lines of the entries\<close>

lemma printMenuEntry_line:
  assumes "1 \<le> l"
  shows "bm_referenceable (fst (printMenuEntry table m (l, p))) = bm_referenceable m
    \<and> bm_outOnLine (fst (printMenuEntry table m (l, p))) = max 2 l
    \<and> fst (snd (printMenuEntry table m (l, p))) = max 2 l + 1"
  using assms by (auto simp: printMenuEntry_def Let_def)

lemma print_entries_lines:
  "1 \<le> l \<Longrightarrow>
   map bm_referenceable (fst (print_entries table ms (l, p))) = map bm_referenceable ms
   \<and> (\<forall>m\<in>set (fst (print_entries table ms (l, p))). max 2 l \<le> bm_outOnLine m \<and> bm_outOnLine m < fst (snd (print_entries table ms (l, p))))
   \<and> l \<le> fst (snd (print_entries table ms (l, p)))
   \<and> distinct (map bm_outOnLine (fst (print_entries table ms (l, p))))"
proof (induction ms arbitrary: l p)
  case (Cons m ms)
  obtain m1 l1 p1 where m1: "printMenuEntry table m (l, p) = (m1, l1, p1)" by (cases "printMenuEntry table m (l, p)") auto
  obtain ms1 l2 p2 where ms1: "print_entries table ms (l1, p1) = (ms1, l2, p2)" by (cases "print_entries table ms (l1, p1)") auto
  have e: "print_entries table (m # ms) (l, p) = (m1 # ms1, l2, p2)" by (simp add: m1 ms1)
  from printMenuEntry_line [OF Cons.prems, of table m p] have
    1: "bm_referenceable m1 = bm_referenceable m" "bm_outOnLine m1 = max 2 l" "l1 = max 2 l + 1" by (simp_all add: m1)
  then have "1 \<le> l1" by simp
  from Cons.IH [OF this, of p1] have
    2: "map bm_referenceable ms1 = map bm_referenceable ms" "\<forall>m\<in>set ms1. max 2 l1 \<le> bm_outOnLine m \<and> bm_outOnLine m < l2"
      "l1 \<le> l2" "distinct (map bm_outOnLine ms1)" by (simp_all add: ms1)
  show ?case unfolding e fst_conv snd_conv using 1 2 by fastforce
qed simp

text \<open>The numbers given so far are distinct, and below the next.\<close>

definition lined :: "int \<Rightarrow> browsingMenu list \<Rightarrow> bool" where
  "lined l ms \<longleftrightarrow> distinct (filter (\<lambda>x. x \<noteq> 0) (map bm_outOnLine ms))
     \<and> (\<forall>m\<in>set ms. bm_outOnLine m = 0 \<or> 2 \<le> bm_outOnLine m \<and> bm_outOnLine m < l)"

definition unlined :: "browsingMenu list \<Rightarrow> bool" where
  "unlined ms \<longleftrightarrow> (\<forall>m\<in>set ms. bm_outOnLine m = 0)"

lemma lined_append:
  assumes "lined l reconstructed" "1 \<le> l" "unlined grp"
  shows "lined (fst (snd (printReferenceListsForMenuEntries table grp (l, p))))
      (fst (printReferenceListsForMenuEntries table grp (l, p)) @ reconstructed)
    \<and> l \<le> fst (snd (printReferenceListsForMenuEntries table grp (l, p)))"
proof (cases "dropWhile (\<lambda>m. \<not> bm_visible m) grp = []")
  case True
  then have "printReferenceListsForMenuEntries table grp (l, p) = (grp, l, p)" by (simp add: printReferenceListsForMenuEntries_def)
  moreover have "filter (\<lambda>x. x \<noteq> 0) (map bm_outOnLine grp) = []" using assms(3) by (simp add: unlined_def filter_empty_conv)
  ultimately show ?thesis using assms by (auto simp: lined_def unlined_def)
next
  case False
  then have e: "printReferenceListsForMenuEntries table grp (l, p) = print_entries table grp (l, p)"
    by (auto simp: printReferenceListsForMenuEntries_def)
  obtain ms l1 p1 where ms: "print_entries table grp (l, p) = (ms, l1, p1)" by (cases "print_entries table grp (l, p)") auto
  have 1: "\<forall>m\<in>set ms. max 2 l \<le> bm_outOnLine m \<and> bm_outOnLine m < l1" "l \<le> l1" "distinct (map bm_outOnLine ms)"
    using print_entries_lines [OF assms(2), of table grp p] by (simp_all add: ms)
  have "filter (\<lambda>x. x \<noteq> 0) (map bm_outOnLine ms) = map bm_outOnLine ms" using 1(1) by (intro filter_True) auto
  moreover have "set (map bm_outOnLine ms) \<inter> set (filter (\<lambda>x. x \<noteq> 0) (map bm_outOnLine reconstructed)) = {}"
  proof -
    have "x \<ge> l" if "x \<in> set (map bm_outOnLine ms)" for x using that 1(1) by auto
    moreover have "x < l" if "x \<in> set (filter (\<lambda>x. x \<noteq> 0) (map bm_outOnLine reconstructed))" for x
      using that assms(1) by (auto simp: lined_def)
    ultimately show ?thesis by fastforce
  qed
  moreover have "\<forall>m\<in>set (ms @ reconstructed). bm_outOnLine m = 0 \<or> 2 \<le> bm_outOnLine m \<and> bm_outOnLine m < l1"
    using 1(1,2) assms(1) by (fastforce simp: lined_def)
  ultimately show ?thesis unfolding e ms fst_conv snd_conv using 1 assms(1)
    by (simp add: lined_def)
qed

lemma print_entries_items: "map bm_referenceable (fst (print_entries table ms st)) = map bm_referenceable ms"
proof (induction ms arbitrary: st)
  case (Cons m ms)
  have "bm_referenceable (fst (printMenuEntry table m st)) = bm_referenceable m"
    by (cases st) (simp add: printMenuEntry_def Let_def)
  with Cons show ?case by (simp add: split_beta)
qed simp

lemma printing_keeps_items: "keeps_items (printReferenceListsForMenuEntries table)"
  by (simp add: keeps_items_def printReferenceListsForMenuEntries_def print_entries_items)

lemma split_loop_lined:
  "lined l (map snd reconstructed) \<Longrightarrow> unlined (map snd current) \<Longrightarrow> 1 \<le> l \<Longrightarrow>
   \<exists>l'. lined l' (map snd (fst (split_loop (printReferenceListsForMenuEntries table) current reconstructed (l, p))))"
proof (induction "length current" arbitrary: current reconstructed l p rule: less_induct)
  case less
  show ?case
  proof (cases current)
    case Nil
    then show ?thesis using less.prems(1) by auto
  next
    case (Cons c rest)
    let ?f = "printReferenceListsForMenuEntries table"
    let ?same = "\<lambda>m. isSameReferenceableItem (bm_referenceable (snd m)) (bm_referenceable (snd c))"
    let ?grp = "rev (filter ?same (c # rest))" and ?rest = "filter (\<lambda>m. \<not> ?same m) rest"
    obtain mapped l1 p1 where f: "?f (map snd ?grp) (l, p) = (mapped, l1, p1)"
      by (cases "?f (map snd ?grp) (l, p)") auto
    have "unlined (map snd ?grp)" using less.prems(2) Cons by (auto simp: unlined_def)
    from lined_append [OF less.prems(1,3) this, of table p] have
      1: "lined l1 (mapped @ map snd reconstructed)" "l \<le> l1" by (simp_all only: f fst_conv snd_conv)
    have "map bm_referenceable (fst (?f (map snd ?grp) (l, p))) = map bm_referenceable (map snd ?grp)"
      using printing_keeps_items unfolding keeps_items_def by blast
    then have "length mapped = length ?grp" unfolding f fst_conv by (metis length_map)
    then have z: "map snd (zip (map fst ?grp) mapped) = mapped" by simp
    have "split_loop ?f current reconstructed (l, p)
        = split_loop ?f ?rest (zip (map fst ?grp) mapped @ reconstructed) (l1, p1)"
      unfolding Cons by (subst split_loop.simps(2)) (simp only: Let_def f prod.case LIST_APPEND_append)
    moreover have "length ?rest < length current" using Cons by (auto intro: le_imp_less_Suc)
    moreover have "lined l1 (map snd (zip (map fst ?grp) mapped @ reconstructed))" unfolding map_append z using 1(1) .
    moreover have "unlined (map snd ?rest)" using less.prems(2) Cons by (auto simp: unlined_def)
    moreover have "1 \<le> l1" using 1(2) less.prems(3) by simp
    ultimately show ?thesis using less.hyps by metis
  qed
qed

lemma lined_mset: "mset ms = mset ms' \<Longrightarrow> lined l ms \<Longrightarrow> lined l ms'"
proof -
  assume m: "mset ms = mset ms'" and l: "lined l ms"
  from m have "mset (filter (\<lambda>x. x \<noteq> 0) (map bm_outOnLine ms)) = mset (filter (\<lambda>x. x \<noteq> 0) (map bm_outOnLine ms'))"
    by (simp add: mset_filter)
  moreover have "set ms = set ms'" using m by (rule mset_eq_setD)
  ultimately show ?thesis using l unfolding lined_def by (metis mset_eq_imp_distinct_iff)
qed

section \<open>Properties\<close>

text \<open>Printing the menu of a session keeps its entries, with the same one first, and gives every entry that
  is shown a line of its own: a line selects at most one entry.\<close>

theorem menu_lines_distinct:
  assumes "printSelectionMenu table menu p = Some (menu', p')" "menu \<noteq> []"
  shows "mset (map bm_referenceable menu') = mset (map bm_referenceable menu)
    \<and> bm_referenceable (hd menu') = bm_referenceable (hd menu)
    \<and> distinct (filter (\<lambda>line. line \<noteq> 0) (map bm_outOnLine menu'))"
proof -
  let ?f = "printReferenceListsForMenuEntries table" and ?menu = "map (\<lambda>m. m\<lparr>bm_outOnLine := 0\<rparr>) menu"
  let ?p = "Some (ppcBegin PPC_SYMBOL_RESOLUTION p)"
  obtain reconstructed l1 p1 where r: "split_loop ?f (enumerate 0 ?menu) [] (1, ?p) = (reconstructed, l1, p1)"
    by (cases "split_loop ?f (enumerate 0 ?menu) [] (1, ?p)") auto
  have ne: "?menu \<noteq> []" using assms(2) by simp
  from split_mset [OF ne printing_keeps_items r] obtain x ys where
    x: "splitBrowsingMenuAndMap ?menu ?f (1, ?p) = (map snd (x # ys), l1, p1)" "mset (x # ys) = mset reconstructed"
      "bm_referenceable (snd x) = bm_referenceable (hd ?menu)" by blast
  have m': "menu' = map snd (x # ys)"
    using assms x(1) by (auto simp: printSelectionMenu_def printGlobalReferenceLists_def bind_eq_Some_iff)
  have hd: "bm_referenceable (hd ?menu) = bm_referenceable (hd menu)" using assms(2) by (cases menu) simp_all
  have "mset (map entry_of (x # ys)) = mset (map entry_of (enumerate 0 ?menu))"
    using split_loop_entries [OF printing_keeps_items, of table "enumerate 0 ?menu" "[]" "(1, ?p)"] x(2)
    unfolding r fst_conv by (metis mset_map add.right_neutral list.map(1) mset.simps(1))
  then have "mset (map snd (map entry_of (x # ys))) = mset (map snd (map entry_of (enumerate 0 ?menu)))" by (metis mset_map)
  moreover have "map snd (map entry_of zs) = map bm_referenceable (map snd zs)" for zs by (simp add: entry_of_def)
  ultimately have "mset (map bm_referenceable menu') = mset (map bm_referenceable ?menu)"
    unfolding m' by (metis map_snd_enumerate)
  moreover have "map bm_referenceable ?menu = map bm_referenceable menu" by simp
  moreover have "\<exists>l'. lined l' (map snd (fst (split_loop ?f (enumerate 0 ?menu) [] (1, ?p))))"
    by (rule split_loop_lined) (auto simp: lined_def unlined_def in_set_enumerate_eq)
  then obtain l' where "lined l' (map snd reconstructed)" unfolding r by auto
  then have "lined l' menu'" unfolding m' using x(2) by (intro lined_mset [OF _ \<open>lined l' (map snd reconstructed)\<close>]) (metis mset_map)
  moreover have "bm_referenceable (hd menu') = bm_referenceable (hd menu)" using x(3) hd m' by simp
  ultimately show ?thesis unfolding lined_def by metis
qed

definition example_menu :: "browsingMenu list" where
  "example_menu = [makeBrowsingMenu example_item True True 0 UsageUsed UsageNone (Position 0 0 0),
                   makeBrowsingMenu (example_item\<lparr>ri_linkName := ''exit''\<rparr>) False True 0 UsageUsed UsageNone (Position 0 0 0)]"

theorem menu_lines_distinct_witness:
  "\<exists>menu' p'. printSelectionMenu example_file_table example_menu example_ppc = Some (menu', p')
     \<and> distinct (filter (\<lambda>line. line \<noteq> 0) (map bm_outOnLine menu'))"
proof -
  have "printSelectionMenu example_file_table example_menu example_ppc \<noteq> None"
    by (simp add: printSelectionMenu_def printGlobalReferenceLists_def splitBrowsingMenuAndMap_def example_menu_def
        isSameReferenceableItem_def example_item_def makeBrowsingMenu_def printReferenceListsForMenuEntries_def
        printMenuEntry_def prettyPrintLinkNameForSymbolInMenu_def Let_def split_beta)
  then obtain menu' p' where e: "printSelectionMenu example_file_table example_menu example_ppc = Some (menu', p')" by auto
  moreover have "example_menu \<noteq> []" by (simp add: example_menu_def)
  ultimately show ?thesis using menu_lines_distinct [OF e] by blast
qed

end
