(* ===== verification/Session.thy ===== *)
theory Session
  imports Menu
begin

text \<open>
  Models \<^verbatim>\<open>session.c\<close>, the stacks of sessions of the server, \<^verbatim>\<open>match.c\<close>, the matches a session of a
  completion or a search holds, and the functions of \<^verbatim>\<open>cxref.c\<close> that push and pop sessions.
\<close>

section \<open>Operations of the server\<close>

datatype serverOperation =
    OP_NONE | OP_ABOUT | OP_GET_PROJECT | OP_BROWSE_GOTO_N | OP_BROWSE_NEXT | OP_BROWSE_POP
  | OP_BROWSE_POP_ONLY | OP_BROWSE_PREVIOUS | OP_BROWSE_PUSH | OP_BROWSE_PUSH_AND_CALL_MACRO
  | OP_BROWSE_PUSH_NAME | OP_BROWSE_PUSH_ONLY | OP_BROWSE_REPUSH | OP_COMPLETION
  | OP_COMPLETION_GOTO_N | OP_COMPLETION_NEXT | OP_COMPLETION_PREVIOUS | OP_COMPLETION_SELECT
  | OP_DUMP | OP_FILTER | OP_GET_AVAILABLE_REFACTORINGS | OP_GET_ENV_VALUE
  | OP_INTERNAL_GET_FUNCTION_BOUNDS | OP_INTERNAL_LIST | OP_INTERNAL_PARSE_TO_EXTRACT
  | OP_INTERNAL_PARSE_TO_GET_PARAM_COORDINATES | OP_INTERNAL_PARSE_TO_GOTO_PARAM_NAME
  | OP_INTERNAL_PARSE_TO_SET_MOVE_TARGET | OP_INTERNAL_PUSH_FOR_ARGUMENT_MANIPULATION
  | OP_INTERNAL_PUSH_FOR_USAGE_CHECK | OP_INTERNAL_PUSH_FOR_RENAME | OP_INTERNAL_SAFETY_CHECK
  | OP_MENU_FILTER | OP_MENU_SELECT_ALL | OP_MENU_SELECT_NONE | OP_MENU_SELECT_ONLY
  | OP_MENU_TOGGLE_SELECT | OP_REFACTORY | OP_SEARCH | OP_SEARCH_GOTO_N | OP_SEARCH_NEXT
  | OP_SEARCH_PREVIOUS | OP_SEARCH_SELECT | OP_UNUSED_IN_PROJECT | OP_UNUSED_IN_FILE

section \<open>Matches\<close>

text \<open>
  A name that is not given is \<^const>\<open>None\<close>. Only matches with a name are compared; the code would read
  through the null pointer.
\<close>

record match =
  m_name :: "string option"
  m_fullName :: "string option"
  m_lineCount :: int
  m_visibility :: visibility
  m_reference :: reference
  m_referenceable :: referenceableItem

definition newMatch ::
  "string option \<Rightarrow> string option \<Rightarrow> int \<Rightarrow> visibility \<Rightarrow> reference \<Rightarrow> referenceableItem \<Rightarrow> match" where
  "newMatch name fullName lineCount visibility reference referenceable =
     \<lparr>m_name = name, m_fullName = fullName, m_lineCount = to_short lineCount, m_visibility = visibility,
      m_reference = reference, m_referenceable = referenceable\<rparr>"

definition count_newlines :: "string \<Rightarrow> int \<Rightarrow> int" where
  "count_newlines fullName lineCount =
     fold (\<lambda>c n. if c = CHR 10 then to_short (n + 1) else n) fullName lineCount"

text \<open>A reference that is read although none is given ends the process.\<close>

definition prependToMatches ::
  "int \<Rightarrow> match list \<Rightarrow> string option \<Rightarrow> string option \<Rightarrow> symbol option \<Rightarrow> referenceableItem option
    \<Rightarrow> reference option \<Rightarrow> int \<Rightarrow> match list option" where
  "prependToMatches noFile matches name fullName symbol referenceableItem reference includedFileNumber = do {
     match \<leftarrow> (case referenceableItem of
         Some given \<Rightarrow> do {
           r \<leftarrow> reference;
           item \<leftarrow> makeReferenceableItem noFile (ri_linkName given) (ri_type given) (ri_storage given)
                     (ri_visibility given) (ri_includeFileNumber given);
           Some (newMatch name fullName 1 (ri_visibility given) r item)
         }
       | None \<Rightarrow> (case symbol of
           None \<Rightarrow> do {
             r \<leftarrow> reference;
             item \<leftarrow> makeReferenceableItem noFile [] TypeUnknown StorageDefault VisibilityLocal noFile;
             Some (newMatch name fullName 1 VisibilityLocal r item)
           }
         | Some s \<Rightarrow>
             let (visibility, storage) = getSymbolCxrefProperties s in do {
               item \<leftarrow> makeReferenceableItem noFile (sym_linkName s) (sym_type s) storage visibility includedFileNumber;
               Some (newMatch name fullName 1 visibility (makeReference (sym_position s) UsageNone) item)
             }));
     Some ((case fullName of None \<Rightarrow> match
            | Some whole \<Rightarrow> match\<lparr>m_lineCount := count_newlines whole (m_lineCount match)\<rparr>) # matches)
   }"

definition matchNameIsLessThan :: "match \<Rightarrow> match \<Rightarrow> bool" where
  "matchNameIsLessThan m1 m2 \<longleftrightarrow>
     (case (m_name m1, m_name m2) of (Some n1, Some n2) \<Rightarrow> strcmp n1 n2 < 0 | _ \<Rightarrow> False)"

definition sortMatchList :: "(match \<Rightarrow> match \<Rightarrow> bool) \<Rightarrow> match list \<Rightarrow> match list" where
  "sortMatchList compareFunction matches = LIST_MERGE_SORT compareFunction matches"

definition sortMatchListByName :: "match list \<Rightarrow> match list" where
  "sortMatchListByName matches = sortMatchList matchNameIsLessThan matches"

fun nth_line_loop :: "int \<Rightarrow> int \<Rightarrow> match option \<Rightarrow> match list \<Rightarrow> match option" where
  "nth_line_loop i n found [] = found"
| "nth_line_loop i n found (this # rest) =
     (if i \<le> n then nth_line_loop (i + m_lineCount this) n (Some this) rest else found)"

definition getMatchOnNthLine :: "match list \<Rightarrow> int \<Rightarrow> match option" where
  "getMatchOnNthLine matches n = nth_line_loop 1 n None matches"

section \<open>Sessions\<close>

text \<open>The current reference is the number of its cell in the list of references.\<close>

record sessionEntry =
  se_callerPosition :: position
  se_operation :: serverOperation
  se_references :: "reference list"
  se_current :: "nat option"
  se_hkSelectedSym :: "browsingMenu list"
  se_menu :: "browsingMenu list"
  se_menuFilterLevel :: int
  se_refsFilterLevel :: int
  se_matches :: "match list"

text \<open>
  The entries lead from the root down to the bottom; those above the top have been popped and can be pushed
  again. An entry is known by its depth, the number of entries from it down to the bottom, and
  \<open>NULL\<close> is 0.
\<close>

record sessionStack =
  st_popped :: "sessionEntry list"
  st_active :: "sessionEntry list"

definition st_entries :: "sessionStack \<Rightarrow> sessionEntry list" where
  "st_entries stack = st_popped stack @ st_active stack"

definition st_top :: "sessionStack \<Rightarrow> nat" where
  "st_top stack = length (st_active stack)"

definition st_root :: "sessionStack \<Rightarrow> nat" where
  "st_root stack = length (st_entries stack)"

definition st_previous :: "nat \<Rightarrow> nat" where
  "st_previous entry = entry - 1"

definition set_top :: "nat \<Rightarrow> sessionStack \<Rightarrow> sessionStack" where
  "set_top entry stack =
     (let entries = st_entries stack; n = length entries - entry
      in stack\<lparr>st_popped := take n entries, st_active := drop n entries\<rparr>)"

definition top_entry :: "sessionStack \<Rightarrow> sessionEntry option" where
  "top_entry stack = (case st_active stack of [] \<Rightarrow> None | entry # _ \<Rightarrow> Some entry)"

definition set_top_entry :: "sessionEntry \<Rightarrow> sessionStack \<Rightarrow> sessionStack" where
  "set_top_entry entry stack = stack\<lparr>st_active := entry # tl (st_active stack)\<rparr>"

definition MenuFilterExactMatchSameFile :: int where "MenuFilterExactMatchSameFile = 2"
definition ReferenceFilterAll :: int where "ReferenceFilterAll = 0"

definition DEFAULT_MENU_FILTER_LEVEL :: int where
  "DEFAULT_MENU_FILTER_LEVEL = MenuFilterExactMatchSameFile"

definition DEFAULT_REFS_FILTER_LEVEL :: int where
  "DEFAULT_REFS_FILTER_LEVEL = ReferenceFilterAll"

definition MAX_COMPLETIONS_HISTORY :: nat where
  "MAX_COMPLETIONS_HISTORY = 10"

text \<open>The entry that is taken out is the root, the top, or one that another leads to.\<close>

definition deleteSessionStackEntry :: "nat \<Rightarrow> sessionStack \<Rightarrow> sessionStack" where
  "deleteSessionStackEntry entry stack =
     (if entry > st_top stack
      then stack\<lparr>st_popped := (let n = st_root stack - entry in take n (st_popped stack) @ drop (Suc n) (st_popped stack))\<rparr>
      else stack\<lparr>st_active := (let n = st_top stack - entry in take n (st_active stack) @ drop (Suc n) (st_active stack))\<rparr>)"

function freePoppedSessionStackEntries :: "sessionStack \<Rightarrow> sessionStack" where
  "freePoppedSessionStackEntries stack =
     (if st_root stack \<noteq> st_top stack
      then freePoppedSessionStackEntries (deleteSessionStackEntry (st_root stack) stack) else stack)"
  by pat_completeness auto
termination
  by (relation "measure (\<lambda>stack. length (st_popped stack))")
    (auto simp: st_root_def st_top_def st_entries_def deleteSessionStackEntry_def Let_def)

declare freePoppedSessionStackEntries.simps [simp del]

definition newEmptySessionStackEntry :: "int \<Rightarrow> serverOperation \<Rightarrow> sessionEntry" where
  "newEmptySessionStackEntry noFile operation =
     \<lparr>se_callerPosition = noPosition noFile, se_operation = operation, se_references = [], se_current = None,
      se_hkSelectedSym = [], se_menu = [], se_menuFilterLevel = DEFAULT_MENU_FILTER_LEVEL,
      se_refsFilterLevel = DEFAULT_REFS_FILTER_LEVEL, se_matches = []\<rparr>"

fun old_entry_loop :: "nat \<Rightarrow> nat \<Rightarrow> nat" where
  "old_entry_loop 0 entry = entry"
| "old_entry_loop (Suc rounds) entry =
     (let entry = st_previous entry in if entry = 0 then 0 else old_entry_loop rounds entry)"

definition freeOldCompletionStackEntries :: "sessionStack \<Rightarrow> sessionStack" where
  "freeOldCompletionStackEntries stack =
     (if st_top stack = 0 then stack
      else let entry = old_entry_loop (MAX_COMPLETIONS_HISTORY - 1) (st_top stack)
           in if entry = 0 then stack else deleteSessionStackEntry entry stack)"

definition pushEmptySession :: "int \<Rightarrow> serverOperation \<Rightarrow> sessionStack \<Rightarrow> sessionStack" where
  "pushEmptySession noFile operation stack =
     (let stack1 = freePoppedSessionStackEntries stack;
          entry = newEmptySessionStackEntry noFile operation
      in stack1\<lparr>st_popped := [], st_active := entry # st_active stack1\<rparr>)"

fun next_top_loop :: "sessionStack \<Rightarrow> nat \<Rightarrow> nat \<Rightarrow> nat" where
  "next_top_loop stack next0 0 = next0"
| "next_top_loop stack next0 (Suc this) =
     (if Suc this = st_top stack then next0 else next_top_loop stack (Suc this) this)"

definition getNextTopStackItem :: "sessionStack \<Rightarrow> nat" where
  "getNextTopStackItem stack = next_top_loop stack 0 (st_root stack)"

record sessions =
  searchingStack :: sessionStack
  completionStack :: sessionStack
  browsingStack :: sessionStack

definition getSessionEntryForOperation :: "serverOperation \<Rightarrow> sessions \<Rightarrow> sessionEntry option" where
  "getSessionEntryForOperation operation s =
     (if operation = OP_COMPLETION \<or> operation = OP_COMPLETION_SELECT \<or> operation = OP_COMPLETION_GOTO_N
        \<or> operation = OP_SEARCH
      then top_entry (completionStack s) else top_entry (browsingStack s))"

section \<open>Pushing and popping\<close>

text \<open>Reading the entry below an empty stack ends the process.\<close>

definition popSession :: "sessionStack \<Rightarrow> sessionStack option" where
  "popSession stack = (if st_top stack = 0 then None else Some (set_top (st_previous (st_top stack)) stack))"

definition popAndFreeSession :: "sessionStack \<Rightarrow> sessionStack option" where
  "popAndFreeSession stack = map_option freePoppedSessionStackEntries (popSession stack)"

definition pushSession :: "int \<Rightarrow> serverOperation \<Rightarrow> sessionStack \<Rightarrow> nat \<times> sessionStack" where
  "pushSession noFile operation stack =
     (st_top stack, pushEmptySession noFile operation (set_top (st_root stack) stack))"

function pop_until_loop :: "nat \<Rightarrow> sessionStack \<Rightarrow> sessionStack option" where
  "pop_until_loop oldtop stack =
     (if st_top stack \<noteq> 0 \<and> st_top stack \<noteq> oldtop
      then Option.bind (popSession stack) (pop_until_loop oldtop) else Some stack)"
  by pat_completeness auto
termination
  by (relation "measure (\<lambda>(oldtop, stack). st_top stack)")
    (auto simp: popSession_def set_top_def st_top_def st_previous_def st_entries_def Let_def split: if_splits)

declare pop_until_loop.simps [simp del]

definition popAndFreeSessionsUntil :: "nat \<Rightarrow> sessionStack \<Rightarrow> sessionStack option" where
  "popAndFreeSessionsUntil oldtop stack = Option.bind (popAndFreeSession stack) (pop_until_loop oldtop)"

definition deleteEntryFromSessionStack :: "nat \<Rightarrow> sessionStack \<Rightarrow> sessionStack option" where
  "deleteEntryFromSessionStack entry stack =
     (if entry = 0 \<or> entry > st_root stack then None else Some (deleteSessionStackEntry entry stack))"

definition completionListInit :: "int \<Rightarrow> serverOperation \<Rightarrow> position \<Rightarrow> sessionStack \<Rightarrow> sessionStack" where
  "completionListInit noFile operation originalPos stack =
     (let stack1 = pushEmptySession noFile operation (freeOldCompletionStackEntries stack)
      in stack1\<lparr>st_active := (hd (st_active stack1))\<lparr>se_callerPosition := originalPos\<rparr> # tl (st_active stack1)\<rparr>)"

section \<open>The stack as a cursor\<close>

lemma st_top_entries [simp]: "st_top stack \<le> st_root stack"
  by (simp add: st_top_def st_root_def st_entries_def)

lemma delete_root: "st_popped stack = e # es \<Longrightarrow> deleteSessionStackEntry (st_root stack) stack = stack\<lparr>st_popped := es\<rparr>"
  by (simp add: deleteSessionStackEntry_def st_root_def st_top_def st_entries_def)

lemma freePopped [simp]: "freePoppedSessionStackEntries stack = stack\<lparr>st_popped := []\<rparr>"
proof (induction "st_popped stack" arbitrary: stack)
  case Nil
  then show ?case
    by (subst freePoppedSessionStackEntries.simps) (simp add: st_root_def st_top_def st_entries_def)
next
  case (Cons e es)
  from Cons(2) have e: "st_popped stack = e # es" by simp
  then have "st_root stack \<noteq> st_top stack" by (simp add: st_root_def st_top_def st_entries_def)
  with e have "freePoppedSessionStackEntries stack = freePoppedSessionStackEntries (stack\<lparr>st_popped := es\<rparr>)"
    by (subst freePoppedSessionStackEntries.simps) (simp add: delete_root)
  with Cons(1) [of "stack\<lparr>st_popped := es\<rparr>"] show ?case by simp
qed

lemma push_fields [simp]:
  "st_popped (pushEmptySession noFile op stack) = []"
  "st_active (pushEmptySession noFile op stack) = newEmptySessionStackEntry noFile op # st_active stack"
  by (simp_all add: pushEmptySession_def Let_def)

lemma next_top_loop_at: "st_top stack = this \<Longrightarrow> next_top_loop stack n this = n"
  by (cases this) simp_all

lemma next_top_loop_top:
  "this > st_top stack \<Longrightarrow> next_top_loop stack n this = Suc (st_top stack)"
proof (induction stack n this rule: next_top_loop.induct)
  case (2 stack n this)
  then show ?case by (cases "st_top stack = this") (simp_all add: next_top_loop_at)
qed simp

lemma next_top: "getNextTopStackItem stack = (if st_popped stack = [] then 0 else Suc (st_top stack))"
proof (cases "st_popped stack")
  case Nil
  then have "st_root stack = st_top stack" by (simp add: st_root_def st_top_def st_entries_def)
  then show ?thesis by (cases "st_top stack") (simp_all add: getNextTopStackItem_def Nil)
next
  case (Cons e es)
  then have "st_top stack < st_root stack" by (simp add: st_root_def st_top_def st_entries_def)
  with Cons show ?thesis by (simp add: getNextTopStackItem_def next_top_loop_top)
qed

lemma set_top_fields:
  "st_active (set_top n stack) = drop (st_root stack - n) (st_entries stack)"
  "st_popped (set_top n stack) = take (st_root stack - n) (st_entries stack)"
  by (simp_all add: set_top_def st_root_def Let_def)

lemma set_top_entries [simp]: "st_entries (set_top n stack) = st_entries stack"
  by (simp add: st_entries_def [of "set_top n stack"] set_top_fields)

lemma st_root_set_top [simp]: "st_root (set_top n stack) = st_root stack"
  by (simp add: st_root_def)

lemma st_top_set_top [simp]: "st_top (set_top n stack) = min n (st_root stack)"
  by (simp add: st_top_def set_top_fields st_root_def)

lemma stack_eqI:
  "st_entries (a :: sessionStack) = st_entries b \<Longrightarrow> st_top a = st_top b \<Longrightarrow> a = b"
  by (cases a, cases b) (simp add: st_entries_def st_top_def)

lemma set_top_twice [simp]: "set_top n (set_top k stack) = set_top n stack"
  by (rule stack_eqI) simp_all

lemma set_top_same [simp]: "set_top (st_top stack) (stack :: sessionStack) = stack"
  by (rule stack_eqI) simp_all

lemma pop_until_top:
  "oldtop \<le> st_top stack \<Longrightarrow> pop_until_loop oldtop (stack :: sessionStack) = Some (set_top oldtop stack)"
proof (induction "st_top stack - oldtop" arbitrary: stack)
  case 0
  then have "st_top stack = oldtop" by simp
  then show ?case by (subst pop_until_loop.simps) auto
next
  case (Suc n)
  then have t: "st_top stack \<noteq> 0" "st_top stack \<noteq> oldtop" by auto
  let ?s = "set_top (st_top stack - 1) stack"
  have "st_top ?s = st_top stack - 1" by (simp add: min_absorb1 le_trans [OF diff_le_self st_top_entries])
  then have "pop_until_loop oldtop ?s = Some (set_top oldtop ?s)" using Suc by (intro Suc(1)) auto
  with t show ?case by (subst pop_until_loop.simps) (simp add: popSession_def st_previous_def)
qed

section \<open>Properties of the stacks\<close>

text \<open>C20: The browsing history is a cursor: what has been popped is pushed again by the next entry above the
  top, and the other way round, and a new session forgets what has been popped and keeps the rest.\<close>

theorem history_is_cursor:
  "(st_active stack \<noteq> [] \<longrightarrow>
      map_option (\<lambda>s. set_top (getNextTopStackItem s) s) (popSession stack) = Some (stack :: sessionStack))
   \<and> (st_popped stack \<noteq> [] \<longrightarrow> popSession (set_top (getNextTopStackItem stack) stack) = Some stack)
   \<and> (st_popped stack = [] \<longleftrightarrow> getNextTopStackItem stack = 0)
   \<and> st_entries (pushEmptySession noFile op stack) = newEmptySessionStackEntry noFile op # st_active stack"
proof (intro conjI impI)
  assume "st_active stack \<noteq> []"
  then have t: "st_top stack > 0" by (simp add: st_top_def)
  let ?s = "set_top (st_top stack - 1) stack"
  have top: "st_top ?s = st_top stack - 1" by (simp add: min_absorb1 le_trans [OF diff_le_self st_top_entries])
  have "st_popped ?s \<noteq> []"
    using t by (cases "st_active stack") (auto simp: set_top_fields st_root_def st_entries_def st_top_def)
  with t top have "set_top (getNextTopStackItem ?s) ?s = stack" by (simp add: next_top)
  with t show "map_option (\<lambda>s. set_top (getNextTopStackItem s) s) (popSession stack) = Some stack"
    by (simp add: popSession_def st_previous_def)
next
  assume p: "st_popped stack \<noteq> []"
  then have "Suc (st_top stack) \<le> st_root stack" by (simp add: st_top_def st_root_def st_entries_def Suc_le_eq)
  with p show "popSession (set_top (getNextTopStackItem stack) stack) = Some stack"
    by (simp add: popSession_def next_top st_previous_def)
qed (simp_all add: next_top st_entries_def [of "pushEmptySession noFile op stack"])

theorem history_is_cursor_witness:
  "let stack = \<lparr>st_popped = [], st_active = [newEmptySessionStackEntry (-1) OP_BROWSE_PUSH]\<rparr>
   in map_option (\<lambda>s. set_top (getNextTopStackItem s) s) (popSession stack) = Some stack"
  using history_is_cursor [of "\<lparr>st_popped = [], st_active = [newEmptySessionStackEntry (-1) OP_BROWSE_PUSH]\<rparr>"]
  by simp

text \<open>A session pushed for the time of an operation, whatever the operation makes of it, leaves the
  history as it was: what was popped can still be pushed again.\<close>

theorem pushed_session_leaves_history:
  "let (oldtop, pushed) = pushSession noFile op stack
   in popAndFreeSessionsUntil oldtop (set_top_entry entry pushed) = Some (stack :: sessionStack)"
proof -
  let ?all = "stack\<lparr>st_popped := [], st_active := st_entries stack\<rparr>"
  have "st_entries ?all = st_entries stack" "st_top ?all = st_root stack"
    by (simp_all add: st_entries_def st_top_def st_root_def)
  then have "set_top (st_root stack) stack = ?all" by (intro stack_eqI) simp_all
  moreover have "popAndFreeSession (set_top_entry entry (pushEmptySession noFile op ?all)) = Some ?all"
    by (rule subst, rule refl)
      (simp add: popAndFreeSession_def popSession_def st_top_def set_top_entry_def st_previous_def set_top_def
        st_entries_def pushEmptySession_def Let_def)
  moreover have "pop_until_loop (st_top stack) ?all = Some (set_top (st_top stack) ?all)"
    using st_top_entries [of stack] by (intro pop_until_top) (simp add: st_top_def [of ?all] st_root_def)
  moreover have "set_top (st_top stack) ?all = stack"
    using st_top_entries [of stack] by (intro stack_eqI) (simp_all add: st_entries_def [of ?all] st_root_def)
  ultimately show ?thesis by (simp add: pushSession_def popAndFreeSessionsUntil_def)
qed

lemma old_entry_loop_minus: "rounds < entry \<Longrightarrow> old_entry_loop rounds entry = entry - rounds"
  by (induction rounds arbitrary: entry) (auto simp: st_previous_def Let_def)

lemma old_entry_loop_short: "0 < rounds \<Longrightarrow> entry \<le> rounds \<Longrightarrow> old_entry_loop rounds entry = 0"
proof (induction rounds arbitrary: entry)
  case (Suc rounds)
  then show ?case by (cases "entry \<le> 1") (simp_all add: st_previous_def Let_def)
qed simp

lemma freeOld_active:
  "st_active (freeOldCompletionStackEntries stack)
     = take 9 (st_active stack) @ drop 10 (st_active stack)"
proof (cases "st_top stack \<ge> 10")
  case True
  then have "old_entry_loop (MAX_COMPLETIONS_HISTORY - 1) (st_top stack) = st_top stack - 9"
    by (simp add: MAX_COMPLETIONS_HISTORY_def old_entry_loop_minus)
  with True show ?thesis by (simp add: freeOldCompletionStackEntries_def deleteSessionStackEntry_def Let_def)
next
  case False
  then have "st_top stack = 0 \<or> old_entry_loop (MAX_COMPLETIONS_HISTORY - 1) (st_top stack) = 0"
    by (simp add: MAX_COMPLETIONS_HISTORY_def old_entry_loop_short)
  with False show ?thesis by (auto simp: freeOldCompletionStackEntries_def Let_def st_top_def)
qed

text \<open>C38: A completion keeps the nine newest sessions below its own, in their order, so the history never
  holds more than ten.\<close>

theorem completion_history_bounded:
  assumes "length (st_active stack) \<le> MAX_COMPLETIONS_HISTORY"
  shows "tl (st_entries (completionListInit noFile op pos stack)) = take (MAX_COMPLETIONS_HISTORY - 1) (st_active stack)
    \<and> length (st_entries (completionListInit noFile op pos stack)) \<le> MAX_COMPLETIONS_HISTORY
    \<and> map_option se_callerPosition (top_entry (completionListInit noFile op pos stack)) = Some pos"
  using assms
  by (simp add: completionListInit_def Let_def st_entries_def freeOld_active top_entry_def MAX_COMPLETIONS_HISTORY_def)

theorem completion_history_bounded_witness:
  "let stack = \<lparr>st_popped = [], st_active = replicate 10 (newEmptySessionStackEntry (-1) OP_COMPLETION)\<rparr>
   in length (st_entries (completionListInit (-1) OP_COMPLETION (Position 1 2 3) stack)) \<le> 10"
  using completion_history_bounded
    [of "\<lparr>st_popped = [], st_active = replicate 10 (newEmptySessionStackEntry (-1) OP_COMPLETION)\<rparr>"]
  by (simp add: MAX_COMPLETIONS_HISTORY_def)

section \<open>The match on a line\<close>

abbreviation lines_of :: "match list \<Rightarrow> int" where
  "lines_of matches \<equiv> sum_list (map m_lineCount matches)"

lemma nth_line_loop_reaches:
  "\<forall>m\<in>set xs. 0 < m_lineCount m \<Longrightarrow> i + lines_of xs \<le> n
    \<Longrightarrow> nth_line_loop i n found (xs @ ys) = nth_line_loop (i + lines_of xs) n (if xs = [] then found else Some (last xs)) ys"
proof (induction xs arbitrary: i found)
  case (Cons m xs)
  then have "0 < m_lineCount m" "\<forall>m\<in>set xs. 0 \<le> m_lineCount m" by auto
  moreover from this(2) have "0 \<le> lines_of xs" by (intro sum_list_nonneg) auto
  ultimately show ?case using Cons by (simp add: add.assoc)
qed simp

text \<open>The match on a line of the list is the one whose lines the line is among, and the last one for
  a line beyond the list.\<close>

theorem match_on_line:
  assumes "\<forall>m\<in>set (xs @ this # ys). 0 < m_lineCount m"
    and "lines_of xs < n" and "n \<le> lines_of (xs @ [this]) \<or> ys = []"
  shows "getMatchOnNthLine (xs @ this # ys) n = Some this"
proof -
  have "getMatchOnNthLine (xs @ this # ys) n
      = nth_line_loop (1 + lines_of xs) n (if xs = [] then None else Some (last xs)) (this # ys)"
    unfolding getMatchOnNthLine_def using assms(1,2) by (intro nth_line_loop_reaches) auto
  also have "\<dots> = nth_line_loop (1 + lines_of (xs @ [this])) n (Some this) ys"
    using assms(2) by (simp add: add.assoc)
  also have "\<dots> = Some this" using assms(3) by (cases ys) auto
  finally show ?thesis .
qed

definition example_match :: "string \<Rightarrow> int \<Rightarrow> match" where
  "example_match name lines =
     newMatch (Some name) None lines VisibilityLocal (makeReference (Position 1 2 3) UsageDefined) example_item"

theorem match_on_line_witness:
  "getMatchOnNthLine [example_match ''a'' 1, example_match ''b'' 2, example_match ''c'' 1] 3
     = Some (example_match ''b'' 2)"
  using match_on_line [of "[example_match ''a'' 1]" "example_match ''b'' 2" "[example_match ''c'' 1]" 3]
  by (simp add: example_match_def newMatch_def to_short_def)

end
