(* ===== verification/Navigation.thy ===== *)
theory Navigation
  imports Session
begin

text \<open>
  Models \<^verbatim>\<open>navigation.c\<close>, going from reference to reference in a session, and the functions of
  \<^verbatim>\<open>cxref.c\<close> that make, order and check the references of a session.
\<close>

section \<open>References of a session\<close>

text \<open>
  The current reference is a pointer to a cell. A number that no cell has stands for a pointer to a cell that
  has been freed; reading through it is \<^const>\<open>None\<close>.
\<close>

definition reference_at :: "sessionEntry \<Rightarrow> nat \<Rightarrow> reference option" where
  "reference_at sessionEntry c = (if c < length (se_references sessionEntry) then Some (se_references sessionEntry ! c) else None)"

definition first_cell :: "sessionEntry \<Rightarrow> nat option" where
  "first_cell sessionEntry = (if se_references sessionEntry = [] then None else Some 0)"

definition next_cell :: "sessionEntry \<Rightarrow> nat \<Rightarrow> nat option option" where
  "next_cell sessionEntry c =
     map_option (\<lambda>_. if Suc c < length (se_references sessionEntry) then Some (Suc c) else None) (reference_at sessionEntry c)"

definition usage_filter :: "sessionEntry \<Rightarrow> usage" where
  "usage_filter sessionEntry = usageFilterLevels ! nat (se_refsFilterLevel sessionEntry)"

fun last_visible_loop :: "usage \<Rightarrow> nat \<Rightarrow> nat option \<Rightarrow> reference list \<Rightarrow> nat option" where
  "last_visible_loop filterLevel c found [] = found"
| "last_visible_loop filterLevel c found (r # rs) =
     last_visible_loop filterLevel (Suc c) (if isMoreImportantUsageThan (ref_usage r) filterLevel then Some c else found) rs"

definition findLastReference :: "sessionEntry \<Rightarrow> usage \<Rightarrow> nat option" where
  "findLastReference sessionEntry filterLevel = last_visible_loop filterLevel 0 None (se_references sessionEntry)"

text \<open>The loop stops at the current cell.\<close>

definition findPreviousReference :: "sessionEntry \<Rightarrow> usage \<Rightarrow> nat option" where
  "findPreviousReference sessionEntry filterLevel =
     (case se_current sessionEntry of
        None \<Rightarrow> None
      | Some c \<Rightarrow> last_visible_loop filterLevel 0 None (take c (se_references sessionEntry)))"

definition getCurrentPosition :: "int \<Rightarrow> sessionEntry \<Rightarrow> position option" where
  "getCurrentPosition noFile sessionEntry =
     (case se_current sessionEntry of
        None \<Rightarrow> Some (Position noFile 0 0)
      | Some c \<Rightarrow> map_option ref_position (reference_at sessionEntry c))"

definition setCurrentReferenceToPreviousOrLast ::
  "sessionEntry \<Rightarrow> nat option \<Rightarrow> usage \<Rightarrow> ppc \<Rightarrow> (sessionEntry \<times> ppc) option" where
  "setCurrentReferenceToPreviousOrLast sessionEntry previousReference filterLevel p =
     (if previousReference \<noteq> None then Some (sessionEntry\<lparr>se_current := previousReference\<rparr>, p)
      else map_option (Pair (sessionEntry\<lparr>se_current := findLastReference sessionEntry filterLevel\<rparr>))
             (ppcBottomInformation (str_bytes ''Moving to the last reference'') p))"

definition INT_MAX :: int where
  "INT_MAX = 2147483647"

fun nearest_caller_loop ::
  "position \<Rightarrow> nat \<Rightarrow> nat option \<Rightarrow> nat option \<Rightarrow> int \<Rightarrow> int \<Rightarrow> reference list \<Rightarrow> nat option \<times> nat option" where
  "nearest_caller_loop caller c bestAfter bestBefore bestAfterDistance bestBeforeDistance [] = (bestAfter, bestBefore)"
| "nearest_caller_loop caller c bestAfter bestBefore bestAfterDistance bestBeforeDistance (r # rs) =
     (let p = ref_position r in
      if pos_file p \<noteq> pos_file caller
      then nearest_caller_loop caller (Suc c) bestAfter bestBefore bestAfterDistance bestBeforeDistance rs
      else if pos_line p > pos_line caller \<or> (pos_line p = pos_line caller \<and> pos_col p \<ge> pos_col caller) then
        (let distance = pos_line p - pos_line caller in
         if distance < bestAfterDistance
         then nearest_caller_loop caller (Suc c) (Some c) bestBefore distance bestBeforeDistance rs
         else nearest_caller_loop caller (Suc c) bestAfter bestBefore bestAfterDistance bestBeforeDistance rs)
      else
        (let distance = pos_line caller - pos_line p in
         if distance < bestBeforeDistance
         then nearest_caller_loop caller (Suc c) bestAfter (Some c) bestAfterDistance distance rs
         else nearest_caller_loop caller (Suc c) bestAfter bestBefore bestAfterDistance bestBeforeDistance rs))"

definition setCurrentReferenceToFirstAfterCallerPosition :: "sessionEntry \<Rightarrow> sessionEntry" where
  "setCurrentReferenceToFirstAfterCallerPosition sessionEntry =
     (let (bestAfter, bestBefore) =
            nearest_caller_loop (se_callerPosition sessionEntry) 0 None None INT_MAX INT_MAX (se_references sessionEntry)
      in sessionEntry\<lparr>se_current := (if bestAfter \<noteq> None then bestAfter else if bestBefore \<noteq> None then bestBefore
                                     else first_cell sessionEntry)\<rparr>)"

fun skip_hidden :: "usage \<Rightarrow> nat \<Rightarrow> reference list \<Rightarrow> nat option" where
  "skip_hidden rlevel c [] = None"
| "skip_hidden rlevel c (r # rs) =
     (if isAtMostAsImportantAs (ref_usage r) rlevel then skip_hidden rlevel (Suc c) rs else Some c)"

definition skip_hidden_from :: "sessionEntry \<Rightarrow> nat option \<Rightarrow> nat option" where
  "skip_hidden_from sessionEntry reference =
     (case reference of None \<Rightarrow> None
      | Some c \<Rightarrow> skip_hidden (usage_filter sessionEntry) c (drop c (se_references sessionEntry)))"

definition setCurrentReferenceToNextOrFirst ::
  "sessionEntry \<Rightarrow> nat option \<Rightarrow> ppc \<Rightarrow> (sessionEntry \<times> ppc) option" where
  "setCurrentReferenceToNextOrFirst sessionEntry reference p =
     (let found = skip_hidden_from sessionEntry reference in
      if found \<noteq> None then Some (sessionEntry\<lparr>se_current := found\<rparr>, p)
      else map_option (Pair (sessionEntry\<lparr>se_current := skip_hidden_from sessionEntry (first_cell sessionEntry)\<rparr>))
             (ppcBottomInformation (str_bytes ''Moving to the first reference'') p))"

section \<open>The order of the references\<close>

definition referencePositionIsLess :: "reference \<Rightarrow> reference \<Rightarrow> bool" where
  "referencePositionIsLess r1 r2 = positionIsLessThan (ref_position r1) (ref_position r2)"

definition referenceIsLessThan :: "file_table \<Rightarrow> reference \<Rightarrow> reference \<Rightarrow> bool" where
  "referenceIsLessThan files r1 r2 =
     (let p1 = ref_position r1; p2 = ref_position r2;
          s1 = simpleFileName (fileNameOf files (pos_file p1));
          s2 = simpleFileName (fileNameOf files (pos_file p2));
          fc = strcmp s1 s2
      in if fc < 0 then True
         else if fc > 0 then False
         else if pos_file p1 < pos_file p2 then True
         else if pos_file p1 > pos_file p2 then False
         else if pos_line p1 < pos_line p2 then True
         else if pos_line p1 > pos_line p2 then False
         else if pos_col p1 < pos_col p2 then True
         else False)"

definition usageImportantInOrder :: "reference \<Rightarrow> reference \<Rightarrow> bool" where
  "usageImportantInOrder r1 r2 \<longleftrightarrow>
     ref_usage r1 = UsageDefined \<or> ref_usage r1 = UsageDeclared \<or> ref_usage r1 = UsageOLBestFitDefined
     \<or> ref_usage r2 = UsageDefined \<or> ref_usage r2 = UsageDeclared \<or> ref_usage r2 = UsageOLBestFitDefined"

definition referenceIsLessThanOrderImportant :: "file_table \<Rightarrow> reference \<Rightarrow> reference \<Rightarrow> bool" where
  "referenceIsLessThanOrderImportant files r1 r2 =
     (if usageImportantInOrder r1 r2 \<and> isMoreImportantUsageThan (ref_usage r1) (ref_usage r2) then True
      else if usageImportantInOrder r1 r2 \<and> isLessImportantUsageThan (ref_usage r1) (ref_usage r2) then False
      else referenceIsLessThan files r1 r2)"

text \<open>Sorting moves the cells, so the current reference goes with its cell.\<close>

definition sort_references :: "(reference \<Rightarrow> reference \<Rightarrow> bool) \<Rightarrow> sessionEntry \<Rightarrow> sessionEntry" where
  "sort_references lessf sessionEntry =
     (let cells = LIST_MERGE_SORT (\<lambda>a b. lessf (snd a) (snd b)) (enumerate 0 (se_references sessionEntry))
      in sessionEntry\<lparr>se_references := map snd cells,
           se_current := map_option (\<lambda>c. length (takeWhile (\<lambda>cell. fst cell \<noteq> c) cells)) (se_current sessionEntry)\<rparr>)"

definition olcxNaturalReorder :: "file_table \<Rightarrow> sessionEntry \<Rightarrow> sessionEntry" where
  "olcxNaturalReorder files sessionEntry = sort_references (referenceIsLessThanOrderImportant files) sessionEntry"

section \<open>Collecting the references of the selected entries\<close>

text \<open>The list is reversed twice: its references are added last first, and it is the same afterwards.\<close>

definition ANY_FILE :: int where "ANY_FILE = -1"

definition addReferencesFromFileToList :: "reference list \<Rightarrow> int \<Rightarrow> reference list \<Rightarrow> reference list" where
  "addReferencesFromFileToList references fileNumber refs =
     fold (\<lambda>r refs. if fileNumber = ANY_FILE \<or> fileNumber = pos_file (ref_position r)
                    then snd (addReferenceToList r refs) else refs) (rev references) refs"

definition genOnLineReferences :: "sessionEntry \<Rightarrow> browsingMenu \<Rightarrow> sessionEntry" where
  "genOnLineReferences sessionEntry menu =
     (if bm_selected menu
      then sessionEntry\<lparr>se_references :=
        addReferencesFromFileToList (ri_references (bm_referenceable menu)) ANY_FILE (se_references sessionEntry)\<rparr>
      else sessionEntry)"

definition processSelectedReferences ::
  "file_table \<Rightarrow> (sessionEntry \<Rightarrow> browsingMenu \<Rightarrow> sessionEntry) \<Rightarrow> sessionEntry \<Rightarrow> sessionEntry" where
  "processSelectedReferences files referencesMapFun sessionEntry =
     (if se_menu sessionEntry = [] then sessionEntry
      else setCurrentReferenceToFirstAfterCallerPosition
             (sort_references (referenceIsLessThan files)
               (fold (\<lambda>m e. referencesMapFun e m) (se_menu sessionEntry) sessionEntry)))"

definition recomputeSelectedReferenceable :: "file_table \<Rightarrow> sessionEntry \<Rightarrow> sessionEntry" where
  "recomputeSelectedReferenceable files sessionEntry =
     sort_references (referenceIsLessThanOrderImportant files)
       (processSelectedReferences files genOnLineReferences (sessionEntry\<lparr>se_references := []\<rparr>))"

section \<open>After the knowledge has been refreshed\<close>

text \<open>Each entry of the menu takes the references of all items of the table with its name.\<close>

definition updateSessionReferencesForFile ::
  "item_table \<Rightarrow> file_table \<Rightarrow> sessionEntry \<Rightarrow> int \<Rightarrow> sessionEntry" where
  "updateSessionReferencesForFile items files sessionEntry fileNumber =
     (let removed = map (\<lambda>menu. let item = bm_referenceable menu
                                in menu\<lparr>bm_referenceable := item\<lparr>ri_references := unlink_references fileNumber (ri_references item)\<rparr>\<rparr>)
                      (se_menu sessionEntry);
          merged = map (\<lambda>menu. mapOverReferenceableItemTable items
                                 (\<lambda>item m. if strcmp (ri_linkName item) (ri_linkName (bm_referenceable m)) = 0
                                            then extendBrowsingMenuWithReferences m (ri_references item) else m) menu) removed
      in recomputeSelectedReferenceable files (sessionEntry\<lparr>se_menu := merged\<rparr>))"

fun nearest_loop ::
  "usage \<Rightarrow> position \<Rightarrow> nat \<Rightarrow> nat option \<Rightarrow> nat option \<Rightarrow> int \<Rightarrow> reference list \<Rightarrow> nat option" where
  "nearest_loop filterLevel savedPos c firstVisible nearestInSameFile nearestDistance [] =
     (if nearestInSameFile \<noteq> None then nearestInSameFile else firstVisible)"
| "nearest_loop filterLevel savedPos c firstVisible nearestInSameFile nearestDistance (r # rs) =
     (if \<not> isMoreImportantUsageThan (ref_usage r) filterLevel
      then nearest_loop filterLevel savedPos (Suc c) firstVisible nearestInSameFile nearestDistance rs
      else
        let firstVisible = (if firstVisible = None then Some c else firstVisible);
            p = ref_position r in
        if pos_file p = pos_file savedPos then
          (if pos_line p = pos_line savedPos \<and> pos_col p = pos_col savedPos then Some c
           else let distance = abs (pos_line p - pos_line savedPos) in
             if distance < nearestDistance
             then nearest_loop filterLevel savedPos (Suc c) firstVisible (Some c) distance rs
             else nearest_loop filterLevel savedPos (Suc c) firstVisible nearestInSameFile nearestDistance rs)
        else nearest_loop filterLevel savedPos (Suc c) firstVisible nearestInSameFile nearestDistance rs)"

definition restoreToNearestReference :: "sessionEntry \<Rightarrow> position \<Rightarrow> usage \<Rightarrow> sessionEntry" where
  "restoreToNearestReference sessionEntry savedPos filterLevel =
     sessionEntry\<lparr>se_current := nearest_loop filterLevel savedPos 0 None None INT_MAX (se_references sessionEntry)\<rparr>"

definition restoreToNextReferenceAfterRefresh ::
  "sessionEntry \<Rightarrow> position \<Rightarrow> usage \<Rightarrow> ppc \<Rightarrow> (sessionEntry \<times> ppc) option" where
  "restoreToNextReferenceAfterRefresh sessionEntry savedPos filterLevel p =
     (let restored = restoreToNearestReference sessionEntry savedPos filterLevel in
      case se_current restored of
        None \<Rightarrow> Some (restored, p)
      | Some c \<Rightarrow> do {
          following \<leftarrow> next_cell restored c;
          setCurrentReferenceToNextOrFirst restored following p
        })"

definition restoreToPreviousReferenceAfterRefresh ::
  "sessionEntry \<Rightarrow> position \<Rightarrow> usage \<Rightarrow> ppc \<Rightarrow> (sessionEntry \<times> ppc) option" where
  "restoreToPreviousReferenceAfterRefresh sessionEntry savedPos filterLevel p =
     (let restored = restoreToNearestReference sessionEntry savedPos filterLevel
      in setCurrentReferenceToPreviousOrLast restored (findPreviousReference restored filterLevel) filterLevel p)"

section \<open>Going to a reference\<close>

text \<open>
  What a step reads and changes: the session, the file table with the files that need a refresh, and the
  output. The items, the request file and the protocol stay as they are. A position in no file of the table
  ends the process.
\<close>

record navigation =
  nv_entry :: sessionEntry
  nv_files :: file_table
  nv_ppc :: ppc

definition gotoCurrentReference :: "bool \<Rightarrow> navigation \<Rightarrow> navigation option" where
  "gotoCurrentReference cxrefProtocol nv =
     (case se_current (nv_entry nv) of
        None \<Rightarrow> map_option (\<lambda>p. nv\<lparr>nv_ppc := p\<rparr>) (ppcIndicateNoReference cxrefProtocol (nv_ppc nv))
      | Some c \<Rightarrow> do {
          r \<leftarrow> reference_at (nv_entry nv) c;
          p \<leftarrow> ppcGotoPosition (nv_files nv) (ref_position r) (nv_ppc nv);
          Some (nv\<lparr>nv_ppc := p\<rparr>)
        })"

definition needs_refresh :: "file_table \<Rightarrow> int \<Rightarrow> bool option" where
  "needs_refresh files fileNumber =
     (if fileNumber < 0 then None
      else map_option fi_needsBrowsingStackRefresh (getFileItemWithFileNumber files (nat fileNumber)))"

definition clear_refresh :: "file_table \<Rightarrow> int \<Rightarrow> file_table option" where
  "clear_refresh files fileNumber =
     update_item files (nat fileNumber) (\<lambda>i. i\<lparr>fi_needsBrowsingStackRefresh := False\<rparr>)"

definition update_for_file :: "item_table \<Rightarrow> int \<Rightarrow> navigation \<Rightarrow> navigation option" where
  "update_for_file items fileNumber nv = do {
     files \<leftarrow> clear_refresh (nv_files nv) fileNumber;
     Some (nv\<lparr>nv_entry := updateSessionReferencesForFile items (nv_files nv) (nv_entry nv) fileNumber,
              nv_files := files\<rparr>)
   }"

definition refresh_request_file :: "int \<Rightarrow> item_table \<Rightarrow> int \<Rightarrow> usage \<Rightarrow> navigation \<Rightarrow> navigation option" where
  "refresh_request_file noFile items requestFileNumber filterLevel nv = do {
     needed \<leftarrow> needs_refresh (nv_files nv) requestFileNumber;
     if needed then do {
       savedPos \<leftarrow> getCurrentPosition noFile (nv_entry nv);
       nv1 \<leftarrow> update_for_file items requestFileNumber nv;
       Some (nv1\<lparr>nv_entry := restoreToNearestReference (nv_entry nv1) savedPos filterLevel\<rparr>)
     } else Some nv
   }"

definition needs_refresh_at :: "navigation \<Rightarrow> nat option \<Rightarrow> bool option" where
  "needs_refresh_at nv reference =
     (case reference of
        None \<Rightarrow> Some False
      | Some c \<Rightarrow> do { r \<leftarrow> reference_at (nv_entry nv) c; needs_refresh (nv_files nv) (pos_file (ref_position r)) })"

definition with_entry :: "navigation \<Rightarrow> (sessionEntry \<times> ppc) option \<Rightarrow> navigation option" where
  "with_entry nv result = map_option (\<lambda>(e, p). nv\<lparr>nv_entry := e, nv_ppc := p\<rparr>) result"

text \<open>
  Both ways to move: the reference to go to is in a file that needs a refresh, and is looked for again, or
  it is not.
\<close>

definition move_to ::
  "int \<Rightarrow> item_table \<Rightarrow> navigation \<Rightarrow> nat option
    \<Rightarrow> (sessionEntry \<Rightarrow> position \<Rightarrow> ppc \<Rightarrow> (sessionEntry \<times> ppc) option)
    \<Rightarrow> (sessionEntry \<Rightarrow> ppc \<Rightarrow> (sessionEntry \<times> ppc) option) \<Rightarrow> navigation option" where
  "move_to noFile items nv target after_refresh normal = do {
     needed \<leftarrow> needs_refresh_at nv target;
     if needed then do {
       savedPos \<leftarrow> getCurrentPosition noFile (nv_entry nv);
       r \<leftarrow> Option.bind target (reference_at (nv_entry nv));
       nv1 \<leftarrow> update_for_file items (pos_file (ref_position r)) nv;
       with_entry nv1 (after_refresh (nv_entry nv1) savedPos (nv_ppc nv1))
     }
     else if se_current (nv_entry nv) = None
     then Some (nv\<lparr>nv_entry := (nv_entry nv)\<lparr>se_current := first_cell (nv_entry nv)\<rparr>\<rparr>)
     else with_entry nv (normal (nv_entry nv) (nv_ppc nv))
   }"

definition gotoNextReference :: "int \<Rightarrow> item_table \<Rightarrow> int \<Rightarrow> bool \<Rightarrow> navigation \<Rightarrow> navigation option" where
  "gotoNextReference noFile items requestFileNumber cxrefProtocol nv =
     (let filterLevel = usage_filter (nv_entry nv) in do {
        nv1 \<leftarrow> refresh_request_file noFile items requestFileNumber filterLevel nv;
        nextReference \<leftarrow> (case se_current (nv_entry nv1) of
            None \<Rightarrow> Some (first_cell (nv_entry nv1))
          | Some c \<Rightarrow> next_cell (nv_entry nv1) c);
        nv2 \<leftarrow> move_to noFile items nv1 nextReference
                 (\<lambda>e savedPos p. restoreToNextReferenceAfterRefresh e savedPos filterLevel p)
                 (\<lambda>e p. setCurrentReferenceToNextOrFirst e nextReference p);
        gotoCurrentReference cxrefProtocol nv2
      })"

definition gotoPreviousReference :: "int \<Rightarrow> item_table \<Rightarrow> int \<Rightarrow> bool \<Rightarrow> navigation \<Rightarrow> navigation option" where
  "gotoPreviousReference noFile items requestFileNumber cxrefProtocol nv =
     (let filterLevel = usage_filter (nv_entry nv) in do {
        nv1 \<leftarrow> refresh_request_file noFile items requestFileNumber filterLevel nv;
        let previousReference = findPreviousReference (nv_entry nv1) filterLevel;
        nv2 \<leftarrow> move_to noFile items nv1 previousReference
                 (\<lambda>e savedPos p. restoreToPreviousReferenceAfterRefresh e savedPos filterLevel p)
                 (\<lambda>e p. setCurrentReferenceToPreviousOrLast e previousReference filterLevel p);
        gotoCurrentReference cxrefProtocol nv2
      })"

section \<open>The visible references in a circle\<close>

definition visible_cells :: "usage \<Rightarrow> reference list \<Rightarrow> nat list" where
  "visible_cells f refs = filter (\<lambda>c. ref_usage (refs ! c) < f) [0..<length refs]"

lemma visible_cells_sorted: "sorted_wrt (<) (visible_cells f refs)"
  by (simp add: visible_cells_def sorted_wrt_filter)

lemma visible_cells_snoc:
  "visible_cells f (rs @ [r]) = visible_cells f rs @ (if ref_usage r < f then [length rs] else [])"
proof -
  have "filter (\<lambda>c. ref_usage ((rs @ [r]) ! c) < f) [0..<length rs] = visible_cells f rs"
    unfolding visible_cells_def by (rule filter_cong) (auto simp: nth_append)
  then show ?thesis by (simp add: visible_cells_def)
qed

lemma visible_cells_take: "c \<le> length refs \<Longrightarrow> visible_cells f (take c refs) = filter (\<lambda>x. x < c) (visible_cells f refs)"
proof -
  assume c: "c \<le> length refs"
  have "filter (\<lambda>x. x < c) [0..<length refs] = [0..<c]"
    using c by (intro sorted_distinct_set_unique) (auto simp: sorted_wrt_filter)
  moreover have "filter (\<lambda>x. x < c) (visible_cells f refs)
      = filter (\<lambda>x. ref_usage (refs ! x) < f) (filter (\<lambda>x. x < c) [0..<length refs])"
    unfolding visible_cells_def by (simp add: conj_commute)
  moreover have "visible_cells f (take c refs) = filter (\<lambda>x. ref_usage (refs ! x) < f) [0..<c]"
    unfolding visible_cells_def using c by (intro filter_cong) auto
  ultimately show ?thesis by simp
qed

lemma last_visible_loop_snoc:
  "last_visible_loop f c found (rs @ [r])
     = (if ref_usage r < f then Some (c + length rs) else last_visible_loop f c found rs)"
  by (induction f c found rs rule: last_visible_loop.induct) auto

lemma last_visible: "last_visible_loop f 0 None rs = (if visible_cells f rs = [] then None else Some (last (visible_cells f rs)))"
proof (induction rs rule: rev_induct)
  case Nil
  then show ?case by (simp add: visible_cells_def)
next
  case (snoc r rs)
  then show ?case by (simp add: last_visible_loop_snoc visible_cells_snoc)
qed

lemma skip_hidden_found:
  "skip_hidden f c rs = Some x \<Longrightarrow>
     c \<le> x \<and> x < c + length rs \<and> ref_usage (rs ! (x - c)) < f \<and> (\<forall>y. c \<le> y \<longrightarrow> y < x \<longrightarrow> \<not> ref_usage (rs ! (y - c)) < f)"
proof (induction f c rs rule: skip_hidden.induct)
  case (2 f c r rs)
  show ?case
  proof (cases "f \<le> ref_usage r")
    case True
    with 2 have ih: "Suc c \<le> x" "x < Suc c + length rs" "ref_usage (rs ! (x - Suc c)) < f"
      "\<And>y. Suc c \<le> y \<Longrightarrow> y < x \<Longrightarrow> \<not> ref_usage (rs ! (y - Suc c)) < f" by auto
    have "\<not> ref_usage ((r # rs) ! (y - c)) < f" if "c \<le> y" "y < x" for y
      using ih(4) [of y] that True by (cases "y = c") (auto simp: nth_Cons' Suc_le_eq)
    with ih show ?thesis by (auto simp: nth_Cons')
  next
    case False
    with 2(2) show ?thesis by auto
  qed
qed simp

lemma skip_hidden_none: "skip_hidden f c rs = None \<longleftrightarrow> (\<forall>r\<in>set rs. \<not> ref_usage r < f)"
  by (induction f c rs rule: skip_hidden.induct) auto

lemma skip_hidden_cells:
  assumes "c \<le> length refs"
  shows "skip_hidden f c (drop c refs)
    = (case filter (\<lambda>x. c \<le> x) (visible_cells f refs) of [] \<Rightarrow> None | x # _ \<Rightarrow> Some x)"
proof (cases "skip_hidden f c (drop c refs)")
  case None
  then have "\<not> ref_usage (refs ! x) < f" if "c \<le> x" "x < length refs" for x
    using that nth_mem [of "x - c" "drop c refs"] by (auto simp: skip_hidden_none)
  then have "filter (\<lambda>x. c \<le> x) (visible_cells f refs) = []"
    by (auto simp: visible_cells_def filter_empty_conv)
  with None show ?thesis by simp
next
  case (Some x)
  from skip_hidden_found [OF this] assms
  have x: "c \<le> x" "x < length refs" "ref_usage (refs ! x) < f"
    and least: "\<And>y. c \<le> y \<Longrightarrow> y < x \<Longrightarrow> \<not> ref_usage (refs ! y) < f" by auto
  let ?L = "filter (\<lambda>x. c \<le> x) (visible_cells f refs)"
  have "x \<in> set ?L" using x by (simp add: visible_cells_def)
  then obtain y ys where L: "?L = y # ys" by (cases ?L) auto
  have "sorted_wrt (<) ?L" by (simp add: visible_cells_sorted sorted_wrt_filter)
  with L \<open>x \<in> set ?L\<close> have "y \<le> x" by auto
  moreover have "y \<in> set ?L" using L by simp
  then have "c \<le> y" "ref_usage (refs ! y) < f" by (simp_all add: visible_cells_def)
  ultimately have "y = x" using least [of y] by fastforce
  with L Some show ?thesis by simp
qed

lemma sorted_above:
  "sorted_wrt (<) L \<Longrightarrow> k < length L \<Longrightarrow> filter (\<lambda>x. L ! k < x) L = drop (Suc k) (L :: nat list)"
proof (induction L arbitrary: k)
  case (Cons x L)
  show ?case
  proof (cases k)
    case 0
    with Cons show ?thesis by simp
  next
    case (Suc j)
    with Cons have "x < L ! j" by simp
    then have "\<not> L ! j < x" by simp
    with Cons Suc show ?thesis by simp
  qed
qed simp

lemma sorted_below:
  "sorted_wrt (<) L \<Longrightarrow> k < length L \<Longrightarrow> filter (\<lambda>x. x < L ! k) L = take k (L :: nat list)"
proof (induction L arbitrary: k)
  case (Cons x L)
  show ?case
  proof (cases k)
    case 0
    with Cons have "\<forall>y\<in>set L. \<not> y < x" by auto
    with 0 show ?thesis by (simp add: filter_empty_conv)
  next
    case (Suc j)
    with Cons have "x < L ! j" by simp
    with Cons Suc show ?thesis by simp
  qed
qed simp

text \<open>A session at the \<open>k\<close>-th of its visible references.\<close>

definition at_visible :: "sessionEntry \<Rightarrow> nat \<Rightarrow> bool" where
  "at_visible e k \<longleftrightarrow>
     (let L = visible_cells (usage_filter e) (se_references e) in k < length L \<and> se_current e = Some (L ! k))"

definition go_visible :: "nat \<Rightarrow> sessionEntry \<Rightarrow> sessionEntry" where
  "go_visible k e =
     (let L = visible_cells (usage_filter e) (se_references e) in e\<lparr>se_current := Some (L ! (k mod length L))\<rparr>)"

lemma bottom_information [simp]:
  "length message < 99999 \<Longrightarrow> \<exists>p'. ppcBottomInformation message p = Some p'"
  by (simp add: ppcBottomInformation_def ppcGenRecord_def MAX_PPC_RECORD_SIZE_def)

lemma cell_bound: "k < length (visible_cells f refs) \<Longrightarrow> visible_cells f refs ! k < length refs"
  using nth_mem [of k "visible_cells f refs"] by (simp add: visible_cells_def)

lemma filter_from_0: "filter (\<lambda>x. (0::nat) \<le> x) L = L"
  by simp

lemma next_or_first:
  assumes "at_visible e k"
  shows "\<exists>p'. Option.bind (next_cell e (the (se_current e))) (\<lambda>n. setCurrentReferenceToNextOrFirst e n p)
    = Some (go_visible (Suc k) e, p')"
proof -
  let ?f = "usage_filter e" and ?refs = "se_references e"
  let ?L = "visible_cells ?f ?refs"
  from assms have k: "k < length ?L" and cur: "se_current e = Some (?L ! k)" by (simp_all add: at_visible_def Let_def)
  note b = cell_bound [OF k]
  then have refs: "?refs \<noteq> []" by auto
  have above: "filter (\<lambda>x. Suc (?L ! k) \<le> x) ?L = drop (Suc k) ?L"
    using sorted_above [OF visible_cells_sorted k] by (simp add: Suc_le_eq)
  have skip: "skip_hidden_from e (if Suc (?L ! k) < length ?refs then Some (Suc (?L ! k)) else None)
      = (if Suc k < length ?L then Some (?L ! Suc k) else None)"
  proof (cases "Suc (?L ! k) < length ?refs")
    case True
    with skip_hidden_cells [of "Suc (?L ! k)" ?refs ?f] above show ?thesis
      by (simp add: skip_hidden_from_def) (cases "drop (Suc k) ?L"; auto simp: nth_via_drop)
  next
    case False
    then have "\<not> Suc k < length ?L"
      using cell_bound [of "Suc k" ?f ?refs] sorted_wrt_nth_less [OF visible_cells_sorted, of k "Suc k" ?f ?refs] b by fastforce
    with False show ?thesis by (simp add: skip_hidden_from_def)
  qed
  have first: "skip_hidden_from e (first_cell e) = Some (?L ! 0)"
    using skip_hidden_cells [of 0 ?refs ?f] refs k unfolding filter_from_0
    by (cases ?L) (simp_all add: skip_hidden_from_def first_cell_def)
  have "length (str_bytes ''Moving to the first reference'') < 99999" unfolding str_bytes_def length_map by simp
  then obtain p' where p': "ppcBottomInformation (str_bytes ''Moving to the first reference'') p = Some p'"
    using bottom_information by blast
  show ?thesis
  proof (cases "Suc k < length ?L")
    case True
    with skip cur b show ?thesis
      by (simp add: next_cell_def reference_at_def setCurrentReferenceToNextOrFirst_def go_visible_def)
  next
    case False
    with k have "Suc k mod length ?L = 0" by (metis Suc_lessI mod_self)
    with skip cur b first p' False show ?thesis
      by (simp add: next_cell_def reference_at_def setCurrentReferenceToNextOrFirst_def go_visible_def)
  qed
qed

lemma previous_or_last:
  assumes "at_visible e k"
  shows "\<exists>p'. setCurrentReferenceToPreviousOrLast e (findPreviousReference e (usage_filter e)) (usage_filter e) p
    = Some (go_visible (k + length (visible_cells (usage_filter e) (se_references e)) - 1) e, p')"
proof -
  let ?f = "usage_filter e" and ?refs = "se_references e"
  let ?L = "visible_cells ?f ?refs"
  from assms have k: "k < length ?L" and cur: "se_current e = Some (?L ! k)" by (simp_all add: at_visible_def Let_def)
  have "visible_cells ?f (take (?L ! k) ?refs) = take k ?L"
    using visible_cells_take [of "?L ! k" ?refs ?f] cell_bound [OF k] sorted_below [OF visible_cells_sorted k] by simp
  then have prev: "findPreviousReference e ?f = (if k = 0 then None else Some (?L ! (k - 1)))"
    using k cur by (auto simp: findPreviousReference_def last_visible last_conv_nth min_absorb2)
  have last: "findLastReference e ?f = Some (?L ! (length ?L - 1))"
    using k by (auto simp: findLastReference_def last_visible last_conv_nth)
  have "length (str_bytes ''Moving to the last reference'') < 99999" unfolding str_bytes_def length_map by simp
  then obtain p' where p': "ppcBottomInformation (str_bytes ''Moving to the last reference'') p = Some p'"
    using bottom_information by blast
  show ?thesis
  proof (cases "k = 0")
    case True
    with k have "(k + length ?L - 1) mod length ?L = length ?L - 1" by simp
    with prev last p' True show ?thesis
      by (simp add: setCurrentReferenceToPreviousOrLast_def go_visible_def Let_def)
  next
    case False
    then have "k + length ?L - 1 = (k - 1) + length ?L" by simp
    then have "(k + length ?L - 1) mod length ?L = k - 1" using k by (simp only: mod_add_self2) simp
    with prev False show ?thesis
      by (simp add: setCurrentReferenceToPreviousOrLast_def go_visible_def Let_def)
  qed
qed

section \<open>A step when nothing needs a refresh\<close>

definition settled :: "int \<Rightarrow> navigation \<Rightarrow> bool" where
  "settled requestFileNumber nv \<longleftrightarrow>
     needs_refresh (nv_files nv) requestFileNumber = Some False
     \<and> (\<forall>r\<in>set (se_references (nv_entry nv)). needs_refresh (nv_files nv) (pos_file (ref_position r)) = Some False)"

lemma goto_position_some: "needs_refresh files (pos_file pos) = Some b \<Longrightarrow> \<exists>p'. ppcGotoPosition files pos p = Some p'"
  by (auto simp: needs_refresh_def ppcGotoPosition_def ppcGenPosition_def split: if_splits)

lemma settled_update: "settled rf nv \<Longrightarrow> se_references e = se_references (nv_entry nv) \<Longrightarrow> settled rf (nv\<lparr>nv_entry := e, nv_ppc := p\<rparr>)"
  by (simp add: settled_def)

lemma go_visible_simps [simp]:
  "se_references (go_visible k e) = se_references e" "se_refsFilterLevel (go_visible k e) = se_refsFilterLevel e"
  "usage_filter (go_visible k e) = usage_filter e"
  by (simp_all add: go_visible_def usage_filter_def Let_def)

lemma at_go_visible: "at_visible e j \<Longrightarrow> at_visible (go_visible k e) (k mod length (visible_cells (usage_filter e) (se_references e)))" for e
  by (auto simp: at_visible_def Let_def) (auto simp: go_visible_def Let_def intro: mod_less_divisor)

lemma go_visible_at: "at_visible e k \<Longrightarrow> go_visible k e = e"
  by (simp add: at_visible_def go_visible_def Let_def)

lemma go_visible_go: "go_visible j (go_visible k e) = go_visible j e"
  by (simp add: go_visible_def usage_filter_def Let_def)

lemma goto_current:
  assumes "settled rf nv" and "at_visible (nv_entry nv) k"
  shows "\<exists>p. gotoCurrentReference protocol nv = Some (nv\<lparr>nv_ppc := p\<rparr>)"
proof -
  let ?refs = "se_references (nv_entry nv)"
  from assms(2) obtain c where c: "se_current (nv_entry nv) = Some c" "c < length ?refs"
    using cell_bound by (auto simp: at_visible_def Let_def)
  then have "needs_refresh (nv_files nv) (pos_file (ref_position (?refs ! c))) = Some False"
    using assms(1) by (simp add: settled_def)
  from goto_position_some [OF this] obtain p where
    "ppcGotoPosition (nv_files nv) (ref_position (?refs ! c)) (nv_ppc nv) = Some p" by blast
  with c show ?thesis by (auto simp: gotoCurrentReference_def reference_at_def)
qed

lemma settled_request: "settled rf nv \<Longrightarrow> refresh_request_file noFile items rf f nv = Some nv"
  by (simp add: refresh_request_file_def settled_def)

lemma settled_target:
  "settled rf nv \<Longrightarrow> (\<And>c. target = Some c \<Longrightarrow> c < length (se_references (nv_entry nv))) \<Longrightarrow> needs_refresh_at nv target = Some False"
  by (cases target) (auto simp: needs_refresh_at_def settled_def reference_at_def)

lemma goto_next_settled:
  assumes s: "settled rf nv" and a: "at_visible (nv_entry nv) k"
  shows "\<exists>p. gotoNextReference noFile items rf protocol nv
    = Some (nv\<lparr>nv_entry := go_visible (Suc k) (nv_entry nv), nv_ppc := p\<rparr>)"
proof -
  let ?e = "nv_entry nv"
  from a obtain c where c: "se_current ?e = Some c" "c < length (se_references ?e)"
    using cell_bound by (auto simp: at_visible_def Let_def)
  obtain n where n: "next_cell ?e c = Some n" using c by (simp add: next_cell_def reference_at_def)
  then have b: "\<And>c. n = Some c \<Longrightarrow> c < length (se_references ?e)"
    by (auto simp: next_cell_def split: if_splits)
  from next_or_first [OF a] c n obtain p1 where
    "setCurrentReferenceToNextOrFirst ?e n (nv_ppc nv) = Some (go_visible (Suc k) ?e, p1)" by fastforce
  moreover have "\<exists>p. gotoCurrentReference protocol (nv\<lparr>nv_entry := go_visible (Suc k) ?e, nv_ppc := p1\<rparr>)
      = Some (nv\<lparr>nv_entry := go_visible (Suc k) ?e, nv_ppc := p1\<rparr>\<lparr>nv_ppc := p\<rparr>)"
    by (rule goto_current [OF settled_update [OF s]]) (simp, simp, rule at_go_visible [OF a])
  ultimately show ?thesis using s c n settled_target [OF s b]
    by (auto simp: gotoNextReference_def Let_def settled_request move_to_def with_entry_def)
qed

lemma goto_previous_settled:
  assumes s: "settled rf nv" and a: "at_visible (nv_entry nv) k"
  shows "\<exists>p. gotoPreviousReference noFile items rf protocol nv
    = Some (nv\<lparr>nv_entry := go_visible (k + length (visible_cells (usage_filter (nv_entry nv)) (se_references (nv_entry nv))) - 1)
                            (nv_entry nv), nv_ppc := p\<rparr>)"
proof -
  let ?e = "nv_entry nv"
  let ?L = "visible_cells (usage_filter ?e) (se_references ?e)"
  let ?j = "k + length ?L - 1"
  from a obtain c where c: "se_current ?e = Some c" "c < length (se_references ?e)"
    using cell_bound by (auto simp: at_visible_def Let_def)
  have b: "\<And>n. findPreviousReference ?e (usage_filter ?e) = Some n \<Longrightarrow> n < length (se_references ?e)"
  proof -
    fix n assume "findPreviousReference ?e (usage_filter ?e) = Some n"
    then have "n \<in> set (visible_cells (usage_filter ?e) (take c (se_references ?e)))"
      by (auto simp: findPreviousReference_def c last_visible split: if_splits)
    then show "n < length (se_references ?e)" by (simp add: visible_cells_def)
  qed
  from previous_or_last [OF a] obtain p1 where
    "setCurrentReferenceToPreviousOrLast ?e (findPreviousReference ?e (usage_filter ?e)) (usage_filter ?e) (nv_ppc nv)
       = Some (go_visible ?j ?e, p1)" by fastforce
  moreover have "\<exists>p. gotoCurrentReference protocol (nv\<lparr>nv_entry := go_visible ?j ?e, nv_ppc := p1\<rparr>)
      = Some (nv\<lparr>nv_entry := go_visible ?j ?e, nv_ppc := p1\<rparr>\<lparr>nv_ppc := p\<rparr>)"
    by (rule goto_current [OF settled_update [OF s]]) (simp, simp, rule at_go_visible [OF a])
  ultimately show ?thesis using s c settled_target [OF s b]
    by (auto simp: gotoPreviousReference_def Let_def settled_request move_to_def with_entry_def)
qed

lemma go_visible_mod: "go_visible (k mod length (visible_cells (usage_filter e) (se_references e))) e = go_visible k e"
  by (simp add: go_visible_def Let_def)

lemma circle_back:
  assumes "at_visible e k" and "n = length (visible_cells (usage_filter e) (se_references e))"
  shows "go_visible (Suc k mod n + n - 1) e = e" "go_visible (Suc ((k + n - 1) mod n)) e = e"
proof -
  from assms have k: "k < n" by (simp add: at_visible_def Let_def)
  have "(Suc k mod n + n - 1) mod n = k"
    using k by (cases "Suc k = n") (simp_all add: add.commute)
  moreover have "Suc ((k + n - 1) mod n) mod n = k"
    using k by (simp add: mod_Suc_eq)
  ultimately show "go_visible (Suc k mod n + n - 1) e = e" "go_visible (Suc ((k + n - 1) mod n)) e = e"
    using go_visible_mod go_visible_at [OF assms(1)] assms(2) by metis+
qed

text \<open>C5: Going to the next reference and back to the previous one, or the other way round, ends at the
  reference where it began, at the ends of the list too.\<close>

theorem next_previous_roundtrip:
  assumes s: "settled rf nv" and a: "at_visible (nv_entry nv) k"
  shows "(\<exists>nv1 nv2. gotoNextReference noFile items rf protocol nv = Some nv1
      \<and> gotoPreviousReference noFile items rf protocol nv1 = Some nv2
      \<and> nv_entry nv2 = nv_entry nv \<and> nv_files nv2 = nv_files nv)
    \<and> (\<exists>nv1 nv2. gotoPreviousReference noFile items rf protocol nv = Some nv1
      \<and> gotoNextReference noFile items rf protocol nv1 = Some nv2
      \<and> nv_entry nv2 = nv_entry nv \<and> nv_files nv2 = nv_files nv)"
proof -
  let ?e = "nv_entry nv"
  let ?n = "length (visible_cells (usage_filter ?e) (se_references ?e))"
  have step: "settled rf (nv\<lparr>nv_entry := go_visible j ?e, nv_ppc := p\<rparr>)"
    "at_visible (nv_entry (nv\<lparr>nv_entry := go_visible j ?e, nv_ppc := p\<rparr>)) (j mod ?n)" for j p
    using settled_update [OF s, of "go_visible j ?e"] at_go_visible [OF a, of j] by simp_all
  from goto_next_settled [OF s a] obtain p where
    "gotoNextReference noFile items rf protocol nv = Some (nv\<lparr>nv_entry := go_visible (Suc k) ?e, nv_ppc := p\<rparr>)" by blast
  moreover from goto_previous_settled [OF step [of p "Suc k"], of noFile items protocol] circle_back(1) [OF a refl]
  have "\<exists>q. gotoPreviousReference noFile items rf protocol (nv\<lparr>nv_entry := go_visible (Suc k) ?e, nv_ppc := p\<rparr>)
      = Some (nv\<lparr>nv_entry := ?e, nv_ppc := q\<rparr>)"
    by (simp add: go_visible_go)
  ultimately have forth: "\<exists>nv1 nv2. gotoNextReference noFile items rf protocol nv = Some nv1
      \<and> gotoPreviousReference noFile items rf protocol nv1 = Some nv2
      \<and> nv_entry nv2 = nv_entry nv \<and> nv_files nv2 = nv_files nv" by fastforce
  from goto_previous_settled [OF s a] obtain p where
    "gotoPreviousReference noFile items rf protocol nv = Some (nv\<lparr>nv_entry := go_visible (k + ?n - 1) ?e, nv_ppc := p\<rparr>)"
    by blast
  moreover from goto_next_settled [OF step [of p "k + ?n - 1"], of noFile items protocol] circle_back(2) [OF a refl]
  have "\<exists>q. gotoNextReference noFile items rf protocol (nv\<lparr>nv_entry := go_visible (k + ?n - 1) ?e, nv_ppc := p\<rparr>)
      = Some (nv\<lparr>nv_entry := ?e, nv_ppc := q\<rparr>)"
    by (simp add: go_visible_go)
  ultimately have "\<exists>nv1 nv2. gotoPreviousReference noFile items rf protocol nv = Some nv1
      \<and> gotoNextReference noFile items rf protocol nv1 = Some nv2
      \<and> nv_entry nv2 = nv_entry nv \<and> nv_files nv2 = nv_files nv" by fastforce
  with forth show ?thesis by (rule conjI)
qed

lemma next_steps:
  assumes s: "settled rf nv" and a: "at_visible (nv_entry nv) k"
  shows "\<exists>p. ((\<lambda>x. Option.bind x (gotoNextReference noFile items rf protocol)) ^^ j) (Some nv)
    = Some (nv\<lparr>nv_entry := go_visible (k + j) (nv_entry nv), nv_ppc := p\<rparr>)"
proof (induction j)
  case 0
  have "nv = nv\<lparr>nv_entry := nv_entry nv, nv_ppc := nv_ppc nv\<rparr>" by simp
  then show ?case using go_visible_at [OF a] by (intro exI [of _ "nv_ppc nv"]) simp
next
  case (Suc j)
  then obtain p where p: "((\<lambda>x. Option.bind x (gotoNextReference noFile items rf protocol)) ^^ j) (Some nv)
    = Some (nv\<lparr>nv_entry := go_visible (k + j) (nv_entry nv), nv_ppc := p\<rparr>)" by blast
  let ?nv = "nv\<lparr>nv_entry := go_visible (k + j) (nv_entry nv), nv_ppc := p\<rparr>"
  let ?n = "length (visible_cells (usage_filter (nv_entry nv)) (se_references (nv_entry nv)))"
  have "settled rf ?nv" "at_visible (nv_entry ?nv) ((k + j) mod ?n)"
    using settled_update [OF s, of "go_visible (k + j) (nv_entry nv)"] at_go_visible [OF a, of "k + j"] by simp_all
  from goto_next_settled [OF this] obtain q where
    "gotoNextReference noFile items rf protocol ?nv
       = Some (?nv\<lparr>nv_entry := go_visible (Suc ((k + j) mod ?n)) (nv_entry ?nv), nv_ppc := q\<rparr>)" by blast
  moreover have "go_visible (Suc ((k + j) mod ?n)) (go_visible (k + j) (nv_entry nv)) = go_visible (k + Suc j) (nv_entry nv)"
    using go_visible_mod [of "Suc ((k + j) mod ?n)" "nv_entry nv"] go_visible_mod [of "Suc (k + j)" "nv_entry nv"]
    by (simp add: go_visible_go mod_Suc_eq)
  ultimately show ?case using p by auto
qed

text \<open>C10: From any visible reference, going to the next one again and again comes to every visible reference,
  within as many steps as there are.\<close>

theorem next_reaches_every_reference:
  assumes s: "settled rf nv" and a: "at_visible (nv_entry nv) k"
    and c: "c < length (se_references (nv_entry nv))"
    and visible: "isMoreImportantUsageThan (ref_usage (se_references (nv_entry nv) ! c)) (usage_filter (nv_entry nv))"
  shows "\<exists>j nv'. j < length (se_references (nv_entry nv))
    \<and> ((\<lambda>x. Option.bind x (gotoNextReference noFile items rf protocol)) ^^ j) (Some nv) = Some nv'
    \<and> se_current (nv_entry nv') = Some c \<and> se_references (nv_entry nv') = se_references (nv_entry nv)"
proof -
  let ?e = "nv_entry nv"
  let ?L = "visible_cells (usage_filter ?e) (se_references ?e)"
  let ?n = "length ?L"
  from a have k: "k < ?n" by (simp add: at_visible_def Let_def)
  from c visible have "c \<in> set ?L" by (simp add: visible_cells_def)
  then obtain i where i: "i < ?n" "?L ! i = c" by (auto simp: in_set_conv_nth)
  let ?j = "(i + ?n - k) mod ?n"
  have "?n \<le> length (se_references ?e)"
    unfolding visible_cells_def by (metis length_filter_le length_upt minus_nat.diff_0)
  moreover have "?j < ?n" using k by (intro mod_less_divisor) auto
  ultimately have j: "?j < length (se_references ?e)" by (rule less_le_trans [rotated])
  have "(k + ?j) mod ?n = i" using k i(1) by (simp add: mod_add_right_eq)
  then have "se_current (go_visible (k + ?j) ?e) = Some c" using i(2) by (simp add: go_visible_def Let_def)
  moreover from next_steps [OF s a, of ?j noFile items protocol] obtain p where
    "((\<lambda>x. Option.bind x (gotoNextReference noFile items rf protocol)) ^^ ?j) (Some nv)
       = Some (nv\<lparr>nv_entry := go_visible (k + ?j) ?e, nv_ppc := p\<rparr>)" by blast
  ultimately show ?thesis using j
    by (intro exI [of _ ?j] exI [of _ "nv\<lparr>nv_entry := go_visible (k + ?j) ?e, nv_ppc := p\<rparr>"] conjI)
      (assumption | simp)+
qed

section \<open>The orders are orders\<close>

lemma list_order_on: "list_order lt \<Longrightarrow> list_order (\<lambda>a b. lt (f a) (f b))"
  unfolding list_order_def by blast

lemma list_order_lex:
  assumes "list_order lt1" and "list_order lt2"
  shows "list_order (\<lambda>a b. lt1 a b \<or> (\<not> lt1 b a \<and> lt2 a b))"
proof (unfold_locales, goal_cases)
  case (1 a b)
  then show ?case using list_order.lt_asym [OF assms(1)] list_order.lt_asym [OF assms(2)] by blast
next
  case (2 b a c)
  then show ?case
    using list_order.not_lt_trans [OF assms(1)] list_order.not_lt_trans [OF assms(2)] list_order.lt_asym [OF assms(1)]
      list_order.lt_not_lt_trans [OF assms(1)] list_order.not_lt_lt_trans [OF assms(1)] by blast
qed

definition simple_name_of :: "file_table \<Rightarrow> reference \<Rightarrow> string" where
  "simple_name_of files r = simpleFileName (fileNameOf files (pos_file (ref_position r)))"

lemma referenceIsLessThan_lex:
  "referenceIsLessThan files = (\<lambda>r1 r2.
     (strcmp (simple_name_of files r1) (simple_name_of files r2) < 0)
     \<or> (\<not> strcmp (simple_name_of files r2) (simple_name_of files r1) < 0 \<and> ref_position r1 < ref_position r2))"
proof (intro ext)
  fix r1 r2
  let ?c = "strcmp (simple_name_of files r1) (simple_name_of files r2)"
  have "strcmp (simple_name_of files r2) (simple_name_of files r1) < 0 \<longleftrightarrow> ?c > 0"
    using strcmp_swap by blast
  then show "referenceIsLessThan files r1 r2 \<longleftrightarrow> ?c < 0
     \<or> (\<not> strcmp (simple_name_of files r2) (simple_name_of files r1) < 0 \<and> ref_position r1 < ref_position r2)"
    by (auto simp: referenceIsLessThan_def simple_name_of_def Let_def less_position_fields)
qed

lemma order_reference: "list_order (referenceIsLessThan files)"
  unfolding referenceIsLessThan_lex by (intro list_order_lex list_order_strcmp list_order_key)

lemma orderImportant_lex:
  "referenceIsLessThanOrderImportant files = (\<lambda>r1 r2.
     min (usage_index (ref_usage r1)) 3 < min (usage_index (ref_usage r2)) 3
     \<or> (\<not> min (usage_index (ref_usage r2)) 3 < min (usage_index (ref_usage r1)) 3 \<and> referenceIsLessThan files r1 r2))"
proof (intro ext)
  fix r1 r2
  show "referenceIsLessThanOrderImportant files r1 r2 \<longleftrightarrow>
     min (usage_index (ref_usage r1)) 3 < min (usage_index (ref_usage r2)) 3
     \<or> (\<not> min (usage_index (ref_usage r2)) 3 < min (usage_index (ref_usage r1)) 3 \<and> referenceIsLessThan files r1 r2)"
    unfolding referenceIsLessThanOrderImportant_def usageImportantInOrder_def isMoreImportantUsageThan_def
      isLessImportantUsageThan_def
    by (cases "ref_usage r1"; cases "ref_usage r2") simp_all
qed

interpretation importance_order: list_order "referenceIsLessThanOrderImportant files" for files
  unfolding orderImportant_lex by (intro list_order_lex order_reference list_order_key)

interpretation natural_order: list_order "referenceIsLessThan files" for files
  by (rule order_reference)

lemma sort_references_refs:
  "mset (se_references (sort_references lessf e)) = mset (se_references e)"
proof -
  have "mset (se_references (sort_references lessf e)) = image_mset snd (mset (enumerate 0 (se_references e)))"
    by (simp add: sort_references_def Let_def)
  also have "\<dots> = mset (map snd (enumerate 0 (se_references e)))" by (simp only: mset_map)
  finally show ?thesis by simp
qed

lemma sort_references_set [simp]: "set (se_references (sort_references lessf e)) = set (se_references e)"
  by (metis sort_references_refs set_mset_mset)

lemma sort_references_length [simp]: "length (se_references (sort_references lessf e)) = length (se_references e)"
  by (metis sort_references_refs size_mset)

lemma sort_references_sorted:
  "list_order lessf \<Longrightarrow> sorted_wrt (\<lambda>x y. \<not> lessf y x) (se_references (sort_references lessf e))"
  using list_order.LIST_MERGE_SORT_ordered [OF list_order_on, of lessf snd]
  by (simp add: sort_references_def Let_def sorted_wrt_map)

lemma takeWhile_shorter: "x \<in> set xs \<Longrightarrow> \<not> P x \<Longrightarrow> length (takeWhile P xs) < length xs"
  by (induction xs) auto

lemma sort_references_current:
  assumes "se_current e = Some c" and "c < length (se_references e)"
  shows "\<exists>c'. se_current (sort_references lessf e) = Some c' \<and> c' < length (se_references e)
    \<and> se_references (sort_references lessf e) ! c' = se_references e ! c"
proof -
  define cells where "cells = LIST_MERGE_SORT (\<lambda>a b. lessf (snd a) (snd b)) (enumerate 0 (se_references e))"
  have m: "set cells = set (enumerate 0 (se_references e))" "length cells = length (se_references e)"
    unfolding cells_def by simp_all
  have "(c, se_references e ! c) \<in> set cells"
    using assms(2) by (simp add: m in_set_enumerate_eq)
  let ?n = "length (takeWhile (\<lambda>cell. fst cell \<noteq> c) cells)"
  have n: "?n < length cells"
    using \<open>(c, _) \<in> set cells\<close> by (rule takeWhile_shorter) simp
  then have "fst (cells ! ?n) = c" using nth_length_takeWhile by fastforce
  moreover have "cells ! ?n \<in> set (enumerate 0 (se_references e))" using n m(1) nth_mem by blast
  ultimately have "snd (cells ! ?n) = se_references e ! c" by (auto simp: in_set_enumerate_eq)
  with n m show ?thesis using assms(1) by (simp add: sort_references_def flip: cells_def)
qed

section \<open>What is collected from a menu\<close>

definition selected_references :: "browsingMenu list \<Rightarrow> reference set" where
  "selected_references menus =
     {r. \<exists>m\<in>set menus. bm_selected m \<and> r \<in> set (ri_references (bm_referenceable m)) \<and> isVisibleUsage (ref_usage r)}"

lemma add_positions:
  assumes "strictly_ordered refs"
  shows "strictly_ordered (addReferencesFromFileToList rs ANY_FILE refs)
    \<and> ref_position ` set (addReferencesFromFileToList rs ANY_FILE refs)
      = ref_position ` set refs \<union> ref_position ` {r \<in> set rs. isVisibleUsage (ref_usage r)}"
proof -
  have dom: "dom (usages_of l) = ref_position ` set l" for l
    by (auto simp: usages_of_def dom_map_of_conv_image_fst image_image)
  have "strictly_ordered (fold (\<lambda>r refs. snd (addReferenceToList r refs)) xs refs)
    \<and> ref_position ` set (fold (\<lambda>r refs. snd (addReferenceToList r refs)) xs refs)
      = ref_position ` set refs \<union> ref_position ` {r \<in> set xs. isVisibleUsage (ref_usage r)}" for xs
    using assms
  proof (induction xs arbitrary: refs)
    case (Cons x xs)
    let ?refs = "snd (addReferenceToList x refs)"
    note o = addReferenceToList_ordered [OF Cons(2), of x]
    have "ref_position ` set ?refs
        = ref_position ` set refs \<union> (if isVisibleUsage (ref_usage x) then {ref_position x} else {})"
      using o unfolding dom [symmetric] by (auto split: if_splits)
    with Cons(1) [of ?refs] o show ?case by auto
  qed simp
  from this [of "rev rs"] show ?thesis by (simp add: addReferencesFromFileToList_def)
qed

lemma gen_fields [simp]:
  "se_callerPosition (genOnLineReferences e m) = se_callerPosition e"
  by (simp add: genOnLineReferences_def)

lemma collected:
  "strictly_ordered (se_references e) \<Longrightarrow>
     strictly_ordered (se_references (fold (\<lambda>m e. genOnLineReferences e m) menus e))
     \<and> ref_position ` set (se_references (fold (\<lambda>m e. genOnLineReferences e m) menus e))
       = ref_position ` set (se_references e) \<union> ref_position ` selected_references menus
     \<and> se_callerPosition (fold (\<lambda>m e. genOnLineReferences e m) menus e) = se_callerPosition e"
proof (induction menus arbitrary: e)
  case Nil
  then show ?case by (simp add: selected_references_def)
next
  case (Cons m menus)
  have sel: "selected_references (m # menus)
      = (if bm_selected m then {r \<in> set (ri_references (bm_referenceable m)). isVisibleUsage (ref_usage r)} else {})
        \<union> selected_references menus"
    by (auto simp: selected_references_def)
  have g: "strictly_ordered (se_references (genOnLineReferences e m))
    \<and> ref_position ` set (se_references (genOnLineReferences e m))
      = ref_position ` set (se_references e)
        \<union> ref_position ` (if bm_selected m then {r \<in> set (ri_references (bm_referenceable m)). isVisibleUsage (ref_usage r)} else {})"
    using add_positions [OF Cons(2)] Cons(2) by (simp add: genOnLineReferences_def)
  from Cons(1) [of "genOnLineReferences e m"] g show ?case
    unfolding sel by (simp add: image_Un Un_assoc)
qed

section \<open>The reference nearest to the caller\<close>

definition at_or_after :: "position \<Rightarrow> reference \<Rightarrow> bool" where
  "at_or_after caller r \<longleftrightarrow>
     (let p = ref_position r in pos_file p = pos_file caller
        \<and> (pos_line p > pos_line caller \<or> (pos_line p = pos_line caller \<and> pos_col p \<ge> pos_col caller)))"

definition before_caller :: "position \<Rightarrow> reference \<Rightarrow> bool" where
  "before_caller caller r \<longleftrightarrow> pos_file (ref_position r) = pos_file caller \<and> \<not> at_or_after caller r"

definition nearest_to :: "position \<Rightarrow> reference set \<Rightarrow> reference \<Rightarrow> bool" where
  "nearest_to caller refs r \<longleftrightarrow>
     (if \<exists>s\<in>refs. at_or_after caller s
      then at_or_after caller r \<and> (\<forall>s\<in>refs. at_or_after caller s \<longrightarrow> pos_line (ref_position r) \<le> pos_line (ref_position s))
      else if \<exists>s\<in>refs. before_caller caller s
      then before_caller caller r \<and> (\<forall>s\<in>refs. before_caller caller s \<longrightarrow> pos_line (ref_position s) \<le> pos_line (ref_position r))
      else True)"

abbreviation line_of :: "reference \<Rightarrow> int" where
  "line_of r \<equiv> pos_line (ref_position r)"

text \<open>What the loop finds of one kind: the first of the nearest, or what had been found before.\<close>

definition found_nearest ::
  "(reference \<Rightarrow> bool) \<Rightarrow> (reference \<Rightarrow> int) \<Rightarrow> nat \<Rightarrow> nat option \<Rightarrow> int \<Rightarrow> reference list \<Rightarrow> nat option \<Rightarrow> bool" where
  "found_nearest P dist c old d rs found \<longleftrightarrow>
     (found = old \<and> (\<forall>r\<in>set rs. P r \<longrightarrow> d \<le> dist r))
     \<or> (\<exists>i<length rs. found = Some (c + i) \<and> P (rs ! i) \<and> dist (rs ! i) < d
          \<and> (\<forall>r\<in>set rs. P r \<longrightarrow> dist (rs ! i) \<le> dist r))"

lemma found_nearest_skip:
  "found_nearest P dist (Suc c) old d rs found \<Longrightarrow> \<not> P r \<or> d \<le> dist r \<Longrightarrow> found_nearest P dist c old d (r # rs) found"
  unfolding found_nearest_def by (elim disjE exE conjE) (auto intro: exI [of _ "Suc _"])

lemma found_nearest_take:
  assumes "found_nearest P dist (Suc c) (Some c) (dist r) rs found" and "P r" and "dist r < d"
  shows "found_nearest P dist c old d (r # rs) found"
  using assms(1) unfolding found_nearest_def
proof (elim disjE exE conjE)
  assume "found = Some c" "\<forall>s\<in>set rs. P s \<longrightarrow> dist r \<le> dist s"
  with assms(2,3) show "found = old \<and> (\<forall>r\<in>set (r # rs). P r \<longrightarrow> d \<le> dist r) \<or>
    (\<exists>i<length (r # rs). found = Some (c + i) \<and> P ((r # rs) ! i) \<and> dist ((r # rs) ! i) < d
       \<and> (\<forall>s\<in>set (r # rs). P s \<longrightarrow> dist ((r # rs) ! i) \<le> dist s))"
    by (intro disjI2 exI [of _ 0]) auto
next
  fix i assume "i < length rs" "found = Some (Suc c + i)" "P (rs ! i)" "dist (rs ! i) < dist r"
    "\<forall>s\<in>set rs. P s \<longrightarrow> dist (rs ! i) \<le> dist s"
  with assms(2,3) show "found = old \<and> (\<forall>r\<in>set (r # rs). P r \<longrightarrow> d \<le> dist r) \<or>
    (\<exists>i<length (r # rs). found = Some (c + i) \<and> P ((r # rs) ! i) \<and> dist ((r # rs) ! i) < d
       \<and> (\<forall>s\<in>set (r # rs). P s \<longrightarrow> dist ((r # rs) ! i) \<le> dist s))"
    by (intro disjI2 exI [of _ "Suc i"]) auto
qed

lemma nearest_caller_loop_finds:
  "found_nearest (at_or_after caller) (\<lambda>r. line_of r - pos_line caller) c bA dA rs
      (fst (nearest_caller_loop caller c bA bB dA dB rs))
   \<and> found_nearest (before_caller caller) (\<lambda>r. pos_line caller - line_of r) c bB dB rs
      (snd (nearest_caller_loop caller c bA bB dA dB rs))"
proof (induction caller c bA bB dA dB rs rule: nearest_caller_loop.induct)
  case (1 caller c bA bB dA dB)
  then show ?case by (simp add: found_nearest_def)
next
  case (2 caller c bA bB dA dB r rs)
  let ?p = "ref_position r"
  consider (other) "pos_file ?p \<noteq> pos_file caller" | (after) "at_or_after caller r" | (before) "before_caller caller r"
    by (auto simp: before_caller_def)
  then show ?case
  proof cases
    case other
    then have n: "\<not> at_or_after caller r" "\<not> before_caller caller r"
      by (auto simp: at_or_after_def before_caller_def Let_def)
    from 2(1) [OF refl other] other show ?thesis
      by (auto simp: Let_def intro!: found_nearest_skip n)
  next
    case after
    then have n: "\<not> before_caller caller r" and f: "pos_file ?p = pos_file caller"
      and l: "pos_line ?p > pos_line caller \<or> (pos_line ?p = pos_line caller \<and> pos_col ?p \<ge> pos_col caller)"
      by (auto simp: before_caller_def at_or_after_def Let_def)
    show ?thesis
    proof (cases "pos_line ?p - pos_line caller < dA")
      case True
      with 2(2) [OF refl _ l refl True] f l n after show ?thesis
        by (simp add: Let_def) (blast intro: found_nearest_take found_nearest_skip)
    next
      case False
      with 2(3) [OF refl _ l refl False] f l n show ?thesis
        by (simp add: Let_def) (metis found_nearest_skip not_less)
    qed
  next
    case before
    then have n: "\<not> at_or_after caller r" and f: "pos_file ?p = pos_file caller"
      and l: "\<not> (pos_line ?p > pos_line caller \<or> (pos_line ?p = pos_line caller \<and> pos_col ?p \<ge> pos_col caller))"
      by (auto simp: before_caller_def at_or_after_def Let_def)
    show ?thesis
    proof (cases "pos_line caller - pos_line ?p < dB")
      case True
      with 2(4) [OF refl _ l refl True] f l n before show ?thesis
        by (simp add: Let_def) (blast intro: found_nearest_take found_nearest_skip)
    next
      case False
      with 2(5) [OF refl _ l refl False] f l n show ?thesis
        by (simp add: Let_def) (metis found_nearest_skip not_less)
    qed
  qed
qed

definition lines_fit :: "position \<Rightarrow> reference set \<Rightarrow> bool" where
  "lines_fit caller refs \<longleftrightarrow> (\<forall>r\<in>refs. abs (line_of r - pos_line caller) < INT_MAX)"

lemma first_after_caller:
  assumes "lines_fit (se_callerPosition e) (set (se_references e))" and "se_references e \<noteq> []"
  shows "\<exists>c. se_current (setCurrentReferenceToFirstAfterCallerPosition e) = Some c \<and> c < length (se_references e)
    \<and> nearest_to (se_callerPosition e) (set (se_references e)) (se_references e ! c)"
proof -
  let ?refs = "se_references e" and ?caller = "se_callerPosition e"
  obtain bA bB where l: "nearest_caller_loop ?caller 0 None None INT_MAX INT_MAX ?refs = (bA, bB)" by fastforce
  from nearest_caller_loop_finds [of ?caller 0 None INT_MAX ?refs None INT_MAX] l
  have A: "found_nearest (at_or_after ?caller) (\<lambda>r. line_of r - pos_line ?caller) 0 None INT_MAX ?refs bA"
    and B: "found_nearest (before_caller ?caller) (\<lambda>r. pos_line ?caller - line_of r) 0 None INT_MAX ?refs bB" by simp_all
  have fit: "line_of r - pos_line ?caller < INT_MAX" "pos_line ?caller - line_of r < INT_MAX" if "r \<in> set ?refs" for r
    using assms(1) that by (auto simp: lines_fit_def)
  have cur: "se_current (setCurrentReferenceToFirstAfterCallerPosition e)
      = (if bA \<noteq> None then bA else if bB \<noteq> None then bB else Some 0)"
    using l assms(2) by (simp add: setCurrentReferenceToFirstAfterCallerPosition_def first_cell_def)
  show ?thesis
  proof (cases bA)
    case (Some i)
    with A have "i < length ?refs" "at_or_after ?caller (?refs ! i)"
      "\<forall>s\<in>set ?refs. at_or_after ?caller s \<longrightarrow> line_of (?refs ! i) \<le> line_of s"
      by (auto simp: found_nearest_def)
    with Some cur show ?thesis by (auto simp: nearest_to_def)
  next
    case None
    with A fit(1) have no: "\<not> (\<exists>s\<in>set ?refs. at_or_after ?caller s)"
      by (auto simp: found_nearest_def not_less [symmetric])
    show ?thesis
    proof (cases bB)
      case (Some i)
      with B have "i < length ?refs" "before_caller ?caller (?refs ! i)"
        "\<forall>s\<in>set ?refs. before_caller ?caller s \<longrightarrow> line_of s \<le> line_of (?refs ! i)"
        by (auto simp: found_nearest_def)
      with Some None cur no show ?thesis by (auto simp: nearest_to_def)
    next
      case None
      with B fit(2) have "\<not> (\<exists>s\<in>set ?refs. before_caller ?caller s)"
        by (auto simp: found_nearest_def not_less [symmetric])
      with None \<open>bA = None\<close> cur no assms(2) show ?thesis by (auto simp: nearest_to_def)
    qed
  qed
qed


section \<open>Restoring the current reference\<close>

abbreviation visible_at :: "usage \<Rightarrow> position \<Rightarrow> reference \<Rightarrow> bool" where
  "visible_at f pos r \<equiv> ref_usage r < f \<and> ref_position r = pos"

abbreviation visible_in :: "usage \<Rightarrow> int \<Rightarrow> reference \<Rightarrow> bool" where
  "visible_in f fileNumber r \<equiv> ref_usage r < f \<and> pos_file (ref_position r) = fileNumber"

abbreviation line_distance :: "position \<Rightarrow> reference \<Rightarrow> int" where
  "line_distance pos r \<equiv> abs (line_of r - pos_line pos)"

lemma position_fields:
  "p = q \<longleftrightarrow> pos_file p = pos_file q \<and> pos_line p = pos_line q \<and> pos_col p = pos_col q" for p q :: position
  by (cases p; cases q) simp

lemma nearest_loop_exact:
  "\<exists>r\<in>set rs. visible_at f saved r \<Longrightarrow>
     \<exists>i<length rs. nearest_loop f saved c fv nf d rs = Some (c + i) \<and> visible_at f saved (rs ! i)"
proof (induction f saved c fv nf d rs rule: nearest_loop.induct)
  case (2 f saved c fv nf d r rs)
  have ih: "\<exists>i<length (r # rs). Some (Suc c + j) = Some (c + i) \<and> visible_at f saved ((r # rs) ! i)"
    if "j < length rs" "visible_at f saved (rs ! j)" for j
    using that by (intro exI [of _ "Suc j"]) simp
  show ?case
  proof (cases "visible_at f saved r")
    case True
    then show ?thesis by (intro exI [of _ 0]) (simp add: Let_def)
  next
    case False
    with 2(5) have in_rs: "\<exists>r\<in>set rs. visible_at f saved r" by auto
    consider "\<not> ref_usage r < f" | "ref_usage r < f" "pos_file (ref_position r) = pos_file saved"
      | "ref_usage r < f" "pos_file (ref_position r) \<noteq> pos_file saved" by blast
    then show ?thesis
    proof cases
      case 1
      with 2(1) in_rs obtain j where j: "j < length rs" "visible_at f saved (rs ! j)"
        and l: "nearest_loop f saved (Suc c) fv nf d rs = Some (Suc c + j)" by auto
      with 1 have "nearest_loop f saved c fv nf d (r # rs) = Some (Suc c + j)" by simp
      with ih [OF j] show ?thesis by metis
    next
      case f: 2
      then have n: "\<not> (pos_line (ref_position r) = pos_line saved \<and> pos_col (ref_position r) = pos_col saved)"
        using False by (auto simp: position_fields)
      let ?fv = "if fv = None then Some c else fv"
      show ?thesis
      proof (cases "line_distance saved r < d")
        case True
        with 2(2) [OF _ refl refl f(2) n refl True] f in_rs obtain j where j: "j < length rs" "visible_at f saved (rs ! j)"
          and l: "nearest_loop f saved (Suc c) ?fv (Some c) (line_distance saved r) rs = Some (Suc c + j)" by auto
        with f n True have "nearest_loop f saved c fv nf d (r # rs) = Some (Suc c + j)" by (simp add: Let_def)
        with ih [OF j] show ?thesis by metis
      next
        case far: False
        with 2(3) [OF _ refl refl f(2) n refl far] f in_rs obtain j where j: "j < length rs" "visible_at f saved (rs ! j)"
          and l: "nearest_loop f saved (Suc c) ?fv nf d rs = Some (Suc c + j)" by auto
        with f n far have "nearest_loop f saved c fv nf d (r # rs) = Some (Suc c + j)" by (simp add: Let_def)
        with ih [OF j] show ?thesis by metis
      qed
    next
      case f: 3
      with 2(4) [OF _ refl refl f(2)] in_rs obtain j where j: "j < length rs" "visible_at f saved (rs ! j)"
        and l: "nearest_loop f saved (Suc c) (if fv = None then Some c else fv) nf d rs = Some (Suc c + j)" by auto
      with f have "nearest_loop f saved c fv nf d (r # rs) = Some (Suc c + j)" by (simp add: Let_def)
      with ih [OF j] show ?thesis by metis
    qed
  qed
qed simp

lemma nearest_loop_steps:
  "\<not> ref_usage r < f \<Longrightarrow> nearest_loop f saved c fv nf d (r # rs) = nearest_loop f saved (Suc c) fv nf d rs"
  "ref_usage r < f \<Longrightarrow> pos_file (ref_position r) \<noteq> pos_file saved \<Longrightarrow>
     nearest_loop f saved c fv nf d (r # rs) = nearest_loop f saved (Suc c) (if fv = None then Some c else fv) nf d rs"
  "ref_usage r < f \<Longrightarrow> pos_file (ref_position r) = pos_file saved \<Longrightarrow> ref_position r \<noteq> saved \<Longrightarrow>
     nearest_loop f saved c fv nf d (r # rs)
       = (if line_distance saved r < d
          then nearest_loop f saved (Suc c) (if fv = None then Some c else fv) (Some c) (line_distance saved r) rs
          else nearest_loop f saved (Suc c) (if fv = None then Some c else fv) nf d rs)"
  by (auto simp: Let_def position_fields)

lemma first_visible_step:
  "ref_usage r < f \<Longrightarrow>
     (if found \<noteq> None then found else if (if fv = None then Some c else fv) \<noteq> None then (if fv = None then Some c else fv) else x)
       = (if found \<noteq> None then found else if fv \<noteq> None then fv else skip_hidden f c (r # rs))"
  "\<not> ref_usage r < f \<Longrightarrow> skip_hidden f c (r # rs) = skip_hidden f (Suc c) rs"
  by auto

lemma nearest_loop_near:
  "\<not> (\<exists>r\<in>set rs. visible_at f saved r) \<Longrightarrow>
     \<exists>found. found_nearest (visible_in f (pos_file saved)) (line_distance saved) c nf d rs found
       \<and> nearest_loop f saved c fv nf d rs
         = (if found \<noteq> None then found else if fv \<noteq> None then fv else skip_hidden f c rs)"
proof (induction f saved c fv nf d rs rule: nearest_loop.induct)
  case 1
  then show ?case by (simp add: found_nearest_def)
next
  case (2 f saved c fv nf d r rs)
  let ?P = "visible_in f (pos_file saved)" and ?D = "line_distance saved"
  from 2(5) have in_rs: "\<not> (\<exists>r\<in>set rs. visible_at f saved r)" and r: "\<not> visible_at f saved r" by auto
  let ?fv = "if fv = None then Some c else fv"
  consider "\<not> ref_usage r < f" | "ref_usage r < f" "pos_file (ref_position r) = pos_file saved"
    | "ref_usage r < f" "pos_file (ref_position r) \<noteq> pos_file saved" by blast
  then show ?case
  proof cases
    case 1
    with 2(1) in_rs obtain found where "found_nearest ?P ?D (Suc c) nf d rs found"
      "nearest_loop f saved (Suc c) fv nf d rs = (if found \<noteq> None then found else if fv \<noteq> None then fv else skip_hidden f (Suc c) rs)"
      by auto
    moreover from this(1) 1 have "found_nearest ?P ?D c nf d (r # rs) found" by (intro found_nearest_skip) simp_all
    ultimately show ?thesis
      unfolding nearest_loop_steps(1) [OF 1] first_visible_step(2) [OF 1] by (intro exI [of _ found] conjI)
  next
    case f: 2
    then have n: "\<not> (pos_line (ref_position r) = pos_line saved \<and> pos_col (ref_position r) = pos_col saved)"
      and np: "ref_position r \<noteq> saved"
      using r by (auto simp: position_fields)
    show ?thesis
    proof (cases "?D r < d")
      case True
      with 2(2) [OF _ refl refl f(2) n refl True] f in_rs obtain found where
        fn: "found_nearest ?P ?D (Suc c) (Some c) (?D r) rs found"
        and l: "nearest_loop f saved (Suc c) ?fv (Some c) (?D r) rs
          = (if found \<noteq> None then found else if ?fv \<noteq> None then ?fv else skip_hidden f (Suc c) rs)" by auto
      from found_nearest_take [OF fn _ True] f have "found_nearest ?P ?D c nf d (r # rs) found" by simp
      then show ?thesis unfolding nearest_loop_steps(3) [OF f np] if_P [OF True] l first_visible_step(1) [OF f(1), of found fv c _ rs]
        by (intro exI [of _ found] conjI refl)
    next
      case far: False
      with 2(3) [OF _ refl refl f(2) n refl far] f in_rs obtain found where
        fn: "found_nearest ?P ?D (Suc c) nf d rs found"
        and l: "nearest_loop f saved (Suc c) ?fv nf d rs
          = (if found \<noteq> None then found else if ?fv \<noteq> None then ?fv else skip_hidden f (Suc c) rs)" by auto
      from found_nearest_skip [OF fn] far have "found_nearest ?P ?D c nf d (r # rs) found" by simp
      then show ?thesis unfolding nearest_loop_steps(3) [OF f np] if_not_P [OF far] l first_visible_step(1) [OF f(1), of found fv c _ rs]
        by (intro exI [of _ found] conjI refl)
    qed
  next
    case f: 3
    with 2(4) [OF _ refl refl f(2)] in_rs obtain found where
      fn: "found_nearest ?P ?D (Suc c) nf d rs found"
      and l: "nearest_loop f saved (Suc c) ?fv nf d rs
        = (if found \<noteq> None then found else if ?fv \<noteq> None then ?fv else skip_hidden f (Suc c) rs)" by auto
    from found_nearest_skip [OF fn] f have "found_nearest ?P ?D c nf d (r # rs) found" by simp
    then show ?thesis unfolding nearest_loop_steps(2) [OF f] l first_visible_step(1) [OF f(1), of found fv c _ rs]
      by (intro exI [of _ found] conjI refl)
  qed
qed

text \<open>C40: After a refresh the current reference is the visible one at the saved position, if there is one;
  otherwise the nearest visible one in its file by line, and otherwise the first visible one.\<close>

theorem restored_to_nearest:
  assumes fit: "\<forall>r\<in>set (se_references e). line_distance saved r < INT_MAX"
  shows "let refs = se_references e; current = se_current (restoreToNearestReference e saved f) in
    if \<exists>r\<in>set refs. visible_at f saved r
    then \<exists>c<length refs. current = Some c \<and> visible_at f saved (refs ! c)
    else if \<exists>r\<in>set refs. visible_in f (pos_file saved) r
    then \<exists>c<length refs. current = Some c \<and> visible_in f (pos_file saved) (refs ! c)
      \<and> (\<forall>r\<in>set refs. visible_in f (pos_file saved) r \<longrightarrow> line_distance saved (refs ! c) \<le> line_distance saved r)
    else current = (case visible_cells f refs of [] \<Rightarrow> None | c # _ \<Rightarrow> Some c)"
proof (cases "\<exists>r\<in>set (se_references e). visible_at f saved r")
  case True
  from nearest_loop_exact [OF True, of 0 None None INT_MAX] True show ?thesis
    by (auto simp: restoreToNearestReference_def)
next
  case False
  from nearest_loop_near [OF False, of 0 None INT_MAX None] obtain found where
    fn: "found_nearest (visible_in f (pos_file saved)) (line_distance saved) 0 None INT_MAX (se_references e) found"
    and l: "nearest_loop f saved 0 None None INT_MAX (se_references e)
      = (if found \<noteq> None then found else skip_hidden f 0 (se_references e))" by auto
  have first: "skip_hidden f 0 (se_references e) = (case visible_cells f (se_references e) of [] \<Rightarrow> None | c # _ \<Rightarrow> Some c)"
    using skip_hidden_cells [of 0 "se_references e" f] by simp
  show ?thesis
  proof (cases found)
    case None
    with fn fit have no: "\<not> (\<exists>r\<in>set (se_references e). visible_in f (pos_file saved) r)"
      unfolding found_nearest_def by (auto simp: not_less [symmetric])
    from None l first have "se_current (restoreToNearestReference e saved f)
        = (case visible_cells f (se_references e) of [] \<Rightarrow> None | c # _ \<Rightarrow> Some c)"
      by (simp add: restoreToNearestReference_def)
    then show ?thesis by (simp only: Let_def if_not_P [OF False] if_not_P [OF no])
  next
    case (Some c)
    with fn have "c < length (se_references e)" "visible_in f (pos_file saved) (se_references e ! c)"
      "\<forall>r\<in>set (se_references e). visible_in f (pos_file saved) r \<longrightarrow> line_distance saved (se_references e ! c) \<le> line_distance saved r"
      by (auto simp: found_nearest_def)
    moreover from this have "\<exists>r\<in>set (se_references e). visible_in f (pos_file saved) r" using nth_mem by blast
    ultimately show ?thesis using False Some l by (auto simp: restoreToNearestReference_def Let_def)
  qed
qed

section \<open>An example session\<close>

definition example_menu_item :: browsingMenu where
  "example_menu_item = (makeBrowsingMenu example_item True True 0 UsageUsed UsageDefined (Position 1 2 3))"

definition example_session :: sessionEntry where
  "example_session = (newEmptySessionStackEntry 0 OP_BROWSE_PUSH)
     \<lparr>se_callerPosition := Position 1 1 0, se_menu := [example_menu_item],
      se_references := ri_references example_item, se_current := Some 0\<rparr>"

definition example_navigation :: navigation where
  "example_navigation =
     \<lparr>nv_entry = example_session,
      nv_files = \<lparr>tab_numberOfElements = 2, tab_size = 3,
                  tab_tab = [None, Some (fillFileItem ''a.c''), Some (fillFileItem ''b.c'')]\<rparr>,
      nv_ppc = \<lparr>ppc_indentOffset = 0, ppc_outputFile = [], ppc_stdout = []\<rparr>\<rparr>"

lemmas example_defs = example_session_def example_item_def example_menu_item_def makeReference_def
  newEmptySessionStackEntry_def

lemma example_cells: "visible_cells UsageMaxOnLineVisibleUsages (ri_references example_item) = [0, 1]"
  by (simp add: visible_cells_def example_item_def makeReference_def less_usage_def upt_rec)

lemma example_filter: "usage_filter example_session = UsageMaxOnLineVisibleUsages"
  by (simp add: usage_filter_def usageFilterLevels_def example_defs DEFAULT_REFS_FILTER_LEVEL_def ReferenceFilterAll_def)

lemma example_at: "at_visible (nv_entry example_navigation) 0"
  by (simp add: at_visible_def example_navigation_def example_filter Let_def) (simp add: example_session_def example_cells)

lemma example_settled: "settled 1 example_navigation"
  by (simp add: settled_def example_navigation_def example_defs needs_refresh_def getFileItemWithFileNumber_def
      fillFileItem_def)

theorem next_previous_roundtrip_witness:
  "\<exists>nv1 nv2. gotoNextReference 0 \<lparr>hl_size = 1, hl_tab = [[]]\<rparr> 1 True example_navigation = Some nv1
     \<and> gotoPreviousReference 0 \<lparr>hl_size = 1, hl_tab = [[]]\<rparr> 1 True nv1 = Some nv2
     \<and> nv_entry nv2 = example_session"
  using next_previous_roundtrip [OF example_settled example_at, of 0 "\<lparr>hl_size = 1, hl_tab = [[]]\<rparr>" True]
  by (auto simp: example_navigation_def)

theorem next_reaches_every_reference_witness:
  "\<exists>j nv'. ((\<lambda>x. Option.bind x (gotoNextReference 0 \<lparr>hl_size = 1, hl_tab = [[]]\<rparr> 1 True)) ^^ j) (Some example_navigation)
     = Some nv' \<and> se_current (nv_entry nv') = Some 1"
proof -
  have "1 < length (se_references (nv_entry example_navigation))"
    "isMoreImportantUsageThan (ref_usage (se_references (nv_entry example_navigation) ! 1)) (usage_filter (nv_entry example_navigation))"
    by (simp_all add: example_navigation_def example_filter) (simp_all add: example_defs less_usage_def)
  from next_reaches_every_reference [OF example_settled example_at this, of 0 "\<lparr>hl_size = 1, hl_tab = [[]]\<rparr>" True]
  show ?thesis by blast
qed


theorem restored_to_nearest_witness:
  "\<exists>c. se_current (restoreToNearestReference example_session (Position 2 9 0) UsageMaxOnLineVisibleUsages) = Some c
     \<and> ref_position (se_references example_session ! c) = Position 2 4 0"
proof -
  have "\<forall>r\<in>set (se_references example_session). line_distance (Position 2 9 0) r < INT_MAX"
    by (simp add: example_defs INT_MAX_def)
  from restored_to_nearest [OF this, of UsageMaxOnLineVisibleUsages] show ?thesis
    by (auto simp: example_defs less_usage_def Let_def less_Suc_eq)
qed

end
