(* ===== verification/Messages.thy ===== *)
theory Messages
  imports Ppc
begin

text \<open>
  Models the messages of \<^verbatim>\<open>commons.c\<close>: how they are worded, when they are silenced, and the two ways the
  process ends with one. What is only logged is left out. The text \<open>strerror\<close> gives for the last error of
  the system is a parameter.
\<close>

datatype errorCode =
    ERR_ST | ERR_CANT_OPEN | ERR_CANT_OPEN_FOR_READ | ERR_CANT_OPEN_FOR_WRITE | ERR_NO_MEMORY
  | ERR_INTERNAL | ERR_INTERNAL_CHECK | ERR_CFG

definition PPC_ERROR :: string where "PPC_ERROR = ''error''"
definition PPC_FATAL_ERROR :: string where "PPC_FATAL_ERROR = ''fatalError''"
definition PPC_INFORMATION :: string where "PPC_INFORMATION = ''information''"
definition PPC_LOG :: string where "PPC_LOG = ''log''"
definition PPC_ANALYSING :: string where "PPC_ANALYSING = ''analysing''"

fun formatMessage :: "int list \<Rightarrow> errorCode \<Rightarrow> int list \<Rightarrow> int list" where
  "formatMessage strerror ERR_CANT_OPEN message = str_bytes ''Can't open file '' @ message @ str_bytes '' : '' @ strerror"
| "formatMessage strerror ERR_CANT_OPEN_FOR_READ message =
     str_bytes ''Can't open file '' @ message @ str_bytes '' for reading : '' @ strerror"
| "formatMessage strerror ERR_CANT_OPEN_FOR_WRITE message =
     str_bytes ''Can't open file '' @ message @ str_bytes '' for writing : '' @ strerror"
| "formatMessage strerror ERR_NO_MEMORY message =
     str_bytes ''Memory '' @ message @ str_bytes '' overflowed, read TROUBLES section of README file.''"
| "formatMessage strerror ERR_INTERNAL message = str_bytes ''Internal error, '' @ message"
| "formatMessage strerror ERR_INTERNAL_CHECK message = str_bytes ''Internal check '' @ message @ str_bytes '' failed''"
| "formatMessage strerror ERR_CFG message = str_bytes ''Problem while reading config record '' @ message"
| "formatMessage strerror ERR_ST message = message"

section \<open>Silence\<close>

text \<open>The settings that decide what is sent, and how deep the silence is.\<close>

record messages =
  ms_cxrefProtocol :: bool
  ms_errors :: bool
  ms_silenceDepth :: int
  ms_strerror :: "int list"

definition messagesAreSilenced :: "messages \<Rightarrow> bool" where
  "messagesAreSilenced ms \<longleftrightarrow> ms_silenceDepth ms > 0"

definition silenceMessages :: "messages \<Rightarrow> messages" where
  "silenceMessages ms = ms\<lparr>ms_silenceDepth := ms_silenceDepth ms + 1\<rparr>"

definition resumeMessages :: "messages \<Rightarrow> messages option" where
  "resumeMessages ms = (if ms_silenceDepth ms > 0 then Some (ms\<lparr>ms_silenceDepth := ms_silenceDepth ms - 1\<rparr>) else None)"

definition warningMessage :: "messages \<Rightarrow> errorCode \<Rightarrow> int list \<Rightarrow> ppc \<Rightarrow> ppc option" where
  "warningMessage ms errCode message p =
     (if messagesAreSilenced ms then Some p
      else if ms_cxrefProtocol ms
      then ppcGenRecord PPC_WARNING (formatMessage (ms_strerror ms) errCode message @ [10]) p
      else Some p)"

definition sendsParsingMessages :: "messages \<Rightarrow> bool" where
  "sendsParsingMessages ms \<longleftrightarrow> ms_cxrefProtocol ms \<and> ms_errors ms"

definition announceAnalysing :: "messages \<Rightarrow> string \<Rightarrow> ppc \<Rightarrow> ppc option" where
  "announceAnalysing ms fileName p =
     (if messagesAreSilenced ms then Some p
      else if sendsParsingMessages ms then ppcGenRecord PPC_ANALYSING (str_bytes fileName) p
      else Some p)"

text \<open>A position in no file of the table ends the process.\<close>

definition parsingMessageAt ::
  "messages \<Rightarrow> file_table \<Rightarrow> position \<Rightarrow> errorCode \<Rightarrow> int list \<Rightarrow> ppc \<Rightarrow> ppc option" where
  "parsingMessageAt ms files position errCode message p =
     (if messagesAreSilenced ms then Some p
      else do {
        item \<leftarrow> (if pos_file position < 0 then None else getFileItemWithFileNumber files (nat (pos_file position)));
        let buffer = str_bytes (fi_name item) @ [58] @ printf_d (pos_line position) @ [58] @ printf_d (pos_col position + 1)
                     @ [58, 32] @ formatMessage (ms_strerror ms) errCode message;
        if sendsParsingMessages ms then ppcGenRecord PPC_LOG (buffer @ [10]) p else Some p
      })"

definition writeErrorMessage :: "messages \<Rightarrow> errorCode \<Rightarrow> int list \<Rightarrow> ppc \<Rightarrow> ppc option" where
  "writeErrorMessage ms errCode message p =
     (if ms_cxrefProtocol ms
      then ppcGenRecord PPC_ERROR (formatMessage (ms_strerror ms) errCode message @ [10]) p
      else Some p)"

definition errorMessage :: "messages \<Rightarrow> errorCode \<Rightarrow> int list \<Rightarrow> ppc \<Rightarrow> ppc option" where
  "errorMessage ms errCode message p =
     (if messagesAreSilenced ms then Some p else writeErrorMessage ms errCode message p)"

section \<open>Ending the process\<close>

text \<open>The result is what has been written when the process ends.\<close>

definition emergencyExit :: "messages \<Rightarrow> ppc \<Rightarrow> ppc" where
  "emergencyExit ms p = (if ms_cxrefProtocol ms then ppcSynchronize p else p)"

definition fatalError :: "messages \<Rightarrow> errorCode \<Rightarrow> int list \<Rightarrow> ppc \<Rightarrow> ppc option" where
  "fatalError ms errCode message p =
     map_option (emergencyExit ms)
       (if ms_cxrefProtocol ms
        then ppcGenRecord PPC_FATAL_ERROR (formatMessage (ms_strerror ms) errCode message) p else Some p)"

text \<open>Without the protocol the closing words go to the error output, which is the output file.\<close>

definition internalCheckFail :: "messages \<Rightarrow> int list \<Rightarrow> string \<Rightarrow> int \<Rightarrow> ppc \<Rightarrow> ppc option" where
  "internalCheckFail ms expr sourceFile line p =
     (let msg = [39] @ expr @ [39] @ str_bytes '' is not true in '' @ [39] @ str_bytes sourceFile @ [58] @ printf_d line @ [39] in do {
        p1 \<leftarrow> writeErrorMessage ms ERR_INTERNAL_CHECK msg p;
        p2 \<leftarrow> (if ms_cxrefProtocol ms then do {
                 q \<leftarrow> ppcGenRecord PPC_FATAL_ERROR msg p1;
                 q1 \<leftarrow> ppcGenRecord PPC_INFORMATION (str_bytes ''Exiting'') q;
                 Some (ppcSynchronize q1)
               } else Some (fput (9 # str_bytes '' exiting!'' @ [10]) p1));
        Some (emergencyExit ms p2)
      })"

section \<open>What is sent\<close>

definition sync_tag :: "int list" where
  "sync_tag = [60] @ str_bytes PPC_SYNCHRO_RECORD @ [62, 10]"

lemma synchronize_fields [simp]:
  "ppc_outputFile (ppcSynchronize p) = ppc_outputFile p" "ppc_stdout (ppcSynchronize p) = ppc_stdout p @ sync_tag"
  by (simp_all add: ppcSynchronize_def sync_tag_def)

lemma record_stdout: "ppcGenRecord kind message p = Some p' \<Longrightarrow> ppc_stdout p' = ppc_stdout p"
  by (auto simp: ppcGenRecord_def fput_def ppcIndent_def split: if_splits)


text \<open>A failed check synchronises twice: before it exits, and when it does.\<close>

lemma internal_check_synchronises_twice:
  assumes "ms_cxrefProtocol ms" and "internalCheckFail ms expr sourceFile line p = Some p'"
  shows "ppc_stdout p' = ppc_stdout p @ sync_tag @ sync_tag"
  using assms
  by (auto simp: internalCheckFail_def writeErrorMessage_def emergencyExit_def Let_def bind_eq_Some_conv record_stdout)

definition example_messages :: messages where
  "example_messages = \<lparr>ms_cxrefProtocol = True, ms_errors = True, ms_silenceDepth = 0, ms_strerror = []\<rparr>"


end
