(* ===== verification/Selection.thy ===== *)
theory Selection
  imports Navigation Messages
begin

text \<open>
  Models the functions of \<^verbatim>\<open>cxref.c\<close> that make the menu of a session from the items of the table, decide
  whether to show it, find unused symbols, and check the references after a refactoring.
\<close>

section \<open>Which entries are shown\<close>

datatype resolveDialog = RESOLVE_DIALOG_DEFAULT | RESOLVE_DIALOG_ALWAYS | RESOLVE_DIALOG_NEVER

definition isRenameMenuSelection :: "serverOperation \<Rightarrow> resolveDialog \<Rightarrow> bool" where
  "isRenameMenuSelection command manualResolve \<longleftrightarrow>
     command = OP_INTERNAL_PUSH_FOR_RENAME
     \<or> command = OP_INTERNAL_PUSH_FOR_ARGUMENT_MANIPULATION
     \<or> command = OP_INTERNAL_PUSH_FOR_USAGE_CHECK
     \<or> command = OP_INTERNAL_SAFETY_CHECK
     \<or> manualResolve = RESOLVE_DIALOG_NEVER"

definition setSelectedVisibleItems ::
  "browsingMenu list \<Rightarrow> serverOperation \<Rightarrow> resolveDialog \<Rightarrow> int \<Rightarrow> browsingMenu list" where
  "setSelectedVisibleItems menu command manualResolve filterLevel =
     (if command = OP_UNUSED_IN_PROJECT
      then fst (splitBrowsingMenuAndMap menu (\<lambda>group s. (selectUnusedSymbols filterLevel group, s)) ())
      else if command = OP_BROWSE_PUSH_NAME then setDefaultSelectedVisibleItems menu 0 0
      else if isRenameMenuSelection command manualResolve
      then setDefaultSelectedVisibleItems menu RENAME_FILTER_LEVEL RENAME_SELECTION_FILTER
      else setDefaultSelectedVisibleItems menu (menuFilterLevels ! nat filterLevel) DEFAULT_SELECTION_FILTER)"

text \<open>The name without the mark and the character behind it; without one behind it the code reads past the name.\<close>

definition without_collation :: "string \<Rightarrow> string option" where
  "without_collation name =
     (let before = takeWhile (\<lambda>c. c \<noteq> CHR ''#'') name; cs = dropWhile (\<lambda>c. c \<noteq> CHR ''#'') name in
      if length name < 2 \<or> length cs < 2 then None else Some (before @ drop 2 cs))"

definition rename_collation :: "browsingMenu \<Rightarrow> browsingMenu option" where
  "rename_collation m =
     (let item = bm_referenceable m in
      if CHR ''#'' \<in> set (ri_linkName item) \<and> ri_type item = TypeCppCollate
      then map_option (\<lambda>newName. m\<lparr>bm_referenceable := item\<lparr>ri_linkName := newName\<rparr>\<rparr>) (without_collation (ri_linkName item))
      else Some m)"

definition renameCollationSymbols :: "browsingMenu list \<Rightarrow> browsingMenu list option" where
  "renameCollationSymbols menu =
     (if menu = [] then None
      else fold (\<lambda>m done. do { ms \<leftarrow> done; m1 \<leftarrow> rename_collation m; Some (ms @ [m1]) }) menu (Some []))"

section \<open>Finding the entry of an item\<close>

datatype checkSelected = DO_NOT_CHECK_IF_SELECTED | CHECK_IF_SELECTED

text \<open>How good the match is, and the number of the entry.\<close>

fun matching_item_loop ::
  "referenceableItem \<Rightarrow> checkSelected \<Rightarrow> nat \<Rightarrow> browsingMenu list \<Rightarrow> int \<times> nat option" where
  "matching_item_loop item checkSelectedFlag c [] = (0, None)"
| "matching_item_loop item checkSelectedFlag c (m # ms) =
     (if (bm_selected m \<or> checkSelectedFlag = DO_NOT_CHECK_IF_SELECTED) \<and> isSameReferenceableItem item (bm_referenceable m)
      then (if isBestFitMatch m then 2 else 1, Some c)
      else matching_item_loop item checkSelectedFlag (Suc c) ms)"

definition findMatchingBrowsingMenuItem ::
  "referenceableItem \<Rightarrow> sessionEntry \<Rightarrow> checkSelected \<Rightarrow> int \<times> nat option" where
  "findMatchingBrowsingMenuItem item stackEntry checkSelectedFlag =
     matching_item_loop item checkSelectedFlag 0 (se_menu stackEntry)"

definition addReferencesToMatchingMenuItem :: "referenceableItem \<Rightarrow> sessionEntry \<Rightarrow> sessionEntry" where
  "addReferencesToMatchingMenuItem item entry =
     (case findMatchingBrowsingMenuItem item entry DO_NOT_CHECK_IF_SELECTED of
        (ols, Some c) \<Rightarrow>
          if ols > 0
          then entry\<lparr>se_menu := (se_menu entry)[c := fold (\<lambda>r menu. addReferenceToBrowsingMenu menu r) (ri_references item)
                                                    (se_menu entry ! c)]\<rparr>
          else entry
      | (ols, None) \<Rightarrow> entry)"

section \<open>Making the menu\<close>

record selection =
  sel_found :: bool
  sel_level :: int
  sel_relation :: bool
  sel_defaultPosition :: position
  sel_defaultUsage :: usage

definition compare_candidate :: "int \<Rightarrow> referenceableItem \<Rightarrow> browsingMenu \<Rightarrow> selection option \<Rightarrow> selection option" where
  "compare_candidate noFile reference menu sel = do {
     s \<leftarrow> sel;
     if haveSameBareName reference (bm_referenceable menu) then do {
       l \<leftarrow> filterLevelFromMenu menu reference;
       r \<leftarrow> computeSymbolRelation menu reference;
       let s1 = s\<lparr>sel_found := True, sel_level := filterLevelMax l (sel_level s)\<rparr>;
       let s2 = (if pos_file (sel_defaultPosition s1) = noFile
                 then s1\<lparr>sel_defaultPosition := bm_defaultPosition menu, sel_defaultUsage := bm_defaultUsage menu\<rparr>
                 else s1);
       Some (s2\<lparr>sel_relation := accumulateSymbolRelation (sel_relation s2) r\<rparr>)
     } else Some s
   }"

definition createSelectionMenu ::
  "int \<Rightarrow> file_table \<Rightarrow> referenceableItem \<Rightarrow> sessionEntry \<Rightarrow> sessionEntry option" where
  "createSelectionMenu noFile files reference rstack = do {
     s \<leftarrow> fold (compare_candidate noFile reference) (se_hkSelectedSym rstack)
            (Some \<lparr>sel_found = False, sel_level = 0, sel_relation = False,
                   sel_defaultPosition = noPosition noFile, sel_defaultUsage = UsageNone\<rparr>);
     if sel_found s then do {
       (_, menu) \<leftarrow> addReferenceableToBrowsingMenu files noFile (se_menu rstack) reference False False (sel_level s)
                      (sel_relation s) USAGE_ANY (sel_defaultPosition s) (sel_defaultUsage s);
       Some (rstack\<lparr>se_menu := menu\<rparr>)
     } else Some rstack
   }"

definition createSelectionMenuForOperation ::
  "int \<Rightarrow> file_table \<Rightarrow> item_table \<Rightarrow> resolveDialog \<Rightarrow> serverOperation \<Rightarrow> sessionEntry \<Rightarrow> sessionEntry option" where
  "createSelectionMenuForOperation noFile files items manualResolve operation rstack =
     (if se_hkSelectedSym rstack = [] then Some rstack
      else do {
        candidates \<leftarrow> renameCollationSymbols (se_hkSelectedSym rstack);
        r1 \<leftarrow> mapOverReferenceableItemTable items (\<lambda>r e. Option.bind e (createSelectionMenu noFile files r))
               (Some (rstack\<lparr>se_hkSelectedSym := candidates\<rparr>));
        let r2 = mapOverReferenceableItemTable items addReferencesToMatchingMenuItem r1;
        let r3 = r2\<lparr>se_menu := setSelectedVisibleItems (se_menu r2) operation manualResolve (se_menuFilterLevel r2)\<rparr>;
        if se_references r3 \<noteq> [] then None else Some (processSelectedReferences files genOnLineReferences r3)
      })"

definition createSpecialMenuItem :: "int \<Rightarrow> string \<Rightarrow> int \<Rightarrow> storage \<Rightarrow> browsingMenu option" where
  "createSpecialMenuItem noFile fieldName includedFileNumber storage = do {
     r \<leftarrow> makeReferenceableItem noFile fieldName TypeDefault storage VisibilityGlobal includedFileNumber;
     createNewMenuItem noFile r (ri_includeFileNumber r) (noPosition noFile) UsageNone True True FILE_MATCH_SAME True UsageUsed
   }"

definition olcxPushSpecialCheckMenuSym :: "int \<Rightarrow> serverOperation \<Rightarrow> string \<Rightarrow> sessionStack \<Rightarrow> sessionStack option" where
  "olcxPushSpecialCheckMenuSym noFile operation symname stack =
     (let stack1 = pushEmptySession noFile operation stack in do {
        rstack \<leftarrow> top_entry stack1;
        item \<leftarrow> createSpecialMenuItem noFile symname noFile StorageDefault;
        Some (set_top_entry (rstack\<lparr>se_hkSelectedSym := [item], se_menu := [item]\<rparr>) stack1)
      })"

definition pushSymbolByName :: "int \<Rightarrow> string \<Rightarrow> position \<Rightarrow> sessionEntry \<Rightarrow> sessionEntry option" where
  "pushSymbolByName noFile name callerPosition rstack = do {
     item \<leftarrow> createSpecialMenuItem noFile name noFile StorageDefault;
     Some (rstack\<lparr>se_hkSelectedSym := [item], se_callerPosition := callerPosition\<rparr>)
   }"

section \<open>Whether to show the menu\<close>

definition haveBrowsingMenu :: "sessionStack \<Rightarrow> bool option" where
  "haveBrowsingMenu stack = map_option (\<lambda>e. se_menu e \<noteq> []) (top_entry stack)"

fun firstVisibleSymbol :: "browsingMenu list \<Rightarrow> browsingMenu option" where
  "firstVisibleSymbol [] = None"
| "firstVisibleSymbol (m # ms) = (if bm_visible m then Some m else firstVisibleSymbol ms)"

fun different_selected :: "browsingMenu option \<Rightarrow> browsingMenu list \<Rightarrow> bool" where
  "different_selected first [] = False"
| "different_selected first (ss # rest) =
     (if bm_selected ss
      then (case first of
              None \<Rightarrow> different_selected (Some ss) rest
            | Some f \<Rightarrow> if \<not> isSameReferenceableItem (bm_referenceable f) (bm_referenceable ss) then True
                        else different_selected first rest)
      else different_selected first rest)"

fun two_visible :: "browsingMenu option \<Rightarrow> browsingMenu list \<Rightarrow> bool" where
  "two_visible first [] = False"
| "two_visible first (m # ms) =
     (if bm_visible m then (if first \<noteq> None then True else two_visible (Some m) ms) else two_visible first ms)"

definition showSelectionMenu :: "serverOperation \<Rightarrow> sessionStack \<Rightarrow> bool option" where
  "showSelectionMenu operation stack = do {
     top \<leftarrow> top_entry stack;
     if operation = OP_INTERNAL_PUSH_FOR_USAGE_CHECK then Some False
     else if operation = OP_INTERNAL_SAFETY_CHECK then Some False
     else if se_menu top = [] then Some False
     else if firstVisibleSymbol (se_menu top) = None then Some False
     else if operation = OP_BROWSE_PUSH \<or> operation = OP_BROWSE_PUSH_ONLY \<or> operation = OP_BROWSE_PUSH_AND_CALL_MACRO
       \<or> operation = OP_INTERNAL_PUSH_FOR_RENAME \<or> operation = OP_INTERNAL_PUSH_FOR_ARGUMENT_MANIPULATION
     then Some (different_selected None (se_menu top))
     else Some (two_visible None (se_menu top))
   }"

section \<open>Unused symbols\<close>

definition PPC_DISPLAY_OR_UPDATE_BROWSER :: string where
  "PPC_DISPLAY_OR_UPDATE_BROWSER = ''display-or-update-browser''"

fun local_unused_loop :: "int \<Rightarrow> reference option \<Rightarrow> reference list \<Rightarrow> bool \<times> reference option" where
  "local_unused_loop currentFile definitionReference [] = (False, definitionReference)"
| "local_unused_loop currentFile definitionReference (r # rs) =
     (if isDefinitionOrDeclarationUsage (ref_usage r) then
        (if pos_file (ref_position r) = currentFile
         then let d = (if isDefinitionUsage (ref_usage r) then Some r else definitionReference)
              in local_unused_loop currentFile (if d = None then Some r else d) rs
         else local_unused_loop currentFile definitionReference rs)
      else (True, definitionReference))"

definition mapAddLocalUnusedSymbolsToHkSelection ::
  "int \<Rightarrow> file_table \<Rightarrow> int \<Rightarrow> referenceableItem \<Rightarrow> sessionEntry \<Rightarrow> sessionEntry option" where
  "mapAddLocalUnusedSymbolsToHkSelection noFile files currentFile item rstack =
     (if ri_visibility item \<noteq> VisibilityLocal then Some rstack
      else (case local_unused_loop currentFile None (ri_references item) of
              (False, Some d) \<Rightarrow> do {
                (_, menu) \<leftarrow> addReferenceableToBrowsingMenu files noFile (se_hkSelectedSym rstack) item True True 0 False
                               UsageDefined (ref_position d) (ref_usage d);
                Some (rstack\<lparr>se_hkSelectedSym := menu\<rparr>)
              }
            | _ \<Rightarrow> Some rstack))"

definition isReportableAsGloballyUnused :: "referenceableItem option \<Rightarrow> bool" where
  "isReportableAsGloballyUnused item =
     (case item of
        None \<Rightarrow> False
      | Some i \<Rightarrow>
          if (case ri_linkName i of c # _ \<Rightarrow> c = CHR '' '' | [] \<Rightarrow> False) then False
          else if ri_type i = TypeStruct then False
          else if ri_type i = TypeMacro then False
          else True)"

text \<open>A reference in a file without an item, whose name the code reads, ends the process.\<close>

fun global_unused_loop ::
  "(int \<Rightarrow> bool option) \<Rightarrow> bool \<Rightarrow> reference option \<Rightarrow> reference list \<Rightarrow> (bool \<times> bool \<times> reference option) option" where
  "global_unused_loop in_unit isDefined definitionReference [] = Some (isDefined, False, definitionReference)"
| "global_unused_loop in_unit isDefined definitionReference (r # rs) =
     (if \<not> isVisibleUsage (ref_usage r) then global_unused_loop in_unit isDefined definitionReference rs
      else do {
        here \<leftarrow> (if isDefinitionUsage (ref_usage r) then in_unit (pos_file (ref_position r)) else Some False);
        if here then global_unused_loop in_unit True (Some r) rs
        else if \<not> isDefinitionOrDeclarationUsage (ref_usage r) then Some (isDefined, True, definitionReference)
        else global_unused_loop in_unit isDefined definitionReference rs
      })"

definition file_is_unit :: "environment \<Rightarrow> file_table \<Rightarrow> int \<Rightarrow> bool option" where
  "file_is_unit env files fileNumber =
     (if fileNumber < 0 then None else map_option (\<lambda>item. isCompilationUnit (env_fileNamesCaseSensitive env) (env_cFilesSuffixes env) (fi_name item))
           (getFileItemWithFileNumber files (nat fileNumber)))"

definition mapAddGlobalUnusedSymbolsToHkSelection ::
  "environment \<Rightarrow> int \<Rightarrow> file_table \<Rightarrow> referenceableItem \<Rightarrow> sessionEntry \<Rightarrow> sessionEntry option" where
  "mapAddGlobalUnusedSymbolsToHkSelection env noFile files item rstack =
     (if ri_visibility item \<noteq> VisibilityGlobal then Some rstack
      else if \<not> isReportableAsGloballyUnused (Some item) then Some rstack
      else do {
        (isDefined, hasUsage, definitionReference) \<leftarrow> global_unused_loop (file_is_unit env files) False None (ri_references item);
        if isDefined \<and> \<not> hasUsage then do {
          d \<leftarrow> definitionReference;
          (_, menu) \<leftarrow> addReferenceableToBrowsingMenu files noFile (se_hkSelectedSym rstack) item True True 0 False
                         UsageDefined (ref_position d) (ref_usage d);
          Some (rstack\<lparr>se_hkSelectedSym := menu\<rparr>)
        } else Some rstack
      })"

definition pushLocalUnusedSymbolsAction ::
  "int \<Rightarrow> file_table \<Rightarrow> item_table \<Rightarrow> resolveDialog \<Rightarrow> int \<Rightarrow> serverOperation \<Rightarrow> sessionEntry \<Rightarrow> sessionEntry option" where
  "pushLocalUnusedSymbolsAction noFile files items manualResolve currentFile operation rstack =
     (if se_hkSelectedSym rstack \<noteq> [] then None
      else do {
        r1 \<leftarrow> mapOverReferenceableItemTable items
                (\<lambda>item e. Option.bind e (mapAddLocalUnusedSymbolsToHkSelection noFile files currentFile item)) (Some rstack);
        createSelectionMenuForOperation noFile files items manualResolve operation r1
      })"

definition answerPushGlobalUnusedSymbolsAction ::
  "environment \<Rightarrow> int \<Rightarrow> file_table \<Rightarrow> item_table \<Rightarrow> resolveDialog \<Rightarrow> serverOperation \<Rightarrow> sessionEntry \<Rightarrow> ppc
    \<Rightarrow> (sessionEntry \<times> ppc) option" where
  "answerPushGlobalUnusedSymbolsAction env noFile files items manualResolve operation rstack p =
     (if se_hkSelectedSym rstack \<noteq> [] then None
      else do {
        r1 \<leftarrow> mapOverReferenceableItemTable items
                (\<lambda>item e. Option.bind e (mapAddGlobalUnusedSymbolsToHkSelection env noFile files item)) (Some rstack);
        r2 \<leftarrow> createSelectionMenuForOperation noFile files items manualResolve operation r1;
        p1 \<leftarrow> ppcGenRecord PPC_DISPLAY_OR_UPDATE_BROWSER [] p;
        Some (r2, p1)
      })"

section \<open>Going to a reference of the session\<close>

fun definition_loop :: "nat \<Rightarrow> nat option \<Rightarrow> reference list \<Rightarrow> nat option" where
  "definition_loop c definitionReference [] = definitionReference"
| "definition_loop c definitionReference (r # rs) =
     (let d = (if ref_usage r = UsageDefined \<or> ref_usage r = UsageOLBestFitDefined then Some c else definitionReference)
      in definition_loop (Suc c) (if d = None \<and> ref_usage r = UsageDeclared then Some c else d) rs)"

definition getDefinitionReference :: "reference list \<Rightarrow> nat option" where
  "getDefinitionReference references = definition_loop 0 None references"

definition orderRefsAndGotoDefinition :: "bool \<Rightarrow> navigation \<Rightarrow> navigation option" where
  "orderRefsAndGotoDefinition cxrefProtocol nv =
     (let e = olcxNaturalReorder (nv_files nv) (nv_entry nv) in
      case se_references e of
        [] \<Rightarrow> map_option (\<lambda>p. nv\<lparr>nv_entry := e\<lparr>se_current := None\<rparr>, nv_ppc := p\<rparr>)
                (ppcIndicateNoReference cxrefProtocol (nv_ppc nv))
      | r # _ \<Rightarrow>
          if \<not> isLessImportantUsageThan (ref_usage r) UsageDeclared
          then map_option (\<lambda>p. nv\<lparr>nv_entry := e\<lparr>se_current := Some 0\<rparr>, nv_ppc := p\<rparr>)
                 (ppcGotoPosition (nv_files nv) (ref_position r) (nv_ppc nv))
          else if \<not> cxrefProtocol then None
          else map_option (\<lambda>p. nv\<lparr>nv_entry := e, nv_ppc := p\<rparr>)
                 (ppcWarning (str_bytes ''Definition not found'') (nv_ppc nv)))"

fun index_loop :: "usage \<Rightarrow> int \<Rightarrow> int \<Rightarrow> nat \<Rightarrow> reference list \<Rightarrow> nat option" where
  "index_loop filterLevel referenceIndex i c [] = None"
| "index_loop filterLevel referenceIndex i c (r # rs) =
     (if i < referenceIndex \<or> isAtMostAsImportantAs (ref_usage r) filterLevel
      then index_loop filterLevel referenceIndex (if isMoreImportantUsageThan (ref_usage r) filterLevel then i + 1 else i) (Suc c) rs
      else Some c)"

definition gotoReferenceWithIndex :: "bool \<Rightarrow> int \<Rightarrow> navigation \<Rightarrow> navigation option" where
  "gotoReferenceWithIndex cxrefProtocol referenceIndex nv =
     gotoCurrentReference cxrefProtocol
       (nv\<lparr>nv_entry := (nv_entry nv)\<lparr>se_current :=
          index_loop (usage_filter (nv_entry nv)) referenceIndex 1 0 (se_references (nv_entry nv))\<rparr>\<rparr>)"

fun ref_position_loop :: "usage \<Rightarrow> nat option \<Rightarrow> nat \<Rightarrow> int \<Rightarrow> reference list \<Rightarrow> int option" where
  "ref_position_loop rlevel current c position [] = None"
| "ref_position_loop rlevel current c position (r # rs) =
     (if current = Some c then Some position
      else ref_position_loop rlevel current (Suc c) (if isMoreImportantUsageThan (ref_usage r) rlevel then position + 1 else position) rs)"

definition getCurrentRefPosition :: "sessionEntry option \<Rightarrow> int" where
  "getCurrentRefPosition entry =
     (case entry of
        None \<Rightarrow> 0
      | Some e \<Rightarrow>
          (case ref_position_loop (usage_filter e) (se_current e) 0 0 (se_references e) of None \<Rightarrow> 0 | Some position \<Rightarrow> position))"

definition initializeRename :: "navigation \<Rightarrow> navigation option" where
  "initializeRename nv = do {
     r \<leftarrow> reference_at (nv_entry nv) 0;
     p \<leftarrow> ppcGotoPosition (nv_files nv) (ref_position r) (nv_ppc nv);
     Some (nv\<lparr>nv_entry := (nv_entry nv)\<lparr>se_current := Some 0\<rparr>, nv_ppc := p\<rparr>)
   }"

text \<open>
  A definition is looked for in a session of its own, whose candidate and menu are one entry that is not
  kept. The items are searched with that session on top.
\<close>

definition findAndGotoDefinition ::
  "int \<Rightarrow> bool \<Rightarrow> file_table \<Rightarrow> item_table \<Rightarrow> serverOperation \<Rightarrow> referenceableItem \<Rightarrow> sessionStack \<Rightarrow> ppc
    \<Rightarrow> (sessionStack \<times> ppc) option" where
  "findAndGotoDefinition noFile cxrefProtocol files items operation referenceable stack p =
     (let (oldtop, stack1) = pushSession noFile operation stack;
          menu = makeBrowsingMenu referenceable True True 0 UsageUsed UsageNone (noPosition noFile)
      in do {
        top \<leftarrow> top_entry stack1;
        let top1 = mapOverReferenceableItemTable items addReferencesToMatchingMenuItem
                     (top\<lparr>se_hkSelectedSym := [menu], se_menu := [menu]\<rparr>);
        nv \<leftarrow> orderRefsAndGotoDefinition cxrefProtocol
                \<lparr>nv_entry = recomputeSelectedReferenceable files top1, nv_files = files, nv_ppc = p\<rparr>;
        stack2 \<leftarrow> popAndFreeSessionsUntil oldtop
                   (set_top_entry ((nv_entry nv)\<lparr>se_hkSelectedSym := [], se_menu := []\<rparr>) stack1);
        Some (stack2, nv_ppc nv)
      })"

definition gotoMatch ::
  "int \<Rightarrow> bool \<Rightarrow> file_table \<Rightarrow> item_table \<Rightarrow> serverOperation \<Rightarrow> int \<Rightarrow> match list \<Rightarrow> sessionStack \<Rightarrow> ppc
    \<Rightarrow> (sessionStack \<times> ppc) option" where
  "gotoMatch noFile cxrefProtocol files items operation referenceIndex matches stack p =
     (if \<not> referenceIndex > 0 then None
      else (case getMatchOnNthLine matches referenceIndex of
              None \<Rightarrow> map_option (Pair stack) (ppcIndicateNoReference cxrefProtocol p)
            | Some match \<Rightarrow>
                if m_visibility match = VisibilityLocal then
                  (if positionsAreNotEqual (ref_position (m_reference match)) (noPosition noFile)
                   then map_option (Pair stack) (ppcGotoPosition files (ref_position (m_reference match)) p)
                   else map_option (Pair stack) (ppcIndicateNoReference cxrefProtocol p))
                else findAndGotoDefinition noFile cxrefProtocol files items operation (m_referenceable match) stack p))"

section \<open>Comparing the references before and after a refactoring\<close>

datatype diffMode = DIFF_MISSING_REF | DIFF_UNEXPECTED_REF

definition COLCX_LIST :: string where "COLCX_LIST = '';''"

definition safetyCheckAddDiffRef ::
  "file_table \<Rightarrow> reference \<Rightarrow> diffMode \<Rightarrow> reference list \<times> ppc \<Rightarrow> (reference list \<times> ppc) option" where
  "safetyCheckAddDiffRef files r mode st =
     (let (diffrefs, p) = st;
          p1 = (if diffrefs = [] then fput (str_bytes COLCX_LIST) p else p);
          prefixchar = (if diffrefs = [] then 62 else 32)
      in do {
        name \<leftarrow> simpleFileNameFromFileNum files (pos_file (ref_position r));
        Some (LIST_APPEND diffrefs [r],
              fput ([prefixchar, 32] @ str_bytes name @ [58] @ printf_d (pos_line (ref_position r))
                    @ str_bytes (case mode of DIFF_MISSING_REF \<Rightarrow> '' missing reference''
                                            | DIFF_UNEXPECTED_REF \<Rightarrow> '' unexpected new reference'') @ [10]) p1)
      })"

fun add_diff_refs ::
  "file_table \<Rightarrow> diffMode \<Rightarrow> reference list \<Rightarrow> reference list \<times> ppc \<Rightarrow> (reference list \<times> ppc) option" where
  "add_diff_refs files mode [] st = Some st"
| "add_diff_refs files mode (r # rs) st =
     Option.bind (safetyCheckAddDiffRef files r mode st) (add_diff_refs files mode rs)"

fun diff_loop ::
  "file_table \<Rightarrow> reference list \<Rightarrow> reference list \<Rightarrow> reference list \<times> ppc \<Rightarrow> (reference list \<times> ppc) option" where
  "diff_loop files (nr1 # nrs) (or2 # ors) st =
     (if pos_file (ref_position nr1) = pos_file (ref_position or2) \<and> pos_line (ref_position nr1) = pos_line (ref_position or2)
      then diff_loop files nrs ors st
      else if referenceLess nr1 or2
      then Option.bind (safetyCheckAddDiffRef files nr1 DIFF_UNEXPECTED_REF st) (diff_loop files nrs (or2 # ors))
      else Option.bind (safetyCheckAddDiffRef files or2 DIFF_MISSING_REF st) (diff_loop files (nr1 # nrs) ors))"
| "diff_loop files [] [] st = Some st"
| "diff_loop files (nr1 # nrs) [] st = add_diff_refs files DIFF_UNEXPECTED_REF (nr1 # nrs) st"
| "diff_loop files [] (or2 # ors) st = add_diff_refs files DIFF_MISSING_REF (or2 # ors) st"

text \<open>
  The two lists are sorted in place, which the callers see. The session that takes the differences has the
  first of them as its current reference.
\<close>

definition safetyCheckDiff ::
  "file_table \<Rightarrow> reference list \<Rightarrow> reference list \<Rightarrow> sessionEntry \<Rightarrow> ppc \<Rightarrow> (sessionEntry \<times> ppc) option" where
  "safetyCheckDiff files anr1 aor2 diffrefs p = do {
     (refs, p1) \<leftarrow> diff_loop files (LIST_MERGE_SORT referencePositionIsLess anr1)
                     (LIST_MERGE_SORT referencePositionIsLess aor2) (se_references diffrefs, p);
     let d = diffrefs\<lparr>se_references := refs\<rparr>;
     let d1 = d\<lparr>se_current := first_cell d\<rparr>;
     if refs = [] then Some (d1, p1)
     else (case se_menu d1 of
             [] \<Rightarrow> None
           | menu # rest \<Rightarrow> Some (d1\<lparr>se_menu := extendBrowsingMenuWithReferences menu refs # rest\<rparr>, p1))
   }"

record moveCheck =
  mc_checkFileMovedFrom :: "string option"
  mc_checkFileMovedTo :: "string option"
  mc_checkFirstMovedLine :: int
  mc_checkLinesMoved :: int
  mc_checkNewLineNumber :: int

definition getFileNumberFromName :: "int \<Rightarrow> bool \<Rightarrow> string \<Rightarrow> file_table \<Rightarrow> string \<Rightarrow> int option" where
  "getFileNumberFromName noFile cs cwd files name = do {
     normalizedName \<leftarrow> normalizeFileName_static cs name cwd;
     fileNumber \<leftarrow> getFileNumberFromFileName files normalizedName;
     Some (if fileNumber \<noteq> -1 then fileNumber else noFile)
   }"

definition shift_reference :: "moveCheck \<Rightarrow> int \<Rightarrow> int \<Rightarrow> reference \<Rightarrow> reference" where
  "shift_reference mc ofn nfn r =
     (let p = ref_position r; fmline = mc_checkFirstMovedLine mc; lmline = mc_checkFirstMovedLine mc + mc_checkLinesMoved mc in
      if pos_file p = ofn \<and> pos_line p \<ge> fmline \<and> pos_line p < lmline
      then r\<lparr>ref_position := Position nfn (mc_checkNewLineNumber mc + (pos_line p - fmline)) (pos_col p)\<rparr>
      else r)"

text \<open>No list is the empty one.\<close>

definition olcxCreateFileShiftedRefListForCheck ::
  "int \<Rightarrow> bool \<Rightarrow> string \<Rightarrow> file_table \<Rightarrow> moveCheck \<Rightarrow> reference list \<Rightarrow> reference list option" where
  "olcxCreateFileShiftedRefListForCheck noFile cs cwd files mc reference =
     (case (mc_checkFileMovedFrom mc, mc_checkFileMovedTo mc) of
        (Some movedFrom, Some movedTo) \<Rightarrow> do {
          ofn \<leftarrow> getFileNumberFromName noFile cs cwd files movedFrom;
          nfn \<leftarrow> getFileNumberFromName noFile cs cwd files movedTo;
          if ofn = noFile then Some []
          else if nfn = noFile then Some []
          else Some (LIST_MERGE_SORT referencePositionIsLess (map (shift_reference mc ofn nfn) reference))
        }
      | _ \<Rightarrow> Some [])"

text \<open>The newest session, the one for the differences below it, and the one from before the refactoring.\<close>

definition safetyCheck ::
  "int \<Rightarrow> bool \<Rightarrow> string \<Rightarrow> file_table \<Rightarrow> moveCheck \<Rightarrow> sessionStack \<Rightarrow> ppc \<Rightarrow> (sessionStack \<times> ppc) option" where
  "safetyCheck noFile cs cwd files mc stack p =
     (case st_active stack of
        newrefs # diffrefs # origrefs # rest \<Rightarrow> do {
          shifted \<leftarrow> olcxCreateFileShiftedRefListForCheck noFile cs cwd files mc (se_references origrefs);
          let old = (if shifted \<noteq> [] then shifted else se_references origrefs);
          (diffrefs1, p1) \<leftarrow> safetyCheckDiff files (se_references newrefs) old diffrefs p;
          let newrefs1 = sort_references referencePositionIsLess newrefs;
          let origrefs1 = (if shifted \<noteq> [] then origrefs else sort_references referencePositionIsLess origrefs);
          let stack1 = stack\<lparr>st_active := newrefs1 # diffrefs1 # origrefs1 # rest\<rparr>;
          if se_references diffrefs1 = []
          then Some (set_top (st_top stack1 - 3) stack1, fput (str_bytes ''*Done. No conflicts detected.'') p1)
          else if se_menu diffrefs1 = [] then None
          else Some (set_top (st_top stack1 - 1) stack1,
                     fput (str_bytes '' ** Some misinterpreted references detected. Please, undo last refactoring.'') p1)
        }
      | _ \<Rightarrow> None)"

section \<open>The differences found\<close>

text \<open>References are compared by file and line only.\<close>

definition line_key :: "reference \<Rightarrow> int \<times> int" where
  "line_key r = (pos_file (ref_position r), pos_line (ref_position r))"

definition key_less :: "int \<times> int \<Rightarrow> int \<times> int \<Rightarrow> bool" where
  "key_less a b \<longleftrightarrow> fst a < fst b \<or> (fst a = fst b \<and> snd a < snd b)"

abbreviation keys :: "reference list \<Rightarrow> (int \<times> int) multiset" where
  "keys refs \<equiv> image_mset line_key (mset refs)"

lemma key_less_position: "line_key a \<noteq> line_key b \<Longrightarrow> referenceLess a b \<longleftrightarrow> key_less (line_key a) (line_key b)"
  by (auto simp: line_key_def key_less_def less_position_fields)

lemma add_diff_keys: "add_diff_refs files mode rs (d, p) = Some (d', p') \<Longrightarrow> keys d' = keys d + keys rs"
proof (induction files mode rs "(d, p)" arbitrary: d p rule: add_diff_refs.induct)
  case (2 files mode r rs)
  then obtain d1 p1 where a: "safetyCheckAddDiffRef files r mode (d, p) = Some (d1, p1)"
    "add_diff_refs files mode rs (d1, p1) = Some (d', p')" by (auto simp: bind_eq_Some_conv)
  moreover from a(1) have "d1 = d @ [r]" by (auto simp: safetyCheckAddDiffRef_def Let_def bind_eq_Some_conv)
  ultimately show ?case using 2(1) [OF a(1)] by simp
qed simp

lemma add_diff_one: "safetyCheckAddDiffRef files r mode (d, p) = Some (d1, p1) \<Longrightarrow> keys d1 = add_mset (line_key r) (keys d)"
  by (auto simp: safetyCheckAddDiffRef_def Let_def bind_eq_Some_conv)

lemma diff_loop_keys:
  "sorted_wrt (\<lambda>x y. \<not> referenceLess y x) nrs \<Longrightarrow> sorted_wrt (\<lambda>x y. \<not> referenceLess y x) ors
    \<Longrightarrow> diff_loop files nrs ors (d, p) = Some (d', p')
    \<Longrightarrow> keys d' = keys d + (keys nrs - keys ors) + (keys ors - keys nrs)"
proof (induction files nrs ors "(d, p)" arbitrary: d p rule: diff_loop.induct)
  case (1 files nr1 nrs or2 ors)
  have fresh: "line_key x \<notin># keys ys" if "referenceLess x y" "line_key x \<noteq> line_key y" "\<forall>z\<in>set ys. z = y \<or> \<not> referenceLess z y" for x y ys
  proof
    assume "line_key x \<in># keys ys"
    then obtain z where z: "z \<in> set ys" "line_key z = line_key x" by auto
    then have "\<not> referenceLess z y" using that by auto
    with z that show False
      using key_less_position [of x y] key_less_position [of z y] by auto
  qed
  show ?case
  proof (cases "line_key nr1 = line_key or2")
    case True
    with 1 show ?thesis by (auto simp: line_key_def)
  next
    case ne: False
    then have t: "\<not> (pos_file (ref_position nr1) = pos_file (ref_position or2) \<and> pos_line (ref_position nr1) = pos_line (ref_position or2))"
      by (simp add: line_key_def)
    show ?thesis
    proof (cases "referenceLess nr1 or2")
      case True
      with 1(6) t obtain d1 p1 where a: "safetyCheckAddDiffRef files nr1 DIFF_UNEXPECTED_REF (d, p) = Some (d1, p1)"
        "diff_loop files nrs (or2 # ors) (d1, p1) = Some (d', p')" by (auto simp: bind_eq_Some_conv)
      have "line_key nr1 \<notin># keys (or2 # ors)" using True ne 1(5) by (intro fresh [of nr1 or2]) auto
      with 1(2) [OF t True a(1) _ 1(5) a(2)] 1(4) add_diff_one [OF a(1)] show ?thesis
        by (simp add: diff_single_trivial)
    next
      case False
      then have less: "referenceLess or2 nr1"
        using ne by (metis line_key_def linorder_less_linear referenceLess_iff)
      from False 1(6) t obtain d1 p1 where a: "safetyCheckAddDiffRef files or2 DIFF_MISSING_REF (d, p) = Some (d1, p1)"
        "diff_loop files (nr1 # nrs) ors (d1, p1) = Some (d', p')" by (auto simp: bind_eq_Some_conv)
      have "line_key or2 \<notin># keys (nr1 # nrs)" using less ne 1(4) by (intro fresh [of or2 nr1]) auto
      with 1(3) [OF t False a(1) 1(4) _ a(2)] 1(5) add_diff_one [OF a(1)] show ?thesis
        by (simp add: diff_single_trivial)
    qed
  qed
qed (auto dest: add_diff_keys simp del: add_diff_refs.simps)

lemma add_diff_one_grows: "safetyCheckAddDiffRef files r m (q, p) = Some (q1, p1) \<Longrightarrow> length q1 = Suc (length q)"
  using add_diff_one [THEN arg_cong [where f = size]] by simp

lemma add_diff_grows: "add_diff_refs files m rs (q, p) = Some (q1, p1) \<Longrightarrow> length q1 = length q + length rs"
  using add_diff_keys [THEN arg_cong [where f = size]] by simp

lemma diff_loop_grows:
  "diff_loop files xs ys (q, p) = Some (q1, p1) \<Longrightarrow> length q \<le> length q1 \<and> (length q1 = length q \<longrightarrow> p1 = p)"
proof (induction files xs ys "(q, p)" arbitrary: q p rule: diff_loop.induct)
  case (1 files nr1 nrs or2 ors)
  then show ?case by (fastforce simp: bind_eq_Some_conv split: if_splits dest: add_diff_one_grows)
qed (auto simp del: add_diff_refs.simps dest: add_diff_grows)

lemma safetyCheckDiff_keys:
  assumes "safetyCheckDiff files nrs ors diffrefs p = Some (d, p')" and "se_references diffrefs = []"
  shows "keys (se_references d) = (keys nrs - keys ors) + (keys ors - keys nrs)"
    and "se_references d = [] \<Longrightarrow> p' = p"
    and "se_current d = (if se_references d = [] then None else Some 0)"
proof -
  from assms obtain refs where l: "diff_loop files (LIST_MERGE_SORT referencePositionIsLess nrs)
      (LIST_MERGE_SORT referencePositionIsLess ors) ([], p) = Some (refs, p')"
    and d: "se_references d = refs" "se_current d = (if refs = [] then None else Some 0)"
    by (auto simp: safetyCheckDiff_def first_cell_def bind_eq_Some_conv split: if_splits list.splits)
  have f: "referencePositionIsLess = referenceLess"
    by (intro ext) (simp add: referencePositionIsLess_def)
  from diff_loop_keys [OF reference_order.LIST_MERGE_SORT_ordered reference_order.LIST_MERGE_SORT_ordered l [unfolded f]] d
  show "keys (se_references d) = (keys nrs - keys ors) + (keys ors - keys nrs)" by simp
  from l d diff_loop_grows [of files _ _ "[]" p "[]" p'] show "se_references d = [] \<Longrightarrow> p' = p" by auto
  from d show "se_current d = (if se_references d = [] then None else Some 0)" by simp
qed


section \<open>What is in the menu\<close>

text \<open>An item without its references.\<close>

definition item_of :: "browsingMenu \<Rightarrow> referenceableItem" where
  "item_of m = (bm_referenceable m)\<lparr>ri_references := []\<rparr>"

definition bare_item :: "referenceableItem \<Rightarrow> referenceableItem" where
  "bare_item r = r\<lparr>ri_references := []\<rparr>"

definition candidate_for :: "browsingMenu list \<Rightarrow> referenceableItem \<Rightarrow> bool" where
  "candidate_for candidates r \<longleftrightarrow> (\<exists>m\<in>set candidates. haveSameBareName r (bm_referenceable m))"

text \<open>Neither comes before the other in the order of the menu.\<close>

definition same_in_order :: "file_table \<Rightarrow> int \<Rightarrow> referenceableItem \<Rightarrow> referenceableItem \<Rightarrow> bool" where
  "same_in_order files noFile a b \<longleftrightarrow> \<not> referenceableItemIsLess files noFile a b \<and> \<not> referenceableItemIsLess files noFile b a"

lemma bare_fields:
  "ri_linkName (bare_item a) = ri_linkName a" "ri_type (bare_item a) = ri_type a"
  "ri_storage (bare_item a) = ri_storage a" "ri_visibility (bare_item a) = ri_visibility a"
  "ri_includeFileNumber (bare_item a) = ri_includeFileNumber a"
  by (simp_all add: bare_item_def)

lemma less_bare:
  "referenceableItemIsLess files noFile (bare_item a) b = referenceableItemIsLess files noFile a b"
  "referenceableItemIsLess files noFile a (bare_item b) = referenceableItemIsLess files noFile a b"
  by (simp_all only: referenceableItemIsLess_def bare_fields)

lemma less_refl: "\<not> referenceableItemIsLess files noFile a a"
  by (simp add: referenceableItemIsLess_def compareIncludedFiles_def Let_def)

lemma item_of_bare: "item_of m = bare_item (bm_referenceable m)"
  by (simp add: item_of_def bare_item_def)

lemma candidates_found:
  "fold (compare_candidate noFile r) ms (Some s) = Some s' \<Longrightarrow> sel_found s' \<longleftrightarrow> sel_found s \<or> candidate_for ms r"
proof (induction ms arbitrary: s)
  case Nil
  then show ?case by (simp add: candidate_for_def)
next
  case (Cons m ms)
  have n: "fold (compare_candidate noFile r) ms None = None"
    by (induction ms) (simp_all add: compare_candidate_def)
  show ?case
  proof (cases "compare_candidate noFile r m (Some s)")
    case None
    with Cons(2) n show ?thesis by simp
  next
    case (Some s1)
    then have "sel_found s1 \<longleftrightarrow> sel_found s \<or> haveSameBareName r (bm_referenceable m)"
      by (auto simp: compare_candidate_def bind_eq_Some_conv Let_def split: if_splits)
    with Cons(1) [of s1] Cons(2) Some show ?thesis by (auto simp: candidate_for_def)
  qed
qed

lemma added_to_menu:
  assumes "addReferenceableToBrowsingMenu files noFile menus r sel vis level rel olu pos usg = Some (c, menus')"
  shows "(item_of ` set menus' = item_of ` set menus \<or> item_of ` set menus' = insert (bare_item r) (item_of ` set menus))
    \<and> (\<exists>i\<in>item_of ` set menus'. same_in_order files noFile i r)"
proof -
  let ?d = "makeBrowsingMenu r False False 0 olu UsageNone (noPosition noFile)"
  obtain before place where s: "SORTED_LIST_PLACE3 (browsingMenuIsLess files noFile) ?d menus = (before, place)" by fastforce
  then have m: "menus = before @ place" and p: "place = dropWhile (\<lambda>x. browsingMenuIsLess files noFile x ?d) menus"
    by (auto simp: SORTED_LIST_PLACE3_split)
  have h: "place \<noteq> [] \<Longrightarrow> \<not> browsingMenuIsLess files noFile (hd place) ?d"
    unfolding p by (rule hd_dropWhile)
  have d: "bm_referenceable ?d = r" by (simp add: makeBrowsingMenu_def)
  show ?thesis
  proof (cases "place = [] \<or> browsingMenuIsLess files noFile ?d (hd place)")
    case True
    with assms s obtain new where n: "menus' = before @ new # place"
      "createNewMenuItem noFile r (ri_includeFileNumber r) pos usg sel vis level rel olu = Some new"
      by (auto simp: addReferenceableToBrowsingMenu_def bind_eq_Some_conv)
    from n(2) have "item_of new = bare_item r"
      by (cases r) (auto simp: createNewMenuItem_def makeReferenceableItem_def makeBrowsingMenu_def item_of_def bare_item_def
          bind_eq_Some_conv split: if_splits)
    moreover have "same_in_order files noFile (bare_item r) r" by (simp add: same_in_order_def less_bare less_refl)
    ultimately show ?thesis unfolding n(1) m by auto
  next
    case False
    with assms s have "menus' = menus" by (auto simp: addReferenceableToBrowsingMenu_def)
    moreover have "same_in_order files noFile (item_of (hd place)) r" "hd place \<in> set menus"
      using False h m by (auto simp: same_in_order_def item_of_bare less_bare browsingMenuIsLess_def d)
    ultimately show ?thesis by auto
  qed
qed

definition menu_matches :: "file_table \<Rightarrow> int \<Rightarrow> browsingMenu list \<Rightarrow> referenceableItem set \<Rightarrow> referenceableItem set \<Rightarrow> bool" where
  "menu_matches files noFile candidates table menu \<longleftrightarrow>
     menu \<subseteq> bare_item ` {r \<in> table. candidate_for candidates r}
     \<and> (\<forall>r\<in>table. candidate_for candidates r \<longrightarrow> (\<exists>i\<in>menu. same_in_order files noFile i r))"

lemma selection_menu_step:
  assumes "createSelectionMenu noFile files r e = Some e'"
    and "menu_matches files noFile (se_hkSelectedSym e) done (item_of ` set (se_menu e))"
  shows "menu_matches files noFile (se_hkSelectedSym e') (insert r done) (item_of ` set (se_menu e'))
    \<and> (\<exists>menu. e' = e\<lparr>se_menu := menu\<rparr>)"
proof -
  from assms(1) obtain s where s: "fold (compare_candidate noFile r) (se_hkSelectedSym e)
      (Some \<lparr>sel_found = False, sel_level = 0, sel_relation = False,
             sel_defaultPosition = noPosition noFile, sel_defaultUsage = UsageNone\<rparr>) = Some s"
    by (auto simp: createSelectionMenu_def bind_eq_Some_conv)
  then have f: "sel_found s \<longleftrightarrow> candidate_for (se_hkSelectedSym e) r" using candidates_found by fastforce
  show ?thesis
  proof (cases "sel_found s")
    case False
    with assms(1) s have "e' = e" by (simp add: createSelectionMenu_def)
    then have "\<exists>menu. e' = e\<lparr>se_menu := menu\<rparr>" by (intro exI [of _ "se_menu e"]) simp
    moreover have "menu_matches files noFile (se_hkSelectedSym e) (insert r done) (item_of ` set (se_menu e))"
      using False f assms(2) unfolding menu_matches_def by blast
    ultimately show ?thesis using \<open>e' = e\<close> by simp
  next
    case True
    with assms(1) s obtain c menu where
      a: "addReferenceableToBrowsingMenu files noFile (se_menu e) r False False (sel_level s)
            (sel_relation s) USAGE_ANY (sel_defaultPosition s) (sel_defaultUsage s) = Some (c, menu)"
      and e': "e' = e\<lparr>se_menu := menu\<rparr>"
      by (auto simp: createSelectionMenu_def bind_eq_Some_conv)
    from added_to_menu [OF a] have sub: "item_of ` set (se_menu e) \<subseteq> item_of ` set menu"
      "item_of ` set menu \<subseteq> insert (bare_item r) (item_of ` set (se_menu e))"
      and ex: "\<exists>i\<in>item_of ` set menu. same_in_order files noFile i r" by auto
    have old: "item_of ` set (se_menu e) \<subseteq> bare_item ` {x \<in> done. candidate_for (se_hkSelectedSym e) x}"
      and cover: "\<And>x. x \<in> done \<Longrightarrow> candidate_for (se_hkSelectedSym e) x
        \<Longrightarrow> \<exists>i\<in>item_of ` set (se_menu e). same_in_order files noFile i x"
      using assms(2) unfolding menu_matches_def by simp_all
    have "item_of ` set menu \<subseteq> bare_item ` {x \<in> insert r done. candidate_for (se_hkSelectedSym e) x}"
    proof (rule subsetI)
      fix i assume "i \<in> item_of ` set menu"
      with sub(2) have "i = bare_item r \<or> i \<in> item_of ` set (se_menu e)" by (auto simp only: insert_iff)
      then show "i \<in> bare_item ` {x \<in> insert r done. candidate_for (se_hkSelectedSym e) x}"
      proof
        assume "i = bare_item r"
        with True f show "i \<in> bare_item ` {x \<in> insert r done. candidate_for (se_hkSelectedSym e) x}" by (intro image_eqI [of _ _ r]) simp_all
      next
        assume "i \<in> item_of ` set (se_menu e)"
        with old have "i \<in> bare_item ` {x \<in> done. candidate_for (se_hkSelectedSym e) x}" by (rule subsetD)
        then obtain x where "i = bare_item x" "x \<in> done" "candidate_for (se_hkSelectedSym e) x" by (elim imageE CollectE conjE)
        then show "i \<in> bare_item ` {x \<in> insert r done. candidate_for (se_hkSelectedSym e) x}" by (intro image_eqI [of _ _ x]) simp_all
      qed
    qed
    moreover have "\<forall>x\<in>insert r done. candidate_for (se_hkSelectedSym e) x \<longrightarrow> (\<exists>i\<in>item_of ` set menu. same_in_order files noFile i x)"
    proof (intro ballI impI)
      fix x assume x: "x \<in> insert r done" "candidate_for (se_hkSelectedSym e) x"
      show "\<exists>i\<in>item_of ` set menu. same_in_order files noFile i x"
      proof (cases "x = r")
        case True
        with ex show ?thesis by simp
      next
        case False
        with x(1) have "x \<in> done" by simp
        from cover [OF this x(2)] obtain i where "i \<in> item_of ` set (se_menu e)" "same_in_order files noFile i x" by (elim bexE)
        then show ?thesis by (intro bexI [of _ i] subsetD [OF sub(1)])
      qed
    qed
    ultimately have "menu_matches files noFile (se_hkSelectedSym e) (insert r done) (item_of ` set menu)"
      unfolding menu_matches_def by (rule conjI)
    then show ?thesis unfolding e' by (intro conjI exI [of _ menu]) simp_all
  qed
qed

lemma selection_menu_fold:
  "fold (\<lambda>r e. Option.bind e (createSelectionMenu noFile files r)) items (Some e) = Some e'
    \<Longrightarrow> menu_matches files noFile (se_hkSelectedSym e) done (item_of ` set (se_menu e))
    \<Longrightarrow> menu_matches files noFile (se_hkSelectedSym e) (set items \<union> done) (item_of ` set (se_menu e'))
      \<and> (\<exists>menu. e' = e\<lparr>se_menu := menu\<rparr>)"
proof (induction items arbitrary: e "done")
  case Nil
  then show ?case by (auto intro: exI [of _ "se_menu e"])
next
  case (Cons r items)
  have n: "fold (\<lambda>r e. Option.bind e (createSelectionMenu noFile files r)) items None = None" by (induction items) simp_all
  with Cons(2) obtain e1 where e1: "createSelectionMenu noFile files r e = Some e1"
    "fold (\<lambda>r e. Option.bind e (createSelectionMenu noFile files r)) items (Some e1) = Some e'"
    by (cases "createSelectionMenu noFile files r e") auto
  from selection_menu_step [OF e1(1) Cons(3)] obtain menu1 where st:
    "menu_matches files noFile (se_hkSelectedSym e1) (insert r done) (item_of ` set (se_menu e1))"
    "e1 = e\<lparr>se_menu := menu1\<rparr>" by blast
  from Cons(1) [OF e1(2) st(1)] obtain menu2 where ih:
    "menu_matches files noFile (se_hkSelectedSym e1) (set items \<union> insert r done) (item_of ` set (se_menu e'))"
    "e' = e1\<lparr>se_menu := menu2\<rparr>" by blast
  have "e' = e\<lparr>se_menu := menu2\<rparr>" unfolding ih(2) st(2) by simp
  then have "\<exists>menu. e' = e\<lparr>se_menu := menu\<rparr>" by blast
  moreover have "se_hkSelectedSym e1 = se_hkSelectedSym e" "set items \<union> insert r done = set (r # items) \<union> done"
    by (auto simp: st(2))
  ultimately show ?case using ih(1) by simp
qed

text \<open>What follows the making of the menu keeps its entries.\<close>

lemma add_reference_item: "item_of (addReferenceToBrowsingMenu m r) = item_of m"
  by (auto simp: addReferenceToBrowsingMenu_def item_of_def Let_def split: option.splits prod.splits)

lemma add_references_item: "item_of (fold (\<lambda>r menu. addReferenceToBrowsingMenu menu r) rs m) = item_of m"
  by (induction rs arbitrary: m) (simp_all add: add_reference_item)

lemma matching_loop_bound: "matching_item_loop item f c ms = (ols, Some k) \<Longrightarrow> c \<le> k \<and> k < c + length ms"
  by (induction item f c ms rule: matching_item_loop.induct) (fastforce split: if_splits)+

lemma update_image: "k < length ms \<Longrightarrow> g x = g (ms ! k) \<Longrightarrow> g ` set (ms[k := x]) = g ` set ms"
proof -
  assume k: "k < length ms" "g x = g (ms ! k)"
  have "map g (ms[k := x]) = map g ms" using k by (simp add: map_update list_update_same_conv)
  then show ?thesis by (metis list.set_map)
qed

lemma add_to_matching_items:
  "item_of ` set (se_menu (addReferencesToMatchingMenuItem r e)) = item_of ` set (se_menu e)"
proof -
  obtain ols c where f: "findMatchingBrowsingMenuItem r e DO_NOT_CHECK_IF_SELECTED = (ols, c)" by fastforce
  show ?thesis
  proof (cases c)
    case None
    with f show ?thesis by (simp add: addReferencesToMatchingMenuItem_def)
  next
    case (Some k)
    with f have "k < length (se_menu e)"
      using matching_loop_bound [of r DO_NOT_CHECK_IF_SELECTED 0 "se_menu e" ols k] by (simp add: findMatchingBrowsingMenuItem_def)
    then have "item_of ` set ((se_menu e)[k := fold (\<lambda>r menu. addReferenceToBrowsingMenu menu r) (ri_references r) (se_menu e ! k)])
        = item_of ` set (se_menu e)"
      by (rule update_image) (rule add_references_item)
    with f Some show ?thesis by (simp add: addReferencesToMatchingMenuItem_def)
  qed
qed

lemma add_all_items:
  "item_of ` set (se_menu (fold addReferencesToMatchingMenuItem rs e)) = item_of ` set (se_menu e)"
  by (induction rs arbitrary: e) (simp_all add: add_to_matching_items)

lemma map_items: "(\<And>m. bm_referenceable (g m) = bm_referenceable m) \<Longrightarrow> item_of ` (g ` A) = item_of ` A"
  by (simp add: image_image item_of_def)

lemma unused_items: "map bm_referenceable (selectUnusedSymbols level ms) = map bm_referenceable ms"
  by (simp add: selectUnusedSymbols_def Let_def comp_def if_distrib [of bm_referenceable] cong: if_cong)

lemma unused_keeps_items: "keeps_items (\<lambda>ms s. (selectUnusedSymbols level ms, s))"
  by (simp add: keeps_items_def unused_items)

lemma mapped_items:
  assumes "keeps_items f"
  shows "item_of ` set (fst (splitBrowsingMenuAndMap menu f s)) = item_of ` set menu"
proof (cases "menu = []")
  case True
  then show ?thesis by (simp add: splitBrowsingMenuAndMap_def)
next
  case False
  obtain rs s1 where r: "split_loop f (enumerate 0 menu) [] s = (rs, s1)" by fastforce
  from split_mset [OF False assms r] obtain x ys where
    x: "splitBrowsingMenuAndMap menu f s = (map snd (x # ys), s1)" "mset (x # ys) = mset rs" by blast
  have bare: "item_of m = bare_item (snd (entry_of (n, m)))" for n m by (simp add: item_of_bare entry_of_def)
  have img: "item_of ` set (map snd ms) = bare_item ` snd ` entry_of ` set ms" for ms
    by (force simp: image_image item_of_bare entry_of_def)
  have "mset (map entry_of rs) = mset (map entry_of (enumerate 0 menu))"
    using split_loop_entries [OF assms, of "enumerate 0 menu" "[]" s] r by simp
  then have "set (map entry_of rs) = set (map entry_of (enumerate 0 menu))" by (rule mset_eq_setD)
  moreover have "set rs = set (x # ys)" using mset_eq_setD [OF x(2)] by (rule sym)
  ultimately have "entry_of ` set (x # ys) = entry_of ` set (enumerate 0 menu)" by (simp only: set_map)
  then have "item_of ` set (map snd (x # ys)) = item_of ` set (map snd (enumerate 0 menu))"
    unfolding img by (rule arg_cong)
  then show ?thesis unfolding x(1) fst_conv by (simp only: map_snd_enumerate)
qed

lemma selected_visible_items:
  "item_of ` set (setSelectedVisibleItems menu command dialog level) = item_of ` set menu"
proof -
  have d: "item_of ` set (setDefaultSelectedVisibleItems menu v l) = item_of ` set menu" for v l
    unfolding setDefaultSelectedVisibleItems_def set_map by (rule map_items) (simp add: Let_def)
  show ?thesis by (simp add: setSelectedVisibleItems_def d mapped_items [OF unused_keeps_items])
qed

lemma process_menu: "se_menu (processSelectedReferences files genOnLineReferences e) = se_menu e"
proof -
  have "se_menu (fold (\<lambda>m e. genOnLineReferences e m) ms e) = se_menu e" for ms
    by (induction ms arbitrary: e) (simp_all add: genOnLineReferences_def)
  then show ?thesis
    by (simp add: processSelectedReferences_def setCurrentReferenceToFirstAfterCallerPosition_def sort_references_def
        Let_def case_prod_beta)
qed

text \<open>C6: The menu of a new session holds items of the table only, bare of the references they have there, and only
  such as share their bare name with a symbol at the cursor; and none of these is missing: each has an entry that the
  order of the menu does not tell from it.\<close>

theorem selection_menu_complete:
  assumes "se_hkSelectedSym e \<noteq> []" "se_menu e = []"
    and "renameCollationSymbols (se_hkSelectedSym e) = Some candidates"
    and "createSelectionMenuForOperation noFile files items dialog operation e = Some e'"
  shows "menu_matches files noFile candidates (set (concat (hl_tab items))) (item_of ` set (se_menu e'))"
proof -
  let ?e0 = "e\<lparr>se_hkSelectedSym := candidates\<rparr>" and ?rs = "concat (hl_tab items)"
  obtain r1 where r1: "fold (\<lambda>r e. Option.bind e (createSelectionMenu noFile files r)) ?rs (Some ?e0) = Some r1"
    and menu: "item_of ` set (se_menu e') = item_of ` set (se_menu r1)"
  proof -
    from assms(1,3,4) obtain r1 where r1: "fold (\<lambda>r e. Option.bind e (createSelectionMenu noFile files r)) ?rs (Some ?e0) = Some r1"
      and "e' = processSelectedReferences files genOnLineReferences
        (let r2 = fold addReferencesToMatchingMenuItem ?rs r1
         in r2\<lparr>se_menu := setSelectedVisibleItems (se_menu r2) operation dialog (se_menuFilterLevel r2)\<rparr>)"
      by (auto simp: createSelectionMenuForOperation_def mapOverReferenceableItemTable_def hashListMap_def
          bind_eq_Some_conv Let_def split: if_splits)
    then have "item_of ` set (se_menu e') = item_of ` set (se_menu r1)"
      by (simp add: process_menu Let_def selected_visible_items add_all_items)
    with r1 that show thesis by blast
  qed
  have "menu_matches files noFile (se_hkSelectedSym ?e0) {} (item_of ` set (se_menu ?e0))"
    using assms(2) by (simp add: menu_matches_def)
  from conjunct1 [OF selection_menu_fold [OF r1 this]] show ?thesis unfolding menu by simp
qed

section \<open>Witnesses\<close>

definition example_stack :: sessionStack where
  "example_stack =
     (let e = (newEmptySessionStackEntry 0 OP_BROWSE_PUSH)\<lparr>se_references := [makeReference (Position 1 2 3) UsageUsed]\<rparr>
      in \<lparr>st_popped = [], st_active = [e, newEmptySessionStackEntry 0 OP_BROWSE_PUSH, e]\<rparr>)"


theorem selection_menu_complete_witness:
  "\<exists>e'. createSelectionMenuForOperation 0 (nv_files example_navigation) \<lparr>hl_size = 1, hl_tab = [[example_item]]\<rparr>
      RESOLVE_DIALOG_DEFAULT OP_BROWSE_PUSH ((newEmptySessionStackEntry 0 OP_BROWSE_PUSH)\<lparr>se_hkSelectedSym := [example_menu_item]\<rparr>) = Some e'
     \<and> menu_matches (nv_files example_navigation) 0 [example_menu_item] {example_item} (item_of ` set (se_menu e'))"
proof -
  let ?e = "(newEmptySessionStackEntry 0 OP_BROWSE_PUSH)\<lparr>se_hkSelectedSym := [example_menu_item]\<rparr>"
  have e: "se_hkSelectedSym ?e \<noteq> []" "se_menu ?e = []" "renameCollationSymbols (se_hkSelectedSym ?e) = Some [example_menu_item]"
    by (simp_all add: newEmptySessionStackEntry_def renameCollationSymbols_def rename_collation_def example_defs makeBrowsingMenu_def)
  have same: "haveSameBareName example_item (bm_referenceable example_menu_item)" "haveSameBareName (bm_referenceable example_menu_item) example_item"
    by (simp_all add: haveSameBareName_def example_menu_item_def makeBrowsingMenu_def strncmp_def Let_def)
  have lr: "filterLevelFromMenu example_menu_item example_item \<noteq> None" "computeSymbolRelation example_menu_item example_item \<noteq> None"
    using same by (auto simp: filterLevelFromMenu_def computeSymbolRelation_def Let_def)
  then obtain s where s: "compare_candidate 0 example_item example_menu_item (Some \<lparr>sel_found = False, sel_level = 0, sel_relation = False,
                   sel_defaultPosition = noPosition 0, sel_defaultUsage = UsageNone\<rparr>) = Some s"
    using same by (auto simp: compare_candidate_def Let_def)
  have "addReferenceableToBrowsingMenu (nv_files example_navigation) 0 [] example_item False False (sel_level s)
                      (sel_relation s) USAGE_ANY (sel_defaultPosition s) (sel_defaultUsage s) \<noteq> None"
    by (simp add: addReferenceableToBrowsingMenu_def SORTED_LIST_PLACE3_split createNewMenuItem_def makeReferenceableItem_def
       example_item_def)
  then obtain e1 where e1: "createSelectionMenu 0 (nv_files example_navigation) example_item ?e = Some e1" "se_references e1 = []"
    using s by (cases "sel_found s") (auto simp: createSelectionMenu_def newEmptySessionStackEntry_def cong: if_cong)
  have "se_references (addReferencesToMatchingMenuItem example_item e1) = []"
    using e1(2) by (simp add: addReferencesToMatchingMenuItem_def split: option.splits prod.splits)
  then have "\<exists>e'. createSelectionMenuForOperation 0 (nv_files example_navigation) \<lparr>hl_size = 1, hl_tab = [[example_item]]\<rparr>
      RESOLVE_DIALOG_DEFAULT OP_BROWSE_PUSH ?e = Some e'"
    using e e1 by (simp add: createSelectionMenuForOperation_def mapOverReferenceableItemTable_def hashListMap_def Let_def)
  then obtain e' where e': "createSelectionMenuForOperation 0 (nv_files example_navigation) \<lparr>hl_size = 1, hl_tab = [[example_item]]\<rparr>
      RESOLVE_DIALOG_DEFAULT OP_BROWSE_PUSH ?e = Some e'" by blast
  from selection_menu_complete [OF e e'] e' show ?thesis by simp
qed

end
