(* ===== verification/CxFile.thy ===== *)
theory CxFile
  imports Menu Undo
begin

text \<open>
  Models \<^verbatim>\<open>cxfile.c\<close>: the snapshot of what is known of the files and of the referenceable items,
  written as records of a number, a tag and for some of them a text. Numbers that have not changed since the
  last record with the same tag are left out. The file is the list of its bytes; the handlers of the tags
  change the tables directly, and what they rely on is that each takes its text and no more.
\<close>

section \<open>The format\<close>

definition MAX_CHARS :: int where "MAX_CHARS = 127"
definition XFILE_HASH_MAX :: int where "XFILE_HASH_MAX = 3"

definition C_XREF_FILE_FORMAT_VERSION :: string where
  "C_XREF_FILE_FORMAT_VERSION = ''1.15.0''"

definition CXFI_FILE_KNOWLEDGE_TIME :: int where "CXFI_FILE_KNOWLEDGE_TIME = 119"
definition CXFI_FILE_KNOWLEDGE_TIME_NSEC :: int where "CXFI_FILE_KNOWLEDGE_TIME_NSEC = 120"
definition CXFI_FILE_CHANGE_TIME :: int where "CXFI_FILE_CHANGE_TIME = 121"
definition CXFI_FILE_CHANGE_TIME_NSEC :: int where "CXFI_FILE_CHANGE_TIME_NSEC = 122"
definition CXFI_FILE_NUMBER :: int where "CXFI_FILE_NUMBER = 102"
definition CXFI_SYMBOL_INDEX :: int where "CXFI_SYMBOL_INDEX = 115"
definition CXFI_USAGE :: int where "CXFI_USAGE = 117"
definition CXFI_LINE_INDEX :: int where "CXFI_LINE_INDEX = 108"
definition CXFI_COLUMN_INDEX :: int where "CXFI_COLUMN_INDEX = 99"
definition CXFI_REFERENCE :: int where "CXFI_REFERENCE = 114"
definition CXFI_SYMBOL_TYPE :: int where "CXFI_SYMBOL_TYPE = 116"
definition CXFI_STORAGE :: int where "CXFI_STORAGE = 103"
definition CXFI_SYMBOL_NAME :: int where "CXFI_SYMBOL_NAME = 47"
definition CXFI_FILE_NAME :: int where "CXFI_FILE_NAME = 58"
definition CXFI_CHECK_NUMBER :: int where "CXFI_CHECK_NUMBER = 107"
definition CXFI_VERSION :: int where "CXFI_VERSION = 118"
definition CXFI_KEY_LIST :: int where "CXFI_KEY_LIST = 64"
definition CXFI_INCLUDEFILENUMBER :: int where "CXFI_INCLUDEFILENUMBER = 100"

lemmas cxfi_defs = CXFI_FILE_KNOWLEDGE_TIME_def CXFI_FILE_KNOWLEDGE_TIME_NSEC_def CXFI_FILE_CHANGE_TIME_def
  CXFI_FILE_CHANGE_TIME_NSEC_def CXFI_FILE_NUMBER_def CXFI_SYMBOL_INDEX_def CXFI_USAGE_def CXFI_LINE_INDEX_def
  CXFI_COLUMN_INDEX_def CXFI_REFERENCE_def CXFI_SYMBOL_TYPE_def CXFI_STORAGE_def CXFI_SYMBOL_NAME_def
  CXFI_FILE_NAME_def CXFI_CHECK_NUMBER_def CXFI_VERSION_def CXFI_KEY_LIST_def CXFI_INCLUDEFILENUMBER_def

text \<open>Without the end mark.\<close>

definition generatedFieldKeyList :: "int list" where
  "generatedFieldKeyList =
     [CXFI_FILE_KNOWLEDGE_TIME, CXFI_FILE_KNOWLEDGE_TIME_NSEC, CXFI_FILE_CHANGE_TIME, CXFI_FILE_CHANGE_TIME_NSEC,
      CXFI_FILE_NUMBER, CXFI_SYMBOL_TYPE, CXFI_USAGE, CXFI_LINE_INDEX, CXFI_COLUMN_INDEX, CXFI_SYMBOL_INDEX,
      CXFI_REFERENCE, CXFI_INCLUDEFILENUMBER, CXFI_STORAGE, CXFI_CHECK_NUMBER]"

text \<open>The values of the enumerations; another number is no value of theirs.\<close>

definition all_types :: "ctype list" where
  "all_types =
    [TypeDefault, TypeChar, TypeUnsignedChar, TypeSignedChar, TypeInt, TypeUnsignedInt, TypeSignedInt,
     TypeShortInt, TypeUnsignedShortInt, TypeSignedShortInt, TypeLongInt, TypeUnsignedLongInt,
     TypeSignedLongInt, TypeLongLongInt, TypeUnsignedLongLongInt, TypeSignedLongLongInt, TypeFloat, TypeDouble,
     TypeStruct, TypeUnion, TypeEnum, TypeVoid, TypePointer, TypeArray, TypeFunction, TypeAnonymousField,
     TypeError, MODIFIERS_START, TmodLong, TmodShort, TmodSigned, TmodUnsigned, TmodShortSigned,
     TmodShortUnsigned, TmodLongSigned, TmodLongUnsigned, TmodLongLong, TmodLongLongUnsigned,
     TmodLongLongSigned, TYPE_MODIFIERS_END, TypeEllipsis, TypeLong, TypeBool, TypeNull, MAX_CTYPE, TypeMacro,
     TypeCppInclude, TypeCppIfElse, TypeCppCollate, TypeCppUndefinedMacro, TypeYaccSymbol, TypeLabel,
     TypeKeyword, TypeToken, TypeMacroArg, TypeCppDefinedOp, TypeCppHasIncludeOp, TypeCppHasIncludeNextOp,
     TypeBlockMarker, TypeExpression, TypePackedType, TypeSpecialComplete, TypeInducedError,
     TypeSpecialConstructorCompletion, TypeUnknown, MAX_TYPE]"

definition all_storages :: "storage list" where
  "all_storages = [StorageDefault, StorageError, StorageAuto, StorageExtern, StorageConstant, StorageStatic,
     StorageThreadLocal, StorageTypedef, StorageRegister, STORAGE_ENUMS_MAX]"

definition all_usages :: "usage list" where
  "all_usages = [UsageOLBestFitDefined, UsageDefined, UsageDeclared, UsageLvalUsed, UsageAddrUsed, UsageUsed,
     UsageUndefinedMacro, UsageFork, UsageMaxOnLineVisibleUsages, UsageNone, USAGE_ANY, USAGE_FILTER]"

definition type_of_number :: "int \<Rightarrow> ctype option" where
  "type_of_number n = find (\<lambda>t. type_index t = n) all_types"

definition storage_of_number :: "int \<Rightarrow> storage option" where
  "storage_of_number n = find (\<lambda>s. storage_index s = n) all_storages"

definition usage_of_number :: "int \<Rightarrow> usage option" where
  "usage_of_number n = find (\<lambda>u. usage_index u = n) all_usages"

section \<open>Writing\<close>

text \<open>What has been written last, and the file.\<close>

record snapshotWriter =
  sw_data :: "int \<Rightarrow> int"
  sw_item :: "referenceableItem option"
  sw_symbolIsWritten :: bool
  sw_out :: "int list"

definition put_out :: "int list \<Rightarrow> snapshotWriter \<Rightarrow> snapshotWriter" where
  "put_out bytes w = w\<lparr>sw_out := sw_out w @ bytes\<rparr>"

definition fPutDecimal :: "int \<Rightarrow> snapshotWriter \<Rightarrow> snapshotWriter" where
  "fPutDecimal num w = put_out (printf_d num) w"

definition get_version_string :: string where
  "get_version_string = '' file format: C-xrefactory '' @ C_XREF_FILE_FORMAT_VERSION @ '' ''"

definition writeCompactRecord :: "int \<Rightarrow> int \<Rightarrow> int list \<Rightarrow> snapshotWriter \<Rightarrow> snapshotWriter option" where
  "writeCompactRecord tag num blankPrefix w =
     (if \<not> (tag \<ge> 0 \<and> tag < MAX_CHARS) then None
      else if \<not> num \<ge> 0 then None
      else (let w1 = put_out blankPrefix w;
                w2 = (if num \<noteq> 0 then fPutDecimal num w1 else w1);
                w3 = put_out [tag] w2
            in Some (w3\<lparr>sw_data := (sw_data w3)(tag := num)\<rparr>)))"

definition writeOptionalCompactRecord :: "int \<Rightarrow> int \<Rightarrow> int list \<Rightarrow> snapshotWriter \<Rightarrow> snapshotWriter option" where
  "writeOptionalCompactRecord tag num blankPrefix w =
     (if \<not> (tag \<ge> 0 \<and> tag < MAX_CHARS) then None
      else (let w1 = put_out blankPrefix w in
            if sw_data w1 tag \<noteq> num
            then (let w2 = (if num \<noteq> 0 then fPutDecimal num w1 else w1);
                      w3 = put_out [tag] w2
                  in Some (w3\<lparr>sw_data := (sw_data w3)(tag := num)\<rparr>))
            else Some w1))"

definition writeStringRecord :: "int \<Rightarrow> string \<Rightarrow> int list \<Rightarrow> snapshotWriter \<Rightarrow> snapshotWriter" where
  "writeStringRecord tag s prefix w =
     put_out (str_bytes s) (put_out [tag] (fPutDecimal (int (length s) + 1) (put_out prefix w)))"

definition writeSymbolItem :: "snapshotWriter \<Rightarrow> snapshotWriter option" where
  "writeSymbolItem w = do {
     w1 \<leftarrow> writeOptionalCompactRecord CXFI_SYMBOL_INDEX 0 [] w;
     r \<leftarrow> sw_item w1;
     w2 \<leftarrow> writeOptionalCompactRecord CXFI_SYMBOL_TYPE (type_index (ri_type r)) [10] w1;
     w3 \<leftarrow> writeOptionalCompactRecord CXFI_INCLUDEFILENUMBER (ri_includeFileNumber r) [] w2;
     w4 \<leftarrow> writeOptionalCompactRecord CXFI_STORAGE (storage_index (ri_storage r)) [] w3;
     let w5 = w4\<lparr>sw_symbolIsWritten := True\<rparr>;
     let w6 = writeStringRecord CXFI_SYMBOL_NAME (ri_linkName r) [9] w5;
     Some (put_out [9] w6)
   }"

definition writeSymbolItemIfNotWritten :: "snapshotWriter \<Rightarrow> snapshotWriter option" where
  "writeSymbolItemIfNotWritten w = (if \<not> sw_symbolIsWritten w then writeSymbolItem w else Some w)"

definition writeCxReferenceBase ::
  "usage \<Rightarrow> int \<Rightarrow> int \<Rightarrow> int \<Rightarrow> snapshotWriter \<Rightarrow> snapshotWriter option" where
  "writeCxReferenceBase usage fileNumber line col w = do {
     w1 \<leftarrow> writeSymbolItemIfNotWritten w;
     w2 \<leftarrow> writeOptionalCompactRecord CXFI_USAGE (usage_index usage) [] w1;
     w3 \<leftarrow> writeOptionalCompactRecord CXFI_SYMBOL_INDEX 0 [] w2;
     w4 \<leftarrow> writeOptionalCompactRecord CXFI_FILE_NUMBER fileNumber [] w3;
     w5 \<leftarrow> writeOptionalCompactRecord CXFI_LINE_INDEX line [] w4;
     w6 \<leftarrow> writeOptionalCompactRecord CXFI_COLUMN_INDEX col [] w5;
     writeCompactRecord CXFI_REFERENCE 0 [] w6
   }"

definition writeCxReference :: "reference \<Rightarrow> snapshotWriter \<Rightarrow> snapshotWriter option" where
  "writeCxReference reference w =
     writeCxReferenceBase (ref_usage reference) (pos_file (ref_position reference))
       (pos_line (ref_position reference)) (pos_col (ref_position reference)) w"

text \<open>The times are cut to the width of an \<^verbatim>\<open>int\<close> when they are passed.\<close>

definition writeFileNumberItem :: "fileItem \<Rightarrow> nat \<Rightarrow> snapshotWriter \<Rightarrow> snapshotWriter option" where
  "writeFileNumberItem fileItem number w =
     (if fi_isDeleted fileItem then Some w
      else do {
        w1 \<leftarrow> writeOptionalCompactRecord CXFI_FILE_NUMBER (int number) [10] w;
        w2 \<leftarrow> writeOptionalCompactRecord CXFI_FILE_KNOWLEDGE_TIME (to_int (tv_sec (fi_knowledgeTime fileItem))) [32] w1;
        w3 \<leftarrow> writeOptionalCompactRecord CXFI_FILE_KNOWLEDGE_TIME_NSEC (to_int (tv_nsec (fi_knowledgeTime fileItem))) [] w2;
        w4 \<leftarrow> writeOptionalCompactRecord CXFI_FILE_CHANGE_TIME (to_int (tv_sec (fi_changeTime fileItem))) [] w3;
        w5 \<leftarrow> writeOptionalCompactRecord CXFI_FILE_CHANGE_TIME_NSEC (to_int (tv_nsec (fi_changeTime fileItem))) [] w4;
        Some (writeStringRecord CXFI_FILE_NAME (fi_name fileItem) [32] w5)
      })"

fun write_references :: "file_table \<Rightarrow> reference list \<Rightarrow> snapshotWriter \<Rightarrow> snapshotWriter option" where
  "write_references files [] w = Some w"
| "write_references files (r # rs) w =
     (if pos_file (ref_position r) < 0
         \<or> getFileItemWithFileNumber files (nat (pos_file (ref_position r))) = None then None
      else Option.bind (writeCxReference r w) (write_references files rs))"

definition writeReferenceableItem ::
  "int \<Rightarrow> file_table \<Rightarrow> referenceableItem \<Rightarrow> snapshotWriter \<Rightarrow> snapshotWriter option" where
  "writeReferenceableItem noFile files item w =
     (if \<not> length (ri_linkName item) + 1 < MAX_CX_SYMBOL_SIZE then None
      else do {
        cached \<leftarrow> makeReferenceableItem noFile (ri_linkName item) (ri_type item) (ri_storage item)
                    (ri_visibility item) (ri_includeFileNumber item);
        let w1 = w\<lparr>sw_item := Some cached, sw_symbolIsWritten := False\<rparr>;
        if ri_visibility item = VisibilityLocal then Some w1
        else write_references files (ri_references item) w1
      })"

definition composeCxfiCheckNum :: "int \<Rightarrow> bool \<Rightarrow> int" where
  "composeCxfiCheckNum fileCount exactPositionLinkFlag =
     to_int (fileCount * XFILE_HASH_MAX * 2 + (if exactPositionLinkFlag then 1 else 0))"

definition decomposeCxfiCheckNum :: "int \<Rightarrow> int \<times> bool" where
  "decomposeCxfiCheckNum magicNumber =
     (let tmp = to_unsigned magicNumber in (tmp div 2 div XFILE_HASH_MAX, tmp mod 2 \<noteq> 0))"

definition writeCxFileHead :: "bool \<Rightarrow> int list \<Rightarrow> snapshotWriter option" where
  "writeCxFileHead exactPositionResolve out =
     (let w = \<lparr>sw_data = (\<lambda>_. -1), sw_item = None, sw_symbolIsWritten = False, sw_out = out\<rparr>;
          w1 = writeStringRecord CXFI_VERSION get_version_string [10, 10] w;
          w2 = put_out [10, 10, 10] w1;
          w3 = writeStringRecord CXFI_KEY_LIST (map (\<lambda>c. char_of (nat c)) generatedFieldKeyList) [] w2
      in writeCompactRecord CXFI_CHECK_NUMBER (composeCxfiCheckNum MAX_FILES exactPositionResolve) [32] w3)"

text \<open>The file written, which has been created empty.\<close>

definition writeSingleCxFile :: "int \<Rightarrow> bool \<Rightarrow> file_table \<Rightarrow> item_table \<Rightarrow> int list option" where
  "writeSingleCxFile noFile exactPositionResolve files items = do {
     w \<leftarrow> writeCxFileHead exactPositionResolve [];
     w1 \<leftarrow> hashTabMapWithIndex files (\<lambda>item i w. Option.bind w (writeFileNumberItem item i)) (Some w);
     w2 \<leftarrow> mapOverReferenceableItemTable items (\<lambda>item w. Option.bind w (writeReferenceableItem noFile files item)) (Some w1);
     Some (sw_out w2)
   }"

section \<open>Reading\<close>

record snapshotEnvironment =
  sv_noFile :: int
  sv_caseSensitive :: bool
  sv_cwd :: string
  sv_fs :: file_system
  sv_duplicates :: bool

text \<open>What has been read last, the numbers of the files of the snapshot in the table, and the tables.\<close>

record snapshotReader =
  sr_keyUsed :: "int \<Rightarrow> bool"
  sr_data :: "int \<Rightarrow> int"
  sr_item :: "referenceableItem option"
  sr_mapping :: "int \<Rightarrow> int"
  sr_wrongFormatVersion :: bool
  sr_files :: file_table
  sr_items :: item_table
  sr_cb :: characterBuffer

text \<open>The string in a buffer ends before the first zero.\<close>

definition c_text :: "int list \<Rightarrow> string" where
  "c_text bytes = map (\<lambda>c. char_of (nat (to_uchar c))) (takeWhile (\<lambda>c. c \<noteq> 0) bytes)"

text \<open>A character outside the array ends the process.\<close>

fun read_keys :: "nat \<Rightarrow> snapshotReader \<Rightarrow> snapshotReader option" where
  "read_keys 0 st = Some st"
| "read_keys (Suc n) st =
     (let (ch, cb) = getChar (sr_cb st) in
      if 0 \<le> ch \<and> ch < MAX_CHARS
      then read_keys n (st\<lparr>sr_cb := cb, sr_keyUsed := (sr_keyUsed st)(ch := True)\<rparr>) else None)"

definition scanFunction_ReadKeys ::
  "snapshotEnvironment \<Rightarrow> int \<Rightarrow> snapshotReader \<Rightarrow> snapshotReader option" where
  "scanFunction_ReadKeys env sz st = read_keys (nat (sz - 1)) st"

text \<open>The version goes into a buffer of \<open>TMP_STRING_SIZE\<close> characters; \<open>None\<close> is its overflow.\<close>

definition scanFunction_VersionCheck ::
  "snapshotEnvironment \<Rightarrow> int \<Rightarrow> snapshotReader \<Rightarrow> snapshotReader option" where
  "scanFunction_VersionCheck env sz st =
     (if sz - 1 \<ge> int TMP_STRING_SIZE then None
      else (let (versionString, cb) = getString (sr_cb st) (nat (sz - 1));
                st1 = st\<lparr>sr_cb := cb\<rparr>
            in Some (if strcmp (c_text versionString) get_version_string \<noteq> 0
                     then st1\<lparr>sr_wrongFormatVersion := True\<rparr> else st1)))"

text \<open>A number that does not fit is only logged.\<close>

definition scanFunction_CheckNumber ::
  "snapshotEnvironment \<Rightarrow> int \<Rightarrow> snapshotReader \<Rightarrow> snapshotReader option" where
  "scanFunction_CheckNumber env sz st = Some st"

definition set_times :: "timestamp \<Rightarrow> timestamp \<Rightarrow> fileItem \<Rightarrow> fileItem" where
  "set_times knowledgeTime changeTime fileItem =
     (let i1 = (if fileTimestampIsZero (fi_knowledgeTime fileItem)
                then fileItem\<lparr>fi_knowledgeTime := knowledgeTime\<rparr> else fileItem)
      in if fileTimestampIsZero (fi_changeTime i1) then i1\<lparr>fi_changeTime := changeTime\<rparr> else i1)"

definition read_file_name :: "snapshotEnvironment \<Rightarrow> string \<Rightarrow> snapshotReader \<Rightarrow> snapshotReader option" where
  "read_file_name env fileName st =
     (let knowledgeTime = makeFileTimestamp (sr_data st CXFI_FILE_KNOWLEDGE_TIME) (sr_data st CXFI_FILE_KNOWLEDGE_TIME_NSEC);
          changeTime = makeFileTimestamp (sr_data st CXFI_FILE_CHANGE_TIME) (sr_data st CXFI_FILE_CHANGE_TIME_NSEC);
          lastIncomingFileNumber = sr_data st CXFI_FILE_NUMBER in
      if \<not> (lastIncomingFileNumber \<ge> 0 \<and> lastIncomingFileNumber < MAX_FILES) then None
      else do {
        exist \<leftarrow> existsInFileTable (sr_files st) fileName;
        (fileNumber, files1) \<leftarrow>
          (if \<not> exist then addFileNameToFileTable (sv_caseSensitive env) (sv_cwd env) (sv_fs env) (sr_files st) fileName
           else map_option (\<lambda>n. (nat n, sr_files st)) (getFileNumberFromFileName (sr_files st) fileName));
        files2 \<leftarrow> update_item files1 fileNumber (set_times knowledgeTime changeTime);
        Some (st\<lparr>sr_files := files2, sr_mapping := (sr_mapping st)(lastIncomingFileNumber := int fileNumber)\<rparr>)
      })"

definition scanFunction_ReadFileName ::
  "snapshotEnvironment \<Rightarrow> int \<Rightarrow> snapshotReader \<Rightarrow> snapshotReader option" where
  "scanFunction_ReadFileName env fileNameLength st =
     (if \<not> fileNameLength < int MAX_FILE_NAME_SIZE then None
      else (let (fileName, cb) = getString (sr_cb st) (nat (fileNameLength - 1))
            in read_file_name env (c_text fileName) (st\<lparr>sr_cb := cb\<rparr>)))"

definition scanSymbolName :: "int \<Rightarrow> snapshotReader \<Rightarrow> (string \<times> snapshotReader) option" where
  "scanSymbolName sz st =
     (if \<not> sz < int MAX_CX_SYMBOL_SIZE then None
      else (let (name, cb) = getString (sr_cb st) (nat (sz - 1)) in Some (c_text name, st\<lparr>sr_cb := cb\<rparr>)))"

text \<open>The numbers of files read index the array.\<close>

definition mapped_file :: "snapshotReader \<Rightarrow> int \<Rightarrow> int option" where
  "mapped_file st n = (if 0 \<le> n \<and> n < MAX_FILES then Some (sr_mapping st n) else None)"

definition getIncludedFileNumber :: "snapshotReader \<Rightarrow> int option" where
  "getIncludedFileNumber st = do {
     n \<leftarrow> mapped_file st (sr_data st CXFI_INCLUDEFILENUMBER);
     if n < 0 \<or> getFileItemWithFileNumber (sr_files st) (nat n) = None then None else Some n
   }"

definition read_symbol_name :: "snapshotEnvironment \<Rightarrow> string \<Rightarrow> snapshotReader \<Rightarrow> snapshotReader option" where
  "read_symbol_name env name st = do {
     storage \<leftarrow> storage_of_number (sr_data st CXFI_STORAGE);
     symbolType \<leftarrow> type_of_number (sr_data st CXFI_SYMBOL_TYPE);
     includedFileNumber \<leftarrow> getIncludedFileNumber st;
     item \<leftarrow> makeReferenceableItem (sv_noFile env) name symbolType storage VisibilityGlobal includedFileNumber;
     (case isMemberInReferenceableItemTable (sr_items st) item of
        (_, _, found # _) \<Rightarrow> Some (st\<lparr>sr_item := Some found\<rparr>)
      | (_, _, []) \<Rightarrow>
          Some (st\<lparr>sr_items := snd (addToReferenceableItemTable (sr_items st) item), sr_item := Some item\<rparr>))
   }"

definition scanFunction_SymbolNameForSnapshotLoad ::
  "snapshotEnvironment \<Rightarrow> int \<Rightarrow> snapshotReader \<Rightarrow> snapshotReader option" where
  "scanFunction_SymbolNameForSnapshotLoad env sz st = do {
     (name, st1) \<leftarrow> scanSymbolName sz st;
     read_symbol_name env name st1
   }"

text \<open>The item is reached by a pointer, which here is the item of the table that is equal to it.\<close>

definition update_references ::
  "referenceableItem \<Rightarrow> (reference list \<Rightarrow> reference list) \<Rightarrow> item_table \<Rightarrow> item_table" where
  "update_references item f table =
     (let index = hashListIndex referenceableItemHash table item in
      table\<lparr>hl_tab := (hl_tab table)[index :=
        map (\<lambda>e. if equalReferenceableItems e item then e\<lparr>ri_references := f (ri_references e)\<rparr> else e)
            (hl_tab table ! index)]\<rparr>)"

definition scanFunction_ReferenceForSnapshotLoad ::
  "snapshotEnvironment \<Rightarrow> int \<Rightarrow> snapshotReader \<Rightarrow> snapshotReader option" where
  "scanFunction_ReferenceForSnapshotLoad env sz st = do {
     usage \<leftarrow> usage_of_number (sr_data st CXFI_USAGE);
     fileNumber \<leftarrow> mapped_file st (sr_data st CXFI_FILE_NUMBER);
     item \<leftarrow> sr_item st;
     let pos = makePosition fileNumber (sr_data st CXFI_LINE_INDEX) (sr_data st CXFI_COLUMN_INDEX);
     Some (st\<lparr>sr_items := update_references item
       (\<lambda>refs. place_list (addToReferenceList (sv_duplicates env) refs pos usage)) (sr_items st)\<rparr>)
   }"

definition snapshotLoadScanDispatchTable ::
  "(int \<times> (snapshotEnvironment \<Rightarrow> int \<Rightarrow> snapshotReader \<Rightarrow> snapshotReader option)) list" where
  "snapshotLoadScanDispatchTable =
     [(CXFI_KEY_LIST, scanFunction_ReadKeys),
      (CXFI_VERSION, scanFunction_VersionCheck),
      (CXFI_CHECK_NUMBER, scanFunction_CheckNumber),
      (CXFI_FILE_NAME, scanFunction_ReadFileName),
      (CXFI_SYMBOL_NAME, scanFunction_SymbolNameForSnapshotLoad),
      (CXFI_REFERENCE, scanFunction_ReferenceForSnapshotLoad)]"

partial_function (option) integer_loop :: "characterBuffer \<Rightarrow> int \<Rightarrow> int \<Rightarrow> (int \<times> int \<times> characterBuffer) option" where
  "integer_loop cb ch scannedInt =
     (if c_isdigit ch
      then integer_loop (snd (getChar cb)) (fst (getChar cb)) (to_int (scannedInt * 10 + ch - 48))
      else Some (ch, scannedInt, cb))"

definition scanInteger :: "characterBuffer \<Rightarrow> int \<Rightarrow> (int \<times> int \<times> characterBuffer) option" where
  "scanInteger cb ch0 = do {
     (ch1, cb1) \<leftarrow> skipWhiteSpace cb ch0;
     (ch2, scannedInt, cb2) \<leftarrow> integer_loop cb1 ch1 0;
     Some (scannedInt, ch2, cb2)
   }"

definition resetIncomingData :: "snapshotEnvironment \<Rightarrow> snapshotReader \<Rightarrow> snapshotReader" where
  "resetIncomingData env st =
     st\<lparr>sr_keyUsed := (\<lambda>_. False)(CXFI_INCLUDEFILENUMBER := (sv_noFile env \<noteq> 0)), sr_data := (\<lambda>_. 0),
        sr_item := None, sr_mapping := (sr_mapping st)(sv_noFile env := sv_noFile env)\<rparr>"

definition scan_record :: "snapshotEnvironment \<Rightarrow> int \<Rightarrow> int \<Rightarrow> snapshotReader \<Rightarrow> snapshotReader option" where
  "scan_record env ch scannedInt st =
     (case map_of snapshotLoadScanDispatchTable ch of
        Some handlerFunction \<Rightarrow> handlerFunction env scannedInt st
      | None \<Rightarrow>
          if \<not> sr_keyUsed st ch then
            (if \<not> scannedInt > 0 then None
             else map_option (\<lambda>cb. st\<lparr>sr_cb := cb\<rparr>) (skipCharacters (sr_cb st) (scannedInt - 1)))
          else Some st)"

partial_function (option) scan_loop :: "snapshotEnvironment \<Rightarrow> int \<Rightarrow> snapshotReader \<Rightarrow> snapshotReader option" where
  "scan_loop env ch st =
     (if cb_isAtEOF (sr_cb st) \<or> sr_wrongFormatVersion st then Some st
      else Option.bind (scanInteger (sr_cb st) ch) (\<lambda>(scannedInt, ch1, cb1).
        if cb_isAtEOF cb1 then Some (st\<lparr>sr_cb := cb1\<rparr>)
        else if \<not> (ch1 \<ge> 0 \<and> ch1 < MAX_CHARS) then None
        else Option.bind
          (scan_record env ch1 scannedInt
            (if sr_keyUsed st ch1 then st\<lparr>sr_cb := cb1, sr_data := (sr_data st)(ch1 := scannedInt)\<rparr>
             else st\<lparr>sr_cb := cb1\<rparr>))
          (\<lambda>st1. scan_loop env (fst (getChar (sr_cb st1))) (st1\<lparr>sr_cb := snd (getChar (sr_cb st1))\<rparr>))))"

definition scanCxFileUsing :: "snapshotEnvironment \<Rightarrow> int list option \<Rightarrow> snapshotReader \<Rightarrow> snapshotReader option" where
  "scanCxFileUsing env currentCxFile st =
     (case currentCxFile of
        None \<Rightarrow> Some st
      | Some bytes \<Rightarrow>
          (let st1 = resetIncomingData env st
           in scan_loop env 32 (st1\<lparr>sr_cb := initCharacterBufferFromFile (sr_cb st1) (Some bytes),
                                    sr_wrongFormatVersion := False\<rparr>)))"

text \<open>Whether there was a snapshot, and the state with whether reading is over; the files on disk are their bytes.\<close>

definition scanCxFile ::
  "snapshotEnvironment \<Rightarrow> (string \<Rightarrow> int list option) \<Rightarrow> string \<Rightarrow> bool \<Rightarrow> snapshotReader \<Rightarrow> (bool \<times> snapshotReader) option" where
  "scanCxFile env disk cxFileLocation snapshotLoadComplete st =
     (if snapshotLoadComplete then None
      else (case disk cxFileLocation of
              None \<Rightarrow> Some (False, st)
            | Some bytes \<Rightarrow> map_option (Pair True) (scanCxFileUsing env (Some bytes) st)))"

definition loadSnapshotFromStore ::
  "snapshotEnvironment \<Rightarrow> (string \<Rightarrow> int list option) \<Rightarrow> string option \<Rightarrow> bool \<Rightarrow> snapshotReader
    \<Rightarrow> (bool \<times> bool \<times> snapshotReader) option" where
  "loadSnapshotFromStore env disk cxFileLocation snapshotLoadComplete st =
     (case cxFileLocation of
        None \<Rightarrow> Some (False, True, st)
      | Some cxFileName \<Rightarrow>
          if editorFileExists (sv_fs env) cxFileName
          then map_option (\<lambda>(_, st1). (True, True, st1)) (scanCxFile env disk cxFileName snapshotLoadComplete st)
          else Some (False, True, st))"

section \<open>Numbers of enumerations\<close>

lemma type_of_number_index [simp]: "type_of_number (type_index t) = Some t"
  by (cases t) (simp_all add: type_of_number_def all_types_def)

lemma storage_of_number_index [simp]: "storage_of_number (storage_index s) = Some s"
  by (cases s) (simp_all add: storage_of_number_def all_storages_def)

lemma usage_of_number_index [simp]: "usage_of_number (usage_index u) = Some u"
  by (cases u) (simp_all add: usage_of_number_def all_usages_def)

lemma type_range: "0 \<le> type_index t \<and> type_index t < 100"
  by (cases t; simp)

lemma storage_range: "0 \<le> storage_index s \<and> storage_index s < 100"
  by (cases s; simp)

lemma usage_range: "0 \<le> usage_index u \<and> usage_index u < 100"
  by (cases u; simp)

section \<open>Reading what is ahead\<close>

text \<open>The character read last and those to come.\<close>

definition ahead :: "characterBuffer \<Rightarrow> int \<Rightarrow> int list \<Rightarrow> bool" where
  "ahead cb ch bytes \<longleftrightarrow> reader_ok cb
     \<and> (case bytes of [] \<Rightarrow> cb_isAtEOF cb | b # bs \<Rightarrow> \<not> cb_isAtEOF cb \<and> ch = b \<and> contents cb = bs)"

lemma getChar_ahead:
  assumes "reader_ok cb" "\<not> cb_isAtEOF cb"
  shows "ahead (snd (getChar cb)) (fst (getChar cb)) (contents cb)"
proof -
  have le: "cb_nextUnread cb \<le> cb_end cb" using assms by (simp add: reader_ok_def)
  have eof: "cb_isAtEOF (snd (getChar cb)) \<longleftrightarrow> contents cb = []"
  proof (cases "cb_nextUnread cb < cb_end cb")
    case True
    then show ?thesis using assms(2) by (simp add: getChar_def contents_def unread_some)
  next
    case False
    with le have "cb_nextUnread cb = cb_end cb" by simp
    then show ?thesis using assms(2)
      by (auto simp: getChar_def refill_empty contents_def unread_none split: option.splits list.splits)
  qed
  show ?thesis
  proof (cases "contents cb")
    case Nil
    with eof reader.get_Nil [OF assms(1) Nil] show ?thesis by (simp add: ahead_def)
  next
    case (Cons b bs)
    with eof reader.get_Cons [OF assms(1) Cons] show ?thesis by (simp add: ahead_def)
  qed
qed

lemma ahead_next: "ahead cb ch (b # bs) \<Longrightarrow> ahead (snd (getChar cb)) (fst (getChar cb)) bs"
  using getChar_ahead [of cb] by (auto simp: ahead_def)

lemma ahead_ch: "ahead cb ch (b # bs) \<Longrightarrow> ch = b \<and> contents cb = bs \<and> reader_ok cb \<and> \<not> cb_isAtEOF cb"
  by (simp add: ahead_def)

lemma skip_blank: "ahead cb ch (b # bs) \<Longrightarrow> b \<in> {32, 10, 9} \<Longrightarrow>
    skipWhiteSpace cb ch = skipWhiteSpace (snd (getChar cb)) (fst (getChar cb))"
  by (subst skipWhiteSpace.simps) (auto simp: ahead_def)

lemma skip_stop: "ahead cb ch (b # bs) \<Longrightarrow> b \<notin> {32, 10, 9} \<Longrightarrow> skipWhiteSpace cb ch = Some (b, cb)"
  by (subst skipWhiteSpace.simps) (auto simp: ahead_def)

lemma skip_end: "cb_isAtEOF cb \<Longrightarrow> ch \<notin> {32, 10, 9} \<Longrightarrow> skipWhiteSpace cb ch = Some (ch, cb)"
  by (subst skipWhiteSpace.simps) auto

lemma integer_loop_digits:
  "ahead cb ch (ds @ c # bs) \<Longrightarrow> \<forall>d\<in>set ds. c_isdigit d \<Longrightarrow> \<not> c_isdigit c \<Longrightarrow>
    \<exists>cb'. integer_loop cb ch v = Some (c, foldl (\<lambda>v d. to_int (v * 10 + d - 48)) v ds, cb') \<and> ahead cb' c (c # bs)"
proof (induction ds arbitrary: cb ch v)
  case Nil
  then have "integer_loop cb ch v = Some (c, v, cb)" by (subst integer_loop.simps) (auto simp: ahead_def)
  with Nil show ?case by (auto simp: ahead_def)
next
  case (Cons d ds)
  have ch: "ch = d" using Cons(2) by (simp add: ahead_def)
  have "integer_loop cb ch v = integer_loop (snd (getChar cb)) (fst (getChar cb)) (to_int (v * 10 + d - 48))"
    using Cons(3) ch by (subst integer_loop.simps) simp
  with Cons(1) [OF ahead_next, of cb ch d] Cons(2,3,4) show ?case by simp
qed

lemma digits_number:
  "\<forall>d\<in>set ds. c_isdigit d \<Longrightarrow> fold (\<lambda>ch v. v * 10 + digit_value ch) ds n < 2147483648 \<Longrightarrow>
    foldl (\<lambda>v d. to_int (v * 10 + d - 48)) (int n) ds = int (fold (\<lambda>ch v. v * 10 + digit_value ch) ds n)"
proof (induction ds arbitrary: n)
  case (Cons d ds)
  have grows: "m \<le> fold (\<lambda>ch v. v * 10 + digit_value ch) es m" for es m
  proof (induction es arbitrary: m)
    case (Cons e es)
    have "m \<le> m * 10 + digit_value e" by simp
    also have "... \<le> fold (\<lambda>ch v. v * 10 + digit_value ch) (e # es) m" using Cons [of "m * 10 + digit_value e"] by simp
    finally show ?case .
  qed simp
  have "d = 48 + int (digit_value d)" using Cons(2) by (simp add: c_isdigit_def digit_value_def)
  moreover have "n * 10 + digit_value d < 2147483648"
    using Cons(3) grows [of "n * 10 + digit_value d" ds] by simp
  ultimately have "to_int (int n * 10 + d - 48) = int (n * 10 + digit_value d)" by (simp add: to_int_id)
  with Cons(1) [of "n * 10 + digit_value d"] Cons(2,3) show ?case by (simp del: of_nat_add of_nat_mult)
qed simp

definition number_text :: "int \<Rightarrow> int list" where
  "number_text n = (if n = 0 then [] else decimal_text (nat n))"

text \<open>A number, perhaps left out, and the tag behind it.\<close>

lemma scan_number:
  assumes "ahead cb ch (number_text n @ tag # bs)" "0 \<le> n" "n < 2147483648" "\<not> c_isdigit tag" "tag \<notin> {32, 10, 9}"
  shows "\<exists>cb'. scanInteger cb ch = Some (n, tag, cb') \<and> ahead cb' tag (tag # bs)"
proof -
  let ?ds = "number_text n"
  have digits: "\<forall>d\<in>set ?ds. c_isdigit d" using decimal_text_digits by (simp add: number_text_def)
  have val: "foldl (\<lambda>v d. to_int (v * 10 + d - 48)) 0 ?ds = n"
    using digits_number [OF digits, of 0] assms(2,3) by (auto simp: number_text_def decimal_text_value)
  obtain c cs where c: "?ds @ tag # bs = c # cs" "c \<notin> {32, 10, 9}"
    using digits assms(5) by (cases ?ds) (auto simp: c_isdigit_def)
  then have "skipWhiteSpace cb ch = Some (ch, cb)" using skip_stop [of cb ch c cs] assms(1) by (simp add: ahead_def)
  with integer_loop_digits [OF assms(1) digits assms(4), of 0] val show ?thesis by (auto simp: scanInteger_def)
qed

lemma getString_ahead:
  "reader_ok cb \<Longrightarrow> \<not> cb_isAtEOF cb \<Longrightarrow> contents cb = s @ bs \<Longrightarrow>
    \<exists>cb'. getString cb (length s) = (map to_char s, cb') \<and> reader_ok cb' \<and> \<not> cb_isAtEOF cb' \<and> contents cb' = bs"
proof (induction s arbitrary: cb)
  case (Cons c s)
  from getChar_ahead [OF Cons(2,3)] Cons(4) have "ahead (snd (getChar cb)) (fst (getChar cb)) (c # s @ bs)" by simp
  from ahead_ch [OF this] have g: "fst (getChar cb) = c" "contents (snd (getChar cb)) = s @ bs"
    "reader_ok (snd (getChar cb))" "\<not> cb_isAtEOF (snd (getChar cb))" by blast+
  from Cons(1) [OF g(3,4,2)] g(1) show ?case by (auto simp: case_prod_beta Let_def)
qed auto

section \<open>Records\<close>

text \<open>What a record of a tag with a number and a text does to the state, but for the characters read.\<close>

definition record_effect ::
  "snapshotEnvironment \<Rightarrow> int \<Rightarrow> int \<Rightarrow> int list \<Rightarrow> snapshotReader \<Rightarrow> snapshotReader option" where
  "record_effect env tag n s st =
     (if tag = CXFI_KEY_LIST
      then (if n = int (length s) + 1 \<and> (\<forall>c\<in>set s. 0 \<le> c \<and> c < MAX_CHARS)
            then Some (st\<lparr>sr_keyUsed := (\<lambda>k. k \<in> set s \<or> sr_keyUsed st k)\<rparr>) else None)
      else if tag = CXFI_VERSION
      then (if n = int (length s) + 1 \<and> length s < TMP_STRING_SIZE \<and> c_text (map to_char s) = get_version_string
            then Some st else None)
      else if tag = CXFI_FILE_NAME
      then (if n = int (length s) + 1 \<and> n < int MAX_FILE_NAME_SIZE then read_file_name env (c_text (map to_char s)) st else None)
      else if tag = CXFI_SYMBOL_NAME
      then (if n = int (length s) + 1 \<and> n < int MAX_CX_SYMBOL_SIZE then read_symbol_name env (c_text (map to_char s)) st else None)
      else if s \<noteq> [] then None
      else if tag = CXFI_REFERENCE then scanFunction_ReferenceForSnapshotLoad env n st
      else if tag = CXFI_CHECK_NUMBER then Some st
      else if sr_keyUsed st tag then Some st else None)"

lemma cb_last:
  "st\<lparr>sr_cb := cb, sr_keyUsed := k\<rparr> = st\<lparr>sr_keyUsed := k, sr_cb := cb\<rparr>"
  "st\<lparr>sr_cb := cb, sr_data := d\<rparr> = st\<lparr>sr_data := d, sr_cb := cb\<rparr>"
  by simp_all

lemma read_keys_ahead:
  "reader_ok cb \<Longrightarrow> \<not> cb_isAtEOF cb \<Longrightarrow> contents cb = s @ bs \<Longrightarrow> \<forall>c\<in>set s. 0 \<le> c \<and> c < MAX_CHARS \<Longrightarrow>
    \<exists>cb'. read_keys (length s) (st\<lparr>sr_cb := cb\<rparr>)
        = Some (st\<lparr>sr_keyUsed := (\<lambda>k. k \<in> set s \<or> sr_keyUsed st k), sr_cb := cb'\<rparr>)
      \<and> reader_ok cb' \<and> \<not> cb_isAtEOF cb' \<and> contents cb' = bs"
proof (induction s arbitrary: cb st)
  case (Cons c s)
  from getChar_ahead [OF Cons(2,3)] Cons(4) have "ahead (snd (getChar cb)) (fst (getChar cb)) (c # s @ bs)" by simp
  from ahead_ch [OF this] have g: "fst (getChar cb) = c" "contents (snd (getChar cb)) = s @ bs"
    "reader_ok (snd (getChar cb))" "\<not> cb_isAtEOF (snd (getChar cb))" by blast+
  let ?st = "st\<lparr>sr_keyUsed := (sr_keyUsed st)(c := True)\<rparr>"
  have k: "(\<lambda>k. k \<in> set s \<or> sr_keyUsed ?st k) = (\<lambda>k. k \<in> set (c # s) \<or> sr_keyUsed st k)" by (auto simp: fun_eq_iff)
  have r: "read_keys (length (c # s)) (st\<lparr>sr_cb := cb\<rparr>) = read_keys (length s) (?st\<lparr>sr_cb := snd (getChar cb)\<rparr>)"
    using g(1) Cons(5) by (simp add: case_prod_beta Let_def cb_last)
  from Cons(1) [OF g(3,4,2), of ?st] Cons(5) show ?case unfolding r k by simp
qed auto

lemma read_file_name_cb:
  "read_file_name env name (st\<lparr>sr_cb := cb\<rparr>) = map_option (\<lambda>s. s\<lparr>sr_cb := cb\<rparr>) (read_file_name env name st)"
  by (auto simp: read_file_name_def Let_def bind_map_option map_option_bind comp_def intro!: Option.bind_cong split: prod.splits)

lemma read_symbol_name_cb:
  "read_symbol_name env name (st\<lparr>sr_cb := cb\<rparr>) = map_option (\<lambda>s. s\<lparr>sr_cb := cb\<rparr>) (read_symbol_name env name st)"
  by (auto simp: read_symbol_name_def getIncludedFileNumber_def mapped_file_def map_option_bind comp_def
      intro!: Option.bind_cong split: prod.splits list.splits)

lemma read_reference_cb:
  "scanFunction_ReferenceForSnapshotLoad env n (st\<lparr>sr_cb := cb\<rparr>)
    = map_option (\<lambda>s. s\<lparr>sr_cb := cb\<rparr>) (scanFunction_ReferenceForSnapshotLoad env n st)"
  by (auto simp: scanFunction_ReferenceForSnapshotLoad_def mapped_file_def map_option_bind comp_def Let_def
      intro!: Option.bind_cong)

lemma scan_record_effect:
  assumes "record_effect env tag n s st = Some st1" "reader_ok cb" "\<not> cb_isAtEOF cb" "contents cb = s @ bs"
  shows "\<exists>cb'. scan_record env tag n (st\<lparr>sr_cb := cb\<rparr>) = Some (st1\<lparr>sr_cb := cb'\<rparr>)
    \<and> reader_ok cb' \<and> \<not> cb_isAtEOF cb' \<and> contents cb' = bs"
proof -
  from getString_ahead [OF assms(2,3,4)] obtain cb' where
    g: "getString cb (length s) = (map to_char s, cb')" "reader_ok cb'" "\<not> cb_isAtEOF cb'" "contents cb' = bs" by blast
  consider "tag = CXFI_KEY_LIST" | "tag = CXFI_VERSION" | "tag = CXFI_FILE_NAME" | "tag = CXFI_SYMBOL_NAME"
    | "tag \<notin> {CXFI_KEY_LIST, CXFI_VERSION, CXFI_FILE_NAME, CXFI_SYMBOL_NAME}" by blast
  then show ?thesis
  proof cases
    case 1
    with assms(1) read_keys_ahead [OF assms(2,3,4), of st] show ?thesis
      by (auto simp: record_effect_def scan_record_def snapshotLoadScanDispatchTable_def scanFunction_ReadKeys_def
          split: if_splits)
  next
    case 2
    with assms(1) g show ?thesis
      by (auto simp: record_effect_def scan_record_def snapshotLoadScanDispatchTable_def scanFunction_VersionCheck_def
          cxfi_defs split: if_splits)
  next
    case 3
    with assms(1) g show ?thesis
      by (auto simp: record_effect_def scan_record_def snapshotLoadScanDispatchTable_def scanFunction_ReadFileName_def
          cxfi_defs read_file_name_cb split: if_splits)
  next
    case 4
    with assms(1) g show ?thesis
      by (auto simp: record_effect_def scan_record_def snapshotLoadScanDispatchTable_def
          scanFunction_SymbolNameForSnapshotLoad_def scanSymbolName_def cxfi_defs read_symbol_name_cb split: if_splits)
  next
    case 5
    then have "s = []" using assms(1) by (auto simp: record_effect_def split: if_splits)
    consider "tag = CXFI_REFERENCE" | "tag = CXFI_CHECK_NUMBER" | "map_of snapshotLoadScanDispatchTable tag = None"
      using 5 by (cases "tag = CXFI_REFERENCE"; cases "tag = CXFI_CHECK_NUMBER") (simp_all add: snapshotLoadScanDispatchTable_def)
    then show ?thesis
    proof cases
      case 1
      then have "map_of snapshotLoadScanDispatchTable tag = Some scanFunction_ReferenceForSnapshotLoad"
        by (simp add: snapshotLoadScanDispatchTable_def cxfi_defs)
      moreover have "scanFunction_ReferenceForSnapshotLoad env n st = Some st1"
        using assms(1) 5 1 \<open>s = []\<close> by (simp add: record_effect_def)
      ultimately show ?thesis using assms(2,3,4) \<open>s = []\<close> by (auto simp: scan_record_def read_reference_cb)
    next
      case 2
      then have "map_of snapshotLoadScanDispatchTable tag = Some scanFunction_CheckNumber"
        by (simp add: snapshotLoadScanDispatchTable_def cxfi_defs)
      moreover have "st1 = st" using assms(1) 5 2 \<open>s = []\<close> by (simp add: record_effect_def cxfi_defs)
      ultimately show ?thesis
        using assms(2,3,4) \<open>s = []\<close> by (auto simp: scan_record_def scanFunction_CheckNumber_def)
    next
      case 3
      then have "tag \<noteq> CXFI_REFERENCE" "tag \<noteq> CXFI_CHECK_NUMBER"
        by (auto simp: snapshotLoadScanDispatchTable_def split: if_splits)
      with 5 assms(1) \<open>s = []\<close> have "sr_keyUsed st tag" "st1 = st"
        by (auto simp: record_effect_def split: if_splits)
      with 3 show ?thesis using assms(2,3,4) \<open>s = []\<close> by (auto simp: scan_record_def)
    qed
  qed
qed

text \<open>Reading the characters ahead, up to some of the records.\<close>

inductive reads :: "snapshotEnvironment \<Rightarrow> int list \<Rightarrow> snapshotReader \<Rightarrow> snapshotReader \<Rightarrow> bool" for env where
  reads_end: "reads env [] st st"
| reads_blank: "c \<in> {32, 10, 9} \<Longrightarrow> reads env bs st st' \<Longrightarrow> reads env (c # bs) st st'"
| reads_record: "0 \<le> n \<Longrightarrow> n < 2147483648 \<Longrightarrow> \<not> c_isdigit tag \<Longrightarrow> tag \<notin> {32, 10, 9} \<Longrightarrow> 0 \<le> tag \<Longrightarrow> tag < MAX_CHARS
    \<Longrightarrow> record_effect env tag n s (if sr_keyUsed st tag then st\<lparr>sr_data := (sr_data st)(tag := n)\<rparr> else st) = Some st1
    \<Longrightarrow> \<not> sr_wrongFormatVersion st1
    \<Longrightarrow> reads env bs st1 st' \<Longrightarrow> reads env (number_text n @ tag # s @ bs) st st'"

lemma reads_append: "reads env as st st1 \<Longrightarrow> reads env bs st1 st' \<Longrightarrow> reads env (as @ bs) st st'"
proof (induction rule: reads.induct)
  case (reads_record n tag s st st1 cs st2)
  from reads.reads_record [OF reads_record(1-8) reads_record(10) [OF reads_record(11)]] show ?case by simp
qed (auto intro: reads.intros)

lemma scan_loop_end: "cb_isAtEOF cb \<Longrightarrow> scan_loop env ch (st\<lparr>sr_cb := cb\<rparr>) = Some (st\<lparr>sr_cb := cb\<rparr>)"
  by (subst scan_loop.simps) simp

lemma scan_loop_reads:
  "reads env bs st st' \<Longrightarrow> ahead cb ch bs \<Longrightarrow> \<not> sr_wrongFormatVersion st \<Longrightarrow>
    \<exists>cb'. scan_loop env ch (st\<lparr>sr_cb := cb\<rparr>) = Some (st'\<lparr>sr_cb := cb'\<rparr>)"
proof (induction arbitrary: cb ch rule: reads.induct)
  case (reads_end st)
  then show ?case using scan_loop_end [of cb env ch st] by (auto simp: ahead_def)
next
  case (reads_blank c bs st st')
  let ?cb = "snd (getChar cb)" and ?ch = "fst (getChar cb)"
  have a: "ahead ?cb ?ch bs" by (rule ahead_next [OF reads_blank(4)])
  have skip: "skipWhiteSpace cb ch = skipWhiteSpace ?cb ?ch" by (rule skip_blank [OF reads_blank(4) reads_blank(1)])
  have eof: "\<not> cb_isAtEOF cb" using reads_blank(4) by (simp add: ahead_def)
  show ?case
  proof (cases bs)
    case Nil
    with reads_blank(2) have "st' = st" by (cases rule: reads.cases) (simp_all add: number_text_def)
    have e: "cb_isAtEOF ?cb" "?ch = -1" using a Nil reads_blank(4) reader.get_Nil [of cb] by (auto simp: ahead_def)
    then have "skipWhiteSpace cb ch = Some (-1, ?cb)" using skip skip_end [of ?cb ?ch] by simp
    moreover have "integer_loop ?cb (-1) 0 = Some (-1, 0, ?cb)" by (subst integer_loop.simps) (simp add: c_isdigit_def)
    ultimately have "scanInteger cb ch = Some (0, -1, ?cb)" by (simp add: scanInteger_def)
    then have "scan_loop env ch (st\<lparr>sr_cb := cb\<rparr>) = Some (st\<lparr>sr_cb := ?cb\<rparr>)"
      using eof e(1) reads_blank(5) by (subst scan_loop.simps) simp
    with \<open>st' = st\<close> show ?thesis by blast
  next
    case (Cons b bs')
    then have "\<not> cb_isAtEOF ?cb" using a by (simp add: ahead_def)
    moreover have "scanInteger cb ch = scanInteger ?cb ?ch" using skip by (simp add: scanInteger_def)
    ultimately have "scan_loop env ch (st\<lparr>sr_cb := cb\<rparr>) = scan_loop env ?ch (st\<lparr>sr_cb := ?cb\<rparr>)"
      using eof reads_blank(5)
      by (subst (1 2) scan_loop.simps) (cases "scanInteger ?cb ?ch"; auto)
    with reads_blank(3) [OF a reads_blank(5)] show ?thesis by simp
  qed
next
  case (reads_record n tag s st st1 bs st')
  from scan_number [OF reads_record(11,1,2,3,4)] obtain cb1 where
    n: "scanInteger cb ch = Some (n, tag, cb1)" "ahead cb1 tag (tag # s @ bs)" by blast
  from ahead_ch [OF n(2)] have c1: "contents cb1 = s @ bs" "reader_ok cb1" "\<not> cb_isAtEOF cb1" by blast+
  from scan_record_effect [OF reads_record(7) c1(2,3,1)] obtain cb2 where
    e: "scan_record env tag n ((if sr_keyUsed st tag then st\<lparr>sr_data := (sr_data st)(tag := n)\<rparr> else st)\<lparr>sr_cb := cb1\<rparr>)
      = Some (st1\<lparr>sr_cb := cb2\<rparr>)" "reader_ok cb2" "\<not> cb_isAtEOF cb2" "contents cb2 = bs" by blast
  have "\<not> cb_isAtEOF cb"
    using reads_record(11) by (cases "number_text n @ tag # s @ bs") (auto simp: ahead_def)
  then have "scan_loop env ch (st\<lparr>sr_cb := cb\<rparr>) = scan_loop env (fst (getChar cb2)) (st1\<lparr>sr_cb := snd (getChar cb2)\<rparr>)"
    using n(1) c1(3) e(1) reads_record(5,6,12)
    by (subst scan_loop.simps) (cases "sr_keyUsed st tag"; simp add: cb_last)
  with reads_record(10) [OF _ reads_record(8)] getChar_ahead [OF e(2,3)] e(4) show ?case by simp
qed

end
