(* ===== verification/Snapshot.thy ===== *)
theory Snapshot
  imports CxFile
begin

text \<open>
  What has been written to a snapshot is read back: the files with their times, and the items with their
  references, found under the numbers the files have in the new table.
\<close>

section \<open>What the writer writes is read\<close>

text \<open>The reader knows the tags, and the numbers written last.\<close>

definition follows :: "snapshotWriter \<Rightarrow> snapshotReader \<Rightarrow> bool" where
  "follows w st \<longleftrightarrow> \<not> sr_wrongFormatVersion st
     \<and> (\<forall>tag\<in>set generatedFieldKeyList. sr_keyUsed st tag \<and> (sw_data w tag \<noteq> -1 \<longrightarrow> sr_data st tag = sw_data w tag))"

text \<open>The bytes written from one state of the writer to another take the reader from one state to another.\<close>

definition written :: "snapshotEnvironment \<Rightarrow> snapshotWriter \<Rightarrow> snapshotWriter \<Rightarrow> snapshotReader \<Rightarrow> snapshotReader \<Rightarrow> bool" where
  "written env w w' st st' \<longleftrightarrow> follows w' st'
     \<and> (\<exists>bytes. sw_out w' = sw_out w @ bytes \<and> reads env (map to_char bytes) st st')"

lemma written_trans: "written env w w1 st st1 \<Longrightarrow> written env w1 w2 st1 st2 \<Longrightarrow> written env w w2 st st2"
  unfolding written_def by (force intro: reads_append)

lemma written_refl: "follows w st \<Longrightarrow> written env w w st st"
  by (auto simp: written_def intro: reads_end)

definition plain_tag :: "int \<Rightarrow> bool" where
  "plain_tag tag \<longleftrightarrow> tag \<in> set generatedFieldKeyList \<and> tag \<noteq> CXFI_REFERENCE \<and> tag \<noteq> CXFI_CHECK_NUMBER"

lemma plain_tags: "plain_tag CXFI_FILE_KNOWLEDGE_TIME" "plain_tag CXFI_FILE_KNOWLEDGE_TIME_NSEC"
  "plain_tag CXFI_FILE_CHANGE_TIME" "plain_tag CXFI_FILE_CHANGE_TIME_NSEC" "plain_tag CXFI_FILE_NUMBER"
  "plain_tag CXFI_SYMBOL_TYPE" "plain_tag CXFI_USAGE" "plain_tag CXFI_LINE_INDEX" "plain_tag CXFI_COLUMN_INDEX"
  "plain_tag CXFI_SYMBOL_INDEX" "plain_tag CXFI_INCLUDEFILENUMBER" "plain_tag CXFI_STORAGE"
  by (simp_all add: plain_tag_def generatedFieldKeyList_def cxfi_defs)

lemma listed_tag:
  "tag \<in> set generatedFieldKeyList \<Longrightarrow> \<not> c_isdigit tag \<and> tag \<notin> {32, 10, 9} \<and> 0 \<le> tag \<and> tag < MAX_CHARS
    \<and> to_char tag = tag \<and> tag \<notin> {CXFI_KEY_LIST, CXFI_VERSION, CXFI_FILE_NAME, CXFI_SYMBOL_NAME}"
  by (auto simp: generatedFieldKeyList_def cxfi_defs c_isdigit_def MAX_CHARS_def to_char_def)

lemma number_bytes:
  "0 \<le> n \<Longrightarrow> map to_char (if n \<noteq> 0 then printf_d n else []) = number_text n"
  using decimal_text_digits [of "nat n"]
  by (auto simp: number_text_def printf_d_def to_char_id c_isdigit_def intro!: map_idI)

lemma reads_blanks: "set bs \<subseteq> {32, 10, 9} \<Longrightarrow> reads env cs st st' \<Longrightarrow> reads env (bs @ cs) st st'"
  by (induction bs) (auto intro: reads_blank)

lemma blanks_char: "set bs \<subseteq> {32, 10, 9} \<Longrightarrow> map to_char bs = bs"
  by (induction bs) (auto simp: to_char_def)

lemma reads_plain:
  assumes "plain_tag tag" "sr_keyUsed st tag" "0 \<le> n" "n < 2147483648" "\<not> sr_wrongFormatVersion st"
  shows "reads env (number_text n @ [tag]) st (st\<lparr>sr_data := (sr_data st)(tag := n)\<rparr>)"
proof -
  have t: "tag \<in> set generatedFieldKeyList" "tag \<noteq> CXFI_REFERENCE" "tag \<noteq> CXFI_CHECK_NUMBER"
    using assms(1) by (simp_all add: plain_tag_def)
  note l = listed_tag [OF t(1)]
  have "record_effect env tag n [] (st\<lparr>sr_data := (sr_data st)(tag := n)\<rparr>) = Some (st\<lparr>sr_data := (sr_data st)(tag := n)\<rparr>)"
    using l t assms(2) by (simp add: record_effect_def)
  with reads_record [where s = "[]" and bs = "[]" and st = st, OF assms(3,4), of tag env] l assms(2,5) reads_end
  show ?thesis by simp
qed

lemma optional_written:
  assumes "writeOptionalCompactRecord tag n blanks w = Some w'" "follows w st"
    and "plain_tag tag" "0 \<le> n" "n < 2147483648" "set blanks \<subseteq> {32, 10, 9}"
  shows "written env w w' st (st\<lparr>sr_data := (sr_data st)(tag := n)\<rparr>)
    \<and> sw_item w' = sw_item w \<and> sw_symbolIsWritten w' = sw_symbolIsWritten w"
proof -
  have t: "tag \<in> set generatedFieldKeyList" using assms(3) by (simp add: plain_tag_def)
  note f = assms(2) [unfolded follows_def]
  have tagc: "to_char tag = tag" using listed_tag [OF t] by simp
  show ?thesis
  proof (cases "sw_data w tag = n")
    case True
    then have "sr_data st tag = n" using f t assms(4) by force
    then have "(sr_data st)(tag := n) = sr_data st" by auto
    then have same: "st\<lparr>sr_data := (sr_data st)(tag := n)\<rparr> = st" by simp
    have "w' = put_out blanks w"
      using assms(1) True by (auto simp: writeOptionalCompactRecord_def put_out_def split: if_splits)
    moreover have "reads env (map to_char blanks) st st"
      using reads_blanks [OF assms(6) reads_end, of env st] blanks_char [OF assms(6)] by simp
    moreover have "follows (put_out blanks w) st" using assms(2) by (simp add: follows_def put_out_def)
    ultimately show ?thesis unfolding same by (auto simp: written_def put_out_def)
  next
    case False
    then have w': "w' = (put_out [tag] (put_out (if n \<noteq> 0 then printf_d n else []) (put_out blanks w)))
        \<lparr>sw_data := (sw_data w)(tag := n)\<rparr>"
      using assms(1) by (auto simp: writeOptionalCompactRecord_def put_out_def fPutDecimal_def Let_def split: if_splits)
    have "reads env (blanks @ number_text n @ [tag]) st (st\<lparr>sr_data := (sr_data st)(tag := n)\<rparr>)"
      using f t by (intro reads_blanks [OF assms(6)] reads_plain assms) auto
    moreover have "map to_char (blanks @ (if n \<noteq> 0 then printf_d n else []) @ [tag]) = blanks @ number_text n @ [tag]"
      unfolding map_append number_bytes [OF assms(4)] blanks_char [OF assms(6)] using tagc by simp
    moreover have "follows w' (st\<lparr>sr_data := (sr_data st)(tag := n)\<rparr>)" using f by (auto simp: w' follows_def)
    moreover have "sw_out w' = sw_out w @ blanks @ (if n \<noteq> 0 then printf_d n else []) @ [tag]" by (simp add: w' put_out_def)
    ultimately have "written env w w' st (st\<lparr>sr_data := (sr_data st)(tag := n)\<rparr>)"
      unfolding written_def by (intro conjI exI [of _ "blanks @ (if n \<noteq> 0 then printf_d n else []) @ [tag]"]) simp_all
    then show ?thesis by (simp add: w' put_out_def)
  qed
qed

text \<open>Records with a text.\<close>

lemma c_text_char:
  assumes "c \<noteq> CHR 0x00"
  shows "to_char (to_char (of_char c)) \<noteq> 0 \<and> char_of (nat (to_uchar (of_char c))) = c"
proof -
  have m: "(of_char c :: int) mod 256 = of_char c" by simp
  then have b: "0 \<le> (of_char c :: int)" "(of_char c :: int) < 256" by linarith+
  have u: "to_uchar (to_char (to_char (of_char c))) = of_char c" "to_uchar (of_char c) = of_char c"
    unfolding to_uchar_to_char by (simp_all add: to_uchar_def m)
  have n: "nat (of_char c) = (of_char c :: nat)" by (metis nat_int of_nat_of_char)
  have "(of_char (CHR 0x00) :: int) = 0" by simp
  with assms have "(of_char c :: int) \<noteq> 0" by (metis of_char_eq_iff)
  then have "to_char (to_char (of_char c)) \<noteq> 0" using u(1) by (metis mod_0 to_uchar_def)
  then show ?thesis unfolding u(2) n by simp
qed

lemma c_text_bytes: "CHR 0x00 \<notin> set s \<Longrightarrow> c_text (map to_char (map to_char (str_bytes s))) = s"
  by (induction s) (auto simp: c_text_def str_bytes_def c_text_char)

lemma length_str_bytes: "length (str_bytes s) = length s"
  by (simp add: str_bytes_def)

lemma string_reads:
  assumes "tag \<in> {CXFI_VERSION, CXFI_FILE_NAME, CXFI_SYMBOL_NAME, CXFI_KEY_LIST}"
    and "\<not> sr_keyUsed st tag" "int (length s) + 1 < 2147483648"
    and "record_effect env tag (int (length s) + 1) (map to_char (str_bytes s)) st = Some st1" "\<not> sr_wrongFormatVersion st1"
    and "set blanks \<subseteq> {32, 10, 9}"
    and "\<forall>t\<in>set generatedFieldKeyList. sr_keyUsed st1 t \<and> (sw_data w t \<noteq> -1 \<longrightarrow> sr_data st1 t = sw_data w t)"
  shows "written env w (writeStringRecord tag s blanks w) st st1"
proof -
  have "\<not> c_isdigit tag \<and> tag \<notin> {32, 10, 9} \<and> 0 \<le> tag \<and> tag < MAX_CHARS" and tagc: "to_char tag = tag"
    using assms(1) by (auto simp: cxfi_defs c_isdigit_def MAX_CHARS_def to_char_def)
  with reads_record [where bs = "[]" and s = "map to_char (str_bytes s)" and n = "int (length s) + 1" and st = st,
      OF _ assms(3), of tag env st1 st1] assms(2,4,5) reads_end
  have "reads env (number_text (int (length s) + 1) @ tag # map to_char (str_bytes s) @ []) st st1" by simp
  from reads_blanks [OF assms(6) this]
  have "reads env (map to_char (blanks @ printf_d (int (length s) + 1) @ tag # str_bytes s)) st st1"
    using number_bytes [of "int (length s) + 1"] tagc blanks_char [OF assms(6)] by simp
  moreover have "follows (writeStringRecord tag s blanks w) st1"
    using assms(5,7) by (simp add: follows_def writeStringRecord_def put_out_def fPutDecimal_def)
  ultimately show ?thesis
    unfolding written_def
    by (intro conjI exI [of _ "blanks @ printf_d (int (length s) + 1) @ tag # str_bytes s"])
      (simp_all add: writeStringRecord_def put_out_def fPutDecimal_def)
qed

lemma string_data [simp]: "sw_data (writeStringRecord tag s blanks w) = sw_data w"
  "sw_item (writeStringRecord tag s blanks w) = sw_item w"
  "sw_symbolIsWritten (writeStringRecord tag s blanks w) = sw_symbolIsWritten w"
  by (simp_all add: writeStringRecord_def put_out_def fPutDecimal_def)

text \<open>The state in which the numbers of some tags have been read.\<close>

definition with_data :: "(int \<times> int) list \<Rightarrow> snapshotReader \<Rightarrow> snapshotReader" where
  "with_data nums st = st\<lparr>sr_data := foldl (\<lambda>d (tag, n). d(tag := n)) (sr_data st) nums\<rparr>"

lemma with_data_Cons: "with_data ((tag, n) # nums) st = with_data nums (st\<lparr>sr_data := (sr_data st)(tag := n)\<rparr>)"
  by (simp add: with_data_def)

lemma with_data_Nil: "with_data [] st = st"
  by (simp add: with_data_def)

lemma with_data_fields [simp]:
  "sr_files (with_data nums st) = sr_files st" "sr_items (with_data nums st) = sr_items st"
  "sr_mapping (with_data nums st) = sr_mapping st" "sr_item (with_data nums st) = sr_item st"
  "sr_keyUsed (with_data nums st) = sr_keyUsed st" "sr_wrongFormatVersion (with_data nums st) = sr_wrongFormatVersion st"
  by (simp_all add: with_data_def)

definition in_range :: "int \<Rightarrow> bool" where
  "in_range n \<longleftrightarrow> 0 \<le> n \<and> n < 2147483648"

fun write_numbers :: "(int \<times> int \<times> int list) list \<Rightarrow> snapshotWriter \<Rightarrow> snapshotWriter option" where
  "write_numbers [] w = Some w"
| "write_numbers ((tag, n, blanks) # nums) w =
     Option.bind (writeOptionalCompactRecord tag n blanks w) (write_numbers nums)"

abbreviation unblanked :: "(int \<times> int \<times> int list) list \<Rightarrow> (int \<times> int) list" where
  "unblanked nums \<equiv> map (\<lambda>(tag, n, blanks). (tag, n)) nums"

lemma optional_some: "plain_tag tag \<Longrightarrow> \<exists>w'. writeOptionalCompactRecord tag n blanks w = Some w'"
  using listed_tag [of tag] by (auto simp: plain_tag_def writeOptionalCompactRecord_def Let_def)

lemma numbers_written:
  "follows w st \<Longrightarrow> \<forall>(tag, n, blanks)\<in>set nums. plain_tag tag \<and> in_range n \<and> set blanks \<subseteq> {32, 10, 9} \<Longrightarrow>
    \<exists>w'. write_numbers nums w = Some w' \<and> written env w w' st (with_data (unblanked nums) st)
      \<and> sw_item w' = sw_item w \<and> sw_symbolIsWritten w' = sw_symbolIsWritten w"
proof (induction nums arbitrary: w st)
  case Nil
  then show ?case using written_refl [of w st env] by (simp add: with_data_Nil)
next
  case (Cons num nums)
  obtain tag n blanks where num: "num = (tag, n, blanks)" by (cases num) auto
  with Cons(3) have t: "plain_tag tag" "0 \<le> n" "n < 2147483648" "set blanks \<subseteq> {32, 10, 9}" by (auto simp: in_range_def)
  obtain w1 where w1: "writeOptionalCompactRecord tag n blanks w = Some w1" using optional_some [OF t(1)] by blast
  from optional_written [OF w1 Cons(2) t] have o: "written env w w1 st (st\<lparr>sr_data := (sr_data st)(tag := n)\<rparr>)"
    "sw_item w1 = sw_item w" "sw_symbolIsWritten w1 = sw_symbolIsWritten w" by blast+
  then have "follows w1 (st\<lparr>sr_data := (sr_data st)(tag := n)\<rparr>)" by (simp add: written_def)
  from Cons(1) [OF this] Cons(3) obtain w2 where "write_numbers nums w1 = Some w2"
    "written env w1 w2 (st\<lparr>sr_data := (sr_data st)(tag := n)\<rparr>) (with_data (unblanked nums) (st\<lparr>sr_data := (sr_data st)(tag := n)\<rparr>))"
    "sw_item w2 = sw_item w1" "sw_symbolIsWritten w2 = sw_symbolIsWritten w1" by auto
  with o w1 written_trans show ?case by (auto simp: num with_data_Cons)
qed

text \<open>A string record after numbers.\<close>

lemma string_chain:
  assumes "written env w w1 st (with_data nums st)"
    and "tag \<in> {CXFI_FILE_NAME, CXFI_SYMBOL_NAME}" "\<not> sr_keyUsed st tag" "int (length s) + 1 < 2147483648"
    and "record_effect env tag (int (length s) + 1) (map to_char (str_bytes s)) (with_data nums st) = Some st1"
    and "sr_data st1 = sr_data (with_data nums st)" "sr_keyUsed st1 = sr_keyUsed st" "\<not> sr_wrongFormatVersion st1"
    and "set blanks \<subseteq> {32, 10, 9}"
  shows "written env w (writeStringRecord tag s blanks w1) st st1"
proof -
  have "follows w1 (with_data nums st)" using assms(1) by (simp add: written_def)
  then have "\<forall>t\<in>set generatedFieldKeyList. sr_keyUsed st1 t \<and> (sw_data w1 t \<noteq> -1 \<longrightarrow> sr_data st1 t = sw_data w1 t)"
    using assms(6,7) by (simp add: follows_def)
  with string_reads [of tag "with_data nums st" s env st1 blanks w1] assms have
    "written env w1 (writeStringRecord tag s blanks w1) (with_data nums st) st1" by auto
  with assms(1) show ?thesis by (rule written_trans)
qed

section \<open>Files\<close>

definition file_numbers :: "fileItem \<Rightarrow> nat \<Rightarrow> (int \<times> int \<times> int list) list" where
  "file_numbers item number =
     [(CXFI_FILE_NUMBER, int number, [10]),
      (CXFI_FILE_KNOWLEDGE_TIME, tv_sec (fi_knowledgeTime item), [32]),
      (CXFI_FILE_KNOWLEDGE_TIME_NSEC, tv_nsec (fi_knowledgeTime item), []),
      (CXFI_FILE_CHANGE_TIME, tv_sec (fi_changeTime item), []),
      (CXFI_FILE_CHANGE_TIME_NSEC, tv_nsec (fi_changeTime item), [])]"

text \<open>The times can be written as numbers of 31 bits, and the name as a string.\<close>

definition file_writable :: "fileItem \<Rightarrow> bool" where
  "file_writable item \<longleftrightarrow> in_range (tv_sec (fi_knowledgeTime item)) \<and> in_range (tv_nsec (fi_knowledgeTime item))
     \<and> in_range (tv_sec (fi_changeTime item)) \<and> in_range (tv_nsec (fi_changeTime item))
     \<and> length (fi_name item) + 1 < MAX_FILE_NAME_SIZE \<and> CHR 0x00 \<notin> set (fi_name item)"

lemma in_range_int: "in_range n \<Longrightarrow> to_int n = n"
  by (simp add: in_range_def to_int_id)

lemma file_written:
  assumes "follows w st" "file_writable item" "int number < MAX_FILES" "\<not> fi_isDeleted item" "\<not> sr_keyUsed st CXFI_FILE_NAME"
    and "read_file_name env (fi_name item) (with_data (unblanked (file_numbers item number)) st) = Some st1"
  shows "\<exists>w'. writeFileNumberItem item number w = Some w' \<and> written env w w' st st1"
proof -
  let ?nums = "file_numbers item number"
  have "\<forall>(tag, n, blanks)\<in>set ?nums. plain_tag tag \<and> in_range n \<and> set blanks \<subseteq> {32, 10, 9}"
    using assms(2,3) by (simp add: file_numbers_def plain_tags file_writable_def in_range_def MAX_FILES_def)
  from numbers_written [OF assms(1) this] obtain w5 where
    w5: "write_numbers ?nums w = Some w5" "written env w w5 st (with_data (unblanked ?nums) st)" by blast
  have f: "sr_data st1 = sr_data (with_data (unblanked ?nums) st)" "sr_keyUsed st1 = sr_keyUsed st"
    "sr_wrongFormatVersion st1 = sr_wrongFormatVersion st"
    using assms(6) by (auto simp: read_file_name_def Let_def bind_eq_Some_conv split: if_splits)
  have "record_effect env CXFI_FILE_NAME (int (length (fi_name item)) + 1) (map to_char (str_bytes (fi_name item)))
      (with_data (unblanked ?nums) st) = Some st1"
    using assms(2,6) c_text_bytes [of "fi_name item"]
    by (simp add: record_effect_def cxfi_defs file_writable_def length_str_bytes del: list.map_comp)
  from string_chain [OF w5(2) _ assms(5) _ this f(1,2), of "[32]"] assms(1,2) f(3)
  have "written env w (writeStringRecord CXFI_FILE_NAME (fi_name item) [32] w5) st st1"
    by (simp add: file_writable_def MAX_FILE_NAME_SIZE_def follows_def)
  moreover have "writeFileNumberItem item number w
      = Option.bind (write_numbers ?nums w) (\<lambda>w5. Some (writeStringRecord CXFI_FILE_NAME (fi_name item) [32] w5))"
    using assms(2,4) by (simp add: writeFileNumberItem_def in_range_int file_writable_def file_numbers_def)
  ultimately show ?thesis using w5(1) by simp
qed

section \<open>Items\<close>

definition symbol_numbers :: "referenceableItem \<Rightarrow> (int \<times> int \<times> int list) list" where
  "symbol_numbers r =
     [(CXFI_SYMBOL_INDEX, 0, []), (CXFI_SYMBOL_TYPE, type_index (ri_type r), [10]),
      (CXFI_INCLUDEFILENUMBER, ri_includeFileNumber r, []), (CXFI_STORAGE, storage_index (ri_storage r), [])]"

definition reference_numbers :: "reference \<Rightarrow> (int \<times> int \<times> int list) list" where
  "reference_numbers r =
     [(CXFI_USAGE, usage_index (ref_usage r), []), (CXFI_SYMBOL_INDEX, 0, []),
      (CXFI_FILE_NUMBER, pos_file (ref_position r), []), (CXFI_LINE_INDEX, pos_line (ref_position r), []),
      (CXFI_COLUMN_INDEX, pos_col (ref_position r), [])]"

definition symbol_writable :: "referenceableItem \<Rightarrow> bool" where
  "symbol_writable r \<longleftrightarrow> in_range (ri_includeFileNumber r) \<and> CHR 0x00 \<notin> set (ri_linkName r)
     \<and> length (ri_linkName r) + 1 < MAX_CX_SYMBOL_SIZE"

definition reference_writable :: "reference \<Rightarrow> bool" where
  "reference_writable r \<longleftrightarrow>
     in_range (pos_file (ref_position r)) \<and> in_range (pos_line (ref_position r)) \<and> in_range (pos_col (ref_position r))"

lemma optional_item: "writeOptionalCompactRecord tag n blanks w = Some w1 \<Longrightarrow> sw_item w1 = sw_item w"
  by (auto simp: writeOptionalCompactRecord_def put_out_def fPutDecimal_def Let_def split: if_splits)

lemma written_blank: "written env w w1 st st1 \<Longrightarrow> b \<in> {32, 10, 9} \<Longrightarrow> written env w (put_out [b] w1) st st1"
  using reads_append [OF _ reads_blank [OF _ reads_end], of env _ st st1 b] blanks_char [of "[b]"]
  unfolding written_def follows_def put_out_def by fastforce

lemma read_symbol_keeps:
  assumes "read_symbol_name env name st = Some st1"
  shows "sr_data st1 = sr_data st \<and> sr_keyUsed st1 = sr_keyUsed st \<and> sr_mapping st1 = sr_mapping st
    \<and> sr_files st1 = sr_files st \<and> sr_wrongFormatVersion st1 = sr_wrongFormatVersion st"
proof -
  from assms obtain item where i: "(case isMemberInReferenceableItemTable (sr_items st) item of
        (_, _, found # _) \<Rightarrow> Some (st\<lparr>sr_item := Some found\<rparr>)
      | (_, _, []) \<Rightarrow>
          Some (st\<lparr>sr_items := snd (addToReferenceableItemTable (sr_items st) item), sr_item := Some item\<rparr>)) = Some st1"
    by (auto simp: read_symbol_name_def bind_eq_Some_conv)
  obtain b p found where "isMemberInReferenceableItemTable (sr_items st) item = (b, p, found)" by (cases rule: prod_cases3)
  with i show ?thesis by (cases found) auto
qed

lemma symbol_written:
  assumes "follows w st" "sw_item w = Some r" "symbol_writable r" "\<not> sr_keyUsed st CXFI_SYMBOL_NAME"
    and "read_symbol_name env (ri_linkName r) (with_data (unblanked (symbol_numbers r)) st) = Some st1"
  shows "\<exists>w'. writeSymbolItem w = Some w' \<and> written env w w' st st1 \<and> sw_symbolIsWritten w'"
proof -
  let ?nums = "symbol_numbers r"
  have "\<forall>(tag, n, blanks)\<in>set ?nums. plain_tag tag \<and> in_range n \<and> set blanks \<subseteq> {32, 10, 9}"
    using assms(3) type_range [of "ri_type r"] storage_range [of "ri_storage r"]
    by (simp add: symbol_numbers_def plain_tags symbol_writable_def in_range_def)
  from numbers_written [OF assms(1) this] obtain w4 where
    w4: "write_numbers ?nums w = Some w4" "written env w w4 st (with_data (unblanked ?nums) st)" by blast
  have f: "sr_data st1 = sr_data (with_data (unblanked ?nums) st)" "sr_keyUsed st1 = sr_keyUsed st"
    "sr_wrongFormatVersion st1 = sr_wrongFormatVersion st"
    using read_symbol_keeps [OF assms(5)] by simp_all
  have eff: "record_effect env CXFI_SYMBOL_NAME (int (length (ri_linkName r)) + 1) (map to_char (str_bytes (ri_linkName r)))
      (with_data (unblanked ?nums) st) = Some st1"
    using assms(3,5) c_text_bytes [of "ri_linkName r"]
    by (simp add: record_effect_def cxfi_defs symbol_writable_def length_str_bytes del: list.map_comp)
  let ?w5 = "w4\<lparr>sw_symbolIsWritten := True\<rparr>"
  have "written env w ?w5 st (with_data (unblanked ?nums) st)" using w4(2) by (simp add: written_def follows_def)
  from string_chain [OF this _ assms(4) _ eff f(1,2), of "[9]"] assms(1,3) f(3)
  have "written env w (writeStringRecord CXFI_SYMBOL_NAME (ri_linkName r) [9] ?w5) st st1"
    by (simp add: symbol_writable_def MAX_CX_SYMBOL_SIZE_def follows_def)
  from written_blank [OF this, of 9]
  have wr: "written env w (put_out [9] (writeStringRecord CXFI_SYMBOL_NAME (ri_linkName r) [9] ?w5)) st st1" by simp
  have "writeSymbolItem w = Option.bind (write_numbers ?nums w)
      (\<lambda>w4. Some (put_out [9] (writeStringRecord CXFI_SYMBOL_NAME (ri_linkName r) [9] (w4\<lparr>sw_symbolIsWritten := True\<rparr>))))"
    using assms(2) by (auto simp: writeSymbolItem_def symbol_numbers_def Let_def optional_item intro!: Option.bind_cong)
  with wr w4(1) show ?thesis by (auto simp: put_out_def)
qed

lemma reference_record:
  assumes "written env w w1 st st1"
    and "scanFunction_ReferenceForSnapshotLoad env 0 (st1\<lparr>sr_data := (sr_data st1)(CXFI_REFERENCE := 0)\<rparr>) = Some st2"
  shows "\<exists>w2. writeCompactRecord CXFI_REFERENCE 0 [] w1 = Some w2 \<and> written env w w2 st st2
    \<and> sw_symbolIsWritten w2 = sw_symbolIsWritten w1"
proof -
  let ?w2 = "(put_out [CXFI_REFERENCE] w1)\<lparr>sw_data := (sw_data w1)(CXFI_REFERENCE := 0)\<rparr>"
  have w2: "writeCompactRecord CXFI_REFERENCE 0 [] w1 = Some ?w2"
    by (simp add: writeCompactRecord_def put_out_def MAX_CHARS_def CXFI_REFERENCE_def)
  have r: "CXFI_REFERENCE \<in> set generatedFieldKeyList" by (simp add: generatedFieldKeyList_def)
  note l = listed_tag [OF r]
  have f: "\<not> sr_wrongFormatVersion st1" "sr_keyUsed st1 CXFI_REFERENCE" using assms(1) r by (simp_all add: written_def follows_def)
  have same: "sr_data st2 = (sr_data st1)(CXFI_REFERENCE := 0)" "sr_keyUsed st2 = sr_keyUsed st1"
    "sr_wrongFormatVersion st2 = sr_wrongFormatVersion st1"
    using assms(2) by (auto simp: scanFunction_ReferenceForSnapshotLoad_def bind_eq_Some_conv Let_def)
  have "record_effect env CXFI_REFERENCE 0 [] (st1\<lparr>sr_data := (sr_data st1)(CXFI_REFERENCE := 0)\<rparr>) = Some st2"
    using assms(2) by (simp add: record_effect_def cxfi_defs)
  with reads_record [where s = "[]" and bs = "[]" and n = 0 and tag = CXFI_REFERENCE and st = st1 and env = env] l f same(3) reads_end
  have "reads env [CXFI_REFERENCE] st1 st2" by (simp add: number_text_def)
  then have "written env w1 ?w2 st1 st2"
    using assms(1) l same unfolding written_def follows_def by (auto simp: put_out_def)
  with assms(1) written_trans w2 show ?thesis by (auto simp: put_out_def)
qed

lemma reference_written:
  assumes "follows w st" "sw_symbolIsWritten w" "reference_writable r"
    and "scanFunction_ReferenceForSnapshotLoad env 0
      (with_data (unblanked (reference_numbers r) @ [(CXFI_REFERENCE, 0)]) st) = Some st1"
  shows "\<exists>w'. writeCxReference r w = Some w' \<and> written env w w' st st1 \<and> sw_symbolIsWritten w'"
proof -
  let ?nums = "reference_numbers r"
  have "\<forall>(tag, n, blanks)\<in>set ?nums. plain_tag tag \<and> in_range n \<and> set blanks \<subseteq> {32, 10, 9}"
    using assms(3) usage_range [of "ref_usage r"]
    by (simp add: reference_numbers_def plain_tags reference_writable_def in_range_def)
  from numbers_written [OF assms(1) this] obtain w5 where
    w5: "write_numbers ?nums w = Some w5" "written env w w5 st (with_data (unblanked ?nums) st)"
    "sw_symbolIsWritten w5 = sw_symbolIsWritten w" by blast
  have "scanFunction_ReferenceForSnapshotLoad env 0 ((with_data (unblanked ?nums) st)
      \<lparr>sr_data := (sr_data (with_data (unblanked ?nums) st))(CXFI_REFERENCE := 0)\<rparr>) = Some st1"
    using assms(4) by (simp add: with_data_def)
  from reference_record [OF w5(2) this] obtain w6 where
    "writeCompactRecord CXFI_REFERENCE 0 [] w5 = Some w6" "written env w w6 st st1" "sw_symbolIsWritten w6" using w5(3) assms(2) by auto
  moreover have "writeCxReference r w = Option.bind (write_numbers ?nums w) (writeCompactRecord CXFI_REFERENCE 0 [])"
    using assms(2) by (simp add: writeCxReference_def writeCxReferenceBase_def writeSymbolItemIfNotWritten_def reference_numbers_def)
  ultimately show ?thesis using w5(1) by simp
qed

section \<open>The head\<close>

lemma of_char_of_nat: "(of_char (char_of (n :: nat)) :: int) = int (n mod 256)"
  by (metis of_char_of of_nat_of_char)

lemma keys_bytes: "map to_char (str_bytes (map (\<lambda>c. char_of (nat c)) generatedFieldKeyList)) = generatedFieldKeyList"
  by (simp add: generatedFieldKeyList_def cxfi_defs str_bytes_def to_char_def of_char_of_nat)

lemma record_of_text:
  assumes "tag \<in> {CXFI_VERSION, CXFI_KEY_LIST}" "\<not> sr_keyUsed st tag" "int (length s) + 1 < 2147483648"
    and "record_effect env tag (int (length s) + 1) (map to_char (str_bytes s)) st = Some st1" "\<not> sr_wrongFormatVersion st1"
    and "set blanks \<subseteq> {32, 10, 9}"
  shows "reads env (map to_char (blanks @ printf_d (int (length s) + 1) @ [tag] @ str_bytes s)) st st1"
proof -
  have t: "\<not> c_isdigit tag" "tag \<notin> {32, 10, 9}" "0 \<le> tag" "tag < MAX_CHARS" and tagc: "to_char tag = tag"
    using assms(1) by (auto simp: cxfi_defs c_isdigit_def MAX_CHARS_def to_char_def)
  have "record_effect env tag (int (length s) + 1) (map to_char (str_bytes s))
      (if sr_keyUsed st tag then st\<lparr>sr_data := (sr_data st)(tag := int (length s) + 1)\<rparr> else st) = Some st1"
    using assms(2,4) by simp
  from reads_blanks [OF assms(6) reads_record [OF _ assms(3) t this assms(5) reads_end]]
  show ?thesis using number_bytes [of "int (length s) + 1"] tagc blanks_char [OF assms(6)] by simp
qed

lemma head_written:
  fixes exact :: bool
  defines "num \<equiv> composeCxfiCheckNum MAX_FILES exact"
  assumes fresh: "\<forall>tag. tag \<noteq> CXFI_INCLUDEFILENUMBER \<longrightarrow> \<not> sr_keyUsed st tag" and "\<not> sr_wrongFormatVersion st"
  shows "\<exists>w. writeCxFileHead exact [] = Some w \<and> (\<exists>st1. reads env (map to_char (sw_out w)) st st1 \<and> follows w st1
    \<and> \<not> sr_keyUsed st1 CXFI_FILE_NAME \<and> \<not> sr_keyUsed st1 CXFI_SYMBOL_NAME
    \<and> sr_files st1 = sr_files st \<and> sr_items st1 = sr_items st \<and> sr_mapping st1 = sr_mapping st)"
proof -
  let ?keys = "map (\<lambda>c. char_of (nat c)) generatedFieldKeyList :: string"
  have num: "0 \<le> num" "num < 2147483648"
    by (auto simp: num_def composeCxfiCheckNum_def MAX_FILES_def XFILE_HASH_MAX_def to_int_id)
  let ?sk = "st\<lparr>sr_keyUsed := (\<lambda>k. k \<in> set generatedFieldKeyList \<or> sr_keyUsed st k)\<rparr>"
  let ?s3 = "?sk\<lparr>sr_data := (sr_data st)(CXFI_CHECK_NUMBER := num)\<rparr>"
  let ?v = "[10, 10] @ printf_d (int (length get_version_string) + 1) @ [CXFI_VERSION] @ str_bytes get_version_string"
  let ?k = "[10, 10, 10] @ printf_d (int (length ?keys) + 1) @ [CXFI_KEY_LIST] @ str_bytes ?keys"
  let ?n = "[32] @ (if num \<noteq> 0 then printf_d num else []) @ [CXFI_CHECK_NUMBER]"
  have len: "length get_version_string < 100" "length ?keys < 100" "CHR 0x00 \<notin> set get_version_string"
    by (simp_all add: get_version_string_def C_XREF_FILE_FORMAT_VERSION_def generatedFieldKeyList_def)
  have v: "reads env (map to_char ?v) st st"
  proof (rule record_of_text)
    show "record_effect env CXFI_VERSION (int (length get_version_string) + 1) (map to_char (str_bytes get_version_string)) st = Some st"
      using c_text_bytes [OF len(3)] len(1)
      by (simp add: record_effect_def cxfi_defs length_str_bytes TMP_STRING_SIZE_def del: list.map_comp)
  qed (use fresh assms(3) len in \<open>simp_all add: cxfi_defs\<close>)
  have k: "reads env (map to_char ?k) st ?sk"
  proof (rule record_of_text)
    have "\<forall>c\<in>set generatedFieldKeyList. 0 \<le> c \<and> c < MAX_CHARS" using listed_tag by blast
    then show "record_effect env CXFI_KEY_LIST (int (length ?keys) + 1) (map to_char (str_bytes ?keys)) st = Some ?sk"
      unfolding keys_bytes by (simp add: record_effect_def)
  qed (use fresh assms(3) len in \<open>simp_all add: cxfi_defs\<close>)
  have kk: "CXFI_CHECK_NUMBER \<in> set generatedFieldKeyList" by (simp add: generatedFieldKeyList_def)
  note l = listed_tag [OF kk]
  have "record_effect env CXFI_CHECK_NUMBER num []
      (if sr_keyUsed ?sk CXFI_CHECK_NUMBER then ?sk\<lparr>sr_data := (sr_data ?sk)(CXFI_CHECK_NUMBER := num)\<rparr> else ?sk) = Some ?s3"
    using kk by (simp add: record_effect_def cxfi_defs)
  from reads_blanks [of "[32]", OF _ reads_record [OF num _ _ _ _ this _ reads_end]] l assms(3)
  have "reads env ([32] @ number_text num @ [CXFI_CHECK_NUMBER]) ?sk ?s3" by simp
  then have n: "reads env (map to_char ?n) ?sk ?s3"
    unfolding map_append number_bytes [OF num(1)] using l blanks_char [of "[32]"] by simp
  obtain w where w: "writeCxFileHead exact [] = Some w" "sw_out w = ?v @ ?k @ ?n" "sw_data w = (\<lambda>_. -1)(CXFI_CHECK_NUMBER := num)"
    using num by (simp add: writeCxFileHead_def writeCompactRecord_def writeStringRecord_def put_out_def fPutDecimal_def
        Let_def MAX_CHARS_def CXFI_CHECK_NUMBER_def flip: num_def)
  have r: "reads env (map to_char (sw_out w)) st ?s3"
    unfolding w(2) map_append by (rule reads_append [OF v [unfolded map_append] reads_append [OF k [unfolded map_append] n [unfolded map_append]]])
  have other: "CXFI_FILE_NAME \<notin> set generatedFieldKeyList" "CXFI_SYMBOL_NAME \<notin> set generatedFieldKeyList"
    "CXFI_FILE_NAME \<noteq> CXFI_INCLUDEFILENUMBER" "CXFI_SYMBOL_NAME \<noteq> CXFI_INCLUDEFILENUMBER"
    by (simp_all add: generatedFieldKeyList_def cxfi_defs)
  have "follows w ?s3" using assms(3) by (simp add: follows_def w(3))
  with w(1) r fresh other show ?thesis by (intro exI [of _ w] conjI exI [of _ ?s3]) simp_all
qed

section \<open>The table of files\<close>

definition file_names :: "file_table \<Rightarrow> string set" where
  "file_names table = {fi_name item | item m. getFileItemWithFileNumber table m = Some item}"

lemma slot_item: "getFileItemWithFileNumber table m = Some item \<longleftrightarrow> m < tab_size table \<and> tab_tab table ! m = Some item"
  by (auto simp: getFileItemWithFileNumber_def)

lemma same_name:
  "files.wf_tab table \<Longrightarrow> getFileItemWithFileNumber table m = Some item \<Longrightarrow> getFileItemWithFileNumber table n = Some item'
    \<Longrightarrow> fi_name item = fi_name item' \<Longrightarrow> m = n"
  using fileTableLookup_present [of table m item] fileTableLookup_present [of table n item'] by simp

lemma names_card:
  assumes "files.wf_tab table"
  shows "finite (file_names table) \<and> int (card (file_names table)) = tab_numberOfElements table"
proof -
  let ?P = "{p. p < length (tab_tab table) \<and> tab_tab table ! p \<noteq> None}"
  let ?f = "\<lambda>p. fi_name (the (tab_tab table ! p))"
  have len: "length (tab_tab table) = tab_size table" using assms by (simp add: files.wf_tab_def)
  have "file_names table = ?f ` ?P"
    by (force simp: file_names_def slot_item len image_iff)
  moreover have "inj_on ?f ?P"
    by (intro inj_onI) (auto simp: len intro: same_name [OF assms] simp: slot_item)
  moreover have "tab_numberOfElements table = int (card ?P)"
    using assms by (simp add: files.wf_tab_def length_filter_conv_card)
  ultimately show ?thesis by (simp add: card_image)
qed

lemma absent_name:
  assumes "files.wf_tab table" "name \<notin> file_names table"
  shows "\<forall>a. Some a \<in> set (tab_tab table) \<longrightarrow> \<not> equalFileItems a (newFileItem name)" "fileTableLookup table name = Some (-1)"
proof -
  have len: "length (tab_tab table) = tab_size table" using assms(1) by (simp add: files.wf_tab_def)
  show new: "\<forall>a. Some a \<in> set (tab_tab table) \<longrightarrow> \<not> equalFileItems a (newFileItem name)"
    using assms(2) by (force simp: file_names_def slot_item in_set_conv_nth len equalFileItems_def newFileItem_def fillFileItem_def)
  obtain b p where m: "hashTabIsMember fileHash equalFileItems table (newFileItem name) = Some (b, p)"
    "fileTableLookup table name = Some (if b then int p else -1)" using fileTableLookup_isMember [OF assms(1)] by blast
  with files.isMember_iff [OF assms(1), of "newFileItem name"] new show "fileTableLookup table name = Some (-1)" by auto
qed

text \<open>A name that is not in the table gets a number of its own, and an item without times.\<close>

lemma add_new_name:
  assumes wf: "files.wf_tab table" and new: "name \<notin> file_names table"
    and room: "(tab_numberOfElements table + 1) * 9 div 8 < int (tab_size table)"
  shows "\<exists>p table'. add_normalized fs table name = Some (p, table') \<and> files.wf_tab table' \<and> tab_size table' = tab_size table
    \<and> getFileItemWithFileNumber table p = None
    \<and> (\<exists>item. getFileItemWithFileNumber table' p = Some item \<and> fi_name item = name
        \<and> fi_knowledgeTime item = nullTimestamp \<and> fi_changeTime item = nullTimestamp)
    \<and> (\<forall>m. m \<noteq> p \<longrightarrow> getFileItemWithFileNumber table' m = getFileItemWithFileNumber table m)"
proof -
  have len: "length (tab_tab table) = tab_size table" using wf by (simp add: files.wf_tab_def)
  note a = absent_name [OF wf new]
  from files.add_absent [OF wf a(1) room] obtain p where
    p: "hashTabAdd fileHash equalFileItems table (newFileItem name) =
        Some (p, table\<lparr>tab_numberOfElements := tab_numberOfElements table + 1, tab_tab := (tab_tab table)[p := Some (newFileItem name)]\<rparr>)"
      "p < tab_size table" "tab_tab table ! p = None"
      "files.wf_tab (table\<lparr>tab_numberOfElements := tab_numberOfElements table + 1, tab_tab := (tab_tab table)[p := Some (newFileItem name)]\<rparr>)"
    by blast
  define t1 where "t1 = table\<lparr>tab_numberOfElements := tab_numberOfElements table + 1, tab_tab := (tab_tab table)[p := Some (newFileItem name)]\<rparr>"
  have i1: "getFileItemWithFileNumber t1 p = Some (newFileItem name)" "tab_size t1 = tab_size table"
    "\<forall>m. m \<noteq> p \<longrightarrow> getFileItemWithFileNumber t1 m = getFileItemWithFileNumber table m"
    using p(2) len by (simp_all add: t1_def getFileItemWithFileNumber_def)
  have w1: "files.wf_tab t1" using p(4) by (simp add: t1_def)
  obtain t2 where t2: "updateFileModificationTracking fs t1 p = Some t2"
    using i1(1) by (auto simp: updateFileModificationTracking_def update_item_def)
  from update_item_SomeD [OF w1 t2 [unfolded updateFileModificationTracking_def]]
  have u: "files.wf_tab t2" "tab_size t2 = tab_size t1"
    "getFileItemWithFileNumber t2 p = Some (if editorFileExists fs name
       then (newFileItem name)\<lparr>fi_lastModified := editorFileModificationTime fs name\<rparr> else newFileItem name)"
    "\<forall>m. m \<noteq> p \<longrightarrow> getFileItemWithFileNumber t2 m = getFileItemWithFileNumber t1 m"
    using i1(1) by (auto simp: newFileItem_def fillFileItem_def)
  have "add_normalized fs table name = Some (p, t2)"
    using a(2) p(1) t2 by (simp add: add_normalized_def t1_def)
  moreover have "getFileItemWithFileNumber table p = None" using p(2,3) by (simp add: getFileItemWithFileNumber_def)
  ultimately show ?thesis using u i1 by (auto simp: newFileItem_def fillFileItem_def)
qed

text \<open>The file of the snapshot is in the table with its name and times, under the number it is mapped to.\<close>

definition loaded :: "snapshotReader \<Rightarrow> nat \<Rightarrow> fileItem \<Rightarrow> bool" where
  "loaded st n item \<longleftrightarrow>
     (\<exists>m item'. sr_mapping st (int n) = int m \<and> getFileItemWithFileNumber (sr_files st) m = Some item'
        \<and> fi_name item' = fi_name item \<and> fi_knowledgeTime item' = fi_knowledgeTime item
        \<and> fi_changeTime item' = fi_changeTime item)"

definition names_of :: "file_table \<Rightarrow> nat set \<Rightarrow> string set" where
  "names_of files ns = {fi_name item | item n. n \<in> ns \<and> getFileItemWithFileNumber files n = Some item}"

definition files_loaded :: "file_table \<Rightarrow> nat set \<Rightarrow> snapshotReader \<Rightarrow> bool" where
  "files_loaded files ns st \<longleftrightarrow> files.wf_tab (sr_files st) \<and> tab_size (sr_files st) = tab_size files
     \<and> (\<forall>n\<in>ns. \<exists>item. getFileItemWithFileNumber files n = Some item \<and> loaded st n item)
     \<and> NO_FILE_NAME \<in> file_names (sr_files st) \<and> file_names (sr_files st) \<subseteq> insert NO_FILE_NAME (names_of files ns)
     \<and> (\<forall>m item. getFileItemWithFileNumber (sr_files st) m = Some item \<and> fi_name item \<notin> names_of files ns
          \<longrightarrow> fi_knowledgeTime item = nullTimestamp \<and> fi_changeTime item = nullTimestamp)"

text \<open>The names are what normalising makes of them, and one more file would fit.\<close>

definition files_writable :: "snapshotEnvironment \<Rightarrow> file_table \<Rightarrow> bool" where
  "files_writable env files \<longleftrightarrow> files.wf_tab files \<and> tab_numberOfElements files * 9 div 8 < int (tab_size files)
     \<and> int (tab_size files) \<le> MAX_FILES
     \<and> (\<exists>item. 0 \<le> sv_noFile env \<and> getFileItemWithFileNumber files (nat (sv_noFile env)) = Some item
          \<and> fi_name item = NO_FILE_NAME \<and> \<not> fi_isDeleted item)
     \<and> (\<forall>n item. getFileItemWithFileNumber files n = Some item \<and> \<not> fi_isDeleted item \<longrightarrow> file_writable item
          \<and> (fi_name item = NO_FILE_NAME
             \<or> normalizeFileName_static (sv_caseSensitive env) (fi_name item) (sv_cwd env) = Some (fi_name item)))"

lemma set_times_null:
  "fi_knowledgeTime i = nullTimestamp \<Longrightarrow> fi_changeTime i = nullTimestamp \<Longrightarrow>
    fi_knowledgeTime (set_times k c i) = k \<and> fi_changeTime (set_times k c i) = c \<and> fi_name (set_times k c i) = fi_name i"
  by (simp add: set_times_def fileTimestampIsZero_iff Let_def)

lemma set_times_name: "fi_name (set_times k c i) = fi_name i"
  by (simp add: set_times_def Let_def)

lemma names_of_insert:
  "getFileItemWithFileNumber files n = Some item \<Longrightarrow> names_of files (insert n ns) = insert (fi_name item) (names_of files ns)"
  by (auto simp: names_of_def)

definition names_kept :: "snapshotReader \<Rightarrow> snapshotReader \<Rightarrow> bool" where
  "names_kept st st' \<longleftrightarrow> (\<forall>m j. getFileItemWithFileNumber (sr_files st) m = Some j \<longrightarrow>
     (\<exists>k. getFileItemWithFileNumber (sr_files st') m = Some k \<and> fi_name k = fi_name j))"

lemma names_kept_trans: "names_kept st st1 \<Longrightarrow> names_kept st1 st2 \<Longrightarrow> names_kept st st2"
  unfolding names_kept_def by metis

text \<open>The place for a name that has not been loaded.\<close>

lemma place_for_name:
  assumes ok: "files_writable env files" and ld: "files_loaded files ns st"
    and n: "getFileItemWithFileNumber files n = Some item" "\<not> fi_isDeleted item" "n \<notin> ns"
  shows "\<exists>exist p table'. existsInFileTable (sr_files st) (fi_name item) = Some exist
    \<and> (if \<not> exist then addFileNameToFileTable (sv_caseSensitive env) (sv_cwd env) (sv_fs env) (sr_files st) (fi_name item)
       else map_option (\<lambda>n. (nat n, sr_files st)) (getFileNumberFromFileName (sr_files st) (fi_name item))) = Some (p, table')
    \<and> files.wf_tab table' \<and> tab_size table' = tab_size files
    \<and> (\<exists>i. getFileItemWithFileNumber table' p = Some i \<and> fi_name i = fi_name item
         \<and> fi_knowledgeTime i = nullTimestamp \<and> fi_changeTime i = nullTimestamp)
    \<and> (\<forall>m. m \<noteq> p \<longrightarrow> getFileItemWithFileNumber table' m = getFileItemWithFileNumber (sr_files st) m)
    \<and> (\<forall>j. getFileItemWithFileNumber (sr_files st) p = Some j \<longrightarrow> fi_name j = fi_name item)"
proof -
  let ?t = "sr_files st" and ?name = "fi_name item"
  have wf: "files.wf_tab ?t" and size: "tab_size ?t = tab_size files" using ld by (simp_all add: files_loaded_def)
  have wfs: "files.wf_tab files" using ok by (simp add: files_writable_def)
  have fresh: "?name \<notin> names_of files ns"
    using same_name [OF wfs n(1)] n(3) by (auto simp: names_of_def)
  show ?thesis
  proof (cases "?name \<in> file_names ?t")
    case True
    then obtain m i where i: "getFileItemWithFileNumber ?t m = Some i" "fi_name i = ?name" by (auto simp: file_names_def)
    then have "fileTableLookup ?t ?name = Some (int m)" using fileTableLookup_present [OF wf i(1)] by simp
    moreover have "fi_knowledgeTime i = nullTimestamp \<and> fi_changeTime i = nullTimestamp"
      using ld i fresh by (auto simp: files_loaded_def)
    ultimately show ?thesis
      using i wf size by (intro exI [of _ True] exI [of _ m] exI [of _ ?t])
        (simp add: existsInFileTable_def getFileNumberFromFileName_def)
  next
    case False
    from ld fresh False have "insert ?name (file_names ?t) \<subseteq> insert ?name (insert NO_FILE_NAME (names_of files ns))"
      by (auto simp: files_loaded_def)
    also have "... \<subseteq> file_names files"
    proof -
      from ok obtain i where i: "getFileItemWithFileNumber files (nat (sv_noFile env)) = Some i" "fi_name i = NO_FILE_NAME"
        by (auto simp: files_writable_def)
      have "fi_name i \<in> file_names files" using i(1) by (auto simp: file_names_def)
      then have "NO_FILE_NAME \<in> file_names files" unfolding i(2) .
      with n(1) show ?thesis by (auto simp: file_names_def names_of_def)
    qed
    finally have "card (insert ?name (file_names ?t)) \<le> card (file_names files)"
      using names_card [OF wfs] by (intro card_mono) auto
    then have count: "tab_numberOfElements ?t + 1 \<le> tab_numberOfElements files"
      using names_card [OF wfs] names_card [OF wf] False by simp
    have "(tab_numberOfElements ?t + 1) * 9 div 8 \<le> tab_numberOfElements files * 9 div 8"
      using count by (intro zdiv_mono1) simp_all
    then have room: "(tab_numberOfElements ?t + 1) * 9 div 8 < int (tab_size ?t)"
      using ok size by (simp add: files_writable_def)
    from add_new_name [OF wf False room, of "sv_fs env"] obtain p t' where p: "add_normalized (sv_fs env) ?t ?name = Some (p, t')"
      "files.wf_tab t'" "tab_size t' = tab_size ?t" "getFileItemWithFileNumber ?t p = None"
      "\<exists>i. getFileItemWithFileNumber t' p = Some i \<and> fi_name i = ?name \<and> fi_knowledgeTime i = nullTimestamp
         \<and> fi_changeTime i = nullTimestamp"
      "\<forall>m. m \<noteq> p \<longrightarrow> getFileItemWithFileNumber t' m = getFileItemWithFileNumber ?t m" by blast
    have "?name \<noteq> NO_FILE_NAME" using False ld by (auto simp: files_loaded_def)
    then have "normalizeFileName_static (sv_caseSensitive env) ?name (sv_cwd env) = Some ?name"
      using ok n by (auto simp: files_writable_def)
    with p size absent_name [OF wf False] show ?thesis
      by (intro exI [of _ False] exI [of _ p] exI [of _ t'])
        (simp add: existsInFileTable_def addFileNameToFileTable_def)
  qed
qed

lemma file_data:
  "sr_data (with_data (unblanked (file_numbers item n)) st) CXFI_FILE_NUMBER = int n"
  "sr_data (with_data (unblanked (file_numbers item n)) st) CXFI_FILE_KNOWLEDGE_TIME = tv_sec (fi_knowledgeTime item)"
  "sr_data (with_data (unblanked (file_numbers item n)) st) CXFI_FILE_KNOWLEDGE_TIME_NSEC = tv_nsec (fi_knowledgeTime item)"
  "sr_data (with_data (unblanked (file_numbers item n)) st) CXFI_FILE_CHANGE_TIME = tv_sec (fi_changeTime item)"
  "sr_data (with_data (unblanked (file_numbers item n)) st) CXFI_FILE_CHANGE_TIME_NSEC = tv_nsec (fi_changeTime item)"
  by (simp_all add: with_data_def file_numbers_def cxfi_defs)

lemma read_file_loaded:
  assumes ok: "files_writable env files" and ld: "files_loaded files ns st"
    and n: "getFileItemWithFileNumber files n = Some item" "\<not> fi_isDeleted item" "n \<notin> ns"
  shows "\<exists>st1. read_file_name env (fi_name item) (with_data (unblanked (file_numbers item n)) st) = Some st1
    \<and> files_loaded files (insert n ns) st1 \<and> sr_items st1 = sr_items st \<and> sr_keyUsed st1 = sr_keyUsed st
    \<and> names_kept st st1"
proof -
  let ?st = "with_data (unblanked (file_numbers item n)) st"
  from place_for_name [OF ok ld n] obtain exist p t1 i where
    e: "existsInFileTable (sr_files st) (fi_name item) = Some exist" and
    a: "(if \<not> exist then addFileNameToFileTable (sv_caseSensitive env) (sv_cwd env) (sv_fs env) (sr_files st) (fi_name item)
       else map_option (\<lambda>n. (nat n, sr_files st)) (getFileNumberFromFileName (sr_files st) (fi_name item))) = Some (p, t1)" and
    t1: "files.wf_tab t1" "tab_size t1 = tab_size files" "getFileItemWithFileNumber t1 p = Some i" "fi_name i = fi_name item"
      "fi_knowledgeTime i = nullTimestamp" "fi_changeTime i = nullTimestamp"
      "\<forall>m. m \<noteq> p \<longrightarrow> getFileItemWithFileNumber t1 m = getFileItemWithFileNumber (sr_files st) m"
      "\<forall>j. getFileItemWithFileNumber (sr_files st) p = Some j \<longrightarrow> fi_name j = fi_name item" by blast
  let ?f = "set_times (fi_knowledgeTime item) (fi_changeTime item)"
  have times: "makeFileTimestamp (tv_sec t) (tv_nsec t) = t" for t by (cases t) (simp add: makeFileTimestamp_def)
  obtain t2 where t2: "update_item t1 p ?f = Some t2" using t1(3) by (auto simp: update_item_def)
  from update_item_SomeD [OF t1(1) t2 set_times_name] t1(3) have u: "files.wf_tab t2" "tab_size t2 = tab_size t1"
    "getFileItemWithFileNumber t2 p = Some (?f i)" "\<forall>m. m \<noteq> p \<longrightarrow> getFileItemWithFileNumber t2 m = getFileItemWithFileNumber t1 m" by auto
  have fi: "fi_knowledgeTime (?f i) = fi_knowledgeTime item" "fi_changeTime (?f i) = fi_changeTime item" "fi_name (?f i) = fi_name item"
    using set_times_null [OF t1(5,6)] t1(4) by simp_all
  define st1 where "st1 = ?st\<lparr>sr_files := t2, sr_mapping := (sr_mapping st)(int n := int p)\<rparr>"
  have "int n < MAX_FILES" using ok n(1) by (auto simp: files_writable_def slot_item)
  then have r: "read_file_name env (fi_name item) ?st = Some st1"
    using e a t2 by (cases exist) (auto simp: read_file_name_def Let_def file_data times st1_def)
  have other: "getFileItemWithFileNumber t2 m = getFileItemWithFileNumber (sr_files st) m" if "m \<noteq> p" for m
    using that u(4) t1(7) by simp
  have nm: "names_of files (insert n ns) = insert (fi_name item) (names_of files ns)" by (rule names_of_insert [OF n(1)])
  have fresh: "fi_name item \<notin> names_of files ns"
    using ok same_name [OF _ n(1)] n(3) by (auto simp: names_of_def files_writable_def)
  have names: "file_names t2 \<subseteq> insert (fi_name item) (file_names (sr_files st))"
  proof
    fix x assume "x \<in> file_names t2"
    then obtain m j where j: "getFileItemWithFileNumber t2 m = Some j" "fi_name j = x" by (auto simp: file_names_def)
    show "x \<in> insert (fi_name item) (file_names (sr_files st))"
      using j u(3) fi(3) other [of m] by (cases "m = p") (auto simp: file_names_def)
  qed
  have kept: "\<exists>k. getFileItemWithFileNumber t2 m = Some k \<and> fi_name k = fi_name j"
    if j: "getFileItemWithFileNumber (sr_files st) m = Some j" for m j
  proof (cases "m = p")
    case True
    then have "fi_name j = fi_name item" using t1(8) j by blast
    with u(3) fi(3) show ?thesis by (intro exI [of _ "?f i"]) (simp add: True)
  next
    case False
    with other j show ?thesis by (intro exI [of _ j]) simp
  qed
  have no: "NO_FILE_NAME \<in> file_names t2"
  proof -
    from ld obtain m j where j: "getFileItemWithFileNumber (sr_files st) m = Some j" "fi_name j = NO_FILE_NAME"
      by (auto simp: files_loaded_def file_names_def)
    from kept [OF j(1)] obtain k where "getFileItemWithFileNumber t2 m = Some k" "fi_name k = NO_FILE_NAME" unfolding j(2) by blast
    then show ?thesis unfolding file_names_def by (intro CollectI exI [of _ k] exI [of _ m]) simp
  qed
  have this_file: "loaded st1 n item" using u(3) fi by (auto simp: loaded_def st1_def)
  have others: "\<exists>item'. getFileItemWithFileNumber files n' = Some item' \<and> loaded st1 n' item'" if "n' \<in> ns" for n'
  proof -
    from ld that obtain item' m j where g: "getFileItemWithFileNumber files n' = Some item'" "sr_mapping st (int n') = int m"
      "getFileItemWithFileNumber (sr_files st) m = Some j" "fi_name j = fi_name item'"
      "fi_knowledgeTime j = fi_knowledgeTime item'" "fi_changeTime j = fi_changeTime item'"
      by (auto simp: files_loaded_def loaded_def)
    have "fi_name item' \<in> names_of files ns" using g(1) that by (auto simp: names_of_def)
    have "m \<noteq> p"
    proof
      assume "m = p"
      then have "fi_name j = fi_name item" using t1(8) g(3) by blast
      with fresh g(4) \<open>fi_name item' \<in> names_of files ns\<close> show False by simp
    qed
    moreover have "n' \<noteq> n" using that n(3) by auto
    ultimately have "sr_mapping st1 (int n') = int m" "getFileItemWithFileNumber (sr_files st1) m = Some j"
      using g other [of m] by (simp_all add: st1_def)
    with g(1,4,5,6) have "loaded st1 n' item'" unfolding loaded_def by blast
    with g(1) show ?thesis by blast
  qed
  have nulls: "fi_knowledgeTime j = nullTimestamp \<and> fi_changeTime j = nullTimestamp"
    if j: "getFileItemWithFileNumber t2 m = Some j" "fi_name j \<notin> names_of files (insert n ns)" for m j
  proof -
    have "m \<noteq> p"
    proof
      assume "m = p"
      then have "j = ?f i" using j(1) u(3) by simp
      then have "fi_name j = fi_name item" using fi(3) by simp
      with j(2) nm show False by simp
    qed
    then have "getFileItemWithFileNumber (sr_files st) m = Some j" using j(1) other by simp
    moreover have "fi_name j \<notin> names_of files ns" using j(2) nm by simp
    ultimately show ?thesis using ld unfolding files_loaded_def by blast
  qed
  have "file_names t2 \<subseteq> insert NO_FILE_NAME (names_of files (insert n ns))"
    using names ld unfolding files_loaded_def nm by blast
  moreover have "\<forall>n'\<in>insert n ns. \<exists>item'. getFileItemWithFileNumber files n' = Some item' \<and> loaded st1 n' item'"
    using this_file others n(1) by blast
  moreover have "sr_files st1 = t2" by (simp add: st1_def)
  moreover have "tab_size t2 = tab_size files" using u(2) t1(2) by simp
  ultimately have "files_loaded files (insert n ns) st1"
    unfolding files_loaded_def using no nulls u(1) by blast
  moreover have "names_kept st st1" using kept by (simp add: names_kept_def st1_def)
  ultimately show ?thesis using r by (intro exI [of _ st1]) (simp add: st1_def)
qed

definition live_files :: "file_table \<Rightarrow> nat set" where
  "live_files files = {n. \<exists>item. getFileItemWithFileNumber files n = Some item \<and> \<not> fi_isDeleted item}"

lemma files_written:
  assumes ok: "files_writable env files"
  shows "slots = drop i (tab_tab files) \<Longrightarrow> follows w st \<Longrightarrow> \<not> sr_keyUsed st CXFI_FILE_NAME \<Longrightarrow>
    files_loaded files {n\<in>live_files files. n < i} st \<Longrightarrow>
    \<exists>w' st'. map_slots (\<lambda>item i w. Option.bind w (writeFileNumberItem item i)) i slots (Some w) = Some w'
      \<and> written env w w' st st' \<and> files_loaded files (live_files files) st' \<and> sr_items st' = sr_items st
      \<and> sr_keyUsed st' = sr_keyUsed st \<and> names_kept st st'"
proof (induction slots arbitrary: i w st)
  case Nil
  have len: "length (tab_tab files) = tab_size files" using ok by (simp add: files_writable_def files.wf_tab_def)
  have "{n\<in>live_files files. n < i} = live_files files"
    using Nil(1) len by (auto simp: live_files_def slot_item)
  with Nil(2,4) written_refl show ?case by (intro exI [of _ w] exI [of _ st]) (simp add: names_kept_def)
next
  case (Cons slot slots)
  have len: "length (tab_tab files) = tab_size files" using ok by (simp add: files_writable_def files.wf_tab_def)
  have i: "i < tab_size files" "tab_tab files ! i = slot" "slots = drop (Suc i) (tab_tab files)"
    using Cons(2) len by (metis Cons_nth_drop_Suc drop_eq_Nil linorder_not_le list.distinct(1) list.inject)+
  have at: "getFileItemWithFileNumber files i = slot" using i by (simp add: getFileItemWithFileNumber_def)
  show ?case
  proof (cases "i \<in> live_files files")
    case True
    then obtain item where item: "slot = Some item" "\<not> fi_isDeleted item" using at by (auto simp: live_files_def)
    have g: "getFileItemWithFileNumber files i = Some item" using at item by simp
    have fresh: "i \<notin> {n\<in>live_files files. n < i}" by simp
    from read_file_loaded [OF ok Cons(5) g item(2) fresh] obtain st1 where
      r: "read_file_name env (fi_name item) (with_data (unblanked (file_numbers item i)) st) = Some st1"
        "files_loaded files (insert i {n\<in>live_files files. n < i}) st1" "sr_items st1 = sr_items st"
        "sr_keyUsed st1 = sr_keyUsed st" "names_kept st st1" by blast
    have "file_writable item" "int i < MAX_FILES" using ok g item(2) i(1) by (auto simp: files_writable_def)
    from file_written [OF Cons(3) this item(2) Cons(4) r(1)] obtain w1 where
      w1: "writeFileNumberItem item i w = Some w1" "written env w w1 st st1" by blast
    have "insert i {n\<in>live_files files. n < i} = {n\<in>live_files files. n < Suc i}" using True by (auto simp: less_Suc_eq)
    with r(2) have l: "files_loaded files {n\<in>live_files files. n < Suc i} st1" by simp
    have f: "follows w1 st1" using w1(2) by (simp add: written_def)
    have u: "\<not> sr_keyUsed st1 CXFI_FILE_NAME" using r(4) Cons(4) by simp
    from Cons(1) [OF i(3) f u l] obtain w2 st2 where s2:
      "map_slots (\<lambda>item i w. Option.bind w (writeFileNumberItem item i)) (Suc i) slots (Some w1) = Some w2"
      "written env w1 w2 st1 st2" "files_loaded files (live_files files) st2" "sr_items st2 = sr_items st1"
      "sr_keyUsed st2 = sr_keyUsed st1" "names_kept st1 st2" by blast
    show ?thesis
      using s2 w1(1) written_trans [OF w1(2) s2(2)] names_kept_trans [OF r(5) s2(6)] r(3,4)
      by (intro exI [of _ w2] exI [of _ st2]) (simp add: item(1))
  next
    case False
    then have "{n\<in>live_files files. n < Suc i} = {n\<in>live_files files. n < i}" by (auto simp: less_Suc_eq)
    with Cons(5) have l: "files_loaded files {n\<in>live_files files. n < Suc i} st" by simp
    have "map_slots (\<lambda>item i w. Option.bind w (writeFileNumberItem item i)) i (slot # slots) (Some w)
        = map_slots (\<lambda>item i w. Option.bind w (writeFileNumberItem item i)) (Suc i) slots (Some w)"
      using False at by (cases slot) (auto simp: live_files_def writeFileNumberItem_def)
    with Cons(1) [OF i(3) Cons(3,4) l] show ?thesis by simp
  qed
qed

end
