(* ===== verification/SnapshotItems.thy ===== *)
theory SnapshotItems
  imports Snapshot
begin

text \<open>
  The items of a snapshot and their references are read back, and with the files the whole snapshot is.
\<close>

section \<open>Usages of an item in a table\<close>

definition item_usages :: "item_table \<Rightarrow> referenceableItem \<Rightarrow> position \<rightharpoonup> usage" where
  "item_usages table key =
     (case isMemberInReferenceableItemTable table key of
        (_, _, found # _) \<Rightarrow> usages_of (ri_references found)
      | (_, _, []) \<Rightarrow> Map.empty)"

definition member_of :: "item_table \<Rightarrow> referenceableItem \<Rightarrow> bool" where
  "member_of table key \<longleftrightarrow> fst (isMemberInReferenceableItemTable table key)"

lemma item_usages_find:
  "item_usages table key =
     (case find_member equalReferenceableItems key (hl_tab table ! hashListIndex referenceableItemHash table key) of
        found # _ \<Rightarrow> usages_of (ri_references found) | [] \<Rightarrow> Map.empty)"
  by (simp add: item_usages_def isMemberInReferenceableItemTable_def hashListIsMember_def Let_def)

lemma member_of_find:
  "member_of table key \<longleftrightarrow>
     find_member equalReferenceableItems key (hl_tab table ! hashListIndex referenceableItemHash table key) \<noteq> []"
  by (simp add: member_of_def isMemberInReferenceableItemTable_def hashListIsMember_def Let_def)

lemma find_member_equal_key: "equalReferenceableItems a b \<Longrightarrow>
    find_member equalReferenceableItems a es = find_member equalReferenceableItems b es"
  by (induction es) (auto dest: items.equal_sym items.equal_trans)

lemma item_usages_equal: "equalReferenceableItems a b \<Longrightarrow> item_usages table a = item_usages table b"
  by (simp add: item_usages_find find_member_equal_key [of a b] items.index_equal [of a b])

lemma member_of_equal: "equalReferenceableItems a b \<Longrightarrow> member_of table a = member_of table b"
  by (simp add: member_of_find find_member_equal_key [of a b] items.index_equal [of a b])

lemma equal_item_refl [simp]: "equalReferenceableItems a a"
  by (simp add: equalReferenceableItems_def)

text \<open>Adding an item that is absent.\<close>

lemma add_absent_item:
  assumes "item_table_ok table" "\<not> member_of table item" "ri_references item = []"
  shows "item_table_ok (snd (addToReferenceableItemTable table item))
    \<and> item_usages (snd (addToReferenceableItemTable table item)) k = item_usages table k
    \<and> member_of (snd (addToReferenceableItemTable table item)) item"
proof -
  have wf: "items.wf_list table" using assms(1) by (simp add: item_table_ok_def)
  let ?i = "hashListIndex referenceableItemHash table item"
  have a: "snd (addToReferenceableItemTable table item) = hashListPush table item ?i"
    using assms(2) by (simp add: addToReferenceableItemTable_def hashListAdd_def member_of_def
        isMemberInReferenceableItemTable_def hashListIsMember_def Let_def)
  have ok: "item_table_ok (hashListPush table item ?i)"
  proof -
    have "e = item \<or> e \<in> set (concat (hl_tab table))" if "e \<in> set (concat (hl_tab (hashListPush table item ?i)))" for e
      using that set_update_subset_insert [of "hl_tab table" ?i "item # hl_tab table ! ?i"] items.index_length [OF wf, of item]
      by (fastforce simp: hashListPush_def)
    then show ?thesis
      using assms(1,3) items.wf_list_push [OF wf, of item] unfolding item_table_ok_def by fastforce
  qed
  have u: "item_usages (hashListPush table item ?i) k = item_usages table k"
  proof (cases "equalReferenceableItems item k")
    case True
    then have "\<not> member_of table k" using member_of_equal [OF True] assms(2) by simp
    then have "item_usages table k = Map.empty" by (simp add: item_usages_find member_of_find)
    moreover have "item_usages (hashListPush table item ?i) k = usages_of (ri_references item)"
      by (simp add: item_usages_def isMemberInReferenceableItemTable_def items.isMember_push [OF wf True])
    ultimately show ?thesis by (simp add: assms(3) usages_of_def)
  next
    case False
    then show ?thesis
      by (simp add: item_usages_def isMemberInReferenceableItemTable_def items.isMember_push_other [OF wf False])
  qed
  have "member_of (hashListPush table item ?i) item"
    using items.isMember_push [OF wf equal_item_refl, of item] by (simp add: member_of_def isMemberInReferenceableItemTable_def)
  with a ok u show ?thesis by simp
qed

text \<open>Changing the references of an item.\<close>

lemma find_member_update:
  "find_member equalReferenceableItems k
     (map (\<lambda>e. if equalReferenceableItems e item then e\<lparr>ri_references := f (ri_references e)\<rparr> else e) es)
   = map (\<lambda>e. if equalReferenceableItems e item then e\<lparr>ri_references := f (ri_references e)\<rparr> else e)
     (find_member equalReferenceableItems k es)"
  by (rule find_member_map) simp

lemma update_item_references:
  assumes ok: "item_table_ok table" and mem: "member_of table item"
    and f: "\<And>rs. strictly_ordered rs \<Longrightarrow> strictly_ordered (f rs) \<and> usages_of (f rs) = g (usages_of rs)"
  shows "item_table_ok (update_references item f table)
    \<and> item_usages (update_references item f table) k
        = (if equalReferenceableItems item k then g (item_usages table k) else item_usages table k)
    \<and> member_of (update_references item f table) k = member_of table k"
proof -
  have wf: "items.wf_list table" using ok by (simp add: item_table_ok_def)
  let ?i = "hashListIndex referenceableItemHash table item"
  let ?u = "\<lambda>e. if equalReferenceableItems e item then e\<lparr>ri_references := f (ri_references e)\<rparr> else e"
  let ?t = "update_references item f table"
  have t: "?t = table\<lparr>hl_tab := (hl_tab table)[?i := map ?u (hl_tab table ! ?i)]\<rparr>"
    by (simp add: update_references_def Let_def)
  note len = items.index_length [OF wf]
  have iu: "hashListIndex referenceableItemHash table (?u e) = hashListIndex referenceableItemHash table e" for e by simp
  have ok': "item_table_ok ?t"
  proof -
    have "items.wf_list ?t"
      using wf len [of item] iu unfolding items.wf_list_def t by (auto simp: nth_list_update)
    moreover have "strictly_ordered (ri_references e)" if "e \<in> set (concat (hl_tab ?t))" for e
    proof -
      from that consider "e \<in> set (concat (hl_tab table))" | e' where "e' \<in> set (hl_tab table ! ?i)" "e = ?u e'"
        using set_update_subset_insert [of "hl_tab table" ?i "map ?u (hl_tab table ! ?i)"] by (fastforce simp: t)
      then show ?thesis
      proof cases
        case 1
        then show ?thesis using ok unfolding item_table_ok_def by blast
      next
        case 2
        moreover have "strictly_ordered (ri_references e')"
          using ok 2(1) len [of item] by (auto simp: item_table_ok_def)
        ultimately show ?thesis using f by simp
      qed
    qed
    ultimately show ?thesis by (simp add: item_table_ok_def)
  qed
  let ?j = "hashListIndex referenceableItemHash table k"
  have idx: "hashListIndex referenceableItemHash ?t k = ?j" by (simp add: t)
  have slot: "hl_tab ?t ! ?j = (if ?j = ?i then map ?u (hl_tab table ! ?j) else hl_tab table ! ?j)"
    using len [of item] by (auto simp: t nth_list_update)
  have found: "find_member equalReferenceableItems k (hl_tab ?t ! ?j)
    = (if ?j = ?i then map ?u (find_member equalReferenceableItems k (hl_tab table ! ?j))
       else find_member equalReferenceableItems k (hl_tab table ! ?j))"
    unfolding slot by (simp add: find_member_update)
  have m: "member_of ?t k = member_of table k"
    unfolding member_of_find idx found by simp
  have u: "item_usages ?t k = (if equalReferenceableItems item k then g (item_usages table k) else item_usages table k)"
  proof (cases "find_member equalReferenceableItems k (hl_tab table ! ?j)")
    case Nil
    then have "\<not> member_of table k" by (simp add: member_of_find)
    then have "\<not> equalReferenceableItems item k" using mem member_of_equal [of item k table] by blast
    then show ?thesis unfolding item_usages_find idx found Nil by simp
  next
    case (Cons e es)
    then have e: "equalReferenceableItems e k" "e \<in> set (hl_tab table ! ?j)" using find_member_hd [OF Cons] by blast+
    have ordered: "strictly_ordered (ri_references e)" using ok e(2) len [of k] by (auto simp: item_table_ok_def)
    show ?thesis
    proof (cases "equalReferenceableItems item k")
      case True
      then have "?j = ?i" using items.index_equal [OF True, of table] by simp
      moreover have "equalReferenceableItems e item" using e(1) True items.equal_sym items.equal_trans by blast
      ultimately show ?thesis
        using True f [OF ordered] unfolding item_usages_find idx found Cons by simp
    next
      case False
      then have "\<not> equalReferenceableItems e item" using e(1) items.equal_sym items.equal_trans by blast
      then show ?thesis using False unfolding item_usages_find idx found Cons by simp
    qed
  qed
  from ok' m u show ?thesis by blast
qed


section \<open>Reading the records of an item\<close>

definition moved :: "(int \<Rightarrow> int) \<Rightarrow> position \<Rightarrow> position" where
  "moved f p = Position (f (pos_file p)) (pos_line p) (pos_col p)"

definition moved_item :: "(int \<Rightarrow> int) \<Rightarrow> referenceableItem \<Rightarrow> referenceableItem" where
  "moved_item f item = item\<lparr>ri_includeFileNumber := f (ri_includeFileNumber item), ri_references := []\<rparr>"

definition moved_usages :: "(int \<Rightarrow> int) \<Rightarrow> reference list \<Rightarrow> position \<rightharpoonup> usage" where
  "moved_usages f refs = map_of (map (\<lambda>r. (moved f (ref_position r), ref_usage r)) refs)"

definition add_usage :: "(int \<Rightarrow> int) \<Rightarrow> reference \<Rightarrow> (position \<rightharpoonup> usage) \<Rightarrow> (position \<rightharpoonup> usage)" where
  "add_usage f r m = m(moved f (ref_position r) \<mapsto> ref_usage r)"

definition known_files_same :: "snapshotReader \<Rightarrow> snapshotReader \<Rightarrow> bool" where
  "known_files_same st st' \<longleftrightarrow> sr_files st' = sr_files st \<and> sr_mapping st' = sr_mapping st \<and> sr_keyUsed st' = sr_keyUsed st"

lemma files_loaded_same:
  assumes "known_files_same st st'" "files_loaded files ns st" shows "files_loaded files ns (st'\<lparr>sr_cb := cb\<rparr>)"
proof -
  have sf: "sr_files (st'\<lparr>sr_cb := cb\<rparr>) = sr_files st" "sr_mapping (st'\<lparr>sr_cb := cb\<rparr>) = sr_mapping st"
    using assms(1) by (simp_all add: known_files_same_def)
  show ?thesis using assms(2) unfolding files_loaded_def loaded_def sf .
qed

lemma symbol_read:
  assumes ok: "item_table_ok (sr_items st)"
    and inc: "getIncludedFileNumber (with_data (unblanked (symbol_numbers r)) st) = Some n"
    and mk: "makeReferenceableItem (sv_noFile env) (ri_linkName r) (ri_type r) (ri_storage r) VisibilityGlobal n = Some key"
  shows "\<exists>st1 it. read_symbol_name env (ri_linkName r) (with_data (unblanked (symbol_numbers r)) st) = Some st1
    \<and> sr_item st1 = Some it \<and> equalReferenceableItems it key \<and> member_of (sr_items st1) it
    \<and> item_table_ok (sr_items st1) \<and> (\<forall>k. item_usages (sr_items st1) k = item_usages (sr_items st) k) \<and> known_files_same st st1"
proof -
  let ?st = "with_data (unblanked (symbol_numbers r)) st"
  have d: "sr_data ?st CXFI_STORAGE = storage_index (ri_storage r)" "sr_data ?st CXFI_SYMBOL_TYPE = type_index (ri_type r)"
    by (simp_all add: with_data_def symbol_numbers_def cxfi_defs)
  have refs: "ri_references key = []" using mk by (auto simp: makeReferenceableItem_def split: if_splits)
  obtain b p found where m: "isMemberInReferenceableItemTable (sr_items st) key = (b, p, found)" by (cases rule: prod_cases3)
  have r: "read_symbol_name env (ri_linkName r) ?st = (case found of
      f # _ \<Rightarrow> Some (?st\<lparr>sr_item := Some f\<rparr>)
    | [] \<Rightarrow> Some (?st\<lparr>sr_items := snd (addToReferenceableItemTable (sr_items st) key), sr_item := Some key\<rparr>))"
    using d inc mk m by (simp add: read_symbol_name_def)
  have f: "found = find_member equalReferenceableItems key (hl_tab (sr_items st) ! hashListIndex referenceableItemHash (sr_items st) key)"
    "b = (found \<noteq> [])"
    using m by (auto simp: isMemberInReferenceableItemTable_def hashListIsMember_def Let_def)
  show ?thesis
  proof (cases found)
    case Nil
    then have "\<not> member_of (sr_items st) key" using f(1) by (simp add: member_of_find)
    note a = add_absent_item [OF ok this refs]
    show ?thesis using r Nil a
      by (intro exI [of _ "?st\<lparr>sr_items := snd (addToReferenceableItemTable (sr_items st) key), sr_item := Some key\<rparr>"]
          exI [of _ key]) (simp add: known_files_same_def)
  next
    case (Cons it rest)
    then have e: "equalReferenceableItems it key" using find_member_hd [of equalReferenceableItems key] f(1) by metis
    have "member_of (sr_items st) key" using Cons f(1) by (simp add: member_of_find)
    then have "member_of (sr_items st) it" using member_of_equal [OF e] by simp
    with r Cons e ok show ?thesis
      by (intro exI [of _ "?st\<lparr>sr_item := Some it\<rparr>"] exI [of _ it]) (simp add: known_files_same_def)
  qed
qed

lemma reference_read:
  assumes ok: "item_table_ok (sr_items st)" and mem: "member_of (sr_items st) it" and it: "sr_item st = Some it"
    and dup: "\<not> sv_duplicates env" and r: "0 \<le> pos_file (ref_position r)" "pos_file (ref_position r) < MAX_FILES"
  shows "\<exists>st1. scanFunction_ReferenceForSnapshotLoad env 0 (with_data (unblanked (reference_numbers r) @ [(CXFI_REFERENCE, 0)]) st) = Some st1
    \<and> sr_item st1 = Some it \<and> member_of (sr_items st1) it \<and> item_table_ok (sr_items st1) \<and> known_files_same st st1
    \<and> (\<forall>k. item_usages (sr_items st1) k = (if equalReferenceableItems it k then add_usage (sr_mapping st) r (item_usages (sr_items st) k)
        else item_usages (sr_items st) k))"
proof -
  let ?st = "with_data (unblanked (reference_numbers r) @ [(CXFI_REFERENCE, 0)]) st"
  let ?pos = "moved (sr_mapping st) (ref_position r)"
  let ?f = "\<lambda>refs. place_list (addToReferenceList False refs ?pos (ref_usage r))"
  let ?st1 = "?st\<lparr>sr_items := update_references it ?f (sr_items st)\<rparr>"
  have d: "sr_data ?st CXFI_USAGE = usage_index (ref_usage r)" "sr_data ?st CXFI_FILE_NUMBER = pos_file (ref_position r)"
    "sr_data ?st CXFI_LINE_INDEX = pos_line (ref_position r)" "sr_data ?st CXFI_COLUMN_INDEX = pos_col (ref_position r)"
    by (simp_all add: with_data_def reference_numbers_def cxfi_defs)
  have s: "scanFunction_ReferenceForSnapshotLoad env 0 ?st = Some ?st1"
    using d it dup r by (simp add: scanFunction_ReferenceForSnapshotLoad_def mapped_file_def Let_def makePosition_def moved_def)
  have f: "strictly_ordered rs \<Longrightarrow> strictly_ordered (?f rs) \<and> usages_of (?f rs) = (usages_of rs)(?pos \<mapsto> ref_usage r)" for rs
    by (rule addToReferenceList_ordered)
  note u = update_item_references [OF ok mem, of ?f "\<lambda>m. m(?pos \<mapsto> ref_usage r)", OF f]
  show ?thesis using s u it mem by (intro exI [of _ ?st1]) (simp add: known_files_same_def add_usage_def)
qed


lemma written_follows: "written env w w' st st' \<Longrightarrow> follows w' st'"
  by (simp add: written_def)

lemma known_files_trans: "known_files_same st st1 \<Longrightarrow> known_files_same st1 st2 \<Longrightarrow> known_files_same st st2"
  by (simp add: known_files_same_def)

definition reference_storable :: "file_table \<Rightarrow> reference \<Rightarrow> bool" where
  "reference_storable files r \<longleftrightarrow> reference_writable r \<and> nat (pos_file (ref_position r)) \<in> live_files files"

lemma references_read:
  assumes dup: "\<not> sv_duplicates env" and small: "int (tab_size files) \<le> MAX_FILES"
  shows "\<forall>r\<in>set rs. reference_storable files r \<Longrightarrow> follows w st \<Longrightarrow> sw_symbolIsWritten w \<Longrightarrow> sr_item st = Some it
    \<Longrightarrow> item_table_ok (sr_items st) \<Longrightarrow> member_of (sr_items st) it \<Longrightarrow>
    \<exists>w' st'. write_references files rs w = Some w' \<and> written env w w' st st' \<and> item_table_ok (sr_items st') \<and> known_files_same st st'
      \<and> (\<forall>k. item_usages (sr_items st') k = (if equalReferenceableItems it k
           then fold (add_usage (sr_mapping st)) rs (item_usages (sr_items st) k) else item_usages (sr_items st) k))"
proof (induction rs arbitrary: w st)
  case Nil
  then show ?case using written_refl [of w st env] by (intro exI [of _ w] exI [of _ st]) (simp add: known_files_same_def)
next
  case (Cons r rs)
  from Cons(2) have r: "reference_writable r" "nat (pos_file (ref_position r)) \<in> live_files files"
    by (simp_all add: reference_storable_def)
  then have n: "0 \<le> pos_file (ref_position r)" "pos_file (ref_position r) < MAX_FILES"
    "getFileItemWithFileNumber files (nat (pos_file (ref_position r))) \<noteq> None"
    using small by (auto simp: reference_writable_def in_range_def live_files_def slot_item)
  from reference_read [OF Cons(6,7,5) dup n(1,2)] obtain st1 where s1:
    "scanFunction_ReferenceForSnapshotLoad env 0 (with_data (unblanked (reference_numbers r) @ [(CXFI_REFERENCE, 0)]) st) = Some st1"
    "sr_item st1 = Some it" "member_of (sr_items st1) it" "item_table_ok (sr_items st1)" "known_files_same st st1"
    "\<forall>k. item_usages (sr_items st1) k = (if equalReferenceableItems it k then add_usage (sr_mapping st) r (item_usages (sr_items st) k)
        else item_usages (sr_items st) k)" by blast
  from reference_written [OF Cons(3,4) r(1) s1(1)] obtain w1 where
    w1: "writeCxReference r w = Some w1" "written env w w1 st st1" "sw_symbolIsWritten w1" by blast
  have rest: "\<forall>r\<in>set rs. reference_storable files r" using Cons(2) by simp
  from Cons(1) [OF rest written_follows [OF w1(2)] w1(3) s1(2,4,3)] obtain w2 st2 where s2:
    "write_references files rs w1 = Some w2" "written env w1 w2 st1 st2" "item_table_ok (sr_items st2)" "known_files_same st1 st2"
    "\<forall>k. item_usages (sr_items st2) k = (if equalReferenceableItems it k
           then fold (add_usage (sr_mapping st1)) rs (item_usages (sr_items st1) k) else item_usages (sr_items st1) k)" by blast
  have "write_references files (r # rs) w = Some w2" using n(1,3) w1(1) s2(1) by simp
  moreover have "sr_mapping st1 = sr_mapping st" using s1(5) by (simp add: known_files_same_def)
  ultimately show ?case
    using written_trans [OF w1(2) s2(2)] known_files_trans [OF s1(5) s2(4)] s2(3,5) s1(6)
    by (intro exI [of _ w2] exI [of _ st2]) simp
qed

text \<open>The first reference of an item writes the item before it.\<close>

lemma first_reference:
  assumes "\<not> sw_symbolIsWritten w"
  shows "writeCxReference r w = Option.bind (writeSymbolItem w) (writeCxReference r)"
proof -
  have w1: "sw_symbolIsWritten w1" if w1: "writeSymbolItem w = Some w1" for w1
    using w1 by (auto simp: writeSymbolItem_def bind_eq_Some_conv Let_def put_out_def)
  show ?thesis
  proof (cases "writeSymbolItem w")
    case (Some w1)
    from w1 [OF Some] assms show ?thesis
      by (simp add: Some writeCxReference_def writeCxReferenceBase_def writeSymbolItemIfNotWritten_def)
  qed (use assms in \<open>simp add: writeCxReference_def writeCxReferenceBase_def writeSymbolItemIfNotWritten_def\<close>)
qed

lemma write_references_symbol:
  assumes "\<not> sw_symbolIsWritten w" "rs \<noteq> []" "\<forall>r\<in>set rs. reference_storable files r" "writeSymbolItem w = Some w1"
  shows "write_references files rs w = write_references files rs w1"
proof (cases rs)
  case (Cons r rs')
  then show ?thesis using assms by (simp add: first_reference)
qed (use assms in simp)


section \<open>The table of items\<close>

lemma fold_add_usage:
  "fold (add_usage f) rs m = m ++ map_of (rev (map (\<lambda>r. (moved f (ref_position r), ref_usage r)) rs))"
  by (induction rs arbitrary: m) (auto simp: add_usage_def map_add_assoc)

lemma map_of_rev_distinct: "distinct (map fst xs) \<Longrightarrow> map_of (rev xs) = map_of xs"
  using map_of_inject_set [of "rev xs" xs] by (simp add: rev_map [symmetric])

lemma strictly_ordered_distinct: "strictly_ordered rs \<Longrightarrow> distinct (map ref_position rs)"
  by (induction rs) force+

text \<open>The numbers of the files that were written.\<close>

lemma mapped_live:
  assumes "files_loaded files (live_files files) st" "n \<in> live_files files"
  shows "\<exists>m item. sr_mapping st (int n) = int m \<and> getFileItemWithFileNumber (sr_files st) m = Some item"
  using assms unfolding files_loaded_def loaded_def by blast

lemma mapping_inj:
  assumes ok: "files_writable env files" and ld: "files_loaded files (live_files files) st"
    and n: "n \<in> live_files files" "n' \<in> live_files files" "sr_mapping st (int n) = sr_mapping st (int n')"
  shows "n = n'"
proof -
  from ld n(1) obtain i m j where i: "getFileItemWithFileNumber files n = Some i" "sr_mapping st (int n) = int m"
    "getFileItemWithFileNumber (sr_files st) m = Some j" "fi_name j = fi_name i"
    unfolding files_loaded_def loaded_def by blast
  from ld n(2) obtain i' m' j' where i': "getFileItemWithFileNumber files n' = Some i'" "sr_mapping st (int n') = int m'"
    "getFileItemWithFileNumber (sr_files st) m' = Some j'" "fi_name j' = fi_name i'"
    unfolding files_loaded_def loaded_def by blast
  have "m = m'" using i(2) i'(2) n(3) by simp
  then have "fi_name i = fi_name i'" using i(3,4) i'(3,4) by simp
  with same_name [OF _ i(1) i'(1)] ok show ?thesis by (simp add: files_writable_def)
qed

definition item_storable :: "int \<Rightarrow> file_table \<Rightarrow> referenceableItem \<Rightarrow> bool" where
  "item_storable noFile files item \<longleftrightarrow> symbol_writable item \<and> nat (ri_includeFileNumber item) \<in> live_files files
     \<and> (ri_includeFileNumber item = noFile \<or> ri_type item = TypeCppInclude)
     \<and> strictly_ordered (ri_references item) \<and> (\<forall>r\<in>set (ri_references item). reference_storable files r)"

lemma moved_positions_distinct:
  assumes ok: "files_writable env files" and ld: "files_loaded files (live_files files) st"
    and rs: "strictly_ordered rs" "\<forall>r\<in>set rs. reference_storable files r"
  shows "distinct (map (\<lambda>r. moved (sr_mapping st) (ref_position r)) rs)"
proof -
  have "inj_on (moved (sr_mapping st)) (ref_position ` set rs)"
  proof (rule inj_onI)
    fix p q assume pq: "p \<in> ref_position ` set rs" "q \<in> ref_position ` set rs" "moved (sr_mapping st) p = moved (sr_mapping st) q"
    then have f: "0 \<le> pos_file p" "nat (pos_file p) \<in> live_files files" "0 \<le> pos_file q" "nat (pos_file q) \<in> live_files files"
      using rs(2) by (auto simp: reference_storable_def reference_writable_def in_range_def)
    have "nat (pos_file p) = nat (pos_file q)"
      using mapping_inj [OF ok ld f(2,4)] f(1,3) pq(3) by (simp add: moved_def)
    with f(1,3) pq(3) show "p = q" by (cases p; cases q) (simp add: moved_def)
  qed
  then have "distinct (map (moved (sr_mapping st)) (map ref_position rs))"
    using strictly_ordered_distinct [OF rs(1)] by (simp only: distinct_map set_map)
  then show ?thesis by (simp add: comp_def)
qed

lemma item_read:
  assumes ok: "files_writable env files" and ld: "files_loaded files (live_files files) st"
    and no: "sr_mapping st (sv_noFile env) = sv_noFile env" and dup: "\<not> sv_duplicates env"
    and e: "item_storable (sv_noFile env) files e" and w: "follows w st" and key: "\<not> sr_keyUsed st CXFI_SYMBOL_NAME"
    and tab: "item_table_ok (sr_items st)"
    and new: "ri_visibility e = VisibilityGlobal \<Longrightarrow> item_usages (sr_items st) (moved_item (sr_mapping st) e) = Map.empty"
  shows "\<exists>w' st'. writeReferenceableItem (sv_noFile env) files e w = Some w' \<and> written env w w' st st'
    \<and> item_table_ok (sr_items st') \<and> known_files_same st st'
    \<and> (\<forall>k. item_usages (sr_items st') k = (if ri_visibility e = VisibilityGlobal \<and> equalReferenceableItems (moved_item (sr_mapping st) e) k
         then moved_usages (sr_mapping st) (ri_references e) else item_usages (sr_items st) k))"
proof -
  let ?rs = "ri_references e" and ?key = "moved_item (sr_mapping st) e"
  note e' = e [unfolded item_storable_def]
  have small: "int (tab_size files) \<le> MAX_FILES" using ok by (simp add: files_writable_def)
  obtain cached where c: "makeReferenceableItem (sv_noFile env) (ri_linkName e) (ri_type e) (ri_storage e) (ri_visibility e)
      (ri_includeFileNumber e) = Some cached" "cached = e\<lparr>ri_references := []\<rparr>"
    using e' by (cases e) (auto simp: makeReferenceableItem_def)
  let ?w1 = "w\<lparr>sw_item := Some cached, sw_symbolIsWritten := False\<rparr>"
  have wr: "writeReferenceableItem (sv_noFile env) files e w
      = (if ri_visibility e = VisibilityLocal then Some ?w1 else write_references files ?rs ?w1)"
    using e' c(1) by (simp add: writeReferenceableItem_def symbol_writable_def Let_def)
  have f1: "follows ?w1 st" using w by (simp add: follows_def)
  have from_w1: "written env w w' st st'" if "written env ?w1 w' st st'" for w' st' using that by (simp add: written_def)
  show ?thesis
  proof (cases "ri_visibility e = VisibilityLocal \<or> ?rs = []")
    case True
    have "writeReferenceableItem (sv_noFile env) files e w = Some ?w1" using True wr by auto
    moreover have "item_usages (sr_items st) k = moved_usages (sr_mapping st) ?rs"
      if k: "ri_visibility e = VisibilityGlobal" "equalReferenceableItems ?key k" for k
      using item_usages_equal [OF k(2)] new [OF k(1)] True k(1) by (simp add: moved_usages_def)
    ultimately show ?thesis
      using from_w1 [OF written_refl [OF f1]] tab by (intro exI [of _ ?w1] exI [of _ st]) (simp add: known_files_same_def)
  next
    case False
    then have vis: "ri_visibility e = VisibilityGlobal" by (cases "ri_visibility e") simp_all
    let ?n = "ri_includeFileNumber e"
    have n: "0 \<le> ?n" "nat ?n \<in> live_files files" using e' by (simp_all add: symbol_writable_def in_range_def)
    have lim: "?n < MAX_FILES" using n small by (auto simp: live_files_def slot_item)
    obtain m j where m: "sr_mapping st ?n = int m" "getFileItemWithFileNumber (sr_files st) m = Some j"
      using mapped_live [OF ld n(2)] n(1) by auto
    have inc: "getIncludedFileNumber (with_data (unblanked (symbol_numbers cached)) st) = Some (sr_mapping st ?n)"
      using n(1) lim m by (simp add: getIncludedFileNumber_def mapped_file_def with_data_def symbol_numbers_def c(2) cxfi_defs)
    have mk: "makeReferenceableItem (sv_noFile env) (ri_linkName cached) (ri_type cached) (ri_storage cached) VisibilityGlobal
        (sr_mapping st ?n) = Some ?key"
      using e' no vis by (cases e) (auto simp: makeReferenceableItem_def c(2) moved_item_def)
    from symbol_read [OF tab inc mk] obtain st1 it where s1:
      "read_symbol_name env (ri_linkName cached) (with_data (unblanked (symbol_numbers cached)) st) = Some st1"
      "sr_item st1 = Some it" "equalReferenceableItems it ?key" "member_of (sr_items st1) it" "item_table_ok (sr_items st1)"
      "\<forall>k. item_usages (sr_items st1) k = item_usages (sr_items st) k" "known_files_same st st1" by blast
    have sw: "symbol_writable cached" using e' by (simp add: c(2) symbol_writable_def)
    have "sw_item ?w1 = Some cached" by simp
    from symbol_written [OF f1 this sw key s1(1)] obtain w2 where
      w2: "writeSymbolItem ?w1 = Some w2" "written env ?w1 w2 st st1" "sw_symbolIsWritten w2" by blast
    have rs: "\<forall>r\<in>set ?rs. reference_storable files r" using e' by simp
    from references_read [OF dup small rs written_follows [OF w2(2)] w2(3) s1(2,5,4)] obtain w3 st2 where s2:
      "write_references files ?rs w2 = Some w3" "written env w2 w3 st1 st2" "item_table_ok (sr_items st2)" "known_files_same st1 st2"
      "\<forall>k. item_usages (sr_items st2) k = (if equalReferenceableItems it k
           then fold (add_usage (sr_mapping st1)) ?rs (item_usages (sr_items st1) k) else item_usages (sr_items st1) k)" by blast
    have "\<not> sw_symbolIsWritten ?w1" "?rs \<noteq> []" using False by simp_all
    from write_references_symbol [OF this rs w2(1)] s2(1) wr vis
    have "writeReferenceableItem (sv_noFile env) files e w = Some w3" by simp
    moreover have "written env w w3 st st2" by (rule from_w1 [OF written_trans [OF w2(2) s2(2)]])
    moreover have "known_files_same st st2" by (rule known_files_trans [OF s1(7) s2(4)])
    moreover have "item_usages (sr_items st2) k = (if ri_visibility e = VisibilityGlobal \<and> equalReferenceableItems ?key k
        then moved_usages (sr_mapping st) ?rs else item_usages (sr_items st) k)" for k
    proof -
      have eq: "equalReferenceableItems it k = equalReferenceableItems ?key k"
        using s1(3) items.equal_sym items.equal_trans by blast
      have mp: "sr_mapping st1 = sr_mapping st" using s1(7) by (simp add: known_files_same_def)
      have d: "distinct (map fst (map (\<lambda>r. (moved (sr_mapping st) (ref_position r), ref_usage r)) ?rs))"
        using moved_positions_distinct [OF ok ld _ rs] e' by (simp add: comp_def)
      have "fold (add_usage (sr_mapping st)) ?rs Map.empty = moved_usages (sr_mapping st) ?rs"
        unfolding fold_add_usage moved_usages_def map_of_rev_distinct [OF d] by simp
      moreover have "item_usages (sr_items st) k = Map.empty" if "equalReferenceableItems ?key k"
        using item_usages_equal [OF that] new [OF vis] by simp
      ultimately show ?thesis using s2(5) s1(6) eq mp vis by simp
    qed
    ultimately show ?thesis using s2(3) by blast
  qed
qed


lemma moved_items_differ:
  assumes ok: "files_writable env files" and ld: "files_loaded files (live_files files) st"
    and e: "item_storable no files e" "item_storable no files e'"
    and "equalReferenceableItems (moved_item (sr_mapping st) e) (moved_item (sr_mapping st) e')"
  shows "equalReferenceableItems e e'"
proof -
  have n: "0 \<le> ri_includeFileNumber e" "nat (ri_includeFileNumber e) \<in> live_files files"
    "0 \<le> ri_includeFileNumber e'" "nat (ri_includeFileNumber e') \<in> live_files files"
    using e by (simp_all add: item_storable_def symbol_writable_def in_range_def)
  have "sr_mapping st (ri_includeFileNumber e) = sr_mapping st (ri_includeFileNumber e')"
    using assms(5) by (simp add: equalReferenceableItems_def moved_item_def)
  then have "ri_includeFileNumber e = ri_includeFileNumber e'" using mapping_inj [OF ok ld n(2,4)] n(1,3) by simp
  with assms(5) show ?thesis by (simp add: equalReferenceableItems_def moved_item_def)
qed

definition items_loaded :: "referenceableItem list \<Rightarrow> snapshotReader \<Rightarrow> bool" where
  "items_loaded es st \<longleftrightarrow> (\<forall>e\<in>set es. ri_visibility e = VisibilityGlobal \<longrightarrow>
     item_usages (sr_items st) (moved_item (sr_mapping st) e) = moved_usages (sr_mapping st) (ri_references e))"

definition none_known :: "referenceableItem list \<Rightarrow> snapshotReader \<Rightarrow> bool" where
  "none_known es st \<longleftrightarrow> (\<forall>e\<in>set es. ri_visibility e = VisibilityGlobal \<longrightarrow>
     item_usages (sr_items st) (moved_item (sr_mapping st) e) = Map.empty)"

definition no_two_equal :: "referenceableItem list \<Rightarrow> bool" where
  "no_two_equal es \<longleftrightarrow> sorted_wrt (\<lambda>a b. \<not> equalReferenceableItems a b) es"

lemma items_written:
  assumes ok: "files_writable env files" and dup: "\<not> sv_duplicates env"
  shows "files_loaded files (live_files files) st \<Longrightarrow> sr_mapping st (sv_noFile env) = sv_noFile env \<Longrightarrow>
    \<forall>e\<in>set (read_items @ es). item_storable (sv_noFile env) files e \<Longrightarrow> no_two_equal (read_items @ es) \<Longrightarrow>
    follows w st \<Longrightarrow> \<not> sr_keyUsed st CXFI_SYMBOL_NAME \<Longrightarrow> item_table_ok (sr_items st) \<Longrightarrow>
    items_loaded read_items st \<Longrightarrow> none_known es st \<Longrightarrow>
    \<exists>w' st'. fold (\<lambda>item w. Option.bind w (writeReferenceableItem (sv_noFile env) files item)) es (Some w) = Some w'
      \<and> written env w w' st st' \<and> known_files_same st st' \<and> items_loaded (read_items @ es) st'"
proof (induction es arbitrary: read_items w st)
  case Nil
  then show ?case using written_refl [of w st env] by (intro exI [of _ w] exI [of _ st]) (simp add: known_files_same_def)
next
  case (Cons e es)
  have e: "item_storable (sv_noFile env) files e" using Cons(4) by simp
  have new: "ri_visibility e = VisibilityGlobal \<Longrightarrow> item_usages (sr_items st) (moved_item (sr_mapping st) e) = Map.empty"
    using Cons(10) by (simp add: none_known_def)
  from item_read [OF ok Cons(2,3) dup e Cons(6,7,8) new] obtain w1 st1 where s1:
    "writeReferenceableItem (sv_noFile env) files e w = Some w1" "written env w w1 st st1"
    "item_table_ok (sr_items st1)" "known_files_same st st1"
    "\<forall>k. item_usages (sr_items st1) k = (if ri_visibility e = VisibilityGlobal \<and> equalReferenceableItems (moved_item (sr_mapping st) e) k
         then moved_usages (sr_mapping st) (ri_references e) else item_usages (sr_items st) k)" by blast
  have sf: "sr_files st1 = sr_files st" "sr_mapping st1 = sr_mapping st" "sr_keyUsed st1 = sr_keyUsed st"
    using s1(4) by (simp_all add: known_files_same_def)
  have other: "item_usages (sr_items st1) (moved_item (sr_mapping st) d) = item_usages (sr_items st) (moved_item (sr_mapping st) d)"
    if d: "d \<in> set read_items \<union> set es" for d
  proof -
    have "item_storable (sv_noFile env) files d" using Cons(4) d by auto
    moreover have "\<not> equalReferenceableItems e d"
      using Cons(5) d items.equal_sym [of e d] by (auto simp: no_two_equal_def sorted_wrt_append)
    ultimately have "\<not> equalReferenceableItems (moved_item (sr_mapping st) e) (moved_item (sr_mapping st) d)"
      using moved_items_differ [OF ok Cons(2) e] by blast
    with s1(5) show ?thesis by simp
  qed
  have ld1: "files_loaded files (live_files files) st1"
    using Cons(2) unfolding files_loaded_def loaded_def sf .
  have "items_loaded (read_items @ [e]) st1"
    using Cons(9) other s1(5) by (auto simp: items_loaded_def sf)
  moreover have "none_known es st1" using Cons(10) other by (simp add: none_known_def sf)
  moreover have "\<forall>d\<in>set ((read_items @ [e]) @ es). item_storable (sv_noFile env) files d" "no_two_equal ((read_items @ [e]) @ es)"
    using Cons(4,5) by simp_all
  ultimately obtain w2 st2 where s2:
    "fold (\<lambda>item w. Option.bind w (writeReferenceableItem (sv_noFile env) files item)) es (Some w1) = Some w2"
    "written env w1 w2 st1 st2" "known_files_same st1 st2" "items_loaded ((read_items @ [e]) @ es) st2"
    using Cons(1) [OF ld1 _ _ _ written_follows [OF s1(2)] _ s1(3), of "read_items @ [e]"] Cons(3,7) sf by auto
  with s1(1) written_trans [OF s1(2) s2(2)] known_files_trans [OF s1(4) s2(3)] show ?case
    by (intro exI [of _ w2] exI [of _ st2]) simp
qed


section \<open>The snapshot\<close>

definition items_writable :: "snapshotEnvironment \<Rightarrow> file_table \<Rightarrow> item_table \<Rightarrow> bool" where
  "items_writable env files items \<longleftrightarrow> no_two_equal (concat (hl_tab items))
     \<and> (\<forall>item\<in>set (concat (hl_tab items)). item_storable (sv_noFile env) files item)"

text \<open>A reader before the snapshot: it knows no file but the one that stands for none, and no item.\<close>

definition fresh_reader :: "snapshotEnvironment \<Rightarrow> file_table \<Rightarrow> snapshotReader \<Rightarrow> bool" where
  "fresh_reader env files st \<longleftrightarrow> files.wf_tab (sr_files st) \<and> tab_size (sr_files st) = tab_size files
     \<and> (\<exists>i. getFileItemWithFileNumber (sr_files st) (nat (sv_noFile env)) = Some i \<and> fi_name i = NO_FILE_NAME)
     \<and> (\<forall>m i. getFileItemWithFileNumber (sr_files st) m = Some i \<longrightarrow>
          fi_name i = NO_FILE_NAME \<and> fi_knowledgeTime i = nullTimestamp \<and> fi_changeTime i = nullTimestamp)
     \<and> (\<exists>n>0. sr_items st = initReferenceableItemTable n) \<and> \<not> sv_duplicates env"

lemma fresh_files_loaded:
  assumes "fresh_reader env files st" shows "files_loaded files {} st"
proof -
  have "NO_FILE_NAME \<in> file_names (sr_files st)" using assms by (force simp: fresh_reader_def file_names_def)
  moreover have "file_names (sr_files st) \<subseteq> {NO_FILE_NAME}" using assms by (auto simp: fresh_reader_def file_names_def)
  ultimately show ?thesis using assms unfolding files_loaded_def fresh_reader_def by blast
qed

lemma fresh_item_usages:
  assumes "sr_items st = initReferenceableItemTable n" "0 < n"
  shows "item_usages (sr_items st) k = Map.empty \<and> item_table_ok (sr_items st)"
proof -
  have "hl_tab (sr_items st) ! hashListIndex referenceableItemHash (sr_items st) k = []"
    using assms by (simp add: initReferenceableItemTable_def hashListNoAllocInit_def hashListIndex_def)
  moreover have "item_table_ok (sr_items st)"
    unfolding item_table_ok_def assms(1) initReferenceableItemTable_def
    using items.wf_list_init [OF assms(2)] by (simp add: hashListNoAllocInit_def)
  ultimately show ?thesis by (simp add: item_usages_find)
qed

lemma no_file_mapping:
  assumes ok: "files_writable env files" and ld: "files_loaded files (live_files files) st'"
    and fresh: "fresh_reader env files st" and kept: "names_kept st st'"
  shows "sr_mapping st' (sv_noFile env) = sv_noFile env"
proof -
  from ok obtain i where i: "0 \<le> sv_noFile env" "getFileItemWithFileNumber files (nat (sv_noFile env)) = Some i"
    "fi_name i = NO_FILE_NAME" "\<not> fi_isDeleted i" by (auto simp: files_writable_def)
  then have "nat (sv_noFile env) \<in> live_files files" by (auto simp: live_files_def)
  with ld i obtain m j where m: "sr_mapping st' (sv_noFile env) = int m" "getFileItemWithFileNumber (sr_files st') m = Some j"
    "fi_name j = NO_FILE_NAME" unfolding files_loaded_def loaded_def by fastforce
  from fresh kept obtain k where k: "getFileItemWithFileNumber (sr_files st') (nat (sv_noFile env)) = Some k" "fi_name k = NO_FILE_NAME"
    unfolding fresh_reader_def names_kept_def by metis
  have wf: "files.wf_tab (sr_files st')" using ld by (simp add: files_loaded_def)
  have "m = nat (sv_noFile env)" using same_name [OF wf m(2) k(1)] m(3) k(2) by simp
  with m(1) i(1) show ?thesis by simp
qed

lemma scan_snapshot:
  assumes "reads env (map to_char bytes) ((resetIncomingData env st)\<lparr>sr_wrongFormatVersion := False\<rparr>) st'"
  shows "\<exists>cb. scanCxFileUsing env (Some bytes) st = Some (st'\<lparr>sr_cb := cb\<rparr>)"
proof -
  let ?st = "(resetIncomingData env st)\<lparr>sr_wrongFormatVersion := False\<rparr>"
  let ?cb = "initCharacterBufferFromFile (sr_cb (resetIncomingData env st)) (Some bytes)"
  have "ahead ?cb 32 (32 # map to_char bytes)"
    using init_from_file [of "sr_cb (resetIncomingData env st)" "Some bytes"]
    by (simp add: ahead_def initCharacterBufferFromFile_def fillCharacterBuffer_def)
  moreover have "reads env (32 # map to_char bytes) ?st st'" by (rule reads_blank [OF _ assms]) simp
  ultimately obtain cb where "scan_loop env 32 (?st\<lparr>sr_cb := ?cb\<rparr>) = Some (st'\<lparr>sr_cb := cb\<rparr>)"
    using scan_loop_reads [of env "32 # map to_char bytes" ?st st' ?cb 32] by auto
  moreover have swap: "(resetIncomingData env st)\<lparr>sr_cb := ?cb, sr_wrongFormatVersion := False\<rparr> = ?st\<lparr>sr_cb := ?cb\<rparr>" by simp
  ultimately show ?thesis unfolding scanCxFileUsing_def Let_def option.case swap by blast
qed

text \<open>C2: A snapshot is a round trip: writing it succeeds, reading it into fresh tables succeeds, and then every
  file that was not deleted is in the table under its name with its two times, and every item that is not local
  has exactly its usages, at its positions in the files as they are numbered now.\<close>

theorem snapshot_roundtrip:
  assumes "files_writable env files" "items_writable env files items" "fresh_reader env files st"
  shows "\<exists>bytes st'. writeSingleCxFile (sv_noFile env) exactPositionResolve files items = Some bytes
    \<and> scanCxFileUsing env (Some bytes) st = Some st'
    \<and> (\<forall>n\<in>live_files files. \<exists>item. getFileItemWithFileNumber files n = Some item \<and> loaded st' n item)
    \<and> items_loaded (concat (hl_tab items)) st'"
proof -
  let ?st = "(resetIncomingData env st)\<lparr>sr_wrongFormatVersion := False\<rparr>"
  have "\<forall>tag. tag \<noteq> CXFI_INCLUDEFILENUMBER \<longrightarrow> \<not> sr_keyUsed ?st tag" "\<not> sr_wrongFormatVersion ?st"
    by (simp_all add: resetIncomingData_def)
  from head_written [OF this, of exactPositionResolve env] obtain w st1 where h:
    "writeCxFileHead exactPositionResolve [] = Some w" "reads env (map to_char (sw_out w)) ?st st1" "follows w st1"
    "\<not> sr_keyUsed st1 CXFI_FILE_NAME" "\<not> sr_keyUsed st1 CXFI_SYMBOL_NAME" "sr_files st1 = sr_files ?st" "sr_items st1 = sr_items ?st"
    by blast
  have st1: "sr_files st1 = sr_files st" "sr_items st1 = sr_items st" using h(6,7) by (simp_all add: resetIncomingData_def)
  have fresh1: "fresh_reader env files st1" using assms(3) by (simp add: fresh_reader_def st1)
  have none: "{n\<in>live_files files. n < 0} = {}" by simp
  have slots: "tab_tab files = drop 0 (tab_tab files)" by simp
  from files_written [OF assms(1) slots h(3,4), unfolded none, OF fresh_files_loaded [OF fresh1]] obtain w2 st2 where f:
    "map_slots (\<lambda>item i w. Option.bind w (writeFileNumberItem item i)) 0 (tab_tab files) (Some w) = Some w2"
    "written env w w2 st1 st2" "files_loaded files (live_files files) st2" "sr_items st2 = sr_items st1"
    "sr_keyUsed st2 = sr_keyUsed st1" "names_kept st1 st2" by blast
  obtain n where n: "sr_items st = initReferenceableItemTable n" "0 < n" and dup: "\<not> sv_duplicates env"
    using assms(3) by (auto simp: fresh_reader_def)
  have i2: "sr_items st2 = initReferenceableItemTable n" using f(4) st1(2) n(1) by simp
  have known: "item_table_ok (sr_items st2)" "items_loaded [] st2" "none_known (concat (hl_tab items)) st2"
    using fresh_item_usages [OF i2 n(2)] by (simp_all add: items_loaded_def none_known_def)
  have store: "\<forall>e\<in>set ([] @ concat (hl_tab items)). item_storable (sv_noFile env) files e" "no_two_equal ([] @ concat (hl_tab items))"
    using assms(2) by (simp_all add: items_writable_def)
  have unused: "\<not> sr_keyUsed st2 CXFI_SYMBOL_NAME" using f(5) h(5) by simp
  from items_written [OF assms(1) dup f(3) no_file_mapping [OF assms(1) f(3) fresh1 f(6)] store written_follows [OF f(2)] unused known]
  obtain w3 st3 where i:
    "fold (\<lambda>item w. Option.bind w (writeReferenceableItem (sv_noFile env) files item)) (concat (hl_tab items)) (Some w2) = Some w3"
    "written env w2 w3 st2 st3" "known_files_same st2 st3" "items_loaded ([] @ concat (hl_tab items)) st3" by blast
  have out: "writeSingleCxFile (sv_noFile env) exactPositionResolve files items = Some (sw_out w3)"
    using h(1) f(1) i(1) by (simp add: writeSingleCxFile_def hashTabMapWithIndex_def mapOverReferenceableItemTable_def hashListMap_def)
  from written_trans [OF f(2) i(2)] obtain bytes where b: "sw_out w3 = sw_out w @ bytes" "reads env (map to_char bytes) st1 st3"
    by (auto simp: written_def)
  have "reads env (map to_char (sw_out w3)) ?st st3" using reads_append [OF h(2) b(2)] by (simp add: b(1))
  from scan_snapshot [OF this] obtain cb where s: "scanCxFileUsing env (Some (sw_out w3)) st = Some (st3\<lparr>sr_cb := cb\<rparr>)" by blast
  have "\<forall>n\<in>live_files files. \<exists>item. getFileItemWithFileNumber files n = Some item \<and> loaded (st3\<lparr>sr_cb := cb\<rparr>) n item"
    using files_loaded_same [OF i(3) f(3), of cb] by (simp add: files_loaded_def)
  moreover have "items_loaded (concat (hl_tab items)) (st3\<lparr>sr_cb := cb\<rparr>)" using i(4) by (simp add: items_loaded_def)
  ultimately show ?thesis using out s by blast
qed


definition example_file :: fileItem where
  "example_file = (newFileItem ''/src/a.c'')\<lparr>fi_knowledgeTime := Timestamp 7 1, fi_changeTime := Timestamp 9 0\<rparr>"

definition example_known_item :: "nat \<Rightarrow> nat \<Rightarrow> referenceableItem" where
  "example_known_item noFile n =
     \<lparr>ri_linkName = ''main'', ri_type = TypeDefault, ri_storage = StorageExtern, ri_visibility = VisibilityGlobal,
      ri_includeFileNumber = int noFile, ri_references = [makeReference (Position (int n) 3 4) UsageDefined]\<rparr>"

definition example_snapshot_environment :: "nat \<Rightarrow> snapshotEnvironment" where
  "example_snapshot_environment noFile =
     \<lparr>sv_noFile = int noFile, sv_caseSensitive = True, sv_cwd = ''/src'', sv_fs = example_fs, sv_duplicates = False\<rparr>"

definition example_reader :: "file_table \<Rightarrow> snapshotReader" where
  "example_reader files = \<lparr>sr_keyUsed = (\<lambda>_. False), sr_data = (\<lambda>_. 0), sr_item = None, sr_mapping = (\<lambda>_. 0),
     sr_wrongFormatVersion = False, sr_files = files, sr_items = initReferenceableItemTable 1, sr_cb = example_buffer\<rparr>"

lemma example_tables:
  "\<exists>p q t1 t2. p < 7 \<and> q < 7 \<and> p \<noteq> q \<and> files.wf_tab t1 \<and> files.wf_tab t2
     \<and> t1 = \<lparr>tab_numberOfElements = 1, tab_size = 7, tab_tab = (replicate 7 None)[p := Some (newFileItem NO_FILE_NAME)]\<rparr>
     \<and> t2 = \<lparr>tab_numberOfElements = 2, tab_size = 7,
               tab_tab = (replicate 7 None)[p := Some (newFileItem NO_FILE_NAME), q := Some example_file]\<rparr>"
proof -
  have t0: "example_file_table = \<lparr>tab_numberOfElements = 0, tab_size = 7, tab_tab = replicate 7 None\<rparr>"
    by (simp add: example_file_table_def hashTabNoAllocInit_def)
  have "\<forall>a. Some a \<in> set (tab_tab example_file_table) \<longrightarrow> \<not> equalFileItems a (newFileItem NO_FILE_NAME)"
    "(tab_numberOfElements example_file_table + 1) * 9 div 8 < int (tab_size example_file_table)" by (simp_all add: t0)
  from files.add_absent [OF example_file_table_wf this] obtain p where p: "p < 7"
    "files.wf_tab \<lparr>tab_numberOfElements = 1, tab_size = 7, tab_tab = (replicate 7 None)[p := Some (newFileItem NO_FILE_NAME)]\<rparr>"
    by (auto simp: t0)
  let ?t1 = "\<lparr>tab_numberOfElements = 1, tab_size = 7, tab_tab = (replicate 7 None)[p := Some (newFileItem NO_FILE_NAME)]\<rparr> :: file_table"
  have "\<not> equalFileItems (newFileItem NO_FILE_NAME) example_file"
    by (simp add: equalFileItems_def example_file_def newFileItem_def fillFileItem_def NO_FILE_NAME_def)
  then have "\<forall>a. Some a \<in> set (tab_tab ?t1) \<longrightarrow> \<not> equalFileItems a example_file"
    using p(1) set_update_subset_insert [of "replicate 7 None" p "Some (newFileItem NO_FILE_NAME)"] by auto
  moreover have "(tab_numberOfElements ?t1 + 1) * 9 div 8 < int (tab_size ?t1)" by simp
  ultimately obtain q where q: "q < 7" "(replicate 7 None)[p := Some (newFileItem NO_FILE_NAME)] ! q = None"
    "files.wf_tab \<lparr>tab_numberOfElements = 2, tab_size = 7,
       tab_tab = (replicate 7 None)[p := Some (newFileItem NO_FILE_NAME), q := Some example_file]\<rparr>"
    using files.add_absent [OF p(2), of example_file] by auto
  then have "p \<noteq> q" using p(1) by auto
  with p q show ?thesis by blast
qed

theorem snapshot_roundtrip_witness:
  "\<exists>noFile n files1 files bytes st' m item.
     writeSingleCxFile (int noFile) True files \<lparr>hl_size = 1, hl_tab = [[example_known_item noFile n]]\<rparr> = Some bytes
     \<and> scanCxFileUsing (example_snapshot_environment noFile) (Some bytes) (example_reader files1) = Some st'
     \<and> getFileItemWithFileNumber (sr_files st') m = Some item \<and> fi_name item = ''/src/a.c''
     \<and> fi_knowledgeTime item = Timestamp 7 1 \<and> fi_changeTime item = Timestamp 9 0
     \<and> item_usages (sr_items st') (moved_item (sr_mapping st') (example_known_item noFile n)) (Position (int m) 3 4) = Some UsageDefined"
proof -
  obtain p q t1 t2 where t: "p < 7" "q < 7" "p \<noteq> q" "files.wf_tab t1" "files.wf_tab t2"
    "t1 = \<lparr>tab_numberOfElements = 1, tab_size = 7, tab_tab = (replicate 7 None)[p := Some (newFileItem NO_FILE_NAME)]\<rparr>"
    "t2 = \<lparr>tab_numberOfElements = 2, tab_size = 7,
             tab_tab = (replicate 7 None)[p := Some (newFileItem NO_FILE_NAME), q := Some example_file]\<rparr>"
    using example_tables by blast
  let ?env = "example_snapshot_environment p" and ?items = "\<lparr>hl_size = 1, hl_tab = [[example_known_item p q]]\<rparr>"
  have at1: "getFileItemWithFileNumber t1 m = (if m = p then Some (newFileItem NO_FILE_NAME) else None)" for m
    using t(1) by (simp add: t(6) getFileItemWithFileNumber_def)
  have at2: "getFileItemWithFileNumber t2 m = (if m = q then Some example_file else if m = p then Some (newFileItem NO_FILE_NAME) else None)" for m
    using t(1,2,3) by (simp add: t(7) getFileItemWithFileNumber_def)
  have norm: "normalizeFileName_static True ''/src/a.c'' ''/src'' = Some ''/src/a.c''" by code_simp
  have live: "live_files t2 = {p, q}"
    by (auto simp: live_files_def at2 example_file_def newFileItem_def fillFileItem_def)
  have e: "file_writable example_file" "file_writable (newFileItem NO_FILE_NAME)"
    by (simp_all add: file_writable_def example_file_def newFileItem_def fillFileItem_def in_range_def
        NO_FILE_NAME_def MAX_FILE_NAME_SIZE_def nullTimestamp_def)
  have sizes: "tab_size t1 = 7" "tab_size t2 = 7" "tab_numberOfElements t2 = 2" by (simp_all add: t(6,7))
  have fields: "fi_name example_file = ''/src/a.c''" "\<not> fi_isDeleted example_file"
    "fi_name (newFileItem NO_FILE_NAME) = NO_FILE_NAME" "\<not> fi_isDeleted (newFileItem NO_FILE_NAME)"
    "fi_knowledgeTime (newFileItem NO_FILE_NAME) = nullTimestamp" "fi_changeTime (newFileItem NO_FILE_NAME) = nullTimestamp"
    by (simp_all add: example_file_def newFileItem_def fillFileItem_def)
  have "files_writable ?env t2"
    unfolding files_writable_def using t(3,5) e norm sizes fields
    by (simp add: at2 example_snapshot_environment_def MAX_FILES_def)
  moreover have "items_writable ?env t2 ?items"
    using t(1,2) by (simp add: items_writable_def no_two_equal_def item_storable_def reference_storable_def symbol_writable_def live
        example_known_item_def example_snapshot_environment_def makeReference_def reference_writable_def in_range_def MAX_CX_SYMBOL_SIZE_def)
  moreover have "fresh_reader ?env t2 (example_reader t1)"
    unfolding fresh_reader_def using t(4) sizes fields
    by (auto simp add: example_reader_def example_snapshot_environment_def at1)
  ultimately obtain bytes st' where s: "writeSingleCxFile (sv_noFile ?env) True t2 ?items = Some bytes"
    "scanCxFileUsing ?env (Some bytes) (example_reader t1) = Some st'"
    "\<forall>n\<in>live_files t2. \<exists>item. getFileItemWithFileNumber t2 n = Some item \<and> loaded st' n item"
    "items_loaded (concat (hl_tab ?items)) st'"
    using snapshot_roundtrip [of ?env t2 ?items "example_reader t1" True] by blast
  have "loaded st' q example_file" using s(3) by (auto simp: live at2)
  then obtain m item where m: "sr_mapping st' (int q) = int m" "getFileItemWithFileNumber (sr_files st') m = Some item"
    "fi_name item = fi_name example_file" "fi_knowledgeTime item = fi_knowledgeTime example_file"
    "fi_changeTime item = fi_changeTime example_file" by (auto simp: loaded_def)
  have "item_usages (sr_items st') (moved_item (sr_mapping st') (example_known_item p q)) (Position (int m) 3 4) = Some UsageDefined"
    using s(4) m(1) by (simp add: items_loaded_def moved_usages_def example_known_item_def makeReference_def moved_def)
  then show ?thesis
    using s(1,2) m by (intro exI [of _ p] exI [of _ q] exI [of _ t1] exI [of _ t2] exI [of _ bytes] exI [of _ st'] exI [of _ m] exI [of _ item])
      (simp add: example_snapshot_environment_def example_file_def newFileItem_def fillFileItem_def)
qed

end
