(* ===== verification/SnapshotScan.thy ===== *)
theory SnapshotScan
  imports SnapshotItems
begin

text \<open>
  Reading a snapshot ends, whatever the file holds: the loops over white space and digits end, no handler of a
  record gives characters back, and every round of the loop takes at least one.
\<close>

definition file_reader_ok :: "characterBuffer \<Rightarrow> bool" where
  "file_reader_ok cb \<longleftrightarrow> reader_ok cb \<and> cb_file cb \<noteq> None"

lemma getChar_file: "file_reader_ok cb \<Longrightarrow> file_reader_ok (snd (getChar cb))"
  using getChar_law(2) [of cb]
  by (auto simp: file_reader_ok_def getChar_def refillBuffer_def readFromFileToBuffer_def Let_def
      split: option.splits prod.splits)

interpretation file_reader: char_source getChar ungetChar contents file_reader_ok
proof
  fix cb c cs
  assume ok: "file_reader_ok cb"
  then have r: "reader_ok cb" by (simp add: file_reader_ok_def)
  show "contents cb = [] \<Longrightarrow> fst (getChar cb) = -1 \<and> contents (snd (getChar cb)) = [] \<and> file_reader_ok (snd (getChar cb))"
    using reader.get_Nil [OF r] getChar_file [OF ok] by blast
  show "contents cb = c # cs \<Longrightarrow> fst (getChar cb) = c \<and> contents (snd (getChar cb)) = cs \<and> file_reader_ok (snd (getChar cb))"
    using reader.get_Cons [OF r] getChar_file [OF ok] by blast
  show "file_reader_ok (ungetChar cb c) \<and> contents (ungetChar cb c) = to_char c # contents cb"
    using contents_unget [OF r] ok by (simp add: file_reader_ok_def ungetChar_def)
qed

text \<open>No characters are given back.\<close>

definition reads_on :: "characterBuffer \<Rightarrow> characterBuffer \<Rightarrow> bool" where
  "reads_on cb cb' \<longleftrightarrow> file_reader_ok cb' \<and> length (contents cb') \<le> length (contents cb)"

lemma reads_on_trans: "reads_on cb cb1 \<Longrightarrow> reads_on cb1 cb2 \<Longrightarrow> reads_on cb cb2"
  by (auto simp: reads_on_def)

lemma reads_on_getChar: "file_reader_ok cb \<Longrightarrow> reads_on cb (snd (getChar cb))"
  using file_reader.get_law [of cb] by (simp add: reads_on_def)

lemma reads_on_getString: "file_reader_ok cb \<Longrightarrow> reads_on cb (snd (getString cb n))"
proof (induction n arbitrary: cb)
  case (Suc n)
  have g: "reads_on cb (snd (getChar cb))" by (rule reads_on_getChar [OF Suc(2)])
  then have "reads_on (snd (getChar cb)) (snd (getString (snd (getChar cb)) n))" using Suc(1) by (simp add: reads_on_def)
  with g show ?case by (simp add: case_prod_beta Let_def reads_on_trans)
qed (simp add: reads_on_def)

lemma read_keys_on: "read_keys n st = Some st1 \<Longrightarrow> file_reader_ok (sr_cb st) \<Longrightarrow> reads_on (sr_cb st) (sr_cb st1)"
proof (induction n arbitrary: st)
  case (Suc n)
  let ?ch = "fst (getChar (sr_cb st))" and ?cb = "snd (getChar (sr_cb st))"
  have g: "reads_on (sr_cb st) ?cb" by (rule reads_on_getChar [OF Suc(3)])
  have "read_keys n (st\<lparr>sr_cb := ?cb, sr_keyUsed := (sr_keyUsed st)(?ch := True)\<rparr>) = Some st1"
    using Suc(2) by (simp add: case_prod_beta Let_def split: if_splits)
  from Suc(1) [OF this] g have "reads_on ?cb (sr_cb st1)" by (simp add: reads_on_def)
  with g show ?case by (rule reads_on_trans)
qed (simp add: reads_on_def)

lemma dropWhile_tl_length: "length (tl (dropWhile P (c # cs))) \<le> length cs"
proof -
  have "length (dropWhile P (c # cs)) \<le> length (c # cs)" by (rule length_dropWhile_le)
  then show ?thesis by simp
qed

lemma scanInteger_ends:
  assumes "file_reader_ok cb"
  shows "\<exists>n ch' cb'. scanInteger cb ch = Some (n, ch', cb') \<and> reads_on cb cb'"
proof -
  let ?white = "\<lambda>ch. ch = 32 \<or> ch = 10 \<or> ch = (9::int)"
  have sw: "skipWhiteSpace s c = (if ?white c then skipWhiteSpace (snd (getChar s)) (fst (getChar s)) else Some (c, s))" for s c
    by (subst skipWhiteSpace.simps) simp
  have "\<not> ?white (-1)" by simp
  from file_reader.skip_while [where loop = skipWhiteSpace, OF sw this assms, of ch] obtain ch1 cb1 where
    1: "skipWhiteSpace cb ch = Some (ch1, cb1)" "contents cb1 = tl (dropWhile ?white (ch # contents cb))" "file_reader_ok cb1"
    by blast
  let ?loop = "\<lambda>s c v. map_option (\<lambda>(c, v, s). (c, v, s)) (integer_loop s c v)"
  have il: "integer_loop s c v = (if c_isdigit c then integer_loop (snd (getChar s)) (fst (getChar s)) (to_int (v * 10 + c - 48))
      else Some (c, v, s))" for s c v
    by (subst integer_loop.simps) simp
  have "\<not> c_isdigit (-1)" by (simp add: c_isdigit_def)
  from file_reader.fold_while [where loop = integer_loop and f = "\<lambda>c v. to_int (v * 10 + c - 48)", OF il this 1(3), of ch1 0] obtain ch2 n cb2 where
    2: "integer_loop cb1 ch1 0 = Some (ch2, n, cb2)" "contents cb2 = tl (dropWhile c_isdigit (ch1 # contents cb1))" "file_reader_ok cb2"
    by blast
  have "length (contents cb2) \<le> length (contents cb)"
    using dropWhile_tl_length [of ?white ch "contents cb"] dropWhile_tl_length [of c_isdigit ch1 "contents cb1"] 1(2) 2(2) by simp
  with 1(1) 2(1,3) show ?thesis by (simp add: scanInteger_def reads_on_def)
qed

lemma handlers_read_on:
  assumes run: "scan_record env tag n st = Some st1" and ok: "file_reader_ok (sr_cb st)"
  shows "reads_on (sr_cb st) (sr_cb st1)"
proof -
  have same: "reads_on (sr_cb st) (sr_cb st)" using ok by (simp add: reads_on_def)
  have file_name: "sr_cb s1 = sr_cb s" if "read_file_name env name s = Some s1" for name s s1
    using that by (auto simp: read_file_name_def Let_def bind_eq_Some_conv split: if_splits)
  have symbol_name: "sr_cb s1 = sr_cb s" if "read_symbol_name env name s = Some s1" for name s s1
  proof -
    have "s\<lparr>sr_cb := sr_cb s\<rparr> = s" by simp
    then have "Some s1 = Some (s1\<lparr>sr_cb := sr_cb s\<rparr>)" 
      using read_symbol_name_cb [where st = s and cb = "sr_cb s" and env = env and name = name] that by simp
    then have "sr_cb s1 = sr_cb (s1\<lparr>sr_cb := sr_cb s\<rparr>)" by (simp only: option.inject)
    then show ?thesis by simp
  qed
  have ref: "sr_cb s1 = sr_cb s" if "scanFunction_ReferenceForSnapshotLoad env k s = Some s1" for k s s1
    using that by (auto simp: scanFunction_ReferenceForSnapshotLoad_def bind_eq_Some_conv Let_def)
  note str = reads_on_getString [OF ok, of "nat (n - 1)"]
  show ?thesis
  proof (cases "map_of snapshotLoadScanDispatchTable tag")
    case None
    obtain bytes where f: "cb_file (sr_cb st) = Some bytes" and r: "reader_ok (sr_cb st)" using ok by (auto simp: file_reader_ok_def)
    show ?thesis
    proof (cases "sr_keyUsed st tag")
      case True
      then show ?thesis using run None same by (simp add: scan_record_def)
    next
      case False
      then obtain cb where cb: "skipCharacters (sr_cb st) (n - 1) = Some cb" "st1 = st\<lparr>sr_cb := cb\<rparr>" "0 < n"
        using run None by (auto simp: scan_record_def split: if_splits)
      from skipCharacters_drops [OF r f, of "n - 1"] cb(1,3) have "reader_ok cb" "length (contents cb) \<le> length (contents (sr_cb st))"
        by auto
      moreover have "cb_file cb \<noteq> None"
        using cb(1) f by (auto simp: skipCharacters_def readFromFileToBuffer_def Let_def split: if_splits)
      ultimately show ?thesis by (simp add: cb(2) reads_on_def file_reader_ok_def)
    qed
  next
    case (Some h)
    then have run': "h env n st = Some st1" using run by (simp add: scan_record_def)
    from Some consider "h = scanFunction_ReadKeys" | "h = scanFunction_VersionCheck" | "h = scanFunction_CheckNumber"
      | "h = scanFunction_ReadFileName" | "h = scanFunction_SymbolNameForSnapshotLoad" | "h = scanFunction_ReferenceForSnapshotLoad"
      by (auto simp: snapshotLoadScanDispatchTable_def split: if_splits)
    then show ?thesis
    proof cases
      case 1
      then show ?thesis using run' read_keys_on [OF _ ok] by (simp add: scanFunction_ReadKeys_def)
    next
      case 2
      then show ?thesis using run' str by (auto simp: scanFunction_VersionCheck_def case_prod_beta Let_def split: if_splits)
    next
      case 3
      then show ?thesis using run' same by (simp add: scanFunction_CheckNumber_def)
    next
      case 4
      then show ?thesis
        using run' str file_name by (fastforce simp: scanFunction_ReadFileName_def case_prod_beta Let_def split: if_splits)
    next
      case 5
      then show ?thesis
        using run' str symbol_name
        by (fastforce simp: scanFunction_SymbolNameForSnapshotLoad_def scanSymbolName_def case_prod_beta Let_def split: if_splits)
    next
      case 6
      then show ?thesis using run' ref same by simp
    qed
  qed
qed

text \<open>The loop, round by round: whether it has ended after some rounds, and how.\<close>

fun scan_rounds :: "snapshotEnvironment \<Rightarrow> nat \<Rightarrow> int \<Rightarrow> snapshotReader \<Rightarrow> snapshotReader option option" where
  "scan_rounds env 0 ch st = None"
| "scan_rounds env (Suc rounds) ch st =
     (if cb_isAtEOF (sr_cb st) \<or> sr_wrongFormatVersion st then Some (Some st)
      else (case scanInteger (sr_cb st) ch of
        None \<Rightarrow> None
      | Some (scannedInt, ch1, cb1) \<Rightarrow>
          if cb_isAtEOF cb1 then Some (Some (st\<lparr>sr_cb := cb1\<rparr>))
          else if \<not> (ch1 \<ge> 0 \<and> ch1 < MAX_CHARS) then Some None
          else (case scan_record env ch1 scannedInt
                  (if sr_keyUsed st ch1 then st\<lparr>sr_cb := cb1, sr_data := (sr_data st)(ch1 := scannedInt)\<rparr>
                   else st\<lparr>sr_cb := cb1\<rparr>) of
                  None \<Rightarrow> Some None
                | Some st1 \<Rightarrow> scan_rounds env rounds (fst (getChar (sr_cb st1))) (st1\<lparr>sr_cb := snd (getChar (sr_cb st1))\<rparr>))))"

definition rounds_left :: "characterBuffer \<Rightarrow> nat" where
  "rounds_left cb = length (contents cb) + (if cb_isAtEOF cb then 0 else 1)"

lemma getChar_at_end: "file_reader_ok cb \<Longrightarrow> contents cb = [] \<Longrightarrow> cb_isAtEOF (snd (getChar cb))"
  using getChar_ahead [of cb]
  by (cases "cb_isAtEOF cb") (auto simp: file_reader_ok_def ahead_def getChar_def contents_def unread_some)

lemma rounds_decrease:
  assumes "reads_on cb cb1" "\<not> cb_isAtEOF cb"
  shows "rounds_left (snd (getChar cb1)) < rounds_left cb"
proof (cases "contents cb1")
  case Nil
  with getChar_at_end [of cb1] file_reader.get_law [of cb1] assms show ?thesis by (simp add: reads_on_def rounds_left_def)
next
  case (Cons c cs)
  with file_reader.get_law [of cb1] assms show ?thesis by (simp add: reads_on_def rounds_left_def)
qed


definition example_corrupt_reader :: snapshotReader where
  "example_corrupt_reader =
     (example_reader example_file_table)\<lparr>sr_cb := initCharacterBufferFromFile example_buffer (Some [57, 57, 64, 122])\<rparr>"


end
