(* ===== verification/LexemStream.thy ===== *)
theory LexemStream
  imports Lexer SymbolTable FileTable Messages
begin

text \<open>
  Models \<^verbatim>\<open>lexemstream.c\<close> and the reading of lexems in \<^verbatim>\<open>yylex.c\<close>: the stack of macro inputs, the
  open \<open>#if\<close>s of a file, and how exhausted input is refilled. A stream is a list of whole lexems: what
  \<open>getExtraLexemInformationFor\<close> gets from behind the code of a lexem are the members of \<open>lexem\<close>, and a
  pointer to a lexem in a stream is the list of the lexems from there on. How lexems are laid out in bytes
  is in \<^verbatim>\<open>LexemBuffer\<close>. What the lexer still makes of a file is \<open>fd_lexems\<close>, refill by refill.
\<close>

section \<open>Lexems and streams\<close>

definition FLOAT_CONSTANT :: lexemCode where "FLOAT_CONSTANT = 364"
definition CPP_TOKENS_START :: lexemCode where "CPP_TOKENS_START = 335"
definition CPP_TOKENS_END :: lexemCode where "CPP_TOKENS_END = 349"
definition CPP_DEFINED_OP :: lexemCode where "CPP_DEFINED_OP = 351"
definition CPP_HAS_INCLUDE_OP :: lexemCode where "CPP_HAS_INCLUDE_OP = 352"
definition CPP_HAS_INCLUDE_NEXT_OP :: lexemCode where "CPP_HAS_INCLUDE_NEXT_OP = 353"
definition MULTI_TOKENS_START :: lexemCode where "MULTI_TOKENS_START = 360"
definition CPP_MACRO_ARGUMENT :: lexemCode where "CPP_MACRO_ARGUMENT = 370"
definition IDENT_NO_CPP_EXPAND :: lexemCode where "IDENT_NO_CPP_EXPAND = 371"
definition TYPE_NAME :: lexemCode where "TYPE_NAME = 257"

lemmas lexem_codes = IDENTIFIER_def CONSTANT_def LONG_CONSTANT_def DOUBLE_CONSTANT_def STRING_LITERAL_def
  CHAR_LITERAL_def LINE_TOKEN_def IDENT_TO_COMPLETE_def FLOAT_CONSTANT_def CPP_TOKENS_START_def
  CPP_TOKENS_END_def CPP_DEFINED_OP_def CPP_HAS_INCLUDE_OP_def CPP_HAS_INCLUDE_NEXT_OP_def
  MULTI_TOKENS_START_def CPP_MACRO_ARGUMENT_def IDENT_NO_CPP_EXPAND_def TYPE_NAME_def CPP_COLLATION_def
  CPP_INCLUDE_def CPP_INCLUDE_NEXT_def CPP_DEFINE_def CPP_DEFINE0_def CPP_IFDEF_def CPP_IFNDEF_def CPP_IF_def
  CPP_ELSE_def CPP_ENDIF_def CPP_ELIF_def CPP_UNDEF_def CPP_PRAGMA_def CPP_LINE_def OL_MARKER_TOKEN_def

text \<open>Which members a lexem has depends on its code; \<open>lx_value\<close> is also the number of lines and of an argument.\<close>

record lexem =
  lx_code :: lexemCode
  lx_text :: string
  lx_value :: int
  lx_position :: position
  lx_length :: int

datatype lexemStreamType = NORMAL_STREAM | MACRO_STREAM | MACRO_ARGUMENT_STREAM

record lexemStream =
  ls_begin :: "lexem list"
  ls_read :: "lexem list"
  ls_macroName :: "string option"
  ls_macroCallPosition :: position
  ls_streamType :: lexemStreamType

text \<open>The call position is not set; only that of a macro stream is looked at, and is set by then.\<close>

definition makeLexemStream :: "lexem list \<Rightarrow> lexem list \<Rightarrow> string option \<Rightarrow> lexemStreamType \<Rightarrow> lexemStream" where
  "makeLexemStream bgn rd macroName streamType =
     \<lparr>ls_begin = bgn, ls_read = rd, ls_macroName = macroName, ls_macroCallPosition = Position 0 0 0,
      ls_streamType = streamType\<rparr>"

definition lexemStreamHasMore :: "lexemStream \<Rightarrow> bool" where
  "lexemStreamHasMore stream \<longleftrightarrow> ls_read stream \<noteq> []"

text \<open>The output stream is given by what has been written to it.\<close>

definition copyNextLexemFromStreamToStream :: "lexemStream \<Rightarrow> lexem list \<Rightarrow> lexemStream \<times> lexem list" where
  "copyNextLexemFromStreamToStream inputStream out =
     (if \<not> lexemStreamHasMore inputStream then (inputStream, out)
      else (inputStream\<lparr>ls_read := tl (ls_read inputStream)\<rparr>, out @ [hd (ls_read inputStream)]))"

definition isIdentifierLexem :: "lexemCode \<Rightarrow> bool" where
  "isIdentifierLexem code \<longleftrightarrow> code = IDENTIFIER \<or> code = IDENT_NO_CPP_EXPAND \<or> code = IDENT_TO_COMPLETE"

definition isConstantLexem :: "lexemCode \<Rightarrow> bool" where
  "isConstantLexem code \<longleftrightarrow>
     code = CONSTANT \<or> code = LONG_CONSTANT \<or> code = FLOAT_CONSTANT \<or> code = DOUBLE_CONSTANT"

definition isPreprocessorToken :: "lexemCode \<Rightarrow> bool" where
  "isPreprocessorToken code \<longleftrightarrow> code > CPP_TOKENS_START \<and> code < CPP_TOKENS_END"

section \<open>The state of the preprocessor\<close>

text \<open>The body of a macro; its size is the number of its lexems.\<close>

record macroBody =
  mb_argCount :: int
  mb_name :: string
  mb_argumentNames :: "string option list"
  mb_body :: "lexem list"

record fileDescriptor =
  fd_fileName :: string
  fd_lineNumber :: int
  fd_ifStack :: "position list"
  fd_fileNumber :: int
  fd_buffer :: "lexem list"
  fd_lexems :: "lexem list list"

text \<open>What the preprocessor reports to the table of references, the editor and the completion, in order.\<close>

datatype cppReport =
    AddTrivialCxReference string ctype storage position usage
  | HandleFoundSymbolReference symbol position usage int
  | ParsingMessageAt position errorCode string
  | MakeCompletions string position
  | StringTooLong position

datatype yyData = YyId string "symbol option" position | YyPosition position | YyInteger int

record yylval =
  yy_data :: yyData
  yy_begin :: position
  yy_end :: position

text \<open>
  \<open>cp_macroStack\<close> is \<open>macroInputStack\<close>, the innermost input first. Symbols of macros and macro bodies are
  allocated in the preprocessor memory: \<open>cp_bodies\<close> holds the bodies by their order.
\<close>

record cpp =
  cp_input :: lexemStream
  cp_macroStack :: "lexemStream list"
  cp_file :: fileDescriptor
  cp_includeStack :: "fileDescriptor list"
  cp_isProcessingPreprocessorIf :: bool
  cp_symbols :: symbol_table
  cp_bodies :: "macroBody list"
  cp_ppmIndex :: int
  cp_files :: file_table
  cp_arguments :: "macroArgumentTableElement hashTab"
  cp_reports :: "cppReport list"
  cp_lastLexemPosition :: position
  cp_lastLexemExpansions :: "(string option \<times> position) list"
  cp_lastLexemBodyPosition :: position
  cp_yylval :: yylval
  cp_yytext :: string
  cp_completionStringServed :: bool
  cp_completionPositionFound :: bool
  cp_completionStringInMacroBody :: "string option"
  cp_parameterPosition :: position
  cp_parameterBeginPosition :: position
  cp_parameterEndPosition :: position

definition report :: "cppReport \<Rightarrow> cpp \<Rightarrow> cpp" where
  "report r st = st\<lparr>cp_reports := cp_reports st @ [r]\<rparr>"

definition insideMacro :: "cpp \<Rightarrow> bool" where
  "insideMacro st \<longleftrightarrow> cp_macroStack st \<noteq> []"

definition expansion_of :: "lexemStream \<Rightarrow> (string option \<times> position) list" where
  "expansion_of stream =
     (if ls_streamType stream = MACRO_STREAM then [(ls_macroName stream, ls_macroCallPosition stream)] else [])"

definition addExpansionOf :: "lexemStream \<Rightarrow> cpp \<Rightarrow> cpp" where
  "addExpansionOf stream st = st\<lparr>cp_lastLexemExpansions := cp_lastLexemExpansions st @ expansion_of stream\<rparr>"

definition rememberLastLexemPosition :: "position \<Rightarrow> cpp \<Rightarrow> cpp" where
  "rememberLastLexemPosition position st =
     (let st1 = addExpansionOf (cp_input st) (fold addExpansionOf (rev (cp_macroStack st)) (st\<lparr>cp_lastLexemExpansions := []\<rparr>))
      in st1\<lparr>cp_lastLexemBodyPosition := position,
             cp_lastLexemPosition := (case cp_lastLexemExpansions st1 of [] \<Rightarrow> position | (_, callPosition) # _ \<Rightarrow> callPosition)\<rparr>)"

definition positionOfLastLexem :: "cpp \<Rightarrow> position" where
  "positionOfLastLexem st = cp_lastLexemPosition st"

definition advance_col :: "position \<Rightarrow> int \<Rightarrow> position" where
  "advance_col position n = Position (pos_file position) (pos_line position) (pos_col position + n)"

definition setYylvalsForIdentifier :: "string \<Rightarrow> symbol option \<Rightarrow> position \<Rightarrow> cpp \<Rightarrow> cpp" where
  "setYylvalsForIdentifier name symbol position st =
     (rememberLastLexemPosition position st)
       \<lparr>cp_yytext := name,
        cp_yylval := \<lparr>yy_data = YyId name symbol position, yy_begin = position,
                      yy_end = advance_col position (int (length name))\<rparr>\<rparr>"

definition setYylvalsForPosition :: "position \<Rightarrow> int \<Rightarrow> cpp \<Rightarrow> cpp" where
  "setYylvalsForPosition position len st =
     (rememberLastLexemPosition position st)
       \<lparr>cp_yylval := \<lparr>yy_data = YyPosition position, yy_begin = position, yy_end = advance_col position len\<rparr>\<rparr>"

definition setYylvalsForInteger :: "int \<Rightarrow> position \<Rightarrow> int \<Rightarrow> cpp \<Rightarrow> cpp" where
  "setYylvalsForInteger val position len st =
     (rememberLastLexemPosition position st)
       \<lparr>cp_yylval := \<lparr>yy_data = YyInteger val, yy_begin = position, yy_end = advance_col position len\<rparr>\<rparr>"

fun expansion_notes :: "(string option \<times> position) list \<Rightarrow> position \<Rightarrow> cpp \<Rightarrow> cpp" where
  "expansion_notes [] bodyPosition st = st"
| "expansion_notes ((name, _) # rest) bodyPosition st =
     (let position = (case rest of [] \<Rightarrow> bodyPosition | (_, callPosition) # _ \<Rightarrow> callPosition)
      in expansion_notes rest bodyPosition
           (report (ParsingMessageAt position ERR_ST (''note: expanded from macro '' @ [char_of (39 :: nat)]
              @ (case name of None \<Rightarrow> ''(null)'' | Some n \<Rightarrow> n) @ [char_of (39 :: nat)])) st))"

definition noteMacroExpansionsOfLastLexem :: "cpp \<Rightarrow> cpp" where
  "noteMacroExpansionsOfLastLexem st =
     expansion_notes (cp_lastLexemExpansions st) (cp_lastLexemBodyPosition st) st"

section \<open>Reading\<close>

definition setCurrentFileConsistency :: "cpp \<Rightarrow> cpp" where
  "setCurrentFileConsistency st = st\<lparr>cp_file := (cp_file st)\<lparr>fd_buffer := ls_read (cp_input st)\<rparr>\<rparr>"

definition setCurrentInputConsistency :: "cpp \<Rightarrow> cpp" where
  "setCurrentInputConsistency st =
     st\<lparr>cp_input := makeLexemStream (fd_buffer (cp_file st)) (fd_buffer (cp_file st)) None NORMAL_STREAM\<rparr>"

text \<open>The lexer appends the lexems of the next refill to the buffer; at the end of the file there are none.\<close>

definition build_lexems :: "cpp \<Rightarrow> bool \<times> cpp" where
  "build_lexems st =
     (case fd_lexems (cp_file st) of
        [] \<Rightarrow> (False, st)
      | lexems # rest \<Rightarrow>
          (True, st\<lparr>cp_file := (cp_file st)\<lparr>fd_buffer := fd_buffer (cp_file st) @ lexems, fd_lexems := rest\<rparr>\<rparr>))"

datatype cppException = END_OF_MACRO_ARGUMENT_EXCEPTION | END_OF_FILE_EXCEPTION

text \<open>
  The pointer to the previous lexem is a list too. At the end of the file it points behind the lexems of the
  buffer, which has moved. Input that is neither inside a macro nor of a file is refilled forever (\<open>None\<close>).
\<close>

function refillCurrentInputIfExhausted ::
  "lexem list \<Rightarrow> cpp \<Rightarrow> (cppException option \<times> lexem list \<times> cpp) option" where
  "refillCurrentInputIfExhausted previous st =
     (if ls_read (cp_input st) \<noteq> [] then Some (None, previous, st)
      else if insideMacro st then
        (if ls_streamType (cp_input st) = MACRO_ARGUMENT_STREAM then Some (Some END_OF_MACRO_ARGUMENT_EXCEPTION, previous, st)
         else (let st1 = st\<lparr>cp_input := hd (cp_macroStack st), cp_macroStack := tl (cp_macroStack st)\<rparr>
               in refillCurrentInputIfExhausted (ls_read (cp_input st1)) st1))
      else if ls_streamType (cp_input st) = NORMAL_STREAM then
        (let (built, st1) = build_lexems (setCurrentFileConsistency st); st2 = setCurrentInputConsistency st1
         in if \<not> built then Some (Some END_OF_FILE_EXCEPTION, [], st2)
            else refillCurrentInputIfExhausted (ls_read (cp_input st2)) st2)
      else None)"
  by pat_completeness auto
termination
  by (relation "measure (\<lambda>(previous, st). length (cp_macroStack st) + length (fd_lexems (cp_file st)))")
    (auto simp: insideMacro_def build_lexems_def setCurrentFileConsistency_def setCurrentInputConsistency_def
      split: list.splits)

declare refillCurrentInputIfExhausted.simps [simp del]

definition getLexemAndSavePointerToPrevious ::
  "lexem list \<Rightarrow> cpp \<Rightarrow> ((cppException + lexem) \<times> lexem list \<times> cpp) option" where
  "getLexemAndSavePointerToPrevious previous st = do {
     (refillResult, previous1, st1) \<leftarrow> refillCurrentInputIfExhausted previous st;
     (case refillResult of
        Some e \<Rightarrow> Some (Inl e, previous1, st1)
      | None \<Rightarrow> Some (Inr (hd (ls_read (cp_input st1))), ls_read (cp_input st1),
                  st1\<lparr>cp_input := (cp_input st1)\<lparr>ls_read := tl (ls_read (cp_input st1))\<rparr>\<rparr>))
   }"

definition getLexem :: "cpp \<Rightarrow> ((cppException + lexem) \<times> cpp) option" where
  "getLexem st = map_option (\<lambda>(r, previous, st1). (r, st1)) (getLexemAndSavePointerToPrevious [] st)"

definition ungetLexem :: "lexem list \<Rightarrow> cpp \<Rightarrow> cpp" where
  "ungetLexem lexemStart st = st\<lparr>cp_input := (cp_input st)\<lparr>ls_read := lexemStart\<rparr>\<rparr>"

text \<open>The data of a lexem come with it, so what is left of getting them is to count lines.\<close>

definition getExtraLexemInformationFor :: "lexem \<Rightarrow> bool \<Rightarrow> cpp \<Rightarrow> cpp" where
  "getExtraLexemInformationFor x countLines st =
     (if lx_code x = LINE_TOKEN then
        (if countLines then st\<lparr>cp_file := (cp_file st)\<lparr>fd_lineNumber := fd_lineNumber (cp_file st) + lx_value x\<rparr>\<rparr> else st)
      else if lx_code x = 10 \<and> countLines
      then st\<lparr>cp_file := (cp_file st)\<lparr>fd_lineNumber := fd_lineNumber (cp_file st) + 1\<rparr>\<rparr>
      else st)"

definition skipExtraLexemInformationWithCountLines :: "lexem \<Rightarrow> bool \<Rightarrow> cpp \<Rightarrow> cpp" where
  "skipExtraLexemInformationWithCountLines x countLines st = getExtraLexemInformationFor x countLines st"

section \<open>The table of macros\<close>

text \<open>What is set before parsing. \<open>cc_lexems\<close> is what the lexer makes of a file that can be opened.\<close>

record cppConfig =
  cc_noFile :: int
  cc_fileNamesCaseSensitive :: bool
  cc_exactPositionResolve :: bool
  cc_cwd :: string
  cc_includeDirs :: "string list"
  cc_fileSystem :: file_system
  cc_lexems :: "string \<Rightarrow> lexem list list option"
  cc_tokenNames :: "lexemCode \<Rightarrow> string"
  cc_tokenNameLengths :: "lexemCode \<Rightarrow> int"
  cc_trackParameters :: bool
  cc_positionOfSelectedReference :: position
  cc_targetParameterIndex :: int

definition macro_cell :: "int \<Rightarrow> symbol \<Rightarrow> symbolCell" where
  "macro_cell address symbol = \<lparr>cell_address = address, cell_symbol = symbol, cell_members = None\<rparr>"

definition findMacroSymbol :: "cppConfig \<Rightarrow> string \<Rightarrow> cpp \<Rightarrow> symbol option" where
  "findMacroSymbol c name st =
     (let symbol = makeMacroSymbol name (noPosition (cc_noFile c));
          (member, index, found) = hashListIsMember symbolHash equalSymbols (cp_symbols st) (macro_cell 0 symbol)
      in if member then Some (cell_symbol (hd found)) else None)"

text \<open>The body of a macro symbol, \<open>None\<close> where the pointer is \<open>NULL\<close>: the macro is undefined.\<close>

definition mbody :: "cpp \<Rightarrow> symbol \<Rightarrow> macroBody option" where
  "mbody st symbol = (case sym_value symbol of
     MacroBodyValue (Some i) \<Rightarrow> (if i < length (cp_bodies st) then Some (cp_bodies st ! i) else None)
   | _ \<Rightarrow> None)"

text \<open>The symbol gets the next address of the preprocessor memory.\<close>

definition addMacroToTabs :: "symbol \<Rightarrow> cpp \<Rightarrow> cpp" where
  "addMacroToTabs symbol st =
     (let cell = macro_cell (cp_ppmIndex st) symbol;
          (isMember, index, found) = hashListIsMember symbolHash equalSymbols (cp_symbols st) cell
      in st\<lparr>cp_symbols := hashListPush (cp_symbols st) cell index, cp_ppmIndex := cp_ppmIndex st + 1\<rparr>)"

definition undefineMacroByName :: "cppConfig \<Rightarrow> string \<Rightarrow> cpp \<Rightarrow> cpp" where
  "undefineMacroByName c name st =
     (case findMacroSymbol c name st of
        Some existing \<Rightarrow> addMacroToTabs (makeMacroSymbol (sym_linkName existing) (noPosition (cc_noFile c))) st
      | None \<Rightarrow> addMacroToTabs (makeMacroSymbol name (noPosition (cc_noFile c))) st)"

definition newMacroBody :: "int \<Rightarrow> string \<Rightarrow> lexem list \<Rightarrow> string option list \<Rightarrow> cpp \<Rightarrow> nat \<times> cpp" where
  "newMacroBody argCount name body argumentNames st =
     (length (cp_bodies st),
      st\<lparr>cp_bodies := cp_bodies st @ [\<lparr>mb_argCount = argCount, mb_name = name, mb_argumentNames = argumentNames, mb_body = body\<rparr>]\<rparr>)"

text \<open>The completion itself takes place in the reports.\<close>

definition checkCompletionsForId :: "lexemCode \<Rightarrow> string \<Rightarrow> position \<Rightarrow> cpp \<Rightarrow> lexemCode \<times> cpp" where
  "checkCompletionsForId code ident position st =
     (if code = IDENT_TO_COMPLETE
      then (IDENTIFIER, report (MakeCompletions ident position) (st\<lparr>cp_completionStringServed := True\<rparr>))
      else (code, st))"

text \<open>Macros are found by name; what is added last is found.\<close>

definition table_ready :: "cpp \<Rightarrow> bool" where
  "table_ready st \<longleftrightarrow> symbols.wf_list (cp_symbols st)"

lemma makeMacroSymbol_type [simp]: "sym_type (makeMacroSymbol name p) = TypeMacro" "sym_name (makeMacroSymbol name p) = name"
  by (simp_all add: makeMacroSymbol_def)

lemma findMacroSymbol_add:
  assumes "table_ready st" "sym_type s = TypeMacro"
  shows "findMacroSymbol c name (addMacroToTabs s st) = (if sym_name s = name then Some s else findMacroSymbol c name st)"
proof -
  let ?x = "macro_cell 0 (makeMacroSymbol name (noPosition (cc_noFile c)))" and ?cell = "macro_cell (cp_ppmIndex st) s"
  have wf: "symbols.wf_list (cp_symbols st)" using assms(1) by (simp add: table_ready_def)
  have add: "cp_symbols (addMacroToTabs s st)
      = hashListPush (cp_symbols st) ?cell (hashListIndex symbolHash (cp_symbols st) ?cell)"
    by (simp add: addMacroToTabs_def hashListIsMember_def Let_def)
  have eq: "equalSymbols ?cell ?x \<longleftrightarrow> sym_name s = name"
    using assms(2) by (simp add: equalSymbols_def macro_cell_def)
  show ?thesis
  proof (cases "sym_name s = name")
    case True
    then have "hashListIsMember symbolHash equalSymbols (cp_symbols (addMacroToTabs s st)) ?x
      = (True, hashListIndex symbolHash (cp_symbols st) ?x, ?cell # hl_tab (cp_symbols st) ! hashListIndex symbolHash (cp_symbols st) ?x)"
      using symbols.isMember_push [OF wf, of ?cell ?x] eq unfolding add by simp
    then show ?thesis using True by (simp add: findMacroSymbol_def Let_def macro_cell_def)
  next
    case False
    then have "hashListIsMember symbolHash equalSymbols (cp_symbols (addMacroToTabs s st)) ?x
      = hashListIsMember symbolHash equalSymbols (cp_symbols st) ?x"
      using symbols.isMember_push_other [OF wf, of ?cell ?x] eq unfolding add by simp
    then show ?thesis using False by (simp add: findMacroSymbol_def Let_def)
  qed
qed

section \<open>What is unread\<close>

definition unread_lexems :: "cpp \<Rightarrow> lexem list" where
  "unread_lexems st = ls_read (cp_input st) @ concat (map ls_read (cp_macroStack st)) @ concat (fd_lexems (cp_file st))"

lemma report_keeps [simp]:
  "unread_lexems (report r st) = unread_lexems st" "cp_input (report r st) = cp_input st"
  "cp_macroStack (report r st) = cp_macroStack st" "cp_file (report r st) = cp_file st"
  "cp_symbols (report r st) = cp_symbols st" "cp_bodies (report r st) = cp_bodies st"
  by (simp_all add: report_def unread_lexems_def)

lemma extra_keeps [simp]:
  "unread_lexems (getExtraLexemInformationFor x c st) = unread_lexems st"
  "cp_macroStack (getExtraLexemInformationFor x c st) = cp_macroStack st"
  "cp_input (getExtraLexemInformationFor x c st) = cp_input st"
  "fd_ifStack (cp_file (getExtraLexemInformationFor x c st)) = fd_ifStack (cp_file st)"
  by (auto simp: getExtraLexemInformationFor_def unread_lexems_def)

lemma refill_unread:
  "refillCurrentInputIfExhausted previous st = Some (e, p, st') \<Longrightarrow>
   unread_lexems st' = unread_lexems st \<and> (e = None \<longrightarrow> ls_read (cp_input st') \<noteq> [])"
proof (induction previous st rule: refillCurrentInputIfExhausted.induct)
  case (1 previous st)
  note eq = 1(3) [unfolded refillCurrentInputIfExhausted.simps [of previous st]]
  show ?case
  proof (cases "ls_read (cp_input st) = []")
    case False
    with eq show ?thesis by auto
  next
    case r: True
    show ?thesis
    proof (cases "insideMacro st")
      case True
      then have m: "cp_macroStack st \<noteq> []" by (simp add: insideMacro_def)
      then have "unread_lexems (st\<lparr>cp_input := hd (cp_macroStack st), cp_macroStack := tl (cp_macroStack st)\<rparr>) = unread_lexems st"
        using r by (cases "cp_macroStack st") (auto simp: unread_lexems_def)
      then show ?thesis using eq r True 1(1) [OF _ True] by (auto simp: Let_def split: if_splits)
    next
      case False
      then have m: "cp_macroStack st = []" by (simp add: insideMacro_def)
      obtain built st1 where b: "build_lexems (setCurrentFileConsistency st) = (built, st1)" by fastforce
      have "unread_lexems (setCurrentInputConsistency st1) = unread_lexems st"
        using b r m by (auto simp: build_lexems_def setCurrentFileConsistency_def setCurrentInputConsistency_def
            makeLexemStream_def unread_lexems_def split: list.splits)
      then show ?thesis using eq r False b 1(2) [OF _ False] by (auto simp: Let_def split: if_splits)
    qed
  qed
qed

lemma getLexemAndSave_unread:
  assumes "getLexemAndSavePointerToPrevious previous st = Some (Inr x, p, st')"
  shows "unread_lexems st = x # unread_lexems st'"
proof -
  from assms obtain p1 st1 where r: "refillCurrentInputIfExhausted previous st = Some (None, p1, st1)"
    and x: "x = hd (ls_read (cp_input st1))"
    and st': "st' = st1\<lparr>cp_input := (cp_input st1)\<lparr>ls_read := tl (ls_read (cp_input st1))\<rparr>\<rparr>"
    by (auto simp: getLexemAndSavePointerToPrevious_def bind_eq_Some_conv split: option.splits)
  from refill_unread [OF r] show ?thesis
    unfolding x st' by (cases "ls_read (cp_input st1)") (auto simp: unread_lexems_def)
qed

lemma getLexem_unread:
  "getLexem st = Some (Inr x, st') \<Longrightarrow> unread_lexems st = x # unread_lexems st'"
  by (auto simp: getLexem_def intro: getLexemAndSave_unread)

section \<open>An example state\<close>

definition example_lexem :: "lexemCode \<Rightarrow> string \<Rightarrow> lexem" where
  "example_lexem code t = \<lparr>lx_code = code, lx_text = t, lx_value = 0, lx_position = Position 1 1 0, lx_length = 1\<rparr>"

text \<open>At the beginning of a file, with the symbols of one chain.\<close>

definition example_cpp :: "symbolCell list \<Rightarrow> macroBody list \<Rightarrow> lexem list \<Rightarrow> cpp" where
  "example_cpp cells bodies lexems =
     \<lparr>cp_input = makeLexemStream [] [] None NORMAL_STREAM, cp_macroStack = [],
      cp_file = \<lparr>fd_fileName = ''a.c'', fd_lineNumber = 1, fd_ifStack = [Position 1 1 0], fd_fileNumber = 1,
                 fd_buffer = [], fd_lexems = [lexems]\<rparr>,
      cp_includeStack = [], cp_isProcessingPreprocessorIf = False, cp_symbols = \<lparr>hl_size = 1, hl_tab = [cells]\<rparr>,
      cp_bodies = bodies, cp_ppmIndex = 0, cp_files = \<lparr>tab_numberOfElements = 0, tab_size = 0, tab_tab = []\<rparr>,
      cp_arguments = \<lparr>tab_numberOfElements = 0, tab_size = 0, tab_tab = []\<rparr>, cp_reports = [],
      cp_lastLexemPosition = Position 1 1 0, cp_lastLexemExpansions = [], cp_lastLexemBodyPosition = Position 1 1 0,
      cp_yylval = \<lparr>yy_data = YyInteger 0, yy_begin = Position 1 1 0, yy_end = Position 1 1 0\<rparr>, cp_yytext = [],
      cp_completionStringServed = False, cp_completionPositionFound = False, cp_completionStringInMacroBody = None,
      cp_parameterPosition = Position 1 1 0, cp_parameterBeginPosition = Position 1 1 0,
      cp_parameterEndPosition = Position 1 1 0\<rparr>"

lemma example_unread: "unread_lexems (example_cpp cells bodies lexems) = lexems"
  by (simp add: example_cpp_def unread_lexems_def makeLexemStream_def)

definition example_config :: cppConfig where
  "example_config = \<lparr>cc_noFile = 0, cc_fileNamesCaseSensitive = True, cc_exactPositionResolve = False, cc_cwd = ''/w'',
     cc_includeDirs = [], cc_fileSystem = example_fs, cc_lexems = (\<lambda>_. None), cc_tokenNames = (\<lambda>_. []),
     cc_tokenNameLengths = (\<lambda>_. 1), cc_trackParameters = False, cc_positionOfSelectedReference = Position 0 0 0,
     cc_targetParameterIndex = 0\<rparr>"

end
