(* ===== verification/Completion.thy ===== *)
theory Completion
  imports Session LexemStream SymbolTable Ppc FileNames "HOL-Library.Sublist"
begin

text \<open>
  Models the collection and printing of completions in \<^verbatim>\<open>complete.c\<close> and the type modifiers of
  \<^verbatim>\<open>typemodifier.c\<close> it looks at. The parser calls the collecting functions one after the other on
  \<open>collectedCompletions\<close>, the only object of its type; the array of alternatives is the list of those
  counted. Texts of symbols are C strings, and fit into the buffers they are copied to. Left out: the members of
  structures and what a \<open>for\<close> statement suggests, which look at the parser's state.
\<close>

section \<open>Type modifiers\<close>

text \<open>Symbols and type modifiers are reached by addresses; the two members of the union are \<open>tm_args\<close>.\<close>

record typeModifier =
  tm_type :: ctype
  tm_args :: "nat option"
  tm_typedefSymbol :: "nat option"
  tm_qualifiers :: nat
  tm_next :: "nat option"

definition fillTypeModifier :: "ctype \<Rightarrow> nat option \<Rightarrow> nat option \<Rightarrow> typeModifier" where
  "fillTypeModifier t typedefSymbol nxt =
     \<lparr>tm_type = t, tm_args = None, tm_typedefSymbol = typedefSymbol, tm_qualifiers = 0, tm_next = nxt\<rparr>"

definition initTypeModifier :: "ctype \<Rightarrow> typeModifier" where
  "initTypeModifier t = fillTypeModifier t None None"

definition initTypeModifierAsStructUnionOrEnum ::
  "ctype \<Rightarrow> nat option \<Rightarrow> nat option \<Rightarrow> nat option \<Rightarrow> typeModifier \<Rightarrow> typeModifier option" where
  "initTypeModifierAsStructUnionOrEnum t symbol typedefSymbol nxt m =
     (if t = TypeStruct \<or> t = TypeUnion \<or> t = TypeEnum
      then Some (m\<lparr>tm_type := t, tm_args := symbol, tm_typedefSymbol := typedefSymbol, tm_next := nxt\<rparr>) else None)"

definition initTypeModifierAsPointer :: "nat option \<Rightarrow> typeModifier" where
  "initTypeModifierAsPointer nxt = fillTypeModifier TypePointer None nxt"

definition initFunctionTypeModifier :: "nat option \<Rightarrow> typeModifier \<Rightarrow> typeModifier" where
  "initFunctionTypeModifier args m = m\<lparr>tm_args := args\<rparr>"

definition newTypeModifier :: "ctype \<Rightarrow> nat option \<Rightarrow> nat option \<Rightarrow> typeModifier" where
  "newTypeModifier kind typedefSymbol nxt = fillTypeModifier kind typedefSymbol nxt"

definition newFunctionTypeModifier :: "nat option \<Rightarrow> nat option \<Rightarrow> nat option \<Rightarrow> typeModifier" where
  "newFunctionTypeModifier args typedefSymbol nxt = (newTypeModifier TypeFunction typedefSymbol nxt)\<lparr>tm_args := args\<rparr>"

definition newSimpleTypeModifier :: "ctype \<Rightarrow> typeModifier" where
  "newSimpleTypeModifier kind = newTypeModifier kind None None"

definition newPointerTypeModifier :: "nat option \<Rightarrow> typeModifier" where
  "newPointerTypeModifier nxt = newTypeModifier TypePointer None nxt"

definition newArrayTypeModifier :: typeModifier where
  "newArrayTypeModifier = newTypeModifier TypeArray None None"

definition newEnumTypeModifier :: "nat option \<Rightarrow> typeModifier" where
  "newEnumTypeModifier symbol = (newTypeModifier TypeEnum None None)\<lparr>tm_args := symbol\<rparr>"

definition newQualifiedTypeModifier :: "typeModifier \<Rightarrow> nat \<Rightarrow> typeModifier" where
  "newQualifiedTypeModifier original qualifiers = original\<lparr>tm_qualifiers := or (tm_qualifiers original) qualifiers\<rparr>"

section \<open>Alternatives\<close>

definition MAX_COMPLETIONS :: nat where "MAX_COMPLETIONS = 10000"

record completionLine =
  cl_string :: string
  cl_symbol :: "symbol option"
  cl_type :: ctype
  cl_margn :: int
  cl_margs :: "string option list"

definition makeCompletionLine :: "string \<Rightarrow> symbol option \<Rightarrow> ctype \<Rightarrow> int \<Rightarrow> string option list \<Rightarrow> completionLine" where
  "makeCompletionLine s symbol symbolType margn margs =
     \<lparr>cl_string = s, cl_symbol = symbol, cl_type = symbolType, cl_margn = margn, cl_margs = margs\<rparr>"

record completions =
  cs_idToProcess :: string
  cs_idToProcessLength :: int
  cs_idToProcessPosition :: position
  cs_fullMatchFlag :: bool
  cs_isCompleteFlag :: bool
  cs_noFocusOnCompletions :: bool
  cs_abortFurtherCompletions :: bool
  cs_prefix :: string
  cs_maxLen :: int
  cs_alternatives :: "completionLine list"

definition initCompletions :: "int \<Rightarrow> position \<Rightarrow> completions \<Rightarrow> completions" where
  "initCompletions len position ci =
     ci\<lparr>cs_idToProcessLength := len, cs_idToProcessPosition := position, cs_fullMatchFlag := False,
        cs_isCompleteFlag := False, cs_noFocusOnCompletions := False, cs_abortFurtherCompletions := False,
        cs_maxLen := 0, cs_alternatives := []\<rparr>"

definition isTheSameSymbol :: "completionLine \<Rightarrow> completionLine \<Rightarrow> bool" where
  "isTheSameSymbol c1 c2 \<longleftrightarrow> \<not> (strcmp (cl_string c1) (cl_string c2) \<noteq> 0) \<and> \<not> (cl_type c1 \<noteq> cl_type c2)"

text \<open>The length up to the first parenthesis, or of the whole string.\<close>

definition name_length :: "string \<Rightarrow> int" where
  "name_length s = int (length (takeWhile (\<lambda>c. c \<noteq> CHR ''('') s))"

definition completionOrderComparer :: "int \<Rightarrow> completionLine \<Rightarrow> completionLine \<Rightarrow> int" where
  "completionOrderComparer idToProcessLength c1 c2 =
     (let l1 = name_length (cl_string c1); l2 = name_length (cl_string c2) in
      if l1 = idToProcessLength \<and> l2 \<noteq> idToProcessLength then -1
      else if l1 \<noteq> idToProcessLength \<and> l2 = idToProcessLength then 1
      else strcmp (cl_string c1) (cl_string c2))"

text \<open>The binary search ends with a found alternative (\<open>None\<close>) or the place to insert at.\<close>

function search_loop :: "(completionLine \<Rightarrow> int) \<Rightarrow> completionLine list \<Rightarrow> int \<Rightarrow> int \<Rightarrow> nat option" where
  "search_loop compare_to a l r =
     (if l \<le> r then
        (let x = (l + r) div 2; c = compare_to (a ! nat x) in
         if c = 0 then None
         else if c < 0 then search_loop compare_to a l (x - 1)
         else search_loop compare_to a (x + 1) r)
      else Some (nat l))"
  by pat_completeness auto
termination by (relation "measure (\<lambda>(f, a, l, r). nat (r - l + 1))") auto

declare search_loop.simps [simp del]

fun linear_search :: "completionLine \<Rightarrow> completionLine list \<Rightarrow> nat \<Rightarrow> nat option" where
  "linear_search t [] l = Some l"
| "linear_search t (c # cs) l = (if isTheSameSymbol t c then None else linear_search t cs (l + 1))"

text \<open>When the array is full what is last falls out.\<close>

definition reallyInsert :: "int \<Rightarrow> completionLine list \<Rightarrow> completionLine \<Rightarrow> bool \<Rightarrow> bool \<times> completionLine list" where
  "reallyInsert idToProcessLength a t orderFlag =
     (case (if orderFlag then search_loop (completionOrderComparer idToProcessLength t) a 0 (int (length a) - 1)
            else linear_search t a 0) of
        None \<Rightarrow> (False, a)
      | Some l \<Rightarrow> (True, take (MAX_COMPLETIONS - 2) (take l a @ t # drop l a)))"

fun computeCompletionPrefix :: "string \<Rightarrow> string \<Rightarrow> string" where
  "computeCompletionPrefix (d # ds) (c # cs) = (if d = c then d # computeCompletionPrefix ds cs else [])"
| "computeCompletionPrefix _ _ = []"

text \<open>Whether the string does not begin with the name to complete, and whether it is that name.\<close>

fun prefix_test :: "bool \<Rightarrow> string \<Rightarrow> string \<Rightarrow> bool \<times> bool" where
  "prefix_test caseSensitive [] [] = (False, True)"
| "prefix_test caseSensitive [] (c # cs) = (False, False)"
| "prefix_test caseSensitive (d # ds) [] = (True, False)"
| "prefix_test caseSensitive (d # ds) (c # cs) =
     (if d = c \<or> (\<not> caseSensitive \<and> tolower d = tolower c) then prefix_test caseSensitive ds cs else (True, False))"

definition completionTestPrefix :: "bool \<Rightarrow> completions \<Rightarrow> string \<Rightarrow> bool \<times> completions" where
  "completionTestPrefix caseSensitive ci s =
     (let (differs, complete) = prefix_test caseSensitive (cs_idToProcess ci) s
      in (differs, if complete then ci\<lparr>cs_isCompleteFlag := True\<rparr> else ci))"

text \<open>\<open>name[len]\<close> is read only where the name is longer.\<close>

definition completionInsertName :: "completionLine \<Rightarrow> bool \<Rightarrow> completions \<Rightarrow> completions option" where
  "completionInsertName completionLine orderFlag ci =
     (let name = cl_string completionLine; len = cs_idToProcessLength ci in
      if cs_alternatives ci = [] then
        (let maxLen = int (length name)
         in Some (ci\<lparr>cs_prefix := name, cs_maxLen := maxLen, cs_alternatives := [completionLine],
              cs_fullMatchFlag := (len = maxLen \<or> len = maxLen - 1 \<and> name ! nat len = CHR ''(''
                                   \<or> len = maxLen - 2 \<and> name ! nat len = CHR ''('')\<rparr>))
      else if \<not> length (cs_alternatives ci) < MAX_COMPLETIONS - 1 then None
      else (let (inserted, alternatives) = reallyInsert (cs_idToProcessLength ci) (cs_alternatives ci) completionLine orderFlag
            in if inserted
               then Some (ci\<lparr>cs_prefix := computeCompletionPrefix (cs_prefix ci) name,
                      cs_maxLen := (if int (length name) > cs_maxLen ci then int (length name) else cs_maxLen ci),
                      cs_alternatives := alternatives, cs_fullMatchFlag := False\<rparr>)
               else Some ci))"

definition completeName :: "bool \<Rightarrow> string option \<Rightarrow> completionLine \<Rightarrow> bool \<Rightarrow> completions \<Rightarrow> completions option" where
  "completeName caseSensitive name compLine orderFlag ci =
     (case name of
        None \<Rightarrow> Some ci
      | Some s \<Rightarrow> (let (differs, ci1) = completionTestPrefix caseSensitive ci s
                  in if differs then Some ci1 else completionInsertName compLine orderFlag ci1))"

definition processName :: "bool \<Rightarrow> string option \<Rightarrow> completionLine \<Rightarrow> bool \<Rightarrow> completions \<Rightarrow> completions option" where
  "processName caseSensitive name line orderFlag ci = completeName caseSensitive name line orderFlag ci"

section \<open>Collecting\<close>

text \<open>What the collecting functions read: the macro bodies and the type modifiers at their addresses.\<close>

record completionHeap =
  ch_caseSensitive :: bool
  ch_macroBodies :: "nat \<Rightarrow> macroBody option"
  ch_typeModifiers :: "nat \<Rightarrow> typeModifier option"

definition completeFun :: "completionHeap \<Rightarrow> ctype \<Rightarrow> symbol \<Rightarrow> completions \<Rightarrow> completions option" where
  "completeFun h infoType symbol ci =
     (if sym_type symbol \<noteq> infoType then Some ci
      else do {
        compLine \<leftarrow>
          (if sym_type symbol \<noteq> TypeMacro
           then Some (makeCompletionLine (sym_name symbol) (Some symbol) (sym_type symbol) 0 [])
           else (case sym_value symbol of
             MacroBodyValue (Some m) \<Rightarrow>
               map_option (\<lambda>mbody. makeCompletionLine (sym_name symbol) (Some symbol) (sym_type symbol)
                 (mb_argCount mbody) (mb_argumentNames mbody)) (ch_macroBodies h m)
           | _ \<Rightarrow> Some (makeCompletionLine (sym_name symbol) (Some symbol) TypeCppUndefinedMacro 0 [])));
        processName (ch_caseSensitive h) (Some (sym_name symbol)) compLine True ci
      })"

definition completeFunctionOrMethodName ::
  "completionHeap \<Rightarrow> bool \<Rightarrow> symbol \<Rightarrow> typeModifier \<Rightarrow> completions \<Rightarrow> completions option" where
  "completeFunctionOrMethodName h orderFlag r typeModifier ci =
     (let psuff = (if tm_args typeModifier = None then ''()'' else ''('');
          cn = sym_name r @ psuff
      in processName (ch_caseSensitive h) (Some cn) (makeCompletionLine cn (Some r) TypeDefault 0 []) orderFlag ci)"

definition symbolCompletionFunction :: "completionHeap \<Rightarrow> storage \<Rightarrow> symbol \<Rightarrow> completions \<Rightarrow> completions option" where
  "symbolCompletionFunction h infoStorage symbol ci =
     (if sym_type symbol \<noteq> TypeDefault then Some ci
      else if infoStorage = StorageTypedef \<and> sym_storage symbol \<noteq> StorageTypedef then Some ci
      else (let plain = processName (ch_caseSensitive h) (Some (sym_name symbol))
                          (makeCompletionLine (sym_name symbol) (Some symbol) (sym_type symbol) 0 []) True ci
            in (case sym_value symbol of
                  TypeModifierValue (Some m) \<Rightarrow> Option.bind (ch_typeModifiers h m) (\<lambda>modifier.
                    if tm_type modifier = TypeFunction then completeFunctionOrMethodName h True symbol modifier ci else plain)
                | _ \<Rightarrow> plain)))"

definition symbolTableMapWithPointer ::
  "symbol_table \<Rightarrow> (symbol \<Rightarrow> completions \<Rightarrow> completions option) \<Rightarrow> completions \<Rightarrow> completions option" where
  "symbolTableMapWithPointer table fn ci = hashListMap table (\<lambda>cell s. Option.bind s (fn (cell_symbol cell))) (Some ci)"

definition collectStructsCompletions :: "completionHeap \<Rightarrow> symbol_table \<Rightarrow> completions \<Rightarrow> completions option" where
  "collectStructsCompletions h table ci =
     Option.bind (symbolTableMapWithPointer table (completeFun h TypeStruct) ci)
       (symbolTableMapWithPointer table (completeFun h TypeUnion))"

definition completeFromSymTab :: "completionHeap \<Rightarrow> symbol_table \<Rightarrow> storage \<Rightarrow> completions \<Rightarrow> completions option" where
  "completeFromSymTab h table storage ci = symbolTableMapWithPointer table (symbolCompletionFunction h storage) ci"

definition collectEnumsCompletions :: "completionHeap \<Rightarrow> symbol_table \<Rightarrow> completions \<Rightarrow> completions option" where
  "collectEnumsCompletions h table ci = symbolTableMapWithPointer table (completeFun h TypeEnum) ci"

definition collectLabelsCompletions :: "completionHeap \<Rightarrow> symbol_table \<Rightarrow> completions \<Rightarrow> completions option" where
  "collectLabelsCompletions h table ci = symbolTableMapWithPointer table (completeFun h TypeLabel) ci"

definition completeMacros :: "completionHeap \<Rightarrow> symbol_table \<Rightarrow> completions \<Rightarrow> completions option" where
  "completeMacros h table ci = symbolTableMapWithPointer table (completeFun h TypeMacro) ci"

definition collectTypesCompletions :: "completionHeap \<Rightarrow> symbol_table \<Rightarrow> completions \<Rightarrow> completions option" where
  "collectTypesCompletions h table ci = completeFromSymTab h table StorageTypedef ci"

definition collectOthersCompletions :: "completionHeap \<Rightarrow> symbol_table \<Rightarrow> completions \<Rightarrow> completions option" where
  "collectOthersCompletions h table ci =
     Option.bind (completeFromSymTab h table StorageDefault ci) (completeMacros h table)"

definition completeFromXrefFun :: "bool \<Rightarrow> ctype \<Rightarrow> referenceableItem \<Rightarrow> completions \<Rightarrow> completions option" where
  "completeFromXrefFun caseSensitive infoType s ci =
     (if ri_type s \<noteq> infoType then Some ci
      else processName caseSensitive (Some (ri_linkName s)) (makeCompletionLine (ri_linkName s) None (ri_type s) 0 []) True ci)"

definition collectYaccLexemCompletions :: "bool \<Rightarrow> item_table \<Rightarrow> completions \<Rightarrow> completions option" where
  "collectYaccLexemCompletions caseSensitive items ci =
     mapOverReferenceableItemTable items
       (\<lambda>item s. Option.bind s (completeFromXrefFun caseSensitive TypeYaccSymbol item)) (Some ci)"

definition completeUpFunProfile :: "nat option \<Rightarrow> position \<Rightarrow> completions \<Rightarrow> completions" where
  "completeUpFunProfile upLevelFunctionCompletionType noPos ci =
     (if upLevelFunctionCompletionType \<noteq> None \<and> cs_idToProcess ci = [] \<and> cs_alternatives ci = []
      then (let dd = newSymbolAsType ''    '' ''    '' noPos upLevelFunctionCompletionType
            in ci\<lparr>cs_alternatives := [makeCompletionLine ''    '' (Some dd) TypeDefault 0 []],
                  cs_fullMatchFlag := True, cs_prefix := []\<rparr>)
      else ci)"


section \<open>Printing\<close>

text \<open>The number of alternatives the editor asks for, and the length of its lines.\<close>

record completionOptions =
  co_maxCompletions :: int
  co_lineLength :: int

definition completionsWillPrintEllipsis :: "completionOptions \<Rightarrow> match list \<Rightarrow> bool" where
  "completionsWillPrintEllipsis options matches =
     (let n = LIST_LEN matches in n \<ge> MAX_COMPLETIONS - 2 \<or> int n = co_maxCompletions options)"

text \<open>A match without a full name ends the process.\<close>

fun completions_length :: "match list \<Rightarrow> int option" where
  "completions_length [] = Some 0"
| "completions_length (cc # rest) = do {
     fullName \<leftarrow> m_fullName cc;
     tlen \<leftarrow> completions_length rest;
     Some (int (length fullName) + (if rest \<noteq> [] then 1 else 0) + tlen)
   }"

definition printCompletionsBeginning :: "completionOptions \<Rightarrow> match list \<Rightarrow> bool \<Rightarrow> ppc \<Rightarrow> ppc option" where
  "printCompletionsBeginning options matches noFocus p =
     map_option (\<lambda>tlen. ppcBeginAllCompletions (if noFocus then 1 else 0)
         (if completionsWillPrintEllipsis options matches then tlen + 4 else tlen) p)
       (completions_length matches)"

definition printOneCompletion :: "match \<Rightarrow> ppc \<Rightarrow> ppc option" where
  "printOneCompletion match p = map_option (\<lambda>fullName. fput (str_bytes fullName) p) (m_fullName match)"

definition printCompletionsEnding :: "completionOptions \<Rightarrow> match list \<Rightarrow> ppc \<Rightarrow> ppc" where
  "printCompletionsEnding options matches p =
     ppcEnd PPC_ALL_COMPLETIONS
       (if completionsWillPrintEllipsis options matches then fput ([10] @ str_bytes ''...'') p else p)"

fun print_completions_loop :: "match list \<Rightarrow> ppc \<Rightarrow> ppc option" where
  "print_completions_loop [] p = Some p"
| "print_completions_loop (c # rest) p = do {
     p1 \<leftarrow> printOneCompletion c p;
     print_completions_loop rest (if rest \<noteq> [] then fput [10] p1 else p1)
   }"

definition printCompletionsList :: "completionOptions \<Rightarrow> sessionStack \<Rightarrow> bool \<Rightarrow> ppc \<Rightarrow> ppc option" where
  "printCompletionsList options stack noFocus p = do {
     entry \<leftarrow> top_entry stack;
     let matches = se_matches entry;
     p1 \<leftarrow> printCompletionsBeginning options matches noFocus p;
     p2 \<leftarrow> print_completions_loop matches p1;
     Some (printCompletionsEnding options matches p2)
   }"

text \<open>
  Breaking a text into lines at the last blank that fits, or the first that comes. The place before the text is
  never looked at; an empty text is read beyond its end (\<open>None\<close>).
\<close>

function format_loop :: "int \<Rightarrow> int \<Rightarrow> string \<Rightarrow> int \<Rightarrow> nat option \<Rightarrow> nat \<Rightarrow> string option" where
  "format_loop lineLength indent tt pos nlpos p =
     (if pos < lineLength \<or> nlpos = None then
        (if Suc p > length tt then None
         else if Suc p = length tt then Some tt
         else format_loop lineLength indent tt (pos + 1)
                (if tt ! Suc p = CHR '' '' \<and> pos + 1 > indent then Some (Suc p) else nlpos) (Suc p))
      else format_loop lineLength indent (tt[the nlpos := CHR 10]) (indent + (int p - int (the nlpos))) None p)"
  by pat_completeness auto
termination
  by (relation "measure (\<lambda>(lineLength, indent, tt, pos, nlpos, p). 2 * (length tt - p) + (if nlpos = None then 0 else 1))")
    auto

declare format_loop.simps [simp del]

definition formatFullCompletions :: "int \<Rightarrow> string \<Rightarrow> int \<Rightarrow> int \<Rightarrow> string option" where
  "formatFullCompletions lineLength tt indent inipos = format_loop lineLength indent tt inipos None 0"

definition cppVarArgsName :: string where "cppVarArgsName = ''__VA_ARGS__''"
definition TYPE_STR_RESERVE :: nat where "TYPE_STR_RESERVE = 100"
definition COMPLETION_STRING_SIZE :: nat where "COMPLETION_STRING_SIZE = 500"
definition FULL_COMPLETION_INDENT_CHARS :: int where "FULL_COMPLETION_INDENT_CHARS = 2"
definition MIN_COMPLETION_INDENT_REST :: int where "MIN_COMPLETION_INDENT_REST = 40"
definition MIN_COMPLETION_INDENT :: int where "MIN_COMPLETION_INDENT = 20"
definition MAX_COMPLETION_INDENT :: int where "MAX_COMPLETION_INDENT = 70"

definition prettyPrintMacroArgument :: "string \<Rightarrow> string option \<Rightarrow> bool \<Rightarrow> string" where
  "prettyPrintMacroArgument buffer arg is_last =
     (let b1 = (case arg of None \<Rightarrow> buffer
                | Some a \<Rightarrow> (if strcmp a cppVarArgsName = 0 then buffer @ ''...'' else buffer @ a))
      in if \<not> is_last then b1 @ '', '' else b1)"

text \<open>The array of names has as many as the count says; the loop stops when the buffer is nearly full.\<close>

fun macro_arguments_loop :: "nat \<Rightarrow> string option list \<Rightarrow> string \<Rightarrow> string" where
  "macro_arguments_loop bufferSize [] buffer = buffer"
| "macro_arguments_loop bufferSize (a # rest) buffer =
     (let b1 = prettyPrintMacroArgument buffer a (rest = []) in
      if length b1 + TYPE_STR_RESERVE \<ge> bufferSize then b1 @ ''...'' else macro_arguments_loop bufferSize rest b1)"

definition prettyPrintMacroDefinition :: "nat \<Rightarrow> string \<Rightarrow> int \<Rightarrow> string option list \<Rightarrow> string option" where
  "prettyPrintMacroDefinition bufferSize macroName argumentCount arguments =
     (let buffer = ''#define '' @ macroName in
      if \<not> bufferSize > TYPE_STR_RESERVE then None
      else if \<not> length buffer < bufferSize then None
      else if argumentCount \<noteq> -1
      then (if length arguments < nat argumentCount then None
            else Some (macro_arguments_loop bufferSize (take (nat argumentCount) arguments) (buffer @ ''('') @ '')''))
      else Some buffer)"

text \<open>A string padded with blanks behind it.\<close>

definition padded :: "int \<Rightarrow> string \<Rightarrow> string" where
  "padded width s = s @ replicate (nat width - length s) (CHR '' '')"

definition drop_last :: "char \<Rightarrow> string \<Rightarrow> string" where
  "drop_last c s = (if s \<noteq> [] \<and> List.last s = c then butlast s else s)"

text \<open>
  The line of an alternative in the static buffer, whose text until then is \<open>old\<close>. How a type is written
  (\<^verbatim>\<open>prettyPrintType\<close>) is a parameter: the room, the symbol and whether a name of a type may stand for it.
\<close>

definition sprintFullCompletionInfo ::
  "(nat \<Rightarrow> symbol \<Rightarrow> bool \<Rightarrow> string option) \<Rightarrow> completionOptions \<Rightarrow> completionLine \<Rightarrow> int \<Rightarrow> string \<Rightarrow> string option" where
  "sprintFullCompletionInfo prettyPrintType options line indent old =
     (if cl_type line = TypeCppUndefinedMacro then Some old
      else do {
        let name = drop_last (CHR ''('') (drop_last (CHR '')'') (cl_string line));
        let ppc = padded (indent + FULL_COMPLETION_INDENT_CHARS) name @ '':'';
        text0 \<leftarrow>
          (if cl_type line = TypeDefault
           then Option.bind (cl_symbol line) (\<lambda>symbol.
             let start = (if sym_storage symbol = StorageTypedef then ''typedef '' else [])
             in map_option (\<lambda>t. start @ t)
               (prettyPrintType (COMPLETION_STRING_SIZE - length start) symbol (sym_storage symbol \<noteq> StorageTypedef)))
           else if cl_type line = TypeMacro
           then prettyPrintMacroDefinition COMPLETION_STRING_SIZE (cl_string line) (cl_margn line) (cl_margs line)
           else if type_index (cl_type line) < type_index MAX_TYPE then Some (typeNamesTable (cl_type line)) else None);
        text1 \<leftarrow> formatFullCompletions (co_lineLength options) text0 (indent + FULL_COMPLETION_INDENT_CHARS + 2) (int (length ppc));
        Some (ppc @ concat (map (\<lambda>c. if c = CHR 10
          then c # padded (indent + FULL_COMPLETION_INDENT_CHARS) '' '' @ '' '' else [c]) text1))
      })"

fun completion_matches ::
  "int \<Rightarrow> (completionLine \<Rightarrow> string \<Rightarrow> string option) \<Rightarrow> reference \<Rightarrow> completionLine list \<Rightarrow> string \<Rightarrow> match list
    \<Rightarrow> (string \<times> match list) option" where
  "completion_matches noFile info r [] buffer matches = Some (buffer, matches)"
| "completion_matches noFile info r (line # lines) buffer matches = do {
     b1 \<leftarrow> info line buffer;
     ms \<leftarrow> prependToMatches noFile matches (Some (cl_string line)) (Some b1) (cl_symbol line) None (Some r) noFile;
     completion_matches noFile info r lines b1 ms
   }"

definition completion_indent :: "completionOptions \<Rightarrow> int \<Rightarrow> int" where
  "completion_indent options maxLen =
     (let i0 = maxLen;
          i1 = (if co_lineLength options - i0 < MIN_COMPLETION_INDENT_REST
                then (let i = co_lineLength options - MIN_COMPLETION_INDENT_REST
                      in if i < MIN_COMPLETION_INDENT then MIN_COMPLETION_INDENT else i)
                else i0)
      in if i1 > MAX_COMPLETION_INDENT then MAX_COMPLETION_INDENT else i1)"

text \<open>Without a menu the new session is popped again. \<open>r\<close> is the reference that has not been initialised.\<close>

definition printCompletions ::
  "(nat \<Rightarrow> symbol \<Rightarrow> bool \<Rightarrow> string option) \<Rightarrow> file_table \<Rightarrow> int \<Rightarrow> serverOperation \<Rightarrow> reference \<Rightarrow> completionOptions
    \<Rightarrow> completions \<Rightarrow> string \<times> sessionStack \<times> ppc \<Rightarrow> (string \<times> sessionStack \<times> ppc) option" where
  "printCompletions prettyPrintType files noFile operation r options ci st =
     (let (buffer, stack0, p) = st;
          stack = completionListInit noFile operation (cs_idToProcessPosition ci) stack0;
          finishWithoutMenu = (\<lambda>p. map_option (\<lambda>s. (buffer, s, p)) (popSession stack)) in
      if cs_alternatives ci = []
      then finishWithoutMenu (ppcGenRecordWithNumeric PPC_BOTTOM_INFORMATION PPCA_BEEP 0 (str_bytes ''** No completion possible **'') p)
      else if \<not> cs_fullMatchFlag ci \<and> length (cs_alternatives ci) = 1 then do {
        entry \<leftarrow> top_entry stack;
        p1 \<leftarrow> ppcGotoPosition files (se_callerPosition entry) p;
        p2 \<leftarrow> ppcGenRecord ''single-completion'' (str_bytes (cl_string (hd (cs_alternatives ci)))) p1;
        finishWithoutMenu p2
      }
      else if \<not> cs_fullMatchFlag ci \<and> int (length (cs_prefix ci)) > cs_idToProcessLength ci then do {
        entry \<leftarrow> top_entry stack;
        p1 \<leftarrow> ppcGotoPosition files (se_callerPosition entry) p;
        p2 \<leftarrow> ppcGenRecord ''single-completion'' (str_bytes (cs_prefix ci)) p1;
        finishWithoutMenu (ppcGenRecordWithNumeric PPC_BOTTOM_INFORMATION PPCA_BEEP 1 (str_bytes ''Multiple completions'') p2)
      }
      else do {
        let indent = completion_indent options (cs_maxLen ci);
        let count0 = (if int (length (cs_alternatives ci)) > co_maxCompletions options then co_maxCompletions options
                      else int (length (cs_alternatives ci)));
        entry \<leftarrow> top_entry stack;
        (buffer1, ms) \<leftarrow> completion_matches noFile (\<lambda>line old. sprintFullCompletionInfo prettyPrintType options line indent old) r
          (take (nat count0) (cs_alternatives ci)) buffer (se_matches entry);
        let stack1 = stack\<lparr>st_active := (hd (st_active stack))\<lparr>se_matches := LIST_REVERSE ms\<rparr> # tl (st_active stack)\<rparr>;
        p1 \<leftarrow> printCompletionsList options stack1 (cs_noFocusOnCompletions ci) p;
        Some (buffer1, stack1, p1)
      })"


section \<open>The order of the alternatives\<close>

lemma comparer_eq: "completionOrderComparer n a b = 0 \<longleftrightarrow> cl_string a = cl_string b"
  by (auto simp: completionOrderComparer_def Let_def)

lemma comparer_swap: "completionOrderComparer n a b = - completionOrderComparer n b a"
  using strcmp_antisym [of "cl_string a" "cl_string b"] by (auto simp: completionOrderComparer_def Let_def)

lemma comparer_trans:
  "completionOrderComparer n a b < 0 \<Longrightarrow> completionOrderComparer n b c < 0 \<Longrightarrow> completionOrderComparer n a c < 0"
  using strcmp_trans [of "cl_string a" "cl_string b" "cl_string c"]
  by (auto simp: completionOrderComparer_def Let_def split: if_splits)

definition in_order :: "int \<Rightarrow> completionLine list \<Rightarrow> bool" where
  "in_order n a \<longleftrightarrow> sorted_wrt (\<lambda>x y. completionOrderComparer n x y < 0) a"

text \<open>What the search relies on: from where the comparison is not positive it is negative ever after.\<close>

definition falls :: "(completionLine \<Rightarrow> int) \<Rightarrow> completionLine list \<Rightarrow> bool" where
  "falls f a \<longleftrightarrow> (\<forall>i j. i < j \<longrightarrow> j < length a \<longrightarrow> f (a ! i) \<le> 0 \<longrightarrow> f (a ! j) < 0)"

lemma falls_after: "falls f a \<Longrightarrow> f (a ! i) < 0 \<Longrightarrow> i \<le> j \<Longrightarrow> j < length a \<Longrightarrow> f (a ! j) < 0"
  unfolding falls_def by (metis le_neq_implies_less order_less_imp_le)

lemma falls_before: "falls f a \<Longrightarrow> 0 < f (a ! j) \<Longrightarrow> i \<le> j \<Longrightarrow> j < length a \<Longrightarrow> 0 < f (a ! i)"
  unfolding falls_def by (metis le_neq_implies_less not_less order_less_asym)

text \<open>The binary search finds the string, or the place that keeps the order.\<close>

lemma search_loop_law:
  "falls f a \<Longrightarrow> 0 \<le> l \<Longrightarrow> r < int (length a) \<Longrightarrow> l \<le> r + 1 \<Longrightarrow> (\<forall>i<nat l. 0 < f (a ! i))
    \<Longrightarrow> (\<forall>i<length a. r < int i \<longrightarrow> f (a ! i) < 0) \<Longrightarrow>
    (case search_loop f a l r of
       None \<Rightarrow> \<exists>i<length a. f (a ! i) = 0
     | Some k \<Rightarrow> k \<le> length a \<and> (\<forall>i<k. 0 < f (a ! i)) \<and> (\<forall>i<length a. k \<le> i \<longrightarrow> f (a ! i) < 0))"
proof (induction f a l r rule: search_loop.induct)
  case (1 f a l r)
  let ?x = "(l + r) div 2"
  note falling = "1.prems"(1)
  show ?case
  proof (cases "l \<le> r")
    case False
    with "1.prems" have "l = r + 1" by simp
    with False "1.prems" show ?thesis by (subst search_loop.simps) auto
  next
    case True
    then have x: "l \<le> ?x" "?x \<le> r" "nat ?x < length a" "0 \<le> ?x" using "1.prems"(2,3) by auto
    consider "f (a ! nat ?x) = 0" | "f (a ! nat ?x) < 0" | "0 < f (a ! nat ?x)" by linarith
    then show ?thesis
    proof cases
      case 1
      then show ?thesis using True x(3) by (subst search_loop.simps) auto
    next
      case 2
      have "search_loop f a l r = search_loop f a l (?x - 1)" using True 2 by (subst search_loop.simps) (simp add: Let_def)
      moreover have "\<forall>i<length a. ?x - 1 < int i \<longrightarrow> f (a ! i) < 0"
      proof (intro allI impI)
        fix i assume i: "i < length a" "?x - 1 < int i"
        then have "nat ?x \<le> i" using x(4) by linarith
        with falls_after [OF falling 2] i(1) show "f (a ! i) < 0" by blast
      qed
      ultimately show ?thesis
        using "1.IH"(1) [OF True refl refl _ 2 falling "1.prems"(2) _ _ "1.prems"(5)] 2 x "1.prems"(3) by simp
    next
      case 3
      have "search_loop f a l r = search_loop f a (?x + 1) r" using True 3 by (subst search_loop.simps) (simp add: Let_def)
      moreover have "\<forall>i<nat (?x + 1). 0 < f (a ! i)"
      proof (intro allI impI)
        fix i assume i: "i < nat (?x + 1)"
        then have "i \<le> nat ?x" using x(4) by linarith
        with falls_before [OF falling 3] x(3) show "0 < f (a ! i)" by blast
      qed
      ultimately show ?thesis
        using "1.IH"(2) [OF True refl refl _ _ falling _ "1.prems"(3) _ _ "1.prems"(6)] 3 x by simp
    qed
  qed
qed

lemma in_order_falls: "in_order n a \<Longrightarrow> falls (completionOrderComparer n t) a"
  unfolding falls_def
proof (intro allI impI)
  fix i j assume o: "in_order n a" and ij: "i < j" "j < length a" and le: "completionOrderComparer n t (a ! i) \<le> 0"
  have ord: "completionOrderComparer n (a ! i) (a ! j) < 0" 
    using o ij unfolding in_order_def by (rule sorted_wrt_nth_less)
  show "completionOrderComparer n t (a ! j) < 0"
  proof (cases "completionOrderComparer n t (a ! i) = 0")
    case True
    then have eq: "cl_string t = cl_string (a ! i)" by (simp add: comparer_eq)
    show ?thesis using ord unfolding completionOrderComparer_def eq .
  next
    case False
    with le comparer_trans [OF _ ord, of t] show ?thesis by simp
  qed
qed

lemma reallyInsert_ordered:
  assumes "in_order n a" "cl_string t \<notin> cl_string ` set a \<Longrightarrow> length a < MAX_COMPLETIONS - 2"
  shows "if cl_string t \<in> cl_string ` set a then reallyInsert n a t True = (False, a)
    else fst (reallyInsert n a t True) \<and> in_order n (snd (reallyInsert n a t True))
      \<and> set (snd (reallyInsert n a t True)) = insert t (set a) \<and> length (snd (reallyInsert n a t True)) = Suc (length a)"
proof -
  let ?f = "completionOrderComparer n t"
  have law: "case search_loop ?f a 0 (int (length a) - 1) of
       None \<Rightarrow> \<exists>i<length a. ?f (a ! i) = 0
     | Some k \<Rightarrow> k \<le> length a \<and> (\<forall>i<k. 0 < ?f (a ! i)) \<and> (\<forall>i<length a. k \<le> i \<longrightarrow> ?f (a ! i) < 0)"
    by (rule search_loop_law [OF in_order_falls [OF assms(1)]]) auto
  show ?thesis
  proof (cases "search_loop ?f a 0 (int (length a) - 1)")
    case None
    with law have "cl_string t \<in> cl_string ` set a" by (auto simp: comparer_eq)
    then show ?thesis using None by (simp add: reallyInsert_def)
  next
    case (Some k)
    with law have k: "k \<le> length a" "\<forall>i<k. 0 < ?f (a ! i)" "\<forall>i<length a. k \<le> i \<longrightarrow> ?f (a ! i) < 0" by auto
    have new: "cl_string t \<notin> cl_string ` set a"
    proof
      assume "cl_string t \<in> cl_string ` set a"
      then obtain i where i: "i < length a" "?f (a ! i) = 0" by (auto simp: comparer_eq in_set_conv_nth)
      with k show False by (cases "i < k") force+
    qed
    have r: "reallyInsert n a t True = (True, take k a @ t # drop k a)"
      using Some assms(2) [OF new] k(1) by (simp add: reallyInsert_def MAX_COMPLETIONS_def)
    have "completionOrderComparer n x t < 0" if x: "x \<in> set (take k a)" for x
    proof -
      from x obtain i where "i < k" "x = a ! i" by (auto simp: in_set_conv_nth)
      then show ?thesis using k(2) comparer_swap [of n x t] by simp
    qed
    moreover have "?f x < 0" if x: "x \<in> set (drop k a)" for x
    proof -
      from x obtain i where "i < length a - k" "x = a ! (k + i)" by (auto simp: in_set_conv_nth)
      then show ?thesis using k(3) by simp
    qed
    moreover have "sorted_wrt (\<lambda>x y. completionOrderComparer n x y < 0) (take k a @ drop k a)" using assms(1) by (simp add: in_order_def)
    ultimately have "in_order n (take k a @ t # drop k a)"
      unfolding in_order_def sorted_wrt_append by auto
    moreover have "set (take k a) \<union> set (drop k a) = set a" by (metis append_take_drop_id set_append)
    ultimately show ?thesis using new k(1) by (auto simp: r)
  qed
qed


section \<open>What has been collected\<close>

definition common_prefix :: "string \<Rightarrow> string set \<Rightarrow> bool" where
  "common_prefix p names \<longleftrightarrow>
     (\<forall>s\<in>names. prefix p s) \<and> (\<forall>q. (\<forall>s\<in>names. prefix q s) \<longrightarrow> prefix q p)"

lemma computeCompletionPrefix_law:
  "prefix (computeCompletionPrefix d s) d \<and> prefix (computeCompletionPrefix d s) s
    \<and> (\<forall>q. prefix q d \<longrightarrow> prefix q s \<longrightarrow> prefix q (computeCompletionPrefix d s))"
proof (induction d s rule: computeCompletionPrefix.induct)
  case (1 d ds c cs)
  then show ?case by (auto simp: prefix_Cons)
qed auto

lemma common_prefix_insert: "common_prefix p names \<Longrightarrow> common_prefix (computeCompletionPrefix p s) (insert s names)"
  using computeCompletionPrefix_law [of p s] unfolding common_prefix_def
  by (metis insertE insertI1 insertI2 prefix_order.order_trans)

text \<open>The names begin as asked, letter for letter or but for the case.\<close>

definition begins :: "bool \<Rightarrow> string \<Rightarrow> string \<Rightarrow> bool" where
  "begins caseSensitive start s \<longleftrightarrow> \<not> fst (prefix_test caseSensitive start s)"

lemma begins_case: "begins True start s \<longleftrightarrow> prefix start s"
proof -
  have "\<not> fst (prefix_test c start s) \<longleftrightarrow> prefix start s" if "c = True" for c
    using that by (induction c start s rule: prefix_test.induct) auto
  then show ?thesis by (simp add: begins_def)
qed

definition collected :: "int \<Rightarrow> string \<Rightarrow> string set \<Rightarrow> completions \<Rightarrow> bool" where
  "collected n start names ci \<longleftrightarrow> cs_idToProcess ci = start \<and> cs_idToProcessLength ci = n
     \<and> in_order n (cs_alternatives ci) \<and> cl_string ` set (cs_alternatives ci) = names
     \<and> length (cs_alternatives ci) = card names
     \<and> (names \<noteq> {} \<longrightarrow> common_prefix (cs_prefix ci) names \<and> cs_maxLen ci = int (Max (length ` names)))"

lemma collected_step:
  assumes c: "collected n start names ci" and room: "card (insert (cl_string line) names) \<le> MAX_COMPLETIONS - 2"
  shows "\<exists>ci'. processName caseSensitive (Some (cl_string line)) line True ci = Some ci'
    \<and> collected n start (if begins caseSensitive start (cl_string line) then insert (cl_string line) names else names) ci'"
proof -
  let ?s = "cl_string line"
  obtain differs complete where t: "prefix_test caseSensitive start ?s = (differs, complete)" by (cases "prefix_test caseSensitive start ?s")
  define ci1 where "ci1 = (if complete then ci\<lparr>cs_isCompleteFlag := True\<rparr> else ci)"
  have c1: "collected n start names ci1" using c by (simp add: collected_def ci1_def)
  have run: "processName caseSensitive (Some ?s) line True ci = (if differs then Some ci1 else completionInsertName line True ci1)"
    using t c by (simp add: processName_def completeName_def completionTestPrefix_def collected_def ci1_def)
  have fin: "finite names" using c by (auto simp: collected_def)
  show ?thesis
  proof (cases differs)
    case True
    then show ?thesis using run c1 t by (simp add: begins_def)
  next
    case False
    then have b: "begins caseSensitive start ?s" using t by (simp add: begins_def)
    show ?thesis
    proof (cases "cs_alternatives ci1 = []")
      case True
      then have "names = {}" using c1 by (auto simp: collected_def)
      moreover have "common_prefix ?s {?s}" by (simp add: common_prefix_def)
      ultimately show ?thesis
        using run False True b c1 by (auto simp: completionInsertName_def Let_def collected_def in_order_def)
    next
      case ne: False
      let ?a = "cs_alternatives ci1"
      have a: "in_order n ?a" "cl_string ` set ?a = names" "length ?a = card names" "cs_idToProcessLength ci1 = n"
        using c1 by (simp_all add: collected_def)
      have names: "names \<noteq> {}" using ne a(2) by auto
      have lim: "\<not> \<not> length ?a < MAX_COMPLETIONS - 1" "?s \<notin> cl_string ` set ?a \<Longrightarrow> length ?a < MAX_COMPLETIONS - 2"
        using room fin a(2,3) card_insert_le [of names ?s] by (auto simp: MAX_COMPLETIONS_def)
      note r = reallyInsert_ordered [of n ?a line, OF a(1) lim(2), unfolded a(2)]
      show ?thesis
      proof (cases "?s \<in> names")
        case True
        then show ?thesis using run False b ne lim(1) r a(4) c1
          by (simp add: completionInsertName_def Let_def insert_absorb)
      next
        case new: False
        with r obtain a' where i: "reallyInsert n ?a line True = (True, a')" "in_order n a'" "set a' = insert line (set ?a)"
          "length a' = Suc (length ?a)" by (cases "reallyInsert n ?a line True") auto
        define ci2 where "ci2 = ci1\<lparr>cs_prefix := computeCompletionPrefix (cs_prefix ci1) ?s,
            cs_maxLen := (if int (length ?s) > cs_maxLen ci1 then int (length ?s) else cs_maxLen ci1),
            cs_alternatives := a', cs_fullMatchFlag := False\<rparr>"
        have "completionInsertName line True ci1 = Some ci2"
          using ne lim(1) i(1) a(4) by (simp add: completionInsertName_def Let_def ci2_def)
        moreover have "collected n start (insert ?s names) ci2"
        proof -
          have p: "common_prefix (computeCompletionPrefix (cs_prefix ci1) ?s) (insert ?s names)"
            using c1 names by (intro common_prefix_insert) (simp add: collected_def)
          have "Max (length ` insert ?s names) = max (length ?s) (Max (length ` names))"
            using fin names by (simp add: Max_insert)
          moreover have "cs_maxLen ci1 = int (Max (length ` names))" using c1 names by (simp add: collected_def)
          ultimately have m: "cs_maxLen ci2 = int (Max (length ` insert ?s names))" by (simp add: ci2_def max_def)
          show ?thesis
            unfolding collected_def using m p c1 i(2,3,4) a(2,3) fin new
            by (simp add: ci2_def collected_def)
        qed
        ultimately show ?thesis using run False b by auto
      qed
    qed
  qed
qed


text \<open>The candidates of a list, each with the alternative it makes.\<close>

lemma collected_fold:
  assumes "\<And>x ci. x \<in> set xs \<Longrightarrow> fn x ci =
      (case cand x of None \<Rightarrow> Some ci | Some line \<Rightarrow> processName caseSensitive (Some (cl_string line)) line True ci)"
  shows "collected n start names ci \<Longrightarrow>
    card (names \<union> {cl_string line | x line. x \<in> set xs \<and> cand x = Some line}) \<le> MAX_COMPLETIONS - 2 \<Longrightarrow>
    \<exists>ci'. fold (\<lambda>x s. Option.bind s (fn x)) xs (Some ci) = Some ci'
      \<and> collected n start
          (names \<union> {cl_string line | x line. x \<in> set xs \<and> cand x = Some line \<and> begins caseSensitive start (cl_string line)}) ci'"
  using assms
proof (induction xs arbitrary: names ci)
  case Nil
  then show ?case by simp
next
  case (Cons x xs)
  let ?all = "\<lambda>xs. {cl_string line | x line. x \<in> set xs \<and> cand x = Some line}"
  let ?good = "\<lambda>xs. {cl_string line | x line. x \<in> set xs \<and> cand x = Some line \<and> begins caseSensitive start (cl_string line)}"
  have fin: "finite names" using Cons(2) by (auto simp: collected_def)
  have finite: "finite (?all xs)" for xs
    by (rule finite_subset [of _ "(\<lambda>x. cl_string (the (cand x))) ` set xs"]) force+
  show ?case
  proof (cases "cand x")
    case None
    then have "?all (x # xs) = ?all xs" "?good (x # xs) = ?good xs" by auto
    moreover have "fn x ci = Some ci" using Cons(4) [of x ci] None by simp
    ultimately show ?thesis using Cons(1) [OF Cons(2)] Cons(3,4) by simp
  next
    case (Some line)
    let ?s = "cl_string line"
    have e: "?all (x # xs) = insert ?s (?all xs)"
      "?good (x # xs) = (if begins caseSensitive start ?s then insert ?s (?good xs) else ?good xs)" using Some by auto
    have sub: "card (insert ?s names) \<le> MAX_COMPLETIONS - 2" "card (insert ?s names \<union> ?all xs) \<le> MAX_COMPLETIONS - 2"
    proof -
      have "insert ?s names \<union> ?all xs = names \<union> ?all (x # xs)" unfolding e by simp
      with Cons(3) show "card (insert ?s names \<union> ?all xs) \<le> MAX_COMPLETIONS - 2" by simp
      moreover have "card (insert ?s names) \<le> card (insert ?s names \<union> ?all xs)"
        using fin finite by (intro card_mono) auto
      ultimately show "card (insert ?s names) \<le> MAX_COMPLETIONS - 2" by simp
    qed
    from collected_step [OF Cons(2) sub(1), of caseSensitive] obtain ci1 where
      c1: "processName caseSensitive (Some ?s) line True ci = Some ci1"
      "collected n start (if begins caseSensitive start ?s then insert ?s names else names) ci1" by blast
    have "card ((if begins caseSensitive start ?s then insert ?s names else names) \<union> ?all xs) \<le> card (insert ?s names \<union> ?all xs)"
      using fin finite by (intro card_mono) auto
    with sub(2) have room: "card ((if begins caseSensitive start ?s then insert ?s names else names) \<union> ?all xs) \<le> MAX_COMPLETIONS - 2"
      by linarith
    have "(if begins caseSensitive start ?s then insert ?s names else names) \<union> ?good xs = names \<union> ?good (x # xs)"
      unfolding e(2) by simp
    moreover have "fn x ci = Some ci1" using Cons(4) [of x ci] Some c1(1) by simp
    ultimately show ?thesis using Cons(1) [OF c1(2) room] Cons(4) by simp
  qed
qed

lemma collected_empty: "cs_alternatives ci = [] \<Longrightarrow> collected (cs_idToProcessLength ci) (cs_idToProcess ci) {} ci"
  by (simp add: collected_def in_order_def)

text \<open>The alternative a symbol makes for functions, variables and macros.\<close>

definition other_line :: "completionHeap \<Rightarrow> symbol \<Rightarrow> completionLine option" where
  "other_line h s =
     (if sym_type s = TypeDefault then
        Some (case sym_value s of
          TypeModifierValue (Some m) \<Rightarrow>
            (let modifier = the (ch_typeModifiers h m) in
             if tm_type modifier = TypeFunction
             then makeCompletionLine (sym_name s @ (if tm_args modifier = None then ''()'' else ''('')) (Some s) TypeDefault 0 []
             else makeCompletionLine (sym_name s) (Some s) TypeDefault 0 [])
        | _ \<Rightarrow> makeCompletionLine (sym_name s) (Some s) TypeDefault 0 [])
      else None)"

definition macro_line :: "completionHeap \<Rightarrow> symbol \<Rightarrow> completionLine option" where
  "macro_line h s =
     (if sym_type s = TypeMacro then
        Some (case sym_value s of
          MacroBodyValue (Some m) \<Rightarrow> (let mbody = the (ch_macroBodies h m) in
            makeCompletionLine (sym_name s) (Some s) TypeMacro (mb_argCount mbody) (mb_argumentNames mbody))
        | _ \<Rightarrow> makeCompletionLine (sym_name s) (Some s) TypeCppUndefinedMacro 0 [])
      else None)"

text \<open>No pointer of a symbol dangles.\<close>

definition heap_ok :: "completionHeap \<Rightarrow> symbol_table \<Rightarrow> bool" where
  "heap_ok h table \<longleftrightarrow> (\<forall>cell\<in>set (concat (hl_tab table)).
     (\<forall>m. sym_value (cell_symbol cell) = TypeModifierValue (Some m) \<longrightarrow> ch_typeModifiers h m \<noteq> None)
     \<and> (\<forall>m. sym_value (cell_symbol cell) = MacroBodyValue (Some m) \<longrightarrow> ch_macroBodies h m \<noteq> None))"

definition symbols_of :: "symbol_table \<Rightarrow> symbol list" where
  "symbols_of table = map cell_symbol (concat (hl_tab table))"

definition other_names :: "completionHeap \<Rightarrow> symbol_table \<Rightarrow> string set" where
  "other_names h table = {cl_string line | s line. s \<in> set (symbols_of table) \<and> (other_line h s = Some line \<or> macro_line h s = Some line)}"

lemma string_of_line [simp]: "cl_string (makeCompletionLine s symbol t n margs) = s"
  by (simp add: makeCompletionLine_def)

lemma other_function:
  assumes "heap_ok h table" "s \<in> set (symbols_of table)"
  shows "symbolCompletionFunction h StorageDefault s ci =
    (case other_line h s of None \<Rightarrow> Some ci | Some line \<Rightarrow> processName (ch_caseSensitive h) (Some (cl_string line)) line True ci)"
proof (cases "\<exists>m. sym_value s = TypeModifierValue (Some m)")
  case True
  then obtain m modifier where "sym_value s = TypeModifierValue (Some m)" "ch_typeModifiers h m = Some modifier"
    using assms by (fastforce simp: heap_ok_def symbols_of_def)
  then show ?thesis
    by (simp add: symbolCompletionFunction_def other_line_def completeFunctionOrMethodName_def Let_def)
next
  case False
  then show ?thesis
    by (auto simp: symbolCompletionFunction_def other_line_def split: symbol_value.splits option.splits)
qed

lemma macro_function:
  assumes "heap_ok h table" "s \<in> set (symbols_of table)"
  shows "completeFun h TypeMacro s ci =
    (case macro_line h s of None \<Rightarrow> Some ci | Some line \<Rightarrow> processName (ch_caseSensitive h) (Some (cl_string line)) line True ci)"
proof (cases "\<exists>m. sym_value s = MacroBodyValue (Some m)")
  case True
  then obtain m body where "sym_value s = MacroBodyValue (Some m)" "ch_macroBodies h m = Some body"
    using assms by (fastforce simp: heap_ok_def symbols_of_def)
  then show ?thesis by (simp add: completeFun_def macro_line_def Let_def)
next
  case False
  then show ?thesis by (auto simp: completeFun_def macro_line_def split: symbol_value.splits option.splits)
qed

lemma map_table_fold:
  "symbolTableMapWithPointer table fn ci = fold (\<lambda>x s. Option.bind s (fn x)) (symbols_of table) (Some ci)"
  by (simp add: symbolTableMapWithPointer_def hashListMap_def symbols_of_def fold_map comp_def)


section \<open>The printed list\<close>

lemma fput_fput: "fput b (fput a p) = fput (a @ b) p" by (simp add: fput_def)

lemma completions_length_some: "(\<forall>m\<in>set ms. m_fullName m \<noteq> None) \<Longrightarrow> completions_length ms \<noteq> None"
  by (induction ms) auto

lemma print_completions_loop_body:
  "completions_length ms = Some n \<Longrightarrow> \<exists>body. print_completions_loop ms p = Some (fput body p) \<and> int (length body) = n"
proof (induction ms arbitrary: n p)
  case Nil
  then show ?case by (intro exI [of _ "[]"]) (simp add: fput_def)
next
  case (Cons c rest)
  then obtain name k where c: "m_fullName c = Some name" and k: "completions_length rest = Some k"
    and n: "n = int (length name) + (if rest \<noteq> [] then 1 else 0) + k"
    by (auto simp: bind_eq_Some_conv)
  let ?here = "str_bytes name @ (if rest \<noteq> [] then [10] else [])"
  from Cons(1) [OF k, of "fput ?here p"] obtain body where
    b: "print_completions_loop rest (fput ?here p) = Some (fput body (fput ?here p))" "int (length body) = k" by blast
  have "print_completions_loop (c # rest) p = print_completions_loop rest (fput ?here p)"
    using c by (simp add: printOneCompletion_def fput_fput)
  with b n show ?case by (intro exI [of _ "?here @ body"]) (simp add: fput_fput str_bytes_def)
qed

text \<open>C32: When every match of the current session has a full name, printing the completions succeeds, and the
  length attribute of the opening tag is exactly the number of bytes between that tag and the closing one, also
  when the list has been cut and ends with dots; the editor reads as many bytes as the attribute says.\<close>

theorem completions_length_honest:
  assumes "top_entry stack = Some entry" "\<forall>m\<in>set (se_matches entry). m_fullName m \<noteq> None"
  shows "\<exists>body. printCompletionsList options stack noFocus p =
    Some (ppcEnd PPC_ALL_COMPLETIONS (fput body (ppcBeginAllCompletions (if noFocus then 1 else 0) (int (length body)) p)))"
proof -
  from completions_length_some [OF assms(2)] obtain n where n: "completions_length (se_matches entry) = Some n" by blast
  let ?dots = "if completionsWillPrintEllipsis options (se_matches entry) then [10] @ str_bytes ''...'' else []"
  let ?p = "ppcBeginAllCompletions (if noFocus then 1 else 0)
    (if completionsWillPrintEllipsis options (se_matches entry) then n + 4 else n) p"
  from print_completions_loop_body [OF n, of ?p] obtain body where
    b: "print_completions_loop (se_matches entry) ?p = Some (fput body ?p)" "int (length body) = n" by blast
  have "printCompletionsList options stack noFocus p = Some (printCompletionsEnding options (se_matches entry) (fput body ?p))"
    using assms(1) n b(1) by (simp add: printCompletionsList_def printCompletionsBeginning_def Let_def)
  moreover have "printCompletionsEnding options (se_matches entry) (fput body ?p)
    = ppcEnd PPC_ALL_COMPLETIONS (fput (body @ ?dots) ?p)"
    by (simp add: printCompletionsEnding_def fput_fput)
  moreover have "?p = ppcBeginAllCompletions (if noFocus then 1 else 0) (int (length (body @ ?dots))) p"
    using b(2) by (simp add: str_bytes_def)
  ultimately show ?thesis by (intro exI [of _ "body @ ?dots"]) simp
qed

section \<open>Witnesses\<close>

definition example_symbols :: symbol_table where
  "example_symbols = \<lparr>hl_size = 1, hl_tab =
     [[\<lparr>cell_address = 1, cell_symbol = newSymbol ''far'' (Position 1 1 0), cell_members = None\<rparr>,
       \<lparr>cell_address = 2, cell_symbol = (newSymbol ''foo'' (Position 1 2 0))\<lparr>sym_type := TypeMacro, sym_value := MacroBodyValue None\<rparr>,
        cell_members = None\<rparr>]]\<rparr>"

definition example_heap :: completionHeap where
  "example_heap = \<lparr>ch_caseSensitive = True, ch_macroBodies = (\<lambda>_. None), ch_typeModifiers = (\<lambda>_. None)\<rparr>"

definition example_completions :: completions where
  "example_completions = \<lparr>cs_idToProcess = ''fo'', cs_idToProcessLength = 2, cs_idToProcessPosition = Position 1 3 0,
     cs_fullMatchFlag = False, cs_isCompleteFlag = False, cs_noFocusOnCompletions = False,
     cs_abortFurtherCompletions = False, cs_prefix = [], cs_maxLen = 0, cs_alternatives = []\<rparr>"

lemma other_names_union:
  "other_names h table = (\<Union>s\<in>set (symbols_of table).
     cl_string ` (set_option (other_line h s) \<union> set_option (macro_line h s)))"
  by (auto simp: other_names_def)

lemma example_names: "other_names example_heap example_symbols = {''far'', ''foo''}"
  by (simp add: other_names_union symbols_of_def example_symbols_def other_line_def macro_line_def newSymbol_def
      makeSymbol_def fillSymbol_def insert_commute)

lemma common_prefix_single: "common_prefix p {s} \<longleftrightarrow> p = s"
  unfolding common_prefix_def by (auto intro: prefix_order.antisym)


theorem completions_length_honest_witness:
  "let stack = \<lparr>st_popped = [], st_active =
      [(newEmptySessionStackEntry 0 OP_BROWSE_PUSH)\<lparr>se_matches := [(example_match ''fob()'' 1)\<lparr>m_fullName := Some ''int fob()''\<rparr>,
        (example_match ''foo'' 1)\<lparr>m_fullName := Some ''#define foo''\<rparr>]\<rparr>]\<rparr>
   in \<exists>body. printCompletionsList \<lparr>co_maxCompletions = 2, co_lineLength = 80\<rparr> stack False example_ppc =
    Some (ppcEnd PPC_ALL_COMPLETIONS (fput body (ppcBeginAllCompletions 0 (int (length body)) example_ppc)))"
proof -
  let ?e = "(newEmptySessionStackEntry 0 OP_BROWSE_PUSH)\<lparr>se_matches := [(example_match ''fob()'' 1)\<lparr>m_fullName := Some ''int fob()''\<rparr>,
        (example_match ''foo'' 1)\<lparr>m_fullName := Some ''#define foo''\<rparr>]\<rparr>"
  have "top_entry \<lparr>st_popped = [], st_active = [?e]\<rparr> = Some ?e" by (simp add: top_entry_def)
  from completions_length_honest [OF this, of "\<lparr>co_maxCompletions = 2, co_lineLength = 80\<rparr>" False example_ppc]
  show ?thesis by (simp add: example_match_def newMatch_def Let_def)
qed

end
