(* ===== verification/Conditionals.thy ===== *)
theory Conditionals
  imports LexemStream
begin

text \<open>
  Models the conditional directives of \<^verbatim>\<open>yylex.c\<close>: the stack of open \<open>#if\<close>s, the references that
  link the directives of a conditional, skipping what is not compiled, and \<open>#ifdef\<close>, \<open>#ifndef\<close> and
  \<open>#if\<close>. The value of the condition of an \<open>#if\<close>, whose parser is generated, is a parameter.
\<close>

section \<open>Open conditionals\<close>

definition pushOpenIf :: "position \<Rightarrow> cpp \<Rightarrow> cpp" where
  "pushOpenIf position st = st\<lparr>cp_file := (cp_file st)\<lparr>fd_ifStack := position # fd_ifStack (cp_file st)\<rparr>\<rparr>"

definition innermostOpenIf :: "cpp \<Rightarrow> position" where
  "innermostOpenIf st = hd (fd_ifStack (cp_file st))"

definition popOpenIf :: "cpp \<Rightarrow> cpp" where
  "popOpenIf st = st\<lparr>cp_file := (cp_file st)\<lparr>fd_ifStack := tl (fd_ifStack (cp_file st))\<rparr>\<rparr>"

definition anyOpenIf :: "cpp \<Rightarrow> bool" where
  "anyOpenIf st \<longleftrightarrow> fd_ifStack (cp_file st) \<noteq> []"

function reportUnterminatedIfs :: "cpp \<Rightarrow> cpp" where
  "reportUnterminatedIfs st =
     (if anyOpenIf st
      then reportUnterminatedIfs (popOpenIf (report (ParsingMessageAt (innermostOpenIf st) ERR_ST ''unterminated #if'') st))
      else st)"
  by pat_completeness auto
termination
  by (relation "measure (\<lambda>st. length (fd_ifStack (cp_file st)))") (auto simp: anyOpenIf_def popOpenIf_def report_def)

declare reportUnterminatedIfs.simps [simp del]

text \<open>The texts of the formats \<open>%x\<close> and \<open>%d\<close>.\<close>

fun hex_digits :: "nat \<Rightarrow> string" where
  "hex_digits n =
     (if n < 16 then [char_of (if n < 10 then 48 + n else 87 + n)]
      else hex_digits (n div 16) @ [char_of (if n mod 16 < 10 then 48 + n mod 16 else 87 + n mod 16)])"

declare hex_digits.simps [simp del]

definition format_x :: "int \<Rightarrow> string" where
  "format_x v = hex_digits (nat (to_unsigned v))"

definition format_d :: "int \<Rightarrow> string" where
  "format_d v = map (\<lambda>b. char_of (nat b)) (printf_d v)"

definition conditional_name :: "position \<Rightarrow> string" where
  "conditional_name dp = ''CppIf'' @ format_x (pos_file dp) @ ''-'' @ format_x (pos_col dp) @ ''-'' @ format_d (pos_line dp)"

definition genCppIfElseReference :: "int \<Rightarrow> position \<Rightarrow> usage \<Rightarrow> cpp \<Rightarrow> cpp" where
  "genCppIfElseReference level position usage st =
     (let st1 = (if level > 0 then pushOpenIf position st else st)
      in if anyOpenIf st1 then
           (let dp = innermostOpenIf st1;
                st2 = report (AddTrivialCxReference (conditional_name dp) TypeCppIfElse StorageDefault position usage) st1
            in if level < 0 then popOpenIf st2 else st2)
         else st1)"

section \<open>Skipping\<close>

datatype deleteUntil = UNTIL_ENDIF | UNTIL_ELIF | UNTIL_ELSE

lemma reference_keeps [simp]:
  "unread_lexems (genCppIfElseReference level position usage st) = unread_lexems st"
  "cp_input (genCppIfElseReference level position usage st) = cp_input st"
  "cp_macroStack (genCppIfElseReference level position usage st) = cp_macroStack st"
  by (auto simp: genCppIfElseReference_def pushOpenIf_def popOpenIf_def report_def unread_lexems_def Let_def)

function delete_loop :: "bool \<Rightarrow> int \<Rightarrow> cpp \<Rightarrow> (deleteUntil \<times> cpp) option" where
  "delete_loop untilEnd depth st =
     (if depth > 0 then
        (case getLexem st of
           None \<Rightarrow> None
         | Some (Inl END_OF_FILE_EXCEPTION, st1) \<Rightarrow> Some (UNTIL_ENDIF, st1)
         | Some (Inl END_OF_MACRO_ARGUMENT_EXCEPTION, st1) \<Rightarrow> None
         | Some (Inr x, st1) \<Rightarrow>
             (let st2 = getExtraLexemInformationFor x True st1; position = lx_position x in
              if lx_code x = CPP_IF \<or> lx_code x = CPP_IFDEF \<or> lx_code x = CPP_IFNDEF
              then delete_loop untilEnd (depth + 1) (genCppIfElseReference 1 position UsageDefined st2)
              else if lx_code x = CPP_ENDIF
              then delete_loop untilEnd (depth - 1) (genCppIfElseReference (-1) position UsageUsed st2)
              else if lx_code x = CPP_ELIF then
                (let st3 = genCppIfElseReference 0 position UsageUsed st2
                 in if depth = 1 \<and> \<not> untilEnd then Some (UNTIL_ELIF, st3) else delete_loop untilEnd depth st3)
              else if lx_code x = CPP_ELSE then
                (let st3 = genCppIfElseReference 0 position UsageUsed st2
                 in if depth = 1 \<and> \<not> untilEnd then Some (UNTIL_ELSE, st3) else delete_loop untilEnd depth st3)
              else delete_loop untilEnd depth st2))
      else Some (UNTIL_ENDIF, st))"
  by pat_completeness auto

termination delete_loop
  by (relation "measure (\<lambda>(u, d, st). length (unread_lexems st))") (auto dest: getLexem_unread)

declare delete_loop.simps [simp del]

definition cppDeleteUntilEndElse :: "bool \<Rightarrow> cpp \<Rightarrow> (deleteUntil \<times> cpp) option" where
  "cppDeleteUntilEndElse untilEnd st = delete_loop untilEnd 1 st"

section \<open>Conditional directives\<close>

text \<open>
  \<open>evaluate\<close> is the parser of conditions (\<^verbatim>\<open>cppexp_yyparse\<close>) together with reading the rest of the line:
  it gives the value of the condition. Each \<open>#elif\<close> is an \<open>#if\<close> of its own.
\<close>

partial_function (option) execCppIf :: "(cpp \<Rightarrow> (int \<times> cpp) option) \<Rightarrow> bool \<Rightarrow> cpp \<Rightarrow> cpp option" where
  "execCppIf evaluate deleteSource st =
     (if deleteSource then do {
        (onElse, st1) \<leftarrow> cppDeleteUntilEndElse False st;
        if onElse = UNTIL_ELIF then do {
          (parseError, st2) \<leftarrow> evaluate (st1\<lparr>cp_isProcessingPreprocessorIf := True\<rparr>);
          execCppIf evaluate (parseError = 0) (st2\<lparr>cp_isProcessingPreprocessorIf := False\<rparr>)
        }
        else Some st1
      }
      else Some st)"

declare execCppIf.simps [code]

definition processIfDirective :: "(cpp \<Rightarrow> (int \<times> cpp) option) \<Rightarrow> cpp \<Rightarrow> cpp option" where
  "processIfDirective evaluate st = do {
     (parseError, st2) \<leftarrow> evaluate (st\<lparr>cp_isProcessingPreprocessorIf := True\<rparr>);
     execCppIf evaluate (parseError = 0) (st2\<lparr>cp_isProcessingPreprocessorIf := False\<rparr>)
   }"

definition macro_defined :: "cpp \<Rightarrow> symbol option \<Rightarrow> bool" where
  "macro_defined st macroSymbol \<longleftrightarrow> (\<exists>s. macroSymbol = Some s \<and> mbody st s \<noteq> None)"

lemma macro_defined_code [code]:
  "macro_defined st macroSymbol = (case macroSymbol of None \<Rightarrow> False | Some s \<Rightarrow> mbody st s \<noteq> None)"
  by (auto simp: macro_defined_def split: option.splits)

definition processIfdefDirective ::
  "cppConfig \<Rightarrow> (cpp \<Rightarrow> (int \<times> cpp) option) \<Rightarrow> bool \<Rightarrow> cpp \<Rightarrow> cpp option" where
  "processIfdefDirective c evaluate isIfdef st = do {
     (r, st1) \<leftarrow> getLexem st;
     case r of
       Inl END_OF_MACRO_ARGUMENT_EXCEPTION \<Rightarrow> None
     | Inl END_OF_FILE_EXCEPTION \<Rightarrow> Some st1
     | Inr x \<Rightarrow>
         (let ch = lx_text x; position = lx_position x;
              (code, st2) = checkCompletionsForId (lx_code x) ch position (getExtraLexemInformationFor x True st1)
          in if \<not> isIdentifierLexem code then Some st2
             else (let macroSymbol = findMacroSymbol c ch st2 in
               if macro_defined st2 macroSymbol
               then execCppIf evaluate (\<not> isIfdef)
                      (report (HandleFoundSymbolReference (the macroSymbol) position UsageUsed (cc_noFile c)) st2)
               else execCppIf evaluate isIfdef st2))
   }"

text \<open>The cases of \<open>processPreprocessorConstruct\<close> for the directives that go on or end a conditional.\<close>

definition process_elif_or_else :: "string \<Rightarrow> position \<Rightarrow> cpp \<Rightarrow> cpp option" where
  "process_elif_or_else name position st =
     (if anyOpenIf st
      then map_option snd (cppDeleteUntilEndElse True (genCppIfElseReference 0 position UsageUsed st))
      else Some (report (ParsingMessageAt position ERR_ST (''unmatched '' @ name)) st))"

definition process_endif :: "position \<Rightarrow> cpp \<Rightarrow> cpp" where
  "process_endif position st =
     (if anyOpenIf st then genCppIfElseReference (-1) position UsageUsed st
      else report (ParsingMessageAt position ERR_ST ''unmatched #endif'') st)"

section \<open>Reading the text of a file\<close>

definition top_level :: "cpp \<Rightarrow> bool" where
  "top_level st \<longleftrightarrow> cp_macroStack st = [] \<and> ls_streamType (cp_input st) = NORMAL_STREAM"

text \<open>What reading and skipping leave as it is: all but the input, the lines, the open conditionals and the reports.\<close>

definition kept :: "cpp \<Rightarrow> cpp" where
  "kept st = st\<lparr>cp_input := makeLexemStream [] [] None NORMAL_STREAM,
     cp_file := (cp_file st)\<lparr>fd_lineNumber := 0, fd_ifStack := [], fd_buffer := [], fd_lexems := []\<rparr>,
     cp_reports := [], cp_isProcessingPreprocessorIf := False\<rparr>"

definition open_ifs :: "cpp \<Rightarrow> position list" where
  "open_ifs st = fd_ifStack (cp_file st)"

lemma kept_simps [simp]:
  "kept (getExtraLexemInformationFor x b st) = kept st" "top_level (getExtraLexemInformationFor x b st) = top_level st"
  "open_ifs (getExtraLexemInformationFor x b st) = open_ifs st"
  "kept (report r st) = kept st" "top_level (report r st) = top_level st" "open_ifs (report r st) = open_ifs st"
  "kept (genCppIfElseReference l p u st) = kept st" "top_level (genCppIfElseReference l p u st) = top_level st"
  "kept (st\<lparr>cp_isProcessingPreprocessorIf := b\<rparr>) = kept st" "top_level (st\<lparr>cp_isProcessingPreprocessorIf := b\<rparr>) = top_level st"
  "open_ifs (st\<lparr>cp_isProcessingPreprocessorIf := b\<rparr>) = open_ifs st"
  "unread_lexems (st\<lparr>cp_isProcessingPreprocessorIf := b\<rparr>) = unread_lexems st"
  by (auto simp: kept_def top_level_def open_ifs_def getExtraLexemInformationFor_def report_def genCppIfElseReference_def
      pushOpenIf_def popOpenIf_def unread_lexems_def Let_def)

lemma open_ifs_reference:
  "open_ifs (genCppIfElseReference 1 p u st) = p # open_ifs st"
  "open_ifs (genCppIfElseReference 0 p u st) = open_ifs st"
  "open_ifs (genCppIfElseReference (-1) p u st) = tl (open_ifs st)"
  by (auto simp: genCppIfElseReference_def open_ifs_def anyOpenIf_def pushOpenIf_def popOpenIf_def report_def Let_def)

lemma refill_top:
  "top_level st \<Longrightarrow> \<exists>e p st1. refillCurrentInputIfExhausted previous st = Some (e, p, st1) \<and> top_level st1
     \<and> kept st1 = kept st \<and> open_ifs st1 = open_ifs st \<and> (e = None \<or> e = Some END_OF_FILE_EXCEPTION \<and> unread_lexems st1 = [])"
proof (induction previous st rule: refillCurrentInputIfExhausted.induct)
  case (1 previous st)
  note eq = refillCurrentInputIfExhausted.simps [of previous st]
  show ?case
  proof (cases "ls_read (cp_input st) = []")
    case False
    then show ?thesis using eq 1(3) by simp
  next
    case r: True
    have top: "\<not> insideMacro st" "ls_streamType (cp_input st) = NORMAL_STREAM"
      using 1(3) by (auto simp: top_level_def insideMacro_def)
    obtain built st1 where b: "build_lexems (setCurrentFileConsistency st) = (built, st1)" by fastforce
    let ?st2 = "setCurrentInputConsistency st1"
    have st2: "top_level ?st2" "kept ?st2 = kept st" "open_ifs ?st2 = open_ifs st" "\<not> built \<Longrightarrow> unread_lexems ?st2 = []"
      using b 1(3) r by (auto simp: build_lexems_def setCurrentFileConsistency_def setCurrentInputConsistency_def top_level_def
          kept_def open_ifs_def makeLexemStream_def unread_lexems_def split: list.splits)
    show ?thesis
    proof (cases built)
      case False
      then show ?thesis using eq r top b st2 by (simp add: Let_def)
    next
      case True
      have "refillCurrentInputIfExhausted previous st = refillCurrentInputIfExhausted (ls_read (cp_input ?st2)) ?st2"
        using eq r top b True by (simp add: Let_def)
      with 1(2) [OF _ top b [symmetric] refl, OF _ refl] True r st2 show ?thesis by simp
    qed
  qed
qed

lemma getLexem_top:
  assumes "top_level st" "unread_lexems st = x # xs"
  shows "\<exists>st1. getLexem st = Some (Inr x, st1) \<and> top_level st1 \<and> unread_lexems st1 = xs \<and> kept st1 = kept st
    \<and> open_ifs st1 = open_ifs st"
proof -
  from refill_top [OF assms(1), of "[]"] obtain e p st1 where
    r: "refillCurrentInputIfExhausted [] st = Some (e, p, st1)" "top_level st1" "kept st1 = kept st" "open_ifs st1 = open_ifs st"
      "e = None \<or> e = Some END_OF_FILE_EXCEPTION \<and> unread_lexems st1 = []" by blast
  note u = refill_unread [OF r(1)]
  with r(5) assms(2) have e: "e = None" by auto
  with u have ne: "ls_read (cp_input st1) \<noteq> []" by simp
  let ?st2 = "st1\<lparr>cp_input := (cp_input st1)\<lparr>ls_read := tl (ls_read (cp_input st1))\<rparr>\<rparr>"
  have "getLexem st = Some (Inr (hd (ls_read (cp_input st1))), ?st2)"
    using r(1) e by (simp add: getLexem_def getLexemAndSavePointerToPrevious_def)
  moreover have "x # xs = hd (ls_read (cp_input st1)) # unread_lexems ?st2"
    using u ne assms(2) by (cases "ls_read (cp_input st1)") (auto simp: unread_lexems_def)
  moreover have "top_level ?st2" "kept ?st2 = kept st" "open_ifs ?st2 = open_ifs st"
    using r(2,3,4) by (simp_all add: top_level_def kept_def open_ifs_def)
  ultimately show ?thesis by auto
qed

section \<open>Well-nested text\<close>

definition opens :: "lexem \<Rightarrow> bool" where
  "opens x \<longleftrightarrow> lx_code x = CPP_IF \<or> lx_code x = CPP_IFDEF \<or> lx_code x = CPP_IFNDEF"

definition continues_if :: "lexem \<Rightarrow> bool" where
  "continues_if x \<longleftrightarrow> lx_code x = CPP_ELIF \<or> lx_code x = CPP_ELSE"

definition plain :: "lexem \<Rightarrow> bool" where
  "plain x \<longleftrightarrow> \<not> opens x \<and> \<not> continues_if x \<and> lx_code x \<noteq> CPP_ENDIF"

text \<open>A group holds whole conditionals; the groups of a conditional are separated by \<open>#elif\<close>s and \<open>#else\<close>s.\<close>

inductive group_text :: "lexem list \<Rightarrow> bool" and groups_text :: "lexem list \<Rightarrow> bool" where
  group_empty: "group_text []"
| group_plain: "plain x \<Longrightarrow> group_text xs \<Longrightarrow> group_text (x # xs)"
| group_if: "opens x \<Longrightarrow> groups_text ys \<Longrightarrow> lx_code e = CPP_ENDIF \<Longrightarrow> group_text zs \<Longrightarrow> group_text (x # ys @ e # zs)"
| groups_one: "group_text xs \<Longrightarrow> groups_text xs"
| groups_more: "group_text xs \<Longrightarrow> continues_if e \<Longrightarrow> groups_text ys \<Longrightarrow> groups_text (xs @ e # ys)"

text \<open>From a state that reads a text to one that reads the rest of it, with nothing else changed.\<close>

definition skipped :: "cpp \<Rightarrow> lexem list \<Rightarrow> position list \<Rightarrow> cpp \<Rightarrow> bool" where
  "skipped st rest ifs st' \<longleftrightarrow> top_level st' \<and> unread_lexems st' = rest \<and> open_ifs st' = ifs \<and> kept st' = kept st"

lemma skipped_refl: "top_level st \<Longrightarrow> skipped st (unread_lexems st) (open_ifs st) st"
  by (simp add: skipped_def)

lemma skipped_trans: "skipped st xs is st1 \<Longrightarrow> skipped st1 ys js st2 \<Longrightarrow> skipped st ys js st2"
  by (simp add: skipped_def)

lemma code_disjoint:
  "opens x \<Longrightarrow> lx_code x \<noteq> CPP_ENDIF" "opens x \<Longrightarrow> lx_code x \<noteq> CPP_ELIF" "opens x \<Longrightarrow> lx_code x \<noteq> CPP_ELSE"
  by (auto simp: opens_def lexem_codes)

text \<open>One step of skipping, by the kind of the lexem.\<close>

lemma delete_step:
  assumes "top_level st" "unread_lexems st = x # xs" "depth > 0"
  shows "\<exists>st1. skipped st xs (if opens x then lx_position x # open_ifs st else if lx_code x = CPP_ENDIF then tl (open_ifs st) else open_ifs st) st1
    \<and> delete_loop u depth st =
        (if opens x then delete_loop u (depth + 1) st1
         else if lx_code x = CPP_ENDIF then delete_loop u (depth - 1) st1
         else if continues_if x \<and> depth = 1 \<and> \<not> u then Some (if lx_code x = CPP_ELIF then UNTIL_ELIF else UNTIL_ELSE, st1)
         else delete_loop u depth st1)"
proof -
  from getLexem_top [OF assms(1,2)] obtain st1 where
    g: "getLexem st = Some (Inr x, st1)" "top_level st1" "unread_lexems st1 = xs" "kept st1 = kept st" "open_ifs st1 = open_ifs st"
    by blast
  let ?st2 = "getExtraLexemInformationFor x True st1" and ?p = "lx_position x"
  note eq = delete_loop.simps [of u depth st]
  consider "opens x" | "lx_code x = CPP_ENDIF" | "lx_code x = CPP_ELIF" | "lx_code x = CPP_ELSE" | "plain x"
    by (auto simp: plain_def continues_if_def)
  then show ?thesis
  proof cases
    case 1
    then show ?thesis
      using g assms(3) eq by (intro exI [of _ "genCppIfElseReference 1 ?p UsageDefined ?st2"])
        (simp add: skipped_def open_ifs_reference opens_def Let_def)
  next
    case 2
    then show ?thesis
      using g assms(3) eq by (intro exI [of _ "genCppIfElseReference (-1) ?p UsageUsed ?st2"])
        (simp add: skipped_def open_ifs_reference opens_def lexem_codes Let_def)
  next
    case 3
    then show ?thesis
      using g assms(3) eq by (intro exI [of _ "genCppIfElseReference 0 ?p UsageUsed ?st2"])
        (simp add: skipped_def open_ifs_reference opens_def continues_if_def lexem_codes Let_def)
  next
    case 4
    then show ?thesis
      using g assms(3) eq by (intro exI [of _ "genCppIfElseReference 0 ?p UsageUsed ?st2"])
        (simp add: skipped_def open_ifs_reference opens_def continues_if_def lexem_codes Let_def)
  next
    case 5
    then show ?thesis
      using g assms(3) eq by (intro exI [of _ ?st2])
        (simp add: skipped_def plain_def opens_def continues_if_def Let_def)
  qed
qed

text \<open>A group is skipped at any depth, the groups of an inner conditional at any depth but the first.\<close>

lemma delete_groups:
  shows "group_text ys \<Longrightarrow> top_level st \<Longrightarrow> unread_lexems st = ys @ rest \<Longrightarrow> depth > 0 \<Longrightarrow>
      \<exists>st1. skipped st rest (open_ifs st) st1 \<and> delete_loop u depth st = delete_loop u depth st1"
    and "groups_text zs \<Longrightarrow> top_level st \<Longrightarrow> unread_lexems st = zs @ rest \<Longrightarrow> depth > 0 \<Longrightarrow> depth \<noteq> 1 \<or> u \<Longrightarrow>
      \<exists>st1. skipped st rest (open_ifs st) st1 \<and> delete_loop u depth st = delete_loop u depth st1"
proof (induction ys and zs arbitrary: st depth rest and st depth rest rule: group_text_groups_text.inducts)
  case group_empty
  then show ?case using skipped_refl [of st] by auto
next
  case (group_plain x xs)
  from delete_step [OF group_plain(4) _ group_plain(6), of x "xs @ rest" u] group_plain(5) obtain st1 where
    s: "skipped st (xs @ rest) (open_ifs st) st1" "delete_loop u depth st = delete_loop u depth st1"
    using group_plain(1) by (auto simp: plain_def)
  from s(1) have "top_level st1" "unread_lexems st1 = xs @ rest" "open_ifs st1 = open_ifs st" by (simp_all add: skipped_def)
  with group_plain(3) [of st1 rest depth] group_plain(6) s show ?case using skipped_trans by metis
next
  case (group_if x ys e zs)
  from delete_step [OF group_if(7) _ group_if(9), of x "ys @ e # zs @ rest" u] group_if(1,8) obtain st1 where
    s: "skipped st (ys @ e # zs @ rest) (lx_position x # open_ifs st) st1" "delete_loop u depth st = delete_loop u (depth + 1) st1"
    by auto
  then have t: "top_level st1" "unread_lexems st1 = ys @ e # zs @ rest" "open_ifs st1 = lx_position x # open_ifs st"
    by (simp_all add: skipped_def)
  from group_if(5) [OF t(1,2), of "depth + 1"] group_if(9) obtain st2 where
    s2: "skipped st1 (e # zs @ rest) (open_ifs st1) st2" "delete_loop u (depth + 1) st1 = delete_loop u (depth + 1) st2" by auto
  then have t2: "top_level st2" "unread_lexems st2 = e # zs @ rest" "open_ifs st2 = lx_position x # open_ifs st"
    using t(3) by (simp_all add: skipped_def)
  from delete_step [OF t2(1,2), of "depth + 1" u] group_if(3,9) t2(3) obtain st3 where
    s3: "skipped st2 (zs @ rest) (open_ifs st) st3" "delete_loop u (depth + 1) st2 = delete_loop u depth st3"
    by (auto simp: opens_def lexem_codes)
  then have t3: "top_level st3" "unread_lexems st3 = zs @ rest" "open_ifs st3 = open_ifs st" by (simp_all add: skipped_def)
  from group_if(6) [OF t3(1,2) group_if(9)] obtain st4 where
    "skipped st3 rest (open_ifs st) st4" "delete_loop u depth st3 = delete_loop u depth st4" using t3(3) by auto
  then show ?case using s s2 s3 skipped_trans by metis
next
  case (groups_one xs)
  then show ?case by blast
next
  case (groups_more xs e ys)
  from groups_more(4) [OF groups_more(6) _ groups_more(8), of "e # ys @ rest"] groups_more(7) obtain st1 where
    s: "skipped st (e # ys @ rest) (open_ifs st) st1" "delete_loop u depth st = delete_loop u depth st1" by auto
  then have t: "top_level st1" "unread_lexems st1 = e # ys @ rest" "open_ifs st1 = open_ifs st" by (simp_all add: skipped_def)
  have e: "\<not> opens e" "lx_code e \<noteq> CPP_ENDIF" using groups_more(2) by (auto simp: opens_def continues_if_def lexem_codes)
  from delete_step [OF t(1,2) groups_more(8), of u] e t(3) groups_more(9) obtain st2 where
    s2: "skipped st1 (ys @ rest) (open_ifs st) st2" "delete_loop u depth st1 = delete_loop u depth st2" by auto
  then have t2: "top_level st2" "unread_lexems st2 = ys @ rest" "open_ifs st2 = open_ifs st" by (simp_all add: skipped_def)
  from groups_more(5) [OF t2(1,2) groups_more(8,9)] obtain st3 where
    "skipped st2 rest (open_ifs st) st3" "delete_loop u depth st2 = delete_loop u depth st3" using t2(3) by auto
  then show ?case using s s2 skipped_trans by metis
qed

text \<open>So skipping stops behind the directive that ends the group, or with the conditional.\<close>

lemma delete_until_alternative:
  assumes "top_level st" "unread_lexems st = g @ e # rest" "group_text g" "continues_if e"
  shows "\<exists>st1. cppDeleteUntilEndElse False st = Some (if lx_code e = CPP_ELIF then UNTIL_ELIF else UNTIL_ELSE, st1)
    \<and> skipped st rest (open_ifs st) st1"
proof -
  from delete_groups(1) [OF assms(3,1,2), of 1 False] obtain st1 where
    s: "skipped st (e # rest) (open_ifs st) st1" "delete_loop False 1 st = delete_loop False 1 st1" by auto
  then have t: "top_level st1" "unread_lexems st1 = e # rest" "open_ifs st1 = open_ifs st" by (simp_all add: skipped_def)
  have e: "\<not> opens e" "lx_code e \<noteq> CPP_ENDIF" using assms(4) by (auto simp: opens_def continues_if_def lexem_codes)
  from delete_step [OF t(1,2), of 1 False] e assms(4) t(3) obtain st2 where
    "skipped st1 rest (open_ifs st) st2"
    "delete_loop False 1 st1 = Some (if lx_code e = CPP_ELIF then UNTIL_ELIF else UNTIL_ELSE, st2)" by auto
  then show ?thesis using s skipped_trans unfolding cppDeleteUntilEndElse_def by metis
qed

lemma delete_until_endif:
  assumes "top_level st" "unread_lexems st = g @ f # rest" "lx_code f = CPP_ENDIF" "group_text g \<or> u \<and> groups_text g"
  shows "\<exists>st1. cppDeleteUntilEndElse u st = Some (UNTIL_ENDIF, st1) \<and> skipped st rest (tl (open_ifs st)) st1"
proof -
  from assms(4) delete_groups(1) [OF _ assms(1,2), of 1 u] delete_groups(2) [OF _ assms(1,2), of 1 u] obtain st1 where
    s: "skipped st (f # rest) (open_ifs st) st1" "delete_loop u 1 st = delete_loop u 1 st1" by auto
  then have t: "top_level st1" "unread_lexems st1 = f # rest" "open_ifs st1 = open_ifs st" by (simp_all add: skipped_def)
  have f: "\<not> opens f" using assms(3) by (auto simp: opens_def lexem_codes)
  from delete_step [OF t(1,2), of 1 u] f assms(3) t(3) obtain st2 where
    s2: "skipped st1 rest (tl (open_ifs st)) st2" "delete_loop u 1 st1 = delete_loop u 0 st2" by auto
  moreover have "delete_loop u 0 st2 = Some (UNTIL_ENDIF, st2)" by (simp add: delete_loop.simps [of u 0 st2])
  ultimately show ?thesis using s skipped_trans unfolding cppDeleteUntilEndElse_def by metis
qed

section \<open>The branch that is compiled\<close>

text \<open>
  The further branches of a conditional: each \<open>#elif\<close> with its condition, the value of that, and the group; then
  perhaps an \<open>#else\<close> with its group, and the \<open>#endif\<close>.
\<close>

type_synonym branches = "(lexem \<times> lexem list \<times> int \<times> lexem list) list"

definition tail_text :: "(lexem \<times> lexem list) option \<Rightarrow> lexem \<Rightarrow> lexem list \<Rightarrow> lexem list" where
  "tail_text els f rest = (case els of None \<Rightarrow> f # rest | Some (e, g) \<Rightarrow> e # g @ f # rest)"

fun branches_text :: "branches \<Rightarrow> lexem list \<Rightarrow> lexem list" where
  "branches_text [] rest = rest"
| "branches_text ((e, cond, v, g) # bs) rest = e # cond @ g @ branches_text bs rest"

definition branches_ok :: "branches \<Rightarrow> (lexem \<times> lexem list) option \<Rightarrow> lexem \<Rightarrow> bool" where
  "branches_ok bs els f \<longleftrightarrow> (\<forall>(e, cond, v, g)\<in>set bs. lx_code e = CPP_ELIF \<and> group_text g)
     \<and> (\<forall>e g. els = Some (e, g) \<longrightarrow> lx_code e = CPP_ELSE \<and> group_text g) \<and> lx_code f = CPP_ENDIF"

text \<open>What is left to be read: the group of the first true condition and what follows it, or the \<open>#else\<close> group.\<close>

fun left_over :: "int \<Rightarrow> lexem list \<Rightarrow> branches \<Rightarrow> (lexem \<times> lexem list) option \<Rightarrow> lexem \<Rightarrow> lexem list \<Rightarrow> lexem list" where
  "left_over v g [] els f rest =
     (if v \<noteq> 0 then g @ tail_text els f rest else case els of None \<Rightarrow> rest | Some (e, h) \<Rightarrow> h @ f # rest)"
| "left_over v g ((e, cond, w, h) # bs) els f rest =
     (if v \<noteq> 0 then g @ branches_text ((e, cond, w, h) # bs) (tail_text els f rest) else left_over w h bs els f rest)"

definition none_taken :: "int \<Rightarrow> branches \<Rightarrow> (lexem \<times> lexem list) option \<Rightarrow> bool" where
  "none_taken v bs els \<longleftrightarrow> v = 0 \<and> (\<forall>(e, cond, w, g)\<in>set bs. w = 0) \<and> els = None"

definition reads_condition :: "(cpp \<Rightarrow> (int \<times> cpp) option) \<Rightarrow> lexem list \<Rightarrow> int \<Rightarrow> bool" where
  "reads_condition evaluate cond v \<longleftrightarrow> (\<forall>st rest. top_level st \<longrightarrow> unread_lexems st = cond @ rest \<longrightarrow>
     (\<exists>st1. evaluate st = Some (v, st1) \<and> skipped st rest (open_ifs st) st1))"

lemma execCppIf_branches:
  assumes "top_level st" "unread_lexems st = g @ branches_text bs (tail_text els f rest)" "group_text g"
    and "branches_ok bs els f" "\<forall>(e, cond, w, h)\<in>set bs. reads_condition evaluate cond w"
  shows "\<exists>st'. execCppIf evaluate (v = 0) st = Some st'
    \<and> skipped st (left_over v g bs els f rest) (if none_taken v bs els then tl (open_ifs st) else open_ifs st) st'"
  using assms
proof (induction bs arbitrary: st g v)
  case Nil
  show ?case
  proof (cases "v = 0")
    case False
    then show ?thesis using Nil skipped_refl [of st] by (auto simp: execCppIf.simps none_taken_def)
  next
    case v: True
    show ?thesis
    proof (cases els)
      case None
      from delete_until_endif [OF Nil(1) _ _ disjI1 [OF Nil(3)], of f rest False] Nil(2,4) None obtain st1 where
        "cppDeleteUntilEndElse False st = Some (UNTIL_ENDIF, st1)" "skipped st rest (tl (open_ifs st)) st1"
        by (auto simp: branches_ok_def tail_text_def)
      then show ?thesis using v None by (auto simp: execCppIf.simps none_taken_def)
    next
      case (Some eh)
      then obtain e h where els: "els = Some (e, h)" by (cases eh) auto
      with Nil(4) have e: "lx_code e = CPP_ELSE" by (auto simp: branches_ok_def)
      then have "continues_if e" by (simp add: continues_if_def)
      from delete_until_alternative [OF Nil(1) _ Nil(3) this, of "h @ f # rest"] Nil(2) els e obtain st1 where
        "cppDeleteUntilEndElse False st = Some (UNTIL_ELSE, st1)" "skipped st (h @ f # rest) (open_ifs st) st1"
        by (auto simp: tail_text_def lexem_codes)
      then show ?thesis using v els by (auto simp: execCppIf.simps none_taken_def)
    qed
  qed
next
  case (Cons b bs)
  obtain e cond w h where b: "b = (e, cond, w, h)" by (cases b) auto
  show ?case
  proof (cases "v = 0")
    case False
    then show ?thesis using Cons(2,3) b skipped_refl [of st] by (auto simp: execCppIf.simps none_taken_def)
  next
    case v: True
    have e: "lx_code e = CPP_ELIF" "group_text h" "continues_if e" using Cons(5) b by (auto simp: branches_ok_def continues_if_def)
    from delete_until_alternative [OF Cons(2) _ Cons(4) e(3), of "cond @ h @ branches_text bs (tail_text els f rest)"]
      Cons(3) b e(1) obtain st1 where
      s1: "cppDeleteUntilEndElse False st = Some (UNTIL_ELIF, st1)"
        "skipped st (cond @ h @ branches_text bs (tail_text els f rest)) (open_ifs st) st1" by auto
    let ?st1 = "st1\<lparr>cp_isProcessingPreprocessorIf := True\<rparr>"
    have s1': "skipped st (cond @ h @ branches_text bs (tail_text els f rest)) (open_ifs st) ?st1"
      using s1(2) by (simp add: skipped_def)
    from s1' have "top_level ?st1" "unread_lexems ?st1 = cond @ h @ branches_text bs (tail_text els f rest)"
      by (simp_all only: skipped_def)
    moreover have "reads_condition evaluate cond w" using Cons(6) b by auto
    ultimately obtain st2 where s2: "evaluate ?st1 = Some (w, st2)"
      "skipped ?st1 (h @ branches_text bs (tail_text els f rest)) (open_ifs ?st1) st2" unfolding reads_condition_def by blast
    let ?st2 = "st2\<lparr>cp_isProcessingPreprocessorIf := False\<rparr>"
    have s2': "skipped st (h @ branches_text bs (tail_text els f rest)) (open_ifs st) ?st2"
      using s1' s2(2) by (simp add: skipped_def)
    then have t: "top_level ?st2" "unread_lexems ?st2 = h @ branches_text bs (tail_text els f rest)" "open_ifs ?st2 = open_ifs st"
      by (simp_all only: skipped_def)
    have ok: "branches_ok bs els f" "\<forall>(e, cond, w, h)\<in>set bs. reads_condition evaluate cond w"
      using Cons(5,6) by (auto simp: branches_ok_def)
    from Cons(1) [OF t(1,2) e(2) ok, of w, unfolded t(3)] obtain st' where
      s3: "execCppIf evaluate (w = 0) ?st2 = Some st'"
        "skipped ?st2 (left_over w h bs els f rest) (if none_taken w bs els then tl (open_ifs st) else open_ifs st) st'" by blast
    have "execCppIf evaluate True st = Some st'" using s1(1) s2(1) s3(1) by (simp add: execCppIf.simps [of evaluate True st])
    moreover have "none_taken v (b # bs) els = none_taken w bs els" using v b by (auto simp: none_taken_def)
    ultimately show ?thesis using v b skipped_trans [OF s2' s3(2)] by auto
  qed
qed


lemma kept_tables:
  assumes "kept a = kept b"
  shows "cp_symbols a = cp_symbols b" "cp_bodies a = cp_bodies b"
proof -
  have k: "cp_symbols (kept st) = cp_symbols st" "cp_bodies (kept st) = cp_bodies st" for st by (simp_all add: kept_def)
  show "cp_symbols a = cp_symbols b" "cp_bodies a = cp_bodies b" using k [of a] k [of b] assms by simp_all
qed

definition ifdef_value :: "cppConfig \<Rightarrow> bool \<Rightarrow> string \<Rightarrow> cpp \<Rightarrow> int" where
  "ifdef_value c isIfdef name st = (if macro_defined st (findMacroSymbol c name st) = isIfdef then 1 else 0)"

text \<open>C19: \<open>#ifdef\<close> takes the first branch exactly when the macro has a body, which it has not after an \<open>#undef\<close>,
  and \<open>#ifndef\<close> exactly when it has none; the other branches are chosen as those of an \<open>#if\<close>.\<close>

theorem ifdef_decides_by_macro_table:
  assumes "top_level st" "unread_lexems st = x # g @ branches_text bs (tail_text els f rest)" "group_text g"
    and "lx_code x = IDENTIFIER" "branches_ok bs els f" "\<forall>(e, cond, w, h)\<in>set bs. reads_condition evaluate cond w"
    and "v = ifdef_value c isIfdef (lx_text x) st"
  shows "\<exists>st'. processIfdefDirective c evaluate isIfdef st = Some st'
    \<and> skipped st (left_over v g bs els f rest) (if none_taken v bs els then tl (open_ifs st) else open_ifs st) st'"
proof -
  from getLexem_top [OF assms(1,2)] obtain st1 where
    g: "getLexem st = Some (Inr x, st1)" "top_level st1" "unread_lexems st1 = g @ branches_text bs (tail_text els f rest)"
      "kept st1 = kept st" "open_ifs st1 = open_ifs st" by blast
  let ?st1 = "getExtraLexemInformationFor x True st1" and ?s = "findMacroSymbol c (lx_text x) st"
  have "kept ?st1 = kept st" using g(4) by simp
  note k = kept_tables [OF this]
  have m: "findMacroSymbol c (lx_text x) ?st1 = ?s" "macro_defined ?st1 ?s = macro_defined st ?s"
    unfolding findMacroSymbol_def macro_defined_def mbody_def k by (rule refl)+
  define st2 where "st2 = (if macro_defined st ?s then report (HandleFoundSymbolReference (the ?s) (lx_position x) UsageUsed (cc_noFile c)) ?st1 else ?st1)"
  have s: "skipped st (g @ branches_text bs (tail_text els f rest)) (open_ifs st) st2"
    using g by (simp add: skipped_def st2_def)
  then have t: "top_level st2" "unread_lexems st2 = g @ branches_text bs (tail_text els f rest)" "open_ifs st2 = open_ifs st"
    by (simp_all only: skipped_def)
  have "processIfdefDirective c evaluate isIfdef st = execCppIf evaluate (v = 0) st2"
    using g(1) m assms(4) by (auto simp: processIfdefDirective_def checkCompletionsForId_def isIdentifierLexem_def st2_def
        assms(7) ifdef_value_def lexem_codes)
  with execCppIf_branches [OF t(1,2) assms(3,5,6), of v] t(3) skipped_trans [OF s] show ?thesis by auto
qed

text \<open>C17: At the end of the group that is compiled, an \<open>#elif\<close> or an \<open>#else\<close> of the same conditional skips all of its
  other groups, wherever further \<open>#elif\<close>s and whole conditionals are in them, up to the text behind its
  \<open>#endif\<close>, and the conditional is closed.\<close>

theorem end_of_branch_skips_the_rest:
  assumes "top_level st" "unread_lexems st = gs @ f # rest" "groups_text gs" "lx_code f = CPP_ENDIF" "open_ifs st = p # ifs"
  shows "\<exists>st'. process_elif_or_else name position st = Some st' \<and> skipped st rest ifs st'"
proof -
  let ?st1 = "genCppIfElseReference 0 position UsageUsed st"
  have "top_level ?st1" "unread_lexems ?st1 = gs @ f # rest" "open_ifs ?st1 = p # ifs"
    using assms by (simp_all add: open_ifs_reference)
  with delete_until_endif [of ?st1 gs f rest True] assms(3,4) obtain st1 where
    "cppDeleteUntilEndElse True ?st1 = Some (UNTIL_ENDIF, st1)" "skipped ?st1 rest ifs st1" by auto
  moreover have "anyOpenIf st" using assms(5) by (simp add: anyOpenIf_def open_ifs_def)
  ultimately show ?thesis by (auto simp: process_elif_or_else_def skipped_def)
qed

section \<open>Witnesses\<close>

text \<open>Conditions of one number at the end of a line.\<close>

definition example_evaluate :: "cpp \<Rightarrow> (int \<times> cpp) option" where
  "example_evaluate st = do {
     (r, st1) \<leftarrow> getLexem st;
     (case r of Inl _ \<Rightarrow> None | Inr x \<Rightarrow> do {
        (nl, st2) \<leftarrow> getLexem st1;
        Some (lx_value x, st2)
      })
   }"

lemma example_evaluate_reads: "reads_condition example_evaluate [x, nl] (lx_value x)"
  unfolding reads_condition_def
proof (intro allI impI)
  fix st rest
  assume a: "top_level st" "unread_lexems st = [x, nl] @ rest"
  then obtain st1 where s1: "getLexem st = Some (Inr x, st1)" "top_level st1" "unread_lexems st1 = nl # rest"
    "kept st1 = kept st" "open_ifs st1 = open_ifs st" using getLexem_top [of st x "nl # rest"] by auto
  from getLexem_top [OF s1(2,3)] obtain st2 where "getLexem st1 = Some (Inr nl, st2)" "top_level st2" "unread_lexems st2 = rest"
    "kept st2 = kept st1" "open_ifs st2 = open_ifs st1" by auto
  then show "\<exists>st1. example_evaluate st = Some (lx_value x, st1) \<and> skipped st rest (open_ifs st) st1"
    using s1 by (simp add: example_evaluate_def skipped_def)
qed

lemma example_plain: "code \<notin> {CPP_IF, CPP_IFDEF, CPP_IFNDEF, CPP_ELIF, CPP_ELSE, CPP_ENDIF} \<Longrightarrow> group_text [example_lexem code t]"
  by (intro group_plain group_empty) (auto simp: plain_def opens_def continues_if_def example_lexem_def)


theorem ifdef_decides_by_macro_table_witness:
  "let x = example_lexem IDENTIFIER ''A''; a = example_lexem IDENTIFIER ''a''; b = example_lexem IDENTIFIER ''b'';
       e = example_lexem CPP_ELSE []; f = example_lexem CPP_ENDIF []
   in \<exists>st'. processIfdefDirective example_config example_evaluate True (example_cpp [] [] [x, a, e, b, f]) = Some st'
        \<and> unread_lexems st' = [b, f]"
proof -
  let ?x = "example_lexem IDENTIFIER ''A''" and ?a = "example_lexem IDENTIFIER ''a''" and ?b = "example_lexem IDENTIFIER ''b''"
  let ?e = "example_lexem CPP_ELSE []" and ?f = "example_lexem CPP_ENDIF []"
  let ?st = "example_cpp [] [] [?x, ?a, ?e, ?b, ?f]"
  have top: "top_level ?st" by (simp add: top_level_def example_cpp_def makeLexemStream_def)
  have u: "unread_lexems ?st = ?x # [?a] @ branches_text [] (tail_text (Some (?e, [?b])) ?f [])"
    by (simp add: example_unread tail_text_def)
  have g: "group_text [?a]" "group_text [?b]" by (rule example_plain, simp add: lexem_codes)+
  have ok: "branches_ok [] (Some (?e, [?b])) ?f" using g by (auto simp: branches_ok_def example_lexem_def)
  have x: "lx_code ?x = IDENTIFIER" by (simp add: example_lexem_def)
  have v: "0 = ifdef_value example_config True (lx_text ?x) ?st"
    by (simp add: ifdef_value_def macro_defined_def findMacroSymbol_def hashListIsMember_def hashListIndex_def example_cpp_def Let_def)
  have none: "\<forall>(e, cond, w, h)\<in>set []. reads_condition example_evaluate cond w" by simp
  from ifdef_decides_by_macro_table [OF top u g(1) x ok none v] show ?thesis by (auto simp: skipped_def Let_def)
qed

theorem end_of_branch_skips_the_rest_witness:
  "let b = example_lexem IDENTIFIER ''b''; f = example_lexem CPP_ENDIF []; c = example_lexem IDENTIFIER ''c''
   in \<exists>st'. process_elif_or_else ''#else'' (Position 1 3 0) (example_cpp [] [] [b, f, c]) = Some st'
        \<and> unread_lexems st' = [c] \<and> open_ifs st' = []"
proof -
  let ?b = "example_lexem IDENTIFIER ''b''" and ?f = "example_lexem CPP_ENDIF []" and ?c = "example_lexem IDENTIFIER ''c''"
  let ?st = "example_cpp [] [] [?b, ?f, ?c]"
  have top: "top_level ?st" by (simp add: top_level_def example_cpp_def makeLexemStream_def)
  have u: "unread_lexems ?st = [?b] @ ?f # [?c]" by (simp add: example_unread)
  have g: "groups_text [?b]" by (rule groups_one, rule example_plain, simp add: lexem_codes)
  have f: "lx_code ?f = CPP_ENDIF" by (simp add: example_lexem_def)
  have o: "open_ifs ?st = Position 1 1 0 # []" by (simp add: open_ifs_def example_cpp_def)
  from end_of_branch_skips_the_rest [OF top u g f o] show ?thesis by (auto simp: skipped_def Let_def)
qed

end
