(* ===== verification/MacroExpansion.thy ===== *)
theory MacroExpansion
  imports Conditionals
begin

text \<open>
  Models the expansion of macro calls in \<^verbatim>\<open>yylex.c\<close>: collecting the arguments of a call, pasting and making
  strings, expanding arguments, and the stream a call is replaced by. Buffers grow as they are needed, so their
  sizes are left out. A call and the expansion of its arguments call each other; \<open>argument_loop\<close> counts the
  lexems on the way, and without enough of them the result is \<open>None\<close>.
\<close>

section \<open>Reading the arguments of a call\<close>

definition MACRO_INPUT_STACK_SIZE :: nat where "MACRO_INPUT_STACK_SIZE = 500"
definition MACRO_BODY_BUFFER_SIZE :: nat where "MACRO_BODY_BUFFER_SIZE = 2000"

definition is_line :: "lexem \<Rightarrow> bool" where
  "is_line x \<longleftrightarrow> lx_code x = LINE_TOKEN \<or> lx_code x = 10"

function getLexSkippingLines ::
  "lexem list \<Rightarrow> cpp \<Rightarrow> ((cppException + lexem) \<times> lexem list \<times> cpp) option" where
  "getLexSkippingLines saved st =
     (case getLexemAndSavePointerToPrevious saved st of
        None \<Rightarrow> None
      | Some (Inl e, p, st1) \<Rightarrow> Some (Inl e, p, st1)
      | Some (Inr x, p, st1) \<Rightarrow>
          (if is_line x then getLexSkippingLines p (getExtraLexemInformationFor x (\<not> insideMacro st1) st1)
           else Some (Inr x, p, st1)))"
  by pat_completeness auto
termination
  by (relation "measure (\<lambda>(p, st). length (unread_lexems st))") (auto dest: getLexemAndSave_unread)

declare getLexSkippingLines.simps [simp del]

definition handleMacroUsageParameterPositions ::
  "cppConfig \<Rightarrow> int \<Rightarrow> position \<Rightarrow> position \<Rightarrow> position \<Rightarrow> bool \<Rightarrow> cpp \<Rightarrow> cpp" where
  "handleMacroUsageParameterPositions c argumentIndex macroPosition beginPosition endPosition final st =
     (if cc_trackParameters c \<and> macroPosition = cc_positionOfSelectedReference c then
        (if final then
           (if argumentIndex = 0
            then st\<lparr>cp_parameterBeginPosition := beginPosition, cp_parameterEndPosition := beginPosition\<rparr>
            else if argumentIndex < cc_targetParameterIndex c
            then st\<lparr>cp_parameterBeginPosition := endPosition, cp_parameterEndPosition := endPosition\<rparr>
            else st)
         else if argumentIndex = cc_targetParameterIndex c
         then st\<lparr>cp_parameterBeginPosition := beginPosition, cp_parameterEndPosition := endPosition\<rparr>
         else st)
      else st)"

lemma usage_parameter_keeps [simp]:
  "unread_lexems (handleMacroUsageParameterPositions c i m b e f st) = unread_lexems st"
  "cp_input (handleMacroUsageParameterPositions c i m b e f st) = cp_input st"
  "cp_macroStack (handleMacroUsageParameterPositions c i m b e f st) = cp_macroStack st"
  by (auto simp: handleMacroUsageParameterPositions_def unread_lexems_def)

lemma getLexSkippingLines_unread:
  "getLexSkippingLines saved st = Some (Inr x, p, st') \<Longrightarrow> length (unread_lexems st') < length (unread_lexems st)"
proof (induction saved st rule: getLexSkippingLines.induct)
  case (1 saved st)
  show ?case
  proof (cases "getLexemAndSavePointerToPrevious saved st")
    case None
    then show ?thesis using 1(2) by (simp add: getLexSkippingLines.simps [of saved st])
  next
    case (Some a)
    obtain r p1 st1 where a: "a = (r, p1, st1)" by (cases a)
    show ?thesis
    proof (cases r)
      case (Inl e)
      then show ?thesis using 1(2) Some a by (simp add: getLexSkippingLines.simps [of saved st])
    next
      case (Inr y)
      note u = getLexemAndSave_unread [OF Some [unfolded a Inr]]
      show ?thesis
      proof (cases "is_line y")
        case False
        then show ?thesis using 1(2) Some a Inr u by (simp add: getLexSkippingLines.simps [of saved st])
      next
        case True
        have "getLexSkippingLines p1 (getExtraLexemInformationFor y (\<not> insideMacro st1) st1) = Some (Inr x, p, st')"
          using 1(2) Some a Inr True by (simp add: getLexSkippingLines.simps [of saved st])
        from 1(1) [OF Some a [symmetric] Inr refl True this] u show ?thesis by simp
      qed
    qed
  qed
qed

text \<open>The lexems of one argument, from the lexem that has been read; 40, 41 and 44 are parentheses and comma.\<close>

function argument_lexems ::
  "cppConfig \<Rightarrow> position \<Rightarrow> bool \<Rightarrow> int \<Rightarrow> int \<Rightarrow> int \<Rightarrow> lexem list \<Rightarrow> lexem list \<Rightarrow> lexem \<Rightarrow> position \<Rightarrow> position \<Rightarrow> cpp
    \<Rightarrow> ((cppException + lexem) \<times> lexem list \<times> position \<times> position \<times> cpp) option" where
  "argument_lexems c macroPosition isLastArgument index depth offset out saved x beginPosition endPosition st =
     (if lx_code x = 41 \<and> depth = 0 \<or> lx_code x = 44 \<and> depth = 0 \<and> \<not> isLastArgument
      then Some (Inr x, out, beginPosition, endPosition, st)
      else (let depth1 = (if lx_code x = 40 then depth + 1 else if lx_code x = 41 then depth - 1 else depth) in
        case getLexSkippingLines saved st of
          None \<Rightarrow> None
        | Some (Inl e, p, st1) \<Rightarrow>
            Some (Inl e, out @ [x], beginPosition, endPosition,
              report (ParsingMessageAt macroPosition ERR_ST ''unterminated macro call'') st1)
        | Some (Inr y, p, st1) \<Rightarrow>
            (let st2 = getExtraLexemInformationFor y (\<not> insideMacro st1) st1; endPosition1 = lx_position y in
             if (lx_code y = 44 \<or> lx_code y = 41) \<and> depth1 = 0
             then argument_lexems c macroPosition isLastArgument index depth1 (offset + 1) (out @ [x]) p y endPosition1 endPosition1
                    (handleMacroUsageParameterPositions c (index + (offset + 1)) macroPosition beginPosition endPosition1 False st2)
             else argument_lexems c macroPosition isLastArgument index depth1 offset (out @ [x]) p y beginPosition endPosition1 st2)))"
  by pat_completeness auto
termination
  by (relation "measure (\<lambda>(c, m, l, i, d, f, out, p, x, b, e, st). length (unread_lexems st))")
    (auto dest: getLexSkippingLines_unread)

declare argument_lexems.simps [simp del]

definition getActualMacroArgument ::
  "cppConfig \<Rightarrow> lexem list \<Rightarrow> lexem \<Rightarrow> position \<Rightarrow> position \<Rightarrow> position \<Rightarrow> int \<Rightarrow> int \<Rightarrow> cpp
    \<Rightarrow> ((cppException + lexem) \<times> lexemStream \<times> position \<times> position \<times> cpp) option" where
  "getActualMacroArgument c saved x macroPosition beginPosition endPosition argumentCount actualArgumentIndex st =
     map_option (\<lambda>(r, out, b, e, st1). (r, makeLexemStream out out (ls_macroName (cp_input st1)) NORMAL_STREAM, b, e, st1))
       (argument_lexems c macroPosition (actualArgumentIndex + 1 = argumentCount) actualArgumentIndex 0 0 [] saved x
          beginPosition endPosition st)"

partial_function (option) arguments_loop ::
  "cppConfig \<Rightarrow> position \<Rightarrow> int \<Rightarrow> lexemStream list \<Rightarrow> lexem list \<Rightarrow> lexem \<Rightarrow> position \<Rightarrow> position \<Rightarrow> cpp
    \<Rightarrow> (lexemStream list \<times> cpp) option" where
  "arguments_loop c macroPosition argumentCount args saved x beginPosition endPosition st = do {
     (r, arg, b, e, st1) \<leftarrow> getActualMacroArgument c saved x macroPosition beginPosition endPosition argumentCount
                               (int (length args)) st;
     let args1 = args @ [arg];
     (case r of
        Inl ex \<Rightarrow> Some (args1, st1)
      | Inr y \<Rightarrow>
          (if lx_code y \<noteq> 44 \<or> int (length args1) \<ge> argumentCount then Some (args1, st1)
           else do {
             (r2, saved2, st2) \<leftarrow> getLexSkippingLines saved st1;
             (case r2 of
                Inl END_OF_MACRO_ARGUMENT_EXCEPTION \<Rightarrow> None
              | Inl END_OF_FILE_EXCEPTION \<Rightarrow>
                  Some (args1, report (ParsingMessageAt macroPosition ERR_ST ''unterminated macro call'') st2)
              | Inr z \<Rightarrow> arguments_loop c macroPosition argumentCount args1 saved2 z b e
                  (getExtraLexemInformationFor z (\<not> insideMacro st2) st2))
           }))
   }"

declare arguments_loop.simps [code]

text \<open>Missing arguments are empty.\<close>

definition fill_missing :: "int \<Rightarrow> lexemStream list \<Rightarrow> lexemStream list" where
  "fill_missing argCount args = args @ replicate (nat argCount - length args) (makeLexemStream [] [] None NORMAL_STREAM)"

definition getActualMacroArguments ::
  "cppConfig \<Rightarrow> macroBody \<Rightarrow> position \<Rightarrow> position \<Rightarrow> cpp \<Rightarrow> (lexemStream list \<times> cpp) option" where
  "getActualMacroArguments c macroBody macroPosition lparPosition st = do {
     (r, saved, st1) \<leftarrow> getLexSkippingLines [] st;
     (case r of
        Inl END_OF_MACRO_ARGUMENT_EXCEPTION \<Rightarrow> None
      | Inl END_OF_FILE_EXCEPTION \<Rightarrow>
          Some (fill_missing (mb_argCount macroBody) [], report (ParsingMessageAt macroPosition ERR_ST ''unterminated macro call'') st1)
      | Inr x \<Rightarrow>
          (let st2 = getExtraLexemInformationFor x (\<not> insideMacro st1) st1 in
           if lx_code x = 41
           then Some (fill_missing (mb_argCount macroBody) [],
                  handleMacroUsageParameterPositions c 0 macroPosition lparPosition (lx_position x) True st2)
           else map_option (\<lambda>(args, st3). (fill_missing (mb_argCount macroBody) args, st3))
                  (arguments_loop c macroPosition (mb_argCount macroBody) [] saved x lparPosition (lx_position x) st2)))
   }"

section \<open>Pasting\<close>

datatype lexemTypeFlag = LEX_ID | LEX_CONST | LEX_OTHER

definition classify_lexem :: "lexemCode \<Rightarrow> lexemTypeFlag" where
  "classify_lexem code =
     (if code = IDENTIFIER \<or> code = IDENT_NO_CPP_EXPAND then LEX_ID
      else if code = CONSTANT \<or> code = LONG_CONSTANT then LEX_CONST
      else LEX_OTHER)"

text \<open>The name is split where the second part \<open>cs\<close> begins.\<close>

definition cxAddCollateReference :: "string \<Rightarrow> nat \<Rightarrow> position \<Rightarrow> cpp \<Rightarrow> cpp option" where
  "cxAddCollateReference name cs position st =
     (if \<not> cs < TMP_STRING_SIZE then None
      else Some (report (AddTrivialCxReference (take cs name @ ''##'' @ drop cs name) TypeCppCollate StorageDefault
                           position UsageDefined) st))"

text \<open>
  The left lexem is at place \<open>i\<close> of what has been written; writing goes on behind it, so that what had been written
  behind it is lost. The rest of the right operand comes back.
\<close>

definition collate_id_id :: "lexem list \<Rightarrow> nat \<Rightarrow> lexem \<Rightarrow> lexem list \<Rightarrow> cpp \<Rightarrow> (lexem list \<times> lexem list \<times> cpp) option" where
  "collate_id_id out i lhs rhs st =
     (let r = hd rhs; s = lx_text lhs @ lx_text r; position = lx_position r in
      map_option (\<lambda>st1. (take i out @ [lhs\<lparr>lx_code := IDENTIFIER, lx_text := s, lx_position := position\<rparr>], tl rhs, st1))
        (cxAddCollateReference s (length (lx_text lhs)) position st))"

definition collate_id_const :: "lexem list \<Rightarrow> nat \<Rightarrow> lexem \<Rightarrow> lexem list \<Rightarrow> cpp \<Rightarrow> (lexem list \<times> lexem list \<times> cpp) option" where
  "collate_id_const out i lhs rhs st =
     (let r = hd rhs; s = lx_text lhs @ lx_text r @ (if lx_code r = LONG_CONSTANT then ''L'' else []); idPos = lx_position lhs in
      map_option (\<lambda>st1. (take i out @ [lhs\<lparr>lx_text := s\<rparr>], tl rhs, st1))
        (cxAddCollateReference s (length (lx_text lhs)) idPos st))"

definition collate_const_id :: "lexem list \<Rightarrow> nat \<Rightarrow> lexem \<Rightarrow> lexem list \<Rightarrow> cpp \<Rightarrow> (lexem list \<times> lexem list \<times> cpp) option" where
  "collate_const_id out i lhs rhs st =
     (let r = hd rhs; s = lx_text lhs @ lx_text r; position = lx_position lhs in
      map_option (\<lambda>st1. (take i out @ [lhs\<lparr>lx_code := IDENTIFIER, lx_text := s\<rparr>], tl rhs, st1))
        (cxAddCollateReference s (length (lx_text lhs)) position st))"

definition collate_const_const :: "lexem list \<Rightarrow> nat \<Rightarrow> lexem \<Rightarrow> lexem list \<Rightarrow> cpp \<Rightarrow> (lexem list \<times> lexem list \<times> cpp) option" where
  "collate_const_const out i lhs rhs st =
     (let r = hd rhs in
      if isConstantLexem (lx_code r) then
        (let s = lx_text lhs @ lx_text r; leftPosition = lx_position lhs in
         map_option (\<lambda>st1. (take i out @ [lhs\<lparr>lx_code := IDENTIFIER, lx_text := s\<rparr>], tl rhs, st1))
           (cxAddCollateReference s (length (lx_text lhs)) leftPosition st))
      else Some (out, rhs, st))"

definition argument_of :: "lexemStream list \<Rightarrow> lexem \<Rightarrow> lexem list" where
  "argument_of args x = ls_begin (args ! nat (lx_value x))"

text \<open>
  What has been written and the place and value of the lexem written last: that value stays even when writing
  goes back to the place. Codes of lexems in a buffer are never negative, so that none is the marker of an exception.
\<close>

definition collate ::
  "lexemStream list \<Rightarrow> lexem list \<Rightarrow> nat \<Rightarrow> lexem \<Rightarrow> lexem list \<Rightarrow> cpp
    \<Rightarrow> (lexem list \<times> (nat \<times> lexem) option \<times> lexem list \<times> cpp) option" where
  "collate args out0 i0 left0 body st =
     (let (out1, left1) =
        (if lx_code left0 = CPP_MACRO_ARGUMENT then
           (let actual = argument_of args left0
            in (take i0 out0 @ actual, if actual = [] then None else Some (i0 + length actual - 1, List.last actual)))
         else (out0, Some (i0, left0)))
      in case left1 of
        None \<Rightarrow> Some (out1, None, body, st)
      | Some (i, lhs) \<Rightarrow>
          (let r = hd body; body1 = tl body; rhs = (if lx_code r = CPP_MACRO_ARGUMENT then argument_of args r else [r]) in
           if rhs = [] then Some (if lx_code lhs = 44 then take i out1 else out1, Some (i, lhs), body1, st)
           else do {
             (out2, rest, st1) \<leftarrow>
               (case (classify_lexem (lx_code lhs), classify_lexem (lx_code (hd rhs))) of
                  (LEX_ID, LEX_ID) \<Rightarrow> collate_id_id out1 i lhs rhs st
                | (LEX_ID, LEX_CONST) \<Rightarrow> collate_id_const out1 i lhs rhs st
                | (LEX_CONST, LEX_ID) \<Rightarrow> collate_const_id out1 i lhs rhs st
                | (LEX_CONST, LEX_CONST) \<Rightarrow> collate_const_const out1 i lhs rhs st
                | _ \<Rightarrow> Some (out1, rhs, st));
             let out3 = out2 @ rest;
             Some (out3, Some (i, if i < length out3 then out3 ! i else lhs), body1, st1)
           }))"

lemma collate_shorter: "collate args out i lhs body st = Some (out1, l1, body1, st1) \<Longrightarrow> length body1 \<le> length body"
  by (auto simp: collate_def Let_def bind_eq_Some_conv split: if_splits option.splits prod.splits)

function collate_body ::
  "lexemStream list \<Rightarrow> lexem list \<Rightarrow> (nat \<times> lexem) option \<Rightarrow> lexem list \<Rightarrow> cpp \<Rightarrow> (lexem list \<times> cpp) option" where
  "collate_body args out lastWritten [] st = Some (out, st)"
| "collate_body args out lastWritten (x # body) st =
     (case (if lx_code x = CPP_COLLATION \<and> body \<noteq> [] then lastWritten else None) of
        Some (i, lhs) \<Rightarrow>
          (case collate args out i lhs body st of
             None \<Rightarrow> None
           | Some (out1, lastWritten1, body1, st1) \<Rightarrow> collate_body args out1 lastWritten1 body1 st1)
      | None \<Rightarrow> collate_body args (out @ [x]) (Some (length out, x)) body st)"
  by pat_completeness auto
termination
  by (relation "measure (\<lambda>(args, out, l, body, st). length body)") (auto dest: collate_shorter)

text \<open>
  Two names are pasted into one, with the position of the second. A second pasting works on the pasted name again:
  where the parameter between the two stands for several lexems, all but the first are lost.
\<close>

lemma names_pasted:
  assumes "lx_code x = IDENTIFIER" "lx_code y = IDENTIFIER" "lx_code k = CPP_COLLATION" "length (lx_text x) < TMP_STRING_SIZE"
  shows "\<exists>st'. collate_body args [] None [x, k, y] st
    = Some ([x\<lparr>lx_code := IDENTIFIER, lx_text := lx_text x @ lx_text y, lx_position := lx_position y\<rparr>], st')"
  using assms by (simp add: collate_def collate_id_id_def classify_lexem_def cxAddCollateReference_def Let_def lexem_codes)

lemma second_pasting_loses_lexems:
  assumes "lx_code x = IDENTIFIER" "lx_code y = IDENTIFIER" "lx_code k = CPP_COLLATION" "lx_code c = IDENTIFIER" "lx_code d = IDENTIFIER"
    and "lx_code p = CPP_MACRO_ARGUMENT" "lx_value p = 0"
    and "length (lx_text x) + length (lx_text c) < TMP_STRING_SIZE"
  shows "\<exists>z st'. collate_body [makeLexemStream [c, d] [] None NORMAL_STREAM] [] None [x, k, p, k, y] st = Some ([z], st')
    \<and> lx_text z = lx_text x @ lx_text c @ lx_text y"
  using assms by (simp add: collate_def collate_id_id_def classify_lexem_def cxAddCollateReference_def argument_of_def
      makeLexemStream_def Let_def lexem_codes)

section \<open>Replacing parameters\<close>

definition lexem_string :: "lexem \<Rightarrow> string" where
  "lexem_string x =
     (if isIdentifierLexem (lx_code x) then lx_text x
      else if lx_code x = STRING_LITERAL then [CHR 34] @ lx_text x @ [CHR 34]
      else if lx_code x = CONSTANT then format_d (lx_value x)
      else if lx_code x < 256 then [char_of (nat (lx_code x))]
      else [])"

definition macroArgumentsToString :: "lexem list \<Rightarrow> string" where
  "macroArgumentsToString lexems = concat (map lexem_string lexems)"

text \<open>35 is the number sign. That a string outgrows its buffer is reported.\<close>

function replace_parameters :: "lexemStream list \<Rightarrow> lexem list \<Rightarrow> cpp \<Rightarrow> lexem list \<times> cpp" where
  "replace_parameters args [] st = ([], st)"
| "replace_parameters args (x # rest) st =
     (if lx_code x = CPP_MACRO_ARGUMENT then
        (let (out, st1) = replace_parameters args rest st in (argument_of args x @ out, st1))
      else (case (if lx_code x = 35 then rest else []) of
          y # rest1 \<Rightarrow>
            (if lx_code y = CPP_MACRO_ARGUMENT then
               (let s = macroArgumentsToString (argument_of args y);
                    st1 = (if length s + 1 \<ge> MACRO_BODY_BUFFER_SIZE - 15 then report (StringTooLong (lx_position x)) st else st);
                    (out, st2) = replace_parameters args rest1 st1
                in (\<lparr>lx_code = STRING_LITERAL, lx_text = s, lx_value = 0, lx_position = lx_position x, lx_length = 0\<rparr> # out, st2))
             else (let (out, st1) = replace_parameters args rest st in (x # out, st1)))
        | [] \<Rightarrow> (let (out, st1) = replace_parameters args rest st in (x # out, st1))))"
  by pat_completeness auto
termination by (relation "measure (\<lambda>(args, lexems, st). length lexems)") (auto split: if_splits)

declare replace_parameters.simps(2) [simp del]

definition replaceMacroArguments :: "lexemStream list \<Rightarrow> lexem list \<Rightarrow> cpp \<Rightarrow> lexemStream \<times> cpp" where
  "replaceMacroArguments args lexems st =
     (let (out, st1) = replace_parameters args lexems st in (makeLexemStream out out None NORMAL_STREAM, st1))"

section \<open>Calls\<close>

definition cyclicCall :: "macroBody \<Rightarrow> cpp \<Rightarrow> bool" where
  "cyclicCall macroBody st \<longleftrightarrow>
     ls_macroName (cp_input st) = Some (mb_name macroBody)
     \<or> (\<exists>lexInput\<in>set (cp_macroStack st). ls_macroName lexInput = Some (mb_name macroBody))"

definition prependMacroInput :: "lexemStream \<Rightarrow> cpp \<Rightarrow> cpp option" where
  "prependMacroInput argumentBuffer st =
     (if \<not> length (cp_macroStack st) < MACRO_INPUT_STACK_SIZE - 1 then None
      else Some (st\<lparr>cp_macroStack := cp_input st # cp_macroStack st,
                    cp_input := argumentBuffer\<lparr>ls_read := ls_begin argumentBuffer, ls_streamType := MACRO_STREAM\<rparr>\<rparr>))"

text \<open>The loop over the lexems of the argument is an argument of the functions it calls again.\<close>

type_synonym argument_expander = "lexem list \<Rightarrow> cpp \<Rightarrow> (lexem list \<times> cpp) option"

definition expandMacroArgument :: "argument_expander \<Rightarrow> lexemStream \<Rightarrow> cpp \<Rightarrow> (lexemStream \<times> cpp) option" where
  "expandMacroArgument loop argumentInput st = do {
     st1 \<leftarrow> prependMacroInput argumentInput st;
     (out, st2) \<leftarrow> loop [] (st1\<lparr>cp_input := (cp_input st1)\<lparr>ls_streamType := MACRO_ARGUMENT_STREAM\<rparr>\<rparr>);
     Some (makeLexemStream out out None NORMAL_STREAM,
           st2\<lparr>cp_input := hd (cp_macroStack st2), cp_macroStack := tl (cp_macroStack st2)\<rparr>)
   }"

fun expand_arguments :: "argument_expander \<Rightarrow> lexemStream list \<Rightarrow> cpp \<Rightarrow> (lexemStream list \<times> cpp) option" where
  "expand_arguments loop [] st = Some ([], st)"
| "expand_arguments loop (arg # args) st = do {
     (arg1, st1) \<leftarrow> expandMacroArgument loop arg st;
     (args1, st2) \<leftarrow> expand_arguments loop args st1;
     Some (arg1 # args1, st2)
   }"

definition createMacroBodyAsNewStream ::
  "argument_expander \<Rightarrow> macroBody \<Rightarrow> lexemStream list \<Rightarrow> cpp \<Rightarrow> (lexemStream \<times> cpp) option" where
  "createMacroBodyAsNewStream loop macroBody args st = do {
     (body, st1) \<leftarrow> collate_body args [] None (mb_body macroBody) st;
     (args1, st2) \<leftarrow> expand_arguments loop (take (nat (mb_argCount macroBody)) args) st1;
     let (result, st3) = replaceMacroArguments args1 body st2;
     Some (makeLexemStream (ls_begin result) (ls_begin result) (Some (mb_name macroBody)) MACRO_STREAM, st3)
   }"

definition start_expansion ::
  "argument_expander \<Rightarrow> cppConfig \<Rightarrow> symbol \<Rightarrow> position \<Rightarrow> macroBody \<Rightarrow> lexemStream list \<Rightarrow> cpp \<Rightarrow> (bool \<times> cpp) option" where
  "start_expansion loop c macroSymbol macroPosition macroBody args st = do {
     (stream, st1) \<leftarrow> createMacroBodyAsNewStream loop macroBody args
       (report (HandleFoundSymbolReference macroSymbol macroPosition UsageUsed (cc_noFile c)) st);
     st2 \<leftarrow> prependMacroInput (stream\<lparr>ls_macroCallPosition := macroPosition\<rparr>) st1;
     Some (True, st2)
   }"

definition expandMacroCall ::
  "argument_expander \<Rightarrow> cppConfig \<Rightarrow> symbol \<Rightarrow> position \<Rightarrow> cpp \<Rightarrow> (bool \<times> cpp) option" where
  "expandMacroCall loop c macroSymbol macroPosition st =
     (case mbody st macroSymbol of
        None \<Rightarrow> Some (False, st)
      | Some macroBody \<Rightarrow>
          (if cyclicCall macroBody st then Some (False, st)
           else if mb_argCount macroBody \<ge> 0 then do {
             (r, previous, st1) \<leftarrow> getLexSkippingLines (ls_read (cp_input st)) st;
             (case r of
                Inl e \<Rightarrow> Some (False, ungetLexem previous st1)
              | Inr x \<Rightarrow>
                  (if lx_code x \<noteq> 40 then Some (False, ungetLexem previous st1)
                   else do {
                     (args, st2) \<leftarrow> getActualMacroArguments c macroBody macroPosition (lx_position x)
                                     (getExtraLexemInformationFor x (\<not> insideMacro st1) st1);
                     start_expansion loop c macroSymbol macroPosition macroBody args st2
                   }))
           }
           else start_expansion loop c macroSymbol macroPosition macroBody [] st))"

text \<open>An identifier that names a macro being expanded is marked, not to be expanded later either.\<close>

primrec argument_loop :: "cppConfig \<Rightarrow> nat \<Rightarrow> argument_expander" where
  "argument_loop c 0 = (\<lambda>out st. None)"
| "argument_loop c (Suc n) = (\<lambda>out st. do {
     (r, previous, st1) \<leftarrow> getLexemAndSavePointerToPrevious [] st;
     (case r of
        Inl END_OF_MACRO_ARGUMENT_EXCEPTION \<Rightarrow> Some (out, st1)
      | Inl END_OF_FILE_EXCEPTION \<Rightarrow> None
      | Inr x \<Rightarrow>
          (let st2 = getExtraLexemInformationFor x (\<not> insideMacro st1) st1 in
           case (if lx_code x = IDENTIFIER then findMacroSymbol c (lx_text x) st2 else None) of
             None \<Rightarrow> argument_loop c n (out @ [x]) st2
           | Some macroSymbol \<Rightarrow> do {
               (expanded, st3) \<leftarrow> expandMacroCall (argument_loop c n) c macroSymbol (lx_position x) st2;
               if expanded then argument_loop c n out st3
               else argument_loop c n
                 (out @ [if (case mbody st3 macroSymbol of None \<Rightarrow> False | Some b \<Rightarrow> cyclicCall b st3)
                         then x\<lparr>lx_code := IDENT_NO_CPP_EXPAND\<rparr> else x]) st3
             }))
   })"

section \<open>What can be read\<close>

text \<open>
  Reading does not go past the end of an argument: the inputs that can be read are those up to the innermost
  argument, or up to the file. Reading changes neither what is below it nor the tables.
\<close>

definition inputs :: "cpp \<Rightarrow> lexemStream list" where
  "inputs st = cp_input st # cp_macroStack st"

definition no_argument :: "lexemStream \<Rightarrow> bool" where
  "no_argument s \<longleftrightarrow> ls_streamType s \<noteq> MACRO_ARGUMENT_STREAM"

definition within_argument :: "cpp \<Rightarrow> bool" where
  "within_argument st \<longleftrightarrow> \<not> (\<forall>s\<in>set (inputs st). no_argument s)"

definition available :: "cpp \<Rightarrow> lexem list" where
  "available st = concat (map ls_read (takeWhile no_argument (inputs st)))
     @ (if within_argument st then ls_read (hd (dropWhile no_argument (inputs st))) else concat (fd_lexems (cp_file st)))"

definition below_argument :: "cpp \<Rightarrow> lexemStream list" where
  "below_argument st = tl (dropWhile no_argument (inputs st))"

definition flows :: "cpp \<Rightarrow> bool" where
  "flows st \<longleftrightarrow> within_argument st \<or> ls_streamType (List.last (inputs st)) = NORMAL_STREAM"

definition tables :: "cpp \<Rightarrow> cpp" where
  "tables st = st\<lparr>cp_input := makeLexemStream [] [] None NORMAL_STREAM, cp_macroStack := [],
     cp_file := (cp_file st)\<lparr>fd_lineNumber := 0, fd_buffer := [], fd_lexems := []\<rparr>, cp_reports := [],
     cp_parameterBeginPosition := Position 0 0 0, cp_parameterEndPosition := Position 0 0 0\<rparr>"

definition reads_to :: "cpp \<Rightarrow> lexem list \<Rightarrow> cpp \<Rightarrow> bool" where
  "reads_to st xs st' \<longleftrightarrow> flows st' \<and> available st' = xs \<and> tables st' = tables st \<and> below_argument st' = below_argument st
     \<and> within_argument st' = within_argument st"

lemma reads_to_trans: "reads_to st xs st1 \<Longrightarrow> reads_to st1 ys st2 \<Longrightarrow> reads_to st ys st2"
  by (simp add: reads_to_def)

lemma inputs_keep [simp]:
  "inputs (getExtraLexemInformationFor x b st) = inputs st" "inputs (report r st) = inputs st"
  "inputs (handleMacroUsageParameterPositions c i m bp ep f st) = inputs st"
  "fd_lexems (cp_file (getExtraLexemInformationFor x b st)) = fd_lexems (cp_file st)"
  "fd_lexems (cp_file (handleMacroUsageParameterPositions c i m bp ep f st)) = fd_lexems (cp_file st)"
  by (simp_all add: inputs_def getExtraLexemInformationFor_def handleMacroUsageParameterPositions_def)

lemma tables_keep [simp]:
  "tables (getExtraLexemInformationFor x b st) = tables st" "tables (report r st) = tables st"
  "tables (handleMacroUsageParameterPositions c i m bp ep f st) = tables st"
  by (simp_all add: tables_def getExtraLexemInformationFor_def report_def handleMacroUsageParameterPositions_def)

lemma reads_to_keep [simp]:
  "reads_to st xs (getExtraLexemInformationFor x b st1) = reads_to st xs st1"
  "reads_to st xs (report r st1) = reads_to st xs st1"
  "reads_to st xs (handleMacroUsageParameterPositions c i m bp ep f st1) = reads_to st xs st1"
  by (simp_all add: reads_to_def flows_def available_def below_argument_def within_argument_def)

lemma pop_reads:
  assumes "flows st" "ls_read (cp_input st) = []" "insideMacro st" "no_argument (cp_input st)"
  shows "reads_to st (available st) (st\<lparr>cp_input := hd (cp_macroStack st), cp_macroStack := tl (cp_macroStack st)\<rparr>)"
  using assms by (cases "cp_macroStack st") (auto simp: reads_to_def flows_def available_def tables_def below_argument_def
      within_argument_def inputs_def insideMacro_def)

lemma refill_available:
  assumes "flows st" "available st = x # xs"
  shows "\<exists>p st1. refillCurrentInputIfExhausted previous st = Some (None, p, st1) \<and> reads_to st (x # xs) st1
    \<and> ls_read (cp_input st1) \<noteq> []"
  using assms
proof (induction previous st rule: refillCurrentInputIfExhausted.induct)
  case (1 previous st)
  note eq = refillCurrentInputIfExhausted.simps [of previous st]
  show ?case
  proof (cases "ls_read (cp_input st) = []")
    case False
    then show ?thesis using eq 1(3,4) by (simp add: reads_to_def)
  next
    case r: True
    show ?thesis
    proof (cases "insideMacro st")
      case True
      have no: "no_argument (cp_input st)"
      proof (rule ccontr)
        assume "\<not> no_argument (cp_input st)"
        then have "available st = []" using r by (simp add: available_def inputs_def within_argument_def)
        then show False using 1(4) by simp
      qed
      let ?st1 = "st\<lparr>cp_input := hd (cp_macroStack st), cp_macroStack := tl (cp_macroStack st)\<rparr>"
      note p = pop_reads [OF 1(3) r True no, unfolded 1(4)]
      have "refillCurrentInputIfExhausted previous st = refillCurrentInputIfExhausted (ls_read (cp_input ?st1)) ?st1"
        using eq r True no by (simp add: no_argument_def Let_def)
      moreover have "flows ?st1" "available ?st1 = x # xs" using p by (simp_all only: reads_to_def)
      moreover have "ls_streamType (cp_input st) \<noteq> MACRO_ARGUMENT_STREAM" using no by (simp add: no_argument_def)
      ultimately show ?thesis using 1(1) [OF _ True, of ?st1] r reads_to_trans [OF p] by auto
    next
      case False
      have no: "no_argument (cp_input st)"
      proof (rule ccontr)
        assume "\<not> no_argument (cp_input st)"
        then have "available st = []" using r by (simp add: available_def inputs_def within_argument_def)
        then show False using 1(4) by simp
      qed
      from False have m: "cp_macroStack st = []" by (simp add: insideMacro_def)
      then have n: "ls_streamType (cp_input st) = NORMAL_STREAM"
        using 1(3) no by (simp add: flows_def within_argument_def inputs_def)
      obtain built st1 where b: "build_lexems (setCurrentFileConsistency st) = (built, st1)" by fastforce
      let ?st2 = "setCurrentInputConsistency st1"
      have built: "built" using b m 1(4) r no
        by (auto simp: build_lexems_def setCurrentFileConsistency_def available_def inputs_def within_argument_def split: list.splits)
      have p: "reads_to st (x # xs) ?st2"
        using b 1(3,4) r m no n by (auto simp: build_lexems_def setCurrentFileConsistency_def setCurrentInputConsistency_def
            reads_to_def flows_def tables_def available_def below_argument_def within_argument_def inputs_def no_argument_def
            makeLexemStream_def split: list.splits)
      have "refillCurrentInputIfExhausted previous st = refillCurrentInputIfExhausted (ls_read (cp_input ?st2)) ?st2"
        using eq r False n b built by (simp add: Let_def)
      moreover have "flows ?st2" "available ?st2 = x # xs" using p by (simp_all only: reads_to_def)
      ultimately show ?thesis using 1(2) [OF _ False n b [symmetric] refl] r built reads_to_trans [OF p] by auto
    qed
  qed
qed

lemma read_available:
  assumes "flows st" "available st = x # xs"
  shows "\<exists>st1. getLexemAndSavePointerToPrevious previous st = Some (Inr x, x # ls_read (cp_input st1), st1) \<and> reads_to st xs st1"
proof -
  from refill_available [OF assms, of previous] obtain p st1 where
    r: "refillCurrentInputIfExhausted previous st = Some (None, p, st1)" "reads_to st (x # xs) st1" "ls_read (cp_input st1) \<noteq> []"
    by blast
  then obtain y ys where y: "ls_read (cp_input st1) = y # ys" by (cases "ls_read (cp_input st1)") auto
  let ?st2 = "st1\<lparr>cp_input := (cp_input st1)\<lparr>ls_read := ys\<rparr>\<rparr>"
  have "available st1 = y # available ?st2" "flows ?st2 = flows st1" "tables ?st2 = tables st1"
    "below_argument ?st2 = below_argument st1" "within_argument ?st2 = within_argument st1"
    using y by (auto simp: available_def flows_def tables_def below_argument_def within_argument_def inputs_def no_argument_def)
  then have "y = x" "reads_to st xs ?st2" using r(2) by (auto simp: reads_to_def)
  moreover have "getLexemAndSavePointerToPrevious previous st = Some (Inr y, y # ys, ?st2)"
    using r(1) y by (simp add: getLexemAndSavePointerToPrevious_def)
  ultimately show ?thesis by auto
qed

text \<open>Lines are skipped.\<close>

lemma skip_lines_available:
  assumes "flows st" "available st = ls @ x # xs" "\<forall>l\<in>set ls. is_line l" "\<not> is_line x"
  shows "\<exists>st1. getLexSkippingLines saved st = Some (Inr x, x # ls_read (cp_input st1), st1) \<and> reads_to st xs st1"
  using assms
proof (induction ls arbitrary: saved st)
  case Nil
  then show ?case using read_available [of st x xs saved] by (auto simp: getLexSkippingLines.simps [of saved st])
next
  case (Cons l ls)
  from read_available [of st l "ls @ x # xs" saved] Cons(2,3) obtain st1 where
    r: "getLexemAndSavePointerToPrevious saved st = Some (Inr l, l # ls_read (cp_input st1), st1)" "reads_to st (ls @ x # xs) st1"
    by auto
  let ?st1 = "getExtraLexemInformationFor l (\<not> insideMacro st1) st1"
  have "getLexSkippingLines saved st = getLexSkippingLines (l # ls_read (cp_input st1)) ?st1"
    using r(1) Cons(4) by (simp add: getLexSkippingLines.simps [of saved st])
  moreover have r1: "reads_to st (ls @ x # xs) ?st1" using r(2) by simp
  then have "flows ?st1" "available ?st1 = ls @ x # xs" by (simp_all only: reads_to_def)
  with Cons(1) [of ?st1 "l # ls_read (cp_input st1)"] Cons(4,5) obtain st2 where
    "getLexSkippingLines (l # ls_read (cp_input st1)) ?st1 = Some (Inr x, x # ls_read (cp_input st2), st2)" "reads_to ?st1 xs st2"
    by auto
  ultimately show ?case using reads_to_trans [OF r1] by auto
qed

section \<open>The arguments of a call are those between its commas\<close>

abbreviation significant :: "lexem \<Rightarrow> bool" where
  "significant x \<equiv> \<not> is_line x"

text \<open>Parentheses are balanced, and a comma outside them is only in the last argument.\<close>

fun argument_ok :: "bool \<Rightarrow> int \<Rightarrow> lexem list \<Rightarrow> bool" where
  "argument_ok is_last d [] \<longleftrightarrow> d = 0"
| "argument_ok is_last d (x # xs) \<longleftrightarrow> significant x \<and>
     (if lx_code x = 40 then argument_ok is_last (d + 1) xs
      else if lx_code x = 41 then d \<noteq> 0 \<and> argument_ok is_last (d - 1) xs
      else if lx_code x = 44 \<and> d = 0 then is_last \<and> argument_ok is_last d xs
      else argument_ok is_last d xs)"

definition terminates :: "bool \<Rightarrow> lexem \<Rightarrow> bool" where
  "terminates is_last t \<longleftrightarrow> lx_code t = 41 \<or> lx_code t = 44 \<and> \<not> is_last"

lemma terminates_significant: "terminates l t \<Longrightarrow> significant t"
  by (auto simp: terminates_def is_line_def lexem_codes)

lemma only_lines_left:
  assumes "filter significant zs = []" "zs = [] \<or> List.last zs = t" "significant t"
  shows "zs = []"
proof (rule ccontr)
  assume "zs \<noteq> []"
  then have "t \<in> set zs" using assms(2) last_in_set [of zs] by auto
  with assms(1,3) show False by (auto simp: filter_empty_conv)
qed

lemma filter_split_at:
  "filter P zs = us @ t # vs \<Longrightarrow> \<exists>zs1 zs2. zs = zs1 @ t # zs2 \<and> filter P zs1 = us \<and> filter P zs2 = vs"
proof (induction zs arbitrary: us)
  case (Cons z zs)
  show ?case
  proof (cases "P z")
    case False
    with Cons obtain zs1 zs2 where "zs = zs1 @ t # zs2" "filter P zs1 = us" "filter P zs2 = vs" by auto
    with False show ?thesis by (intro exI [of _ "z # zs1"] exI [of _ zs2]) auto
  next
    case True
    show ?thesis
    proof (cases us)
      case Nil
      with True Cons(2) show ?thesis by (intro exI [of _ "[]"] exI [of _ zs]) auto
    next
      case (Cons u us')
      with True Cons.prems Cons.IH [of us'] obtain zs1 zs2 where "zs = zs1 @ t # zs2" "filter P zs1 = us'" "filter P zs2 = vs" by auto
      with True Cons Cons.prems show ?thesis by (intro exI [of _ "z # zs1"] exI [of _ zs2]) auto
    qed
  qed
qed simp

lemma argument_lexems_law:
  assumes "flows st" "available st = zs @ rest" "x # filter significant zs = a @ [t]" "zs = [] \<or> List.last zs = t"
    and "argument_ok is_last depth a" "terminates is_last t"
  shows "\<exists>b' e' st1. argument_lexems c m is_last index depth offset out saved x b e st = Some (Inr t, out @ a, b', e', st1)
    \<and> reads_to st rest st1"
  using assms
proof (induction a arbitrary: x zs st depth offset out saved b e)
  case Nil
  then have x: "x = t" and "filter significant zs = []" "depth = 0" by auto
  have zs: "zs = []"
    using only_lines_left [OF \<open>filter significant zs = []\<close> Nil(4)] terminates_significant [OF Nil(6)] by simp
  have "reads_to st rest st" using Nil(1,2) zs by (simp add: reads_to_def)
  moreover have "argument_lexems c m is_last index depth offset out saved x b e st = Some (Inr t, out @ [], b, e, st)"
    unfolding argument_lexems.simps [of c m is_last index depth offset out saved x b e st]
    using x \<open>depth = 0\<close> Nil(6) by (auto simp: terminates_def)
  ultimately show ?case by blast
next
  case (Cons y a)
  then have x: "x = y" and f: "filter significant zs = a @ [t]" by auto
  obtain z more where z: "a @ [t] = z # more" by (cases a) auto
  from filter_split_at [of significant zs "[]" z more] f z obtain ls zs' where
    zs: "zs = ls @ z # zs'" "filter significant ls = []" "filter significant zs' = more" by auto
  have sz: "significant z" using f z by (metis filter_eq_Cons_iff)
  have last: "zs' = [] \<or> List.last zs' = t" using Cons(5) zs(1) by (auto split: if_splits)
  have goes_on: "\<not> (lx_code x = 41 \<and> depth = 0 \<or> lx_code x = 44 \<and> depth = 0 \<and> \<not> is_last)"
    using Cons(6) x by (auto split: if_splits)
  define depth1 where "depth1 = (if lx_code x = 40 then depth + 1 else if lx_code x = 41 then depth - 1 else depth)"
  have ok: "argument_ok is_last depth1 a" using Cons(6) x by (auto simp: depth1_def split: if_splits)
  have lines: "\<forall>l\<in>set ls. is_line l" using zs(2) by (auto simp: filter_empty_conv)
  from skip_lines_available [OF Cons(2) _ lines, of z "zs' @ rest" saved] Cons(3) zs(1) sz obtain st1 where
    r: "getLexSkippingLines saved st = Some (Inr z, z # ls_read (cp_input st1), st1)" "reads_to st (zs' @ rest) st1" by auto
  let ?st2 = "getExtraLexemInformationFor z (\<not> insideMacro st1) st1"
  let ?at = "(lx_code z = 44 \<or> lx_code z = 41) \<and> depth1 = 0"
  define st3 where "st3 = (if ?at then handleMacroUsageParameterPositions c (index + (offset + 1)) m b (lx_position z) False ?st2 else ?st2)"
  have r3: "reads_to st (zs' @ rest) st3" using r(2) by (simp add: st3_def)
  then have st3: "flows st3" "available st3 = zs' @ rest" by (simp_all only: reads_to_def)
  have "z # filter significant zs' = a @ [t]" using z zs(3) by simp
  from Cons(1) [OF st3 this last ok Cons(7)] have
    ih: "\<exists>b' e' st1. argument_lexems c m is_last index depth1 offset out saved z b e st3 = Some (Inr t, out @ a, b', e', st1) \<and> reads_to st3 rest st1"
    for offset out saved b e .
  have "\<exists>o' b'. argument_lexems c m is_last index depth offset out saved x b e st
    = argument_lexems c m is_last index depth1 o' (out @ [x]) (z # ls_read (cp_input st1)) z b' (lx_position z) st3"
    using goes_on r(1) unfolding argument_lexems.simps [of c m is_last index depth offset out saved x b e st] st3_def depth1_def [symmetric] Let_def
    by auto
  then obtain o' b' where "argument_lexems c m is_last index depth offset out saved x b e st
    = argument_lexems c m is_last index depth1 o' (out @ [x]) (z # ls_read (cp_input st1)) z b' (lx_position z) st3" by blast
  with ih [of o' "out @ [x]" "z # ls_read (cp_input st1)" b' "lx_position z"] x reads_to_trans [OF r3] show ?case by auto
qed

text \<open>The text of the arguments: each is followed by a comma, the last by the closing parenthesis.\<close>

fun arguments_text :: "lexem list list \<Rightarrow> lexem list \<Rightarrow> lexem list" where
  "arguments_text (a # as) (t # ts) = a @ t # arguments_text as ts"
| "arguments_text _ _ = []"

fun arguments_ok :: "lexem list list \<Rightarrow> lexem list \<Rightarrow> bool" where
  "arguments_ok [a] [t] \<longleftrightarrow> argument_ok True 0 a \<and> lx_code t = 41"
| "arguments_ok (a # as) (t # ts) \<longleftrightarrow> argument_ok False 0 a \<and> lx_code t = 44 \<and> arguments_ok as ts"
| "arguments_ok _ _ \<longleftrightarrow> False"

lemma arguments_ok_last: "arguments_ok as ts \<Longrightarrow> arguments_text as ts \<noteq> [] \<and> significant (List.last (arguments_text as ts))"
  by (induction as ts rule: arguments_ok.induct) (auto simp: is_line_def lexem_codes)

lemma arguments_loop_law:
  assumes "flows st" "available st = zs @ rest" "x # filter significant zs = arguments_text as ts"
    and "zs = [] \<or> List.last zs = List.last (arguments_text as ts)" "arguments_ok as ts"
    and "argCount = int (length args) + int (length as)"
  shows "\<exists>streams st1. arguments_loop c m argCount args saved x b e st = Some (args @ streams, st1)
    \<and> map ls_begin streams = as \<and> reads_to st rest st1"
  using assms
proof (induction as arbitrary: ts st zs x args saved b e)
  case Nil
  then show ?case by simp
next
  case (Cons a as)
  then obtain t ts' where ts: "ts = t # ts'" by (cases ts) auto
  let ?last = "as = []"
  have ok: "argument_ok ?last 0 a" "terminates ?last t" "as \<noteq> [] \<Longrightarrow> arguments_ok as ts' \<and> lx_code t = 44" "as = [] \<Longrightarrow> ts' = []"
    using Cons(6) ts by (cases as; cases ts'; auto simp: terminates_def)+
  have src: "x # filter significant zs = a @ t # arguments_text as ts'" using Cons(4) ts by simp
  obtain zs1 zs2 where zs: "zs = zs1 @ zs2" "x # filter significant zs1 = a @ [t]" "filter significant zs2 = arguments_text as ts'"
    "zs1 = [] \<or> List.last zs1 = t"
  proof (cases a)
    case Nil
    with src that [of "[]" zs] show ?thesis by simp
  next
    case (Cons y a')
    with src filter_split_at [of significant zs a' t "arguments_text as ts'"] obtain us vs where
      "zs = us @ t # vs" "filter significant us = a'" "filter significant vs = arguments_text as ts'" by auto
    with that [of "us @ [t]" vs] Cons src show ?thesis using terminates_significant [OF ok(2)] by auto
  qed
  have isLast: "(int (length args) + 1 = argCount) = ?last" using Cons(7) by auto
  from argument_lexems_law [OF Cons(2) _ zs(2,4) ok(1,2), of "zs2 @ rest" c m "int (length args)" 0 "[]" saved b e] Cons(3) zs(1)
  obtain b' e' st1 where r: "argument_lexems c m ?last (int (length args)) 0 0 [] saved x b e st = Some (Inr t, a, b', e', st1)"
    "reads_to st (zs2 @ rest) st1" by auto
  let ?arg = "makeLexemStream a a (ls_macroName (cp_input st1)) NORMAL_STREAM"
  have g: "getActualMacroArgument c saved x m b e argCount (int (length args)) st = Some (Inr t, ?arg, b', e', st1)"
    using r(1) isLast by (simp add: getActualMacroArgument_def)
  show ?case
  proof (cases "as = []")
    case True
    then have "zs2 = []"
    proof -
      have "filter significant zs2 = []" using zs(3) True by simp
      moreover have "zs2 = [] \<or> List.last zs2 = t"
        using Cons(5) zs(1) True ts ok(4) by (cases "zs2 = []") (auto simp: last_append)
      ultimately show ?thesis using terminates_significant [OF ok(2)] only_lines_left by blast
    qed
    moreover have "lx_code t = 41" using ok(2) True by (simp add: terminates_def)
    ultimately show ?thesis using g r(2) True
      by (intro exI [of _ "[?arg]"] exI [of _ st1]) (simp add: arguments_loop.simps [of c m argCount args] makeLexemStream_def)
  next
    case False
    with ok have more: "arguments_ok as ts'" "lx_code t = 44" by auto
    obtain z us where z: "arguments_text as ts' = z # us" using arguments_ok_last [OF more(1)] by (cases "arguments_text as ts'") auto
    from filter_split_at [of significant zs2 "[]" z us] zs(3) z obtain ls zs' where
      zs2: "zs2 = ls @ z # zs'" "filter significant ls = []" "filter significant zs' = us" by auto
    have sz: "significant z" using zs(3) z by (metis filter_eq_Cons_iff)
    have lines: "\<forall>l\<in>set ls. is_line l" using zs2(2) by (auto simp: filter_empty_conv)
    have "flows st1" "available st1 = ls @ z # zs' @ rest" using r(2) zs2(1) by (simp_all add: reads_to_def)
    from skip_lines_available [OF this lines, of saved] sz obtain st2 where
      s: "getLexSkippingLines saved st1 = Some (Inr z, z # ls_read (cp_input st2), st2)" "reads_to st1 (zs' @ rest) st2" by auto
    let ?st2 = "getExtraLexemInformationFor z (\<not> insideMacro st2) st2"
    have r2: "reads_to st (zs' @ rest) ?st2" using reads_to_trans [OF r(2) s(2)] by simp
    then have st2: "flows ?st2" "available ?st2 = zs' @ rest" by (simp_all only: reads_to_def)
    have f: "z # filter significant zs' = arguments_text as ts'" using z zs2(3) by simp
    have last: "zs' = [] \<or> List.last zs' = List.last (arguments_text as ts')"
      using Cons(5) zs(1) zs2(1) ts z by (auto split: if_splits)
    have count: "argCount = int (length (args @ [?arg])) + int (length as)" using Cons(7) by simp
    from Cons(1) [OF st2 f last more(1) count, of "z # ls_read (cp_input st2)" b' e'] obtain streams st3 where
      ih: "arguments_loop c m argCount (args @ [?arg]) (z # ls_read (cp_input st2)) z b' e' ?st2 = Some ((args @ [?arg]) @ streams, st3)"
        "map ls_begin streams = as" "reads_to ?st2 rest st3" by blast
    have "\<not> int (length (args @ [?arg])) \<ge> argCount" using Cons(7) False by simp
    then have "arguments_loop c m argCount args saved x b e st = Some ((args @ [?arg]) @ streams, st3)"
      using g more(2) s(1) ih(1) by (simp add: arguments_loop.simps [of c m argCount args saved x b e st])
    then show ?thesis using ih(2) reads_to_trans [OF r2 ih(3)]
      by (intro exI [of _ "?arg # streams"] exI [of _ st3]) (simp add: makeLexemStream_def)
  qed
qed

text \<open>C15: The arguments of a call are exactly the texts between the commas outside of parentheses, each taken whole with
  its inner parentheses and the last with all its commas, however the call is spread over lines and over the inputs
  it is read from; reading stops right behind the closing parenthesis, and no table changes.\<close>

theorem arguments_read_back:
  assumes "flows st" "available st = zs @ rest" "filter significant zs = arguments_text as ts"
    and "List.last zs = List.last (arguments_text as ts)" "arguments_ok as ts" "mb_argCount macroBody = int (length as)"
  shows "\<exists>args st'. getActualMacroArguments c macroBody macroPosition lparPosition st = Some (args, st')
    \<and> map ls_begin args = as \<and> reads_to st rest st'"
proof -
  obtain x us where x: "arguments_text as ts = x # us" using arguments_ok_last [OF assms(5)] by (cases "arguments_text as ts") auto
  from filter_split_at [of significant zs "[]" x us] assms(3) x obtain ls zs' where
    zs: "zs = ls @ x # zs'" "filter significant ls = []" "filter significant zs' = us" by auto
  have sx: "significant x" using assms(3) x by (metis filter_eq_Cons_iff)
  have lines: "\<forall>l\<in>set ls. is_line l" using zs(2) by (auto simp: filter_empty_conv)
  from skip_lines_available [OF assms(1) _ lines, of x "zs' @ rest" "[]"] assms(2) zs(1) sx obtain st1 where
    r: "getLexSkippingLines [] st = Some (Inr x, x # ls_read (cp_input st1), st1)" "reads_to st (zs' @ rest) st1" by auto
  let ?st1 = "getExtraLexemInformationFor x (\<not> insideMacro st1) st1"
  have r1: "reads_to st (zs' @ rest) ?st1" using r(2) by simp
  then have st1: "flows ?st1" "available ?st1 = zs' @ rest" by (simp_all only: reads_to_def)
  have f: "x # filter significant zs' = arguments_text as ts" using x zs(3) by simp
  have last: "zs' = [] \<or> List.last zs' = List.last (arguments_text as ts)" using assms(4) zs(1) x by (auto split: if_splits)
  show ?thesis
  proof (cases "lx_code x = 41")
    case True
    have one: "as = [[]]" "us = []"
    proof -
      obtain a as' t ts' where at: "as = a # as'" "ts = t # ts'" using assms(5) by (cases as; cases ts) auto
      have "a = []"
      proof (rule ccontr)
        assume "a \<noteq> []"
        then obtain a' where "a = x # a'" using x at by (cases a) auto
        then show False using assms(5) at True by (cases as'; cases ts') auto
      qed
      moreover from this have "t = x" using x at by simp
      ultimately show "as = [[]]" "us = []" using assms(5) at True x by (cases as'; cases ts'; auto)+
    qed
    then have "filter significant zs' = []" "List.last (arguments_text as ts) = x" using x zs(3) by simp_all
    then have "zs' = []" using last sx only_lines_left by metis
    then show ?thesis using r r1 True one(1) assms(6)
      by (simp add: getActualMacroArguments_def fill_missing_def makeLexemStream_def Let_def)
  next
    case False
    have count: "mb_argCount macroBody = int (length ([] :: lexemStream list)) + int (length as)" using assms(6) by simp
    from arguments_loop_law [OF st1 f last assms(5) count, of c macroPosition "x # ls_read (cp_input st1)" lparPosition "lx_position x"]
    obtain streams st2 where
      l: "arguments_loop c macroPosition (mb_argCount macroBody) [] (x # ls_read (cp_input st1)) x lparPosition (lx_position x) ?st1
        = Some (streams, st2)" "map ls_begin streams = as" "reads_to ?st1 rest st2" by auto
    moreover have "length streams = length as" using l(2) by (metis length_map)
    ultimately show ?thesis using r(1) False assms(6) reads_to_trans [OF r1 l(3)]
      by (auto simp: getActualMacroArguments_def fill_missing_def Let_def)
  qed
qed

section \<open>Expanding completely\<close>

text \<open>
  The reference: every name of a macro that is not being expanded is replaced by its body, in which that
  macro is not expanded again; a name that is being expanded is marked. \<open>avail\<close> are the macros not being expanded.
\<close>

function expanded :: "(string \<Rightarrow> lexem list option) \<Rightarrow> string list \<Rightarrow> lexem list \<Rightarrow> lexem list" where
  "expanded E avail [] = []"
| "expanded E avail (x # xs) =
     (case (if lx_code x = IDENTIFIER then E (lx_text x) else None) of
        None \<Rightarrow> x # expanded E avail xs
      | Some b \<Rightarrow>
          (if lx_text x \<in> set avail then expanded E (removeAll (lx_text x) avail) b @ expanded E avail xs
           else x\<lparr>lx_code := IDENT_NO_CPP_EXPAND\<rparr> # expanded E avail xs))"
  by pat_completeness auto
termination
  by (relation "measures [\<lambda>(E, avail, xs). length avail, \<lambda>(E, avail, xs). length xs]") (auto intro: length_removeAll_less)

declare expanded.simps(2) [simp del]

definition plain_body :: "lexem list \<Rightarrow> bool" where
  "plain_body xs \<longleftrightarrow> (\<forall>x\<in>set xs. lx_code x \<noteq> CPP_COLLATION \<and> lx_code x \<noteq> CPP_MACRO_ARGUMENT)"

lemma collate_body_plain: "plain_body body \<Longrightarrow> collate_body args out l body st = Some (out @ body, st)"
  by (induction body arbitrary: out l) (auto simp: plain_body_def)

lemma replace_parameters_plain: "plain_body xs \<Longrightarrow> replace_parameters args xs st = (xs, st)"
proof (induction xs)
  case (Cons x xs)
  then have p: "lx_code x \<noteq> CPP_MACRO_ARGUMENT" "\<And>y ys. xs = y # ys \<Longrightarrow> lx_code y \<noteq> CPP_MACRO_ARGUMENT"
    and ih: "replace_parameters args xs st = (xs, st)" by (auto simp: plain_body_def)
  show ?case
  proof (cases "if lx_code x = 35 then xs else []")
    case Nil
    then show ?thesis using p(1) ih by (simp add: replace_parameters.simps(2))
  next
    case (Cons y ys)
    then have "xs = y # ys" by (auto split: if_splits)
    with p(2) have "lx_code y \<noteq> CPP_MACRO_ARGUMENT" by blast
    with Cons show ?thesis using p(1) ih by (simp add: replace_parameters.simps(2))
  qed
qed simp

definition defined_body :: "cppConfig \<Rightarrow> cpp \<Rightarrow> string \<Rightarrow> macroBody option" where
  "defined_body c st name = Option.bind (findMacroSymbol c name st) (mbody st)"

text \<open>All macros are without parameters and without pasting, and their bodies know their names.\<close>

definition object_macros :: "cppConfig \<Rightarrow> cpp \<Rightarrow> bool" where
  "object_macros c st \<longleftrightarrow> (\<forall>name b. defined_body c st name = Some b \<longrightarrow>
     mb_name b = name \<and> mb_argCount b = -1 \<and> plain_body (mb_body b))"

definition body_lexems :: "cppConfig \<Rightarrow> cpp \<Rightarrow> string \<Rightarrow> lexem list option" where
  "body_lexems c st name = map_option mb_body (defined_body c st name)"

definition active :: "cpp \<Rightarrow> string \<Rightarrow> bool" where
  "active st name \<longleftrightarrow> (\<exists>i\<in>set (inputs st). ls_macroName i = Some name)"

definition ready :: "cppConfig \<Rightarrow> string list \<Rightarrow> cpp \<Rightarrow> bool" where
  "ready c avail st \<longleftrightarrow> insideMacro st \<and> ls_streamType (cp_input st) \<noteq> NORMAL_STREAM
     \<and> length (cp_macroStack st) + length avail < MACRO_INPUT_STACK_SIZE \<and> object_macros c st
     \<and> (\<forall>name. body_lexems c st name \<noteq> None \<longrightarrow> (name \<in> set avail \<longleftrightarrow> \<not> active st name))"

lemma same_table:
  assumes "cp_symbols st' = cp_symbols st" "cp_bodies st' = cp_bodies st"
  shows "findMacroSymbol c name st' = findMacroSymbol c name st" "mbody st' = mbody st"
    "defined_body c st' name = defined_body c st name" "object_macros c st' = object_macros c st"
    "body_lexems c st' name = body_lexems c st name"
proof -
  show f: "findMacroSymbol c name st' = findMacroSymbol c name st" for name unfolding findMacroSymbol_def assms by (rule refl)
  show m: "mbody st' = mbody st" unfolding mbody_def assms by (rule refl)
  show d: "defined_body c st' name = defined_body c st name" for name unfolding defined_body_def f m by (rule refl)
  show "object_macros c st' = object_macros c st" unfolding object_macros_def d by (rule refl)
  show "body_lexems c st' name = body_lexems c st name" unfolding body_lexems_def d by (rule refl)
qed

lemma extra_inside: "insideMacro st \<Longrightarrow> getExtraLexemInformationFor x (\<not> insideMacro st) st = st"
  by (simp add: getExtraLexemInformationFor_def)

lemma refill_previous:
  "map_option (\<lambda>(e, p, s). (e, s)) (refillCurrentInputIfExhausted p st)
   = map_option (\<lambda>(e, p, s). (e, s)) (refillCurrentInputIfExhausted q st)"
  by (simp add: refillCurrentInputIfExhausted.simps [of p st] refillCurrentInputIfExhausted.simps [of q st] Let_def split: prod.split)

lemma getLexem_previous:
  "map_option (\<lambda>(r, p, s). (r, s)) (getLexemAndSavePointerToPrevious p st)
   = map_option (\<lambda>(r, p, s). (r, s)) (getLexemAndSavePointerToPrevious q st)"
  using refill_previous [of p st q]
  by (cases "refillCurrentInputIfExhausted p st"; cases "refillCurrentInputIfExhausted q st")
    (auto simp: getLexemAndSavePointerToPrevious_def split: option.splits)

text \<open>The loop as it depends on what is read only.\<close>

definition argument_step :: "cppConfig \<Rightarrow> nat \<Rightarrow> lexem list \<Rightarrow> (cppException + lexem) \<times> cpp \<Rightarrow> (lexem list \<times> cpp) option" where
  "argument_step c n out a = (case a of
     (Inl END_OF_MACRO_ARGUMENT_EXCEPTION, st1) \<Rightarrow> Some (out, st1)
   | (Inl END_OF_FILE_EXCEPTION, st1) \<Rightarrow> None
   | (Inr x, st1) \<Rightarrow>
       (let st2 = getExtraLexemInformationFor x (\<not> insideMacro st1) st1 in
        case (if lx_code x = IDENTIFIER then findMacroSymbol c (lx_text x) st2 else None) of
          None \<Rightarrow> argument_loop c n (out @ [x]) st2
        | Some macroSymbol \<Rightarrow> do {
            (expanded, st3) \<leftarrow> expandMacroCall (argument_loop c n) c macroSymbol (lx_position x) st2;
            if expanded then argument_loop c n out st3
            else argument_loop c n
              (out @ [if (case mbody st3 macroSymbol of None \<Rightarrow> False | Some b \<Rightarrow> cyclicCall b st3)
                      then x\<lparr>lx_code := IDENT_NO_CPP_EXPAND\<rparr> else x]) st3
          }))"

lemma argument_loop_Suc:
  "argument_loop c (Suc n) out st = Option.bind (getLexem st) (argument_step c n out)"
  by (cases "getLexemAndSavePointerToPrevious [] st")
    (auto simp: getLexem_def argument_step_def split: sum.splits cppException.splits)

declare argument_loop.simps(2) [simp del]

lemma getLexem_pop:
  assumes "ls_read (cp_input st) = []" "insideMacro st" "ls_streamType (cp_input st) \<noteq> MACRO_ARGUMENT_STREAM"
  shows "getLexem st = getLexem (st\<lparr>cp_input := hd (cp_macroStack st), cp_macroStack := tl (cp_macroStack st)\<rparr>)"
proof -
  let ?st1 = "st\<lparr>cp_input := hd (cp_macroStack st), cp_macroStack := tl (cp_macroStack st)\<rparr>"
  have "refillCurrentInputIfExhausted [] st = refillCurrentInputIfExhausted (ls_read (cp_input ?st1)) ?st1"
    using assms by (simp add: refillCurrentInputIfExhausted.simps [of "[]" st] Let_def)
  then have "getLexemAndSavePointerToPrevious [] st = getLexemAndSavePointerToPrevious (ls_read (cp_input ?st1)) ?st1"
    by (simp add: getLexemAndSavePointerToPrevious_def)
  then show ?thesis unfolding getLexem_def using getLexem_previous [of "ls_read (cp_input ?st1)" ?st1 "[]"] by simp
qed

lemma argument_loop_pop:
  assumes "ls_read (cp_input st) = []" "insideMacro st" "ls_streamType (cp_input st) \<noteq> MACRO_ARGUMENT_STREAM"
  shows "argument_loop c n out st
    = argument_loop c n out (st\<lparr>cp_input := hd (cp_macroStack st), cp_macroStack := tl (cp_macroStack st)\<rparr>)"
proof (cases n)
  case 0
  then show ?thesis by simp
next
  case (Suc m)
  show ?thesis unfolding Suc argument_loop_Suc getLexem_pop [OF assms] by (rule refl)
qed

lemma getLexem_here:
  "ls_read (cp_input st) = x # xs \<Longrightarrow> getLexem st = Some (Inr x, st\<lparr>cp_input := (cp_input st)\<lparr>ls_read := xs\<rparr>\<rparr>)"
  by (simp add: getLexem_def getLexemAndSavePointerToPrevious_def refillCurrentInputIfExhausted.simps [of "[]" st])

definition drained :: "cpp \<Rightarrow> cppReport list \<Rightarrow> cpp" where
  "drained st r = st\<lparr>cp_input := (cp_input st)\<lparr>ls_read := []\<rparr>, cp_reports := r\<rparr>"

lemma drained_self: "ls_read (cp_input st) = [] \<Longrightarrow> drained st (cp_reports st) = st"
proof -
  assume "ls_read (cp_input st) = []"
  then have "(cp_input st)\<lparr>ls_read := []\<rparr> = cp_input st" by (cases "cp_input st") simp
  then show ?thesis by (simp add: drained_def)
qed

lemma defined_body_find:
  "findMacroSymbol c name st = Some s \<Longrightarrow> defined_body c st name = mbody st s"
  "findMacroSymbol c name st = None \<Longrightarrow> defined_body c st name = None"
  by (simp_all add: defined_body_def)

lemma cyclic_active: "cyclicCall b st \<longleftrightarrow> active st (mb_name b)"
  by (auto simp: cyclicCall_def active_def inputs_def)

text \<open>One lexem that stays, possibly marked.\<close>

lemma argument_step_stays:
  assumes "ready c avail st" "ls_read (cp_input st) = x # xs"
    and "(if lx_code x = IDENTIFIER then body_lexems c st (lx_text x) else None) = None \<and> y = x
      \<or> lx_code x = IDENTIFIER \<and> body_lexems c st (lx_text x) \<noteq> None \<and> lx_text x \<notin> set avail \<and> y = x\<lparr>lx_code := IDENT_NO_CPP_EXPAND\<rparr>"
  shows "argument_loop c (Suc m) out st = argument_loop c m (out @ [y]) (st\<lparr>cp_input := (cp_input st)\<lparr>ls_read := xs\<rparr>\<rparr>)"
proof -
  let ?s1 = "st\<lparr>cp_input := (cp_input st)\<lparr>ls_read := xs\<rparr>\<rparr>"
  have inside: "insideMacro ?s1" using assms(1) by (simp add: ready_def insideMacro_def)
  have t: "findMacroSymbol c name ?s1 = findMacroSymbol c name st" "mbody ?s1 = mbody st" for name
    by (rule same_table; simp)+
  have act: "active ?s1 name = active st name" for name by (simp add: active_def inputs_def)
  note eq = argument_loop_Suc [of c m out st] getLexem_here [OF assms(2)] extra_inside [OF inside]
  show ?thesis
  proof (cases "lx_code x = IDENTIFIER")
    case False
    then show ?thesis using assms(3) by (simp add: eq argument_step_def Let_def)
  next
    case True
    show ?thesis
    proof (cases "findMacroSymbol c (lx_text x) st")
      case None
      then show ?thesis using assms(3) True defined_body_find(2) [OF None]
        by (auto simp: eq argument_step_def Let_def t body_lexems_def)
    next
      case (Some s)
      note d = defined_body_find(1) [OF Some]
      show ?thesis
      proof (cases "mbody st s")
        case None
        then show ?thesis using assms(3) True Some d
          by (auto simp: eq argument_step_def Let_def t body_lexems_def expandMacroCall_def)
      next
        case b: (Some b)
        then have y: "lx_text x \<notin> set avail" "y = x\<lparr>lx_code := IDENT_NO_CPP_EXPAND\<rparr>" "body_lexems c st (lx_text x) \<noteq> None"
          using assms(3) True d by (auto simp: body_lexems_def)
        have "mb_name b = lx_text x" using assms(1) d b by (auto simp: ready_def object_macros_def)
        moreover have "active st (lx_text x)" using assms(1) y(1,3) by (auto simp: ready_def)
        ultimately have "cyclicCall b ?s1" by (simp add: cyclic_active act)
        then show ?thesis using True Some b y(2)
          by (simp add: eq argument_step_def Let_def t expandMacroCall_def)
      qed
    qed
  qed
qed

text \<open>One name that is replaced: its body is the next input.\<close>

lemma argument_step_expands:
  assumes "ready c avail st" "ls_read (cp_input st) = x # xs" "lx_code x = IDENTIFIER"
    and "body_lexems c st (lx_text x) = Some b" "lx_text x \<in> set avail"
  shows "\<exists>s3. (\<forall>m out. argument_loop c (Suc m) out st = argument_loop c m out s3)
    \<and> ready c (removeAll (lx_text x) avail) s3 \<and> ls_read (cp_input s3) = b \<and> ls_streamType (cp_input s3) = MACRO_STREAM
    \<and> cp_symbols s3 = cp_symbols st \<and> cp_bodies s3 = cp_bodies st
    \<and> (\<forall>r. (drained s3 r)\<lparr>cp_input := hd (cp_macroStack s3), cp_macroStack := tl (cp_macroStack s3)\<rparr>
         = st\<lparr>cp_input := (cp_input st)\<lparr>ls_read := xs\<rparr>, cp_reports := r\<rparr>)"
proof -
  let ?s1 = "st\<lparr>cp_input := (cp_input st)\<lparr>ls_read := xs\<rparr>\<rparr>" and ?name = "lx_text x"
  have inside: "insideMacro ?s1" using assms(1) by (simp add: ready_def insideMacro_def)
  have t: "findMacroSymbol c name ?s1 = findMacroSymbol c name st" "mbody ?s1 = mbody st" for name
    by (rule same_table; simp)+
  obtain body where body: "defined_body c st ?name = Some body" "mb_body body = b" using assms(4) by (auto simp: body_lexems_def)
  then obtain s where s: "findMacroSymbol c ?name st = Some s" "mbody st s = Some body"
    by (auto simp: defined_body_def bind_eq_Some_conv)
  have o: "mb_name body = ?name" "mb_argCount body = -1" "plain_body b"
    using assms(1) body by (auto simp: ready_def object_macros_def)
  have "\<not> active st ?name" using assms(1,4,5) by (auto simp: ready_def)
  then have cyc: "\<not> cyclicCall body ?s1" using o(1) by (simp add: cyclic_active active_def inputs_def)
  let ?s2 = "report (HandleFoundSymbolReference s (lx_position x) UsageUsed (cc_noFile c)) ?s1"
  let ?stream = "(makeLexemStream b b (Some ?name) MACRO_STREAM)\<lparr>ls_macroCallPosition := lx_position x\<rparr>"
  let ?s3 = "?s2\<lparr>cp_macroStack := cp_input ?s1 # cp_macroStack st, cp_input := ?stream\<rparr>"
  have "length avail > 0" using assms(5) by (cases avail) auto
  then have room: "length (cp_macroStack st) < MACRO_INPUT_STACK_SIZE - 1"
    using assms(1) unfolding ready_def by linarith
  have create: "createMacroBodyAsNewStream loop body [] ?s2 = Some (makeLexemStream b b (Some ?name) MACRO_STREAM, ?s2)" for loop
    using o body(2) by (simp add: createMacroBodyAsNewStream_def collate_body_plain replaceMacroArguments_def
        replace_parameters_plain makeLexemStream_def)
  have "start_expansion loop c s (lx_position x) body [] ?s1 = Some (True, ?s3)" for loop
    unfolding start_expansion_def create using room by (simp add: prependMacroInput_def makeLexemStream_def report_def)
  then have "expandMacroCall loop c s (lx_position x) ?s1 = Some (True, ?s3)" for loop
    using s(2) cyc o(2) by (simp add: expandMacroCall_def t)
  then have step: "argument_loop c (Suc m) out st = argument_loop c m out ?s3" for m out
    using assms(3) s(1) by (simp add: argument_loop_Suc getLexem_here [OF assms(2)] extra_inside [OF inside] argument_step_def Let_def t)
  have same: "cp_symbols ?s3 = cp_symbols st" "cp_bodies ?s3 = cp_bodies st" by simp_all
  have act: "active ?s3 name \<longleftrightarrow> name = ?name \<or> active st name" for name
    by (auto simp: active_def inputs_def makeLexemStream_def report_def)
  have "length (removeAll ?name avail) < length avail" using assms(5) by (rule length_removeAll_less)
  then have room3: "length (cp_macroStack ?s3) + length (removeAll ?name avail) < MACRO_INPUT_STACK_SIZE"
    using assms(1) by (simp add: ready_def)
  have "ready c (removeAll ?name avail) ?s3"
    unfolding ready_def same_table(4) [OF same] same_table(5) [OF same] act
  proof (intro conjI)
    show "insideMacro ?s3" by (simp add: insideMacro_def)
    show "ls_streamType (cp_input ?s3) \<noteq> NORMAL_STREAM" by (simp add: makeLexemStream_def)
    show "length (cp_macroStack ?s3) + length (removeAll ?name avail) < MACRO_INPUT_STACK_SIZE" by (rule room3)
    show "object_macros c st" using assms(1) by (simp add: ready_def)
    show "\<forall>name. body_lexems c st name \<noteq> None \<longrightarrow> (name \<in> set (removeAll ?name avail)) = (\<not> (name = ?name \<or> active st name))"
      using assms(1) by (auto simp: ready_def)
  qed
  then show ?thesis using step same
    by (intro exI [of _ ?s3]) (simp add: makeLexemStream_def drained_def report_def)
qed

lemma ready_keeps:
  "ready c avail (st\<lparr>cp_input := (cp_input st)\<lparr>ls_read := xs\<rparr>\<rparr>) = ready c avail st"
  "ready c avail (st\<lparr>cp_reports := r\<rparr>) = ready c avail st"
proof -
  let ?a = "st\<lparr>cp_input := (cp_input st)\<lparr>ls_read := xs\<rparr>\<rparr>" and ?b = "st\<lparr>cp_reports := r\<rparr>"
  have a: "cp_symbols ?a = cp_symbols st" "cp_bodies ?a = cp_bodies st" and b: "cp_symbols ?b = cp_symbols st" "cp_bodies ?b = cp_bodies st"
    by simp_all
  show "ready c avail ?a = ready c avail st" unfolding ready_def same_table(4) [OF a] same_table(5) [OF a]
    by (simp add: insideMacro_def active_def inputs_def)
  show "ready c avail ?b = ready c avail st" unfolding ready_def same_table(4) [OF b] same_table(5) [OF b]
    by (simp add: insideMacro_def active_def inputs_def)
qed

lemma body_lexems_keeps:
  "body_lexems c (st\<lparr>cp_input := i\<rparr>) = body_lexems c st" "body_lexems c (st\<lparr>cp_reports := r\<rparr>) = body_lexems c st"
  by (rule ext, rule same_table; simp)+

lemma drained_keeps:
  "drained (st\<lparr>cp_input := (cp_input st)\<lparr>ls_read := xs\<rparr>\<rparr>) r = drained st r"
  "drained (st\<lparr>cp_reports := r'\<rparr>) r = drained st r"
  by (simp_all add: drained_def)

text \<open>What the loop has done when the input it reads from is used up.\<close>

definition loop_expands :: "cppConfig \<Rightarrow> cpp \<Rightarrow> lexem list \<Rightarrow> bool" where
  "loop_expands c st xs \<longleftrightarrow> (\<exists>k r. \<forall>n out. argument_loop c (k + n) out st = argument_loop c n (out @ xs) (drained st r))"

lemma loop_expands_stays:
  assumes "ready c avail st" "ls_read (cp_input st) = x # xs"
    and "(if lx_code x = IDENTIFIER then body_lexems c st (lx_text x) else None) = None \<and> y = x
      \<or> lx_code x = IDENTIFIER \<and> body_lexems c st (lx_text x) \<noteq> None \<and> lx_text x \<notin> set avail \<and> y = x\<lparr>lx_code := IDENT_NO_CPP_EXPAND\<rparr>"
    and "loop_expands c (st\<lparr>cp_input := (cp_input st)\<lparr>ls_read := xs\<rparr>\<rparr>) ys"
  shows "loop_expands c st (y # ys)"
proof -
  obtain k r where k: "argument_loop c (k + n) out (st\<lparr>cp_input := (cp_input st)\<lparr>ls_read := xs\<rparr>\<rparr>)
      = argument_loop c n (out @ ys) (drained st r)" for n out
    using assms(4) unfolding loop_expands_def drained_keeps by blast
  have "argument_loop c (Suc k + n) out st = argument_loop c n (out @ y # ys) (drained st r)" for n out
    using argument_step_stays [OF assms(1-3), of "k + n" out] k [of n "out @ [y]"] by simp
  then show ?thesis unfolding loop_expands_def by blast
qed

lemma loop_expands_call:
  assumes "ready c avail st" "ls_read (cp_input st) = x # xs" "lx_code x = IDENTIFIER"
    and "body_lexems c st (lx_text x) = Some b" "lx_text x \<in> set avail"
    and body: "\<And>s. ready c (removeAll (lx_text x) avail) s \<Longrightarrow> ls_read (cp_input s) = b \<Longrightarrow> body_lexems c s = body_lexems c st
      \<Longrightarrow> loop_expands c s bs"
    and rest: "\<And>r. loop_expands c (st\<lparr>cp_input := (cp_input st)\<lparr>ls_read := xs\<rparr>, cp_reports := r\<rparr>) ys"
  shows "loop_expands c st (bs @ ys)"
proof -
  from argument_step_expands [OF assms(1-5)] obtain s3 where
    step: "\<And>m out. argument_loop c (Suc m) out st = argument_loop c m out s3"
    and s3: "ready c (removeAll (lx_text x) avail) s3" "ls_read (cp_input s3) = b" "ls_streamType (cp_input s3) = MACRO_STREAM"
      "cp_symbols s3 = cp_symbols st" "cp_bodies s3 = cp_bodies st"
    and popped: "\<And>r. (drained s3 r)\<lparr>cp_input := hd (cp_macroStack s3), cp_macroStack := tl (cp_macroStack s3)\<rparr>
       = st\<lparr>cp_input := (cp_input st)\<lparr>ls_read := xs\<rparr>, cp_reports := r\<rparr>" by blast
  have "body_lexems c s3 = body_lexems c st" by (rule ext) (rule same_table(5) [OF s3(4,5)])
  from body [OF s3(1,2) this] obtain k1 r1 where
    k1: "argument_loop c (k1 + n) out s3 = argument_loop c n (out @ bs) (drained s3 r1)" for n out
    unfolding loop_expands_def by blast
  let ?d = "drained s3 r1"
  have "ls_read (cp_input ?d) = []" "insideMacro ?d" "ls_streamType (cp_input ?d) \<noteq> MACRO_ARGUMENT_STREAM"
    using s3(1,3) by (simp_all add: drained_def ready_def insideMacro_def)
  note pop = argument_loop_pop [OF this]
  have "cp_macroStack ?d = cp_macroStack s3" by (simp add: drained_def)
  with pop popped [of r1] have
    pop: "argument_loop c n out ?d = argument_loop c n out (st\<lparr>cp_input := (cp_input st)\<lparr>ls_read := xs\<rparr>, cp_reports := r1\<rparr>)" for n out
    by simp
  from rest [of r1] obtain k2 r2 where
    k2: "argument_loop c (k2 + n) out (st\<lparr>cp_input := (cp_input st)\<lparr>ls_read := xs\<rparr>, cp_reports := r1\<rparr>)
      = argument_loop c n (out @ ys) (drained st r2)" for n out
    unfolding loop_expands_def by (auto simp: drained_def)
  have "argument_loop c (Suc (k1 + k2) + n) out st = argument_loop c n (out @ bs @ ys) (drained st r2)" for n out
    using step [of "k1 + (k2 + n)" out] k1 [of "k2 + n" out] pop [of "k2 + n" "out @ bs"] k2 [of n "out @ bs"]
    by (simp add: add.assoc)
  then show ?thesis unfolding loop_expands_def by blast
qed

lemma loop_expands_all:
  assumes "ready c avail st" "ls_read (cp_input st) = xs" "body_lexems c st = E"
  shows "loop_expands c st (expanded E avail xs)"
  using assms
proof (induction E avail xs arbitrary: st rule: expanded.induct)
  case (1 E avail)
  then show ?case unfolding loop_expands_def
    by (intro exI [of _ 0] exI [of _ "cp_reports st"]) (simp add: drained_self)
next
  case (2 E avail x xs)
  let ?s1 = "st\<lparr>cp_input := (cp_input st)\<lparr>ls_read := xs\<rparr>\<rparr>"
  let ?e = "if lx_code x = IDENTIFIER then E (lx_text x) else None"
  have s1: "ready c avail (?s1\<lparr>cp_reports := r\<rparr>)" "ls_read (cp_input (?s1\<lparr>cp_reports := r\<rparr>)) = xs"
    "body_lexems c (?s1\<lparr>cp_reports := r\<rparr>) = E" "ready c avail ?s1" "body_lexems c ?s1 = E" for r
    using 2(5,7) by (simp_all only: ready_keeps body_lexems_keeps, simp_all)
  show ?case
  proof (cases ?e)
    case None
    then have y: "?e = None \<and> x = x \<or> lx_code x = IDENTIFIER \<and> E (lx_text x) \<noteq> None \<and> lx_text x \<notin> set avail \<and> x = x\<lparr>lx_code := IDENT_NO_CPP_EXPAND\<rparr>"
      by simp
    have "loop_expands c ?s1 (expanded E avail xs)" by (rule 2(1) [OF None s1(4) _ s1(5)]) simp
    from loop_expands_stays [OF 2(5,6) y [folded 2(7)] this] None show ?thesis by (simp add: expanded.simps(2))
  next
    case (Some b)
    then have x: "lx_code x = IDENTIFIER" "E (lx_text x) = Some b" by (auto split: if_splits)
    show ?thesis
    proof (cases "lx_text x \<in> set avail")
      case True
      have "loop_expands c st (expanded E (removeAll (lx_text x) avail) b @ expanded E avail xs)"
      proof (rule loop_expands_call [OF 2(5,6) x(1) _ True])
        show "body_lexems c st (lx_text x) = Some b" using x(2) 2(7) by simp
        show "loop_expands c s (expanded E (removeAll (lx_text x) avail) b)"
          if "ready c (removeAll (lx_text x) avail) s" "ls_read (cp_input s) = b" "body_lexems c s = body_lexems c st" for s
          by (rule 2(2) [OF Some True that(1,2)]) (simp add: that(3) 2(7))
        show "loop_expands c (?s1\<lparr>cp_reports := r\<rparr>) (expanded E avail xs)" for r
          by (rule 2(3) [OF Some True s1(1-3)])
      qed
      then show ?thesis using Some True by (simp add: expanded.simps(2))
    next
      case False
      then have y: "?e = None \<and> x\<lparr>lx_code := IDENT_NO_CPP_EXPAND\<rparr> = x \<or> lx_code x = IDENTIFIER \<and> E (lx_text x) \<noteq> None
        \<and> lx_text x \<notin> set avail \<and> x\<lparr>lx_code := IDENT_NO_CPP_EXPAND\<rparr> = x\<lparr>lx_code := IDENT_NO_CPP_EXPAND\<rparr>"
        using x by simp
      have "loop_expands c ?s1 (expanded E avail xs)" by (rule 2(4) [OF Some False s1(4) _ s1(5)]) simp
      from loop_expands_stays [OF 2(5,6) y [folded 2(7)] this] Some False show ?thesis by (simp add: expanded.simps(2))
    qed
  qed
qed

lemma expanded_complete: "y \<in> set (expanded E avail xs) \<Longrightarrow> lx_code y = IDENTIFIER \<Longrightarrow> E (lx_text y) = None"
proof (induction E avail xs rule: expanded.induct)
  case (2 E avail x xs)
  show ?case
  proof (cases "if lx_code x = IDENTIFIER then E (lx_text x) else None")
    case None
    with 2(1) [OF None] 2(5,6) show ?thesis by (auto simp: expanded.simps(2) split: if_splits)
  next
    case (Some b)
    with 2(2-4) [OF Some] 2(5,6) show ?thesis by (cases "lx_text x \<in> set avail") (auto simp: expanded.simps(2) lexem_codes)
  qed
qed simp

lemma argument_loop_end:
  assumes "ls_read (cp_input st) = []" "insideMacro st" "ls_streamType (cp_input st) = MACRO_ARGUMENT_STREAM"
  shows "argument_loop c (Suc n) out st = Some (out, st)"
  using assms unfolding argument_loop_Suc
  by (simp add: getLexem_def getLexemAndSavePointerToPrevious_def refillCurrentInputIfExhausted.simps [of "[]" st] argument_step_def)


section \<open>Witnesses\<close>

definition example_macro :: cpp where
  "example_macro =
     (let a = example_lexem IDENTIFIER ''A''; x = example_lexem IDENTIFIER ''x'';
          symbol = (makeMacroSymbol ''A'' (Position 1 1 0))\<lparr>sym_value := MacroBodyValue (Some 0)\<rparr>;
          body = \<lparr>mb_argCount = -1, mb_name = ''A'', mb_argumentNames = [], mb_body = [a, x]\<rparr>
      in example_cpp [macro_cell 0 symbol] [body] [])"

lemma example_macro_body:
  "defined_body example_config example_macro name
   = (if name = ''A'' then Some \<lparr>mb_argCount = -1, mb_name = ''A'', mb_argumentNames = [],
        mb_body = [example_lexem IDENTIFIER ''A'', example_lexem IDENTIFIER ''x'']\<rparr> else None)"
  by (simp add: defined_body_def example_macro_def findMacroSymbol_def hashListIsMember_def hashListIndex_def example_cpp_def
      macro_cell_def makeMacroSymbol_def equalSymbols_def mbody_def Let_def)

theorem arguments_read_back_witness:
  "let a = example_lexem IDENTIFIER ''a''; l = example_lexem 40 []; r = example_lexem 41 []; k = example_lexem 44 []; nl = example_lexem 10 [];
       body = \<lparr>mb_argCount = 2, mb_name = ''f'', mb_argumentNames = [], mb_body = []\<rparr>
   in \<exists>args st'. getActualMacroArguments example_config body (Position 1 1 0) (Position 1 1 1)
          (example_cpp [] [] [a, k, nl, l, a, k, a, r, r, a]) = Some (args, st')
        \<and> map ls_begin args = [[a], [l, a, k, a, r]] \<and> available st' = [a]"
proof -
  let ?a = "example_lexem IDENTIFIER ''a''" and ?l = "example_lexem 40 []" and ?r = "example_lexem 41 []" and ?k = "example_lexem 44 []"
  let ?nl = "example_lexem 10 []" and ?body = "\<lparr>mb_argCount = 2, mb_name = ''f'', mb_argumentNames = [], mb_body = []\<rparr>"
  let ?zs = "[?a, ?k, ?nl, ?l, ?a, ?k, ?a, ?r, ?r]" and ?st = "example_cpp [] [] [?a, ?k, ?nl, ?l, ?a, ?k, ?a, ?r, ?r, ?a]"
  let ?as = "[[?a], [?l, ?a, ?k, ?a, ?r]]" and ?ts = "[?k, ?r]"
  have f: "flows ?st" "available ?st = ?zs @ [?a]"
    by (simp_all add: flows_def available_def within_argument_def inputs_def no_argument_def example_cpp_def makeLexemStream_def)
  have t: "filter significant ?zs = arguments_text ?as ?ts" "List.last ?zs = List.last (arguments_text ?as ?ts)" "arguments_ok ?as ?ts"
    by (simp_all add: is_line_def example_lexem_def lexem_codes)
  have "mb_argCount ?body = int (length ?as)" by simp
  from arguments_read_back [OF f t this, of example_config "Position 1 1 0" "Position 1 1 1"] obtain args st' where
    "getActualMacroArguments example_config ?body (Position 1 1 0) (Position 1 1 1) ?st = Some (args, st')"
    "map ls_begin args = ?as" "available st' = [?a]"
    unfolding reads_to_def by (elim exE conjE)
  then show ?thesis unfolding Let_def by (intro exI conjI)
qed


end
